(* ===== verification/Prelude.thy ===== *)
theory Prelude
  imports Main "HOL-Library.Char_ord" "HOL-Library.List_Lexorder" "HOL-Library.Product_Lexorder"
    "HOL-Library.Sublist"
begin

text \<open>Shared vocabulary of the development. A Rust \<^verbatim>\<open>String\<close> or \<^verbatim>\<open>&str\<close> is the
  list of its UTF-8 bytes, each byte a \<^typ>\<open>char\<close>; its length is \<^verbatim>\<open>str::len\<close>, and its
  order is the byte order of \<^verbatim>\<open>Ord for str\<close>. The operations of the Rust standard library
  that the program calls on strings, integers and results are defined here with their
  documented behaviour, and the collections of facts that the components extend.\<close>

named_theorems wf_intros \<open>operations that keep a well-formedness invariant\<close>
named_theorems frame_simps \<open>what an operation leaves unchanged\<close>

section \<open>Results and machine integers\<close>

type_synonym ('e, 'a) result = "'e + 'a"

fun ok :: "('e, 'a) result \<Rightarrow> 'a option" where
  "ok (Inl _) = None"
| "ok (Inr a) = Some a"

fun is_ok :: "('e, 'a) result \<Rightarrow> bool" where
  "is_ok (Inl _) = False"
| "is_ok (Inr _) = True"

definition U64_MAX :: nat where
  "U64_MAX = 18446744073709551615"

definition U32_MAX :: nat where
  "U32_MAX = 4294967295"

text \<open>\<^verbatim>\<open>u64::saturating_add\<close>, and the wrap of a plain addition in the release profile.\<close>

definition sat_add :: "nat \<Rightarrow> nat \<Rightarrow> nat" where
  "sat_add a b = min (a + b) U64_MAX"

definition wrap_add :: "nat \<Rightarrow> nat \<Rightarrow> nat" where
  "wrap_add a b = (a + b) mod (U64_MAX + 1)"

lemma sat_add_le: "sat_add a b \<le> U64_MAX"
  by (simp add: sat_add_def)

lemma sat_add_mono: "a \<le> U64_MAX \<Longrightarrow> a \<le> sat_add a b"
  by (simp add: sat_add_def)

lemma sat_add_exact: "a + b \<le> U64_MAX \<Longrightarrow> sat_add a b = a + b"
  by (simp add: sat_add_def)

lemma wrap_add_le: "wrap_add a b \<le> U64_MAX"
  unfolding wrap_add_def using mod_less_divisor [of "U64_MAX + 1" "a + b"] by linarith

lemma wrap_add_exact: "a + b \<le> U64_MAX \<Longrightarrow> wrap_add a b = a + b"
  by (simp add: wrap_add_def)

text \<open>\<^verbatim>\<open>div_ceil\<close>.\<close>

definition div_ceil :: "nat \<Rightarrow> nat \<Rightarrow> nat" where
  "div_ceil a b = (a + b - 1) div b"

lemma div_ceil_ge: "0 < b \<Longrightarrow> a \<le> div_ceil a b * b"
proof -
  assume b: "0 < b"
  have "a + b - 1 < b * ((a + b - 1) div b) + b"
    using b mod_less_divisor [of b "a + b - 1"] mult_div_mod_eq [of b "a + b - 1"] by linarith
  then show ?thesis
    using b by (simp add: div_ceil_def mult.commute)
qed

section \<open>Bytes and characters\<close>

definition byte :: "char \<Rightarrow> nat" where
  "byte c = of_char c"

lemma byte_lt: "byte c < 256"
  using of_char_of [where 'a = nat] by (simp add: byte_def)

definition is_ascii :: "char \<Rightarrow> bool" where
  "is_ascii c \<longleftrightarrow> byte c < 128"

definition is_ascii_digit :: "char \<Rightarrow> bool" where
  "is_ascii_digit c \<longleftrightarrow> 48 \<le> byte c \<and> byte c \<le> 57"

definition is_ascii_lower :: "char \<Rightarrow> bool" where
  "is_ascii_lower c \<longleftrightarrow> 97 \<le> byte c \<and> byte c \<le> 122"

definition is_ascii_upper :: "char \<Rightarrow> bool" where
  "is_ascii_upper c \<longleftrightarrow> 65 \<le> byte c \<and> byte c \<le> 90"

definition is_ascii_alpha :: "char \<Rightarrow> bool" where
  "is_ascii_alpha c \<longleftrightarrow> is_ascii_lower c \<or> is_ascii_upper c"

definition is_ascii_alnum :: "char \<Rightarrow> bool" where
  "is_ascii_alnum c \<longleftrightarrow> is_ascii_alpha c \<or> is_ascii_digit c"

text \<open>\<^verbatim>\<open>u8::is_ascii_whitespace\<close>: space, tab, line feed, form feed, carriage return (and not
  the vertical tab).\<close>

definition is_ascii_ws :: "char \<Rightarrow> bool" where
  "is_ascii_ws c \<longleftrightarrow> byte c \<in> {32, 9, 10, 12, 13}"

definition is_ascii_hex :: "char \<Rightarrow> bool" where
  "is_ascii_hex c \<longleftrightarrow> is_ascii_digit c \<or> (97 \<le> byte c \<and> byte c \<le> 102) \<or> (65 \<le> byte c \<and> byte c \<le> 70)"

definition to_ascii_lower :: "char \<Rightarrow> char" where
  "to_ascii_lower c = (if is_ascii_upper c then char_of (byte c + 32) else c)"

text \<open>\<^verbatim>\<open>str::chars\<close>: a character is a lead byte with the continuation bytes after it.\<close>

definition is_cont :: "char \<Rightarrow> bool" where
  "is_cont c \<longleftrightarrow> 128 \<le> byte c \<and> byte c < 192"

function utf8_chars :: "string \<Rightarrow> string list" where
  "utf8_chars [] = []"
| "utf8_chars (b # bs) = (b # takeWhile is_cont bs) # utf8_chars (dropWhile is_cont bs)"
  by pat_completeness auto
termination
  by (relation "measure length") (auto simp: le_imp_less_Suc length_dropWhile_le)

lemma concat_utf8_chars [simp]: "concat (utf8_chars s) = s"
  by (induction s rule: utf8_chars.induct) simp_all

lemma utf8_chars_nonempty: "c \<in> set (utf8_chars s) \<Longrightarrow> c \<noteq> []"
  by (induction s rule: utf8_chars.induct) auto

lemma is_ascii_not_cont: "is_ascii c \<Longrightarrow> \<not> is_cont c"
  by (simp add: is_ascii_def is_cont_def)

lemma utf8_chars_ascii: "\<forall>c\<in>set s. is_ascii c \<Longrightarrow> utf8_chars s = map (\<lambda>c. [c]) s"
proof (induction s)
  case (Cons b bs)
  then have "takeWhile is_cont bs = []" "dropWhile is_cont bs = bs"
    by (cases bs; simp add: is_ascii_not_cont)+
  with Cons show ?case by simp
qed simp

text \<open>\<^verbatim>\<open>char::is_whitespace\<close>, the Unicode property White\_Space, on the encoded character.\<close>

definition ws_chars :: "string list" where
  "ws_chars =
    [[CHR 0x09], [CHR 0x0A], [CHR 0x0B], [CHR 0x0C], [CHR 0x0D], [CHR 0x20],
     [CHR 0xC2, CHR 0x85], [CHR 0xC2, CHR 0xA0], [CHR 0xE1, CHR 0x9A, CHR 0x80],
     [CHR 0xE2, CHR 0x80, CHR 0x80], [CHR 0xE2, CHR 0x80, CHR 0x81],
     [CHR 0xE2, CHR 0x80, CHR 0x82], [CHR 0xE2, CHR 0x80, CHR 0x83],
     [CHR 0xE2, CHR 0x80, CHR 0x84], [CHR 0xE2, CHR 0x80, CHR 0x85],
     [CHR 0xE2, CHR 0x80, CHR 0x86], [CHR 0xE2, CHR 0x80, CHR 0x87],
     [CHR 0xE2, CHR 0x80, CHR 0x88], [CHR 0xE2, CHR 0x80, CHR 0x89],
     [CHR 0xE2, CHR 0x80, CHR 0x8A], [CHR 0xE2, CHR 0x80, CHR 0xA8],
     [CHR 0xE2, CHR 0x80, CHR 0xA9], [CHR 0xE2, CHR 0x80, CHR 0xAF],
     [CHR 0xE2, CHR 0x81, CHR 0x9F], [CHR 0xE3, CHR 0x80, CHR 0x80]]"

definition is_whitespace :: "string \<Rightarrow> bool" where
  "is_whitespace c \<longleftrightarrow> c \<in> set ws_chars"

definition trim_end :: "string \<Rightarrow> string" where
  "trim_end s = concat (rev (dropWhile is_whitespace (rev (utf8_chars s))))"

definition trim_start :: "string \<Rightarrow> string" where
  "trim_start s = concat (dropWhile is_whitespace (utf8_chars s))"

definition trim :: "string \<Rightarrow> string" where
  "trim s = concat (rev (dropWhile is_whitespace (rev (dropWhile is_whitespace (utf8_chars s)))))"

definition take_chars :: "nat \<Rightarrow> string \<Rightarrow> string" where
  "take_chars n s = concat (take n (utf8_chars s))"

lemma concat_rev_dropWhile_rev: "\<exists>t. concat xs = concat (rev (dropWhile P (rev xs))) @ t"
  by (metis concat_append rev_append rev_rev_ident takeWhile_dropWhile_id)

lemma trim_end_prefix: "prefix (trim_end s) s"
proof -
  obtain t where "concat (utf8_chars s) = trim_end s @ t"
    using concat_rev_dropWhile_rev [of "utf8_chars s" is_whitespace]
    unfolding trim_end_def by blast
  then have "s = trim_end s @ t" by simp
  then show ?thesis by (rule prefixI)
qed

section \<open>Searching and splitting strings\<close>

fun strip_prefix :: "'a list \<Rightarrow> 'a list \<Rightarrow> 'a list option" where
  "strip_prefix [] s = Some s"
| "strip_prefix (p # ps) [] = None"
| "strip_prefix (p # ps) (c # cs) = (if p = c then strip_prefix ps cs else None)"

lemma strip_prefix_Some [simp]: "strip_prefix p s = Some r \<longleftrightarrow> s = p @ r"
  by (induction p s rule: strip_prefix.induct) auto

lemma strip_prefix_None: "strip_prefix p s = None \<longleftrightarrow> \<not> prefix p s"
  by (metis not_None_eq prefix_def strip_prefix_Some)

lemma strip_prefix_append [simp]: "strip_prefix p (p @ r) = Some r"
  by simp

definition strip_suffix :: "'a list \<Rightarrow> 'a list \<Rightarrow> 'a list option" where
  "strip_suffix p s = map_option rev (strip_prefix (rev p) (rev s))"

lemma strip_suffix_Some [simp]: "strip_suffix p s = Some r \<longleftrightarrow> s = r @ p"
proof -
  have "strip_suffix p s = Some r \<longleftrightarrow> rev s = rev p @ rev r"
    by (auto simp: strip_suffix_def)
  also have "\<dots> \<longleftrightarrow> rev (rev s) = rev (rev p @ rev r)"
    by (simp only: rev_is_rev_conv)
  finally show ?thesis by simp
qed

definition starts_with :: "'a list \<Rightarrow> 'a list \<Rightarrow> bool" where
  "starts_with s p \<longleftrightarrow> strip_prefix p s \<noteq> None"

definition ends_with :: "'a list \<Rightarrow> 'a list \<Rightarrow> bool" where
  "ends_with s p \<longleftrightarrow> strip_suffix p s \<noteq> None"

lemma starts_with_iff: "starts_with s p \<longleftrightarrow> prefix p s"
  by (simp add: starts_with_def strip_prefix_None)

lemma ends_with_iff: "ends_with s p \<longleftrightarrow> suffix p s"
  by (auto simp: ends_with_def suffix_def)

text \<open>\<^verbatim>\<open>str::contains\<close> on a string pattern.\<close>

fun contains_str :: "'a list \<Rightarrow> 'a list \<Rightarrow> bool" where
  "contains_str p [] = (p = [])"
| "contains_str p (c # cs) = (starts_with (c # cs) p \<or> contains_str p cs)"

lemma contains_str_iff: "contains_str p s \<longleftrightarrow> sublist p s"
proof (induction s)
  case (Cons c cs)
  then show ?case by (simp add: starts_with_iff sublist_Cons_right)
qed simp

text \<open>\<^verbatim>\<open>split_once\<close> and \<^verbatim>\<open>rsplit_once\<close> on a one-byte separator.\<close>

fun split_once :: "'a \<Rightarrow> 'a list \<Rightarrow> ('a list \<times> 'a list) option" where
  "split_once c [] = None"
| "split_once c (x # xs) =
    (if x = c then Some ([], xs) else map_option (\<lambda>(a, b). (x # a, b)) (split_once c xs))"

lemma split_once_Some: "split_once c s = Some (a, b) \<longleftrightarrow> s = a @ c # b \<and> c \<notin> set a"
proof (induction s arbitrary: a)
  case (Cons x xs)
  then show ?case by (cases a) auto
qed simp

lemma split_once_None: "split_once c s = None \<longleftrightarrow> c \<notin> set s"
  by (induction s) auto

definition rsplit_once :: "'a \<Rightarrow> 'a list \<Rightarrow> ('a list \<times> 'a list) option" where
  "rsplit_once c s = map_option (\<lambda>(a, b). (rev b, rev a)) (split_once c (rev s))"

lemma rsplit_once_Some: "rsplit_once c s = Some (a, b) \<longleftrightarrow> s = a @ c # b \<and> c \<notin> set b"
proof
  assume "rsplit_once c s = Some (a, b)"
  then obtain a' b' where "split_once c (rev s) = Some (a', b')" "a = rev b'" "b = rev a'"
    by (auto simp: rsplit_once_def)
  then have "rev s = a' @ c # b'" "c \<notin> set a'" by (auto simp: split_once_Some)
  moreover from this have "s = rev (a' @ c # b')" by (metis rev_rev_ident)
  ultimately show "s = a @ c # b \<and> c \<notin> set b"
    using \<open>a = rev b'\<close> \<open>b = rev a'\<close> by simp
next
  assume "s = a @ c # b \<and> c \<notin> set b"
  then have "split_once c (rev s) = Some (rev b, rev a)"
    by (simp add: split_once_Some)
  then show "rsplit_once c s = Some (a, b)" by (simp add: rsplit_once_def)
qed

lemma rsplit_once_None: "rsplit_once c s = None \<longleftrightarrow> c \<notin> set s"
  by (simp add: rsplit_once_def split_once_None)

text \<open>\<^verbatim>\<open>str::split\<close> on one byte: always at least one piece.\<close>

fun split_on :: "'a \<Rightarrow> 'a list \<Rightarrow> 'a list list" where
  "split_on c [] = [[]]"
| "split_on c (x # xs) =
    (if x = c then [] # split_on c xs
     else (x # hd (split_on c xs)) # tl (split_on c xs))"

lemma split_on_nonempty [simp]: "split_on c s \<noteq> []"
  by (cases s) auto

lemma split_on_pieces: "p \<in> set (split_on c s) \<Longrightarrow> c \<notin> set p"
proof (induction s arbitrary: p)
  case (Cons x xs)
  obtain q qs where q: "split_on c xs = q # qs" by (cases "split_on c xs") auto
  then have "c \<notin> set q" "\<And>p. p \<in> set qs \<Longrightarrow> c \<notin> set p" using Cons.IH by simp_all
  with Cons.prems q show ?case by (auto split: if_splits)
qed simp

text \<open>\<^verbatim>\<open>[T]::join\<close>.\<close>

fun join :: "'a list \<Rightarrow> 'a list list \<Rightarrow> 'a list" where
  "join sep [] = []"
| "join sep [x] = x"
| "join sep (x # y # ys) = x @ sep @ join sep (y # ys)"

lemma join_split_on: "join [c] (split_on c s) = s"
proof (induction s)
  case (Cons x xs)
  obtain p ps where "split_on c xs = p # ps" by (cases "split_on c xs") auto
  with Cons show ?case by (cases ps) auto
qed simp

text \<open>\<^verbatim>\<open>str::lines\<close>: pieces between line feeds, the last only when it is not empty, each
  without one carriage return at its end.\<close>

definition strip_cr :: "string \<Rightarrow> string" where
  "strip_cr s = (case strip_suffix [CHR 0x0D] s of None \<Rightarrow> s | Some r \<Rightarrow> r)"

definition str_lines :: "string \<Rightarrow> string list" where
  "str_lines s =
    (let ps = split_on (CHR 0x0A) s
     in map strip_cr (butlast ps) @ (if last ps = [] then [] else [last ps]))"

section \<open>Numbers as text\<close>

definition digit :: "nat \<Rightarrow> char" where
  "digit n = char_of (48 + n)"

definition hex_digit :: "nat \<Rightarrow> char" where
  "hex_digit n = (if n < 10 then digit n else char_of (87 + n))"

fun show_nat :: "nat \<Rightarrow> string" where
  "show_nat n = (if n < 10 then [digit n] else show_nat (n div 10) @ [digit (n mod 10)])"

declare show_nat.simps [simp del]

definition show_int :: "int \<Rightarrow> string" where
  "show_int i = (if i < 0 then CHR ''-'' # show_nat (nat (- i)) else show_nat (nat i))"

lemma byte_digit: "n < 10 \<Longrightarrow> byte (digit n) = 48 + n"
  by (simp add: byte_def digit_def)

lemma digit_is_digit: "n < 10 \<Longrightarrow> is_ascii_digit (digit n)"
  by (simp add: is_ascii_digit_def byte_digit)

lemma show_nat_digits: "c \<in> set (show_nat n) \<Longrightarrow> is_ascii_digit c"
proof (induction n rule: show_nat.induct)
  case (1 n)
  then show ?case
    by (subst (asm) show_nat.simps) (auto simp: digit_is_digit split: if_splits)
qed

lemma show_nat_nonempty [simp]: "show_nat n \<noteq> []"
  by (subst show_nat.simps) simp

text \<open>The value of a digit string, the fold that \<^verbatim>\<open>str::parse\<close> computes.\<close>

definition dec_value :: "string \<Rightarrow> nat" where
  "dec_value s = foldl (\<lambda>a c. a * 10 + (byte c - 48)) 0 s"

lemma dec_value_show_nat [simp]: "dec_value (show_nat n) = n"
proof (induction n rule: show_nat.induct)
  case (1 n)
  show ?case
  proof (cases "n < 10")
    case True
    then show ?thesis by (subst show_nat.simps) (simp add: dec_value_def byte_digit)
  next
    case False
    then have "dec_value (show_nat (n div 10)) = n div 10" using 1 by blast
    then show ?thesis using False
      by (subst show_nat.simps) (simp add: dec_value_def byte_digit)
  qed
qed

lemma show_nat_inj: "show_nat a = show_nat b \<longleftrightarrow> a = b"
  by (metis dec_value_show_nat)

text \<open>\<^verbatim>\<open>str::parse\<close> for an unsigned integer with the given maximum: an optional plus sign,
  then at least one digit, no overflow.\<close>

definition parse_unsigned :: "nat \<Rightarrow> string \<Rightarrow> nat option" where
  "parse_unsigned mx s =
    (let d = (case s of CHR ''+'' # r \<Rightarrow> r | _ \<Rightarrow> s)
     in if d \<noteq> [] \<and> list_all is_ascii_digit d \<and> dec_value d \<le> mx then Some (dec_value d) else None)"

section \<open>Lists and options\<close>

text \<open>\<^verbatim>\<open>slice::get\<close>.\<close>

definition list_get :: "nat \<Rightarrow> 'a list \<Rightarrow> 'a option" where
  "list_get i xs = (if i < length xs then Some (xs ! i) else None)"

lemma list_get_simps [simp]:
  "list_get i [] = None" "list_get 0 (x # xs) = Some x" "list_get (Suc i) (x # xs) = list_get i xs"
  by (simp_all add: list_get_def)

lemma list_get_numeral [simp]: "list_get (numeral n) (x # xs) = list_get (pred_numeral n) xs"
  by (simp add: numeral_eq_Suc)

definition list_first :: "'a list \<Rightarrow> 'a option" where
  "list_first xs = (case xs of [] \<Rightarrow> None | x # _ \<Rightarrow> Some x)"

definition list_last :: "'a list \<Rightarrow> 'a option" where
  "list_last xs = (if xs = [] then None else Some (last xs))"

text \<open>\<^verbatim>\<open>Option::filter\<close>, \<^verbatim>\<open>Option::or\<close> and \<^verbatim>\<open>unwrap_or\<close>.\<close>

definition opt_filter :: "('a \<Rightarrow> bool) \<Rightarrow> 'a option \<Rightarrow> 'a option" where
  "opt_filter P x = (case x of None \<Rightarrow> None | Some a \<Rightarrow> if P a then Some a else None)"

fun opt_or :: "'a option \<Rightarrow> 'a option \<Rightarrow> 'a option" where
  "opt_or (Some a) _ = Some a"
| "opt_or None b = b"

fun opt_default :: "'a \<Rightarrow> 'a option \<Rightarrow> 'a" where
  "opt_default d None = d"
| "opt_default d (Some a) = a"

lemma opt_filter_Some [simp]: "opt_filter P x = Some a \<longleftrightarrow> x = Some a \<and> P a"
  by (auto simp: opt_filter_def split: option.splits)

definition count_if :: "('a \<Rightarrow> bool) \<Rightarrow> 'a list \<Rightarrow> nat" where
  "count_if P xs = length (filter P xs)"

lemma count_if_simps [simp]:
  "count_if P [] = 0" "count_if P (x # xs) = (if P x then 1 else 0) + count_if P xs"
  by (simp_all add: count_if_def)

lemma fold_invariant_set:
  assumes "P s" and "\<And>x s. x \<in> set xs \<Longrightarrow> P s \<Longrightarrow> P (f x s)"
  shows "P (fold f xs s)"
  using assms by (induction xs arbitrary: s) auto

text \<open>\<^verbatim>\<open>bool::to_string\<close>.\<close>

definition show_bool :: "bool \<Rightarrow> string" where
  "show_bool b = (if b then ''true'' else ''false'')"

lemma find_SomeD: "List.find P xs = Some x \<Longrightarrow> x \<in> set xs \<and> P x"
  by (induction xs) (auto split: if_splits)

end
