(* ===== verification/OrderedMap.thy ===== *)
theory OrderedMap
  imports Prelude
begin

text \<open>\<^verbatim>\<open>BTreeMap\<close> and \<^verbatim>\<open>BTreeSet\<close>: a map is the list of its entries in strictly increasing
  key order and a set the strictly increasing list of its elements, so that iteration over the
  model is iteration in the program's order. Lookup is \<^const>\<open>map_of\<close>. The locale states the
  contract the components use, and the list implementation is its interpretation.\<close>

section \<open>The contract\<close>

locale ordered_map =
  fixes empty :: 'm
    and get :: "'m \<Rightarrow> 'k \<Rightarrow> 'v option"
    and ins :: "'k \<Rightarrow> 'v \<Rightarrow> 'm \<Rightarrow> 'm"
    and del :: "'k \<Rightarrow> 'm \<Rightarrow> 'm"
    and keys :: "'m \<Rightarrow> 'k list"
    and inv :: "'m \<Rightarrow> bool"
  assumes get_empty: "get empty k = None"
    and get_ins: "get (ins k v m) k' = (if k' = k then Some v else get m k')"
    and get_del: "get (del k m) k' = (if k' = k then None else get m k')"
    and keys_get: "k \<in> set (keys m) \<longleftrightarrow> get m k \<noteq> None"
    and inv_empty: "inv empty"
    and inv_ins: "inv m \<Longrightarrow> inv (ins k v m)"
    and inv_del: "inv m \<Longrightarrow> inv (del k m)"
    and inv_distinct: "inv m \<Longrightarrow> distinct (keys m)"
begin

lemma keys_ins: "set (keys (ins k v m)) = Set.insert k (set (keys m))"
  by (rule set_eqI) (simp add: keys_get get_ins)

lemma keys_del: "set (keys (del k m)) = set (keys m) - {k}"
  by (rule set_eqI) (simp add: keys_get get_del)

lemma inv_fold_ins: "inv m \<Longrightarrow> inv (fold (\<lambda>x. ins (f x) (g x)) xs m)"
  by (induction xs arbitrary: m) (simp_all add: inv_ins)

lemma keys_fold_ins:
  "set (keys (fold (\<lambda>x. ins (f x) (g x)) xs m)) = f ` set xs \<union> set (keys m)"
  by (induction xs arbitrary: m) (auto simp: keys_ins)

lemma get_fold_ins_const:
  "k \<notin> f ` set xs \<Longrightarrow> get (fold (\<lambda>x. ins (f x) (g x)) xs m) k = get m k"
  by (induction xs arbitrary: m) (auto simp: get_ins)

lemma length_keys_ins:
  "inv m \<Longrightarrow> length (keys (ins k v m)) = (if get m k = None then 1 else 0) + length (keys m)"
proof -
  assume m: "inv m"
  have "length (keys (ins k v m)) = card (Set.insert k (set (keys m)))"
    using distinct_card [OF inv_distinct [OF inv_ins [OF m]]] by (simp add: keys_ins)
  also have "\<dots> = (if get m k = None then 1 else 0) + card (set (keys m))"
    by (simp add: card_insert_if keys_get)
  finally show ?thesis
    using distinct_card [OF inv_distinct [OF m]] by simp
qed

end

section \<open>Sorted association lists\<close>

type_synonym ('k, 'v) bmap = "('k \<times> 'v) list"

fun bm_insert :: "'k::linorder \<Rightarrow> 'v \<Rightarrow> ('k, 'v) bmap \<Rightarrow> ('k, 'v) bmap" where
  "bm_insert k v [] = [(k, v)]"
| "bm_insert k v ((k', v') # m) =
    (if k < k' then (k, v) # (k', v') # m
     else if k = k' then (k, v) # m
     else (k', v') # bm_insert k v m)"

definition bm_remove :: "'k \<Rightarrow> ('k, 'v) bmap \<Rightarrow> ('k, 'v) bmap" where
  "bm_remove k m = filter (\<lambda>e. fst e \<noteq> k) m"

definition bm_keys :: "('k, 'v) bmap \<Rightarrow> 'k list" where
  "bm_keys m = map fst m"

definition bm_values :: "('k, 'v) bmap \<Rightarrow> 'v list" where
  "bm_values m = map snd m"

definition bm_wf :: "('k::linorder, 'v) bmap \<Rightarrow> bool" where
  "bm_wf m \<longleftrightarrow> sorted_wrt (<) (map fst m)"

definition bm_contains :: "('k, 'v) bmap \<Rightarrow> 'k \<Rightarrow> bool" where
  "bm_contains m k \<longleftrightarrow> map_of m k \<noteq> None"

text \<open>\<^verbatim>\<open>*m.entry(k).or_insert(d)\<close> followed by an update, and an update through \<^verbatim>\<open>get_mut\<close>.\<close>

definition bm_entry :: "'v \<Rightarrow> 'k::linorder \<Rightarrow> ('v \<Rightarrow> 'v) \<Rightarrow> ('k, 'v) bmap \<Rightarrow> ('k, 'v) bmap" where
  "bm_entry d k f m = bm_insert k (f (opt_default d (map_of m k))) m"

definition bm_get_mut :: "'k::linorder \<Rightarrow> ('v \<Rightarrow> 'v) \<Rightarrow> ('k, 'v) bmap \<Rightarrow> ('k, 'v) bmap" where
  "bm_get_mut k f m = (case map_of m k of None \<Rightarrow> m | Some v \<Rightarrow> bm_insert k (f v) m)"

definition bm_of_list :: "('k::linorder \<times> 'v) list \<Rightarrow> ('k, 'v) bmap" where
  "bm_of_list xs = fold (\<lambda>x. bm_insert (fst x) (snd x)) xs []"

lemma map_of_bm_insert [simp]: "map_of (bm_insert k v m) = (map_of m)(k \<mapsto> v)"
  by (induction k v m rule: bm_insert.induct) auto

lemma keys_bm_insert [simp]: "fst ` set (bm_insert k v m) = Set.insert k (fst ` set m)"
  by (induction k v m rule: bm_insert.induct) auto

lemma set_keys_bm_insert [simp]: "set (map fst (bm_insert k v m)) = Set.insert k (set (map fst m))"
  using keys_bm_insert [of k v m] by simp

lemma bm_wf_Nil [simp]: "bm_wf []"
  by (simp add: bm_wf_def)

lemma bm_wf_insert [wf_intros]: "bm_wf m \<Longrightarrow> bm_wf (bm_insert k v m)"
  unfolding bm_wf_def
proof (induction k v m rule: bm_insert.induct)
  case (2 k v k' v' m)
  then have below: "\<forall>x\<in>fst ` set m. k' < x" by auto
  consider "k < k'" | "k = k'" | "k' < k" by (rule linorder_cases)
  then show ?case
  proof cases
    case 3
    then have "sorted_wrt (<) (map fst (bm_insert k v m))" using 2 by simp
    moreover have "\<forall>x\<in>fst ` set (bm_insert k v m). k' < x" using 3 below by simp
    ultimately show ?thesis using 3 by auto
  qed (use 2 below in auto)
qed simp

lemma bm_wf_remove [wf_intros]: "bm_wf m \<Longrightarrow> bm_wf (bm_remove k m)"
  unfolding bm_wf_def bm_remove_def by (induction m) auto

lemma map_of_bm_remove: "map_of (bm_remove k m) k' = (if k' = k then None else map_of m k')"
  by (induction m) (auto simp: bm_remove_def)

lemma keys_bm_remove: "fst ` set (bm_remove k m) = fst ` set m - {k}"
  by (auto simp: bm_remove_def)

lemma bm_wf_distinct: "bm_wf m \<Longrightarrow> distinct (bm_keys m)"
  unfolding bm_wf_def bm_keys_def using strict_sorted_iff by blast

interpretation bm: ordered_map "[]" map_of bm_insert bm_remove bm_keys bm_wf
proof unfold_locales
  show "k \<in> set (bm_keys m) \<longleftrightarrow> map_of m k \<noteq> None" for k and m :: "('a \<times> 'b) list"
    by (simp add: bm_keys_def map_of_eq_None_iff)
qed (simp_all add: map_of_bm_remove bm_wf_insert bm_wf_remove bm_wf_distinct)

lemma bm_contains_keys: "bm_contains m k \<longleftrightarrow> k \<in> set (bm_keys m)"
  by (simp add: bm_contains_def bm_keys_def map_of_eq_None_iff del: not_None_eq)

lemma bm_wf_entry [wf_intros]: "bm_wf m \<Longrightarrow> bm_wf (bm_entry d k f m)"
  by (simp add: bm_entry_def bm_wf_insert)

lemma bm_wf_get_mut [wf_intros]: "bm_wf m \<Longrightarrow> bm_wf (bm_get_mut k f m)"
  by (simp add: bm_get_mut_def bm_wf_insert split: option.split)

lemma map_of_bm_entry [simp]:
  "map_of (bm_entry d k f m) = (map_of m)(k \<mapsto> f (opt_default d (map_of m k)))"
  by (simp add: bm_entry_def)

lemma keys_bm_entry [simp]: "fst ` set (bm_entry d k f m) = Set.insert k (fst ` set m)"
  by (simp add: bm_entry_def)

lemma keys_bm_get_mut [simp]: "fst ` set (bm_get_mut k f m) = fst ` set m"
proof (cases "map_of m k")
  case (Some v)
  then have "k \<in> fst ` set m" by (metis domI dom_map_of_conv_image_fst)
  with Some show ?thesis by (simp add: bm_get_mut_def insert_absorb)
qed (simp add: bm_get_mut_def)

lemma map_of_bm_get_mut [simp]:
  "map_of (bm_get_mut k f m) k' = (if k' = k then map_option f (map_of m k) else map_of m k')"
  by (simp add: bm_get_mut_def split: option.split)

lemma bm_wf_of_list [wf_intros]: "bm_wf (bm_of_list xs)"
  unfolding bm_of_list_def by (rule bm.inv_fold_ins) simp

lemma keys_bm_of_list: "fst ` set (bm_of_list xs) = fst ` set xs"
  using bm.keys_fold_ins [of fst snd xs "[]"] by (simp add: bm_of_list_def bm_keys_def)

lemma map_of_Some_in_wf: "bm_wf m \<Longrightarrow> map_of m k = Some v \<longleftrightarrow> (k, v) \<in> set m"
  using bm_wf_distinct [of m] by (simp add: bm_keys_def)

lemma bm_rebuild: "bm_wf m \<Longrightarrow> map (\<lambda>k. (k, the (map_of m k))) (map fst m) = m"
  using bm_wf_distinct [of m] by (auto simp: bm_keys_def comp_def intro!: map_idI)

lemma bm_ext: "bm_wf m \<Longrightarrow> bm_wf m' \<Longrightarrow> map_of m = map_of m' \<Longrightarrow> m = m'"
proof -
  assume wf: "bm_wf m" "bm_wf m'" and eq: "map_of m = map_of m'"
  have "set (map fst m) = set (map fst m')"
    using eq by (metis dom_map_of_conv_image_fst image_set)
  then have "map fst m = map fst m'"
    using wf strict_sorted_equal [of "map fst m" "map fst m'"] by (simp add: bm_wf_def)
  then show ?thesis using bm_rebuild [OF wf(1)] bm_rebuild [OF wf(2)] eq by simp
qed

lemma map_of_fold_insert:
  "distinct (map fst xs) \<Longrightarrow>
    map_of (fold (\<lambda>x. bm_insert (fst x) (snd x)) xs m) = map_of m ++ map_of xs"
proof (induction xs arbitrary: m)
  case (Cons x xs)
  then have "map_of (fold (\<lambda>x. bm_insert (fst x) (snd x)) xs (bm_insert (fst x) (snd x) m)) =
    map_of (bm_insert (fst x) (snd x) m) ++ map_of xs" by simp
  moreover have "map_of xs (fst x) = None" using Cons.prems by (simp add: map_of_eq_None_iff)
  ultimately show ?case by (auto simp: map_add_def fun_eq_iff split: option.splits)
qed simp

lemma bm_of_list_id: "bm_wf m \<Longrightarrow> bm_of_list m = m"
  using bm_ext [of "bm_of_list m" m] map_of_fold_insert [of m "[]"] bm_wf_of_list [of m]
    bm_wf_distinct [of m]
  by (simp add: bm_of_list_def bm_keys_def)

lemma set_bm_insert_subset: "set (bm_insert k v m) \<subseteq> Set.insert (k, v) (set m)"
  by (induction k v m rule: bm_insert.induct) auto

section \<open>Sorted lists as sets\<close>

type_synonym 'a bset = "'a list"

fun bs_insert :: "'a::linorder \<Rightarrow> 'a bset \<Rightarrow> 'a bset" where
  "bs_insert x [] = [x]"
| "bs_insert x (y # ys) = (if x < y then x # y # ys else if x = y then y # ys else y # bs_insert x ys)"

definition bs_extend :: "'a::linorder list \<Rightarrow> 'a bset \<Rightarrow> 'a bset" where
  "bs_extend xs s = fold bs_insert xs s"

definition bs_wf :: "'a::linorder bset \<Rightarrow> bool" where
  "bs_wf s \<longleftrightarrow> sorted_wrt (<) s"

lemma set_bs_insert [simp]: "set (bs_insert x s) = Set.insert x (set s)"
  by (induction x s rule: bs_insert.induct) auto

lemma bs_wf_Nil [simp]: "bs_wf []"
  by (simp add: bs_wf_def)

lemma bs_wf_insert [wf_intros]: "bs_wf s \<Longrightarrow> bs_wf (bs_insert x s)"
  unfolding bs_wf_def by (induction x s rule: bs_insert.induct) auto

lemma set_bs_extend [simp]: "set (bs_extend xs s) = set xs \<union> set s"
  unfolding bs_extend_def by (induction xs arbitrary: s) auto

lemma bs_wf_extend [wf_intros]: "bs_wf s \<Longrightarrow> bs_wf (bs_extend xs s)"
  unfolding bs_extend_def by (rule fold_invariant_set) (simp_all add: bs_wf_insert)

lemma bs_wf_distinct: "bs_wf s \<Longrightarrow> distinct s"
  unfolding bs_wf_def using strict_sorted_iff by blast

lemma bs_wf_filter [wf_intros]: "bs_wf s \<Longrightarrow> bs_wf (filter P s)"
  unfolding bs_wf_def by (simp add: sorted_wrt_filter)

lemma bs_wf_keys: "bm_wf m \<Longrightarrow> bs_wf (map fst m)"
  by (simp add: bs_wf_def bm_wf_def)

lemma bs_ext: "bs_wf s \<Longrightarrow> bs_wf t \<Longrightarrow> set s = set t \<Longrightarrow> s = t"
  unfolding bs_wf_def using strict_sorted_equal by blast

end
