(* ===== verification/Json.thy ===== *)
theory Json
  imports Complex_Main OrderedMap "HOL-Library.Countable"
begin

text \<open>The value type of the third-party \<^verbatim>\<open>serde_json\<close> crate, as far as the sources read it:
  numbers keep the crate's three cases, and objects are sorted maps. Turning text into values
  is the crate's work and stays a parameter of the definitions that call it.\<close>

datatype jnum = PosInt nat | NegInt int | JFloat rat

datatype json =
    JNull
  | JBool bool
  | JNum jnum
  | JStr string
  | JArr "json list"
  | JObj "(string \<times> json) list"

definition I64_MAX :: nat where
  "I64_MAX = 9223372036854775807"

fun as_str :: "json \<Rightarrow> string option" where
  "as_str (JStr s) = Some s"
| "as_str _ = None"

fun as_u64 :: "json \<Rightarrow> nat option" where
  "as_u64 (JNum (PosInt n)) = Some n"
| "as_u64 _ = None"

fun as_i64 :: "json \<Rightarrow> int option" where
  "as_i64 (JNum (PosInt n)) = (if n \<le> I64_MAX then Some (int n) else None)"
| "as_i64 (JNum (NegInt i)) = Some i"
| "as_i64 _ = None"

fun as_bool :: "json \<Rightarrow> bool option" where
  "as_bool (JBool b) = Some b"
| "as_bool _ = None"

fun as_array :: "json \<Rightarrow> json list option" where
  "as_array (JArr xs) = Some xs"
| "as_array _ = None"

fun as_object :: "json \<Rightarrow> (string \<times> json) list option" where
  "as_object (JObj m) = Some m"
| "as_object _ = None"

text \<open>\<^verbatim>\<open>Value::get\<close> with a string key.\<close>

fun json_get :: "string \<Rightarrow> json \<Rightarrow> json option" where
  "json_get k (JObj m) = map_of m k"
| "json_get k _ = None"

text \<open>The \<^verbatim>\<open>json!\<close> macro and the setting of a field.\<close>

definition json_obj :: "(string \<times> json) list \<Rightarrow> json" where
  "json_obj kvs = JObj (bm_of_list kvs)"

definition set_field :: "string \<Rightarrow> json \<Rightarrow> json \<Rightarrow> json" where
  "set_field k v j = (case j of JObj m \<Rightarrow> JObj (bm_insert k v m) | _ \<Rightarrow> JObj [(k, v)])"

definition json_of_int :: "int \<Rightarrow> json" where
  "json_of_int i = JNum (if 0 \<le> i then PosInt (nat i) else NegInt i)"

definition json_opt :: "('a \<Rightarrow> json) \<Rightarrow> 'a option \<Rightarrow> json" where
  "json_opt f x = (case x of None \<Rightarrow> JNull | Some v \<Rightarrow> f v)"

definition json_strs :: "string list \<Rightarrow> json" where
  "json_strs xs = JArr (map JStr xs)"

text \<open>How deep the crate's reader follows arrays and objects: it gives up on the 128th level
  (\<^verbatim>\<open>remaining_depth\<close> of its documentation, 128 by default). What it returns fits: objects
  are sorted maps, and nothing is nested deeper.\<close>

definition JSON_DEPTH :: nat where
  "JSON_DEPTH = 127"

function json_fits :: "nat \<Rightarrow> json \<Rightarrow> bool" where
  "json_fits d (JArr xs) \<longleftrightarrow> 0 < d \<and> (\<forall>x\<in>set xs. json_fits (d - 1) x)"
| "json_fits d (JObj es) \<longleftrightarrow> 0 < d \<and> bm_wf es \<and> (\<forall>e\<in>set es. json_fits (d - 1) (snd e))"
| "json_fits d JNull \<longleftrightarrow> True"
| "json_fits d (JBool b) \<longleftrightarrow> True"
| "json_fits d (JNum n) \<longleftrightarrow> True"
| "json_fits d (JStr s) \<longleftrightarrow> True"
  by pat_completeness auto

lemma json_size_entry: "e \<in> set es \<Longrightarrow> size (snd e) < Suc (size_list (size_prod (\<lambda>_. 0) size) es)"
proof -
  assume "e \<in> set es"
  then have "size_prod (\<lambda>_. 0) size e \<le> size_list (size_prod (\<lambda>_. 0) size) es"
    by (rule size_list_estimation') simp
  then show ?thesis by (cases e) simp
qed

lemma json_size_item: "x \<in> set xs \<Longrightarrow> size x < Suc (size_list size xs)"
  using size_list_estimation' [of x xs "size x" size] by fastforce

termination json_fits
  by (relation "measure (\<lambda>(d, v). size v)") (auto simp: json_size_item json_size_entry)

text \<open>Values whose text reads back as they are: every number is an integer of 64 bits. The text of a float, and
  what it reads back as, is the business of the crate.\<close>

fun num_exact :: "jnum \<Rightarrow> bool" where
  "num_exact (PosInt n) \<longleftrightarrow> n < 2 ^ 64"
| "num_exact (NegInt i) \<longleftrightarrow> - (2 ^ 63) \<le> i \<and> i < 0"
| "num_exact (JFloat q) \<longleftrightarrow> False"

function json_exact :: "json \<Rightarrow> bool" where
  "json_exact (JArr xs) \<longleftrightarrow> (\<forall>x\<in>set xs. json_exact x)"
| "json_exact (JObj es) \<longleftrightarrow> (\<forall>e\<in>set es. json_exact (snd e))"
| "json_exact JNull \<longleftrightarrow> True"
| "json_exact (JBool b) \<longleftrightarrow> True"
| "json_exact (JNum n) \<longleftrightarrow> num_exact n"
| "json_exact (JStr s) \<longleftrightarrow> True"
  by pat_completeness auto
termination json_exact
  by (relation "measure size") (auto simp: json_size_item json_size_entry)

lemma fits_insert: "json_fits d (JObj m) \<Longrightarrow> json_fits (d - 1) v \<Longrightarrow> json_fits d (JObj (bm_insert k v m))"
  using bm_wf_insert [of m k v] set_bm_insert_subset [of k v m] by auto

lemma fits_of_list: "\<forall>e\<in>set es. json_fits d (snd e) \<Longrightarrow> json_fits (Suc d) (JObj (bm_of_list es))"
proof (induction es rule: rev_induct)
  case (snoc e es)
  have "bm_of_list (es @ [e]) = bm_insert (fst e) (snd e) (bm_of_list es)" by (simp add: bm_of_list_def)
  then show ?case using snoc fits_insert [of "Suc d" "bm_of_list es" "snd e" "fst e"] by simp
qed (simp add: bm_of_list_def)

lemma exact_of_list: "\<forall>e\<in>set es. json_exact (snd e) \<Longrightarrow> json_exact (JObj (bm_of_list es))"
proof (induction es rule: rev_induct)
  case (snoc e es)
  have "bm_of_list (es @ [e]) = bm_insert (fst e) (snd e) (bm_of_list es)" by (simp add: bm_of_list_def)
  then show ?case using snoc set_bm_insert_subset [of "fst e" "snd e" "bm_of_list es"] by auto
qed (simp add: bm_of_list_def)

lemma json_fits_mono: "json_fits d v \<Longrightarrow> d \<le> d' \<Longrightarrow> json_fits d' v"
proof (induction v arbitrary: d d')
  case (JArr xs)
  then show ?case by (auto intro: diff_le_mono)
next
  case (JObj es)
  have "json_fits (d' - 1) (snd e)" if "e \<in> set es" for e
    by (rule JObj.IH [OF that, of "snd e" "d - 1"]) (use JObj.prems that in \<open>auto simp: snds.simps\<close>)
  then show ?case using JObj.prems by auto
qed simp_all

lemma json_get_obj [simp]: "json_get k (json_obj kvs) = map_of (bm_of_list kvs) k"
  by (simp add: json_obj_def)

lemma json_get_set [simp]: "json_get k (set_field k' v (JObj m)) = (if k = k' then Some v else map_of m k)"
  by (simp add: set_field_def)

lemma map_of_bm_of_list: "map_of (bm_of_list kvs) k = map_of (rev kvs) k"
proof (induction kvs rule: rev_induct)
  case (snoc e kvs)
  have "bm_of_list (kvs @ [e]) = bm_insert (fst e) (snd e) (bm_of_list kvs)" by (simp add: bm_of_list_def)
  then show ?case using snoc by (cases e) simp
qed (simp add: bm_of_list_def)

lemma set_field_obj: "\<exists>m. set_field k v j = JObj m"
  by (cases j) (simp_all add: set_field_def)

lemma json_get_set_field: "k \<noteq> k' \<Longrightarrow> json_get k (set_field k' v j) = json_get k j"
  by (cases j) (auto simp: set_field_def)

lemma json_get_set_same [simp]: "json_get k (set_field k v j) = Some v"
  by (cases j) (simp_all add: set_field_def)

text \<open>Values can be numbered, which gives the examples a printer and a parser that undo each other.\<close>

instance jnum :: countable by countable_datatype
instance json :: countable by countable_datatype

end
