(* ===== verification/NixMsg.thy ===== *)
theory NixMsg
  imports Json
begin

text \<open>The record model of Nix's internal-JSON logger
  (\<^verbatim>\<open>crates/nix-build-forest/src/msg.rs\<close>). Codes of activity and result kinds outside the known
  vocabulary stay representable. Decoding a JSON payload into the record is derived by serde and
  is the parameter \<open>dec\<close> of \<open>parse_nix_line\<close>.\<close>

definition NIX_JSON_PREFIX :: string where
  "NIX_JSON_PREFIX = ''@nix ''"

datatype activity_type =
    UnknownActivity
  | CopyPath
  | FileTransfer
  | Realise
  | CopyPaths
  | Builds
  | Build
  | OptimiseStore
  | VerifyPaths
  | Substitute
  | QueryPathInfo
  | PostBuildHook
  | BuildWaiting
  | FetchTree
  | OtherActivity int

definition activity_from_code :: "int \<Rightarrow> activity_type" where
  "activity_from_code code =
    (if code = 0 then UnknownActivity
     else if code = 100 then CopyPath
     else if code = 101 then FileTransfer
     else if code = 102 then Realise
     else if code = 103 then CopyPaths
     else if code = 104 then Builds
     else if code = 105 then Build
     else if code = 106 then OptimiseStore
     else if code = 107 then VerifyPaths
     else if code = 108 then Substitute
     else if code = 109 then QueryPathInfo
     else if code = 110 then PostBuildHook
     else if code = 111 then BuildWaiting
     else if code = 112 then FetchTree
     else OtherActivity code)"

text \<open>The derived order: the position of the variant, then the payload.\<close>

fun activity_rank :: "activity_type \<Rightarrow> nat \<times> int" where
  "activity_rank UnknownActivity = (0, 0)"
| "activity_rank CopyPath = (1, 0)"
| "activity_rank FileTransfer = (2, 0)"
| "activity_rank Realise = (3, 0)"
| "activity_rank CopyPaths = (4, 0)"
| "activity_rank Builds = (5, 0)"
| "activity_rank Build = (6, 0)"
| "activity_rank OptimiseStore = (7, 0)"
| "activity_rank VerifyPaths = (8, 0)"
| "activity_rank Substitute = (9, 0)"
| "activity_rank QueryPathInfo = (10, 0)"
| "activity_rank PostBuildHook = (11, 0)"
| "activity_rank BuildWaiting = (12, 0)"
| "activity_rank FetchTree = (13, 0)"
| "activity_rank (OtherActivity code) = (14, code)"

lemma activity_rank_inj: "activity_rank a = activity_rank b \<longleftrightarrow> a = b"
  by (cases a; cases b; simp)

instantiation activity_type :: linorder
begin

definition less_eq_activity_type :: "activity_type \<Rightarrow> activity_type \<Rightarrow> bool" where
  "less_eq_activity_type a b \<longleftrightarrow> activity_rank a \<le> activity_rank b"

definition less_activity_type :: "activity_type \<Rightarrow> activity_type \<Rightarrow> bool" where
  "less_activity_type a b \<longleftrightarrow> activity_rank a < activity_rank b"

instance
  by standard
    (auto simp: less_eq_activity_type_def less_activity_type_def activity_rank_inj [symmetric])

end

datatype result_type =
    FileLinked
  | BuildLogLineR
  | UntrustedPath
  | CorruptedPath
  | SetPhase
  | Progress
  | SetExpected
  | PostBuildLogLine
  | FetchStatus
  | OtherResult int

definition result_from_code :: "int \<Rightarrow> result_type" where
  "result_from_code code =
    (if code = 100 then FileLinked
     else if code = 101 then BuildLogLineR
     else if code = 102 then UntrustedPath
     else if code = 103 then CorruptedPath
     else if code = 104 then SetPhase
     else if code = 105 then Progress
     else if code = 106 then SetExpected
     else if code = 107 then PostBuildLogLine
     else if code = 108 then FetchStatus
     else OtherResult code)"

record nix_message =
  nm_action :: string
  nm_id :: "nat option"
  nm_type_code :: "int option"
  nm_level :: "int option"
  nm_parent :: "nat option"
  nm_text :: "string option"
  nm_msg :: "string option"
  nm_raw_msg :: "string option"
  nm_fields :: "json list"
  nm_extra :: "(string, json) bmap"

definition nm_activity_type :: "nix_message \<Rightarrow> activity_type option" where
  "nm_activity_type m = map_option activity_from_code (nm_type_code m)"

definition nm_result_type :: "nix_message \<Rightarrow> result_type option" where
  "nm_result_type m = map_option result_from_code (nm_type_code m)"

definition message_text :: "nix_message \<Rightarrow> string option" where
  "message_text m = opt_or (opt_or (nm_raw_msg m) (nm_msg m)) (nm_text m)"

definition parse_nix_line ::
  "(string \<Rightarrow> ('e, nix_message) result) \<Rightarrow> string \<Rightarrow> ('e, nix_message option) result" where
  "parse_nix_line dec line =
    (case strip_prefix NIX_JSON_PREFIX (trim_end line) of
       None \<Rightarrow> Inr None
     | Some payload \<Rightarrow> (case dec payload of Inl e \<Rightarrow> Inl e | Inr m \<Rightarrow> Inr (Some m)))"

section \<open>The vocabulary\<close>

text \<open>A known kind is never reported as unknown, and an unknown code is kept exactly.\<close>

definition known_activity_codes :: "int list" where
  "known_activity_codes = 0 # [100..112]"

definition known_result_codes :: "int list" where
  "known_result_codes = [100..108]"

lemma activity_from_code_Other:
  "activity_from_code c = OtherActivity d \<longleftrightarrow> c = d \<and> c \<notin> set known_activity_codes"
  unfolding activity_from_code_def known_activity_codes_def by (simp add: upto_rec1)

lemma result_from_code_Other:
  "result_from_code c = OtherResult d \<longleftrightarrow> c = d \<and> c \<notin> set known_result_codes"
  unfolding result_from_code_def known_result_codes_def by (simp add: upto_rec1)

lemma activity_from_code_inj: "activity_from_code a = activity_from_code b \<longleftrightarrow> a = b"
  unfolding activity_from_code_def by (simp split: if_splits)

lemma parse_nix_line_plain:
  "\<not> starts_with line NIX_JSON_PREFIX \<Longrightarrow> parse_nix_line dec line = Inr None"
proof -
  assume "\<not> starts_with line NIX_JSON_PREFIX"
  then have "\<not> prefix NIX_JSON_PREFIX (trim_end line)"
    using trim_end_prefix [of line] prefix_order.trans by (auto simp: starts_with_iff)
  then have "strip_prefix NIX_JSON_PREFIX (trim_end line) = None"
    by (simp add: strip_prefix_None)
  then show ?thesis by (simp add: parse_nix_line_def)
qed

end
