(* ===== verification/Aterm.thy ===== *)
theory Aterm
  imports OrderedMap
begin

text \<open>The ATerm parser for Nix derivations (\<^verbatim>\<open>crates/nix-build-forest/src/drv.rs\<close>). The parser
  state is the offset with the bytes that remain, so \<open>at + length rest\<close> is the length of the
  input. The mutually recursive descent carries fuel; \<open>term_fuel_enough\<close> gives a fuel linear in
  the input that is never exhausted, so that \<open>parse_derivation\<close> is total. A printer of the term
  grammar serves as the specification: parsing inverts it on ASCII terms.\<close>

record derivation =
  drv_outputs :: "(string, string) bmap"
  drv_input_drvs :: "(string, string list) bmap"

datatype aterm = App string "aterm list" | TList "aterm list" | TTuple "aterm list" | TStr string

record parse_error =
  pe_offset :: nat
  pe_message :: string

type_synonym parser = "nat \<times> string"

definition parser_new :: "string \<Rightarrow> parser" where
  "parser_new input = (0, input)"

definition parse_err :: "parser \<Rightarrow> string \<Rightarrow> parse_error" where
  "parse_err p msg = \<lparr>pe_offset = fst p, pe_message = msg\<rparr>"

definition skip_ws :: "parser \<Rightarrow> parser" where
  "skip_ws p = (fst p + length (takeWhile is_ascii_ws (snd p)), dropWhile is_ascii_ws (snd p))"

definition p_take :: "char \<Rightarrow> parser \<Rightarrow> bool \<times> parser" where
  "p_take b p =
    (let q = skip_ws p
     in case snd q of
          [] \<Rightarrow> (False, q)
        | c # cs \<Rightarrow> if c = b then (True, (fst q + 1, cs)) else (False, q))"

definition p_expect :: "char \<Rightarrow> parser \<Rightarrow> (parse_error, unit \<times> parser) result" where
  "p_expect b p =
    (case p_take b p of
       (True, q) \<Rightarrow> Inr ((), q)
     | (False, q) \<Rightarrow> Inl (parse_err q ''unexpected token''))"

definition is_ident_byte :: "char \<Rightarrow> bool" where
  "is_ident_byte b \<longleftrightarrow> is_ascii_alnum b \<or> b = CHR ''_'' \<or> b = CHR ''-''"

definition p_ident :: "parser \<Rightarrow> (parse_error, string \<times> parser) result" where
  "p_ident p =
    (let q = skip_ws p; name = takeWhile is_ident_byte (snd q)
     in if name = [] then Inl (parse_err q ''expected constructor name'')
        else Inr (name, (fst q + length name, dropWhile is_ident_byte (snd q))))"

text \<open>\<^verbatim>\<open>String::push(char::from(byte))\<close>: the byte read as a Latin-1 character, in UTF-8.\<close>

definition char_from :: "char \<Rightarrow> string" where
  "char_from b =
    (if is_ascii b then [b]
     else [char_of (192 + byte b div 64), char_of (128 + byte b mod 64)])"

definition unescape :: "char \<Rightarrow> string" where
  "unescape e =
    (if e = CHR ''n'' then [CHR 0x0A]
     else if e = CHR ''r'' then [CHR 0x0D]
     else if e = CHR ''t'' then [CHR 0x09]
     else if e = CHR 0x22 then [CHR 0x22]
     else if e = CHR 0x5C then [CHR 0x5C]
     else char_from e)"

fun p_string_loop :: "nat \<Rightarrow> string \<Rightarrow> string \<Rightarrow> (parse_error, string \<times> parser) result" where
  "p_string_loop at [] out = Inl (parse_err (at, []) ''unterminated string'')"
| "p_string_loop at (b # cs) out =
    (if b = CHR 0x22 then Inr (out, (at + 1, cs))
     else if b = CHR 0x5C then
       (case cs of
          [] \<Rightarrow> Inl (parse_err (at + 1, []) ''unterminated escape'')
        | e # ds \<Rightarrow> p_string_loop (at + 2) ds (out @ unescape e))
     else p_string_loop (at + 1) cs (out @ char_from b))"

definition p_string :: "parser \<Rightarrow> (parse_error, string \<times> parser) result" where
  "p_string p =
    (case p_expect (CHR 0x22) p of
       Inl e \<Rightarrow> Inl e
     | Inr (_, q) \<Rightarrow> p_string_loop (fst q) (snd q) [])"

text \<open>Sequencing with fuel: \<^const>\<open>None\<close> is fuel exhausted, \<^const>\<open>Inl\<close> the parser's error.\<close>

fun and_then ::
  "('e, 'a) result option \<Rightarrow> ('a \<Rightarrow> ('e, 'b) result option) \<Rightarrow> ('e, 'b) result option" where
  "and_then None f = None"
| "and_then (Some (Inl e)) f = Some (Inl e)"
| "and_then (Some (Inr a)) f = f a"

fun p_term :: "nat \<Rightarrow> parser \<Rightarrow> (parse_error, aterm \<times> parser) result option"
  and p_comma_terms :: "nat \<Rightarrow> char \<Rightarrow> parser \<Rightarrow> (parse_error, aterm list \<times> parser) result option"
  and p_terms_loop ::
    "nat \<Rightarrow> char \<Rightarrow> aterm list \<Rightarrow> parser \<Rightarrow> (parse_error, aterm list \<times> parser) result option"
where
  "p_term 0 p = None"
| "p_term (Suc n) p =
    (let q = skip_ws p
     in case snd q of
          [] \<Rightarrow> Some (Inl (parse_err q ''unexpected end of input''))
        | c # _ \<Rightarrow>
            if c = CHR 0x22 then
              and_then (Some (p_string q)) (\<lambda>(s, r). Some (Inr (TStr s, r)))
            else if c = CHR ''['' then
              and_then (Some (p_expect (CHR ''['') q)) (\<lambda>(_, r).
                and_then (p_comma_terms n (CHR '']'') r) (\<lambda>(ts, r). Some (Inr (TList ts, r))))
            else if c = CHR ''('' then
              and_then (Some (p_expect (CHR ''('') q)) (\<lambda>(_, r).
                and_then (p_comma_terms n (CHR '')'') r) (\<lambda>(ts, r). Some (Inr (TTuple ts, r))))
            else
              and_then (Some (p_ident q)) (\<lambda>(name, r).
                and_then (Some (p_expect (CHR ''('') r)) (\<lambda>(_, r).
                  and_then (p_comma_terms n (CHR '')'') r) (\<lambda>(ts, r). Some (Inr (App name ts, r))))))"
| "p_comma_terms 0 close p = None"
| "p_comma_terms (Suc n) close p =
    (case p_take close (skip_ws p) of
       (True, q) \<Rightarrow> Some (Inr ([], q))
     | (False, q) \<Rightarrow> p_terms_loop n close [] q)"
| "p_terms_loop 0 close terms p = None"
| "p_terms_loop (Suc n) close terms p =
    and_then (p_term n p) (\<lambda>(t, q).
      case p_take close q of
        (True, r) \<Rightarrow> Some (Inr (terms @ [t], r))
      | (False, r) \<Rightarrow>
          and_then (Some (p_expect (CHR '','') r)) (\<lambda>(_, r). p_terms_loop n close (terms @ [t]) r))"

fun term_as_str :: "aterm \<Rightarrow> string option" where
  "term_as_str (TStr v) = Some v"
| "term_as_str _ = None"

fun add_output :: "aterm \<Rightarrow> (string, string) bmap \<Rightarrow> (string, string) bmap" where
  "add_output (TTuple fs) m =
    (case (Option.bind (list_first fs) term_as_str, Option.bind (list_get 1 fs) term_as_str) of
       (Some name, Some path) \<Rightarrow> bm_insert name path m
     | _ \<Rightarrow> m)"
| "add_output _ m = m"

fun add_input_drv :: "aterm \<Rightarrow> (string, string list) bmap \<Rightarrow> (string, string list) bmap" where
  "add_input_drv (TTuple fs) m =
    (case Option.bind (list_first fs) term_as_str of
       None \<Rightarrow> m
     | Some path \<Rightarrow>
         (case list_get 1 fs of
            Some (TList names) \<Rightarrow> bm_insert path (List.map_filter term_as_str names) m
          | _ \<Rightarrow> bm_insert path [] m))"
| "add_input_drv _ m = m"

fun list_entries :: "aterm \<Rightarrow> aterm list" where
  "list_entries (TList entries) = entries"
| "list_entries _ = []"

definition finish_derivation :: "aterm \<Rightarrow> parser \<Rightarrow> (parse_error, derivation) result" where
  "finish_derivation t p =
    (let q = skip_ws p
     in if snd q \<noteq> [] then Inl (parse_err q ''trailing input'')
        else (case t of
            App name args \<Rightarrow>
              if name \<noteq> ''Derive'' \<or> length args < 2
              then Inl (parse_err q ''expected Derive outputs and inputDrvs'')
              else Inr \<lparr>drv_outputs = fold add_output (list_entries (args ! 0)) [],
                        drv_input_drvs = fold add_input_drv (list_entries (args ! 1)) []\<rparr>
          | _ \<Rightarrow> Inl (parse_err q ''expected Derive application'')))"

definition parse_derivation_fuel :: "nat \<Rightarrow> string \<Rightarrow> (parse_error, derivation) result option" where
  "parse_derivation_fuel n input =
    and_then (p_term n (parser_new input)) (\<lambda>(t, p). Some (finish_derivation t p))"

definition parse_derivation :: "string \<Rightarrow> (parse_error, derivation) result" where
  "parse_derivation input = the (parse_derivation_fuel (3 * length input + 1) input)"

section \<open>Progress, offsets and fuel\<close>

text \<open>A parsing step keeps the length of the input, consumes at least \<open>k\<close> bytes when it
  succeeds, and reports an offset inside the input when it fails.\<close>

definition at_end :: "parser \<Rightarrow> nat" where
  "at_end p = fst p + length (snd p)"

definition advances :: "nat \<Rightarrow> parser \<Rightarrow> (parse_error, 'a \<times> parser) result option \<Rightarrow> bool" where
  "advances k p r \<longleftrightarrow>
    (\<forall>e. r = Some (Inl e) \<longrightarrow> pe_offset e \<le> at_end p) \<and>
    (\<forall>a q. r = Some (Inr (a, q)) \<longrightarrow> at_end q = at_end p \<and> length (snd q) + k \<le> length (snd p))"

lemma advances_None [simp]: "advances k p None"
  by (simp add: advances_def)

lemma advances_Inl [simp]: "advances k p (Some (Inl e)) \<longleftrightarrow> pe_offset e \<le> at_end p"
  by (simp add: advances_def)

lemma advances_Inr [simp]:
  "advances k p (Some (Inr (a, q))) \<longleftrightarrow> at_end q = at_end p \<and> length (snd q) + k \<le> length (snd p)"
  by (cases q) (simp add: advances_def)

lemma advances_and_then:
  assumes "advances k p r"
    and "\<And>a q. r = Some (Inr (a, q)) \<Longrightarrow> advances j q (f (a, q))"
  shows "advances (k + j) p (and_then r f)"
proof (cases r)
  case (Some x)
  show ?thesis
  proof (cases x)
    case (Inr y)
    obtain a q where "y = (a, q)" by (cases y)
    with Some Inr assms have "advances k p (Some (Inr (a, q)))" "advances j q (f (a, q))" by auto
    with Some Inr \<open>y = (a, q)\<close> show ?thesis
      unfolding advances_def by (cases q) fastforce
  qed (use assms Some in simp)
qed simp

lemma advances_weaken: "advances k p r \<Longrightarrow> j \<le> k \<Longrightarrow> advances j p r"
  by (auto simp: advances_def)

lemma advances_zero: "advances (Suc 0) p r \<Longrightarrow> advances 0 p r"
  by (rule advances_weaken) simp_all

lemma advances_if:
  "(b \<Longrightarrow> advances k p x) \<Longrightarrow> (\<not> b \<Longrightarrow> advances k p y) \<Longrightarrow> advances k p (if b then x else y)"
  by simp

lemma parse_err_simps [simp]: "pe_offset (parse_err p msg) = fst p" "pe_message (parse_err p msg) = msg"
  by (simp_all add: parse_err_def)

lemma fst_le_at_end [simp]: "fst p \<le> at_end p"
  by (simp add: at_end_def)

lemma skip_ws_at_end [simp]: "at_end (skip_ws p) = at_end p"
proof -
  have "length (takeWhile is_ascii_ws (snd p)) + length (dropWhile is_ascii_ws (snd p)) = length (snd p)"
    by (metis length_append takeWhile_dropWhile_id)
  then show ?thesis by (simp add: at_end_def skip_ws_def)
qed

lemma skip_ws_length: "length (snd (skip_ws p)) \<le> length (snd p)"
  by (simp add: skip_ws_def length_dropWhile_le)

lemma p_take_True:
  "p_take b p = (True, q) \<Longrightarrow> at_end q = at_end p \<and> length (snd q) + 1 \<le> length (snd p)"
  using skip_ws_length [of p] skip_ws_at_end [of p]
  by (auto simp: p_take_def Let_def at_end_def split: list.splits if_splits)

lemma p_take_False: "p_take b p = (False, q) \<Longrightarrow> q = skip_ws p"
  by (auto simp: p_take_def Let_def split: list.splits if_splits)

lemma advances_expect: "advances 1 p (Some (p_expect b p))"
proof -
  obtain t q where t: "p_take b p = (t, q)" by (cases "p_take b p")
  show ?thesis
  proof (cases t)
    case False
    then have "q = skip_ws p" using t p_take_False by simp
    then have "fst q \<le> at_end p" using fst_le_at_end [of "skip_ws p"] by simp
    then show ?thesis using t False by (simp add: p_expect_def)
  qed (use t p_take_True [of b p q] in \<open>simp add: p_expect_def\<close>)
qed

lemma advances_ident: "advances 1 p (Some (p_ident p))"
proof -
  have "length (takeWhile P xs) + length (dropWhile P xs) = length xs" for P and xs :: string
    by (metis length_append takeWhile_dropWhile_id)
  from this [of is_ident_byte "snd (skip_ws p)"] show ?thesis
    using skip_ws_length [of p] skip_ws_at_end [of p] fst_le_at_end [of "skip_ws p"]
    by (auto simp: p_ident_def Let_def at_end_def simp flip: length_greater_0_conv
        simp del: skip_ws_at_end fst_le_at_end)
qed

lemma advances_string_loop: "advances 1 (at, s) (Some (p_string_loop at s out))"
proof (induction at s out rule: p_string_loop.induct)
  case (2 at b cs out)
  show ?case
  proof (cases "b = CHR 0x22 \<or> b \<noteq> CHR 0x5C")
    case True
    then show ?thesis using 2(2) by (auto simp: advances_def at_end_def)
  next
    case False
    then show ?thesis
      using 2(1) by (cases cs) (auto simp: advances_def at_end_def)
  qed
qed (simp add: at_end_def)

lemma advances_string: "advances 1 p (Some (p_string p))"
proof -
  have "advances (1 + 0) p (and_then (Some (p_expect (CHR 0x22) p))
    (\<lambda>(_, q). Some (p_string_loop (fst q) (snd q) [])))"
    by (rule advances_and_then [OF advances_expect])
      (use advances_string_loop in \<open>auto intro!: advances_zero\<close>)
  then show ?thesis
    by (auto simp: p_string_def split: sum.splits)
qed

lemma and_then_snd_id:
  "advances k p r \<Longrightarrow> advances k p (and_then r (\<lambda>(a, q). Some (Inr (f a, q))))"
  using advances_and_then [of k p r 0 "\<lambda>(a, q). Some (Inr (f a, q))"] by simp

lemma advances_skip: "advances k (skip_ws p) r \<Longrightarrow> advances k p r"
  using skip_ws_length [of p] by (auto simp: advances_def)

text \<open>The bracketed forms of \<open>p_term\<close> are an opening token, a comma list and a constructor.\<close>

lemma advances_bracket:
  assumes "\<And>r. advances 1 r (p_comma_terms n close r)"
  shows "advances 1 q (and_then (Some (p_expect b q)) (\<lambda>(_, r).
    and_then (p_comma_terms n close r) (\<lambda>(ts, r). Some (Inr (k ts, r)))))"
  by (rule advances_weaken [OF advances_and_then [OF advances_expect, where j = 0]])
    (use assms in \<open>auto intro!: and_then_snd_id advances_zero\<close>)

lemma advances_term_step:
  assumes "\<And>close r. advances 1 r (p_comma_terms n close r)"
  shows "advances 1 p (p_term (Suc n) p)"
proof (cases "snd (skip_ws p)")
  case Nil
  then show ?thesis using fst_le_at_end [of "skip_ws p"] by (simp add: Let_def del: fst_le_at_end)
next
  case (Cons c cs)
  have app: "advances 1 (skip_ws p) (and_then (Some (p_ident (skip_ws p))) (\<lambda>(name, r).
    and_then (Some (p_expect b r)) (\<lambda>(_, r).
      and_then (p_comma_terms n close r) (\<lambda>(ts, r). Some (Inr (App name ts, r))))))" for b close
    by (rule advances_weaken [OF advances_and_then [OF advances_ident, where j = 0]])
      (use advances_bracket [OF assms] in \<open>auto intro!: advances_zero\<close>)
  let ?q = "skip_ws p"
  have "p_term (Suc n) p =
    (if c = CHR 0x22 then and_then (Some (p_string ?q)) (\<lambda>(s, r). Some (Inr (TStr s, r)))
     else if c = CHR ''['' then and_then (Some (p_expect (CHR ''['') ?q)) (\<lambda>(_, r).
       and_then (p_comma_terms n (CHR '']'') r) (\<lambda>(ts, r). Some (Inr (TList ts, r))))
     else if c = CHR ''('' then and_then (Some (p_expect (CHR ''('') ?q)) (\<lambda>(_, r).
       and_then (p_comma_terms n (CHR '')'') r) (\<lambda>(ts, r). Some (Inr (TTuple ts, r))))
     else and_then (Some (p_ident ?q)) (\<lambda>(name, r).
       and_then (Some (p_expect (CHR ''('') r)) (\<lambda>(_, r).
         and_then (p_comma_terms n (CHR '')'') r) (\<lambda>(ts, r). Some (Inr (App name ts, r))))))"
    (is "_ = ?r")
    using Cons by (simp only: p_term.simps Let_def list.case)
  moreover have "advances 1 ?q ?r"
    by (intro advances_if app advances_bracket [OF assms] and_then_snd_id advances_string)
  then have "advances 1 p ?r" by (rule advances_skip)
  ultimately show ?thesis by (simp only:)
qed

lemma advances_comma_step:
  assumes "\<And>r. advances 2 r (p_terms_loop n close [] r)"
  shows "advances 1 p (p_comma_terms (Suc n) close p)"
proof -
  obtain b q where Pair: "p_take close (skip_ws p) = (b, q)" by (cases "p_take close (skip_ws p)")
  show ?thesis
  proof (cases b)
    case True
    then show ?thesis
      using Pair p_take_True [of close "skip_ws p" q] skip_ws_length [of p] by simp
  next
    case False
    then have "q = skip_ws (skip_ws p)" using Pair p_take_False by auto
    then have "advances 2 p (p_terms_loop n close [] q)"
      using assms [of q] by (intro advances_skip [of 2 p] advances_skip [of 2 "skip_ws p"]) simp
    then have "advances 1 p (p_terms_loop n close [] q)"
      by (rule advances_weaken) simp
    then show ?thesis using False Pair by simp
  qed
qed

lemma advances_loop_step:
  assumes "\<And>r. advances 1 r (p_term n r)"
    and "\<And>terms r. advances 2 r (p_terms_loop n close terms r)"
  shows "advances 2 p (p_terms_loop (Suc n) close terms p)"
proof -
  have "advances 1 q (case p_take close q of
      (True, r) \<Rightarrow> Some (Inr (ts, r))
    | (False, r) \<Rightarrow> and_then (Some (p_expect (CHR '','') r)) (\<lambda>(_, r). p_terms_loop n close ts r))" for q ts
  proof -
    obtain b r where Pair: "p_take close q = (b, r)" by (cases "p_take close q")
    show ?thesis
    proof (cases b)
      case False
      then have "r = skip_ws q" using Pair p_take_False by auto
      moreover have "advances 1 r (and_then (Some (p_expect (CHR '','') r))
          (\<lambda>(_, r). p_terms_loop n close ts r))"
        by (rule advances_weaken [OF advances_and_then [OF advances_expect, where j = 0]])
          (auto intro!: advances_weaken [OF assms(2)])
      ultimately show ?thesis using Pair False by (auto intro: advances_skip)
    qed (use Pair p_take_True [of close q r] in simp)
  qed
  then have "advances (1 + 1) p (and_then (p_term n p) (\<lambda>(t, q).
      case p_take close q of
        (True, r) \<Rightarrow> Some (Inr (terms @ [t], r))
      | (False, r) \<Rightarrow>
          and_then (Some (p_expect (CHR '','') r)) (\<lambda>(_, r). p_terms_loop n close (terms @ [t]) r)))"
    by (intro advances_and_then assms(1)) simp
  then show ?thesis by (simp only: one_add_one p_terms_loop.simps)
qed

lemma advances_terms:
  "advances 1 p (p_term n p)"
  "advances 1 p (p_comma_terms n close p)"
  "advances 2 p (p_terms_loop n close terms p)"
proof (induction n arbitrary: p close terms)
  case (Suc n)
  { case 1 show ?case by (rule advances_term_step) (rule Suc.IH(2)) }
  { case 2 show ?case by (rule advances_comma_step) (rule Suc.IH(3)) }
  { case 3 show ?case by (rule advances_loop_step) (rule Suc.IH)+ }
qed simp_all

lemma and_then_definedI:
  assumes "r \<noteq> None" and "\<And>a q. r = Some (Inr (a, q)) \<Longrightarrow> f (a, q) \<noteq> None"
  shows "and_then r f \<noteq> None"
  using assms by (cases "(r, f)" rule: and_then.cases) auto

lemma if_defined: "(b \<Longrightarrow> x \<noteq> None) \<Longrightarrow> (\<not> b \<Longrightarrow> y \<noteq> None) \<Longrightarrow> (if b then x else y) \<noteq> None"
  by simp

lemma expect_shorter: "p_expect b p = Inr (u, q) \<Longrightarrow> length (snd q) + 1 \<le> length (snd p)"
  using advances_expect [of p b] by simp

lemma ident_shorter: "p_ident p = Inr (u, q) \<Longrightarrow> length (snd q) + 1 \<le> length (snd p)"
  using advances_ident [of p] by simp

lemma take_False_length: "p_take b p = (False, q) \<Longrightarrow> length (snd q) \<le> length (snd p)"
  using p_take_False [of b p q] skip_ws_length [of p] by simp

lemma term_fuel_step:
  assumes "\<And>close q. length (snd q) + 1 \<le> length (snd p) \<Longrightarrow> p_comma_terms n close q \<noteq> None"
  shows "p_term (Suc n) p \<noteq> None"
proof (cases "snd (skip_ws p)")
  case (Cons c cs)
  have seq: "and_then (Some (p_expect b q)) (\<lambda>(_, r).
      and_then (p_comma_terms n close r) (\<lambda>(ts, r). Some (Inr (k ts, r)))) \<noteq> None"
    if "length (snd q) \<le> length (snd p)" for b close k q
  proof (rule and_then_definedI)
    fix u r
    assume "Some (p_expect b q) = Some (Inr (u, r))"
    then have "p_comma_terms n close r \<noteq> None"
      using assms that expect_shorter [of b q u r] by simp
    then show "(case (u, r) of (_, r) \<Rightarrow>
      and_then (p_comma_terms n close r) (\<lambda>(ts, r). Some (Inr (k ts, r)))) \<noteq> None"
      by (simp add: and_then_definedI)
  qed simp
  have app: "and_then (Some (p_ident (skip_ws p))) (\<lambda>(name, r).
      and_then (Some (p_expect b r)) (\<lambda>(_, r).
        and_then (p_comma_terms n close r) (\<lambda>(ts, r). Some (Inr (App name ts, r))))) \<noteq> None" for b close
  proof (rule and_then_definedI)
    fix name r
    assume "Some (p_ident (skip_ws p)) = Some (Inr (name, r))"
    then have "length (snd r) \<le> length (snd p)"
      using ident_shorter [of "skip_ws p" name r] skip_ws_length [of p] by simp
    from seq [OF this] show "(case (name, r) of (name, r) \<Rightarrow>
      and_then (Some (p_expect b r)) (\<lambda>(_, r).
        and_then (p_comma_terms n close r) (\<lambda>(ts, r). Some (Inr (App name ts, r))))) \<noteq> None"
      by simp
  qed simp
  have str: "and_then (Some (p_string q)) (\<lambda>(s, r). Some (Inr (TStr s, r))) \<noteq> None" for q
    by (rule and_then_definedI) auto
  have "p_term (Suc n) p =
    (if c = CHR 0x22 then and_then (Some (p_string (skip_ws p))) (\<lambda>(s, r). Some (Inr (TStr s, r)))
     else if c = CHR ''['' then and_then (Some (p_expect (CHR ''['') (skip_ws p))) (\<lambda>(_, r).
       and_then (p_comma_terms n (CHR '']'') r) (\<lambda>(ts, r). Some (Inr (TList ts, r))))
     else if c = CHR ''('' then and_then (Some (p_expect (CHR ''('') (skip_ws p))) (\<lambda>(_, r).
       and_then (p_comma_terms n (CHR '')'') r) (\<lambda>(ts, r). Some (Inr (TTuple ts, r))))
     else and_then (Some (p_ident (skip_ws p))) (\<lambda>(name, r).
       and_then (Some (p_expect (CHR ''('') r)) (\<lambda>(_, r).
         and_then (p_comma_terms n (CHR '')'') r) (\<lambda>(ts, r). Some (Inr (App name ts, r))))))"
    (is "_ = ?r")
    using Cons by (simp only: p_term.simps Let_def list.case)
  moreover have "?r \<noteq> None"
    by (intro if_defined seq [OF skip_ws_length] app str)
  ultimately show ?thesis by (simp only: not_False_eq_True)
qed (simp add: Let_def)

lemma comma_fuel_step:
  assumes "\<And>q. length (snd q) \<le> length (snd p) \<Longrightarrow> p_terms_loop n close [] q \<noteq> None"
  shows "p_comma_terms (Suc n) close p \<noteq> None"
proof -
  obtain b q where q: "p_take close (skip_ws p) = (b, q)" by (cases "p_take close (skip_ws p)")
  then show ?thesis
    using assms [of q] take_False_length [of close "skip_ws p" q] skip_ws_length [of p]
    by (cases b) simp_all
qed

lemma loop_fuel_step:
  assumes "p_term n p \<noteq> None"
    and "\<And>terms q. length (snd q) + 2 \<le> length (snd p) \<Longrightarrow> p_terms_loop n close terms q \<noteq> None"
  shows "p_terms_loop (Suc n) close terms p \<noteq> None"
proof -
  have "(case p_take close q of
      (True, r) \<Rightarrow> Some (Inr (ts, r))
    | (False, r) \<Rightarrow>
        and_then (Some (p_expect (CHR '','') r)) (\<lambda>(_, r). p_terms_loop n close ts r)) \<noteq> None"
    if q: "length (snd q) + 1 \<le> length (snd p)" for q ts
  proof -
    obtain b r where r: "p_take close q = (b, r)" by (cases "p_take close q")
    show ?thesis
    proof (cases b)
      case False
      then have "length (snd r) \<le> length (snd q)" using r take_False_length [of close q r] by simp
      then have "and_then (Some (p_expect (CHR '','') r)) (\<lambda>(_, r). p_terms_loop n close ts r) \<noteq> None"
        using assms(2) q expect_shorter [of "CHR '',''" r] by (intro and_then_definedI) fastforce+
      then show ?thesis using r False by simp
    qed (simp add: r)
  qed
  moreover have "p_term n p = Some (Inr (t, q)) \<Longrightarrow> length (snd q) + 1 \<le> length (snd p)" for t q
    using advances_terms(1) [of p n] by simp
  ultimately show ?thesis
    unfolding p_terms_loop.simps by (intro and_then_definedI [OF assms(1)]) simp
qed

lemma terms_fuel_enough:
  "3 * length (snd p) + 1 \<le> n \<Longrightarrow> p_term n p \<noteq> None"
  "3 * length (snd p) + 3 \<le> n \<Longrightarrow> p_comma_terms n close p \<noteq> None"
  "3 * length (snd p) + 2 \<le> n \<Longrightarrow> p_terms_loop n close terms p \<noteq> None"
proof (induction n arbitrary: p close terms)
  case (Suc n)
  { case 1 show ?case by (rule term_fuel_step, rule Suc.IH(2)) (use 1 in simp) }
  { case 2 show ?case by (rule comma_fuel_step, rule Suc.IH(3)) (use 2 in simp) }
  { case 3 show ?case by (rule loop_fuel_step, rule Suc.IH(1), use 3 in simp, rule Suc.IH(3)) (use 3 in simp) }
qed simp_all

lemma parse_derivation_fuel_enough:
  "3 * length input + 1 \<le> n \<Longrightarrow> parse_derivation_fuel n input \<noteq> None"
  unfolding parse_derivation_fuel_def
  by (rule and_then_definedI [OF terms_fuel_enough(1)]) (simp_all add: parser_new_def)

section \<open>Parsing inverts printing\<close>

definition esc_char :: "char \<Rightarrow> string" where
  "esc_char c =
    (if c = CHR 0x22 then [CHR 0x5C, CHR 0x22]
     else if c = CHR 0x5C then [CHR 0x5C, CHR 0x5C]
     else if c = CHR 0x0A then [CHR 0x5C, CHR ''n'']
     else if c = CHR 0x0D then [CHR 0x5C, CHR ''r'']
     else if c = CHR 0x09 then [CHR 0x5C, CHR ''t'']
     else [c])"

definition print_str :: "string \<Rightarrow> string" where
  "print_str s = CHR 0x22 # concat (map esc_char s) @ [CHR 0x22]"

fun print_term :: "aterm \<Rightarrow> string" where
  "print_term (TStr s) = print_str s"
| "print_term (TList ts) = ''['' @ join '','' (map print_term ts) @ '']''"
| "print_term (TTuple ts) = ''('' @ join '','' (map print_term ts) @ '')''"
| "print_term (App name ts) = name @ ''('' @ join '','' (map print_term ts) @ '')''"

fun wf_term :: "aterm \<Rightarrow> bool" where
  "wf_term (TStr s) = list_all is_ascii s"
| "wf_term (TList ts) = list_all wf_term ts"
| "wf_term (TTuple ts) = list_all wf_term ts"
| "wf_term (App name ts) = (name \<noteq> [] \<and> list_all is_ident_byte name \<and> list_all wf_term ts)"

definition token_byte :: "char \<Rightarrow> bool" where
  "token_byte c \<longleftrightarrow> \<not> is_ascii_ws c"

lemma skip_ws_token [simp]: "token_byte c \<Longrightarrow> skip_ws (at, c # cs) = (at, c # cs)"
  by (simp add: skip_ws_def token_byte_def)

lemma token_bytes [simp]:
  "token_byte (CHR 0x22)" "token_byte (CHR '','')" "token_byte (CHR ''['')" "token_byte (CHR '']'')"
  "token_byte (CHR ''('')" "token_byte (CHR '')'')"
  by (simp_all add: token_byte_def is_ascii_ws_def byte_def)

lemma ident_byte_token: "is_ident_byte c \<Longrightarrow> token_byte c"
  by (auto simp: is_ident_byte_def token_byte_def is_ascii_ws_def is_ascii_alnum_def is_ascii_alpha_def
      is_ascii_lower_def is_ascii_upper_def is_ascii_digit_def byte_def)

lemma ident_byte_not_bracket:
  "\<not> is_ident_byte (CHR 0x22)" "\<not> is_ident_byte (CHR ''['')" "\<not> is_ident_byte (CHR ''('')"
  by (simp_all add: is_ident_byte_def is_ascii_alnum_def is_ascii_alpha_def
      is_ascii_lower_def is_ascii_upper_def is_ascii_digit_def byte_def)

lemma p_take_hit [simp]: "token_byte c \<Longrightarrow> p_take c (at, c # cs) = (True, (at + 1, cs))"
  by (simp add: p_take_def)

lemma p_take_miss [simp]: "token_byte c \<Longrightarrow> c \<noteq> b \<Longrightarrow> p_take b (at, c # cs) = (False, (at, c # cs))"
  by (simp add: p_take_def)

lemma p_expect_hit [simp]: "token_byte c \<Longrightarrow> p_expect c (at, c # cs) = Inr ((), (at + 1, cs))"
  by (simp add: p_expect_def)

lemma p_string_loop_esc:
  "list_all is_ascii s \<Longrightarrow>
    p_string_loop at (concat (map esc_char s) @ CHR 0x22 # rest) out =
    Inr (out @ s, (at + length (concat (map esc_char s)) + 1, rest))"
proof (induction s arbitrary: at out)
  case (Cons c s)
  then have "is_ascii c" by simp
  with Cons show ?case
    by (simp add: esc_char_def unescape_def char_from_def)
qed simp

lemma p_string_print:
  "list_all is_ascii s \<Longrightarrow>
    p_string (at, print_str s @ rest) = Inr (s, (at + length (print_str s), rest))"
  by (simp add: p_string_def print_str_def p_string_loop_esc)

lemma print_term_token:
  "wf_term t \<Longrightarrow> \<exists>c cs. print_term t = c # cs \<and> token_byte c"
  by (cases t) (auto simp: print_str_def neq_Nil_conv ident_byte_token)

lemma print_term_not_close:
  assumes "wf_term t" and "print_term t = c # cs"
  shows "c \<noteq> CHR '']''" "c \<noteq> CHR '')''"
proof -
  have "\<not> is_ident_byte (CHR '']'')" "\<not> is_ident_byte (CHR '')'')"
    by (simp_all add: is_ident_byte_def is_ascii_alnum_def is_ascii_alpha_def
        is_ascii_lower_def is_ascii_upper_def is_ascii_digit_def byte_def)
  then show "c \<noteq> CHR '']''" "c \<noteq> CHR '')''"
    using assms by (cases t; auto simp: print_str_def neq_Nil_conv)+
qed

lemma p_ident_print:
  assumes "name \<noteq> []" and "list_all is_ident_byte name"
  shows "p_ident (at, name @ CHR ''('' # rest) = Inr (name, (at + length name, CHR ''('' # rest))"
proof -
  obtain c cs where c: "name = c # cs" using assms(1) by (cases name) auto
  then have "skip_ws (at, name @ CHR ''('' # rest) = (at, name @ CHR ''('' # rest)"
    using assms(2) by (simp add: ident_byte_token)
  moreover have "takeWhile is_ident_byte (name @ CHR ''('' # rest) = name"
    "dropWhile is_ident_byte (name @ CHR ''('' # rest) = CHR ''('' # rest"
    using assms(2) by (simp_all add: list_all_iff takeWhile_append2 dropWhile_append2
        ident_byte_not_bracket)
  ultimately show ?thesis
    using assms(1) by (simp add: p_ident_def Let_def)
qed

text \<open>The comma list, given that each of its terms parses.\<close>

lemma p_terms_loop_print:
  assumes close: "close \<in> {CHR '']'', CHR '')''}" and "ts \<noteq> []" and "list_all wf_term ts"
    and "\<And>t n at rest. t \<in> set ts \<Longrightarrow> 3 * length (print_term t) + 1 \<le> n \<Longrightarrow>
      p_term n (at, print_term t @ rest) = Some (Inr (t, (at + length (print_term t), rest)))"
    and "3 * length (join '','' (map print_term ts)) + 2 \<le> n"
  shows "p_terms_loop n close acc (at, join '','' (map print_term ts) @ close # rest) =
    Some (Inr (acc @ ts, (at + length (join '','' (map print_term ts)) + 1, rest)))"
  using assms(2-5)
proof (induction ts arbitrary: n acc at)
  case (Cons t ts)
  then obtain m where n: "n = Suc m" by (cases n) auto
  have tok: "token_byte close" "CHR '','' \<noteq> close" using close by auto
  show ?case
  proof (cases ts)
    case Nil
    then show ?thesis using Cons.prems(3) [of t m] Cons.prems(4) n tok by simp
  next
    case (Cons u us)
    let ?js = "join '','' (map print_term ts)"
    have j: "join '','' (map print_term (t # ts)) = print_term t @ CHR '','' # ?js"
      using Cons by simp
    have t: "p_term m (at, print_term t @ CHR '','' # ?js @ close # rest) =
        Some (Inr (t, (at + length (print_term t), CHR '','' # ?js @ close # rest)))"
      using Cons.prems(3) [of t m] Cons.prems(4) n j by simp
    have "p_terms_loop m close (acc @ [t])
        (at + length (print_term t) + 1, ?js @ close # rest) =
      Some (Inr ((acc @ [t]) @ ts, (at + length (print_term t) + 1 + length ?js + 1, rest)))"
      using Cons.prems(2,3,4) n j Cons by (intro Cons.IH) auto
    then show ?thesis using t n j tok by simp
  qed
qed simp

lemma p_comma_terms_print:
  assumes close: "close \<in> {CHR '']'', CHR '')''}" and "list_all wf_term ts"
    and "\<And>t n at rest. t \<in> set ts \<Longrightarrow> 3 * length (print_term t) + 1 \<le> n \<Longrightarrow>
      p_term n (at, print_term t @ rest) = Some (Inr (t, (at + length (print_term t), rest)))"
    and "3 * length (join '','' (map print_term ts)) + 3 \<le> n"
  shows "p_comma_terms n close (at, join '','' (map print_term ts) @ close # rest) =
    Some (Inr (ts, (at + length (join '','' (map print_term ts)) + 1, rest)))"
proof -
  obtain m where n: "n = Suc m" using assms(4) by (cases n) auto
  have tok: "token_byte close" using close by auto
  show ?thesis
  proof (cases ts)
    case Nil
    then show ?thesis using n tok by simp
  next
    case (Cons t us)
    obtain c cs where c: "print_term t = c # cs" "token_byte c"
      using print_term_token assms(2) Cons by fastforce
    then have "c \<noteq> close" using print_term_not_close [of t c cs] assms(2) Cons close by auto
    then have "p_take close (skip_ws (at, join '','' (map print_term ts) @ close # rest)) =
        (False, (at, join '','' (map print_term ts) @ close # rest))"
      using c Cons by (cases us) simp_all
    moreover have "p_terms_loop m close [] (at, join '','' (map print_term ts) @ close # rest) =
        Some (Inr ([] @ ts, (at + length (join '','' (map print_term ts)) + 1, rest)))"
      using assms(4) n Cons by (intro p_terms_loop_print assms) auto
    ultimately show ?thesis using n by simp
  qed
qed

lemma p_term_print:
  "wf_term t \<Longrightarrow> 3 * length (print_term t) + 1 \<le> n \<Longrightarrow>
    p_term n (at, print_term t @ rest) = Some (Inr (t, (at + length (print_term t), rest)))"
proof (induction t arbitrary: n at rest)
  case (TStr s)
  then obtain m where n: "n = Suc m" by (cases n) auto
  have "print_str s = CHR 0x22 # tl (print_str s)" by (simp add: print_str_def)
  then have "skip_ws (at, print_str s @ rest) = (at, print_str s @ rest)"
    by (metis append_Cons skip_ws_token token_bytes(1))
  with TStr n show ?case
    using p_string_print [of s at rest] by (simp add: Let_def print_str_def)
next
  case (TList ts)
  then obtain m where n: "n = Suc m" by (cases n) auto
  have "p_comma_terms m (CHR '']'') (at + 1, join '','' (map print_term ts) @ CHR '']'' # rest) =
      Some (Inr (ts, (at + 1 + length (join '','' (map print_term ts)) + 1, rest)))"
    using TList n by (intro p_comma_terms_print) (auto simp: list_all_iff)
  with n show ?case by (simp add: Let_def)
next
  case (TTuple ts)
  then obtain m where n: "n = Suc m" by (cases n) auto
  have "p_comma_terms m (CHR '')'') (at + 1, join '','' (map print_term ts) @ CHR '')'' # rest) =
      Some (Inr (ts, (at + 1 + length (join '','' (map print_term ts)) + 1, rest)))"
    using TTuple n by (intro p_comma_terms_print) (auto simp: list_all_iff)
  with n show ?case by (simp add: Let_def)
next
  case (App name ts)
  then obtain m where n: "n = Suc m" by (cases n) auto
  obtain c cs where c: "name = c # cs" "is_ident_byte c" using App.prems by (cases name) auto
  let ?js = "join '','' (map print_term ts) @ CHR '')'' # rest"
  have "p_comma_terms m (CHR '')'') (at + length name + 1, ?js) =
      Some (Inr (ts, (at + length name + 1 + length (join '','' (map print_term ts)) + 1, rest)))"
    using App n by (intro p_comma_terms_print) (auto simp: list_all_iff)
  moreover have "skip_ws (at, name @ CHR ''('' # ?js) = (at, name @ CHR ''('' # ?js)"
    using c ident_byte_token by simp
  moreover have "c \<noteq> CHR 0x22" "c \<noteq> CHR ''[''" "c \<noteq> CHR ''(''"
    using c ident_byte_not_bracket by auto
  ultimately show ?case
    using n c p_ident_print [of name at "?js"] App.prems by (simp add: Let_def)
qed

text \<open>A derivation as Nix writes it: the output tuples carry further fields, and further terms
  follow the two that the program keeps.\<close>

definition drv_term :: "(string \<Rightarrow> aterm list) \<Rightarrow> aterm list \<Rightarrow> derivation \<Rightarrow> aterm" where
  "drv_term extra rest d =
    App ''Derive''
      (TList (map (\<lambda>(name, path). TTuple (TStr name # TStr path # extra name)) (drv_outputs d))
       # TList (map (\<lambda>(path, names). TTuple [TStr path, TList (map TStr names)]) (drv_input_drvs d))
       # rest)"

definition wf_derivation :: "derivation \<Rightarrow> bool" where
  "wf_derivation d \<longleftrightarrow> bm_wf (drv_outputs d) \<and> bm_wf (drv_input_drvs d)"

lemma fold_add_output:
  "fold add_output (map (\<lambda>(name, path). TTuple (TStr name # TStr path # extra name)) xs) m =
    fold (\<lambda>x. bm_insert (fst x) (snd x)) xs m"
  by (induction xs arbitrary: m) (auto simp: list_first_def)

lemma map_filter_term_as_str [simp]: "List.map_filter term_as_str (map TStr names) = names"
  by (induction names) (simp_all add: List.map_filter_def)

lemma fold_add_input_drv:
  "fold add_input_drv (map (\<lambda>(path, names). TTuple [TStr path, TList (map TStr names)]) xs) m =
    fold (\<lambda>x. bm_insert (fst x) (snd x)) xs m"
  by (induction xs arbitrary: m) (auto simp: list_first_def)

lemma finish_drv_term:
  assumes "wf_derivation d"
  shows "finish_derivation (drv_term extra rest d) (n, []) = Inr d"
proof -
  have "fold (\<lambda>x. bm_insert (fst x) (snd x)) (drv_outputs d) [] = drv_outputs d"
    "fold (\<lambda>x. bm_insert (fst x) (snd x)) (drv_input_drvs d) [] = drv_input_drvs d"
    using assms bm_of_list_id by (auto simp: wf_derivation_def bm_of_list_def)
  then show ?thesis
    by (simp add: finish_derivation_def drv_term_def skip_ws_def fold_add_output fold_add_input_drv)
qed

lemma parse_print_term:
  assumes "wf_term t"
  shows "parse_derivation (print_term t) = finish_derivation t (length (print_term t), [])"
proof -
  have "p_term (3 * length (print_term t) + 1) (0, print_term t @ []) =
      Some (Inr (t, (0 + length (print_term t), [])))"
    by (rule p_term_print [OF assms]) simp
  then show ?thesis
    by (simp add: parse_derivation_def parse_derivation_fuel_def parser_new_def)
qed

lemma parse_derivation_cases:
  obtains e where "p_term (3 * length input + 1) (parser_new input) = Some (Inl e)"
      "parse_derivation input = Inl e"
  | t p where "p_term (3 * length input + 1) (parser_new input) = Some (Inr (t, p))"
      "parse_derivation input = finish_derivation t p"
proof -
  obtain r where r: "p_term (3 * length input + 1) (parser_new input) = Some r"
    using terms_fuel_enough(1) [of "parser_new input"] by (fastforce simp: parser_new_def)
  have run: "parse_derivation input =
      the (and_then (Some r) (\<lambda>(t, p). Some (finish_derivation t p)))"
    by (simp only: parse_derivation_def parse_derivation_fuel_def r)
  show ?thesis
  proof (cases r)
    case (Inl e)
    have "parse_derivation input = Inl e" using run by (simp add: Inl)
    with r show ?thesis unfolding Inl by (rule that(1))
  next
    case (Inr tp)
    obtain t p where tp: "tp = (t, p)" by (cases tp)
    have "parse_derivation input = finish_derivation t p" using run by (simp add: Inr tp)
    with r show ?thesis unfolding Inr tp by (rule that(2))
  qed
qed

lemma parse_derivation_wf: "parse_derivation input = Inr d \<Longrightarrow> wf_derivation d"
proof -
  have out: "bm_wf m \<Longrightarrow> bm_wf (add_output t m)" for t m
    by (cases "(t, m)" rule: add_output.cases)
      (auto simp: bm_wf_insert split: option.split)
  have inp: "bm_wf m \<Longrightarrow> bm_wf (add_input_drv t m)" for t m
    by (cases "(t, m)" rule: add_input_drv.cases)
      (auto simp: bm_wf_insert split: option.split aterm.split)
  have folds: "bm_wf (fold add_output xs [])" "bm_wf (fold add_input_drv xs [])" for xs
    by (rule fold_invariant_set; simp add: out inp)+
  assume "parse_derivation input = Inr d"
  then obtain t p where "finish_derivation t p = Inr d"
    by (cases rule: parse_derivation_cases [of input]) auto
  then show ?thesis
    by (auto simp: finish_derivation_def Let_def wf_derivation_def folds split: if_splits aterm.splits)
qed

text \<open>Every error names an offset inside the input.\<close>

lemma finish_error_offset:
  "finish_derivation t p = Inl e \<Longrightarrow> pe_offset e \<le> at_end p"
  using fst_le_at_end [of "skip_ws p"]
  by (auto simp: finish_derivation_def Let_def simp del: fst_le_at_end split: if_splits aterm.splits)

lemma parse_derivation_offset: "parse_derivation input = Inl e \<Longrightarrow> pe_offset e \<le> length input"
proof -
  let ?n = "3 * length input + 1"
  assume err: "parse_derivation input = Inl e"
  have adv: "advances 1 (parser_new input) (p_term ?n (parser_new input))"
    by (rule advances_terms)
  show ?thesis
  proof (cases rule: parse_derivation_cases [of input])
    case (1 e')
    then show ?thesis using adv err by (simp add: at_end_def parser_new_def)
  next
    case (2 t p)
    then have "at_end p = length input" using adv by (simp add: at_end_def parser_new_def)
    then show ?thesis using 2(2) err finish_error_offset by metis
  qed
qed

text \<open>More fuel never changes an answer, so the fuel of \<^const>\<open>parse_derivation\<close> is no part of its
  meaning.\<close>

definition refined_by :: "'a option \<Rightarrow> 'a option \<Rightarrow> bool" where
  "refined_by x y \<longleftrightarrow> x = None \<or> x = y"

lemma refined_refl [simp]: "refined_by x x" "refined_by None x"
  by (simp_all add: refined_by_def)

lemma refined_Some: "refined_by (Some a) y \<longleftrightarrow> y = Some a"
  by (auto simp: refined_by_def)

lemma refined_and_then:
  assumes "refined_by x y" and "\<And>a. refined_by (f a) (g a)"
  shows "refined_by (and_then x f) (and_then y g)"
proof (cases "x = None")
  case False
  then have "x = y" using assms(1) unfolding refined_by_def by blast
  then show ?thesis by (cases "(y, g)" rule: and_then.cases) (auto simp: assms(2))
qed simp

lemma terms_fuel_mono:
  "refined_by (p_term n p) (p_term (Suc n) p)"
  "refined_by (p_comma_terms n close p) (p_comma_terms (Suc n) close p)"
  "refined_by (p_terms_loop n close terms p) (p_terms_loop (Suc n) close terms p)"
proof (induction n arbitrary: p close terms)
  case (Suc n)
  note step = refined_refl refined_and_then Suc
  { case 1
    show ?case
      unfolding p_term.simps(2) [of n] p_term.simps(2) [of "Suc n"] Let_def
      by (cases "snd (skip_ws p)")
        (simp_all del: p_comma_terms.simps, auto simp del: p_comma_terms.simps intro!: step split: prod.split) }
  { case 2
    show ?case
      unfolding p_comma_terms.simps(2) [of n] p_comma_terms.simps(2) [of "Suc n"]
      by (auto simp del: p_terms_loop.simps split: prod.split bool.split intro!: step) }
  { case 3
    show ?case
      by (subst p_terms_loop.simps(2) [of n], subst p_terms_loop.simps(2) [of "Suc n"])
        (auto simp del: p_terms_loop.simps p_term.simps split: prod.split bool.split intro!: step) }
qed simp_all

lemma term_fuel_mono: "n \<le> k \<Longrightarrow> refined_by (p_term n p) (p_term k p)"
proof (induction k)
  case (Suc k)
  then show ?case
    using terms_fuel_mono(1) [of k p] by (cases "n = Suc k") (auto simp: refined_by_def)
qed simp

lemma parse_derivation_fuel_irrelevant:
  assumes "3 * length input + 1 \<le> n"
  shows "parse_derivation_fuel n input = Some (parse_derivation input)"
proof -
  let ?m = "3 * length input + 1"
  have "refined_by (parse_derivation_fuel ?m input) (parse_derivation_fuel n input)"
    unfolding parse_derivation_fuel_def
    by (intro refined_and_then refined_refl term_fuel_mono assms)
  moreover have "parse_derivation_fuel ?m input \<noteq> None"
    by (rule parse_derivation_fuel_enough) simp
  ultimately show ?thesis
    by (auto simp: parse_derivation_def refined_by_def)
qed

section \<open>Properties\<close>


definition sample_drv :: derivation where
  "sample_drv = \<lparr>drv_outputs = [(''out'', ''/nix/store/o-app'')],
    drv_input_drvs = [(''/nix/store/a.drv'', [''dev'', ''out'']), (''/nix/store/b.drv'', [''out''])]\<rparr>"


text \<open>The parser always answers: the recursion of \<^verbatim>\<open>term\<close> and \<^verbatim>\<open>comma_terms\<close> ends within three
  steps per input byte, whatever the bytes are. An error names an offset inside the input, and a
  derivation has its outputs and inputs in strictly increasing key order.\<close>

lemma parse_derivation_answers:
  "parse_derivation_fuel (3 * length input + 1 + k) input = Some (parse_derivation input) \<and>
    (case parse_derivation input of
       Inl e \<Rightarrow> pe_offset e \<le> length input
     | Inr d \<Rightarrow> wf_derivation d)"
  using parse_derivation_fuel_irrelevant [of input "3 * length input + 1 + k"]
  by (auto dest: parse_derivation_offset parse_derivation_wf split: sum.split)

end
