(* ===== verification/BoundedQueue.thy ===== *)
theory BoundedQueue
  imports Prelude
begin

text \<open>The contract of the bounded logs the program keeps (the forest's log tails and recent
  lines, the run controller's log rings): pushing never exceeds the limit, keeps the newest
  entry last, and forgets only from the front.\<close>

locale bounded_queue =
  fixes push :: "'a \<Rightarrow> 'a list \<Rightarrow> 'a list"
    and limit :: nat
  assumes limit_pos: "0 < limit"
    and push_room: "length q < limit \<Longrightarrow> push x q = q @ [x]"
    and push_full: "length q = limit \<Longrightarrow> push x q = tl q @ [x]"
begin

lemma push_le: "length q \<le> limit \<Longrightarrow> length (push x q) \<le> limit"
  using limit_pos by (cases "length q = limit") (auto simp: push_room push_full)

lemma push_last: "length q \<le> limit \<Longrightarrow> push x q \<noteq> [] \<and> last (push x q) = x"
  by (cases "length q = limit") (auto simp: push_room push_full)

lemma push_suffix: "length q \<le> limit \<Longrightarrow> suffix (push x q) (q @ [x])"
  by (cases "length q = limit") (auto simp: push_room push_full suffix_def intro: exI [of _ "take 1 q"]
      simp flip: append_assoc take_tl drop_Suc, metis append_take_drop_id drop_Suc drop0 One_nat_def)

text \<open>After any run of pushes the queue is the last \<open>limit\<close> entries of everything seen.\<close>

lemma push_drop:
  "length q \<le> limit \<Longrightarrow> push x q = drop (length (q @ [x]) - limit) (q @ [x])"
  using limit_pos by (cases "length q = limit") (auto simp: push_room push_full drop_Suc)

lemma pushes_le: "length q \<le> limit \<Longrightarrow> length (fold push xs q) \<le> limit"
  by (induction xs arbitrary: q) (auto simp: push_le)

lemma pushes_recent:
  "length q \<le> limit \<Longrightarrow> fold push xs q = drop (length (q @ xs) - limit) (q @ xs)"
proof (induction xs arbitrary: q)
  case (Cons x xs)
  then have "fold push (x # xs) q =
      drop (length (push x q @ xs) - limit) (push x q @ xs)" by (simp add: push_le)
  also have "push x q = drop (length (q @ [x]) - limit) (q @ [x])"
    using Cons.prems by (rule push_drop)
  finally show ?case using Cons.prems limit_pos
    by (cases "length q = limit") (auto simp: drop_Suc)
qed simp

end

end
