(* ===== verification/Forest.thy ===== *)
theory Forest
  imports NixMsg Aterm BoundedQueue
begin

text \<open>The build forest's state machine (\<^verbatim>\<open>crates/nix-build-forest/src/forest.rs\<close>): the state the
  message stream drives, one function per handler, and the derivation-graph backfill. The clock
  (\<^verbatim>\<open>Instant\<close>) is the argument \<open>now\<close> in milliseconds, read once per step. Counters updated with a
  plain \<^verbatim>\<open>+= 1\<close> wrap as the release build does, the others saturate as written.\<close>

definition DERIVATION_LOG_TAIL_LIMIT :: nat where
  "DERIVATION_LOG_TAIL_LIMIT = 64"

definition RECENT_LOG_LIMIT :: nat where
  "RECENT_LOG_LIMIT = 256"

datatype derivation_status =
  StUnknown | StPlanned | StBuilding | StDownloading | StSubstituting | StBuilt | StFailed

record activity_progress =
  ap_done :: nat
  ap_expected :: nat
  ap_running :: nat
  ap_failed :: nat

record build_log_line =
  bl_derivation :: string
  bl_name :: string
  bl_line :: string

datatype feed_outcome = Ignored | Accepted | Malformed

record node_state =
  ns_status :: derivation_status
  ns_inputs :: "string bset"
  ns_outputs :: "(string, string) bmap"
  ns_host :: "string option"
  ns_last_activity :: "string option"
  ns_log_tail :: "string list"
  ns_note :: "string option"
  ns_started_ms :: "nat option"
  ns_finished_ms :: "nat option"

definition node_default :: node_state where
  "node_default = \<lparr>ns_status = StUnknown, ns_inputs = [], ns_outputs = [], ns_host = None,
    ns_last_activity = None, ns_log_tail = [], ns_note = None, ns_started_ms = None,
    ns_finished_ms = None\<rparr>"

record active_activity =
  aa_kind :: activity_type
  aa_path :: "string option"
  aa_host :: "string option"
  aa_source :: "string option"
  aa_destination :: "string option"
  aa_progress :: "activity_progress option"
  aa_expectations :: "(activity_type, nat) bmap"
  aa_text :: string

record build_forest =
  bf_started :: nat
  bf_version :: nat
  bf_nodes :: "(string, node_state) bmap"
  bf_output_to_drv :: "(string, string) bmap"
  bf_activities :: "(nat, active_activity) bmap"
  bf_pending_drvs :: "string bset"
  bf_drv_cache :: "(string, derivation option) bmap"
  bf_errors :: "string list"
  bf_unknown_activity_types :: "(int, nat) bmap"
  bf_unknown_result_types :: "(int, nat) bmap"
  bf_unknown_actions :: nat
  bf_malformed_messages :: nat
  bf_ignored_lines :: nat
  bf_completed_downloads :: nat
  bf_completed_substitutions :: nat
  bf_duration_estimates_ms :: "(string, nat) bmap"
  bf_recent_logs :: "build_log_line list"
  bf_log_sequence :: nat

definition forest_new :: "nat \<Rightarrow> build_forest" where
  "forest_new now = \<lparr>bf_started = now, bf_version = 0, bf_nodes = [], bf_output_to_drv = [],
    bf_activities = [], bf_pending_drvs = [], bf_drv_cache = [], bf_errors = [],
    bf_unknown_activity_types = [], bf_unknown_result_types = [], bf_unknown_actions = 0,
    bf_malformed_messages = 0, bf_ignored_lines = 0, bf_completed_downloads = 0,
    bf_completed_substitutions = 0, bf_duration_estimates_ms = [], bf_recent_logs = [],
    bf_log_sequence = 0\<rparr>"

definition with_duration_estimates :: "nat \<Rightarrow> (string, nat) bmap \<Rightarrow> build_forest" where
  "with_duration_estimates now estimates = (forest_new now)\<lparr>bf_duration_estimates_ms := estimates\<rparr>"

definition forest_elapsed_ms :: "nat \<Rightarrow> build_forest \<Rightarrow> nat" where
  "forest_elapsed_ms now f = min (now - bf_started f) U64_MAX"

section \<open>Helpers on message fields and paths\<close>

definition push_bounded :: "nat \<Rightarrow> 'a \<Rightarrow> 'a list \<Rightarrow> 'a list" where
  "push_bounded limit value queue =
    (if length queue = limit then tl queue else queue) @ [value]"

definition get_u64 :: "nat \<Rightarrow> json list \<Rightarrow> nat option" where
  "get_u64 i flds = Option.bind (list_get i flds) as_u64"

definition activity_progress_of :: "json list \<Rightarrow> activity_progress option" where
  "activity_progress_of flds =
    Option.bind (get_u64 0 flds) (\<lambda>d.
    Option.bind (get_u64 1 flds) (\<lambda>e.
    Option.bind (get_u64 2 flds) (\<lambda>r.
    Option.bind (get_u64 3 flds) (\<lambda>x.
      Some \<lparr>ap_done = d, ap_expected = e, ap_running = r, ap_failed = x\<rparr>))))"

definition activity_expectation_of :: "json list \<Rightarrow> (activity_type \<times> nat) option" where
  "activity_expectation_of flds =
    Option.bind (Option.bind (list_first flds) as_i64) (\<lambda>code.
    Option.bind (get_u64 1 flds) (\<lambda>expected. Some (activity_from_code code, expected)))"

text \<open>\<^verbatim>\<open>flds.get(i).and_then(Value::as_str).filter(|v| !v.is_empty())\<close>.\<close>

definition field_str :: "nat \<Rightarrow> json list \<Rightarrow> string option" where
  "field_str i flds = opt_filter (\<lambda>v. v \<noteq> []) (Option.bind (list_get i flds) as_str)"

fun activity_endpoints :: "activity_type \<Rightarrow> json list \<Rightarrow> string option \<times> string option" where
  "activity_endpoints CopyPath flds = (field_str 1 flds, field_str 2 flds)"
| "activity_endpoints FileTransfer flds = (field_str 0 flds, None)"
| "activity_endpoints Substitute flds = (field_str 1 flds, None)"
| "activity_endpoints _ flds = (None, None)"

fun activity_host :: "activity_type \<Rightarrow> json list \<Rightarrow> string option" where
  "activity_host Build flds = field_str 1 flds"
| "activity_host Substitute flds = field_str 1 flds"
| "activity_host CopyPath flds = field_str 2 flds"
| "activity_host _ flds = None"

definition derivation_name :: "string \<Rightarrow> string" where
  "derivation_name path =
    (let basename = (case rsplit_once (CHR ''/'') path of None \<Rightarrow> path | Some (_, b) \<Rightarrow> b);
         base = opt_default path (strip_suffix ''.drv'' basename)
     in case split_once (CHR ''-'') base of
          Some (hash, name) \<Rightarrow> if length hash = 32 then name else base
        | None \<Rightarrow> base)"

definition STORE_PREFIX :: string where
  "STORE_PREFIX = ''/nix/store/''"

text \<open>\<^verbatim>\<open>match_indices\<close>: the suffixes of the text at the non-overlapping occurrences of the store
  prefix, from the left.\<close>

function store_matches :: "string \<Rightarrow> string list" where
  "store_matches [] = []"
| "store_matches (c # cs) =
    (case strip_prefix STORE_PREFIX (c # cs) of
       Some rest \<Rightarrow> (c # cs) # store_matches rest
     | None \<Rightarrow> store_matches cs)"
  by pat_completeness auto
termination
  by (relation "measure length") (auto simp: STORE_PREFIX_def split: if_splits)

definition path_stop_char :: "string \<Rightarrow> bool" where
  "path_stop_char c \<longleftrightarrow>
    is_whitespace c \<or> c \<in> {[CHR 0x27], [CHR 0x22], [CHR 0x1B], '')'', '']'', '',''}"

definition drv_candidate :: "string \<Rightarrow> string" where
  "drv_candidate sfx =
    (let body = concat (takeWhile (\<lambda>c. \<not> path_stop_char c) (utf8_chars sfx))
     in rev (dropWhile (\<lambda>c. c \<in> set ''.:;'') (rev body)))"

definition drv_paths :: "string \<Rightarrow> string bset" where
  "drv_paths text =
    fold (\<lambda>sfx paths.
        let candidate = drv_candidate sfx
        in if ends_with candidate ''.drv'' then bs_insert candidate paths else paths)
      (store_matches text) []"

section \<open>Handlers\<close>

definition nodes_entry :: "string \<Rightarrow> (node_state \<Rightarrow> node_state) \<Rightarrow> build_forest \<Rightarrow> build_forest" where
  "nodes_entry path g f = f\<lparr>bf_nodes := bm_entry node_default path g (bf_nodes f)\<rparr>"

text \<open>\<^verbatim>\<open>Option::get_or_insert\<close>.\<close>

definition get_or_insert :: "'a \<Rightarrow> 'a option \<Rightarrow> 'a option" where
  "get_or_insert v o' = (case o' of None \<Rightarrow> Some v | Some x \<Rightarrow> Some x)"

definition mark_transfer_node ::
  "nat \<Rightarrow> string option \<Rightarrow> derivation_status \<Rightarrow> string option \<Rightarrow> build_forest \<Rightarrow> build_forest" where
  "mark_transfer_node now output status host f =
    (case output of
       None \<Rightarrow> f
     | Some out \<Rightarrow>
         (case map_of (bf_output_to_drv f) out of
            None \<Rightarrow> f
          | Some path \<Rightarrow>
              nodes_entry path
                (\<lambda>n. n\<lparr>ns_status := status, ns_host := host,
                      ns_started_ms := get_or_insert (forest_elapsed_ms now f) (ns_started_ms n)\<rparr>) f))"

definition count_unknown :: "int \<Rightarrow> (int, nat) bmap \<Rightarrow> (int, nat) bmap" where
  "count_unknown code m = bm_entry 0 code (\<lambda>n. wrap_add n 1) m"

definition start_build :: "nat \<Rightarrow> string option \<Rightarrow> string option \<Rightarrow> string \<Rightarrow> build_forest \<Rightarrow> build_forest" where
  "start_build now path host text f =
    (case opt_filter (\<lambda>p. ends_with p ''.drv'') path of
       None \<Rightarrow> f
     | Some p \<Rightarrow>
         let f = nodes_entry p
           (\<lambda>n. n\<lparr>ns_status := StBuilding, ns_host := host,
                 ns_started_ms := get_or_insert (forest_elapsed_ms now f) (ns_started_ms n),
                 ns_last_activity := (if text = [] then None else Some text)\<rparr>) f
         in f\<lparr>bf_pending_drvs := bs_insert p (bf_pending_drvs f)\<rparr>)"

definition note_activity_kind :: "activity_type \<Rightarrow> build_forest \<Rightarrow> build_forest" where
  "note_activity_kind kind f =
    (case kind of
       OtherActivity code \<Rightarrow>
         f\<lparr>bf_unknown_activity_types := count_unknown code (bf_unknown_activity_types f)\<rparr>
     | _ \<Rightarrow> f)"

definition note_result_kind :: "result_type option \<Rightarrow> build_forest \<Rightarrow> build_forest" where
  "note_result_kind result f =
    (case result of
       Some (OtherResult code) \<Rightarrow>
         f\<lparr>bf_unknown_result_types := count_unknown code (bf_unknown_result_types f)\<rparr>
     | _ \<Rightarrow> f)"

definition start_node ::
  "nat \<Rightarrow> activity_type \<Rightarrow> string option \<Rightarrow> string option \<Rightarrow> string \<Rightarrow> build_forest \<Rightarrow> build_forest" where
  "start_node now kind path host text f =
    (case kind of
       Build \<Rightarrow> start_build now path host text f
     | CopyPath \<Rightarrow> mark_transfer_node now path StDownloading host f
     | FileTransfer \<Rightarrow> mark_transfer_node now path StDownloading host f
     | Substitute \<Rightarrow> mark_transfer_node now path StSubstituting host f
     | _ \<Rightarrow> f)"

definition forest_start :: "nat \<Rightarrow> nix_message \<Rightarrow> build_forest \<Rightarrow> build_forest" where
  "forest_start now m f =
    (case nm_id m of
       None \<Rightarrow> f
     | Some i \<Rightarrow>
         let kind = opt_default UnknownActivity (nm_activity_type m);
             f = note_activity_kind kind f;
             path = Option.bind (list_first (nm_fields m)) as_str;
             host = activity_host kind (nm_fields m);
             (source, destination) = activity_endpoints kind (nm_fields m);
             text = opt_default [] (nm_text m);
             f = start_node now kind path host text f
         in f\<lparr>bf_activities := bm_insert i
                \<lparr>aa_kind = kind, aa_path = path, aa_host = host, aa_source = source,
                 aa_destination = destination, aa_progress = None, aa_expectations = [],
                 aa_text = text\<rparr> (bf_activities f)\<rparr>)"

text \<open>A stopped build or transfer settles its node, unless a failure was reported first.\<close>

definition settle_built :: "nat \<Rightarrow> node_state \<Rightarrow> node_state" where
  "settle_built t n =
    (if ns_status n \<noteq> StFailed then n\<lparr>ns_status := StBuilt, ns_finished_ms := Some t\<rparr> else n)"

definition stop_transfer :: "nat \<Rightarrow> active_activity \<Rightarrow> build_forest \<Rightarrow> build_forest" where
  "stop_transfer t a f =
    (let f = (case aa_path a of
                None \<Rightarrow> f
              | Some output \<Rightarrow>
                  (case map_of (bf_output_to_drv f) output of
                     None \<Rightarrow> f
                   | Some path \<Rightarrow> nodes_entry path (settle_built t) f))
     in case aa_kind a of
          CopyPath \<Rightarrow> f\<lparr>bf_completed_downloads := sat_add (bf_completed_downloads f) 1\<rparr>
        | Substitute \<Rightarrow> f\<lparr>bf_completed_substitutions := sat_add (bf_completed_substitutions f) 1\<rparr>
        | _ \<Rightarrow> f)"

definition forest_stop :: "nat \<Rightarrow> nat option \<Rightarrow> build_forest \<Rightarrow> build_forest" where
  "forest_stop now ident f =
    (case ident of
       None \<Rightarrow> f
     | Some i \<Rightarrow>
         (case map_of (bf_activities f) i of
            None \<Rightarrow> f
          | Some a \<Rightarrow>
              let f = f\<lparr>bf_activities := bm_remove i (bf_activities f)\<rparr>;
                  t = forest_elapsed_ms now f
              in case aa_kind a of
                   Build \<Rightarrow>
                     (case aa_path a of None \<Rightarrow> f | Some path \<Rightarrow> nodes_entry path (settle_built t) f)
                 | CopyPath \<Rightarrow> stop_transfer t a f
                 | FileTransfer \<Rightarrow> stop_transfer t a f
                 | Substitute \<Rightarrow> stop_transfer t a f
                 | _ \<Rightarrow> f))"

definition push_log :: "string \<Rightarrow> string \<Rightarrow> build_forest \<Rightarrow> build_forest" where
  "push_log path text f =
    (let f = nodes_entry path
           (\<lambda>n. n\<lparr>ns_last_activity := Some text,
                 ns_log_tail := push_bounded DERIVATION_LOG_TAIL_LIMIT text (ns_log_tail n)\<rparr>) f;
         f = f\<lparr>bf_recent_logs := push_bounded RECENT_LOG_LIMIT
                 \<lparr>bl_derivation = path, bl_name = derivation_name path, bl_line = text\<rparr>
                 (bf_recent_logs f)\<rparr>
     in f\<lparr>bf_log_sequence := sat_add (bf_log_sequence f) 1\<rparr>)"

definition latest_log :: "build_forest \<Rightarrow> build_log_line option" where
  "latest_log f = list_last (bf_recent_logs f)"

definition result_line :: "nix_message \<Rightarrow> string option" where
  "result_line m = Option.bind (list_first (nm_fields m)) as_str"

definition forest_result :: "nix_message \<Rightarrow> build_forest \<Rightarrow> build_forest" where
  "forest_result m f =
    (let result = nm_result_type m;
         f = note_result_kind result f
     in case nm_id m of
          None \<Rightarrow> f
        | Some i \<Rightarrow>
            (case map_of (bf_activities f) i of
               None \<Rightarrow> f
             | Some a \<Rightarrow>
                 (if result \<in> {Some BuildLogLineR, Some PostBuildLogLine} then
                    (case (aa_path a, result_line m) of
                       (Some path, Some text) \<Rightarrow> push_log path text f
                     | _ \<Rightarrow> f)
                  else if result \<in> {Some SetPhase, Some FetchStatus} then
                    (case (aa_path a, result_line m) of
                       (Some path, Some text) \<Rightarrow>
                         nodes_entry path (\<lambda>n. n\<lparr>ns_last_activity := Some text\<rparr>) f
                     | _ \<Rightarrow> f)
                  else if result = Some Progress then
                    (case activity_progress_of (nm_fields m) of
                       None \<Rightarrow> f
                     | Some p \<Rightarrow>
                         f\<lparr>bf_activities :=
                             bm_get_mut i (\<lambda>a. a\<lparr>aa_progress := Some p\<rparr>) (bf_activities f)\<rparr>)
                  else if result = Some SetExpected then
                    (case activity_expectation_of (nm_fields m) of
                       None \<Rightarrow> f
                     | Some (kind, expected) \<Rightarrow>
                         f\<lparr>bf_activities :=
                             bm_get_mut i
                               (\<lambda>a. a\<lparr>aa_expectations := bm_insert kind expected (aa_expectations a)\<rparr>)
                               (bf_activities f)\<rparr>)
                  else f)))"

definition fail_node :: "nat \<Rightarrow> string \<Rightarrow> build_forest \<Rightarrow> build_forest" where
  "fail_node t path f = nodes_entry path (\<lambda>n. n\<lparr>ns_status := StFailed, ns_finished_ms := Some t\<rparr>) f"

definition plan_node :: "string \<Rightarrow> build_forest \<Rightarrow> build_forest" where
  "plan_node path f =
    (let f = nodes_entry path
           (\<lambda>n. if ns_status n = StUnknown then n\<lparr>ns_status := StPlanned\<rparr> else n) f
     in f\<lparr>bf_pending_drvs := bs_insert path (bf_pending_drvs f)\<rparr>)"

definition forest_message :: "nat \<Rightarrow> nix_message \<Rightarrow> build_forest \<Rightarrow> build_forest" where
  "forest_message now m f =
    (case message_text m of
       None \<Rightarrow> f
     | Some text \<Rightarrow>
         let paths = drv_paths text
         in if nm_level m = Some 0 then
              let f = f\<lparr>bf_errors := bf_errors f @ [text]\<rparr>
              in fold (fail_node (forest_elapsed_ms now f)) paths f
            else fold plan_node paths f)"

definition feed_message :: "nat \<Rightarrow> nix_message \<Rightarrow> build_forest \<Rightarrow> build_forest" where
  "feed_message now m f =
    (let f = f\<lparr>bf_version := sat_add (bf_version f) 1\<rparr>
     in if nm_action m = ''start'' then forest_start now m f
        else if nm_action m = ''stop'' then forest_stop now (nm_id m) f
        else if nm_action m = ''result'' then forest_result m f
        else if nm_action m = ''msg'' then forest_message now m f
        else f\<lparr>bf_unknown_actions := sat_add (bf_unknown_actions f) 1\<rparr>)"

definition feed_line ::
  "(string \<Rightarrow> ('e, nix_message) result) \<Rightarrow> nat \<Rightarrow> string \<Rightarrow> build_forest \<Rightarrow> feed_outcome \<times> build_forest" where
  "feed_line dec now line f =
    (case parse_nix_line dec line of
       Inr (Some m) \<Rightarrow> (Accepted, feed_message now m f)
     | Inr None \<Rightarrow> (Ignored, f\<lparr>bf_ignored_lines := wrap_add (bf_ignored_lines f) 1\<rparr>)
     | Inl _ \<Rightarrow> (Malformed, f\<lparr>bf_malformed_messages := wrap_add (bf_malformed_messages f) 1\<rparr>))"

section \<open>Derivation backfill\<close>

definition take_pending_derivations :: "build_forest \<Rightarrow> string list \<times> build_forest" where
  "take_pending_derivations f =
    (filter (\<lambda>p. \<not> bm_contains (bf_drv_cache f) p) (bf_pending_drvs f), f\<lparr>bf_pending_drvs := []\<rparr>)"

definition add_input :: "string \<Rightarrow> build_forest \<Rightarrow> build_forest" where
  "add_input input f =
    (let f = nodes_entry input id f
     in if bm_contains (bf_drv_cache f) input then f
        else f\<lparr>bf_pending_drvs := bs_insert input (bf_pending_drvs f)\<rparr>)"

definition backfill :: "string \<Rightarrow> derivation \<Rightarrow> build_forest \<Rightarrow> build_forest" where
  "backfill path drv f =
    (let f = nodes_entry path
           (\<lambda>n. n\<lparr>ns_inputs := bs_extend (bm_keys (drv_input_drvs drv)) (ns_inputs n),
                 ns_outputs := drv_outputs drv\<rparr>) f;
         f = f\<lparr>bf_output_to_drv :=
                 fold (\<lambda>output. bm_insert output path) (bm_values (drv_outputs drv)) (bf_output_to_drv f)\<rparr>
     in fold add_input (bm_keys (drv_input_drvs drv)) f)"

definition apply_derivation :: "string \<Rightarrow> derivation \<Rightarrow> build_forest \<Rightarrow> build_forest" where
  "apply_derivation path drv f =
    (let f = backfill path drv f;
         f = f\<lparr>bf_drv_cache := bm_insert path (Some drv) (bf_drv_cache f)\<rparr>
     in f\<lparr>bf_version := sat_add (bf_version f) 1\<rparr>)"

definition apply_derivation_error :: "string \<Rightarrow> string \<Rightarrow> build_forest \<Rightarrow> build_forest" where
  "apply_derivation_error path note f =
    (let f = nodes_entry path (\<lambda>n. n\<lparr>ns_note := Some note\<rparr>) f;
         f = f\<lparr>bf_drv_cache := bm_insert path None (bf_drv_cache f)\<rparr>
     in f\<lparr>bf_version := sat_add (bf_version f) 1\<rparr>)"

definition show_parse_error :: "parse_error \<Rightarrow> string" where
  "show_parse_error e =
    ''ATerm parse error at byte '' @ show_nat (pe_offset e) @ '': '' @ pe_message e"

definition resolve_one ::
  "(string \<Rightarrow> (string, string) result) \<Rightarrow> string \<Rightarrow> build_forest \<Rightarrow> build_forest" where
  "resolve_one read_drv path f =
    (case read_drv path of
       Inr contents \<Rightarrow>
         (case parse_derivation contents of
            Inr drv \<Rightarrow> apply_derivation path drv f
          | Inl e \<Rightarrow> apply_derivation_error path (''unparseable drv: '' @ show_parse_error e) f)
     | Inl e \<Rightarrow> apply_derivation_error path (''drv unavailable: '' @ e) f)"

text \<open>The loop of \<^verbatim>\<open>resolve_pending\<close>; \<^const>\<open>None\<close> is fuel exhausted.\<close>

fun resolve_pending ::
  "nat \<Rightarrow> (string \<Rightarrow> (string, string) result) \<Rightarrow> build_forest \<Rightarrow> build_forest option" where
  "resolve_pending 0 read_drv f = None"
| "resolve_pending (Suc n) read_drv f =
    (case take_pending_derivations f of
       (paths, f) \<Rightarrow>
         if paths = [] then Some f
         else resolve_pending n read_drv (fold (resolve_one read_drv) paths f))"

section \<open>The invariant\<close>

definition started_ok :: "node_state \<Rightarrow> bool" where
  "started_ok n \<longleftrightarrow>
    (ns_status n \<in> {StBuilding, StDownloading, StSubstituting} \<longrightarrow> ns_started_ms n \<noteq> None) \<and>
    (ns_status n \<in> {StBuilt, StFailed} \<longrightarrow> ns_finished_ms n \<noteq> None)"

definition node_ok :: "string set \<Rightarrow> node_state \<Rightarrow> bool" where
  "node_ok known n \<longleftrightarrow>
    bs_wf (ns_inputs n) \<and> bm_wf (ns_outputs n) \<and> set (ns_inputs n) \<subseteq> known \<and>
    length (ns_log_tail n) \<le> DERIVATION_LOG_TAIL_LIMIT \<and> started_ok n"

definition known_nodes :: "build_forest \<Rightarrow> string set" where
  "known_nodes f = fst ` set (bf_nodes f)"

definition nodes_ok :: "build_forest \<Rightarrow> bool" where
  "nodes_ok f \<longleftrightarrow>
    bm_wf (bf_nodes f) \<and> (\<forall>p n. map_of (bf_nodes f) p = Some n \<longrightarrow> node_ok (known_nodes f) n)"

definition refs_ok :: "build_forest \<Rightarrow> bool" where
  "refs_ok f \<longleftrightarrow>
    bs_wf (bf_pending_drvs f) \<and> set (bf_pending_drvs f) \<subseteq> known_nodes f \<and>
    bm_wf (bf_drv_cache f) \<and> fst ` set (bf_drv_cache f) \<subseteq> known_nodes f \<and>
    bm_wf (bf_output_to_drv f) \<and>
    (\<forall>out p. map_of (bf_output_to_drv f) out = Some p \<longrightarrow> p \<in> known_nodes f)"

definition counters_ok :: "build_forest \<Rightarrow> bool" where
  "counters_ok f \<longleftrightarrow>
    bm_wf (bf_activities f) \<and> bm_wf (bf_unknown_activity_types f) \<and>
    bm_wf (bf_unknown_result_types f) \<and> length (bf_recent_logs f) \<le> RECENT_LOG_LIMIT \<and>
    bf_version f \<le> U64_MAX \<and> bf_unknown_actions f \<le> U64_MAX \<and> bf_malformed_messages f \<le> U64_MAX \<and>
    bf_ignored_lines f \<le> U64_MAX \<and> bf_completed_downloads f \<le> U64_MAX \<and>
    bf_completed_substitutions f \<le> U64_MAX \<and> bf_log_sequence f \<le> U64_MAX"

definition forest_inv :: "build_forest \<Rightarrow> bool" where
  "forest_inv f \<longleftrightarrow> nodes_ok f \<and> refs_ok f \<and> counters_ok f"

lemmas forest_inv_defs = forest_inv_def nodes_ok_def refs_ok_def counters_ok_def

interpretation tail_log: bounded_queue "push_bounded DERIVATION_LOG_TAIL_LIMIT" DERIVATION_LOG_TAIL_LIMIT
  by unfold_locales (auto simp: push_bounded_def DERIVATION_LOG_TAIL_LIMIT_def)

interpretation recent_log: bounded_queue "push_bounded RECENT_LOG_LIMIT" RECENT_LOG_LIMIT
  by unfold_locales (auto simp: push_bounded_def RECENT_LOG_LIMIT_def)

lemma node_ok_default [simp]: "node_ok K node_default"
  by (simp add: node_ok_def node_default_def started_ok_def)

lemma node_ok_mono: "node_ok K n \<Longrightarrow> K \<subseteq> L \<Longrightarrow> node_ok L n"
  by (auto simp: node_ok_def)

lemma known_nodes_entry [simp]: "known_nodes (nodes_entry p g f) = Set.insert p (known_nodes f)"
  by (simp add: known_nodes_def nodes_entry_def)

lemma nodes_entry_frame [frame_simps, simp]:
  "bf_started (nodes_entry p g f) = bf_started f"
  "bf_version (nodes_entry p g f) = bf_version f"
  "bf_output_to_drv (nodes_entry p g f) = bf_output_to_drv f"
  "bf_activities (nodes_entry p g f) = bf_activities f"
  "bf_pending_drvs (nodes_entry p g f) = bf_pending_drvs f"
  "bf_drv_cache (nodes_entry p g f) = bf_drv_cache f"
  "bf_errors (nodes_entry p g f) = bf_errors f"
  "bf_unknown_activity_types (nodes_entry p g f) = bf_unknown_activity_types f"
  "bf_unknown_result_types (nodes_entry p g f) = bf_unknown_result_types f"
  "bf_unknown_actions (nodes_entry p g f) = bf_unknown_actions f"
  "bf_malformed_messages (nodes_entry p g f) = bf_malformed_messages f"
  "bf_ignored_lines (nodes_entry p g f) = bf_ignored_lines f"
  "bf_completed_downloads (nodes_entry p g f) = bf_completed_downloads f"
  "bf_completed_substitutions (nodes_entry p g f) = bf_completed_substitutions f"
  "bf_duration_estimates_ms (nodes_entry p g f) = bf_duration_estimates_ms f"
  "bf_recent_logs (nodes_entry p g f) = bf_recent_logs f"
  "bf_log_sequence (nodes_entry p g f) = bf_log_sequence f"
  by (simp_all add: nodes_entry_def)

lemma nodes_entry_lookup [simp]:
  "map_of (bf_nodes (nodes_entry p g f)) =
    (map_of (bf_nodes f))(p \<mapsto> g (opt_default node_default (map_of (bf_nodes f) p)))"
  by (simp add: nodes_entry_def)

lemma nodes_ok_entry:
  assumes f: "nodes_ok f" and g: "\<And>n. node_ok (Set.insert p (known_nodes f)) n \<Longrightarrow>
    node_ok (Set.insert p (known_nodes f)) (g n)"
  shows "nodes_ok (nodes_entry p g f)"
proof -
  let ?K = "Set.insert p (known_nodes f)"
  have old: "node_ok ?K n" if "map_of (bf_nodes f) q = Some n" for q n
    using f that by (auto simp: nodes_ok_def intro: node_ok_mono [OF _ subset_insertI])
  then have "node_ok ?K (opt_default node_default (map_of (bf_nodes f) p))"
    by (cases "map_of (bf_nodes f) p") auto
  with old g f show ?thesis
    by (auto simp: nodes_ok_def nodes_entry_def bm_wf_entry known_nodes_def)
qed

lemma nodes_entry_inv:
  assumes f: "forest_inv f" and g: "\<And>n. node_ok (Set.insert p (known_nodes f)) n \<Longrightarrow>
    node_ok (Set.insert p (known_nodes f)) (g n)"
  shows "forest_inv (nodes_entry p g f)"
  using nodes_ok_entry [OF _ g] f by (auto simp: forest_inv_def refs_ok_def counters_ok_def)

lemma known_nodes_update [simp]:
  "known_nodes (f\<lparr>bf_pending_drvs := a\<rparr>) = known_nodes f"
  "known_nodes (f\<lparr>bf_version := b\<rparr>) = known_nodes f"
  "known_nodes (f\<lparr>bf_drv_cache := c\<rparr>) = known_nodes f"
  "known_nodes (f\<lparr>bf_activities := d\<rparr>) = known_nodes f"
  "known_nodes (f\<lparr>bf_output_to_drv := e\<rparr>) = known_nodes f"
  "known_nodes (f\<lparr>bf_recent_logs := g\<rparr>) = known_nodes f"
  "known_nodes (f\<lparr>bf_log_sequence := h\<rparr>) = known_nodes f"
  "known_nodes (f\<lparr>bf_errors := i\<rparr>) = known_nodes f"
  "known_nodes (f\<lparr>bf_unknown_activity_types := j\<rparr>) = known_nodes f"
  "known_nodes (f\<lparr>bf_unknown_result_types := k\<rparr>) = known_nodes f"
  "known_nodes (f\<lparr>bf_unknown_actions := l\<rparr>) = known_nodes f"
  "known_nodes (f\<lparr>bf_malformed_messages := m\<rparr>) = known_nodes f"
  "known_nodes (f\<lparr>bf_ignored_lines := n\<rparr>) = known_nodes f"
  "known_nodes (f\<lparr>bf_completed_downloads := o1\<rparr>) = known_nodes f"
  "known_nodes (f\<lparr>bf_completed_substitutions := p\<rparr>) = known_nodes f"
  "known_nodes (f\<lparr>bf_duration_estimates_ms := q\<rparr>) = known_nodes f"
  by (simp_all add: known_nodes_def)

text \<open>The node updates of the handlers keep a node well formed.\<close>

lemma get_or_insert_Some [simp]: "get_or_insert v x \<noteq> None" "get_or_insert v x = None \<longleftrightarrow> False"
  by (auto simp: get_or_insert_def split: option.splits)

lemma node_ok_run:
  "node_ok K n \<Longrightarrow> st \<in> {StBuilding, StDownloading, StSubstituting} \<Longrightarrow>
    node_ok K (n\<lparr>ns_status := st, ns_host := h, ns_started_ms := get_or_insert t (ns_started_ms n)\<rparr>)"
  by (auto simp: node_ok_def started_ok_def)

lemma node_ok_activity: "node_ok K (n\<lparr>ns_last_activity := a\<rparr>) \<longleftrightarrow> node_ok K n"
  by (simp add: node_ok_def started_ok_def)

lemma node_ok_note: "node_ok K (n\<lparr>ns_note := a\<rparr>) \<longleftrightarrow> node_ok K n"
  by (simp add: node_ok_def started_ok_def)

lemma node_ok_settle: "node_ok K n \<Longrightarrow> node_ok K (settle_built t n)"
  by (auto simp: settle_built_def node_ok_def started_ok_def)

lemma node_ok_fail: "node_ok K n \<Longrightarrow> node_ok K (n\<lparr>ns_status := StFailed, ns_finished_ms := Some t\<rparr>)"
  by (auto simp: node_ok_def started_ok_def)

lemma node_ok_plan: "node_ok K n \<Longrightarrow> node_ok K (if ns_status n = StUnknown then n\<lparr>ns_status := StPlanned\<rparr> else n)"
  by (auto simp: node_ok_def started_ok_def)

lemma node_ok_log:
  "node_ok K n \<Longrightarrow> node_ok K (n\<lparr>ns_last_activity := a,
    ns_log_tail := push_bounded DERIVATION_LOG_TAIL_LIMIT t (ns_log_tail n)\<rparr>)"
  using tail_log.push_le by (auto simp: node_ok_def started_ok_def)

lemma node_ok_backfill:
  "node_ok K n \<Longrightarrow> bm_wf outs \<Longrightarrow> set ins \<subseteq> K \<Longrightarrow>
    node_ok K (n\<lparr>ns_inputs := bs_extend ins (ns_inputs n), ns_outputs := outs\<rparr>)"
  by (auto simp: node_ok_def started_ok_def bs_wf_extend)

lemmas node_ok_updates = node_ok_run node_ok_activity node_ok_note node_ok_settle node_ok_fail
  node_ok_plan node_ok_log

section \<open>Every operation keeps the invariant\<close>

lemma forest_new_inv [wf_intros]: "forest_inv (forest_new now)"
  by (simp add: forest_inv_defs forest_new_def known_nodes_def)

lemma with_estimates_inv [wf_intros]: "forest_inv (with_duration_estimates now est)"
  using forest_new_inv [of now] by (simp add: forest_inv_defs with_duration_estimates_def)

lemma inv_pending:
  "forest_inv f \<Longrightarrow> p \<in> known_nodes f \<Longrightarrow> forest_inv (f\<lparr>bf_pending_drvs := bs_insert p (bf_pending_drvs f)\<rparr>)"
  by (simp add: forest_inv_defs bs_wf_insert)

lemma inv_activities:
  "forest_inv f \<Longrightarrow> bm_wf m \<Longrightarrow> forest_inv (f\<lparr>bf_activities := m\<rparr>)"
  by (simp add: forest_inv_defs)

lemma inv_counters:
  "forest_inv f \<Longrightarrow> k \<le> U64_MAX \<Longrightarrow> forest_inv (f\<lparr>bf_version := k\<rparr>)"
  "forest_inv f \<Longrightarrow> k \<le> U64_MAX \<Longrightarrow> forest_inv (f\<lparr>bf_unknown_actions := k\<rparr>)"
  "forest_inv f \<Longrightarrow> k \<le> U64_MAX \<Longrightarrow> forest_inv (f\<lparr>bf_malformed_messages := k\<rparr>)"
  "forest_inv f \<Longrightarrow> k \<le> U64_MAX \<Longrightarrow> forest_inv (f\<lparr>bf_ignored_lines := k\<rparr>)"
  "forest_inv f \<Longrightarrow> k \<le> U64_MAX \<Longrightarrow> forest_inv (f\<lparr>bf_completed_downloads := k\<rparr>)"
  "forest_inv f \<Longrightarrow> k \<le> U64_MAX \<Longrightarrow> forest_inv (f\<lparr>bf_completed_substitutions := k\<rparr>)"
  "forest_inv f \<Longrightarrow> k \<le> U64_MAX \<Longrightarrow> forest_inv (f\<lparr>bf_log_sequence := k\<rparr>)"
  by (simp_all add: forest_inv_defs)

lemma inv_unknown:
  "forest_inv f \<Longrightarrow> bm_wf m \<Longrightarrow> forest_inv (f\<lparr>bf_unknown_activity_types := m\<rparr>)"
  "forest_inv f \<Longrightarrow> bm_wf m \<Longrightarrow> forest_inv (f\<lparr>bf_unknown_result_types := m\<rparr>)"
  "forest_inv f \<Longrightarrow> forest_inv (f\<lparr>bf_errors := e\<rparr>)"
  "forest_inv f \<Longrightarrow> length l \<le> RECENT_LOG_LIMIT \<Longrightarrow> forest_inv (f\<lparr>bf_recent_logs := l\<rparr>)"
  by (simp_all add: forest_inv_defs)

lemma inv_wf_parts:
  "forest_inv f \<Longrightarrow> bm_wf (bf_unknown_activity_types f)"
  "forest_inv f \<Longrightarrow> bm_wf (bf_unknown_result_types f)"
  "forest_inv f \<Longrightarrow> bm_wf (bf_activities f)"
  "forest_inv f \<Longrightarrow> length (bf_recent_logs f) \<le> RECENT_LOG_LIMIT"
  by (simp_all add: forest_inv_defs)

lemma bm_wf_count_unknown: "bm_wf m \<Longrightarrow> bm_wf (count_unknown c m)"
  by (simp add: count_unknown_def bm_wf_entry)

lemma mark_transfer_inv [wf_intros]:
  assumes "forest_inv f" and "st \<in> {StBuilding, StDownloading, StSubstituting}"
  shows "forest_inv (mark_transfer_node now out st h f)"
  using assms by (auto simp: mark_transfer_node_def split: option.split intro!: nodes_entry_inv node_ok_run)

lemma start_build_inv [wf_intros]: "forest_inv f \<Longrightarrow> forest_inv (start_build now path host text f)"
proof (cases "opt_filter (\<lambda>p. ends_with p ''.drv'') path")
  case (Some p)
  let ?g = "nodes_entry p (\<lambda>n. n\<lparr>ns_status := StBuilding, ns_host := host,
    ns_started_ms := get_or_insert (forest_elapsed_ms now f) (ns_started_ms n),
    ns_last_activity := (if text = [] then None else Some text)\<rparr>) f"
  assume "forest_inv f"
  then have "forest_inv ?g"
    by (intro nodes_entry_inv) (simp_all add: node_ok_activity node_ok_run)
  then have "forest_inv (?g\<lparr>bf_pending_drvs := bs_insert p (bf_pending_drvs ?g)\<rparr>)"
    by (rule inv_pending) simp
  then show ?thesis by (simp only: start_build_def Some option.case Let_def)
qed (simp add: start_build_def)

lemma note_kind_inv [wf_intros]:
  "forest_inv f \<Longrightarrow> forest_inv (note_activity_kind k f)"
  "forest_inv f \<Longrightarrow> forest_inv (note_result_kind r f)"
  by (auto simp: note_activity_kind_def note_result_kind_def split: activity_type.split
      option.split result_type.split intro: inv_unknown bm_wf_count_unknown inv_wf_parts)

lemma start_node_inv [wf_intros]: "forest_inv f \<Longrightarrow> forest_inv (start_node now k p h t f)"
  by (auto simp: start_node_def split: activity_type.split intro!: start_build_inv mark_transfer_inv)

lemma inv_insert_activity:
  "forest_inv f \<Longrightarrow> forest_inv (f\<lparr>bf_activities := bm_insert i a (bf_activities f)\<rparr>)"
  by (intro inv_activities bm_wf_insert inv_wf_parts)

lemma forest_start_inv [wf_intros]: "forest_inv f \<Longrightarrow> forest_inv (forest_start now m f)"
  unfolding forest_start_def Let_def
  by (simp add: inv_insert_activity start_node_inv note_kind_inv split: option.split prod.split)

lemma stop_transfer_inv [wf_intros]: "forest_inv f \<Longrightarrow> forest_inv (stop_transfer t a f)"
  unfolding stop_transfer_def Let_def
  by (auto split: activity_type.split option.split
      intro!: inv_counters sat_add_le nodes_entry_inv node_ok_settle)

lemma forest_stop_inv [wf_intros]: "forest_inv f \<Longrightarrow> forest_inv (forest_stop now i f)"
  unfolding forest_stop_def Let_def
  by (auto split: activity_type.split option.split
      intro!: stop_transfer_inv nodes_entry_inv node_ok_settle inv_activities bm_wf_remove inv_wf_parts)

lemma push_log_inv [wf_intros]: "forest_inv f \<Longrightarrow> forest_inv (push_log path text f)"
proof -
  assume f: "forest_inv f"
  let ?g = "nodes_entry path (\<lambda>n. n\<lparr>ns_last_activity := Some text,
    ns_log_tail := push_bounded DERIVATION_LOG_TAIL_LIMIT text (ns_log_tail n)\<rparr>) f"
  have g: "forest_inv ?g" using f by (intro nodes_entry_inv node_ok_log)
  then have "length (push_bounded RECENT_LOG_LIMIT l (bf_recent_logs ?g)) \<le> RECENT_LOG_LIMIT" for l
    by (intro recent_log.push_le inv_wf_parts)
  with g show ?thesis
    unfolding push_log_def Let_def by (intro inv_counters inv_unknown sat_add_le)
qed

lemma forest_result_inv [wf_intros]:
  assumes f: "forest_inv f"
  shows "forest_inv (forest_result m f)"
proof -
  define g where "g = note_result_kind (nm_result_type m) f"
  have u: "forest_inv g" unfolding g_def by (rule note_kind_inv(2) [OF f])
  have acts: "forest_inv (g\<lparr>bf_activities := bm_get_mut i h (bf_activities g)\<rparr>)" for i h
    using u by (intro inv_activities bm_wf_get_mut inv_wf_parts)
  have act: "forest_inv (nodes_entry path (\<lambda>n. n\<lparr>ns_last_activity := a\<rparr>) g)" for path a
    using u by (intro nodes_entry_inv) (simp_all add: node_ok_activity)
  show ?thesis
    using u acts act push_log_inv [OF u] unfolding forest_result_def Let_def g_def [symmetric]
    by (simp split: option.split prod.split)
qed

lemma fail_node_inv [wf_intros]: "forest_inv f \<Longrightarrow> forest_inv (fail_node t p f)"
  by (simp add: fail_node_def nodes_entry_inv node_ok_fail)

lemma plan_node_inv [wf_intros]: "forest_inv f \<Longrightarrow> forest_inv (plan_node p f)"
  unfolding plan_node_def Let_def
  by (intro inv_pending nodes_entry_inv node_ok_plan) simp_all

lemma forest_message_inv [wf_intros]: "forest_inv f \<Longrightarrow> forest_inv (forest_message now m f)"
proof -
  have "forest_inv g \<Longrightarrow> forest_inv (fold (fail_node t) ps g)" for t ps g
    by (induction ps arbitrary: g) (simp_all add: fail_node_inv)
  moreover have "forest_inv g \<Longrightarrow> forest_inv (fold plan_node ps g)" for ps g
    by (induction ps arbitrary: g) (simp_all add: plan_node_inv)
  moreover assume "forest_inv f"
  ultimately show ?thesis
    by (simp add: forest_message_def Let_def inv_unknown split: option.split)
qed

lemma feed_message_inv [wf_intros]: "forest_inv f \<Longrightarrow> forest_inv (feed_message now m f)"
  unfolding feed_message_def Let_def
  by (simp add: inv_counters sat_add_le forest_start_inv forest_stop_inv forest_result_inv forest_message_inv)

lemma feed_line_inv [wf_intros]: "forest_inv f \<Longrightarrow> forest_inv (snd (feed_line dec now line f))"
  by (auto simp: feed_line_def feed_message_inv inv_counters wrap_add_le split: sum.split option.split)

lemma take_pending_inv [wf_intros]: "forest_inv f \<Longrightarrow> forest_inv (snd (take_pending_derivations f))"
  by (simp add: take_pending_derivations_def forest_inv_defs)

text \<open>Backfilling records the edges of a node before the nodes they lead to exist. The invariant
  with the targets in \<open>extra\<close> still owed is what the loop that adds them maintains.\<close>

definition inv_except :: "string set \<Rightarrow> build_forest \<Rightarrow> bool" where
  "inv_except extra f \<longleftrightarrow>
    bm_wf (bf_nodes f) \<and> (\<forall>p n. map_of (bf_nodes f) p = Some n \<longrightarrow> node_ok (extra \<union> known_nodes f) n) \<and>
    refs_ok f \<and> counters_ok f"

lemma inv_except_close: "inv_except extra f \<Longrightarrow> extra \<subseteq> known_nodes f \<Longrightarrow> forest_inv f"
  by (auto simp: inv_except_def forest_inv_def nodes_ok_def Un_absorb1)

lemma inv_except_open: "forest_inv f \<Longrightarrow> inv_except {} f"
  by (simp add: inv_except_def forest_inv_def nodes_ok_def)

lemma inv_except_entry:
  assumes f: "inv_except extra f" and sub: "extra \<subseteq> extra'"
    and g: "\<And>n K. extra' \<subseteq> K \<Longrightarrow> node_ok K n \<Longrightarrow> node_ok K (g n)"
  shows "inv_except extra' (nodes_entry p g f)"
proof -
  let ?K = "extra' \<union> Set.insert p (known_nodes f)"
  have old: "node_ok ?K n" if "map_of (bf_nodes f) q = Some n" for q n
    by (rule node_ok_mono [of "extra \<union> known_nodes f"])
      (use f sub that in \<open>auto simp: inv_except_def\<close>)
  then have "node_ok ?K (opt_default node_default (map_of (bf_nodes f) p))"
    by (cases "map_of (bf_nodes f) p") auto
  then have "node_ok ?K (g (opt_default node_default (map_of (bf_nodes f) p)))"
    by (intro g) auto
  then show ?thesis
    using f old by (auto simp: inv_except_def refs_ok_def counters_ok_def nodes_entry_def
        bm_wf_entry known_nodes_def)
qed

lemma add_input_known [simp]: "known_nodes (add_input p f) = Set.insert p (known_nodes f)"
  by (simp add: add_input_def Let_def)

lemma fold_add_input_known [simp]: "known_nodes (fold add_input ps f) = set ps \<union> known_nodes f"
  by (induction ps arbitrary: f) auto

lemma inv_except_add_input:
  assumes "inv_except extra f"
  shows "inv_except extra (add_input p f)"
proof -
  have "inv_except extra (nodes_entry p id f)"
    using assms by (rule inv_except_entry) simp_all
  then show ?thesis
    by (auto simp: add_input_def Let_def inv_except_def refs_ok_def counters_ok_def bs_wf_insert)
qed

lemma inv_except_fold: "inv_except extra f \<Longrightarrow> inv_except extra (fold add_input ps f)"
  by (induction ps arbitrary: f) (simp_all add: inv_except_add_input)

definition set_outputs :: "string \<Rightarrow> string list \<Rightarrow> build_forest \<Rightarrow> build_forest" where
  "set_outputs path outs f =
    f\<lparr>bf_output_to_drv := fold (\<lambda>output. bm_insert output path) outs (bf_output_to_drv f)\<rparr>"

lemma inv_except_outputs:
  assumes "inv_except extra f" and "path \<in> known_nodes f"
  shows "inv_except extra (set_outputs path outs f)"
proof -
  let ?ins = "fold (\<lambda>output. bm_insert output path) outs"
  have wf: "bm_wf m \<Longrightarrow> bm_wf (?ins m)" for m
    by (induction outs arbitrary: m) (simp_all add: bm_wf_insert)
  have range: "(\<forall>out p. map_of m out = Some p \<longrightarrow> p \<in> known_nodes f) \<Longrightarrow>
      (\<forall>out p. map_of (?ins m) out = Some p \<longrightarrow> p \<in> known_nodes f)" for m
  proof (induction outs arbitrary: m)
    case (Cons a outs)
    have "\<forall>out p. map_of (bm_insert a path m) out = Some p \<longrightarrow> p \<in> known_nodes f"
      using Cons.prems assms(2) by simp
    from Cons.IH [OF this] show ?case by simp
  qed simp
  have "refs_ok f" using assms(1) by (simp add: inv_except_def)
  then have "refs_ok (set_outputs path outs f)"
    using wf range [of "bf_output_to_drv f"] by (simp add: refs_ok_def set_outputs_def)
  then show ?thesis
    using assms(1) by (simp add: set_outputs_def inv_except_def counters_ok_def)
qed

lemma backfill_inv [wf_intros]:
  assumes f: "forest_inv f" and drv: "wf_derivation drv"
  shows "forest_inv (backfill path drv f)"
proof -
  let ?ins = "bm_keys (drv_input_drvs drv)"
  let ?g = "nodes_entry path (\<lambda>n. n\<lparr>ns_inputs := bs_extend ?ins (ns_inputs n),
    ns_outputs := drv_outputs drv\<rparr>) f"
  have "inv_except (set ?ins) ?g"
    using inv_except_open [OF f] drv
    by (rule_tac inv_except_entry) (auto simp: wf_derivation_def intro: node_ok_backfill)
  then have "inv_except (set ?ins) (fold add_input ?ins (set_outputs path (bm_values (drv_outputs drv)) ?g))"
    by (intro inv_except_fold inv_except_outputs) simp_all
  moreover have "fold add_input ?ins (set_outputs path (bm_values (drv_outputs drv)) ?g) =
      backfill path drv f"
    by (simp add: backfill_def set_outputs_def Let_def)
  ultimately have "inv_except (set ?ins) (backfill path drv f)" by simp
  then show ?thesis
    by (rule inv_except_close) (auto simp: backfill_def Let_def)
qed

lemma backfill_known: "path \<in> known_nodes (backfill path drv f)"
  by (simp add: backfill_def Let_def)

lemma inv_cache:
  "forest_inv f \<Longrightarrow> p \<in> known_nodes f \<Longrightarrow> forest_inv (f\<lparr>bf_drv_cache := bm_insert p d (bf_drv_cache f)\<rparr>)"
  by (simp add: forest_inv_defs bm_wf_insert)

lemma apply_derivation_inv [wf_intros]:
  "forest_inv f \<Longrightarrow> wf_derivation drv \<Longrightarrow> forest_inv (apply_derivation path drv f)"
  unfolding apply_derivation_def Let_def
  by (intro inv_counters inv_cache backfill_inv backfill_known sat_add_le)

lemma apply_derivation_error_inv [wf_intros]:
  "forest_inv f \<Longrightarrow> forest_inv (apply_derivation_error path note f)"
  unfolding apply_derivation_error_def Let_def
  by (intro inv_counters inv_cache sat_add_le nodes_entry_inv) (simp_all add: node_ok_note)

lemma resolve_one_inv [wf_intros]: "forest_inv f \<Longrightarrow> forest_inv (resolve_one read_drv path f)"
  by (auto simp: resolve_one_def apply_derivation_inv apply_derivation_error_inv parse_derivation_wf
      split: sum.split)

lemma fold_resolve_one_inv: "forest_inv f \<Longrightarrow> forest_inv (fold (resolve_one read_drv) ps f)"
  by (induction ps arbitrary: f) (simp_all add: resolve_one_inv)

lemma resolve_pending_inv [wf_intros]:
  "forest_inv f \<Longrightarrow> resolve_pending n read_drv f = Some f' \<Longrightarrow> forest_inv f'"
proof (induction n read_drv f rule: resolve_pending.induct)
  case (2 n read_drv f)
  then show ?case
    using take_pending_inv [of f]
    by (auto simp: fold_resolve_one_inv split: prod.splits if_splits)
qed simp

section \<open>Reachable forests\<close>

text \<open>The states a stream of lines, messages and background reads can produce.\<close>

inductive forest_step :: "build_forest \<Rightarrow> build_forest \<Rightarrow> bool" where
  step_line: "forest_step f
    (snd (feed_line (dec :: string \<Rightarrow> (string, nix_message) result) now line f))"
| step_message: "forest_step f (feed_message now m f)"
| step_take: "forest_step f (snd (take_pending_derivations f))"
| step_apply: "parse_derivation contents = Inr drv \<Longrightarrow> forest_step f (apply_derivation path drv f)"
| step_error: "forest_step f (apply_derivation_error path note f)"
| step_resolve: "resolve_pending n read_drv f = Some f' \<Longrightarrow> forest_step f f'"

inductive forest_reachable :: "build_forest \<Rightarrow> bool" where
  reach_new: "forest_reachable (forest_new now)"
| reach_estimates: "forest_reachable (with_duration_estimates now est)"
| reach_step: "forest_reachable f \<Longrightarrow> forest_step f f' \<Longrightarrow> forest_reachable f'"

lemma forest_step_inv: "forest_step f f' \<Longrightarrow> forest_inv f \<Longrightarrow> forest_inv f'"
  by (induction rule: forest_step.induct)
    (auto intro: wf_intros parse_derivation_wf)

lemma forest_reachable_inv: "forest_reachable f \<Longrightarrow> forest_inv f"
  by (induction rule: forest_reachable.induct)
    (auto intro: forest_new_inv with_estimates_inv forest_step_inv)

section \<open>Failures stay reported\<close>

definition failed_at :: "build_forest \<Rightarrow> string \<Rightarrow> bool" where
  "failed_at f p \<longleftrightarrow> (\<exists>n. map_of (bf_nodes f) p = Some n \<and> ns_status n = StFailed)"

lemma failed_entry:
  assumes "failed_at f q" and "\<And>n. ns_status n = StFailed \<Longrightarrow> ns_status (g n) = StFailed"
  shows "failed_at (nodes_entry p g f) q"
  using assms by (auto simp: failed_at_def)

lemma failed_frame [simp]:
  "failed_at (f\<lparr>bf_version := v\<rparr>) = failed_at f"
  "failed_at (f\<lparr>bf_activities := a\<rparr>) = failed_at f"
  "failed_at (f\<lparr>bf_pending_drvs := b\<rparr>) = failed_at f"
  "failed_at (f\<lparr>bf_completed_downloads := c\<rparr>) = failed_at f"
  "failed_at (f\<lparr>bf_completed_substitutions := d\<rparr>) = failed_at f"
  "failed_at (f\<lparr>bf_errors := e\<rparr>) = failed_at f"
  "failed_at (f\<lparr>bf_recent_logs := l\<rparr>) = failed_at f"
  "failed_at (f\<lparr>bf_log_sequence := s\<rparr>) = failed_at f"
  "failed_at (f\<lparr>bf_unknown_actions := u\<rparr>) = failed_at f"
  "failed_at (f\<lparr>bf_unknown_result_types := t\<rparr>) = failed_at f"
  "failed_at (f\<lparr>bf_ignored_lines := i\<rparr>) = failed_at f"
  "failed_at (f\<lparr>bf_malformed_messages := m\<rparr>) = failed_at f"
  by (auto simp: failed_at_def fun_eq_iff)

lemma failed_stop:
  assumes "failed_at f q"
  shows "failed_at (forest_stop now i f) q"
proof -
  have s: "failed_at g q \<Longrightarrow> failed_at (nodes_entry p (settle_built t) g) q" for g p t
    by (rule failed_entry) (simp_all add: settle_built_def)
  then have "failed_at g q \<Longrightarrow> failed_at (stop_transfer t a g) q" for t a g
    by (simp add: stop_transfer_def Let_def split: option.split activity_type.split)
  with s assms show ?thesis
    by (simp add: forest_stop_def Let_def split: option.split activity_type.split)
qed

lemma failed_result:
  assumes "failed_at f q"
  shows "failed_at (forest_result m f) q"
proof -
  define g where "g = note_result_kind (nm_result_type m) f"
  have g: "failed_at g q"
    using assms by (simp add: g_def note_result_kind_def split: option.split result_type.split)
  then have "failed_at (nodes_entry p (\<lambda>n. n\<lparr>ns_last_activity := a\<rparr>) g) q" for p a
    by (rule failed_entry) simp
  moreover have "failed_at (push_log p t g) q" for p t
    using failed_entry [OF g, of "\<lambda>n. n\<lparr>ns_last_activity := Some t,
      ns_log_tail := push_bounded DERIVATION_LOG_TAIL_LIMIT t (ns_log_tail n)\<rparr>" p]
    by (simp add: push_log_def Let_def)
  ultimately show ?thesis
    using g unfolding forest_result_def Let_def g_def [symmetric]
    by (simp split: option.split prod.split)
qed

lemma failed_fail_node: "failed_at f q \<Longrightarrow> failed_at (fail_node t p f) q"
  unfolding fail_node_def by (rule failed_entry) simp_all

lemma failed_plan_node: "failed_at f q \<Longrightarrow> failed_at (plan_node p f) q"
proof -
  assume "failed_at f q"
  then have "failed_at (nodes_entry p
      (\<lambda>n. if ns_status n = StUnknown then n\<lparr>ns_status := StPlanned\<rparr> else n) f) q"
    by (rule failed_entry) simp
  then show ?thesis by (simp add: plan_node_def Let_def)
qed

lemma failed_folds:
  "failed_at f q \<Longrightarrow> failed_at (fold (fail_node t) ps f) q"
  "failed_at f q \<Longrightarrow> failed_at (fold plan_node ps f) q"
  by (induction ps arbitrary: f) (simp_all add: failed_fail_node failed_plan_node)

lemma failed_message: "failed_at f q \<Longrightarrow> failed_at (forest_message now m f) q"
  by (simp add: forest_message_def Let_def failed_folds split: option.split)

lemma failed_feed:
  "failed_at f q \<Longrightarrow> nm_action m \<noteq> ''start'' \<Longrightarrow> failed_at (feed_message now m f) q"
  by (simp add: feed_message_def Let_def failed_stop failed_result failed_message)

lemma fail_node_fails: "failed_at (fail_node t p f) p"
  by (simp add: fail_node_def failed_at_def)

lemma fold_fail_node_fails: "p \<in> set ps \<Longrightarrow> failed_at (fold (fail_node t) ps f) p"
proof (induction ps arbitrary: f)
  case (Cons q ps)
  then show ?case
    by (cases "p = q") (simp_all add: failed_folds fail_node_fails)
qed simp

section \<open>Paths found in messages\<close>

lemma store_matches_sound:
  "s \<in> set (store_matches t) \<Longrightarrow> prefix STORE_PREFIX s \<and> sublist s t"
proof (induction t rule: store_matches.induct)
  case (2 c cs)
  show ?case
  proof (cases "strip_prefix STORE_PREFIX (c # cs)")
    case None
    then have "s \<in> set (store_matches cs)" using 2(3) by simp
    then show ?thesis using 2(1) [OF None] by (auto simp: sublist_Cons_right)
  next
    case (Some rest)
    then have cs: "c # cs = STORE_PREFIX @ rest" by (simp only: strip_prefix_Some)
    show ?thesis
    proof (cases "s = c # cs")
      case True
      then show ?thesis using cs by simp
    next
      case False
      then have "prefix STORE_PREFIX s \<and> sublist s rest" using 2(2) [OF Some] 2(3) Some False by (simp del: strip_prefix_Some)
      then show ?thesis unfolding cs by (auto intro: sublist_appendI sublist_order.order_trans)
    qed
  qed
qed simp

lemma drv_candidate_prefix: "prefix (drv_candidate s) s"
proof -
  let ?body = "concat (takeWhile (\<lambda>c. \<not> path_stop_char c) (utf8_chars s))"
  have "concat (utf8_chars s) = ?body @ concat (dropWhile (\<lambda>c. \<not> path_stop_char c) (utf8_chars s))"
    by (simp only: concat_append [symmetric] takeWhile_dropWhile_id)
  then have "prefix ?body s" by (metis concat_utf8_chars prefixI)
  moreover have "prefix (rev (dropWhile P (rev xs))) xs" for P and xs :: string
    by (metis prefixI rev_append rev_rev_ident takeWhile_dropWhile_id)
  ultimately show ?thesis
    unfolding drv_candidate_def Let_def by (rule_tac prefix_order.trans)
qed

lemma set_drv_paths:
  "set (drv_paths text) = {p. p \<in> drv_candidate ` set (store_matches text) \<and> ends_with p ''.drv''}"
proof -
  have "set (fold (\<lambda>s paths. let c = drv_candidate s
        in if ends_with c ''.drv'' then bs_insert c paths else paths) ss acc) =
      {p. p \<in> drv_candidate ` set ss \<and> ends_with p ''.drv''} \<union> set acc" for ss acc
    by (induction ss arbitrary: acc) (auto simp: Let_def)
  then show ?thesis by (simp add: drv_paths_def)
qed

lemma drv_paths_sound:
  "p \<in> set (drv_paths text) \<Longrightarrow> suffix ''.drv'' p \<and> sublist p text"
  using store_matches_sound drv_candidate_prefix
  by (auto simp: set_drv_paths ends_with_iff intro: sublist_order.order_trans [OF prefix_imp_sublist])

lemma drv_paths_prefix:
  assumes "p \<in> set (drv_paths text)"
  shows "prefix STORE_PREFIX p"
proof -
  obtain sfx where s: "p = drv_candidate sfx" "prefix STORE_PREFIX sfx" and "suffix ''.drv'' p"
    using assms store_matches_sound by (auto simp: set_drv_paths ends_with_iff)
  then have "CHR ''d'' \<in> set p" by (auto simp: suffix_def)
  moreover have "CHR ''d'' \<notin> set STORE_PREFIX" by (simp add: STORE_PREFIX_def)
  ultimately have "\<not> prefix p STORE_PREFIX" using set_mono_prefix by blast
  then show ?thesis using prefix_same_cases [OF s(2)] drv_candidate_prefix [of sfx] s(1) by blast
qed

lemma drv_paths_wf: "bs_wf (drv_paths text)"
proof -
  have "bs_wf acc \<Longrightarrow> bs_wf (fold (\<lambda>s paths. let c = drv_candidate s
        in if ends_with c ''.drv'' then bs_insert c paths else paths) ss acc)" for ss acc
    by (induction ss arbitrary: acc) (auto simp: Let_def bs_wf_insert)
  then show ?thesis by (simp add: drv_paths_def)
qed

lemma message_error_fails:
  assumes "message_text m = Some text" and "nm_level m = Some 0" and "p \<in> set (drv_paths text)"
  shows "failed_at (forest_message now m f) p \<and> last (bf_errors (forest_message now m f)) = text"
proof -
  have "bf_errors (fold (fail_node t) ps g) = bf_errors g" for t ps g
    by (induction ps arbitrary: g) (simp_all add: fail_node_def)
  then show ?thesis
    using assms by (simp add: forest_message_def Let_def fold_fail_node_fails)
qed

section \<open>Resolving the graph terminates\<close>

definition cached :: "build_forest \<Rightarrow> string set" where
  "cached f = fst ` set (bf_drv_cache f)"

definition drv_edges :: "(string \<Rightarrow> (string, string) result) \<Rightarrow> string \<Rightarrow> string set" where
  "drv_edges read_drv p =
    (case read_drv p of
       Inl _ \<Rightarrow> {}
     | Inr contents \<Rightarrow>
         (case parse_derivation contents of
            Inl _ \<Rightarrow> {}
          | Inr drv \<Rightarrow> set (bm_keys (drv_input_drvs drv))))"

lemma bm_contains_iff: "bm_contains m k \<longleftrightarrow> k \<in> fst ` set m"
  by (simp add: bm_contains_def map_of_eq_None_iff)

lemma fold_add_input_effect:
  "bf_drv_cache (fold add_input ps f) = bf_drv_cache f"
  "set (bf_pending_drvs (fold add_input ps f)) = set (bf_pending_drvs f) \<union> (set ps - cached f)"
proof (induction ps arbitrary: f)
  case (Cons p ps)
  have p: "bf_drv_cache (add_input p f) = bf_drv_cache f"
    "set (bf_pending_drvs (add_input p f)) = set (bf_pending_drvs f) \<union> ({p} - cached f)" for f
    by (auto simp: add_input_def Let_def bm_contains_iff cached_def)
  { case 1 show ?case by (simp add: Cons.IH(1) p) }
  { case 2 show ?case by (auto simp: Cons.IH(2) p cached_def) }
qed simp_all

lemma backfill_effect:
  "bf_drv_cache (backfill path drv f) = bf_drv_cache f"
  "set (bf_pending_drvs (backfill path drv f)) =
    set (bf_pending_drvs f) \<union> (set (bm_keys (drv_input_drvs drv)) - cached f)"
  by (simp_all add: backfill_def Let_def fold_add_input_effect) (simp add: cached_def)

lemma resolve_one_effect:
  "cached (resolve_one read_drv p f) = Set.insert p (cached f)"
  "set (bf_pending_drvs (resolve_one read_drv p f)) =
    set (bf_pending_drvs f) \<union> (drv_edges read_drv p - cached f)"
  by (simp_all add: resolve_one_def apply_derivation_def apply_derivation_error_def Let_def
      backfill_effect cached_def drv_edges_def split: sum.split)

text \<open>Every input of a parsed derivation is memoized, queued, or in the batch being read.\<close>

definition owed :: "build_forest \<Rightarrow> string set \<Rightarrow> bool" where
  "owed f batch \<longleftrightarrow>
    (\<forall>p d. map_of (bf_drv_cache f) p = Some (Some d) \<longrightarrow>
      set (bm_keys (drv_input_drvs d)) \<subseteq> cached f \<union> set (bf_pending_drvs f) \<union> batch)"

lemma owed_resolve_one:
  assumes "owed f (Set.insert p batch)"
  shows "owed (resolve_one read_drv p f) batch"
proof -
  let ?f = "resolve_one read_drv p f"
  have grow: "cached f \<union> set (bf_pending_drvs f) \<union> Set.insert p batch \<subseteq>
      cached ?f \<union> set (bf_pending_drvs ?f) \<union> batch"
    by (auto simp: resolve_one_effect)
  have "map_of (bf_drv_cache ?f) q = Some (Some d) \<Longrightarrow>
      map_of (bf_drv_cache f) q = Some (Some d) \<or> set (bm_keys (drv_input_drvs d)) = drv_edges read_drv p"
    for q d
    by (auto simp: resolve_one_def apply_derivation_def apply_derivation_error_def Let_def
        backfill_effect drv_edges_def split: sum.splits if_splits)
  then have "map_of (bf_drv_cache ?f) q = Some (Some d) \<Longrightarrow>
      set (bm_keys (drv_input_drvs d)) \<subseteq> cached f \<union> set (bf_pending_drvs f) \<union> Set.insert p batch \<or>
      set (bm_keys (drv_input_drvs d)) = drv_edges read_drv p" for q d
    using assms unfolding owed_def by blast
  moreover have "drv_edges read_drv p \<subseteq> cached ?f \<union> set (bf_pending_drvs ?f) \<union> batch"
    by (auto simp: resolve_one_effect)
  ultimately show ?thesis
    unfolding owed_def using grow by (metis (no_types, lifting) order_trans)
qed

lemma owed_fold: "owed f (set ps) \<Longrightarrow> owed (fold (resolve_one read_drv) ps f) {}"
  by (induction ps arbitrary: f) (simp_all add: owed_resolve_one)

lemma fold_resolve_effect:
  "cached (fold (resolve_one read_drv) ps f) = set ps \<union> cached f"
  "set (bf_pending_drvs (fold (resolve_one read_drv) ps f)) \<subseteq>
    set (bf_pending_drvs f) \<union> (\<Union>p\<in>set ps. drv_edges read_drv p)"
proof (induction ps arbitrary: f)
  case (Cons p ps)
  { case 1 show ?case by (simp add: Cons.IH resolve_one_effect) }
  { case 2 show ?case
      using Cons.IH(2) [of "resolve_one read_drv p f"] resolve_one_effect(2) [of read_drv p f] by auto }
qed simp_all

lemma take_pending_effect:
  assumes "take_pending_derivations f = (paths, g)"
  shows "set paths = set (bf_pending_drvs f) - cached f" "bf_pending_drvs g = []"
    "bf_drv_cache g = bf_drv_cache f" "owed f {} \<Longrightarrow> owed g (set paths)"
proof -
  have g: "g = f\<lparr>bf_pending_drvs := []\<rparr>"
    "paths = filter (\<lambda>p. \<not> bm_contains (bf_drv_cache f) p) (bf_pending_drvs f)"
    using assms by (simp_all add: take_pending_derivations_def)
  then show paths: "set paths = set (bf_pending_drvs f) - cached f"
    by (auto simp: bm_contains_iff cached_def)
  show "bf_pending_drvs g = []" "bf_drv_cache g = bf_drv_cache f" using g(1) by simp_all
  have "cached f \<union> set (bf_pending_drvs f) \<subseteq> cached g \<union> set (bf_pending_drvs g) \<union> set paths"
    unfolding paths using g(1) by (auto simp: cached_def)
  then show "owed f {} \<Longrightarrow> owed g (set paths)"
    using g(1) unfolding owed_def by (simp, blast)
qed

lemma resolve_pending_total:
  assumes "finite U" and "set (bf_pending_drvs f) \<subseteq> U"
    and "\<And>p. p \<in> U \<Longrightarrow> drv_edges read_drv p \<subseteq> U"
    and "owed f {}" and "card (U - cached f) < n"
  shows "\<exists>f'. resolve_pending n read_drv f = Some f' \<and> bf_pending_drvs f' = [] \<and> owed f' {} \<and>
    cached f \<union> set (bf_pending_drvs f) \<subseteq> cached f'"
  using assms(2,4,5)
proof (induction n arbitrary: f)
  case (Suc n)
  obtain paths g where take: "take_pending_derivations f = (paths, g)"
    by (cases "take_pending_derivations f")
  note eff = take_pending_effect [OF take]
  have same: "cached g = cached f" using eff(3) by (simp add: cached_def)
  show ?case
  proof (cases "paths = []")
    case True
    then show ?thesis using take eff Suc.prems(2) same by auto
  next
    case False
    let ?h = "fold (resolve_one read_drv) paths g"
    have sub: "set paths \<subseteq> U - cached f" using eff(1) Suc.prems(1) by auto
    have grown: "cached ?h = set paths \<union> cached f" using same by (simp add: fold_resolve_effect)
    then have "U - cached ?h \<subset> U - cached f" using sub False by (cases paths) auto
    then have "card (U - cached ?h) < n"
      using psubset_card_mono [of "U - cached f" "U - cached ?h"] assms(1) Suc.prems(3) by simp
    moreover have "set (bf_pending_drvs ?h) \<subseteq> U"
      using fold_resolve_effect(2) [of read_drv paths g] eff(2) sub assms(3) by fastforce
    moreover have "owed ?h {}" using eff(4) Suc.prems(2) by (intro owed_fold)
    ultimately obtain f' where "resolve_pending n read_drv ?h = Some f'" "bf_pending_drvs f' = []"
        "owed f' {}" "cached ?h \<union> set (bf_pending_drvs ?h) \<subseteq> cached f'"
      using Suc.IH [of ?h] by auto
    moreover have "cached f \<union> set (bf_pending_drvs f) \<subseteq> cached ?h"
      using grown eff(1) by auto
    ultimately show ?thesis using take False by auto
  qed
qed simp

section \<open>Log queues\<close>

lemma push_log_queues:
  "bf_recent_logs (push_log path text f) = push_bounded RECENT_LOG_LIMIT
    \<lparr>bl_derivation = path, bl_name = derivation_name path, bl_line = text\<rparr> (bf_recent_logs f)"
  "map_of (bf_nodes (push_log path text f)) path =
    (let n = opt_default node_default (map_of (bf_nodes f) path)
     in Some (n\<lparr>ns_last_activity := Some text,
       ns_log_tail := push_bounded DERIVATION_LOG_TAIL_LIMIT text (ns_log_tail n)\<rparr>))"
  by (simp_all add: push_log_def Let_def)

definition log_tail_of :: "build_forest \<Rightarrow> string \<Rightarrow> string list" where
  "log_tail_of f path = ns_log_tail (opt_default node_default (map_of (bf_nodes f) path))"

lemma log_tail_push:
  "log_tail_of (push_log path text f) path =
    push_bounded DERIVATION_LOG_TAIL_LIMIT text (log_tail_of f path)"
  unfolding log_tail_of_def push_log_queues(2) by (simp add: Let_def)

lemma log_tail_pushes:
  "log_tail_of (fold (push_log path) lines f) path =
    fold (push_bounded DERIVATION_LOG_TAIL_LIMIT) lines (log_tail_of f path)"
  by (induction lines arbitrary: f) (simp_all add: log_tail_push)

lemma recent_log_pushes:
  "map bl_line (bf_recent_logs (fold (push_log path) lines f)) =
    fold (push_bounded RECENT_LOG_LIMIT) lines (map bl_line (bf_recent_logs f))"
proof (induction lines arbitrary: f)
  case (Cons l ls)
  have "map bl_line (push_bounded k x q) = push_bounded k (bl_line x) (map bl_line q)"
    for k and x :: build_log_line and q
    by (simp add: push_bounded_def map_tl)
  then show ?case by (simp add: Cons.IH push_log_queues)
qed simp

lemma log_tail_le: "forest_inv f \<Longrightarrow> length (log_tail_of f path) \<le> DERIVATION_LOG_TAIL_LIMIT"
  by (cases "map_of (bf_nodes f) path")
    (auto simp: log_tail_of_def node_default_def forest_inv_def nodes_ok_def node_ok_def)

section \<open>Properties\<close>

definition sample_message :: "string \<Rightarrow> int \<Rightarrow> json list \<Rightarrow> nix_message" where
  "sample_message action code flds = \<lparr>nm_action = action, nm_id = Some 1, nm_type_code = Some code,
    nm_level = Some 0, nm_parent = None, nm_text = None,
    nm_msg = Some ''builder for /nix/store/a.drv failed'', nm_raw_msg = None, nm_fields = flds,
    nm_extra = []\<rparr>"

definition sample_start :: nix_message where
  "sample_start = sample_message ''start'' 105 [JStr ''/nix/store/a.drv'', JStr ''builder'']"

lemmas sample_defs = sample_message_def sample_start_def

lemmas feed_eval = feed_message_def forest_start_def forest_stop_def forest_message_def start_node_def
  start_build_def note_activity_kind_def nm_activity_type_def activity_from_code_def message_text_def
  forest_new_def list_first_def field_str_def opt_filter_def Let_def

lemma sample_is_drv: "ends_with ''/nix/store/a.drv'' ''.drv''" "suffix ''.drv'' ''/nix/store/a.drv''"
  unfolding ends_with_iff [symmetric] by code_simp+

lemma sample_path: "drv_paths ''builder for /nix/store/a.drv failed'' = [''/nix/store/a.drv'']"
  by code_simp

text \<open>C33: Whatever lines, messages, derivations, read errors and resolver runs a forest has seen, in
  any order, it is well formed: every pending, cached, produced or input derivation has a node, a
  running node has a start time and a settled one a finish time, the log queues and the counters
  are within their limits, and every map is strictly sorted by its keys.\<close>

theorem forest_invariant:
  assumes "forest_reachable f"
  shows "forest_inv f"
  using forest_reachable_inv [OF assms] .

theorem forest_invariant_witness:
  "forest_inv (snd (take_pending_derivations (feed_message 7 sample_start (forest_new 5))))"
  by (rule forest_invariant)
    (blast intro: forest_reachable.intros forest_step.intros)

text \<open>\<^verbatim>\<open>resolve_pending\<close> ends. If the pending derivations and all inputs they lead to lie in a
  finite set, as many rounds as it has uncached members (plus one) are enough; then nothing is
  pending, everything that was pending has been resolved or recorded as unavailable, and so has
  every input of every derivation in the cache.\<close>

lemma resolve_pending_closes:
  assumes "finite U" and "set (bf_pending_drvs f) \<subseteq> U"
    and "\<And>p. p \<in> U \<Longrightarrow> drv_edges read_drv p \<subseteq> U"
    and "owed f {}" and "card (U - cached f) < n"
  shows "\<exists>f'. resolve_pending n read_drv f = Some f' \<and> bf_pending_drvs f' = [] \<and>
    cached f \<union> set (bf_pending_drvs f) \<subseteq> cached f' \<and>
    (\<forall>p d. map_of (bf_drv_cache f') p = Some (Some d) \<longrightarrow>
      set (bm_keys (drv_input_drvs d)) \<subseteq> cached f')"
  using resolve_pending_total [OF assms] by (auto simp: owed_def)

text \<open>C4: A failure is final: once a derivation is marked failed, no message other than the start of
  a new activity changes that, in particular not the stop of its own build activity.\<close>

theorem failure_is_sticky:
  assumes "failed_at f p" and "nm_action m \<noteq> ''start''"
  shows "failed_at (feed_message now m f) p"
  using failed_feed [OF assms] .

theorem failure_is_sticky_witness:
  "failed_at (feed_message 9 (sample_message ''stop'' 0 [])
    (feed_message 8 (sample_message ''msg'' 0 []) (feed_message 7 sample_start (forest_new 5))))
    ''/nix/store/a.drv''"
proof (rule failure_is_sticky)
  show "failed_at (feed_message 8 (sample_message ''msg'' 0 [])
      (feed_message 7 sample_start (forest_new 5))) ''/nix/store/a.drv''"
    by (simp add: failed_at_def feed_eval sample_defs sample_is_drv sample_path fail_node_def)
qed (simp add: sample_defs)

text \<open>An error message (level 0) marks every derivation path it names as failed, whatever its
  status was, and its text is the last recorded error.\<close>

lemma error_message_fails_paths:
  assumes "message_text m = Some t" and "nm_level m = Some 0"
  shows "(\<forall>p\<in>set (drv_paths t). failed_at (forest_message now m f) p) \<and>
    bf_errors (forest_message now m f) = bf_errors f @ [t]"
proof -
  have "bf_errors (fold (fail_node e) ps g) = bf_errors g" for e ps g
    by (induction ps arbitrary: g) (simp_all add: fail_node_def)
  then have "bf_errors (forest_message now m f) = bf_errors f @ [t]"
    using assms by (simp add: forest_message_def Let_def)
  then show ?thesis using message_error_fails [OF assms] by blast
qed

text \<open>The derivation paths read from a message are sorted and without duplicates; each is a
  piece of the text, begins with the store directory and ends in \<^verbatim>\<open>.drv\<close>.\<close>

lemma drv_paths_are_store_paths:
  "bs_wf (drv_paths t) \<and>
    set (drv_paths t) \<subseteq> {p. prefix ''/nix/store/'' p \<and> suffix ''.drv'' p \<and> sublist p t}"
  using drv_paths_wf drv_paths_sound drv_paths_prefix unfolding STORE_PREFIX_def by blast

text \<open>A build that starts and stops without a failure in between settles its derivation as built:
  the start time is the first one seen, the finish time the time of the stop, and the activity is
  gone.\<close>

lemma build_lifecycle:
  fixes f :: build_forest and t1 t2 :: nat
  assumes s: "nm_action s = ''start''" "nm_id s = Some i" "nm_activity_type s = Some Build"
      "Option.bind (list_first (nm_fields s)) as_str = Some p" "suffix ''.drv'' p"
    and e: "nm_action e = ''stop''" "nm_id e = Some i"
  defines "g \<equiv> feed_message t2 e (feed_message t1 s f)"
  shows "\<exists>n. map_of (bf_nodes g) p = Some n \<and> ns_status n = StBuilt \<and>
    ns_started_ms n = get_or_insert (forest_elapsed_ms t1 f)
      (ns_started_ms (opt_default node_default (map_of (bf_nodes f) p))) \<and>
    ns_finished_ms n = Some (forest_elapsed_ms t2 f) \<and>
    map_of (bf_activities g) i = None"
  using assms
  by (simp add: feed_message_def forest_start_def forest_stop_def start_node_def start_build_def
      note_activity_kind_def forest_elapsed_ms_def ends_with_iff settle_built_def map_of_bm_remove
      opt_filter_def Let_def)

text \<open>The log queues hold exactly the most recent lines: feeding any number of lines of one
  derivation to a well-formed forest leaves its last 64 lines on the node and the last 256 of the
  whole build in the recent log, in order.\<close>

lemma logs_keep_most_recent:
  assumes "forest_inv f"
  shows "log_tail_of (fold (push_log path) lines f) path =
      drop (length (log_tail_of f path @ lines) - 64) (log_tail_of f path @ lines) \<and>
    map bl_line (bf_recent_logs (fold (push_log path) lines f)) =
      drop (length (map bl_line (bf_recent_logs f) @ lines) - 256)
        (map bl_line (bf_recent_logs f) @ lines)"
  using tail_log.pushes_recent [OF log_tail_le [OF assms]]
    recent_log.pushes_recent [of "map bl_line (bf_recent_logs f)"] inv_wf_parts(4) [OF assms]
  by (simp_all only: log_tail_pushes recent_log_pushes DERIVATION_LOG_TAIL_LIMIT_def
      RECENT_LOG_LIMIT_def length_map)

end
