(* ===== verification/ForestView.thy ===== *)
theory ForestView
  imports Forest
begin

text \<open>What the forest shows: the snapshot and its bounded summary
  (\<^verbatim>\<open>forest.rs\<close>) and the display order with the budgeted activity projection
  (\<^verbatim>\<open>crates/nix-build-forest/src/sort.rs\<close>). The depth-first visit is a function with nested
  recursion that terminates because each visited path leaves the set of unseen nodes.\<close>

definition DEFAULT_ACTIVITY_ROW_BUDGET :: nat where
  "DEFAULT_ACTIVITY_ROW_BUDGET = 64"

definition SUMMARY_ACTIVITY_ROW_CAP :: nat where
  "SUMMARY_ACTIVITY_ROW_CAP = 256"

record derivation_node =
  dn_path :: string
  dn_name :: string
  dn_status :: derivation_status
  dn_inputs :: "string list"
  dn_outputs :: "(string, string) bmap"
  dn_host :: "string option"
  dn_last_activity :: "string option"
  dn_log_tail :: "string list"
  dn_note :: "string option"
  dn_started_ms :: "nat option"
  dn_finished_ms :: "nat option"
  dn_eta_seconds :: "nat option"

record activity_expectation =
  ae_kind :: activity_type
  ae_expected :: nat

record transfer =
  tr_id :: nat
  tr_kind :: activity_type
  tr_path :: "string option"
  tr_host :: "string option"
  tr_source :: "string option"
  tr_destination :: "string option"
  tr_progress :: "activity_progress option"
  tr_text :: string

record forest_counts =
  fc_untracked :: nat
  fc_planned :: nat
  fc_building :: nat
  fc_downloading :: nat
  fc_substituting :: nat
  fc_built :: nat
  fc_failed :: nat

definition counts_default :: forest_counts where
  "counts_default = \<lparr>fc_untracked = 0, fc_planned = 0, fc_building = 0, fc_downloading = 0,
    fc_substituting = 0, fc_built = 0, fc_failed = 0\<rparr>"

definition counts_total :: "forest_counts \<Rightarrow> nat" where
  "counts_total c = fc_planned c + fc_building c + fc_downloading c + fc_substituting c
    + fc_built c + fc_failed c"

record display_row =
  dr_depth :: nat
  dr_node :: derivation_node

record elided_counts =
  el_untracked :: nat
  el_planned :: nat
  el_built :: nat

definition elided_total :: "elided_counts \<Rightarrow> nat" where
  "elided_total e = el_untracked e + el_planned e + el_built e"

record activity_projection =
  pj_rows :: "display_row list"
  pj_elided :: elided_counts

record forest_snapshot =
  fs_version :: nat
  fs_elapsed_ms :: nat
  fs_nodes :: "derivation_node list"
  fs_roots :: "string list"
  fs_counts :: forest_counts
  fs_activity :: activity_projection
  fs_completed_downloads :: nat
  fs_completed_substitutions :: nat
  fs_transfers :: "transfer list"
  fs_recent_logs :: "build_log_line list"
  fs_expectations :: "activity_expectation list"
  fs_current_activity :: "string list"
  fs_failed_derivations :: "string list"
  fs_errors :: "string list"
  fs_unknown_activity_types :: "(int, nat) bmap"
  fs_unknown_result_types :: "(int, nat) bmap"
  fs_unknown_actions :: nat
  fs_malformed_messages :: nat
  fs_ignored_lines :: nat

record forest_summary =
  sm_version :: nat
  sm_elapsed_ms :: nat
  sm_counts :: forest_counts
  sm_activity :: activity_projection
  sm_activity_rows_truncated :: nat
  sm_completed_downloads :: nat
  sm_completed_substitutions :: nat
  sm_transfers :: "transfer list"
  sm_recent_logs :: "build_log_line list"
  sm_current_activity :: "string list"
  sm_failed_derivations :: "string list"
  sm_errors :: "string list"
  sm_unknown_activity_types :: "(int, nat) bmap"
  sm_unknown_result_types :: "(int, nat) bmap"
  sm_unknown_actions :: nat
  sm_malformed_messages :: nat
  sm_ignored_lines :: nat

section \<open>Display order\<close>

datatype rust_ordering = Less | Equal | Greater

definition cmp :: "'a::linorder \<Rightarrow> 'a \<Rightarrow> rust_ordering" where
  "cmp a b = (if a < b then Less else if a = b then Equal else Greater)"

definition then_with :: "rust_ordering \<Rightarrow> rust_ordering \<Rightarrow> rust_ordering" where
  "then_with a b = (if a = Equal then b else a)"

fun priority :: "derivation_status \<Rightarrow> nat" where
  "priority StFailed = 0"
| "priority StBuilding = 1"
| "priority StDownloading = 2"
| "priority StSubstituting = 2"
| "priority StPlanned = 3"
| "priority StBuilt = 4"
| "priority StUnknown = 5"

fun compare :: "derivation_node option \<Rightarrow> derivation_node option \<Rightarrow> rust_ordering" where
  "compare (Some a) (Some b) =
    then_with (cmp (priority (dn_status a)) (priority (dn_status b))) (cmp (dn_name a) (dn_name b))"
| "compare (Some _) None = Less"
| "compare None (Some _) = Greater"
| "compare None None = Equal"

text \<open>The comparison is the order of a key, so that \<^verbatim>\<open>sort_by\<close>, which is stable, is
  \<^const>\<open>sort_key\<close> on it.\<close>

fun compare_key :: "derivation_node option \<Rightarrow> nat \<times> nat \<times> string" where
  "compare_key (Some a) = (0, priority (dn_status a), dn_name a)"
| "compare_key None = (1, 0, [])"

lemma compare_is_key_order: "compare a b = cmp (compare_key a) (compare_key b)"
  by (cases a; cases b) (auto simp: cmp_def then_with_def)

type_synonym node_map = "(string, derivation_node) bmap"

definition node_index :: "derivation_node list \<Rightarrow> node_map" where
  "node_index nodes = fold (\<lambda>n. bm_insert (dn_path n) n) nodes []"

definition sort_paths :: "node_map \<Rightarrow> string list \<Rightarrow> string list" where
  "sort_paths nodes ps = sort_key (\<lambda>p. compare_key (map_of nodes p)) ps"

function visit_all ::
  "node_map \<Rightarrow> nat \<Rightarrow> string list \<Rightarrow> string bset \<times> display_row list \<Rightarrow> string bset \<times> display_row list"
where
  "visit_all nodes depth [] st = st"
| "visit_all nodes depth (p # ps) (seen, rows) =
    (if p \<in> set seen then visit_all nodes depth ps (seen, rows)
     else (case map_of nodes p of
         None \<Rightarrow> visit_all nodes depth ps (bs_insert p seen, rows)
       | Some node \<Rightarrow>
           (case visit_all nodes (depth + 1) (sort_paths nodes (dn_inputs node)) (bs_insert p seen, rows) of
              (seen', rows') \<Rightarrow>
                visit_all nodes depth ps (seen', rows' @ [\<lparr>dr_depth = depth, dr_node = node\<rparr>]))))"
  by pat_completeness auto

lemma visit_all_seen_dom:
  "visit_all_dom (nodes, depth, ps, st) \<Longrightarrow> set (fst st) \<subseteq> set (fst (visit_all nodes depth ps st))"
proof (induction nodes depth ps st rule: visit_all.pinduct)
  case (2 nodes depth p ps seen rows)
  then show ?case
    by (auto simp: visit_all.psimps split: option.split prod.split) (fastforce split: prod.splits)+
qed (simp add: visit_all.psimps)

lemma unseen_le: "card (fst ` set nodes - Set.insert p S) \<le> card (fst ` set nodes - S)"
  by (rule card_mono) auto

lemma unseen_less:
  "p \<notin> S \<Longrightarrow> map_of nodes p = Some n \<Longrightarrow>
    card (fst ` set nodes - Set.insert p S) < card (fst ` set nodes - S)"
proof (rule psubset_card_mono)
  assume "p \<notin> S" "map_of nodes p = Some n"
  then have "p \<in> fst ` set nodes - S" by (metis DiffI domI dom_map_of_conv_image_fst)
  then show "fst ` set nodes - Set.insert p S \<subset> fst ` set nodes - S" by auto
qed simp

termination visit_all
proof (relation "measures [\<lambda>(nodes, depth, ps, st). card (fst ` set nodes - set (fst st)),
    \<lambda>(nodes, depth, ps, st). length ps]", goal_cases)
  case (3 nodes depth p ps seen rows)
  then show ?case using unseen_le [of nodes p "set seen"] by (simp add: le_less)
next
  case (4 nodes depth p ps seen rows n)
  then show ?case using unseen_less [of p "set seen" nodes n] by simp
next
  case (5 nodes depth p ps seen rows n seen' rows')
  then have "Set.insert p (set seen) \<subseteq> set seen'"
    using visit_all_seen_dom [OF 5(4)] 5(3) by (metis fst_conv set_bs_insert)
  then have "card (fst ` set nodes - set seen') \<le> card (fst ` set nodes - Set.insert p (set seen))"
    by (intro card_mono) auto
  then show ?case using 5(1,2) unseen_less [of p "set seen" nodes n] by simp
qed simp_all

definition display_rows :: "forest_snapshot \<Rightarrow> display_row list" where
  "display_rows snapshot =
    (let nodes = node_index (fs_nodes snapshot);
         st = visit_all nodes 0 (sort_paths nodes (fs_roots snapshot)) ([], [])
     in snd (visit_all nodes 0 (map dn_path (fs_nodes snapshot)) st))"

section \<open>The budgeted projection\<close>

fun is_mandatory :: "derivation_status \<Rightarrow> bool" where
  "is_mandatory StBuilding = True"
| "is_mandatory StDownloading = True"
| "is_mandatory StSubstituting = True"
| "is_mandatory StFailed = True"
| "is_mandatory _ = False"

type_synonym parent_map = "(string, string list) bmap"

definition parent_index :: "derivation_node list \<Rightarrow> parent_map" where
  "parent_index nodes =
    fold (\<lambda>node m.
        fold (\<lambda>input. bm_entry [] input (\<lambda>ps. ps @ [dn_path node])) (dn_inputs node) m)
      nodes []"

definition parents_of :: "parent_map \<Rightarrow> string \<Rightarrow> string list" where
  "parents_of parents p = opt_default [] (map_of parents p)"

definition push_parent :: "string \<Rightarrow> string bset \<times> string list \<Rightarrow> string bset \<times> string list" where
  "push_parent parent st =
    (if parent \<in> set (fst st) then st else (bs_insert parent (fst st), snd st @ [parent]))"

lemma push_parent_pair:
  "push_parent p (keep, fr) = (if p \<in> set keep then (keep, fr) else (bs_insert p keep, fr @ [p]))"
  by (simp add: push_parent_def)

definition parent_universe :: "parent_map \<Rightarrow> string set" where
  "parent_universe parents = \<Union> (set ` snd ` set parents)"

lemma push_parents_effect:
  "set (fst (fold push_parent ps (keep, fr))) = set ps \<union> set keep"
  "set (snd (fold push_parent ps (keep, fr))) = (set ps - set keep) \<union> set fr"
  "set ps \<subseteq> set keep \<Longrightarrow> fold push_parent ps (keep, fr) = (keep, fr)"
proof (induction ps arbitrary: keep fr)
  case (Cons p ps)
  { case 1 show ?case by (auto simp: push_parent_pair Cons.IH(1)) }
  { case 2 show ?case by (auto simp: push_parent_pair Cons.IH(2)) }
  { case 3 then show ?case by (simp add: push_parent_pair Cons.IH(3)) }
qed simp_all

lemma parents_of_universe: "set (parents_of parents p) \<subseteq> parent_universe parents"
proof (cases "map_of parents p")
  case (Some ps)
  then have "(p, ps) \<in> set parents" by (rule map_of_SomeD)
  then show ?thesis using Some by (force simp: parents_of_def parent_universe_def)
qed (simp add: parents_of_def)

text \<open>The frontier is popped from its end, as \<^verbatim>\<open>Vec::pop\<close> does.\<close>

function close_parents :: "parent_map \<Rightarrow> string bset \<Rightarrow> string list \<Rightarrow> string bset" where
  "close_parents parents keep frontier =
    (if frontier = [] then keep
     else (case fold push_parent (parents_of parents (last frontier)) (keep, butlast frontier) of
         (keep', frontier') \<Rightarrow> close_parents parents keep' frontier'))"
  by pat_completeness auto

termination
proof (relation "measures [\<lambda>(parents, keep, fr). card (parent_universe parents - set keep),
    \<lambda>(parents, keep, fr). length fr]", goal_cases)
  case (2 parents keep frontier keep' frontier')
  let ?ps = "parents_of parents (last frontier)"
  let ?U = "parent_universe parents"
  have st: "fold push_parent ?ps (keep, butlast frontier) = (keep', frontier')" using 2 by simp
  then have keep': "set keep' = set ?ps \<union> set keep" using push_parents_effect(1) [of ?ps keep] by (metis fst_conv)
  show ?case
  proof (cases "set ?ps \<subseteq> set keep")
    case True
    then have "keep' = keep" "frontier' = butlast frontier"
      using push_parents_effect(3) [of ?ps keep] st by auto
    then show ?thesis using 2 by (cases frontier rule: rev_cases) simp_all
  next
    case False
    then have "?U - set keep' \<subset> ?U - set keep"
      using parents_of_universe [of parents "last frontier"] keep' by blast
    then have "card (?U - set keep') < card (?U - set keep)"
      by (intro psubset_card_mono) (simp_all add: parent_universe_def)
    then show ?thesis by simp
  qed
qed simp

declare close_parents.simps [simp del]

text \<open>The loop that fills the budget with planned rows, and the one that falls back to the roots.\<close>

fun fill_planned :: "nat \<Rightarrow> display_row list \<Rightarrow> string bset \<Rightarrow> string bset" where
  "fill_planned budget [] keep = keep"
| "fill_planned budget (row # rows) keep =
    (if budget \<le> length keep then keep
     else fill_planned budget rows
       (if dn_status (dr_node row) = StPlanned then bs_insert (dn_path (dr_node row)) keep else keep))"

fun fill_roots :: "nat \<Rightarrow> node_map \<Rightarrow> string list \<Rightarrow> string bset \<Rightarrow> string bset" where
  "fill_roots budget by_path [] keep = keep"
| "fill_roots budget by_path (rt # roots) keep =
    (if budget \<le> length keep then keep
     else fill_roots budget by_path roots
       (if bm_contains by_path rt then bs_insert rt keep else keep))"

fun count_elided :: "derivation_node \<Rightarrow> elided_counts \<Rightarrow> elided_counts" where
  "count_elided node e =
    (case dn_status node of
       StUnknown \<Rightarrow> e\<lparr>el_untracked := el_untracked e + 1\<rparr>
     | StPlanned \<Rightarrow> e\<lparr>el_planned := el_planned e + 1\<rparr>
     | StBuilt \<Rightarrow> e\<lparr>el_built := el_built e + 1\<rparr>
     | _ \<Rightarrow> e)"

definition mandatory_paths :: "derivation_node list \<Rightarrow> string bset" where
  "mandatory_paths nodes = bs_extend (map dn_path (filter (\<lambda>n. is_mandatory (dn_status n)) nodes)) []"

definition projection_keep :: "forest_snapshot \<Rightarrow> nat \<Rightarrow> string bset" where
  "projection_keep snapshot budget =
    (let full = display_rows snapshot;
         by_path = node_index (fs_nodes snapshot);
         keep = mandatory_paths (fs_nodes snapshot);
         keep = close_parents (parent_index (fs_nodes snapshot)) keep keep;
         keep = fill_planned budget full keep
     in if keep = [] then fill_roots budget by_path (fs_roots snapshot) keep else keep)"

definition activity_projection_of :: "forest_snapshot \<Rightarrow> nat \<Rightarrow> activity_projection" where
  "activity_projection_of snapshot budget =
    (let keep = projection_keep snapshot budget
     in \<lparr>pj_rows = filter (\<lambda>row. dn_path (dr_node row) \<in> set keep) (display_rows snapshot),
         pj_elided = fold count_elided (filter (\<lambda>n. dn_path n \<notin> set keep) (fs_nodes snapshot))
           \<lparr>el_untracked = 0, el_planned = 0, el_built = 0\<rparr>\<rparr>)"

section \<open>Snapshot and summary\<close>

definition node_eta :: "build_forest \<Rightarrow> nat \<Rightarrow> string \<Rightarrow> node_state \<Rightarrow> nat option" where
  "node_eta f elapsed name n =
    (if ns_status n \<in> {StBuilt, StFailed} then None
     else map_option
       (\<lambda>estimate.
          let spent = (case ns_started_ms n of None \<Rightarrow> 0 | Some started \<Rightarrow> elapsed - started)
          in div_ceil (estimate - spent) 1000)
       (map_of (bf_duration_estimates_ms f) name))"

definition snapshot_node :: "build_forest \<Rightarrow> nat \<Rightarrow> string \<times> node_state \<Rightarrow> derivation_node" where
  "snapshot_node f elapsed e =
    (case e of (path, n) \<Rightarrow>
      \<lparr>dn_path = path, dn_name = derivation_name path, dn_status = ns_status n,
       dn_inputs = ns_inputs n, dn_outputs = ns_outputs n, dn_host = ns_host n,
       dn_last_activity = ns_last_activity n, dn_log_tail = ns_log_tail n, dn_note = ns_note n,
       dn_started_ms = ns_started_ms n, dn_finished_ms = ns_finished_ms n,
       dn_eta_seconds = node_eta f elapsed (derivation_name path) n\<rparr>)"

fun count_node :: "derivation_node \<Rightarrow> forest_counts \<Rightarrow> forest_counts" where
  "count_node node c =
    (case dn_status node of
       StUnknown \<Rightarrow> c\<lparr>fc_untracked := fc_untracked c + 1\<rparr>
     | StPlanned \<Rightarrow> c\<lparr>fc_planned := fc_planned c + 1\<rparr>
     | StBuilding \<Rightarrow> c\<lparr>fc_building := fc_building c + 1\<rparr>
     | StDownloading \<Rightarrow> c\<lparr>fc_downloading := fc_downloading c + 1\<rparr>
     | StSubstituting \<Rightarrow> c\<lparr>fc_substituting := fc_substituting c + 1\<rparr>
     | StBuilt \<Rightarrow> c\<lparr>fc_built := fc_built c + 1\<rparr>
     | StFailed \<Rightarrow> c\<lparr>fc_failed := fc_failed c + 1\<rparr>)"

definition transfer_of :: "nat \<times> active_activity \<Rightarrow> transfer" where
  "transfer_of e =
    (case e of (i, a) \<Rightarrow>
      \<lparr>tr_id = i, tr_kind = aa_kind a, tr_path = aa_path a, tr_host = aa_host a,
       tr_source = aa_source a, tr_destination = aa_destination a, tr_progress = aa_progress a,
       tr_text = aa_text a\<rparr>)"

definition snapshot_of :: "nat \<Rightarrow> build_forest \<Rightarrow> forest_snapshot" where
  "snapshot_of now f =
    (let parents = fold (\<lambda>n. bs_extend (ns_inputs n)) (bm_values (bf_nodes f)) [];
         roots = filter (\<lambda>p. p \<notin> set parents) (bm_keys (bf_nodes f));
         elapsed = forest_elapsed_ms now f;
         nodes = map (snapshot_node f elapsed) (bf_nodes f);
         snapshot =
           \<lparr>fs_version = bf_version f, fs_elapsed_ms = elapsed, fs_nodes = nodes, fs_roots = roots,
            fs_counts = fold count_node nodes counts_default,
            fs_activity = \<lparr>pj_rows = [], pj_elided = \<lparr>el_untracked = 0, el_planned = 0, el_built = 0\<rparr>\<rparr>,
            fs_completed_downloads = bf_completed_downloads f,
            fs_completed_substitutions = bf_completed_substitutions f,
            fs_transfers = map transfer_of
              (filter (\<lambda>(_, a). aa_kind a \<in> {CopyPath, FileTransfer, Substitute}) (bf_activities f)),
            fs_recent_logs = bf_recent_logs f,
            fs_expectations = concat (map (\<lambda>a. map (\<lambda>(k, e). \<lparr>ae_kind = k, ae_expected = e\<rparr>)
              (aa_expectations a)) (bm_values (bf_activities f))),
            fs_current_activity =
              map aa_text (filter (\<lambda>a. aa_text a \<noteq> []) (bm_values (bf_activities f))),
            fs_failed_derivations =
              map dn_name (filter (\<lambda>n. dn_status n = StFailed) nodes),
            fs_errors = bf_errors f,
            fs_unknown_activity_types = bf_unknown_activity_types f,
            fs_unknown_result_types = bf_unknown_result_types f,
            fs_unknown_actions = bf_unknown_actions f,
            fs_malformed_messages = bf_malformed_messages f,
            fs_ignored_lines = bf_ignored_lines f\<rparr>
     in snapshot\<lparr>fs_activity := activity_projection_of snapshot DEFAULT_ACTIVITY_ROW_BUDGET\<rparr>)"

definition into_summary :: "forest_snapshot \<Rightarrow> forest_summary" where
  "into_summary s =
    (let activity = fs_activity s;
         truncated = length (pj_rows activity) - SUMMARY_ACTIVITY_ROW_CAP
     in \<lparr>sm_version = fs_version s, sm_elapsed_ms = fs_elapsed_ms s, sm_counts = fs_counts s,
         sm_activity = activity\<lparr>pj_rows := take SUMMARY_ACTIVITY_ROW_CAP (pj_rows activity)\<rparr>,
         sm_activity_rows_truncated = truncated,
         sm_completed_downloads = fs_completed_downloads s,
         sm_completed_substitutions = fs_completed_substitutions s,
         sm_transfers = fs_transfers s, sm_recent_logs = fs_recent_logs s,
         sm_current_activity = fs_current_activity s,
         sm_failed_derivations = fs_failed_derivations s, sm_errors = fs_errors s,
         sm_unknown_activity_types = fs_unknown_activity_types s,
         sm_unknown_result_types = fs_unknown_result_types s,
         sm_unknown_actions = fs_unknown_actions s,
         sm_malformed_messages = fs_malformed_messages s,
         sm_ignored_lines = fs_ignored_lines s\<rparr>)"

fun node_tier :: "derivation_status \<Rightarrow> nat" where
  "node_tier StFailed = 0"
| "node_tier StBuilding = 1"
| "node_tier StDownloading = 2"
| "node_tier StSubstituting = 2"
| "node_tier StPlanned = 3"
| "node_tier StBuilt = 4"
| "node_tier StUnknown = 4"

definition capped_nodes :: "nat \<Rightarrow> forest_snapshot \<Rightarrow> derivation_node list \<times> nat" where
  "capped_nodes cap s =
    (let nodes = fs_nodes s;
         order = sort_key (\<lambda>i. (node_tier (dn_status (nodes ! i)), i)) [0..<length nodes]
     in (map (\<lambda>i. nodes ! i) (take cap order), length nodes - cap))"

section \<open>The visit lists every node once\<close>

abbreviation row_path :: "display_row \<Rightarrow> string" where
  "row_path r \<equiv> dn_path (dr_node r)"

definition index_ok :: "node_map \<Rightarrow> bool" where
  "index_ok nodes \<longleftrightarrow> (\<forall>p n. map_of nodes p = Some n \<longrightarrow> dn_path n = p)"

lemma index_ok_insert: "index_ok m \<Longrightarrow> index_ok (bm_insert (dn_path n) n m)"
  unfolding index_ok_def by (simp del: bm_insert.simps)

lemma node_index_ok: "index_ok (node_index nodes)"
proof -
  have "index_ok m \<Longrightarrow> index_ok (fold (\<lambda>n. bm_insert (dn_path n) n) nodes m)" for m
    by (induction nodes arbitrary: m) (simp_all add: index_ok_insert)
  moreover have "index_ok []" by (simp add: index_ok_def)
  ultimately show ?thesis unfolding node_index_def by blast
qed

lemma node_index_keys: "fst ` set (node_index nodes) = dn_path ` set nodes"
proof -
  have "fst ` set (fold (\<lambda>n. bm_insert (dn_path n) n) nodes m) = dn_path ` set nodes \<union> fst ` set m" for m
    by (induction nodes arbitrary: m) auto
  then show ?thesis by (simp add: node_index_def)
qed

lemma node_index_lookup:
  assumes "distinct (map dn_path nodes)" and "n \<in> set nodes"
  shows "map_of (node_index nodes) (dn_path n) = Some n"
proof -
  have "map_of (fold (\<lambda>n. bm_insert (dn_path n) n) nodes m) (dn_path n) = Some n" for m
    using assms
  proof (induction nodes arbitrary: m)
    case (Cons x nodes)
    have skip: "p \<notin> dn_path ` set ns \<Longrightarrow>
        map_of (fold (\<lambda>n. bm_insert (dn_path n) n) ns m) p = map_of m p" for p ns m
      by (induction ns arbitrary: m) auto
    show ?case
    proof (cases "n = x")
      case True
      then show ?thesis using Cons.prems(1) skip [of "dn_path x" nodes] by simp
    qed (use Cons in simp)
  qed simp
  then show ?thesis by (simp add: node_index_def)
qed

text \<open>What one call of the visit adds: one row per newly seen path that has a node.\<close>

definition adds :: "node_map \<Rightarrow> string bset \<times> display_row list \<Rightarrow> string bset \<times> display_row list \<Rightarrow> bool" where
  "adds nodes st st' \<longleftrightarrow>
    (\<exists>new. snd st' = snd st @ new \<and> set (fst st) \<subseteq> set (fst st') \<and> distinct (map row_path new) \<and>
      row_path ` set new = (set (fst st') - set (fst st)) \<inter> fst ` set nodes \<and>
      (\<forall>r\<in>set new. map_of nodes (row_path r) = Some (dr_node r)))"

lemma adds_refl: "adds nodes st st"
  by (simp add: adds_def)

lemma addsE:
  assumes "adds nodes st st'"
  obtains new where "snd st' = snd st @ new" "set (fst st) \<subseteq> set (fst st')" "distinct (map row_path new)"
    "row_path ` set new = (set (fst st') - set (fst st)) \<inter> fst ` set nodes"
    "\<forall>r\<in>set new. map_of nodes (row_path r) = Some (dr_node r)"
  using assms unfolding adds_def by (elim exE conjE) (rule that)

lemma adds_trans:
  assumes "adds nodes a b" and "adds nodes b c"
  shows "adds nodes a c"
proof -
  obtain x where x: "snd b = snd a @ x" "set (fst a) \<subseteq> set (fst b)" "distinct (map row_path x)"
      "row_path ` set x = (set (fst b) - set (fst a)) \<inter> fst ` set nodes"
      "\<forall>r\<in>set x. map_of nodes (row_path r) = Some (dr_node r)"
    by (rule addsE [OF assms(1)])
  obtain y where y: "snd c = snd b @ y" "set (fst b) \<subseteq> set (fst c)" "distinct (map row_path y)"
      "row_path ` set y = (set (fst c) - set (fst b)) \<inter> fst ` set nodes"
      "\<forall>r\<in>set y. map_of nodes (row_path r) = Some (dr_node r)"
    by (rule addsE [OF assms(2)])
  have "row_path ` set x \<inter> row_path ` set y = {}" using x(4) y(4) by auto
  then have "distinct (map row_path (x @ y))" using x(3) y(3) by simp
  moreover have "row_path ` set (x @ y) = (set (fst c) - set (fst a)) \<inter> fst ` set nodes"
    unfolding set_append image_Un x(4) y(4) using x(2) y(2) by blast
  moreover have "\<forall>r\<in>set (x @ y). map_of nodes (row_path r) = Some (dr_node r)"
    using x(5) y(5) by (simp only: set_append ball_Un simp_thms)
  moreover have "set (fst a) \<subseteq> set (fst c)" using x(2) y(2) by blast
  moreover have "snd c = snd a @ (x @ y)" by (simp only: x(1) y(1) append_assoc)
  ultimately show ?thesis unfolding adds_def by blast
qed

lemma adds_skip:
  assumes "map_of nodes p = None"
  shows "adds nodes (seen, rows) (bs_insert p seen, rows)"
  using assms by (auto simp: adds_def map_of_eq_None_iff)

lemma adds_node:
  assumes ok: "index_ok nodes" and p: "p \<notin> set seen" "map_of nodes p = Some n"
    and rec: "adds nodes (bs_insert p seen, rows) (seen', rows')"
  shows "adds nodes (seen, rows) (seen', rows' @ [\<lparr>dr_depth = d, dr_node = n\<rparr>])"
proof -
  obtain new where new: "rows' = rows @ new" "Set.insert p (set seen) \<subseteq> set seen'"
      "distinct (map row_path new)"
      "row_path ` set new = (set seen' - Set.insert p (set seen)) \<inter> fst ` set nodes"
      "\<forall>r\<in>set new. map_of nodes (row_path r) = Some (dr_node r)"
    using rec unfolding adds_def by auto
  have path: "dn_path n = p" using ok p(2) by (simp add: index_ok_def)
  have "p \<in> fst ` set nodes" using p(2) by (metis domI dom_map_of_conv_image_fst)
  then have "row_path ` set (new @ [\<lparr>dr_depth = d, dr_node = n\<rparr>]) =
      (set seen' - set seen) \<inter> fst ` set nodes"
    using new(2,4) path p(1) by auto
  moreover have "distinct (map row_path (new @ [\<lparr>dr_depth = d, dr_node = n\<rparr>]))"
    using new(3,4) path by auto
  ultimately show ?thesis
    unfolding adds_def using new(1,2,5) path p(2)
    by (intro exI [of _ "new @ [\<lparr>dr_depth = d, dr_node = n\<rparr>]"]) simp
qed

lemma visit_all_adds:
  "index_ok nodes \<Longrightarrow> adds nodes st (visit_all nodes depth ps st) \<and>
    set ps \<subseteq> set (fst (visit_all nodes depth ps st))"
proof (induction nodes depth ps st rule: visit_all.induct)
  case (2 nodes depth p ps seen rows)
  show ?case
  proof (cases "p \<in> set seen")
    case True
    then have "adds nodes (seen, rows) (visit_all nodes depth ps (seen, rows))"
      "set ps \<subseteq> set (fst (visit_all nodes depth ps (seen, rows)))" using 2 by auto
    moreover from this have "p \<in> set (fst (visit_all nodes depth ps (seen, rows)))"
      using True by (auto simp: adds_def)
    ultimately show ?thesis using True by simp
  next
    case unseen: False
    show ?thesis
    proof (cases "map_of nodes p")
      case None
      let ?r = "visit_all nodes depth ps (bs_insert p seen, rows)"
      have "adds nodes (bs_insert p seen, rows) ?r" "set ps \<subseteq> set (fst ?r)"
        using 2 unseen None by auto
      moreover from this have "p \<in> set (fst ?r)" by (auto simp: adds_def)
      ultimately show ?thesis
        using unseen None adds_trans [OF adds_skip] by auto
    next
      case (Some n)
      obtain seen' rows' where v:
        "visit_all nodes (depth + 1) (sort_paths nodes (dn_inputs n)) (bs_insert p seen, rows) = (seen', rows')"
        by (cases "visit_all nodes (depth + 1) (sort_paths nodes (dn_inputs n)) (bs_insert p seen, rows)")
      let ?mid = "(seen', rows' @ [\<lparr>dr_depth = depth, dr_node = n\<rparr>])"
      let ?r = "visit_all nodes depth ps ?mid"
      have "adds nodes (bs_insert p seen, rows) (seen', rows')"
        using 2(3) [OF unseen Some 2(5)] v by simp
      then have mid: "adds nodes (seen, rows) ?mid" "p \<in> set seen'"
        using adds_node [OF 2(5) unseen Some] by (auto simp: adds_def)
      have r: "adds nodes ?mid ?r" "set ps \<subseteq> set (fst ?r)"
        using 2(4) [OF unseen Some v [symmetric] 2(5)] by auto
      then have "p \<in> set (fst ?r)" using mid(2) by (auto simp: adds_def)
      then show ?thesis using unseen Some v r adds_trans [OF mid(1) r(1)] by simp
    qed
  qed
qed (simp add: adds_refl)

lemma display_rows_facts:
  assumes "distinct (map dn_path (fs_nodes s))"
  shows "distinct (map row_path (display_rows s))"
    "set (map dr_node (display_rows s)) = set (fs_nodes s)"
proof -
  let ?nodes = "node_index (fs_nodes s)"
  let ?a = "visit_all ?nodes 0 (sort_paths ?nodes (fs_roots s)) ([], [])"
  let ?b = "visit_all ?nodes 0 (map dn_path (fs_nodes s)) ?a"
  have "adds ?nodes ([], []) ?a" "adds ?nodes ?a ?b"
    using visit_all_adds [OF node_index_ok] by blast+
  then have "adds ?nodes ([], []) ?b" by (rule adds_trans)
  moreover have all: "dn_path ` set (fs_nodes s) \<subseteq> set (fst ?b)"
    using visit_all_adds [OF node_index_ok, of "fs_nodes s" ?a 0 "map dn_path (fs_nodes s)"] by simp
  ultimately obtain new where new: "snd ?b = new" "distinct (map row_path new)"
      "row_path ` set new = set (fst ?b) \<inter> fst ` set ?nodes"
      "\<forall>r\<in>set new. map_of ?nodes (row_path r) = Some (dr_node r)"
    unfolding adds_def by auto
  have rows: "display_rows s = new" by (simp add: display_rows_def Let_def new(1))
  show "distinct (map row_path (display_rows s))" using new(2) rows by simp
  have paths: "row_path ` set new = dn_path ` set (fs_nodes s)"
    using new(3) all by (auto simp: node_index_keys)
  show "set (map dr_node (display_rows s)) = set (fs_nodes s)"
  proof (intro set_eqI iffI)
    fix n
    assume "n \<in> set (map dr_node (display_rows s))"
    then obtain r where r: "r \<in> set new" "n = dr_node r" using rows by auto
    then have "row_path r \<in> dn_path ` set (fs_nodes s)" unfolding paths [symmetric] by blast
    then have "dn_path n \<in> dn_path ` set (fs_nodes s)" by (simp only: r(2))
    then obtain m where m: "m \<in> set (fs_nodes s)" "dn_path m = dn_path n" by (metis imageE)
    have "map_of ?nodes (row_path r) = Some n" using new(4) r by blast
    moreover have "map_of ?nodes (row_path r) = Some m"
      using node_index_lookup [OF assms m(1)] by (simp only: m(2) r(2))
    ultimately show "n \<in> set (fs_nodes s)" using m(1) by simp
  next
    fix n
    assume n: "n \<in> set (fs_nodes s)"
    then have "dn_path n \<in> row_path ` set new" using paths by blast
    then obtain r where r: "r \<in> set new" "row_path r = dn_path n" by (metis imageE)
    have "map_of ?nodes (row_path r) = Some (dr_node r)" using new(4) r(1) by blast
    then have "Some (dr_node r) = Some n" using node_index_lookup [OF assms n] unfolding r(2) by (rule trans [OF sym])
    then have "n \<in> dr_node ` set new" using r(1) by blast
    then show "n \<in> set (map dr_node (display_rows s))" by (simp only: rows set_map)
  qed
qed

section \<open>The projection keeps what matters and accounts for the rest\<close>

definition consumer :: "derivation_node list \<Rightarrow> (string \<times> string) set" where
  "consumer nodes = {(p, q). \<exists>n\<in>set nodes. dn_path n = q \<and> p \<in> set (dn_inputs n)}"

lemma parents_of_entry:
  "set (parents_of (fold (\<lambda>input. bm_entry [] input (\<lambda>ps. ps @ [q])) ins m) p) =
    (if p \<in> set ins then {q} else {}) \<union> set (parents_of m p)"
  by (induction ins arbitrary: m) (auto simp: parents_of_def)

lemma set_parents_of:
  "set (parents_of (parent_index nodes) p) = {q. (p, q) \<in> consumer nodes}"
proof -
  have "set (parents_of (fold (\<lambda>node m. fold (\<lambda>input. bm_entry [] input (\<lambda>ps. ps @ [dn_path node]))
      (dn_inputs node) m) nodes m) p) = {q. (p, q) \<in> consumer nodes} \<union> set (parents_of m p)" for m
  proof (induction nodes arbitrary: m)
    case (Cons n nodes)
    have "{q. (p, q) \<in> consumer (n # nodes)} =
        (if p \<in> set (dn_inputs n) then {dn_path n} else {}) \<union> {q. (p, q) \<in> consumer nodes}"
      by (auto simp: consumer_def)
    then show ?case by (simp add: Cons.IH parents_of_entry Un_assoc Un_left_commute)
  qed (simp add: consumer_def)
  then show ?thesis by (simp add: parent_index_def parents_of_def)
qed

definition parent_rel :: "parent_map \<Rightarrow> (string \<times> string) set" where
  "parent_rel parents = {(p, q). q \<in> set (parents_of parents p)}"

lemma close_parents_closed:
  assumes "set fr \<subseteq> set keep" and "\<And>p q. p \<in> set keep - set fr \<Longrightarrow> (p, q) \<in> parent_rel parents \<Longrightarrow> q \<in> set keep"
  shows "set keep \<subseteq> set (close_parents parents keep fr) \<and>
    (\<forall>p q. p \<in> set (close_parents parents keep fr) \<longrightarrow> (p, q) \<in> parent_rel parents \<longrightarrow>
      q \<in> set (close_parents parents keep fr))"
  using assms
proof (induction parents keep fr rule: close_parents.induct)
  case (1 parents keep fr)
  show ?case
  proof (cases "fr = []")
    case True
    then show ?thesis using 1(3) by (simp add: close_parents.simps)
  next
    case False
    let ?ps = "parents_of parents (last fr)"
    obtain keep' fr' where st: "fold push_parent ?ps (keep, butlast fr) = (keep', fr')"
      by (cases "fold push_parent ?ps (keep, butlast fr)")
    have keep': "set keep' = set ?ps \<union> set keep" "set fr' = (set ?ps - set keep) \<union> set (butlast fr)"
      using push_parents_effect(1,2) [of ?ps keep "butlast fr"] st by auto
    have fr: "set fr = Set.insert (last fr) (set (butlast fr))"
      using False by (metis Un_insert_right append_butlast_last_id list.set(1) list.set(2) set_append sup_bot.right_neutral)
    have "set keep \<subseteq> set keep'" using keep'(1) by blast
    moreover have "set fr' \<subseteq> set keep'" using keep' fr 1(2) by blast
    moreover have "q \<in> set keep'" if "p \<in> set keep' - set fr'" "(p, q) \<in> parent_rel parents" for p q
    proof (cases "p = last fr")
      case True
      then show ?thesis using that keep' by (auto simp: parent_rel_def)
    next
      case False
      then have "p \<in> set keep - set fr" using that(1) keep' fr by blast
      then show ?thesis using 1(3) that(2) keep'(1) by blast
    qed
    ultimately show ?thesis
      using 1(1) [OF False st [symmetric]] False st by (simp add: close_parents.simps [of parents keep fr]) blast
  qed
qed

lemma close_parents_reached:
  "set (close_parents parents keep fr) \<subseteq> (parent_rel parents)\<^sup>* `` (set keep \<union> set fr)"
proof (induction parents keep fr rule: close_parents.induct)
  case (1 parents keep fr)
  show ?case
  proof (cases "fr = []")
    case False
    let ?ps = "parents_of parents (last fr)"
    let ?R = "parent_rel parents"
    obtain keep' fr' where st: "fold push_parent ?ps (keep, butlast fr) = (keep', fr')"
      by (cases "fold push_parent ?ps (keep, butlast fr)")
    have keep': "set keep' = set ?ps \<union> set keep" "set fr' \<subseteq> set ?ps \<union> set fr"
      using push_parents_effect(1,2) [of ?ps keep "butlast fr"] st by (auto dest: in_set_butlastD)
    have "set ?ps \<subseteq> ?R `` set fr" using False by (auto simp: parent_rel_def)
    then have "set keep' \<union> set fr' \<subseteq> ?R\<^sup>* `` (set keep \<union> set fr)"
      using keep' by blast
    then have "?R\<^sup>* `` (set keep' \<union> set fr') \<subseteq> ?R\<^sup>* `` (?R\<^sup>* `` (set keep \<union> set fr))"
      by (rule Image_mono [OF subset_refl])
    also have "\<dots> = ?R\<^sup>* `` (set keep \<union> set fr)"
      by (metis relcomp_Image rtrancl_idemp_self_comp)
    finally show ?thesis
      using 1 [OF False st [symmetric]] False st by (simp add: close_parents.simps [of parents keep fr])
  qed (auto simp: close_parents.simps)
qed

text \<open>The closure the projection computes: the mandatory nodes with everything that consumes them.\<close>

definition mandatory_closure :: "derivation_node list \<Rightarrow> string set" where
  "mandatory_closure nodes =
    (consumer nodes)\<^sup>* `` {dn_path n |n. n \<in> set nodes \<and> is_mandatory (dn_status n)}"

lemma set_mandatory_paths:
  "set (mandatory_paths nodes) = {dn_path n |n. n \<in> set nodes \<and> is_mandatory (dn_status n)}"
  by (auto simp: mandatory_paths_def)

lemma close_mandatory:
  "set (close_parents (parent_index nodes) (mandatory_paths nodes) (mandatory_paths nodes)) =
    mandatory_closure nodes"
proof -
  let ?M = "mandatory_paths nodes" and ?P = "parent_index nodes"
  have rel: "parent_rel ?P = consumer nodes" by (auto simp: parent_rel_def set_parents_of)
  have closed: "set ?M \<subseteq> set (close_parents ?P ?M ?M)"
    "\<And>p q. p \<in> set (close_parents ?P ?M ?M) \<Longrightarrow> (p, q) \<in> parent_rel ?P \<Longrightarrow> q \<in> set (close_parents ?P ?M ?M)"
    using close_parents_closed [of ?M ?M ?P] by auto
  have "(p, q) \<in> (parent_rel ?P)\<^sup>* \<Longrightarrow> p \<in> set ?M \<Longrightarrow> q \<in> set (close_parents ?P ?M ?M)" for p q
    by (induction rule: rtrancl_induct) (use closed in blast)+
  then have "(parent_rel ?P)\<^sup>* `` set ?M \<subseteq> set (close_parents ?P ?M ?M)" by blast
  then show ?thesis
    using close_parents_reached [of ?P ?M ?M]
    by (simp add: rel mandatory_closure_def set_mandatory_paths)
qed

lemma close_parents_wf: "bs_wf keep \<Longrightarrow> bs_wf (close_parents parents keep fr)"
proof (induction parents keep fr rule: close_parents.induct)
  case (1 parents keep fr)
  have step: "bs_wf k \<Longrightarrow> bs_wf (fst (fold push_parent ps (k, f)))" for ps k f
    by (induction ps arbitrary: k f) (simp_all add: push_parent_pair bs_wf_insert)
  show ?case
  proof (cases "fr = []")
    case False
    obtain keep' fr' where st:
      "fold push_parent (parents_of parents (last fr)) (keep, butlast fr) = (keep', fr')"
      by (cases "fold push_parent (parents_of parents (last fr)) (keep, butlast fr)")
    then have "bs_wf keep'"
      using step [OF 1(2), of "parents_of parents (last fr)" "butlast fr"] by simp
    then show ?thesis
      using 1(1) [OF False st [symmetric]] False st by (simp add: close_parents.simps [of parents keep fr])
  qed (simp add: 1 close_parents.simps)
qed

lemma bs_insert_length: "length (bs_insert x s) \<le> Suc (length s)"
  by (induction x s rule: bs_insert.induct) auto

lemma fill_planned_facts:
  "set keep \<subseteq> set (fill_planned b rows keep)"
  "set (fill_planned b rows keep) \<subseteq>
    set keep \<union> {row_path r |r. r \<in> set rows \<and> dn_status (dr_node r) = StPlanned}"
  "length (fill_planned b rows keep) \<le> max b (length keep)"
  "bs_wf keep \<Longrightarrow> bs_wf (fill_planned b rows keep)"
proof (induction rows arbitrary: keep)
  case (Cons row rows)
  let ?k = "\<lambda>keep. if dn_status (dr_node row) = StPlanned then bs_insert (row_path row) keep else keep"
  { case 1
    have "set keep \<subseteq> set (?k keep)" by auto
    then have "set keep \<subseteq> set (fill_planned b rows (?k keep))" using Cons.IH(1) [of "?k keep"] by (rule subset_trans)
    then show ?case by simp }
  { case 2
    have "set (?k keep) \<subseteq> set keep \<union> {row_path r |r. r \<in> set (row # rows) \<and> dn_status (dr_node r) = StPlanned}"
      by auto
    moreover have "set (fill_planned b rows (?k keep)) \<subseteq> set (?k keep) \<union>
        {row_path r |r. r \<in> set (row # rows) \<and> dn_status (dr_node r) = StPlanned}"
      using Cons.IH(2) [of "?k keep"] by (rule order_trans) auto
    ultimately have sub: "set (fill_planned b rows (?k keep)) \<subseteq> set keep \<union>
        {row_path r |r. r \<in> set (row # rows) \<and> dn_status (dr_node r) = StPlanned}"
      by blast
    show ?case
    proof (cases "b \<le> length keep")
      case False
      then show ?thesis using sub by (simp only: fill_planned.simps if_False)
    qed auto }
  { case 3 show ?case
      using Cons.IH(3) [of "?k keep"] bs_insert_length [of "row_path row" keep] by (auto split: if_splits) }
  { case 4 then show ?case using Cons.IH(4) [of "?k keep"] by (simp add: bs_wf_insert) }
qed simp_all

lemma fill_roots_facts:
  "set keep \<subseteq> set (fill_roots b idx roots keep)"
  "length (fill_roots b idx roots keep) \<le> max b (length keep)"
  "bs_wf keep \<Longrightarrow> bs_wf (fill_roots b idx roots keep)"
proof (induction roots arbitrary: keep)
  case (Cons r roots)
  let ?k = "\<lambda>keep. if bm_contains idx r then bs_insert r keep else keep"
  { case 1
    have "set keep \<subseteq> set (?k keep)" by auto
    then have "set keep \<subseteq> set (fill_roots b idx roots (?k keep))" using Cons.IH(1) [of "?k keep"] by (rule subset_trans)
    then show ?case by simp }
  { case 2 show ?case using Cons.IH(2) [of "?k keep"] bs_insert_length [of r keep] by (auto split: if_splits) }
  { case 3 then show ?case using Cons.IH(3) [of "?k keep"] by (simp add: bs_wf_insert) }
qed simp_all

lemma projection_keep_mandatory: "mandatory_closure (fs_nodes s) \<subseteq> set (projection_keep s b)"
proof -
  let ?K = "close_parents (parent_index (fs_nodes s)) (mandatory_paths (fs_nodes s)) (mandatory_paths (fs_nodes s))"
  have "mandatory_closure (fs_nodes s) \<subseteq> set (fill_planned b (display_rows s) ?K)"
    using close_mandatory [of "fs_nodes s"] fill_planned_facts(1) [of ?K b "display_rows s"] by simp
  then show ?thesis
    using fill_roots_facts(1) by (fastforce simp: projection_keep_def Let_def)
qed

lemma projection_keep_size:
  "length (projection_keep s b) \<le> max b (card (mandatory_closure (fs_nodes s)))"
proof -
  let ?K = "close_parents (parent_index (fs_nodes s)) (mandatory_paths (fs_nodes s)) (mandatory_paths (fs_nodes s))"
  have "bs_wf ?K" by (intro close_parents_wf) (simp add: mandatory_paths_def bs_wf_extend)
  then have "length ?K = card (mandatory_closure (fs_nodes s))"
    using distinct_card [OF bs_wf_distinct] close_mandatory [of "fs_nodes s"] by metis
  then show ?thesis
    using fill_planned_facts(3) [of b "display_rows s" ?K] fill_roots_facts(2) [of b]
    by (auto simp: projection_keep_def Let_def intro: order_trans [OF fill_roots_facts(2)])
qed

lemma projection_keep_wf: "bs_wf (projection_keep s b)"
  unfolding projection_keep_def Let_def mandatory_paths_def
  by (auto intro!: fill_roots_facts(3) fill_planned_facts(4) close_parents_wf bs_wf_extend)

lemma elided_fold:
  "elided_total (fold count_elided ns e) = elided_total e +
    count_if (\<lambda>n. \<not> is_mandatory (dn_status n)) ns"
proof (induction ns arbitrary: e)
  case (Cons n ns)
  have "elided_total (count_elided n e) =
      (if is_mandatory (dn_status n) then 0 else 1) + elided_total e"
    by (cases "dn_status n") (simp_all add: elided_total_def)
  then show ?case by (simp add: Cons.IH del: count_elided.simps)
qed simp

lemma rows_filter_length:
  assumes "distinct (map dn_path (fs_nodes s))"
  shows "length (filter (\<lambda>r. P (dr_node r)) (display_rows s)) = length (filter P (fs_nodes s))"
proof -
  have "distinct (map dr_node (display_rows s))"
  proof -
    have "distinct (map dn_path (map dr_node (display_rows s)))"
      using display_rows_facts(1) [OF assms] by (simp add: comp_def)
    then show ?thesis by (simp only: distinct_map [of dn_path])
  qed
  then have "length (filter P (map dr_node (display_rows s))) = card (set (filter P (map dr_node (display_rows s))))"
    by (simp only: distinct_card [OF distinct_filter])
  also have "\<dots> = card (set (filter P (fs_nodes s)))"
    using display_rows_facts(2) [OF assms] by (simp only: set_filter)
  also have "\<dots> = length (filter P (fs_nodes s))"
    using assms by (simp only: distinct_card [OF distinct_filter] distinct_map)
  finally show ?thesis by (simp add: filter_map comp_def)
qed

lemma projection_accounts:
  assumes "distinct (map dn_path (fs_nodes s))"
  shows "length (pj_rows (activity_projection_of s b)) + elided_total (pj_elided (activity_projection_of s b)) =
    length (fs_nodes s)"
proof -
  let ?in = "\<lambda>n. dn_path n \<in> set (projection_keep s b)"
  have "is_mandatory (dn_status n) \<Longrightarrow> n \<in> set (fs_nodes s) \<Longrightarrow> ?in n" for n
    using projection_keep_mandatory [of s b] by (auto simp: mandatory_closure_def)
  then have "filter (\<lambda>n. \<not> is_mandatory (dn_status n)) (filter (\<lambda>n. \<not> ?in n) (fs_nodes s)) =
      filter (\<lambda>n. \<not> ?in n) (fs_nodes s)"
    by (intro filter_True) auto
  then have "count_if (\<lambda>n. \<not> is_mandatory (dn_status n)) (filter (\<lambda>n. \<not> ?in n) (fs_nodes s)) =
      length (filter (\<lambda>n. \<not> ?in n) (fs_nodes s))"
    by (simp only: count_if_def)
  moreover have "elided_total (pj_elided (activity_projection_of s b)) = 0 +
      count_if (\<lambda>n. \<not> is_mandatory (dn_status n)) (filter (\<lambda>n. \<not> ?in n) (fs_nodes s))"
    by (simp add: activity_projection_of_def Let_def elided_fold del: count_elided.simps)
      (simp add: elided_total_def)
  moreover have "length (pj_rows (activity_projection_of s b)) = length (filter ?in (fs_nodes s))"
    using rows_filter_length [OF assms, of ?in] by (simp add: activity_projection_of_def Let_def)
  ultimately show ?thesis using sum_length_filter_compl [of ?in "fs_nodes s"] by simp
qed

lemma projection_rows_bound:
  assumes "distinct (map dn_path (fs_nodes s))"
  shows "length (pj_rows (activity_projection_of s b)) \<le> max b (card (mandatory_closure (fs_nodes s)))"
proof -
  let ?rows = "pj_rows (activity_projection_of s b)"
  have "distinct (map row_path ?rows)"
    using display_rows_facts(1) [OF assms]
    by (simp add: activity_projection_of_def Let_def distinct_map_filter)
  moreover have "set (map row_path ?rows) \<subseteq> set (projection_keep s b)"
    by (auto simp: activity_projection_of_def Let_def)
  ultimately have "length ?rows \<le> length (projection_keep s b)"
    using card_mono [of "set (projection_keep s b)" "set (map row_path ?rows)"]
      distinct_card [of "map row_path ?rows"] distinct_card [OF bs_wf_distinct [OF projection_keep_wf], of s b]
    by simp
  then show ?thesis using projection_keep_size [of s b] by simp
qed

lemma projection_shows:
  assumes "distinct (map dn_path (fs_nodes s))" and "n \<in> set (fs_nodes s)"
    and "dn_path n \<in> mandatory_closure (fs_nodes s)"
  shows "n \<in> dr_node ` set (pj_rows (activity_projection_of s b))"
proof -
  have "n \<in> dr_node ` set (display_rows s)"
    using display_rows_facts(2) [OF assms(1)] assms(2) by (simp only: set_map)
  then show ?thesis
    using projection_keep_mandatory [of s b] assms(3)
    by (auto simp: activity_projection_of_def Let_def)
qed

section \<open>Snapshots of a well-formed forest\<close>

lemma fs_nodes_snapshot:
  "fs_nodes (snapshot_of now f) = map (snapshot_node f (forest_elapsed_ms now f)) (bf_nodes f)"
  by (simp add: snapshot_of_def Let_def)

lemma snapshot_paths: "map dn_path (fs_nodes (snapshot_of now f)) = bm_keys (bf_nodes f)"
  by (simp add: fs_nodes_snapshot bm_keys_def snapshot_node_def split_def comp_def)

lemma snapshot_distinct:
  "forest_inv f \<Longrightarrow> distinct (map dn_path (fs_nodes (snapshot_of now f)))"
  by (simp add: snapshot_paths bm_wf_distinct forest_inv_def nodes_ok_def)

lemma fold_count_node:
  "fc_untracked (fold count_node ns c) + counts_total (fold count_node ns c) =
    fc_untracked c + counts_total c + length ns"
proof (induction ns arbitrary: c)
  case (Cons n ns)
  have "fc_untracked (count_node n c) + counts_total (count_node n c) =
      Suc (fc_untracked c + counts_total c)"
    by (cases "dn_status n") (simp_all add: counts_total_def)
  then show ?case by (simp add: Cons.IH del: count_node.simps)
qed simp

lemma fold_count_untracked:
  "fc_untracked (fold count_node ns c) = fc_untracked c + count_if (\<lambda>n. dn_status n = StUnknown) ns"
proof (induction ns arbitrary: c)
  case (Cons n ns)
  have "fc_untracked (count_node n c) = (if dn_status n = StUnknown then 1 else 0) + fc_untracked c"
    by (cases "dn_status n") simp_all
  then show ?case by (simp add: Cons.IH del: count_node.simps)
qed simp

lemma snapshot_counts:
  "fc_untracked (fs_counts (snapshot_of now f)) =
    count_if (\<lambda>n. dn_status n = StUnknown) (fs_nodes (snapshot_of now f))"
  "counts_total (fs_counts (snapshot_of now f)) =
    count_if (\<lambda>n. dn_status n \<noteq> StUnknown) (fs_nodes (snapshot_of now f))"
proof -
  let ?ns = "fs_nodes (snapshot_of now f)"
  have c: "fs_counts (snapshot_of now f) = fold count_node ?ns counts_default"
    by (simp add: snapshot_of_def Let_def)
  show u: "fc_untracked (fs_counts (snapshot_of now f)) = count_if (\<lambda>n. dn_status n = StUnknown) ?ns"
    unfolding c fold_count_untracked by (simp add: counts_default_def)
  have "fc_untracked (fold count_node ?ns counts_default) +
      counts_total (fold count_node ?ns counts_default) = length ?ns"
    unfolding fold_count_node by (simp add: counts_default_def counts_total_def)
  then show "counts_total (fs_counts (snapshot_of now f)) = count_if (\<lambda>n. dn_status n \<noteq> StUnknown) ?ns"
    using u sum_length_filter_compl [of "\<lambda>n. dn_status n = StUnknown" ?ns]
    unfolding c by (simp add: count_if_def)
qed

lemma snapshot_root_iff:
  assumes "forest_inv f"
  shows "p \<in> set (fs_roots (snapshot_of now f)) \<longleftrightarrow>
    p \<in> known_nodes f \<and> (\<forall>n\<in>set (fs_nodes (snapshot_of now f)). p \<notin> set (dn_inputs n))"
proof -
  have par: "set (fold (\<lambda>n. bs_extend (ns_inputs n)) ns acc) = (\<Union>n\<in>set ns. set (ns_inputs n)) \<union> set acc" for ns acc
    by (induction ns arbitrary: acc) auto
  show ?thesis
    by (simp add: snapshot_of_def Let_def bm_keys_def bm_values_def known_nodes_def
        snapshot_node_def split_def par)
qed

lemma snapshot_projection:
  "fs_activity (snapshot_of now f) =
    activity_projection_of (snapshot_of now f) DEFAULT_ACTIVITY_ROW_BUDGET"
proof -
  have "display_rows (s\<lparr>fs_activity := a\<rparr>) = display_rows s" for s a
    by (simp add: display_rows_def)
  then have "activity_projection_of (s\<lparr>fs_activity := a\<rparr>) b = activity_projection_of s b" for s a b
    by (simp add: activity_projection_of_def projection_keep_def Let_def)
  moreover have "\<exists>s. snapshot_of now f =
      s\<lparr>fs_activity := activity_projection_of s DEFAULT_ACTIVITY_ROW_BUDGET\<rparr>"
    unfolding snapshot_of_def Let_def by (rule exI) (rule refl)
  ultimately show ?thesis by auto
qed

lemma summary_rows:
  "length (pj_rows (sm_activity (into_summary s))) = min SUMMARY_ACTIVITY_ROW_CAP (length (pj_rows (fs_activity s))) \<and>
    sm_activity_rows_truncated (into_summary s) = length (pj_rows (fs_activity s)) - SUMMARY_ACTIVITY_ROW_CAP \<and>
    prefix (pj_rows (sm_activity (into_summary s))) (pj_rows (fs_activity s))"
  by (auto simp: into_summary_def Let_def take_is_prefix min.commute)

section \<open>The capped node list\<close>

lemma capped_order:
  fixes s :: forest_snapshot
  defines "key \<equiv> \<lambda>i. (node_tier (dn_status (fs_nodes s ! i)), i)"
  shows "sorted (map key (sort_key key [0..<length (fs_nodes s)]))"
    "set (sort_key key [0..<length (fs_nodes s)]) = {..<length (fs_nodes s)}"
    "distinct (sort_key key [0..<length (fs_nodes s)])"
  by (simp_all add: lessThan_atLeast0 atLeast_upt)

lemma capped_length:
  "length (fst (capped_nodes cap s)) = min cap (length (fs_nodes s)) \<and>
    length (fst (capped_nodes cap s)) + snd (capped_nodes cap s) = length (fs_nodes s)"
  by (auto simp: capped_nodes_def Let_def)

text \<open>No dropped node belongs to a more urgent tier than a kept one.\<close>

lemma capped_tiers:
  assumes "n \<in> set (fst (capped_nodes cap s))" and "m \<in> set (fs_nodes s)"
    and "m \<notin> set (fst (capped_nodes cap s))"
  shows "node_tier (dn_status n) \<le> node_tier (dn_status m)"
proof -
  let ?ns = "fs_nodes s"
  let ?key = "\<lambda>i. (node_tier (dn_status (?ns ! i)), i)"
  let ?ord = "sort_key ?key [0..<length ?ns]"
  have kept: "fst (capped_nodes cap s) = map (\<lambda>i. ?ns ! i) (take cap ?ord)"
    by (simp add: capped_nodes_def Let_def)
  obtain i where i: "i \<in> set (take cap ?ord)" "n = ?ns ! i" using assms(1) kept by auto
  obtain j where j: "j < length ?ns" "m = ?ns ! j" using assms(2) by (metis in_set_conv_nth)
  have "j \<in> set ?ord" using j(1) by simp
  then have "j \<in> set (take cap ?ord) \<union> set (drop cap ?ord)" by (metis append_take_drop_id set_append)
  then have jd: "j \<in> set (drop cap ?ord)" using assms(3) kept j(2) by auto
  have "sorted (map ?key (take cap ?ord) @ map ?key (drop cap ?ord))"
    using capped_order(1) [of s] by (simp flip: map_append)
  then have "?key i \<le> ?key j" using i(1) jd by (auto simp: sorted_append)
  then show ?thesis using i(2) j(2) by (auto simp: less_eq_prod_def)
qed

section \<open>Properties\<close>

definition sample_forest :: build_forest where
  "sample_forest = fail_node 3 ''b.drv''
    (apply_derivation ''a.drv'' \<lparr>drv_outputs = [], drv_input_drvs = [(''b.drv'', [])]\<rparr> (forest_new 0))"

lemma sample_forest_inv: "forest_inv sample_forest"
  unfolding sample_forest_def
  by (intro wf_intros) (simp add: wf_derivation_def bm_wf_def)

lemma sample_forest_keys: "bm_keys (bf_nodes sample_forest) = [''a.drv'', ''b.drv'']"
  unfolding sample_forest_def
  by (simp add: fail_node_def apply_derivation_def backfill_def add_input_def nodes_entry_def
      forest_new_def bm_entry_def bm_keys_def bm_values_def bm_contains_def Let_def)

lemma sample_snapshot_length: "length (fs_nodes (snapshot_of now sample_forest)) = 2"
  using arg_cong [OF sample_forest_keys, of length] by (simp add: fs_nodes_snapshot bm_keys_def)

text \<open>The depth-first display of a snapshot lists every derivation of the forest exactly once,
  whatever the shape of the graph: shared inputs, cycles and inputs without a node included.\<close>

lemma display_lists_every_node_once:
  fixes now :: nat
  assumes "forest_inv f"
  defines "s \<equiv> snapshot_of now f"
  shows "distinct (map row_path (display_rows s)) \<and>
    set (map dr_node (display_rows s)) = set (fs_nodes s) \<and>
    length (display_rows s) = length (bf_nodes f)"
proof -
  note d = snapshot_distinct [OF assms(1), of now, folded s_def]
  have "length (filter (\<lambda>_. True) (display_rows s)) = length (fs_nodes s)"
    using rows_filter_length [OF d, of "\<lambda>_. True"] by simp
  then show ?thesis using display_rows_facts [OF d] by (simp add: s_def fs_nodes_snapshot)
qed

text \<open>The activity projection loses nothing silently. Rows shown and nodes counted as elided add
  up to all nodes; the rows stay within the budget unless the derivations that must be shown (those
  running or failed, with everything that consumes them) already exceed it; and each of those is
  shown.\<close>

lemma projection_is_accounted:
  fixes now :: nat
  assumes "forest_inv f"
  defines "s \<equiv> snapshot_of now f"
  shows "length (pj_rows (activity_projection_of s b)) + elided_total (pj_elided (activity_projection_of s b)) =
      length (bf_nodes f) \<and>
    length (pj_rows (activity_projection_of s b)) \<le> max b (card (mandatory_closure (fs_nodes s))) \<and>
    {n \<in> set (fs_nodes s). dn_path n \<in> mandatory_closure (fs_nodes s)} \<subseteq>
      dr_node ` set (pj_rows (activity_projection_of s b))"
proof -
  note d = snapshot_distinct [OF assms(1), of now, folded s_def]
  have "length (fs_nodes s) = length (bf_nodes f)" by (simp add: s_def fs_nodes_snapshot)
  then show ?thesis
    using projection_accounts [OF d] projection_rows_bound [OF d] projection_shows [OF d] by auto
qed

text \<open>The sort comparison is the lexicographic order on the nodes' sort keys, so it is total and
  transitive, and two nodes compare equal only when their keys agree.\<close>

lemma compare_is_lexicographic:
  "compare a b = cmp (compare_key a) (compare_key b) \<and>
    (compare a b = Equal \<longleftrightarrow> compare_key a = compare_key b) \<and>
    (compare a b = Less \<longleftrightarrow> compare b a = Greater)"
  by (auto simp: compare_is_key_order cmp_def)

text \<open>A snapshot counts each derivation exactly once, in the counter of its status; derivations
  that were only ever seen as inputs are untracked and not part of the total.\<close>

lemma snapshot_counts_nodes:
  fixes now :: nat and f :: build_forest
  defines "s \<equiv> snapshot_of now f"
  shows "fc_untracked (fs_counts s) = count_if (\<lambda>n. dn_status n = StUnknown) (fs_nodes s) \<and>
    counts_total (fs_counts s) = count_if (\<lambda>n. dn_status n \<noteq> StUnknown) (fs_nodes s) \<and>
    fc_untracked (fs_counts s) + counts_total (fs_counts s) = length (bf_nodes f)"
proof -
  have "count_if P xs + count_if (\<lambda>x. \<not> P x) xs = length xs" for P and xs :: "derivation_node list"
    by (induction xs) simp_all
  moreover have "length (fs_nodes s) = length (bf_nodes f)" by (simp add: s_def fs_nodes_snapshot)
  ultimately show ?thesis by (simp add: s_def snapshot_counts)
qed

text \<open>The roots of a snapshot are exactly the derivations no other derivation consumes.\<close>

lemma snapshot_roots_are_unconsumed:
  assumes "forest_inv f"
  shows "set (fs_roots (snapshot_of now f)) =
    {p \<in> known_nodes f. \<forall>n\<in>set (fs_nodes (snapshot_of now f)). p \<notin> set (dn_inputs n)}"
  using snapshot_root_iff [OF assms] by blast

text \<open>Cutting a snapshot down keeps the most urgent part and says how much is gone: the capped
  node list has \<open>cap\<close> nodes or all of them, reports the number dropped, and drops no node of a more
  urgent tier than one it keeps; the summary shows a prefix of the activity rows, at most 256, with
  the number it left out.\<close>

lemma capping_keeps_most_urgent:
  "length (fst (capped_nodes cap s)) = min cap (length (fs_nodes s)) \<and>
    snd (capped_nodes cap s) = length (fs_nodes s) - cap \<and>
    (\<forall>n\<in>set (fst (capped_nodes cap s)). \<forall>m\<in>set (fs_nodes s) - set (fst (capped_nodes cap s)).
      node_tier (dn_status n) \<le> node_tier (dn_status m)) \<and>
    prefix (pj_rows (sm_activity (into_summary s))) (pj_rows (fs_activity s)) \<and>
    length (pj_rows (sm_activity (into_summary s))) = min 256 (length (pj_rows (fs_activity s))) \<and>
    sm_activity_rows_truncated (into_summary s) = length (pj_rows (fs_activity s)) - 256"
proof -
  have "snd (capped_nodes cap s) = length (fs_nodes s) - cap"
    by (simp add: capped_nodes_def Let_def)
  then show ?thesis
    using capped_length [of cap s] capped_tiers [of _ cap s] summary_rows [of s]
    by (auto simp: SUMMARY_ACTIVITY_ROW_CAP_def)
qed

end
