(* ===== verification/FileStore.thy ===== *)
theory FileStore
  imports OrderedMap
begin

text \<open>One directory of the state tree as the code uses it: files by name, whole-file writes and
  renames (\<^verbatim>\<open>std::fs::write\<close>, \<^verbatim>\<open>std::fs::rename\<close>). A writer is the list of its operations in order.
  What a reader sees while the writer runs, or after it was killed, is one of the writer's crash
  states: the effect of the operations so far, where a write may have stored any beginning of its
  bytes and a rename has happened or not.\<close>

text \<open>\<^verbatim>\<open>Path::join\<close>.\<close>

definition path_join :: "string \<Rightarrow> string \<Rightarrow> string" where
  "path_join a b =
    (if starts_with b ''/'' \<or> a = [] then b else if ends_with a ''/'' then a @ b else a @ ''/'' @ b)"

text \<open>\<^verbatim>\<open>Path::components\<close> (without the root), \<^verbatim>\<open>file_name\<close>, and \<^verbatim>\<open>parent\<close> of a canonical path.\<close>

definition path_components :: "string \<Rightarrow> string list" where
  "path_components p = filter (\<lambda>c. c \<noteq> [] \<and> c \<noteq> ''.'') (split_on (CHR ''/'') p)"

definition path_file_name :: "string \<Rightarrow> string option" where
  "path_file_name p = opt_filter (\<lambda>c. c \<noteq> ''..'') (list_last (path_components p))"

definition parent_path :: "string \<Rightarrow> string option" where
  "parent_path p =
    (case rsplit_once (CHR ''/'') p of
       None \<Rightarrow> if p = [] then None else Some []
     | Some (d, n) \<Rightarrow> if n = [] then None else Some (if d = [] then ''/'' else d))"

type_synonym file_dir = "(string, string) bmap"

datatype fs_op = WriteFile string string | RenameFile string string

fun fs_apply :: "fs_op \<Rightarrow> file_dir \<Rightarrow> file_dir" where
  "fs_apply (WriteFile name body) dir = bm_insert name body dir"
| "fs_apply (RenameFile src dst) dir =
    (case map_of dir src of None \<Rightarrow> dir | Some body \<Rightarrow> bm_insert dst body (bm_remove src dir))"

abbreviation fs_run :: "fs_op list \<Rightarrow> file_dir \<Rightarrow> file_dir" where
  "fs_run ops dir \<equiv> fold fs_apply ops dir"

text \<open>The same with failing operations: the first error ends the sequence.\<close>

fun fs_try :: "(fs_op \<Rightarrow> string option) \<Rightarrow> fs_op list \<Rightarrow> file_dir \<Rightarrow> (string, unit) result \<times> file_dir" where
  "fs_try io [] dir = (Inr (), dir)"
| "fs_try io (op # ops) dir =
    (case io op of Some e \<Rightarrow> (Inl e, dir) | None \<Rightarrow> fs_try io ops (fs_apply op dir))"

inductive crash_state :: "fs_op list \<Rightarrow> file_dir \<Rightarrow> file_dir \<Rightarrow> bool" where
  crash_here: "crash_state ops dir dir"
| crash_torn: "prefix part body \<Longrightarrow> crash_state (WriteFile name body # ops) dir (bm_insert name part dir)"
| crash_later: "crash_state ops (fs_apply op dir) dir' \<Longrightarrow> crash_state (op # ops) dir dir'"

inductive_cases crash_NilE: "crash_state [] dir dir'"
inductive_cases crash_WriteE: "crash_state (WriteFile name body # ops) dir dir'"
inductive_cases crash_RenameE: "crash_state (RenameFile src dst # ops) dir dir'"

text \<open>The write-then-rename idiom.\<close>

definition replace_ops :: "string \<Rightarrow> string \<Rightarrow> string \<Rightarrow> fs_op list" where
  "replace_ops tmp dst body = [WriteFile tmp body, RenameFile tmp dst]"

lemma fs_try_run: "(\<And>op. io op = None) \<Longrightarrow> fs_try io ops dir = (Inr (), fs_run ops dir)"
  by (induction ops arbitrary: dir) simp_all

lemma fs_try_ok: "fs_try io ops dir = (Inr u, dir') \<Longrightarrow> dir' = fs_run ops dir"
  by (induction ops arbitrary: dir) (auto split: option.splits)

lemma crash_complete: "crash_state ops dir (fs_run ops dir)"
  by (induction ops arbitrary: dir) (auto intro: crash_state.intros)

lemma fs_apply_wf [wf_intros]: "bm_wf dir \<Longrightarrow> bm_wf (fs_apply op dir)"
  by (cases op) (auto simp: bm_wf_insert bm_wf_remove split: option.split)

text \<open>What the readers of a file that is replaced as a whole rely on: at every moment they see the
  old contents or the new ones, and once the writer is done the new ones.\<close>

definition write_all :: "(string \<Rightarrow> fs_op list) \<Rightarrow> string list \<Rightarrow> file_dir \<Rightarrow> file_dir" where
  "write_all put = fold (\<lambda>body. fs_run (put body))"

locale atomic_file =
  fixes put :: "string \<Rightarrow> fs_op list"
    and contents :: "file_dir \<Rightarrow> string option"
  assumes crash: "crash_state (put body) dir dir' \<Longrightarrow> contents dir' \<in> {contents dir, Some body}"
    and complete: "contents (fs_run (put body) dir) = Some body"
begin

lemma last_write_wins: "bodies \<noteq> [] \<Longrightarrow> contents (write_all put bodies dir) = Some (last bodies)"
  by (induction bodies arbitrary: dir) (auto simp: write_all_def complete)

text \<open>However many writers ran one after the other, one of them interrupted anywhere, a reader never
  sees anything but a value that was written whole or the first contents.\<close>

lemma no_torn_read:
  assumes "crash_state (put body) (write_all put bodies dir) dir'"
  shows "contents dir' \<in> Set.insert (contents dir) (Some ` set (bodies @ [body]))"
proof (cases "bodies = []")
  case True
  then show ?thesis using crash [OF assms] by (auto simp: write_all_def)
next
  case False
  then show ?thesis using crash [OF assms] last_write_wins [OF False, of dir] by auto
qed

end

lemma replace_atomic:
  assumes "tmp \<noteq> dst"
  shows "atomic_file (replace_ops tmp dst) (\<lambda>dir. map_of dir dst)"
proof
  fix body dir dir'
  show "map_of (fs_run (replace_ops tmp dst body) dir) dst = Some body"
    by (simp add: replace_ops_def)
  assume "crash_state (replace_ops tmp dst body) dir dir'"
  then show "map_of dir' dst \<in> {map_of dir dst, Some body}"
    unfolding replace_ops_def using assms
    by (auto elim!: crash_WriteE crash_RenameE crash_NilE)
qed

end
