(* ===== verification/Durations.thy ===== *)
theory Durations
  imports ForestView FileStore
begin

text \<open>The duration history (\<^verbatim>\<open>crates/nix-build-forest/src/duration.rs\<close>): loading the versioned
  cache, the averages it predicts with, and folding the successful builds of a terminal snapshot
  into it. Reading the file and decoding its JSON are the arguments \<open>read\<close> and \<open>dec\<close>.\<close>

definition CACHE_VERSION :: nat where
  "CACHE_VERSION = 1"

record build_duration =
  bd_samples :: nat
  bd_total_ms :: nat

record duration_cache =
  dc_version :: nat
  dc_durations :: "(string, build_duration) bmap"

datatype io_error = NotFound | InvalidData string | OtherIo string

definition cache_default :: duration_cache where
  "cache_default = \<lparr>dc_version = CACHE_VERSION, dc_durations = []\<rparr>"

definition duration_default :: build_duration where
  "duration_default = \<lparr>bd_samples = 0, bd_total_ms = 0\<rparr>"

definition cache_load ::
  "(string \<Rightarrow> (string, duration_cache) result) \<Rightarrow> (io_error, string) result \<Rightarrow>
    (io_error, duration_cache) result" where
  "cache_load dec read =
    (case read of
       Inl NotFound \<Rightarrow> Inr cache_default
     | Inl e \<Rightarrow> Inl e
     | Inr bytes \<Rightarrow>
         (case dec bytes of
            Inl e \<Rightarrow> Inl (OtherIo e)
          | Inr cache \<Rightarrow>
              if dc_version cache \<noteq> CACHE_VERSION
              then Inl (InvalidData (''unsupported duration-cache version '' @ show_nat (dc_version cache)))
              else Inr cache))"

text \<open>\<^verbatim>\<open>fs::read\<close> of a file of the build directory, when no other error occurs.\<close>

definition cache_bytes :: "file_dir \<Rightarrow> string \<Rightarrow> (io_error, string) result" where
  "cache_bytes dir name = (case map_of dir name of None \<Rightarrow> Inl NotFound | Some body \<Rightarrow> Inr body)"

text \<open>\<^verbatim>\<open>Path::with_extension\<close> on a file name.\<close>

definition with_extension :: "string \<Rightarrow> string \<Rightarrow> string" where
  "with_extension ext name =
    (case rsplit_once (CHR ''.'') name of
       Some (stem, _) \<Rightarrow> (if stem = [] then name else stem) @ ''.'' @ ext
     | None \<Rightarrow> name @ ''.'' @ ext)"

definition DURATION_CACHE_FILE :: string where
  "DURATION_CACHE_FILE = ''durations.json''"

definition cache_save_ops ::
  "(duration_cache \<Rightarrow> (string, string) result) \<Rightarrow> string \<Rightarrow> duration_cache \<Rightarrow> (io_error, fs_op list) result" where
  "cache_save_ops ser name c =
    (case ser c of
       Inl e \<Rightarrow> Inl (OtherIo e)
     | Inr bytes \<Rightarrow> Inr (replace_ops (with_extension ''json.tmp'' name) name (bytes @ [CHR 0x0A])))"

definition estimates_ms :: "duration_cache \<Rightarrow> (string, nat) bmap" where
  "estimates_ms c =
    map (\<lambda>(name, d). (name, bd_total_ms d div bd_samples d))
      (filter (\<lambda>(_, d). 0 < bd_samples d) (dc_durations c))"

definition node_elapsed :: "derivation_node \<Rightarrow> nat option" where
  "node_elapsed n =
    (if dn_status n \<noteq> StBuilt then None
     else opt_filter (\<lambda>e. 0 < e)
       (case (dn_started_ms n, dn_finished_ms n) of
          (Some start, Some finish) \<Rightarrow> Some (finish - start)
        | _ \<Rightarrow> None))"

definition observe_node :: "derivation_node \<Rightarrow> (string, build_duration) bmap \<Rightarrow> (string, build_duration) bmap" where
  "observe_node n m =
    (case node_elapsed n of
       None \<Rightarrow> m
     | Some elapsed \<Rightarrow>
         bm_entry duration_default (dn_name n)
           (\<lambda>d. \<lparr>bd_samples = sat_add (bd_samples d) 1, bd_total_ms = sat_add (bd_total_ms d) elapsed\<rparr>) m)"

definition observe_snapshot :: "forest_snapshot \<Rightarrow> duration_cache \<Rightarrow> duration_cache" where
  "observe_snapshot s c = c\<lparr>dc_durations := fold observe_node (fs_nodes s) (dc_durations c)\<rparr>"

section \<open>Averages\<close>

definition entry_of :: "(string, build_duration) bmap \<Rightarrow> string \<Rightarrow> build_duration" where
  "entry_of m name = opt_default duration_default (map_of m name)"

lemma observe_node_wf: "bm_wf m \<Longrightarrow> bm_wf (observe_node n m)"
  by (simp add: observe_node_def bm_wf_entry split: option.split)

lemma observe_fold_wf: "bm_wf m \<Longrightarrow> bm_wf (fold observe_node ns m)"
  by (induction ns arbitrary: m) (simp_all add: observe_node_wf)

text \<open>Times observed for a name in a list of nodes.\<close>

definition samples_for :: "string \<Rightarrow> derivation_node list \<Rightarrow> nat list" where
  "samples_for name ns = List.map_filter (\<lambda>n. if dn_name n = name then node_elapsed n else None) ns"

lemma samples_for_Cons:
  "samples_for name (n # ns) =
    (case (if dn_name n = name then node_elapsed n else None) of None \<Rightarrow> [] | Some e \<Rightarrow> [e]) @ samples_for name ns"
  by (simp add: samples_for_def map_filter_simps split: option.split)

lemma observe_fold_exact:
  assumes "bd_samples (entry_of m name) + length (samples_for name ns) \<le> U64_MAX"
    and "bd_total_ms (entry_of m name) + sum_list (samples_for name ns) \<le> U64_MAX"
  shows "bd_samples (entry_of (fold observe_node ns m) name) =
      bd_samples (entry_of m name) + length (samples_for name ns)"
    "bd_total_ms (entry_of (fold observe_node ns m) name) =
      bd_total_ms (entry_of m name) + sum_list (samples_for name ns)"
  using assms
proof (induction ns arbitrary: m)
  case Nil
  { case 1 show ?case by (simp add: samples_for_def map_filter_def) }
  { case 2 show ?case by (simp add: samples_for_def map_filter_def) }
next
  case (Cons n ns)
  have other: "dn_name n \<noteq> name \<Longrightarrow> entry_of (observe_node n m) name = entry_of m name" for m
    by (simp add: observe_node_def entry_of_def split: option.split)
  have none: "node_elapsed n = None \<Longrightarrow> observe_node n m = m" for m
    by (simp add: observe_node_def)
  have hit: "node_elapsed n = Some e \<Longrightarrow> dn_name n = name \<Longrightarrow>
      bd_samples (entry_of m name) + 1 \<le> U64_MAX \<Longrightarrow> bd_total_ms (entry_of m name) + e \<le> U64_MAX \<Longrightarrow>
      bd_samples (entry_of (observe_node n m) name) = bd_samples (entry_of m name) + 1 \<and>
      bd_total_ms (entry_of (observe_node n m) name) = bd_total_ms (entry_of m name) + e" for m e
    by (simp add: observe_node_def entry_of_def sat_add_exact)
  { case 1
    show ?case
    proof (cases "dn_name n = name \<and> node_elapsed n \<noteq> None")
      case True
      then obtain e where "node_elapsed n = Some e" "dn_name n = name" by auto
      then show ?thesis using 1 hit [of e m] Cons.IH(1) [of "observe_node n m"]
        by (simp add: samples_for_Cons)
    next
      case False
      then have "samples_for name (n # ns) = samples_for name ns"
        "entry_of (observe_node n m) name = entry_of m name"
        using other none by (auto simp: samples_for_Cons)
      then show ?thesis using 1 Cons.IH(1) [of "observe_node n m"] by simp
    qed }
  { case 2
    show ?case
    proof (cases "dn_name n = name \<and> node_elapsed n \<noteq> None")
      case True
      then obtain e where "node_elapsed n = Some e" "dn_name n = name" by auto
      then show ?thesis using 2 hit [of e m] Cons.IH(2) [of "observe_node n m"]
        by (simp add: samples_for_Cons)
    next
      case False
      then have "samples_for name (n # ns) = samples_for name ns"
        "entry_of (observe_node n m) name = entry_of m name"
        using other none by (auto simp: samples_for_Cons)
      then show ?thesis using 2 Cons.IH(2) [of "observe_node n m"] by simp
    qed }
qed

lemma estimates_lookup:
  assumes "bm_wf (dc_durations c)"
  shows "map_of (estimates_ms c) name =
    (if 0 < bd_samples (entry_of (dc_durations c) name)
     then Some (bd_total_ms (entry_of (dc_durations c) name) div bd_samples (entry_of (dc_durations c) name))
     else None)"
proof -
  have "distinct (map fst m) \<Longrightarrow>
      map_of (map (\<lambda>(name, d). (name, bd_total_ms d div bd_samples d)) (filter (\<lambda>(_, d). 0 < bd_samples d) m)) name =
      (if 0 < bd_samples (entry_of m name)
       then Some (bd_total_ms (entry_of m name) div bd_samples (entry_of m name)) else None)" for m
  proof (induction m)
    case (Cons e m)
    obtain k d where e: "e = (k, d)" by (cases e)
    have "k \<notin> fst ` set m" using Cons.prems e by simp
    then have "k = name \<Longrightarrow> map_of m name = None" by (simp add: map_of_eq_None_iff)
    then show ?case using Cons e by (auto simp: entry_of_def duration_default_def)
  qed (simp add: entry_of_def duration_default_def)
  then show ?thesis using assms bm_wf_distinct [of "dc_durations c"]
    by (simp add: estimates_ms_def bm_keys_def)
qed

text \<open>Observing a snapshot into an empty history predicts the average of its successful builds.\<close>

lemma observe_predicts_average:
  fixes s :: forest_snapshot
  defines "ts \<equiv> \<lambda>name. samples_for name (fs_nodes s)"
  assumes "length (ts name) \<le> U64_MAX" and "sum_list (ts name) \<le> U64_MAX"
  shows "map_of (estimates_ms (observe_snapshot s cache_default)) name =
    (if ts name = [] then None else Some (sum_list (ts name) div length (ts name)))"
proof -
  let ?c = "observe_snapshot s cache_default"
  have zero: "entry_of [] name = \<lparr>bd_samples = 0, bd_total_ms = 0\<rparr>"
    by (simp add: entry_of_def duration_default_def)
  have "bd_samples (entry_of (dc_durations ?c) name) = length (ts name)"
    "bd_total_ms (entry_of (dc_durations ?c) name) = sum_list (ts name)"
    using observe_fold_exact [of "[]" name "fs_nodes s"] assms(2,3)
    by (simp_all add: observe_snapshot_def cache_default_def ts_def zero)
  moreover have "bm_wf (dc_durations ?c)"
    by (simp add: observe_snapshot_def cache_default_def observe_fold_wf)
  ultimately show ?thesis by (simp add: estimates_lookup)
qed

section \<open>Saving\<close>

interpretation duration_file: atomic_file
  "replace_ops (with_extension ''json.tmp'' DURATION_CACHE_FILE) DURATION_CACHE_FILE"
  "\<lambda>dir. map_of dir DURATION_CACHE_FILE"
  by (rule replace_atomic) (simp add: with_extension_def DURATION_CACHE_FILE_def rsplit_once_def)

lemma cache_load_body:
  assumes "dec body = Inr c" and "dc_version c = CACHE_VERSION" and "map_of dir name = Some body"
  shows "cache_load dec (cache_bytes dir name) = Inr c"
  using assms by (simp add: cache_load_def cache_bytes_def)

lemma cache_load_same:
  "map_of dir name = map_of dir' name \<Longrightarrow> cache_load dec (cache_bytes dir name) = cache_load dec (cache_bytes dir' name)"
  by (simp add: cache_bytes_def)

section \<open>Properties\<close>

text \<open>The history predicts, for each derivation name, the rounded-down mean of the times of that
  name's successful builds in the snapshots observed so far, and nothing for a name it never saw.
  Failed, unfinished and zero-length builds do not count.\<close>

lemma history_predicts_mean:
  fixes s :: forest_snapshot
  assumes "length (samples_for name (fs_nodes s)) \<le> U64_MAX"
    and "sum_list (samples_for name (fs_nodes s)) \<le> U64_MAX"
  shows "map_of (estimates_ms (observe_snapshot s cache_default)) name =
    (if samples_for name (fs_nodes s) = [] then None
     else Some (sum_list (samples_for name (fs_nodes s)) div length (samples_for name (fs_nodes s))))"
  using observe_predicts_average [OF assms] .

text \<open>Saving the history replaces the cache file atomically: while the writer runs, and whenever
  it is killed, loading gives what it gave before or the saved history, and after a complete save
  the saved history. The encoder and decoder of \<^verbatim>\<open>serde_json\<close> are assumed to agree on it.\<close>

lemma history_save_is_atomic:
  assumes "cache_save_ops ser DURATION_CACHE_FILE c = Inr ops" and "dc_version c = CACHE_VERSION"
    and "\<And>bytes. ser c = Inr bytes \<Longrightarrow> dec (bytes @ [CHR 0x0A]) = Inr c"
    and "crash_state ops dir dir'"
  shows "cache_load dec (cache_bytes dir' DURATION_CACHE_FILE) \<in>
      {cache_load dec (cache_bytes dir DURATION_CACHE_FILE), Inr c} \<and>
    cache_load dec (cache_bytes (fs_run ops dir) DURATION_CACHE_FILE) = Inr c"
proof -
  obtain bytes where ser: "ser c = Inr bytes" and ops: "ops = replace_ops
      (with_extension ''json.tmp'' DURATION_CACHE_FILE) DURATION_CACHE_FILE (bytes @ [CHR 0x0A])"
    using assms(1) by (auto simp: cache_save_ops_def split: sum.splits)
  have load: "map_of d DURATION_CACHE_FILE = Some (bytes @ [CHR 0x0A]) \<Longrightarrow>
      cache_load dec (cache_bytes d DURATION_CACHE_FILE) = Inr c" for d
    using assms(3) [OF ser] assms(2) by (rule cache_load_body)
  have "cache_load dec (cache_bytes (fs_run ops dir) DURATION_CACHE_FILE) = Inr c"
    using duration_file.complete unfolding ops by (intro load)
  moreover have "cache_load dec (cache_bytes dir' DURATION_CACHE_FILE) \<in>
      {cache_load dec (cache_bytes dir DURATION_CACHE_FILE), Inr c}"
    using duration_file.crash [OF assms(4) [unfolded ops]] load cache_load_same by blast
  ultimately show ?thesis by simp
qed

end
