(* ===== verification/Inventory.thy ===== *)
theory Inventory
  imports Json
begin

text \<open>The fleet inventory (\<^verbatim>\<open>crates/mandala-core/src/inventory.rs\<close>): validation of the evaluated
  aggregate and the selector algebra every fan-out uses. The rendering of a JSON value as text
  and the message of a failed typed decode belong to \<^verbatim>\<open>serde_json\<close> and are the arguments
  \<open>render\<close> and \<open>serde_err\<close>; which values decode is modelled here. The locale states what the
  engines and the tool server rely on when they turn a selector into a member list.\<close>

section \<open>Data\<close>

definition SUPPORTED_SCHEMA_VERSION :: nat where
  "SUPPORTED_SCHEMA_VERSION = 1"

text \<open>\<^verbatim>\<open>str::eq_ignore_ascii_case\<close>.\<close>

definition eq_ignore_ascii_case :: "string \<Rightarrow> string \<Rightarrow> bool" where
  "eq_ignore_ascii_case a b \<longleftrightarrow> map to_ascii_lower a = map to_ascii_lower b"

definition is_valid_member_name :: "string \<Rightarrow> bool" where
  "is_valid_member_name name \<longleftrightarrow>
    1 \<le> length name \<and> length name \<le> 63 \<and>
    (case name of [] \<Rightarrow> False | c # _ \<Rightarrow> is_ascii_alnum c) \<and>
    name \<noteq> [] \<and> is_ascii_alnum (last name) \<and>
    list_all (\<lambda>b. is_ascii_alnum b \<or> b = CHR ''-'') name \<and>
    \<not> eq_ignore_ascii_case name ''all''"

datatype inventory_error =
    UnsupportedSchema string nat
  | MalformedAggregate string
  | EvalFailed string
  | EmptySelector
  | ResolvesToNothing string
  | NoSuchGroup string "string list"
  | NoSuchMember string

fun show_inventory_error :: "inventory_error \<Rightarrow> string" where
  "show_inventory_error (UnsupportedSchema found supported) =
    ''aggregate schemaVersion '' @ found @ '' unsupported (this CLI understands '' @ show_nat supported @ '')''"
| "show_inventory_error (MalformedAggregate msg) = ''malformed aggregate: '' @ msg"
| "show_inventory_error (EvalFailed msg) = ''evaluating aggregate failed: '' @ msg"
| "show_inventory_error EmptySelector = ''empty selector''"
| "show_inventory_error (ResolvesToNothing selector) = ''selector resolves to no members: '' @ selector"
| "show_inventory_error (NoSuchGroup grp available) =
    (if available = [] then ''no such group: '' @ grp @ '' (no groups defined)''
     else ''no such group: '' @ grp @ '' (available: '' @ join '', '' available @ '')'')"
| "show_inventory_error (NoSuchMember m) = ''no such member: '' @ m"

type_synonym member = "(string, json) bmap"

definition json_truthy :: "json \<Rightarrow> bool" where
  "json_truthy v =
    (case v of
       JNull \<Rightarrow> False
     | JBool b \<Rightarrow> b
     | JNum (PosInt n) \<Rightarrow> n \<noteq> 0
     | JNum (NegInt i) \<Rightarrow> i \<noteq> 0
     | JNum (JFloat x) \<Rightarrow> x \<noteq> 0
     | JStr s \<Rightarrow> s \<noteq> []
     | JArr a \<Rightarrow> a \<noteq> []
     | JObj m \<Rightarrow> m \<noteq> [])"

definition surface_flag :: "member \<Rightarrow> string \<Rightarrow> string \<Rightarrow> bool" where
  "surface_flag m key field =
    (case Option.bind (Option.bind (map_of m ''deployment'') (json_get key)) (json_get field) of
       None \<Rightarrow> False
     | Some v \<Rightarrow> json_truthy v)"

definition surfaces :: "member \<Rightarrow> string" where
  "surfaces m =
    [if surface_flag m ''ansible'' ''enable'' then CHR ''a'' else CHR ''-'',
     if surface_flag m ''deployRs'' ''enable'' then CHR ''d'' else CHR ''-'',
     if surface_flag m ''sops'' ''recipient'' then CHR ''s'' else CHR ''-'']"

definition COMPACT_KEEP :: "string list" where
  "COMPACT_KEEP = [''platform'', ''architecture'', ''category'', ''role'', ''tags'']"

definition compact :: "member \<Rightarrow> member" where
  "compact m =
    bm_insert ''surfaces'' (JStr (surfaces m))
      (fold (\<lambda>key out. case map_of m key of None \<Rightarrow> out | Some v \<Rightarrow> bm_insert key v out) COMPACT_KEEP [])"

record aggregate =
  ag_schema_version :: json
  ag_members :: "(string, member) bmap"
  ag_groups :: "(string, string list) bmap"
  ag_extra :: "(string, json) bmap"

record inventory =
  iv_aggregate :: aggregate
  iv_controller_platform :: "string option"

section \<open>Validation\<close>

text \<open>The derived decode of the envelope: members are objects, groups are lists of strings, and the
  remaining top-level keys are kept.\<close>

fun all_some :: "('a \<times> 'b option) list \<Rightarrow> ('a \<times> 'b) list option" where
  "all_some [] = Some []"
| "all_some ((k, v) # xs) =
    (case (v, all_some xs) of (Some b, Some ys) \<Rightarrow> Some ((k, b) # ys) | _ \<Rightarrow> None)"

definition strings_of :: "json list \<Rightarrow> string list option" where
  "strings_of xs = map_option (map snd) (all_some (map (\<lambda>x. ((), as_str x)) xs))"

lemma strings_of_strs: "strings_of (map JStr xs) = Some xs"
proof -
  have "all_some (map (\<lambda>x. ((), as_str (JStr x))) xs) = Some (map (\<lambda>x. ((), x)) xs)" by (induction xs) auto
  then show ?thesis by (simp add: strings_of_def comp_def)
qed

definition aggregate_of_json :: "json \<Rightarrow> aggregate option" where
  "aggregate_of_json v =
    (case v of
       JObj m \<Rightarrow>
         (case (map_of m ''schemaVersion'',
                Option.bind (Option.bind (map_of m ''members'') as_object)
                  (\<lambda>ms. all_some (map (\<lambda>(k, x). (k, as_object x)) ms)),
                Option.bind (Option.bind (map_of m ''groups'') as_object)
                  (\<lambda>gs. all_some (map (\<lambda>(k, x). (k, Option.bind (as_array x) strings_of)) gs))) of
            (Some version, Some members, Some groups) \<Rightarrow>
              Some \<lparr>ag_schema_version = version, ag_members = bm_of_list members,
                    ag_groups = bm_of_list groups,
                    ag_extra = filter (\<lambda>e. fst e \<notin> {''schemaVersion'', ''members'', ''groups''}) m\<rparr>
          | _ \<Rightarrow> None)
     | _ \<Rightarrow> None)"

text \<open>\<^verbatim>\<open>{:?}\<close> on a string. Control characters outside ASCII are left as they are.\<close>

definition debug_char :: "char \<Rightarrow> string" where
  "debug_char c =
    (if c = CHR 0x22 then [CHR 0x5C, CHR 0x22]
     else if c = CHR 0x5C then [CHR 0x5C, CHR 0x5C]
     else if c = CHR 0x0A then [CHR 0x5C, CHR ''n'']
     else if c = CHR 0x0D then [CHR 0x5C, CHR ''r'']
     else if c = CHR 0x09 then [CHR 0x5C, CHR ''t'']
     else if c = CHR 0x00 then [CHR 0x5C, CHR ''0'']
     else if byte c < 32 \<or> byte c = 127 then
       [CHR 0x5C, CHR ''u'', CHR 0x7B] @
       (if byte c < 16 then [hex_digit (byte c)] else [hex_digit (byte c div 16), hex_digit (byte c mod 16)]) @
       [CHR 0x7D]
     else [c])"

definition str_debug :: "string \<Rightarrow> string" where
  "str_debug s = CHR 0x22 # concat (map debug_char s) @ [CHR 0x22]"

definition schema_display :: "(json \<Rightarrow> string) \<Rightarrow> json option \<Rightarrow> string" where
  "schema_display render found =
    (case found of
       None \<Rightarrow> ''None''
     | Some JNull \<Rightarrow> ''None''
     | Some (JStr s) \<Rightarrow> s
     | Some other \<Rightarrow> render other)"

definition check_member :: "string \<times> member \<Rightarrow> (inventory_error, unit) result" where
  "check_member e =
    (case e of (key, m) \<Rightarrow>
       if \<not> is_valid_member_name key then
         Inl (MalformedAggregate (''member key '' @ str_debug key @ '' is not a bare RFC 1123 hostname''))
       else (case Option.bind (map_of m ''name'') as_str of
           Some name \<Rightarrow>
             if name = key then Inr ()
             else Inl (MalformedAggregate (''member key '' @ str_debug key
               @ '' does not match host.name '' @ str_debug name))
         | None \<Rightarrow> Inl (MalformedAggregate (''member '' @ str_debug key @ '' has no string host.name''))))"

fun check_group_members ::
  "(string, member) bmap \<Rightarrow> string \<Rightarrow> string list \<Rightarrow> (inventory_error, unit) result" where
  "check_group_members members grp [] = Inr ()"
| "check_group_members members grp (m # ms) =
    (if bm_contains members m then check_group_members members grp ms
     else Inl (MalformedAggregate (''group '' @ str_debug grp @ '' references unknown member '' @ str_debug m)))"

definition check_group ::
  "(string, member) bmap \<Rightarrow> string \<times> string list \<Rightarrow> (inventory_error, unit) result" where
  "check_group members e =
    (case e of (grp, ms) \<Rightarrow>
       if eq_ignore_ascii_case grp ''all''
       then Inl (MalformedAggregate (''group '' @ str_debug grp @ '' is a reserved selector token''))
       else check_group_members members grp ms)"

fun try_all :: "('a \<Rightarrow> ('e, unit) result) \<Rightarrow> 'a list \<Rightarrow> ('e, unit) result" where
  "try_all f [] = Inr ()"
| "try_all f (x # xs) = (case f x of Inl e \<Rightarrow> Inl e | Inr _ \<Rightarrow> try_all f xs)"

definition projection_of :: "aggregate \<Rightarrow> string \<Rightarrow> json option" where
  "projection_of a key = Option.bind (map_of (ag_extra a) ''projections'') (json_get key)"

definition select_controller ::
  "aggregate \<Rightarrow> string \<Rightarrow> (inventory_error, string option) result" where
  "select_controller a os =
    (case projection_of a ''byControllerPlatform'' of
       None \<Rightarrow> Inr None
     | Some platforms \<Rightarrow>
         if os \<notin> {''macos'', ''darwin'', ''linux''} then
           Inl (MalformedAggregate (''controller OS '' @ str_debug os
             @ '' is unsupported by configured controllerSettings''))
         else
           let platform = (if os = ''linux'' then ''linux'' else ''darwin'') in
           if as_object platforms = None then
             Inl (MalformedAggregate ''projections.byControllerPlatform must be an object'')
           else (case json_get platform platforms of
               None \<Rightarrow> Inl (MalformedAggregate (''controllerSettings has no projection for controller platform ''
                 @ str_debug platform))
             | Some selected \<Rightarrow>
                 if Option.bind (Option.bind (json_get ''deploy'' selected) (json_get ''settings'')) as_object = None then
                   Inl (MalformedAggregate (''controller projection '' @ str_debug platform
                     @ '' has no deploy.settings object''))
                 else if projection_of a ''ansibleInventory'' \<noteq> None \<and>
                     Option.bind (json_get ''ansibleInventory'' selected) as_object = None then
                   Inl (MalformedAggregate (''controller projection '' @ str_debug platform
                     @ '' has no ansibleInventory object''))
                 else Inr (Some platform)))"

definition from_value_for_controller ::
  "(json \<Rightarrow> string) \<Rightarrow> (json \<Rightarrow> string) \<Rightarrow> json \<Rightarrow> string \<Rightarrow> (inventory_error, inventory) result" where
  "from_value_for_controller render serde_err value os =
    (let found = json_get ''schemaVersion'' value in
     if Option.bind found as_u64 \<noteq> Some SUPPORTED_SCHEMA_VERSION then
       Inl (UnsupportedSchema (schema_display render found) SUPPORTED_SCHEMA_VERSION)
     else (case aggregate_of_json value of
         None \<Rightarrow> Inl (MalformedAggregate (serde_err value))
       | Some a \<Rightarrow>
           (case try_all check_member (ag_members a) of
              Inl e \<Rightarrow> Inl e
            | Inr _ \<Rightarrow>
                (case try_all (check_group (ag_members a)) (ag_groups a) of
                   Inl e \<Rightarrow> Inl e
                 | Inr _ \<Rightarrow>
                     (case select_controller a os of
                        Inl e \<Rightarrow> Inl e
                      | Inr platform \<Rightarrow>
                          Inr \<lparr>iv_aggregate = a, iv_controller_platform = platform\<rparr>)))))"

definition members :: "inventory \<Rightarrow> (string, member) bmap" where
  "members iv = ag_members (iv_aggregate iv)"

definition groups :: "inventory \<Rightarrow> (string, string list) bmap" where
  "groups iv = ag_groups (iv_aggregate iv)"

section \<open>The selector algebra\<close>

definition resolve_part :: "inventory \<Rightarrow> string \<Rightarrow> (inventory_error, string list) result" where
  "resolve_part iv part =
    (if part = ''all'' \<or> part = ''@all'' then Inr (bm_keys (members iv))
     else (case strip_prefix ''@'' part of
         Some grp \<Rightarrow>
           (case map_of (groups iv) grp of
              Some ms \<Rightarrow> Inr ms
            | None \<Rightarrow> Inl (NoSuchGroup grp (bm_keys (groups iv))))
       | None \<Rightarrow>
           if bm_contains (members iv) part then Inr [part] else Inl (NoSuchMember part)))"

definition selector_parts :: "string \<Rightarrow> string list" where
  "selector_parts selector =
    map trim (split_on (CHR '','') (map (\<lambda>c. if c = CHR '':'' then CHR '','' else c) selector))"

text \<open>One pass over the parts: the included set, the excluded set, and whether a part included.\<close>

fun resolve_parts ::
  "inventory \<Rightarrow> string list \<Rightarrow> string bset \<times> string bset \<times> bool \<Rightarrow>
    (inventory_error, string bset \<times> string bset \<times> bool) result" where
  "resolve_parts iv [] st = Inr st"
| "resolve_parts iv (part # parts) (include, exclude, saw) =
    (if part = [] then resolve_parts iv parts (include, exclude, saw)
     else (case strip_prefix ''!'' part of
         Some atom \<Rightarrow>
           (case resolve_part iv atom of
              Inl e \<Rightarrow> Inl e
            | Inr ms \<Rightarrow> resolve_parts iv parts (include, bs_extend ms exclude, saw))
       | None \<Rightarrow>
           (case resolve_part iv part of
              Inl e \<Rightarrow> Inl e
            | Inr ms \<Rightarrow> resolve_parts iv parts (bs_extend ms include, exclude, True))))"

definition resolve :: "inventory \<Rightarrow> string \<Rightarrow> (inventory_error, string list) result" where
  "resolve iv selector =
    (case resolve_parts iv (selector_parts selector) ([], [], False) of
       Inl e \<Rightarrow> Inl e
     | Inr (include, exclude, saw) \<Rightarrow>
         if \<not> saw \<and> exclude = [] then Inl EmptySelector
         else
           let include = (if saw then include else bm_keys (members iv));
               resolved = filter (\<lambda>m. m \<notin> set exclude) include
           in if resolved = [] then Inl (ResolvesToNothing selector) else Inr resolved)"

definition to_limit :: "inventory \<Rightarrow> string \<Rightarrow> (inventory_error, string) result" where
  "to_limit iv selector =
    (case resolve iv selector of Inl e \<Rightarrow> Inl e | Inr ms \<Rightarrow> Inr (join '','' ms))"

section \<open>Projections\<close>

definition projections :: "inventory \<Rightarrow> json option" where
  "projections iv = map_of (ag_extra (iv_aggregate iv)) ''projections''"

definition deploy_nodes :: "inventory \<Rightarrow> string list" where
  "deploy_nodes iv =
    (case Option.bind (Option.bind (Option.bind (projections iv) (json_get ''deploy'')) (json_get ''nodes''))
       as_array of
       None \<Rightarrow> []
     | Some arr \<Rightarrow> List.map_filter as_str arr)"

definition connection_projections :: "inventory \<Rightarrow> json option" where
  "connection_projections iv =
    Option.bind (projections iv) (\<lambda>p.
      case iv_controller_platform iv of
        Some platform \<Rightarrow> Option.bind (json_get ''byControllerPlatform'' p) (json_get platform)
      | None \<Rightarrow> Some p)"

definition deploy_settings :: "inventory \<Rightarrow> (string, json) bmap option" where
  "deploy_settings iv =
    Option.bind (Option.bind (Option.bind (connection_projections iv) (json_get ''deploy''))
      (json_get ''settings'')) as_object"

definition ansible_inventory :: "inventory \<Rightarrow> json option" where
  "ansible_inventory iv = Option.bind (connection_projections iv) (json_get ''ansibleInventory'')"

section \<open>What validation establishes\<close>

definition inventory_ok :: "inventory \<Rightarrow> bool" where
  "inventory_ok iv \<longleftrightarrow>
    bm_wf (members iv) \<and> bm_wf (groups iv) \<and>
    (\<forall>k\<in>set (bm_keys (members iv)). is_valid_member_name k) \<and>
    (\<forall>k m. map_of (members iv) k = Some m \<longrightarrow> Option.bind (map_of m ''name'') as_str = Some k) \<and>
    (\<forall>g ms. map_of (groups iv) g = Some ms \<longrightarrow>
      \<not> eq_ignore_ascii_case g ''all'' \<and> set ms \<subseteq> set (bm_keys (members iv)))"

lemma try_all_ok: "try_all f xs = Inr u \<Longrightarrow> x \<in> set xs \<Longrightarrow> f x = Inr ()"
  by (induction xs) (auto split: sum.splits)

lemma check_member_ok:
  "check_member (k, m) = Inr () \<Longrightarrow>
    is_valid_member_name k \<and> Option.bind (map_of m ''name'') as_str = Some k"
  by (simp add: check_member_def split: if_splits option.splits)

lemma check_group_members_ok:
  "check_group_members ms g xs = Inr () \<Longrightarrow> set xs \<subseteq> set (bm_keys ms)"
  by (induction xs) (auto simp: bm_contains_def bm_keys_def map_of_eq_None_iff split: if_splits)

lemma check_group_ok:
  "check_group ms (g, xs) = Inr () \<Longrightarrow>
    \<not> eq_ignore_ascii_case g ''all'' \<and> set xs \<subseteq> set (bm_keys ms)"
  by (simp add: check_group_def check_group_members_ok split: if_splits)

lemma aggregate_of_json_wf:
  "aggregate_of_json v = Some a \<Longrightarrow> bm_wf (ag_members a) \<and> bm_wf (ag_groups a)"
  by (auto simp: aggregate_of_json_def bm_wf_of_list split: json.splits option.splits prod.splits)

lemma from_value_ok:
  assumes "from_value_for_controller render serde_err value os = Inr iv"
  shows "inventory_ok iv"
proof -
  obtain a p where a: "aggregate_of_json value = Some a"
    and m: "try_all check_member (ag_members a) = Inr ()"
    and g: "try_all (check_group (ag_members a)) (ag_groups a) = Inr ()"
    and iv: "iv = \<lparr>iv_aggregate = a, iv_controller_platform = p\<rparr>"
    using assms by (auto simp: from_value_for_controller_def Let_def split: if_splits option.splits sum.splits)
  have mem: "is_valid_member_name k \<and> Option.bind (map_of x ''name'') as_str = Some k"
    if "(k, x) \<in> set (ag_members a)" for k x
    using try_all_ok [OF m that] check_member_ok by blast
  have grp: "\<not> eq_ignore_ascii_case k ''all'' \<and> set x \<subseteq> set (bm_keys (ag_members a))"
    if "(k, x) \<in> set (ag_groups a)" for k x
    using try_all_ok [OF g that] check_group_ok by blast
  show ?thesis
    using aggregate_of_json_wf [OF a] mem grp
    by (auto simp: inventory_ok_def members_def groups_def iv bm_keys_def dest!: map_of_SomeD) blast
qed

lemma select_controller_ok:
  assumes "select_controller a os = Inr r" and pl: "projection_of a ''byControllerPlatform'' = Some pl"
  shows "\<exists>p x s. r = Some p \<and> p \<in> {''darwin'', ''linux''} \<and> json_get p pl = Some x \<and>
    Option.bind (Option.bind (json_get ''deploy'' x) (json_get ''settings'')) as_object = Some s"
proof -
  define p where "p = (if os = ''linux'' then ''linux'' else ''darwin'')"
  obtain x where x: "json_get p pl = Some x"
    using assms unfolding select_controller_def Let_def p_def [symmetric]
    by (cases "json_get p pl") (simp_all split: if_splits)
  have "r = Some p \<and> Option.bind (Option.bind (json_get ''deploy'' x) (json_get ''settings'')) as_object \<noteq> None"
    using assms x unfolding select_controller_def Let_def p_def [symmetric]
    by (simp split: if_splits)
  moreover have "p \<in> {''darwin'', ''linux''}" by (simp add: p_def)
  ultimately show ?thesis using x by blast
qed

text \<open>A configured controller map is never bypassed: with one, an accepted inventory reads its deploy
  settings from the projection of the running controller's platform.\<close>

lemma from_value_controller:
  assumes "from_value_for_controller render serde_err value os = Inr iv"
    and "projection_of (iv_aggregate iv) ''byControllerPlatform'' \<noteq> None"
  shows "\<exists>p s. iv_controller_platform iv = Some p \<and> p \<in> {''darwin'', ''linux''} \<and>
    deploy_settings iv = Some s"
proof -
  let ?a = "iv_aggregate iv"
  have sel: "select_controller ?a os = Inr (iv_controller_platform iv)"
    using assms(1)
    by (auto simp: from_value_for_controller_def Let_def split: if_splits option.splits sum.splits)
  obtain pl where pl: "projection_of ?a ''byControllerPlatform'' = Some pl" using assms(2) by blast
  obtain p x s where p: "iv_controller_platform iv = Some p" "p \<in> {''darwin'', ''linux''}"
      "json_get p pl = Some x"
      "Option.bind (Option.bind (json_get ''deploy'' x) (json_get ''settings'')) as_object = Some s"
    using select_controller_ok [OF sel pl] by blast
  have "connection_projections iv = Some x"
    using pl p(1,3) by (auto simp: connection_projections_def projections_def projection_of_def
        split: Option.bind_splits)
  then have "deploy_settings iv = Some s"
    using p(4) by (simp add: deploy_settings_def)
  then show ?thesis using p by blast
qed

section \<open>What a selector means\<close>

definition atom_denotes :: "inventory \<Rightarrow> string \<Rightarrow> string set" where
  "atom_denotes iv atom =
    (if atom = ''all'' \<or> atom = ''@all'' then set (bm_keys (members iv))
     else (case strip_prefix ''@'' atom of
         Some g \<Rightarrow> (case map_of (groups iv) g of None \<Rightarrow> {} | Some ms \<Rightarrow> set ms)
       | None \<Rightarrow> {atom} \<inter> set (bm_keys (members iv))))"

definition include_atoms :: "string list \<Rightarrow> string list" where
  "include_atoms ps = filter (\<lambda>p. p \<noteq> [] \<and> strip_prefix ''!'' p = None) ps"

definition exclude_atoms :: "string list \<Rightarrow> string list" where
  "exclude_atoms ps = List.map_filter (strip_prefix ''!'') ps"

definition selected :: "inventory \<Rightarrow> string \<Rightarrow> string set" where
  "selected iv selector =
    (let ps = selector_parts selector;
         base = (if include_atoms ps = [] then set (bm_keys (members iv))
                 else \<Union> (atom_denotes iv ` set (include_atoms ps)))
     in base - \<Union> (atom_denotes iv ` set (exclude_atoms ps)))"

lemma resolve_part_denotes: "resolve_part iv atom = Inr ms \<Longrightarrow> set ms = atom_denotes iv atom"
  by (auto simp: resolve_part_def atom_denotes_def bm_contains_keys split: if_splits option.splits)

lemma resolve_parts_denotes:
  "resolve_parts iv ps (i, e, s) = Inr (i', e', s') \<Longrightarrow>
    set i' = set i \<union> \<Union> (atom_denotes iv ` set (include_atoms ps)) \<and>
    set e' = set e \<union> \<Union> (atom_denotes iv ` set (exclude_atoms ps)) \<and>
    (s' \<longleftrightarrow> s \<or> include_atoms ps \<noteq> []) \<and> (bs_wf i \<longrightarrow> bs_wf i')"
proof (induction iv ps "(i, e, s)" arbitrary: i e s rule: resolve_parts.induct)
  case (1 iv)
  then show ?case by (simp add: include_atoms_def exclude_atoms_def map_filter_simps)
next
  case (2 iv p ps i e s)
  show ?case
  proof (cases "p = []")
    case True
    have "include_atoms (p # ps) = include_atoms ps" "exclude_atoms (p # ps) = exclude_atoms ps"
      using True by (simp_all add: include_atoms_def exclude_atoms_def map_filter_simps)
    then show ?thesis using 2(1) [OF True] 2(4) True by simp
  next
    case False
    show ?thesis
    proof (cases "strip_prefix ''!'' p")
      case None
      have at: "include_atoms (p # ps) = p # include_atoms ps" "exclude_atoms (p # ps) = exclude_atoms ps"
        using False None by (simp_all add: include_atoms_def exclude_atoms_def map_filter_simps)
      obtain ms where ms: "resolve_part iv p = Inr ms"
        using 2(4) False None by (auto split: sum.splits)
      have "resolve_parts iv ps (bs_extend ms i, e, True) = Inr (i', e', s')"
        using 2(4) False None ms by simp
      from 2(2) [OF False None ms this] show ?thesis
        unfolding at using resolve_part_denotes [OF ms] bs_wf_extend by auto
    next
      case (Some atom)
      have at: "include_atoms (p # ps) = include_atoms ps" "exclude_atoms (p # ps) = atom # exclude_atoms ps"
        using Some by (simp_all add: include_atoms_def exclude_atoms_def map_filter_simps del: strip_prefix_Some)
      obtain ms where ms: "resolve_part iv atom = Inr ms"
        using 2(4) False Some by (auto split: sum.splits simp del: strip_prefix_Some)
      have "resolve_parts iv ps (i, bs_extend ms e, s) = Inr (i', e', s')"
        using 2(4) False Some ms by (simp del: strip_prefix_Some)
      from 2(3) [OF False Some ms this] show ?thesis
        unfolding at using resolve_part_denotes [OF ms] by auto
    qed
  qed
qed

lemma atom_denotes_members: "inventory_ok iv \<Longrightarrow> atom_denotes iv atom \<subseteq> set (bm_keys (members iv))"
  by (auto simp: atom_denotes_def inventory_ok_def split: option.split)

lemma resolve_selected:
  assumes "bm_wf (members iv)" and "resolve iv selector = Inr ms"
  shows "set ms = selected iv selector \<and> ms \<noteq> [] \<and> bs_wf ms"
proof -
  obtain i e s where r: "resolve_parts iv (selector_parts selector) ([], [], False) = Inr (i, e, s)"
    using assms(2) by (auto simp: resolve_def split: sum.splits)
  note d = resolve_parts_denotes [OF r]
  have ms: "ms = filter (\<lambda>m. m \<notin> set e) (if s then i else bm_keys (members iv))" "ms \<noteq> []"
    using assms(2) r by (auto simp: resolve_def Let_def split: if_splits)
  have "bs_wf (if s then i else bm_keys (members iv))"
    using d assms(1) bs_wf_keys [of "members iv"] by (simp add: bm_keys_def)
  then have "bs_wf ms" unfolding ms(1) by (rule bs_wf_filter)
  moreover have "set ms = selected iv selector"
    unfolding ms(1) selected_def Let_def using d by auto
  ultimately show ?thesis using ms(2) by blast
qed

text \<open>An atom that names nothing refuses the whole selector, wherever it stands.\<close>

lemma resolve_parts_accepts:
  "is_ok (resolve_parts iv ps st) \<longleftrightarrow>
    (\<forall>a\<in>set (include_atoms ps) \<union> set (exclude_atoms ps). is_ok (resolve_part iv a))"
proof (induction iv ps st rule: resolve_parts.induct)
  case (1 iv st)
  then show ?case by (simp add: include_atoms_def exclude_atoms_def map_filter_simps)
next
  case (2 iv p ps i e s)
  show ?case
  proof (cases "p = []")
    case True
    have "include_atoms (p # ps) = include_atoms ps" "exclude_atoms (p # ps) = exclude_atoms ps"
      using True by (simp_all add: include_atoms_def exclude_atoms_def map_filter_simps)
    then show ?thesis using 2 True by simp
  next
    case False
    show ?thesis
    proof (cases "strip_prefix ''!'' p")
      case None
      then have "include_atoms (p # ps) = p # include_atoms ps" "exclude_atoms (p # ps) = exclude_atoms ps"
        using False by (simp_all add: include_atoms_def exclude_atoms_def map_filter_simps)
      then show ?thesis using 2 False None by (cases "resolve_part iv p") auto
    next
      case (Some atom)
      have "include_atoms (p # ps) = include_atoms ps" "exclude_atoms (p # ps) = atom # exclude_atoms ps"
        using Some by (simp_all add: include_atoms_def exclude_atoms_def map_filter_simps del: strip_prefix_Some)
      then show ?thesis using 2 False Some
        by (cases "resolve_part iv atom") (auto simp del: strip_prefix_Some)
    qed
  qed
qed

abbreviation excluded :: "inventory \<Rightarrow> string \<Rightarrow> string set" where
  "excluded iv selector \<equiv> \<Union> (atom_denotes iv ` set (exclude_atoms (selector_parts selector)))"

lemma resolve_exact:
  assumes wf: "bm_wf (members iv)"
  defines "inc \<equiv> \<lambda>s. include_atoms (selector_parts s)" and "exc \<equiv> \<lambda>s. exclude_atoms (selector_parts s)"
  shows "resolve iv selector = Inr ms \<longleftrightarrow>
    (\<forall>a\<in>set (inc selector) \<union> set (exc selector). is_ok (resolve_part iv a)) \<and>
    (inc selector \<noteq> [] \<or> excluded iv selector \<noteq> {}) \<and>
    ms \<noteq> [] \<and> bs_wf ms \<and> set ms = selected iv selector"
proof (cases "resolve_parts iv (selector_parts selector) ([], [], False)")
  case (Inl e)
  then have "\<not> is_ok (resolve_parts iv (selector_parts selector) ([], [], False))" by simp
  then have "\<not> (\<forall>a\<in>set (inc selector) \<union> set (exc selector). is_ok (resolve_part iv a))"
    using resolve_parts_accepts [of iv "selector_parts selector" "([], [], False)"]
    unfolding inc_def exc_def by blast
  moreover have "resolve iv selector \<noteq> Inr ms" using Inl by (simp add: resolve_def)
  ultimately show ?thesis by blast
next
  case (Inr st)
  obtain i e s where st: "st = (i, e, s)" by (cases st)
  note r = Inr [unfolded st] and d = resolve_parts_denotes [OF Inr [unfolded st]]
  have ok: "\<forall>a\<in>set (inc selector) \<union> set (exc selector). is_ok (resolve_part iv a)"
    using resolve_parts_accepts [of iv "selector_parts selector" "([], [], False)"] r
    unfolding inc_def exc_def by (metis is_ok.simps(2))
  have empty: "e = [] \<longleftrightarrow> excluded iv selector = {}" "s \<longleftrightarrow> inc selector \<noteq> []"
    using d unfolding inc_def by (auto simp del: UN_simps simp flip: set_empty2)
  show ?thesis
  proof (cases "\<not> s \<and> e = []")
    case True
    then have "resolve iv selector = Inl EmptySelector" using r by (simp add: resolve_def)
    then show ?thesis using True empty by auto
  next
    case False
    let ?base = "if s then i else bm_keys (members iv)"
    let ?res = "filter (\<lambda>m. m \<notin> set e) ?base"
    have "bs_wf ?base" using d wf bs_wf_keys [of "members iv"] by (simp add: bm_keys_def)
    then have wf': "bs_wf ?res" by (rule bs_wf_filter)
    have set: "set ?res = selected iv selector"
      unfolding selected_def Let_def using d by auto
    have "resolve iv selector = (if ?res = [] then Inl (ResolvesToNothing selector) else Inr ?res)"
      using r False by (simp add: resolve_def Let_def)
    then show ?thesis
      using bs_ext [OF wf', of ms] wf' set ok False empty by (cases "?res = []") auto
  qed
qed

section \<open>The canonical limit\<close>

definition name_byte :: "char \<Rightarrow> bool" where
  "name_byte c \<longleftrightarrow> is_ascii_alnum c \<or> c = CHR ''-''"

lemma name_byte_plain:
  "name_byte c \<Longrightarrow> is_ascii c \<and> c \<noteq> CHR '','' \<and> c \<noteq> CHR '':'' \<and> \<not> is_whitespace [c]"
  by (auto simp: name_byte_def is_ascii_alnum_def is_ascii_alpha_def is_ascii_lower_def is_ascii_upper_def
      is_ascii_digit_def is_ascii_def is_whitespace_def ws_chars_def byte_def)

lemma alnum_not_marker: "is_ascii_alnum c \<Longrightarrow> c \<noteq> CHR ''!'' \<and> c \<noteq> CHR ''@''"
  by (auto simp: is_ascii_alnum_def is_ascii_alpha_def is_ascii_lower_def is_ascii_upper_def
      is_ascii_digit_def byte_def)

lemma dropWhile_none: "\<forall>x\<in>set xs. \<not> P x \<Longrightarrow> dropWhile P xs = xs"
  by (cases xs) auto

lemma trim_name: "list_all name_byte s \<Longrightarrow> trim s = s"
proof -
  assume s: "list_all name_byte s"
  then have "\<forall>c\<in>set s. is_ascii c" using name_byte_plain unfolding list_all_iff by blast
  then have chars: "utf8_chars s = map (\<lambda>c. [c]) s" by (rule utf8_chars_ascii)
  have "\<forall>c\<in>set (map (\<lambda>c. [c]) s). \<not> is_whitespace c"
    using s name_byte_plain unfolding list_all_iff set_map by blast
  then show ?thesis
    by (simp add: trim_def chars dropWhile_none rev_map)
qed

lemma valid_name_facts:
  assumes "is_valid_member_name m"
  shows "list_all name_byte m" "m \<noteq> []" "m \<noteq> ''all''" "strip_prefix ''!'' m = None" "strip_prefix ''@'' m = None"
proof -
  obtain c cs where m: "m = c # cs" "is_ascii_alnum c"
    using assms by (auto simp: is_valid_member_name_def split: list.splits)
  then show "m \<noteq> []" "strip_prefix ''!'' m = None" "strip_prefix ''@'' m = None"
    using alnum_not_marker by auto
  show "list_all name_byte m" "m \<noteq> ''all''"
    using assms by (auto simp: is_valid_member_name_def name_byte_def eq_ignore_ascii_case_def list_all_iff)
qed

lemma split_on_join:
  "ps \<noteq> [] \<Longrightarrow> (\<forall>p\<in>set ps. c \<notin> set p) \<Longrightarrow> split_on c (join [c] ps) = ps"
proof (induction ps rule: induct_list012)
  case (2 p)
  have "c \<notin> set p \<Longrightarrow> split_on c p = [p]" by (induction p) auto
  with 2 show ?case by simp
next
  case (3 p q ps)
  have "c \<notin> set p \<Longrightarrow> split_on c (p @ c # s) = p # split_on c s" for s by (induction p) auto
  with 3 show ?case by simp
qed simp

lemma set_join_subset: "set (join sep ps) \<subseteq> set sep \<union> \<Union> (set ` set ps)"
  by (induction ps rule: induct_list012) auto

lemma selector_parts_join:
  assumes "ms \<noteq> []" and "\<forall>m\<in>set ms. list_all name_byte m"
  shows "selector_parts (join '','' ms) = ms"
proof -
  have names: "\<forall>m\<in>set ms. \<forall>c\<in>set m. c \<noteq> CHR '','' \<and> c \<noteq> CHR '':''"
    using assms(2) by (metis list_all_iff name_byte_plain)
  have "c \<noteq> CHR '':''" if "c \<in> set (join '','' ms)" for c
  proof -
    have "c \<in> set '','' \<or> (\<exists>m\<in>set ms. c \<in> set m)" using subsetD [OF set_join_subset that] by simp
    then show ?thesis
    proof
      assume "c \<in> set '',''"
      then show ?thesis by simp
    qed (use names in blast)
  qed
  then have "map (\<lambda>c. if c = CHR '':'' then CHR '','' else c) (join '','' ms) = join '','' ms"
    by (intro map_idI) auto
  moreover have "split_on (CHR '','') (join '','' ms) = ms"
    using assms(1) names by (intro split_on_join) auto
  moreover have "map trim ms = ms"
    using assms(2) trim_name by (intro map_idI) auto
  ultimately show ?thesis by (simp add: selector_parts_def)
qed

lemma resolve_parts_names:
  "\<forall>m\<in>set ms. is_valid_member_name m \<and> bm_contains (members iv) m \<Longrightarrow>
    resolve_parts iv ms (i, e, s) = Inr (bs_extend ms i, e, s \<or> ms \<noteq> [])"
proof (induction ms arbitrary: i s)
  case (Cons m ms)
  then have v: "m \<noteq> []" "m \<noteq> ''all''" "m \<noteq> ''@all''" "strip_prefix ''!'' m = None" "strip_prefix ''@'' m = None"
    using valid_name_facts [of m] by auto
  then have "resolve_part iv m = Inr [m]"
    using Cons.prems by (simp add: resolve_part_def)
  with Cons v show ?case by (simp add: bs_extend_def)
qed (simp add: bs_extend_def)

lemma resolve_canonical:
  assumes ok: "inventory_ok iv" and ms: "ms \<noteq> []" "bs_wf ms" "set ms \<subseteq> set (bm_keys (members iv))"
  shows "resolve iv (join '','' ms) = Inr ms"
proof -
  have valid: "\<forall>m\<in>set ms. is_valid_member_name m \<and> bm_contains (members iv) m"
    using ok ms(3) by (auto simp: inventory_ok_def bm_contains_def bm_keys_def map_of_eq_None_iff)
  then have parts: "selector_parts (join '','' ms) = ms"
    using ms(1) valid_name_facts(1) by (intro selector_parts_join) auto
  have "bs_extend ms [] = ms"
    using ms(2) by (intro bs_ext bs_wf_extend) simp_all
  then have "resolve_parts iv ms ([], [], False) = Inr (ms, [], True)"
    using resolve_parts_names [OF valid, of "[]" "[]" False] ms(1) by simp
  then show ?thesis using ms(1) by (simp add: resolve_def parts)
qed

section \<open>The contract of a selector resolver\<close>

text \<open>What a fan-out relies on: a selection is never empty, sorted, and names members only; joining
  it gives a selector for exactly the same set.\<close>

locale selector_resolver =
  fixes valid :: "'inv \<Rightarrow> bool"
    and expand :: "'inv \<Rightarrow> string \<Rightarrow> ('e, string list) result"
    and names :: "'inv \<Rightarrow> string set"
  assumes expand_nonempty: "valid i \<Longrightarrow> expand i sel = Inr ms \<Longrightarrow> ms \<noteq> []"
    and expand_sorted: "valid i \<Longrightarrow> expand i sel = Inr ms \<Longrightarrow> bs_wf ms"
    and expand_members: "valid i \<Longrightarrow> expand i sel = Inr ms \<Longrightarrow> set ms \<subseteq> names i"
    and expand_join: "valid i \<Longrightarrow> ms \<noteq> [] \<Longrightarrow> bs_wf ms \<Longrightarrow> set ms \<subseteq> names i \<Longrightarrow>
      expand i (join '','' ms) = Inr ms"
begin

lemma expand_distinct: "valid i \<Longrightarrow> expand i sel = Inr ms \<Longrightarrow> distinct ms"
  using expand_sorted bs_wf_distinct by blast

text \<open>The comma-joined selection is a canonical token: it expands to itself, and two selectors with the
  same token select the same members.\<close>

lemma limit_fixed: "valid i \<Longrightarrow> expand i sel = Inr ms \<Longrightarrow> expand i (join '','' ms) = Inr ms"
  using expand_nonempty expand_sorted expand_members by (intro expand_join)

lemma limit_injective:
  "valid i \<Longrightarrow> expand i a = Inr x \<Longrightarrow> expand i b = Inr y \<Longrightarrow>
    join '','' x = join '','' y \<longleftrightarrow> set x = set y"
  by (metis limit_fixed expand_sorted bs_ext sum.inject(2))

end

interpretation inv_sel: selector_resolver inventory_ok resolve "\<lambda>iv. set (bm_keys (members iv))"
proof unfold_locales
  fix iv sel ms
  assume ok: "inventory_ok iv" and r: "resolve iv sel = Inr ms"
  then have "bm_wf (members iv)" by (simp add: inventory_ok_def)
  note s = resolve_selected [OF this r]
  show "ms \<noteq> []" "bs_wf ms" using s by blast+
  have "selected iv sel \<subseteq> set (bm_keys (members iv))"
    using atom_denotes_members [OF ok] by (auto simp: selected_def Let_def split: if_splits)
  then show "set ms \<subseteq> set (bm_keys (members iv))" using s by blast
qed (rule resolve_canonical)

lemma to_limit_idempotent:
  "inventory_ok iv \<Longrightarrow> to_limit iv sel = Inr t \<Longrightarrow> to_limit iv t = Inr t"
  using inv_sel.limit_fixed by (fastforce simp: to_limit_def split: sum.splits)

section \<open>Properties\<close>

definition sample_aggregate :: json where
  "sample_aggregate = JObj
    [(''groups'', JObj [(''edge'', JArr [JStr ''web''])]),
     (''members'', JObj [(''db'', JObj [(''name'', JStr ''db'')]), (''web'', JObj [(''name'', JStr ''web'')])]),
     (''projections'', JObj [(''byControllerPlatform'',
       JObj [(''linux'', JObj [(''deploy'', JObj [(''settings'', JObj [])])])])]),
     (''schemaVersion'', JNum (PosInt 1))]"

definition sample_inventory :: inventory where
  "sample_inventory = \<lparr>iv_aggregate = \<lparr>ag_schema_version = JNum (PosInt 1),
      ag_members = [(''db'', [(''name'', JStr ''db'')]), (''web'', [(''name'', JStr ''web'')])],
      ag_groups = [(''edge'', [''web''])],
      ag_extra = [(''projections'', JObj [(''byControllerPlatform'',
        JObj [(''linux'', JObj [(''deploy'', JObj [(''settings'', JObj [])])])])])]\<rparr>,
    iv_controller_platform = Some ''linux''\<rparr>"

lemma sample_accepted:
  "from_value_for_controller (\<lambda>_. []) (\<lambda>_. []) sample_aggregate ''linux'' = Inr sample_inventory"
  by code_simp

lemma sample_inventory_ok: "inventory_ok sample_inventory"
  by (rule from_value_ok [OF sample_accepted])

text \<open>An accepted inventory is sound: every member key is a valid host name and equals the name
  inside the member, every group has a name that is not reserved and lists only members, and both
  maps are sorted without duplicates.\<close>

lemma accepted_inventory_is_sound:
  assumes "from_value_for_controller render serde_err value os = Inr iv"
  shows "bm_wf (members iv) \<and> bm_wf (groups iv) \<and>
    (\<forall>k m. map_of (members iv) k = Some m \<longrightarrow>
      is_valid_member_name k \<and> Option.bind (map_of m ''name'') as_str = Some k) \<and>
    (\<forall>g ms. map_of (groups iv) g = Some ms \<longrightarrow>
      \<not> eq_ignore_ascii_case g ''all'' \<and> set ms \<subseteq> set (bm_keys (members iv)))"
proof -
  note ok = from_value_ok [OF assms, unfolded inventory_ok_def]
  have "is_valid_member_name k" if "map_of (members iv) k = Some m" for k m
  proof -
    have "k \<in> set (bm_keys (members iv))" using map_of_SomeD [OF that] by (force simp: bm_keys_def)
    then show ?thesis using ok by simp
  qed
  then show ?thesis using ok by simp
qed

text \<open>When the aggregate has projections by controller platform, an accepted inventory has chosen
  the platform of the running controller and has its deploy settings: the shared projections are
  never used instead.\<close>

lemma controller_projection_is_used:
  assumes "from_value_for_controller render serde_err value os = Inr iv"
    and "projection_of (iv_aggregate iv) ''byControllerPlatform'' \<noteq> None"
  shows "\<exists>p s. iv_controller_platform iv = Some p \<and> p \<in> {''darwin'', ''linux''} \<and>
    deploy_settings iv = Some s"
  using from_value_controller [OF assms] .

text \<open>C21: A selector means a set: the union of what its plain parts name (all members when there is
  none) minus what its negated parts name. It resolves to a list exactly when every part names
  something known, the selector says something, and the set is not empty; the list is that set,
  sorted.\<close>

theorem selector_meaning:
  assumes "bm_wf (members iv)"
  shows "resolve iv selector = Inr ms \<longleftrightarrow>
    (\<forall>a\<in>set (include_atoms (selector_parts selector)) \<union> set (exclude_atoms (selector_parts selector)).
      is_ok (resolve_part iv a)) \<and>
    (include_atoms (selector_parts selector) \<noteq> [] \<or> excluded iv selector \<noteq> {}) \<and>
    ms \<noteq> [] \<and> bs_wf ms \<and> set ms = selected iv selector"
  using resolve_exact [OF assms] .

theorem selector_meaning_witness:
  "set [''db''] = selected sample_inventory ''all,!@edge''"
proof -
  have "resolve sample_inventory ''all,!@edge'' = Inr [''db'']" by code_simp
  then show ?thesis
    using selector_meaning [of sample_inventory "''all,!@edge''" "[''db'']"] sample_inventory_ok
    by (simp add: inventory_ok_def)
qed

text \<open>The limit string handed to the engines is canonical: it only names members, resolves to the
  same members again, is its own limit, and two selectors have the same limit exactly when they
  select the same members.\<close>

lemma limit_is_canonical:
  assumes "inventory_ok iv" and "resolve iv a = Inr x" and "resolve iv b = Inr y"
  shows "set x \<subseteq> set (bm_keys (members iv)) \<and>
    to_limit iv a = Inr (join '','' x) \<and> resolve iv (join '','' x) = Inr x \<and>
    to_limit iv (join '','' x) = Inr (join '','' x) \<and>
    (to_limit iv a = to_limit iv b \<longleftrightarrow> set x = set y)"
  using inv_sel.expand_members [OF assms(1,2)] inv_sel.limit_fixed [OF assms(1,2)]
    inv_sel.limit_injective [OF assms] assms(2,3)
  by (simp add: to_limit_def)

end
