(* ===== verification/Utf8.thy ===== *)
theory Utf8
  imports Prelude
begin

text \<open>Text and bytes: when \<^verbatim>\<open>read_line\<close> accepts the bytes of a line, and what
  \<^verbatim>\<open>String::from_utf8_lossy\<close> makes of the output of a process. The decoder keeps valid text and its
  result is always valid.\<close>

text \<open>Valid UTF-8, the condition under which \<^verbatim>\<open>read_line\<close> returns a line.\<close>

fun utf8_valid :: "string \<Rightarrow> bool" where
  "utf8_valid [] = True"
| "utf8_valid (a # s) =
    (if byte a < 128 then utf8_valid s
     else if 194 \<le> byte a \<and> byte a < 224 then
       (case s of b # t \<Rightarrow> is_cont b \<and> utf8_valid t | _ \<Rightarrow> False)
     else if 224 \<le> byte a \<and> byte a < 240 then
       (case s of b # c # t \<Rightarrow> is_cont b \<and> is_cont c \<and>
          (byte a = 224 \<longrightarrow> 160 \<le> byte b) \<and> (byte a = 237 \<longrightarrow> byte b < 160) \<and> utf8_valid t | _ \<Rightarrow> False)
     else if 240 \<le> byte a \<and> byte a < 245 then
       (case s of b # c # d # t \<Rightarrow> is_cont b \<and> is_cont c \<and> is_cont d \<and>
          (byte a = 240 \<longrightarrow> 144 \<le> byte b) \<and> (byte a = 244 \<longrightarrow> byte b < 144) \<and> utf8_valid t | _ \<Rightarrow> False)
     else False)"

text \<open>The sequence a lead byte announces, and how many of the bytes after it continue it.\<close>

definition utf8_width :: "char \<Rightarrow> nat" where
  "utf8_width a =
    (if byte a < 128 then 1
     else if 194 \<le> byte a \<and> byte a < 224 then 2
     else if 224 \<le> byte a \<and> byte a < 240 then 3
     else if 240 \<le> byte a \<and> byte a < 245 then 4
     else 0)"

definition second_ok :: "char \<Rightarrow> char \<Rightarrow> bool" where
  "second_ok a b \<longleftrightarrow> is_cont b \<and> (byte a = 224 \<longrightarrow> 160 \<le> byte b) \<and> (byte a = 237 \<longrightarrow> byte b < 160) \<and>
    (byte a = 240 \<longrightarrow> 144 \<le> byte b) \<and> (byte a = 244 \<longrightarrow> byte b < 144)"

fun utf8_follow :: "char \<Rightarrow> string \<Rightarrow> nat" where
  "utf8_follow a [] = 0"
| "utf8_follow a (b # t) =
    (if utf8_width a < 2 \<or> \<not> second_ok a b then 0
     else Suc (length (takeWhile is_cont (take (utf8_width a - 2) t))))"

definition REPLACEMENT :: string where
  "REPLACEMENT = [CHR 0xEF, CHR 0xBF, CHR 0xBD]"

text \<open>Each maximal piece that begins a character but does not complete it is replaced.\<close>

function utf8_lossy :: "string \<Rightarrow> string" where
  "utf8_lossy [] = []"
| "utf8_lossy (a # s) =
    (let k = utf8_follow a s
     in (if Suc k = utf8_width a then a # take k s else REPLACEMENT) @ utf8_lossy (drop k s))"
  by pat_completeness auto
termination
  by (relation "measure length") (auto simp: less_Suc_eq_le)

lemma utf8_valid_replacement: "utf8_valid (REPLACEMENT @ s) = utf8_valid s"
  by (simp add: REPLACEMENT_def byte_def is_cont_def)

lemma utf8_follow_le: "utf8_follow a s \<le> length s"
  by (cases "(a, s)" rule: utf8_follow.cases)
    (auto intro: order_trans [OF length_takeWhile_le])

lemma utf8_follow_width:
  "utf8_width a \<le> 1 \<Longrightarrow> utf8_follow a s = 0"
  "utf8_width a = 2 \<Longrightarrow> utf8_follow a (b # t) = (if second_ok a b then 1 else 0)"
  "utf8_width a = 3 \<Longrightarrow> utf8_follow a (b # c # t) = (if second_ok a b then (if is_cont c then 2 else 1) else 0)"
  "utf8_width a = 4 \<Longrightarrow> utf8_follow a (b # c # d # t) =
    (if second_ok a b then (if is_cont c then (if is_cont d then 3 else 2) else 1) else 0)"
  by (cases s) simp_all

lemma utf8_widths: "utf8_width a = 0 \<or> utf8_width a = 1 \<or> utf8_width a = 2 \<or> utf8_width a = 3 \<or> utf8_width a = 4"
  by (simp add: utf8_width_def)

lemma utf8_width_range:
  "utf8_width a = 0 \<Longrightarrow> \<not> byte a < 128 \<and> \<not> (194 \<le> byte a \<and> byte a < 224) \<and>
    \<not> (224 \<le> byte a \<and> byte a < 240) \<and> \<not> (240 \<le> byte a \<and> byte a < 245)"
  "utf8_width a = 1 \<Longrightarrow> byte a < 128"
  "utf8_width a = 2 \<Longrightarrow> \<not> byte a < 128 \<and> 194 \<le> byte a \<and> byte a < 224"
  "utf8_width a = 3 \<Longrightarrow> \<not> byte a < 128 \<and> \<not> byte a < 224 \<and> 224 \<le> byte a \<and> byte a < 240"
  "utf8_width a = 4 \<Longrightarrow> \<not> byte a < 128 \<and> \<not> byte a < 224 \<and> \<not> byte a < 240 \<and> 240 \<le> byte a \<and> byte a < 245"
  unfolding utf8_width_def by (simp_all split: if_split_asm)

lemma utf8_valid_widths:
  "utf8_width a = 0 \<Longrightarrow> \<not> utf8_valid (a # s)"
  "utf8_width a = 1 \<Longrightarrow> utf8_valid (a # s) = utf8_valid s"
  "utf8_width a = 2 \<Longrightarrow> utf8_valid (a # s) = (case s of b # t \<Rightarrow> second_ok a b \<and> utf8_valid t | _ \<Rightarrow> False)"
  "utf8_width a = 3 \<Longrightarrow> utf8_valid (a # s) =
    (case s of b # c # t \<Rightarrow> second_ok a b \<and> is_cont c \<and> utf8_valid t | _ \<Rightarrow> False)"
  "utf8_width a = 4 \<Longrightarrow> utf8_valid (a # s) =
    (case s of b # c # d # t \<Rightarrow> second_ok a b \<and> is_cont c \<and> is_cont d \<and> utf8_valid t | _ \<Rightarrow> False)"
      apply (drule utf8_width_range(1), simp only: utf8_valid.simps if_False simp_thms)
     apply (drule utf8_width_range(2), simp only: utf8_valid.simps if_True simp_thms)
    apply (drule utf8_width_range(3), cases s, simp only: utf8_valid.simps if_True if_False simp_thms list.case)
    apply (simp add: second_ok_def)
   apply (drule utf8_width_range(4))
   apply (cases s, simp, cases "tl s", simp, simp add: second_ok_def conj_ac)
  apply (drule utf8_width_range(5))
  apply (cases s, simp, cases "tl s", simp, cases "tl (tl s)", simp, simp add: second_ok_def conj_ac)
  done

declare utf8_valid.simps(2) [simp del]

lemma utf8_valid_split:
  "utf8_valid (a # s) \<longleftrightarrow>
    Suc (utf8_follow a s) = utf8_width a \<and> utf8_valid (drop (utf8_follow a s) s)"
proof -
  consider "utf8_width a = 0" | "utf8_width a = 1" | "utf8_width a = 2" | "utf8_width a = 3" | "utf8_width a = 4"
    using utf8_widths [of a] by (elim disjE)
  then show ?thesis
  proof cases
    case 3
    then show ?thesis by (cases s) (simp_all add: utf8_valid_widths utf8_follow_width)
  next
    case 4
    then show ?thesis
      by (cases s; cases "tl s") (auto simp: utf8_valid_widths utf8_follow_width)
  next
    case 5
    then show ?thesis
      by (cases s; cases "tl s"; cases "tl (tl s)") (auto simp: utf8_valid_widths utf8_follow_width)
  qed (simp_all add: utf8_valid_widths utf8_follow_width)
qed

lemma utf8_lossy_id: "utf8_valid s \<Longrightarrow> utf8_lossy s = s"
  by (induction s rule: utf8_lossy.induct)
    (simp_all add: utf8_valid_split Let_def)

lemma utf8_follow_full:
  assumes "Suc (utf8_follow a s) = utf8_width a"
  shows "utf8_width a = 1 \<or>
    (utf8_width a = 2 \<and> (\<exists>b t. s = b # t \<and> second_ok a b)) \<or>
    (utf8_width a = 3 \<and> (\<exists>b c t. s = b # c # t \<and> second_ok a b \<and> is_cont c)) \<or>
    (utf8_width a = 4 \<and> (\<exists>b c d t. s = b # c # d # t \<and> second_ok a b \<and> is_cont c \<and> is_cont d))"
proof -
  consider "utf8_width a = 0" | "utf8_width a = 1" | "utf8_width a = 2" | "utf8_width a = 3" | "utf8_width a = 4"
    using utf8_widths [of a] by (elim disjE)
  then show ?thesis
  proof cases
    case 3
    with assms show ?thesis by (cases s) (auto split: if_splits)
  next
    case 4
    with assms show ?thesis by (cases s; cases "tl s") (auto split: if_splits)
  next
    case 5
    with assms show ?thesis
      by (cases s; cases "tl s"; cases "tl (tl s)") (auto split: if_splits)
  qed (use assms in simp_all)
qed

lemma utf8_valid_char:
  assumes "Suc (utf8_follow a s) = utf8_width a"
  shows "utf8_valid (a # take (utf8_follow a s) s @ t) = utf8_valid t"
  using utf8_follow_full [OF assms] by (auto simp: utf8_valid_widths utf8_follow_width(1))

lemma utf8_lossy_valid: "utf8_valid (utf8_lossy s)"
  by (induction s rule: utf8_lossy.induct)
    (simp_all add: Let_def utf8_valid_replacement utf8_valid_char)

declare utf8_valid.simps(2) [simp]

end
