(* ===== verification/EventStream.thy ===== *)
theory EventStream
  imports Forest Durations Utf8
begin

text \<open>The read side of a run (\<^verbatim>\<open>crates/mandala-core/src/runner.rs\<close>): the per-host and build state
  machines fed by event records, and the incremental reader that resumes every stream from a byte
  offset. Parsing a line as JSON is the argument \<open>parse\<close>; the derivation resolver is a background
  thread, so what it has answered by each poll is an argument too.\<close>

definition SUPPORTED_EVENT_VERSIONS :: "int list" where
  "SUPPORTED_EVENT_VERSIONS = [1, 2]"

definition EVENT_PROTOCOL_VERSION :: int where
  "EVENT_PROTOCOL_VERSION = 2"

definition version_supported :: "int option \<Rightarrow> bool" where
  "version_supported v = (case v of None \<Rightarrow> False | Some i \<Rightarrow> i \<in> set SUPPORTED_EVENT_VERSIONS)"

definition MAX_LINES :: nat where
  "MAX_LINES = 2000"

definition BUILD_MAX_LINES :: nat where
  "BUILD_MAX_LINES = 200"

section \<open>Host state\<close>

datatype host_state =
  HPending | HEvaluating | HBuilding | HCopying | HActivating | HWaiting
  | HConfirmed | HRebootPending | HRolledBack | HFailed

fun host_state_str :: "host_state \<Rightarrow> string" where
  "host_state_str HPending = ''pending''"
| "host_state_str HEvaluating = ''evaluating''"
| "host_state_str HBuilding = ''building''"
| "host_state_str HCopying = ''copying''"
| "host_state_str HActivating = ''activating''"
| "host_state_str HWaiting = ''waiting''"
| "host_state_str HConfirmed = ''confirmed''"
| "host_state_str HRebootPending = ''reboot-pending''"
| "host_state_str HRolledBack = ''rolled-back''"
| "host_state_str HFailed = ''failed''"

definition milestone_state :: "string \<Rightarrow> host_state option" where
  "milestone_state name =
    (if name = ''eval'' then Some HEvaluating
     else if name = ''build'' then Some HBuilding
     else if name = ''copy'' then Some HCopying
     else if name = ''activate'' then Some HActivating
     else if name = ''wait'' then Some HWaiting
     else if name = ''confirm'' then Some HConfirmed
     else if name = ''reboot-pending'' then Some HRebootPending
     else if name = ''rollback'' then Some HRolledBack
     else None)"

definition is_terminal :: "host_state \<Rightarrow> bool" where
  "is_terminal s \<longleftrightarrow> s \<in> {HConfirmed, HRebootPending, HRolledBack, HFailed}"

definition push_capped :: "nat \<Rightarrow> 'a \<Rightarrow> 'a list \<Rightarrow> 'a list" where
  "push_capped cap s dq = (if cap \<le> length dq then tl dq else dq) @ [s]"

record host_run =
  hr_name :: string
  hr_state :: host_state
  hr_lines :: "string list"
  hr_milestones :: "string list"
  hr_rc :: "int option"

definition host_run_new :: "string \<Rightarrow> host_run" where
  "host_run_new name =
    \<lparr>hr_name = name, hr_state = HPending, hr_lines = [], hr_milestones = [], hr_rc = None\<rparr>"

definition get_str :: "string \<Rightarrow> json \<Rightarrow> string option" where
  "get_str key ev = Option.bind (json_get key ev) as_str"

definition get_i64 :: "string \<Rightarrow> json \<Rightarrow> int option" where
  "get_i64 key ev = Option.bind (json_get key ev) as_i64"

definition feed_milestone :: "string \<Rightarrow> host_state \<Rightarrow> host_state" where
  "feed_milestone name s =
    (case milestone_state name of
       None \<Rightarrow> s
     | Some t \<Rightarrow> if \<not> is_terminal s then t else if t = HRolledBack then HRolledBack else s)"

definition host_feed :: "json \<Rightarrow> host_run \<Rightarrow> host_run" where
  "host_feed ev h =
    (if get_str ''event'' ev = Some ''line'' then
       h\<lparr>hr_lines := push_capped MAX_LINES (opt_default [] (get_str ''line'' ev)) (hr_lines h)\<rparr>
     else if get_str ''event'' ev = Some ''milestone'' then
       let name = opt_default [] (get_str ''milestone'' ev)
       in h\<lparr>hr_milestones := hr_milestones h @ [name], hr_state := feed_milestone name (hr_state h)\<rparr>
     else if get_str ''event'' ev = Some ''status'' \<and> get_str ''state'' ev = Some ''done'' then
       let rc = get_i64 ''rc'' ev
       in h\<lparr>hr_rc := rc,
            hr_state := (if rc \<notin> {Some 0, None} \<and> \<not> is_terminal (hr_state h) then HFailed else hr_state h)\<rparr>
     else h)"

section \<open>The build model\<close>

record build_model =
  bb_built :: int
  bb_finished :: int
  bb_fetched :: int
  bb_fetched_done :: int
  bb_errors :: int
  bb_current :: string
  bb_lines :: "string list"
  bb_done :: bool
  bb_rc :: "int option"

definition build_model_default :: build_model where
  "build_model_default = \<lparr>bb_built = 0, bb_finished = 0, bb_fetched = 0, bb_fetched_done = 0,
    bb_errors = 0, bb_current = [], bb_lines = [], bb_done = False, bb_rc = None\<rparr>"

definition build_feed :: "json \<Rightarrow> build_model \<Rightarrow> build_model" where
  "build_feed ev b =
    (if get_str ''event'' ev = Some ''progress'' then
       b\<lparr>bb_built := opt_default (bb_built b) (get_i64 ''built'' ev),
         bb_finished := opt_default (bb_finished b) (get_i64 ''finished'' ev),
         bb_fetched := opt_default (bb_fetched b) (get_i64 ''fetched'' ev),
         bb_fetched_done := opt_default (bb_fetched_done b) (get_i64 ''fetched_done'' ev),
         bb_errors := opt_default (bb_errors b) (get_i64 ''errors'' ev),
         bb_current := opt_default (bb_current b) (get_str ''current'' ev)\<rparr>
     else if get_str ''event'' ev = Some ''line'' then
       b\<lparr>bb_lines := push_capped BUILD_MAX_LINES (opt_default [] (get_str ''line'' ev)) (bb_lines b)\<rparr>
     else if get_str ''event'' ev = Some ''status'' \<and> get_str ''state'' ev = Some ''done'' then
       b\<lparr>bb_done := True, bb_rc := get_i64 ''rc'' ev\<rparr>
     else b)"

section \<open>The incremental reader\<close>

text \<open>The lines one pass over the rest of a file yields: up to the first line that is not
  newline-terminated (a partial write, read again by the next poll) or not text.\<close>

function read_lines :: "string \<Rightarrow> string list" where
  "read_lines rest =
    (case split_once (CHR 0x0A) rest of
       None \<Rightarrow> []
     | Some (line, tail) \<Rightarrow>
         if utf8_valid (line @ [CHR 0x0A]) then (line @ [CHR 0x0A]) # read_lines tail else [])"
  by pat_completeness auto
termination
  by (relation "measure length") (auto simp: split_once_Some)

declare read_lines.simps [simp del]

record event_tailer =
  et_directory :: string
  et_offsets :: "(string, nat) bmap"
  et_hosts :: "(string, host_run) bmap"
  et_build :: build_model
  et_forest :: build_forest
  et_requests :: "string list"
  et_sink :: "string list option"

text \<open>\<^verbatim>\<open>build_duration_cache_path\<close> on a path given as its components below some root: the runs
  directory is the parent, and the cache lies beside it.\<close>

definition DURATION_CACHE_RELATIVE_PATH :: "string list" where
  "DURATION_CACHE_RELATIVE_PATH = [''build'', ''durations.json'']"

definition build_duration_cache_path :: "string list \<Rightarrow> string list option" where
  "build_duration_cache_path run_directory =
    (if length run_directory \<ge> 2 \<and> last (butlast run_directory) = ''runs''
     then Some (butlast (butlast run_directory) @ DURATION_CACHE_RELATIVE_PATH)
     else None)"

definition tailer_new :: "nat \<Rightarrow> string \<Rightarrow> (io_error, duration_cache) result option \<Rightarrow> bool \<Rightarrow> event_tailer" where
  "tailer_new now directory cache with_sink =
    (let estimates = (case cache of Some (Inr c) \<Rightarrow> estimates_ms c | _ \<Rightarrow> [])
     in \<lparr>et_directory = directory, et_offsets = [], et_hosts = [], et_build = build_model_default,
         et_forest = with_duration_estimates now estimates, et_requests = [],
         et_sink = (if with_sink then Some [] else None)\<rparr>)"

definition tailer_host :: "string \<Rightarrow> (host_run \<Rightarrow> host_run) \<Rightarrow> event_tailer \<Rightarrow> event_tailer" where
  "tailer_host name f t = t\<lparr>et_hosts := bm_entry (host_run_new name) name f (et_hosts t)\<rparr>"

definition has_unsuccessful_host :: "event_tailer \<Rightarrow> bool" where
  "has_unsuccessful_host t \<longleftrightarrow>
    list_ex (\<lambda>h. hr_state h \<in> {HFailed, HRolledBack}) (bm_values (et_hosts t))"

definition route ::
  "(string \<Rightarrow> json option) \<Rightarrow> (string \<Rightarrow> (string, nix_message) result) \<Rightarrow> nat \<Rightarrow> string \<Rightarrow>
    event_tailer \<Rightarrow> event_tailer" where
  "route parse dec now line t =
    (case parse line of
       None \<Rightarrow> t
     | Some ev \<Rightarrow>
         if \<not> version_supported (get_i64 ''v'' ev) then t
         else if get_str ''event'' ev = Some ''nixlog'' then
           let l = opt_default [] (get_str ''line'' ev);
               t = t\<lparr>et_forest := snd (feed_line dec now l (et_forest t))\<rparr>
           in t\<lparr>et_sink := map_option (\<lambda>ls. ls @ [l]) (et_sink t)\<rparr>
         else if get_str ''plugin'' ev = Some ''build'' then
           t\<lparr>et_build := build_feed ev (et_build t)\<rparr>
         else (case opt_filter (\<lambda>h. h \<noteq> []) (get_str ''host'' ev) of
             None \<Rightarrow> t
           | Some h \<Rightarrow> tailer_host h (host_feed ev) t))"

definition apply_read :: "string \<times> (string, derivation) result \<Rightarrow> build_forest \<Rightarrow> build_forest" where
  "apply_read r f =
    (case r of
       (path, Inr drv) \<Rightarrow> apply_derivation path drv f
     | (path, Inl note) \<Rightarrow> apply_derivation_error path note f)"

definition request_drv :: "(string \<Rightarrow> bool) \<Rightarrow> string \<Rightarrow> event_tailer \<Rightarrow> event_tailer" where
  "request_drv sent path t =
    (if sent path then t\<lparr>et_requests := et_requests t @ [path]\<rparr>
     else t\<lparr>et_forest := apply_derivation_error path ''drv unavailable: resolver stopped'' (et_forest t)\<rparr>)"

text \<open>\<open>answers\<close> is what the resolver has sent back; \<open>sent\<close> tells whether a request reaches it.\<close>

definition poll_forest_resolver ::
  "(string \<times> (string, derivation) result) list \<Rightarrow> (string \<Rightarrow> bool) \<Rightarrow> event_tailer \<Rightarrow> event_tailer" where
  "poll_forest_resolver answers sent t =
    (let t = t\<lparr>et_forest := fold apply_read answers (et_forest t)\<rparr>
     in case take_pending_derivations (et_forest t) of
          (pending, f) \<Rightarrow> fold (request_drv sent) pending (t\<lparr>et_forest := f\<rparr>))"

text \<open>What the resolver thread answers to one request.\<close>

definition resolver_answer ::
  "(string \<Rightarrow> (string, string) result) \<Rightarrow> string \<Rightarrow> string \<times> (string, derivation) result" where
  "resolver_answer read_file path =
    (path,
     if starts_with path ''/nix/store/'' \<and> ends_with path ''.drv'' then
       (case read_file path of
          Inl e \<Rightarrow> Inl (''drv unavailable: '' @ e)
        | Inr contents \<Rightarrow>
            (case parse_derivation contents of
               Inl e \<Rightarrow> Inl (''unparseable drv: '' @ show_parse_error e)
             | Inr drv \<Rightarrow> Inr drv))
     else Inl ''drv unavailable: path is outside /nix/store'')"

text \<open>One file: its readable contents from the recorded offset. \<^const>\<open>None\<close> is a file that cannot be
  opened, which keeps its offset.\<close>

definition poll_file ::
  "(string \<Rightarrow> json option) \<Rightarrow> (string \<Rightarrow> (string, nix_message) result) \<Rightarrow> nat \<Rightarrow>
    string \<times> string option \<Rightarrow> nat \<times> event_tailer \<Rightarrow> nat \<times> event_tailer" where
  "poll_file parse dec now file st =
    (case (file, st) of
       ((path, None), st) \<Rightarrow> st
     | ((path, Some content), (count, t)) \<Rightarrow>
         let offset = opt_default 0 (map_of (et_offsets t) path);
             ls = read_lines (drop offset content);
             t = fold (route parse dec now) ls t
         in (count + length ls,
             t\<lparr>et_offsets := bm_insert path (offset + length (concat ls)) (et_offsets t)\<rparr>))"

text \<open>A poll over the directory: \<^const>\<open>None\<close> when it does not exist or cannot be listed, else the
  \<^verbatim>\<open>.jsonl\<close> files, sorted by path.\<close>

definition tailer_poll ::
  "(string \<Rightarrow> json option) \<Rightarrow> (string \<Rightarrow> (string, nix_message) result) \<Rightarrow> nat \<Rightarrow> (string \<Rightarrow> bool) \<Rightarrow>
    (string \<times> (string, derivation) result) list \<Rightarrow> (string \<times> (string, derivation) result) list \<Rightarrow>
    (string \<times> string option) list option \<Rightarrow> event_tailer \<Rightarrow> nat \<times> event_tailer" where
  "tailer_poll parse dec now sent answers answers' listing t =
    (let t = poll_forest_resolver answers sent t
     in case listing of
          None \<Rightarrow> (0, t)
        | Some files \<Rightarrow>
            (case fold (poll_file parse dec now) (sort_key fst files) (0, t) of
               (count, t) \<Rightarrow> (count, poll_forest_resolver answers' sent t)))"

definition effective_deploy_returncode :: "int option \<Rightarrow> event_tailer option \<Rightarrow> int option" where
  "effective_deploy_returncode process_rc tailer =
    map_option
      (\<lambda>rc. if rc = 0 \<and> (case tailer of None \<Rightarrow> False | Some t \<Rightarrow> has_unsuccessful_host t) then 1 else rc)
      process_rc"

section \<open>Sticky outcomes\<close>

text \<open>The contract of an outcome that sticks: once final, only an overriding event changes it, and what
  it is overridden with is never left again.\<close>

locale sticky_outcome =
  fixes step :: "'e \<Rightarrow> 's \<Rightarrow> 's"
    and final :: "'s \<Rightarrow> bool"
    and overrides :: "'e \<Rightarrow> bool"
    and top :: 's
  assumes final_top: "final top"
    and final_keeps: "final s \<Longrightarrow> \<not> overrides e \<Longrightarrow> step e s = s"
    and override_wins: "overrides e \<Longrightarrow> step e s = top"
begin

lemma top_absorbs: "step e top = top"
  using final_keeps [OF final_top] override_wins by (cases "overrides e") auto

lemma run_top: "fold step es top = top"
  by (induction es) (simp_all add: top_absorbs)

lemma final_run:
  "final s \<Longrightarrow> fold step es s = (if \<exists>e\<in>set es. overrides e then top else s)"
proof (induction es arbitrary: s)
  case (Cons e es)
  show ?case
  proof (cases "overrides e")
    case True
    then show ?thesis by (simp add: override_wins run_top)
  qed (use Cons final_keeps in auto)
qed simp

end

definition is_rollback :: "json \<Rightarrow> bool" where
  "is_rollback ev \<longleftrightarrow>
    get_str ''event'' ev = Some ''milestone'' \<and> get_str ''milestone'' ev = Some ''rollback''"

definition state_feed :: "json \<Rightarrow> host_state \<Rightarrow> host_state" where
  "state_feed ev s = hr_state (host_feed ev ((host_run_new [])\<lparr>hr_state := s\<rparr>))"

lemma hr_state_feed: "hr_state (host_feed ev h) = state_feed ev (hr_state h)"
  by (simp add: state_feed_def host_feed_def Let_def)

lemma hr_state_fold: "hr_state (fold host_feed evs h) = fold state_feed evs (hr_state h)"
  by (induction evs arbitrary: h) (simp_all add: hr_state_feed)

interpretation host_outcome: sticky_outcome state_feed is_terminal is_rollback HRolledBack
proof unfold_locales
  show "is_terminal HRolledBack" by (simp add: is_terminal_def)
next
  fix s ev
  assume s: "is_terminal s" and ev: "\<not> is_rollback ev"
  have ms: "milestone_state m = Some HRolledBack \<longleftrightarrow> m = ''rollback''" for m
    by (simp add: milestone_state_def)
  have "get_str ''event'' ev = Some ''milestone'' \<Longrightarrow>
      milestone_state (opt_default [] (get_str ''milestone'' ev)) \<noteq> Some HRolledBack"
    using ev unfolding ms is_rollback_def by (cases "get_str ''milestone'' ev") auto
  then show "state_feed ev s = s"
    using s by (auto simp: state_feed_def host_feed_def feed_milestone_def Let_def split: option.split)
next
  fix ev s
  assume "is_rollback ev"
  then show "state_feed ev s = HRolledBack"
    by (auto simp: is_rollback_def state_feed_def host_feed_def feed_milestone_def milestone_state_def
        host_run_new_def)
qed

interpretation host_lines: bounded_queue "push_capped MAX_LINES" MAX_LINES
  by unfold_locales (auto simp: push_capped_def MAX_LINES_def)

interpretation build_lines: bounded_queue "push_capped BUILD_MAX_LINES" BUILD_MAX_LINES
  by unfold_locales (auto simp: push_capped_def BUILD_MAX_LINES_def)

section \<open>Reading resumes where it stopped\<close>

lemma read_lines_prefix: "\<exists>rest. s = concat (read_lines s) @ rest"
proof (induction s rule: read_lines.induct)
  case (1 s)
  show ?case
  proof (cases "split_once (CHR 0x0A) s")
    case (Some lm)
    obtain l m where lm: "lm = (l, m)" by (cases lm)
    then have s: "s = (l @ [CHR 0x0A]) @ m" using Some by (simp add: split_once_Some)
    show ?thesis
    proof (cases "utf8_valid (l @ [CHR 0x0A])")
      case True
      define c where "c = concat (read_lines m)"
      obtain rest where rest: "m = c @ rest"
        using 1 [OF Some lm [symmetric] True] unfolding c_def by blast
      have "concat (read_lines s) = (l @ [CHR 0x0A]) @ c"
        using Some lm True by (simp add: read_lines.simps [of s] c_def)
      then have "s = concat (read_lines s) @ rest" using s rest by simp
      then show ?thesis by blast
    qed (use Some lm in \<open>simp add: read_lines.simps [of s]\<close>)
  qed (simp add: read_lines.simps [of s])
qed

lemma split_once_append:
  "split_once c s = Some (a, b) \<Longrightarrow> split_once c (s @ t) = Some (a, b @ t)"
  by (auto simp: split_once_Some)

text \<open>However a growing file is cut into polls, the lines read are those of one pass.\<close>

lemma read_lines_resume:
  "read_lines s @ read_lines (drop (length (concat (read_lines s))) (s @ t)) = read_lines (s @ t)"
proof (induction s rule: read_lines.induct)
  case (1 s)
  show ?case
  proof (cases "split_once (CHR 0x0A) s")
    case None
    then show ?thesis by (simp add: read_lines.simps [of s])
  next
    case (Some lm)
    obtain l m where lm: "lm = (l, m)" by (cases lm)
    then have sp: "split_once (CHR 0x0A) s = Some (l, m)"
      "split_once (CHR 0x0A) (s @ t) = Some (l, m @ t)"
      using Some split_once_append by auto
    then have s: "s @ t = (l @ [CHR 0x0A]) @ m @ t" by (simp add: split_once_Some)
    show ?thesis
    proof (cases "utf8_valid (l @ [CHR 0x0A])")
      case True
      then have r: "read_lines s = (l @ [CHR 0x0A]) # read_lines m"
        "read_lines (s @ t) = (l @ [CHR 0x0A]) # read_lines (m @ t)"
        using sp by (simp_all add: read_lines.simps [of s] read_lines.simps [of "s @ t"])
      have "drop (length (concat (read_lines s))) (s @ t) = drop (length (concat (read_lines m))) (m @ t)"
        unfolding s r(1) by simp
      then show ?thesis using 1 [OF Some lm [symmetric] True] r by simp
    next
      case False
      then show ?thesis using sp by (simp add: read_lines.simps [of s] read_lines.simps [of "s @ t"])
    qed
  qed
qed

text \<open>Routing leaves the offsets alone, so a file polled twice as it grows ends in the state of one
  poll of the whole.\<close>

lemma route_offsets [simp]: "et_offsets (route parse dec now l t) = et_offsets t"
  by (simp add: route_def Let_def tailer_host_def split: option.split)

lemma fold_route_offsets [simp]: "et_offsets (fold (route parse dec now) ls t) = et_offsets t"
  by (induction ls arbitrary: t) simp_all

lemma route_set_offsets:
  "route parse dec now l (t\<lparr>et_offsets := m\<rparr>) = (route parse dec now l t)\<lparr>et_offsets := m\<rparr>"
  by (simp add: route_def Let_def tailer_host_def del: opt_filter_Some split: option.split)

lemma fold_route_set_offsets:
  "fold (route parse dec now) ls (t\<lparr>et_offsets := m\<rparr>) = (fold (route parse dec now) ls t)\<lparr>et_offsets := m\<rparr>"
  by (induction ls arbitrary: t) (simp_all add: route_set_offsets)

lemma bm_insert_twice: "bm_insert k v (bm_insert k u m) = bm_insert k v m"
  by (induction k u m rule: bm_insert.induct) auto

lemma poll_file_resume:
  "poll_file parse dec now (path, Some (s @ u)) (poll_file parse dec now (path, Some s) (n, t)) =
    poll_file parse dec now (path, Some (s @ u)) (n, t)"
proof -
  let ?o = "opt_default 0 (map_of (et_offsets t) path)"
  let ?a = "read_lines (drop ?o s)"
  have d: "drop ?o (s @ u) = drop ?o s @ drop (?o - length s) u" by simp
  have "drop (?o + length (concat ?a)) (s @ u) =
      drop (length (concat ?a)) (drop ?o s @ drop (?o - length s) u)"
    by (simp only: d [symmetric] drop_drop add.commute)
  moreover have "?a @ read_lines (drop (length (concat ?a)) (drop ?o s @ drop (?o - length s) u)) =
      read_lines (drop ?o (s @ u))"
    unfolding d by (rule read_lines_resume)
  ultimately have all: "?a @ read_lines (drop (?o + length (concat ?a)) (s @ u)) = read_lines (drop ?o (s @ u))"
    by (simp only:)
  let ?b = "read_lines (drop (?o + length (concat ?a)) (s @ u))"
  have "poll_file parse dec now (path, Some (s @ u)) (poll_file parse dec now (path, Some s) (n, t)) =
      (n + length (?a @ ?b),
       (fold (route parse dec now) (?a @ ?b) t)\<lparr>et_offsets :=
          bm_insert path (?o + length (concat (?a @ ?b))) (et_offsets t)\<rparr>)"
    by (simp add: poll_file_def Let_def fold_route_set_offsets bm_insert_twice add.assoc)
  then show ?thesis unfolding all by (simp add: poll_file_def Let_def)
qed

section \<open>Process and host outcomes combined\<close>

lemma effective_success:
  "effective_deploy_returncode rc tlr = Some 0 \<longleftrightarrow>
    rc = Some 0 \<and> (\<forall>t. tlr = Some t \<longrightarrow> \<not> has_unsuccessful_host t)"
  by (cases rc; cases tlr) (auto simp: effective_deploy_returncode_def)

section \<open>The tailer's invariant\<close>

definition host_run_ok :: "string \<Rightarrow> host_run \<Rightarrow> bool" where
  "host_run_ok name h \<longleftrightarrow> hr_name h = name \<and> length (hr_lines h) \<le> MAX_LINES"

definition tailer_inv :: "event_tailer \<Rightarrow> bool" where
  "tailer_inv t \<longleftrightarrow>
    forest_inv (et_forest t) \<and> bm_wf (et_offsets t) \<and> bm_wf (et_hosts t) \<and>
    (\<forall>name h. map_of (et_hosts t) name = Some h \<longrightarrow> host_run_ok name h) \<and>
    length (bb_lines (et_build t)) \<le> BUILD_MAX_LINES"

lemma host_feed_ok: "host_run_ok name h \<Longrightarrow> host_run_ok name (host_feed ev h)"
  using host_lines.push_le by (auto simp: host_run_ok_def host_feed_def Let_def)

lemma build_feed_lines:
  "length (bb_lines b) \<le> BUILD_MAX_LINES \<Longrightarrow> length (bb_lines (build_feed ev b)) \<le> BUILD_MAX_LINES"
  using build_lines.push_le by (auto simp: build_feed_def)

lemma tailer_host_inv:
  assumes "tailer_inv t" and "\<And>h. host_run_ok name h \<Longrightarrow> host_run_ok name (f h)"
  shows "tailer_inv (tailer_host name f t)"
proof -
  have "host_run_ok name (host_run_new name)" by (simp add: host_run_ok_def host_run_new_def)
  then have "host_run_ok name (f (opt_default (host_run_new name) (map_of (et_hosts t) name)))"
    using assms by (cases "map_of (et_hosts t) name") (auto simp: tailer_inv_def)
  then show ?thesis using assms(1) by (auto simp: tailer_inv_def tailer_host_def bm_wf_entry)
qed

lemma tailer_inv_update:
  "tailer_inv t \<Longrightarrow> forest_inv f \<Longrightarrow> tailer_inv (t\<lparr>et_forest := f\<rparr>)"
  "tailer_inv (t\<lparr>et_sink := s\<rparr>) \<longleftrightarrow> tailer_inv t"
  "tailer_inv (t\<lparr>et_requests := r\<rparr>) \<longleftrightarrow> tailer_inv t"
  "tailer_inv t \<Longrightarrow> bm_wf m \<Longrightarrow> tailer_inv (t\<lparr>et_offsets := m\<rparr>)"
  "tailer_inv t \<Longrightarrow> tailer_inv (t\<lparr>et_build := build_feed ev (et_build t)\<rparr>)"
  by (auto simp: tailer_inv_def build_feed_lines)

lemma tailer_inv_forest: "tailer_inv t \<Longrightarrow> forest_inv (et_forest t)"
  by (simp add: tailer_inv_def)

lemma route_inv: "tailer_inv t \<Longrightarrow> tailer_inv (route parse dec now line t)"
  by (simp add: route_def Let_def tailer_inv_update tailer_inv_forest feed_line_inv tailer_host_inv
      host_feed_ok split: option.split)

lemma poll_file_inv: "tailer_inv (snd st) \<Longrightarrow> tailer_inv (snd (poll_file parse dec now e st))"
proof -
  assume st: "tailer_inv (snd st)"
  have "tailer_inv (fold (route parse dec now) ls (snd st))" for ls
    using st by (rule fold_invariant_set) (rule route_inv)
  then show ?thesis
    using st by (cases e; cases st; cases "snd e")
      (auto simp: poll_file_def Let_def tailer_inv_def bm_wf_insert)
qed

lemma resolver_answer_wf:
  "resolver_answer read_file path = (p, Inr drv) \<Longrightarrow> wf_derivation drv"
  by (auto simp: resolver_answer_def parse_derivation_wf split: if_splits sum.splits)

lemma apply_read_inv:
  assumes "forest_inv f" and "r \<in> range (resolver_answer read_file)"
  shows "forest_inv (apply_read r f)"
proof (cases r)
  case (Pair p x)
  then show ?thesis using assms resolver_answer_wf [of read_file _ p]
    by (cases x) (auto simp: apply_read_def apply_derivation_inv apply_derivation_error_inv)
qed

lemma resolver_poll_inv:
  assumes t: "tailer_inv t" and "set answers \<subseteq> range (resolver_answer read_file)"
  shows "tailer_inv (poll_forest_resolver answers sent t)"
proof -
  have "forest_inv (fold apply_read answers (et_forest t))"
    using tailer_inv_forest [OF t] by (rule fold_invariant_set) (use assms(2) apply_read_inv in blast)
  then have "tailer_inv (t\<lparr>et_forest := snd (take_pending_derivations (fold apply_read answers (et_forest t)))\<rparr>)"
    using t by (simp add: tailer_inv_update take_pending_inv)
  moreover have "tailer_inv s \<Longrightarrow> tailer_inv (request_drv sent path s)" for path s
    by (simp add: request_drv_def tailer_inv_update tailer_inv_forest apply_derivation_error_inv)
  ultimately have "tailer_inv (fold (request_drv sent) ps
      (t\<lparr>et_forest := snd (take_pending_derivations (fold apply_read answers (et_forest t)))\<rparr>))" for ps
    by (rule fold_invariant_set)
  then show ?thesis by (simp add: poll_forest_resolver_def Let_def take_pending_derivations_def)
qed

lemma tailer_poll_inv:
  assumes "tailer_inv t" and "set answers \<subseteq> range (resolver_answer read_file)"
    and "set answers' \<subseteq> range (resolver_answer read_file)"
  shows "tailer_inv (snd (tailer_poll parse dec now sent answers answers' listing t))"
proof (cases listing)
  case (Some files)
  let ?t = "poll_forest_resolver answers sent t"
  have "tailer_inv (snd (fold (poll_file parse dec now) fs (0, ?t)))" for fs
    by (rule fold_invariant_set [where P = "\<lambda>st. tailer_inv (snd st)"])
      (simp_all add: resolver_poll_inv [OF assms(1,2)] poll_file_inv)
  then show ?thesis
    using Some resolver_poll_inv [OF _ assms(3)] by (simp add: tailer_poll_def Let_def split: prod.split) (metis snd_conv)
qed (simp add: tailer_poll_def resolver_poll_inv [OF assms(1,2)])

lemma tailer_new_inv: "tailer_inv (tailer_new now dir cache sink)"
  by (simp add: tailer_inv_def tailer_new_def with_estimates_inv build_model_default_def Let_def)

section \<open>Properties\<close>

text \<open>A host's outcome is final: once confirmed, pending a reboot, rolled back or failed, no
  sequence of events changes it, with one exception, that a rollback milestone anywhere in the
  stream makes the outcome rolled back, for good.\<close>

lemma host_outcome_is_final:
  assumes "is_terminal (hr_state h)"
  shows "hr_state (fold host_feed evs h) =
    (if \<exists>e\<in>set evs. is_rollback e then HRolledBack else hr_state h)"
  using host_outcome.final_run [OF assms] by (simp add: hr_state_fold)

text \<open>Polling a stream while it is being appended to loses nothing and repeats nothing: reading a
  file up to any point, partial last line included, and then the rest of it gives the state, the
  offset and the count of one poll over the whole file.\<close>

lemma polling_is_incremental:
  "poll_file parse dec now (path, Some (written @ appended))
      (poll_file parse dec now (path, Some written) (n, t)) =
    poll_file parse dec now (path, Some (written @ appended)) (n, t)"
  by (rule poll_file_resume)

text \<open>Every poll keeps the tailer well formed, whatever the files contain: the forest invariant
  holds, a host's record carries its own name and at most its last 2000 lines, the build keeps at
  most 200, and the maps are sorted, as long as the resolver answers with what it read from disk.\<close>

lemma polls_keep_tailer_wellformed:
  assumes "\<And>p. p \<in> set polls \<Longrightarrow> set (fst p) \<subseteq> range (resolver_answer read_file)"
  shows "tailer_inv (fold (\<lambda>(answers, now, listing) t. snd (tailer_poll parse dec now sent answers [] listing t))
    polls (tailer_new start dir cache sink))"
proof (rule fold_invariant_set [where P = tailer_inv])
  show "tailer_inv (tailer_new start dir cache sink)" by (rule tailer_new_inv)
next
  fix p t
  assume p: "p \<in> set polls" and t: "tailer_inv t"
  obtain answers now listing where "p = (answers, now, listing)" by (cases p)
  then show "tailer_inv ((\<lambda>(answers, now, listing) t. snd (tailer_poll parse dec now sent answers [] listing t)) p t)"
    using tailer_poll_inv [OF t, of answers read_file "[]"] assms [OF p] by simp
qed

text \<open>A run counts as successful only when the deploy process exited with zero and no host of the
  event stream failed or rolled back; a non-zero exit is reported as it is, and a run without an
  exit code yet has none.\<close>

lemma effective_returncode_meaning:
  "(effective_deploy_returncode rc tailer = Some 0 \<longleftrightarrow>
      rc = Some 0 \<and> (case tailer of None \<Rightarrow> True | Some t \<Rightarrow> \<not> has_unsuccessful_host t)) \<and>
    (effective_deploy_returncode rc tailer = None \<longleftrightarrow> rc = None) \<and>
    (rc \<noteq> Some 0 \<or> effective_deploy_returncode rc tailer \<in> {Some 0, Some 1}) \<and>
    (rc = Some 0 \<or> effective_deploy_returncode rc tailer = rc)"
  by (cases rc; cases tailer) (auto simp: effective_deploy_returncode_def)

end
