(* ===== verification/BuildLog.thy ===== *)
theory BuildLog
  imports EventStream Inventory
begin

text \<open>The write side of a run's streams: the filter that keeps the replayable part of Nix's log
  (\<^verbatim>\<open>crates/mandala-core/src/build_log.rs\<close>) and the event writer with its byte budget
  (\<^verbatim>\<open>EventWriter\<close> in \<^verbatim>\<open>runner.rs\<close>). JSON text is produced by \<^verbatim>\<open>serde_json\<close>: the argument \<open>ser\<close>
  gives the bytes of a record from its entries in order, \<open>dec\<close> decodes a logger line, and
  \<open>wr\<close> is the fault of writing bytes to the file, if there is one: how many bytes had reached the file, and the error.\<close>

definition BUILD_LOG_MAX_BYTES :: nat where
  "BUILD_LOG_MAX_BYTES = 16 * 1024 * 1024"

definition TERMINAL_RESERVE :: nat where
  "TERMINAL_RESERVE = 64 * 1024"

section \<open>The filter\<close>

definition start_kept :: "int option \<Rightarrow> bool" where
  "start_kept code = (case code of None \<Rightarrow> False
    | Some c \<Rightarrow> (100 \<le> c \<and> c \<le> 105) \<or> c = 108 \<or> (110 \<le> c \<and> c \<le> 112))"

definition result_kept :: "int option \<Rightarrow> bool" where
  "result_kept code = (case code of None \<Rightarrow> False | Some c \<Rightarrow> (102 \<le> c \<and> c \<le> 106) \<or> c = 108)"

definition filter_message :: "nix_message \<Rightarrow> nat bset \<Rightarrow> bool \<times> nat bset" where
  "filter_message m activities =
    (let i = opt_default 0 (nm_id m)
     in if nm_action m = ''start'' \<and> start_kept (nm_type_code m) then (True, bs_insert i activities)
        else if nm_action m = ''stop'' then (i \<in> set activities, filter (\<lambda>a. a \<noteq> i) activities)
        else if nm_action m = ''result'' then
          (i \<in> set activities \<and> result_kept (nm_type_code m), activities)
        else if nm_action m = ''msg'' then
          ((case nm_level m of None \<Rightarrow> False | Some l \<Rightarrow> l \<le> 1), activities)
        else (False, activities))"

definition filter_retain ::
  "(string \<Rightarrow> (string, nix_message) result) \<Rightarrow> string \<Rightarrow> nat bset \<Rightarrow> bool \<times> nat bset" where
  "filter_retain dec line activities =
    (case parse_nix_line dec line of
       Inr (Some m) \<Rightarrow> filter_message m activities
     | _ \<Rightarrow> (False, activities))"

text \<open>\<^verbatim>\<open>is_char_boundary\<close>, walked down from the limit.\<close>

primrec char_boundary :: "string \<Rightarrow> nat \<Rightarrow> nat" where
  "char_boundary s 0 = 0"
| "char_boundary s (Suc n) =
    (if Suc n < length s \<and> is_cont (s ! Suc n) then char_boundary s n else Suc n)"

definition MAX_FIELD :: nat where
  "MAX_FIELD = 8192"

definition TRUNCATED_MARK :: string where
  "TRUNCATED_MARK = [CHR 0xE2, CHR 0x80, CHR 0xA6] @ '' [truncated]''"

definition bound_text :: "string \<Rightarrow> string" where
  "bound_text s =
    (if MAX_FIELD < length s then take (char_boundary s MAX_FIELD) s @ TRUNCATED_MARK else s)"

fun bound_strings :: "json \<Rightarrow> json" where
  "bound_strings (JStr s) = JStr (bound_text s)"
| "bound_strings (JArr vs) = JArr (map bound_strings vs)"
| "bound_strings (JObj m) = JObj (map (\<lambda>(k, v). (k, bound_strings v)) m)"
| "bound_strings JNull = JNull"
| "bound_strings (JBool b) = JBool b"
| "bound_strings (JNum n) = JNum n"

section \<open>The event writer\<close>

record event_record =
  er_v :: int
  er_ts :: json
  er_host :: string
  er_plugin :: string
  er_event :: string
  er_fields :: "(string, json) bmap"

text \<open>The \<^verbatim>\<open>Serialize\<close> instance: the envelope, the preferred keys of the event in their order, then
  the remaining fields.\<close>

definition preferred_keys :: "string \<Rightarrow> (string, json) bmap \<Rightarrow> string list" where
  "preferred_keys event fs =
    (if event = ''status'' \<and> bm_contains fs ''cmd'' then [''cmd'', ''state'']
     else if event = ''status'' then [''rc'', ''state'']
     else if event = ''line'' then [''line'', ''stream'']
     else if event = ''progress'' then
       [''built'', ''finished'', ''fetched'', ''fetched_done'', ''errors'', ''current'']
     else if event = ''nixlog'' then [''line'']
     else [])"

definition record_entries :: "event_record \<Rightarrow> (string \<times> json) list" where
  "record_entries r =
    (let fs = er_fields r; pref = preferred_keys (er_event r) fs
     in [(''v'', JNum (PosInt (nat (er_v r)))), (''ts'', er_ts r), (''host'', JStr (er_host r)),
         (''plugin'', JStr (er_plugin r)), (''event'', JStr (er_event r))]
        @ List.map_filter (\<lambda>k. map_option (Pair k) (map_of fs k)) pref
        @ filter (\<lambda>e. fst e \<notin> set pref) fs)"

record event_writer =
  ew_host :: string
  ew_plugin :: string
  ew_content :: string
  ew_filter :: "nat bset option"
  ew_bytes :: nat
  ew_truncated :: bool

definition INVALID_LABEL :: string where
  "INVALID_LABEL = ''event stream and host must be bare RFC 1123 labels''"

text \<open>Opening for append: \<open>existing\<close> is the content of the stream's file, if the open succeeds.\<close>

definition event_writer_new ::
  "(string, string) result \<Rightarrow> string \<Rightarrow> string \<Rightarrow> string \<Rightarrow> (string, event_writer) result" where
  "event_writer_new existing stream host plugin =
    (if \<not> is_valid_member_name stream \<or> \<not> is_valid_member_name host then Inl INVALID_LABEL
     else (case existing of
         Inl e \<Rightarrow> Inl e
       | Inr content \<Rightarrow>
           Inr \<lparr>ew_host = host, ew_plugin = plugin, ew_content = content,
                ew_filter = (if stream = ''build'' then Some [] else None),
                ew_bytes = length content, ew_truncated = False\<rparr>))"

text \<open>\<^verbatim>\<open>write_all\<close> and the count of its bytes. A write that fails partway leaves what it had written, some
  bytes short of the whole, and these are not counted. \<^verbatim>\<open>flush\<close> of a file does nothing.\<close>

definition write_bytes ::
  "(string \<Rightarrow> (nat \<times> string) option) \<Rightarrow> string \<Rightarrow> event_writer \<Rightarrow> (string, unit) result \<times> event_writer" where
  "write_bytes wr bytes w =
    (case wr bytes of
       Some (k, e) \<Rightarrow> (Inl e, w\<lparr>ew_content := ew_content w @ take k (butlast bytes)\<rparr>)
     | None \<Rightarrow> (Inr (), w\<lparr>ew_content := ew_content w @ bytes, ew_bytes := ew_bytes w + length bytes\<rparr>))"

definition CAP_NOTICE :: string where
  "CAP_NOTICE =
    ''build log size cap reached; subsequent detail omitted (final counters/status retained)''"

definition notice_record :: "json \<Rightarrow> event_writer \<Rightarrow> event_record" where
  "notice_record ts w =
    \<lparr>er_v = EVENT_PROTOCOL_VERSION, er_ts = ts, er_host = ew_host w, er_plugin = ew_plugin w,
     er_event = ''line'', er_fields = [(''line'', JStr CAP_NOTICE), (''stream'', JStr ''mandala'')]\<rparr>"

definition is_terminal_record :: "string \<Rightarrow> (string, json) bmap \<Rightarrow> bool" where
  "is_terminal_record event fs \<longleftrightarrow>
    (event = ''status'' \<and> Option.bind (map_of fs ''state'') as_str = Some ''done'') \<or>
    (event = ''progress'' \<and> Option.bind (map_of fs ''final'') as_bool = Some True)"

definition record_limit :: "bool \<Rightarrow> nat" where
  "record_limit terminal =
    (if terminal then BUILD_LOG_MAX_BYTES else BUILD_LOG_MAX_BYTES - TERMINAL_RESERVE)"

definition emit_notice ::
  "((string \<times> json) list \<Rightarrow> (string, string) result) \<Rightarrow> (string \<Rightarrow> (nat \<times> string) option) \<Rightarrow> json \<Rightarrow> event_writer \<Rightarrow>
    (string, unit) result \<times> event_writer" where
  "emit_notice ser wr ts w =
    (if ew_truncated w then (Inr (), w)
     else
       let w = w\<lparr>ew_truncated := True\<rparr>
       in case ser (record_entries (notice_record ts w)) of
            Inl e \<Rightarrow> (Inl e, w)
          | Inr text \<Rightarrow>
              let notice = text @ [CHR 0x0A]
              in if ew_bytes w + length notice \<le> BUILD_LOG_MAX_BYTES then write_bytes wr notice w
                 else (Inr (), w))"

definition bounded_fields :: "event_writer \<Rightarrow> string \<Rightarrow> (string, json) bmap \<Rightarrow> (string, json) bmap" where
  "bounded_fields w event fs =
    (if ew_filter w \<noteq> None \<and> event \<noteq> ''nixlog'' then map (\<lambda>(k, v). (k, bound_strings v)) fs else fs)"

definition emit_record ::
  "((string \<times> json) list \<Rightarrow> (string, string) result) \<Rightarrow> (string \<Rightarrow> (nat \<times> string) option) \<Rightarrow>
    string \<Rightarrow> (string, json) bmap \<Rightarrow> json \<Rightarrow> event_writer \<Rightarrow> (string, unit) result \<times> event_writer" where
  "emit_record ser wr event fs ts w =
    (let fs = bounded_fields w event fs;
         terminal = is_terminal_record event fs
     in case ser (record_entries \<lparr>er_v = EVENT_PROTOCOL_VERSION, er_ts = ts, er_host = ew_host w,
                er_plugin = ew_plugin w, er_event = event, er_fields = fs\<rparr>) of
          Inl e \<Rightarrow> (Inl e, w)
        | Inr text \<Rightarrow>
            let bytes = text @ [CHR 0x0A]
            in if ew_filter w \<noteq> None \<and>
                  ((\<not> terminal \<and> ew_truncated w) \<or>
                   record_limit terminal - 1024 < ew_bytes w + length bytes)
               then emit_notice ser wr ts w
               else write_bytes wr bytes w)"

definition emit_at ::
  "(string \<Rightarrow> (string, nix_message) result) \<Rightarrow>
    ((string \<times> json) list \<Rightarrow> (string, string) result) \<Rightarrow> (string \<Rightarrow> (nat \<times> string) option) \<Rightarrow>
    string \<Rightarrow> (string, json) bmap \<Rightarrow> json \<Rightarrow> event_writer \<Rightarrow> (string, unit) result \<times> event_writer" where
  "emit_at dec ser wr event fs ts w =
    (case (event = ''nixlog'', ew_filter w) of
       (True, Some acts) \<Rightarrow>
         (case filter_retain dec (opt_default [] (Option.bind (map_of fs ''line'') as_str)) acts of
            (keep, acts') \<Rightarrow>
              let w = w\<lparr>ew_filter := Some acts'\<rparr>
              in if keep then emit_record ser wr event fs ts w else (Inr (), w))
     | _ \<Rightarrow> emit_record ser wr event fs ts w)"

section \<open>Bounded fields\<close>

lemma char_boundary_le: "char_boundary s n \<le> n"
  by (induction n) auto

lemma char_boundary_ok:
  "char_boundary s n = 0 \<or> length s \<le> char_boundary s n \<or> \<not> is_cont (s ! char_boundary s n)"
  by (induction n) auto

lemma bound_text_length: "length (bound_text s) \<le> MAX_FIELD + length TRUNCATED_MARK"
  using char_boundary_le [of s MAX_FIELD] by (auto simp: bound_text_def)

fun json_texts :: "json \<Rightarrow> string list" where
  "json_texts (JStr s) = [s]"
| "json_texts (JArr vs) = concat (map json_texts vs)"
| "json_texts (JObj m) = concat (map (\<lambda>(k, v). json_texts v) m)"
| "json_texts _ = []"

lemma concat_map_map:
  "(\<And>x. x \<in> set xs \<Longrightarrow> f (g x) = map h (f x)) \<Longrightarrow> concat (map f (map g xs)) = map h (concat (map f xs))"
  by (induction xs) auto

lemma bound_strings_texts: "json_texts (bound_strings v) = map bound_text (json_texts v)"
proof (induction v)
  case (JArr vs)
  then show ?case unfolding bound_strings.simps json_texts.simps by (intro concat_map_map)
next
  case (JObj m)
  then show ?case unfolding bound_strings.simps json_texts.simps
    by (intro concat_map_map) (auto simp: split_def)
qed auto

section \<open>The byte budget\<close>

definition torn :: "(nat \<times> string) option \<Rightarrow> nat" where
  "torn fault = (case fault of None \<Rightarrow> 0 | Some (k, e) \<Rightarrow> k)"

text \<open>The count is within the cap, and the file is longer by at most \<open>k\<close> bytes that failed writes left.\<close>

definition writer_ok :: "nat \<Rightarrow> event_writer \<Rightarrow> bool" where
  "writer_ok k w \<longleftrightarrow> ew_bytes w \<le> length (ew_content w) \<and> length (ew_content w) \<le> ew_bytes w + k \<and>
    (ew_filter w \<noteq> None \<longrightarrow> ew_bytes w \<le> BUILD_LOG_MAX_BYTES)"

lemma writer_ok_simps [simp]:
  "writer_ok k (w\<lparr>ew_truncated := t\<rparr>) \<longleftrightarrow> writer_ok k w"
  by (simp add: writer_ok_def)

lemma writer_ok_filter: "writer_ok k w \<Longrightarrow> ew_filter w \<noteq> None \<Longrightarrow> writer_ok k (w\<lparr>ew_filter := a\<rparr>)"
  by (simp add: writer_ok_def)

lemma writer_ok_mono: "writer_ok k w \<Longrightarrow> k \<le> k' \<Longrightarrow> writer_ok k' w"
  by (auto simp: writer_ok_def)

lemma write_bytes_facts:
  "(\<exists>r. snd (write_bytes wr b w) = w\<lparr>ew_content := ew_content w @ r\<rparr> \<and> length r \<le> torn (wr b)) \<or>
    snd (write_bytes wr b w) = w\<lparr>ew_content := ew_content w @ b, ew_bytes := ew_bytes w + length b\<rparr>"
  by (auto simp: write_bytes_def torn_def split: option.split)

lemma write_bytes_ok:
  assumes "writer_ok k w" and "ew_filter w \<noteq> None \<longrightarrow> ew_bytes w + length b \<le> BUILD_LOG_MAX_BYTES"
    and "\<And>b. torn (wr b) \<le> t"
  shows "writer_ok (k + t) (snd (write_bytes wr b w))"
  using assms(1,2) assms(3) [of b] write_bytes_facts [of wr b w] by (auto simp: writer_ok_def)

lemma emit_notice_ok:
  assumes "writer_ok k w" and "\<And>b. torn (wr b) \<le> t"
  shows "writer_ok (k + t) (snd (emit_notice ser wr ts w))"
  unfolding emit_notice_def Let_def
  using assms writer_ok_mono [OF assms(1), of "k + t"] by (auto split: sum.split intro!: write_bytes_ok)

lemma record_limit_le: "record_limit t - 1024 \<le> BUILD_LOG_MAX_BYTES"
  by (auto simp: record_limit_def)

lemma emit_record_ok:
  assumes "writer_ok k w" and "\<And>b. torn (wr b) \<le> t"
  shows "writer_ok (k + t) (snd (emit_record ser wr event fs ts w))"
  unfolding emit_record_def Let_def
  using assms writer_ok_mono [OF assms(1), of "k + t"] record_limit_le [of True] record_limit_le [of False]
  by (auto split: sum.split intro!: write_bytes_ok emit_notice_ok
      intro: order_trans [OF _ record_limit_le] simp: not_less)

lemma emit_at_ok:
  assumes "writer_ok k w" and "\<And>b. torn (wr b) \<le> t"
  shows "writer_ok (k + t) (snd (emit_at dec ser wr event fs ts w))"
proof -
  have "writer_ok (k + t) (w\<lparr>ew_filter := Some acts\<rparr>)" if "ew_filter w \<noteq> None" for acts
    using writer_ok_filter [OF assms(1) that] by (rule writer_ok_mono) simp
  then show ?thesis
    unfolding emit_at_def Let_def
    using assms by (auto split: option.split bool.split prod.split intro!: emit_record_ok writer_ok_filter)
qed

section \<open>The final records survive the cap\<close>

type_synonym emission = "string \<times> (string, json) bmap \<times> json"

definition record_bytes ::
  "((string \<times> json) list \<Rightarrow> (string, string) result) \<Rightarrow> event_writer \<Rightarrow> emission \<Rightarrow> string" where
  "record_bytes ser w e =
    (case e of (event, fs, ts) \<Rightarrow>
       opt_default [] (ok (ser (record_entries \<lparr>er_v = EVENT_PROTOCOL_VERSION, er_ts = ts,
         er_host = ew_host w, er_plugin = ew_plugin w, er_event = event,
         er_fields = bounded_fields w event fs\<rparr>))) @ [CHR 0x0A])"

definition terminal_emission :: "event_writer \<Rightarrow> emission \<Rightarrow> bool" where
  "terminal_emission w e = (case e of (event, fs, ts) \<Rightarrow> is_terminal_record event (bounded_fields w event fs))"

definition emit_all ::
  "(string \<Rightarrow> (string, nix_message) result) \<Rightarrow> ((string \<times> json) list \<Rightarrow> (string, string) result) \<Rightarrow>
    emission list \<Rightarrow> event_writer \<Rightarrow> event_writer" where
  "emit_all dec ser es w =
    fold (\<lambda>(event, fs, ts) w. snd (emit_at dec ser (\<lambda>_. None) event fs ts w)) es w"

definition same_stream :: "event_writer \<Rightarrow> event_writer \<Rightarrow> bool" where
  "same_stream w w' \<longleftrightarrow> ew_host w' = ew_host w \<and> ew_plugin w' = ew_plugin w \<and>
    (ew_filter w' = None \<longleftrightarrow> ew_filter w = None) \<and> prefix (ew_content w) (ew_content w')"

definition notice_bytes ::
  "((string \<times> json) list \<Rightarrow> (string, string) result) \<Rightarrow> event_writer \<Rightarrow> json \<Rightarrow> string" where
  "notice_bytes ser w ts = opt_default [] (ok (ser (record_entries (notice_record ts w)))) @ [CHR 0x0A]"

text \<open>Bytes used so far, with \<open>used\<close> of them spent on final records.\<close>

definition in_budget :: "nat \<Rightarrow> event_writer \<Rightarrow> bool" where
  "in_budget used w \<longleftrightarrow> ew_filter w \<noteq> None \<and>
    ew_bytes w + (if ew_truncated w then 0 else 1024) \<le> BUILD_LOG_MAX_BYTES - TERMINAL_RESERVE + used"

lemma budget_numbers:
  "BUILD_LOG_MAX_BYTES = 16777216" "TERMINAL_RESERVE = 65536"
  by (simp_all add: BUILD_LOG_MAX_BYTES_def TERMINAL_RESERVE_def)

lemma write_all [simp]:
  "write_bytes (\<lambda>_. None) b w =
    (Inr (), w\<lparr>ew_content := ew_content w @ b, ew_bytes := ew_bytes w + length b\<rparr>)"
  by (simp add: write_bytes_def)

lemma record_bytes_same: "same_stream w w' \<Longrightarrow> record_bytes ser w' e = record_bytes ser w e"
  by (auto simp: same_stream_def record_bytes_def bounded_fields_def split: prod.split)

lemma terminal_same: "same_stream w w' \<Longrightarrow> terminal_emission w' e = terminal_emission w e"
  by (auto simp: same_stream_def terminal_emission_def bounded_fields_def split: prod.split)

lemma notice_same: "same_stream w w' \<Longrightarrow> notice_bytes ser w' ts = notice_bytes ser w ts"
  by (simp add: same_stream_def notice_bytes_def notice_record_def)

lemma same_stream_trans: "same_stream a b \<Longrightarrow> same_stream b c \<Longrightarrow> same_stream a c"
  using prefix_order.trans by (auto simp: same_stream_def)

text \<open>One record on the build stream, when serializing and writing succeed.\<close>

lemma emit_record_step:
  fixes w :: event_writer and event :: string and fs :: "(string, json) bmap" and ts :: json
  assumes ser: "\<And>x. ok (ser x) \<noteq> None" and f: "ew_filter w \<noteq> None"
  defines "b \<equiv> record_bytes ser w (event, fs, ts)"
    and "t \<equiv> terminal_emission w (event, fs, ts)"
    and "w' \<equiv> snd (emit_record ser (\<lambda>_. None) event fs ts w)"
  shows "w' = (if (\<not> t \<and> ew_truncated w) \<or> record_limit t - 1024 < ew_bytes w + length b
    then snd (emit_notice ser (\<lambda>_. None) ts w)
    else w\<lparr>ew_content := ew_content w @ b, ew_bytes := ew_bytes w + length b\<rparr>)"
proof -
  let ?r = "\<lparr>er_v = EVENT_PROTOCOL_VERSION, er_ts = ts, er_host = ew_host w, er_plugin = ew_plugin w,
    er_event = event, er_fields = bounded_fields w event fs\<rparr>"
  obtain body where s: "ser (record_entries ?r) = Inr body"
    using ser [of "record_entries ?r"] by (cases "ser (record_entries ?r)") auto
  have b: "b = body @ [CHR 0x0A]" by (simp add: b_def record_bytes_def s)
  have t: "t = is_terminal_record event (bounded_fields w event fs)" by (simp add: t_def terminal_emission_def)
  have "w' = snd (if (\<not> t \<and> ew_truncated w) \<or> record_limit t - 1024 < ew_bytes w + length b
      then emit_notice ser (\<lambda>_. None) ts w else write_bytes (\<lambda>_. None) b w)"
    using f by (simp add: w'_def emit_record_def Let_def s b t del: write_all)
  then show ?thesis by simp
qed

lemma emit_notice_step:
  assumes ser: "\<And>x. ok (ser x) \<noteq> None"
  shows "snd (emit_notice ser (\<lambda>_. None) ts w) =
    (if ew_truncated w then w
     else if ew_bytes w + length (notice_bytes ser w ts) \<le> BUILD_LOG_MAX_BYTES
       then w\<lparr>ew_truncated := True, ew_content := ew_content w @ notice_bytes ser w ts,
              ew_bytes := ew_bytes w + length (notice_bytes ser w ts)\<rparr>
       else w\<lparr>ew_truncated := True\<rparr>)"
proof -
  obtain body where s: "ser (record_entries (notice_record ts w)) = Inr body"
    using ser [of "record_entries (notice_record ts w)"] by (cases "ser (record_entries (notice_record ts w))") auto
  have "notice_record ts (w\<lparr>ew_truncated := True\<rparr>) = notice_record ts w" by (simp add: notice_record_def)
  then show ?thesis by (simp add: emit_notice_def Let_def s notice_bytes_def)
qed

lemma emit_record_same:
  assumes "\<And>x. ok (ser x) \<noteq> None" and "ew_filter w \<noteq> None"
  shows "same_stream w (snd (emit_record ser (\<lambda>_. None) event fs ts w))"
  unfolding emit_record_step [OF assms] emit_notice_step [OF assms(1)]
  by (auto simp: same_stream_def)

lemma emit_record_within:
  assumes ser: "\<And>x. ok (ser x) \<noteq> None" and w: "in_budget used w"
    and notice: "length (notice_bytes ser w ts) \<le> 1024"
    and t: "\<not> terminal_emission w (event, fs, ts)"
  shows "in_budget used (snd (emit_record ser (\<lambda>_. None) event fs ts w))"
proof -
  have f: "ew_filter w \<noteq> None" using w by (simp add: in_budget_def)
  show ?thesis
    unfolding emit_record_step [OF ser f] emit_notice_step [OF ser]
    using w notice t by (auto simp: in_budget_def record_limit_def budget_numbers)
qed

lemma emit_record_final:
  assumes ser: "\<And>x. ok (ser x) \<noteq> None" and w: "in_budget used w"
    and t: "terminal_emission w (event, fs, ts)"
    and room: "used + length (record_bytes ser w (event, fs, ts)) \<le> TERMINAL_RESERVE - 1024"
  shows "in_budget (used + length (record_bytes ser w (event, fs, ts))) (snd (emit_record ser (\<lambda>_. None) event fs ts w))"
    and "suffix (record_bytes ser w (event, fs, ts)) (ew_content (snd (emit_record ser (\<lambda>_. None) event fs ts w)))"
proof -
  let ?b = "record_bytes ser w (event, fs, ts)"
  have f: "ew_filter w \<noteq> None" using w by (simp add: in_budget_def)
  have "snd (emit_record ser (\<lambda>_. None) event fs ts w) =
      w\<lparr>ew_content := ew_content w @ ?b, ew_bytes := ew_bytes w + length ?b\<rparr>"
    unfolding emit_record_step [OF ser f]
    using w room t by (auto simp: in_budget_def record_limit_def budget_numbers split: if_splits)
  then show "in_budget (used + length ?b) (snd (emit_record ser (\<lambda>_. None) event fs ts w))"
    "suffix ?b (ew_content (snd (emit_record ser (\<lambda>_. None) event fs ts w)))"
    using w by (auto simp: in_budget_def suffix_def)
qed

text \<open>A final record is never a logger line, so the filter does not touch it.\<close>

lemma terminal_not_nixlog: "terminal_emission w (event, fs, ts) \<Longrightarrow> event \<noteq> ''nixlog''"
  by (auto simp: terminal_emission_def is_terminal_record_def)

lemma emit_at_cases:
  assumes "ew_filter w \<noteq> None"
  shows "\<exists>a. ew_filter (w\<lparr>ew_filter := a\<rparr>) \<noteq> None \<and>
    (snd (emit_at dec ser wr event fs ts w) = w\<lparr>ew_filter := a\<rparr> \<and> event = ''nixlog'' \<or>
     snd (emit_at dec ser wr event fs ts w) = snd (emit_record ser wr event fs ts (w\<lparr>ew_filter := a\<rparr>)) \<and>
       (event \<noteq> ''nixlog'' \<longrightarrow> w\<lparr>ew_filter := a\<rparr> = w))"
proof (cases "event = ''nixlog''")
  case True
  obtain acts where acts: "ew_filter w = Some acts" using assms by auto
  obtain keep acts' where r: "filter_retain dec (opt_default [] (Option.bind (map_of fs ''line'') as_str)) acts = (keep, acts')"
    by (cases "filter_retain dec (opt_default [] (Option.bind (map_of fs ''line'') as_str)) acts")
  show ?thesis using True acts r
    by (intro exI [of _ "Some acts'"]) (auto simp: emit_at_def Let_def)
next
  case False
  then show ?thesis using assms
    by (intro exI [of _ "ew_filter w"]) (auto simp: emit_at_def split: option.split)
qed

lemma filter_update_facts:
  assumes "ew_filter w \<noteq> None" and "ew_filter (w\<lparr>ew_filter := a\<rparr>) \<noteq> None"
  shows "same_stream w (w\<lparr>ew_filter := a\<rparr>)" "in_budget used (w\<lparr>ew_filter := a\<rparr>) = in_budget used w"
  using assms by (auto simp: same_stream_def in_budget_def)

lemma emit_at_same:
  assumes ser: "\<And>x. ok (ser x) \<noteq> None" and w: "in_budget used w"
  shows "same_stream w (snd (emit_at dec ser (\<lambda>_. None) event fs ts w))"
proof -
  have f: "ew_filter w \<noteq> None" using w by (simp add: in_budget_def)
  obtain a where a: "ew_filter (w\<lparr>ew_filter := a\<rparr>) \<noteq> None"
    "snd (emit_at dec ser (\<lambda>_. None) event fs ts w) = w\<lparr>ew_filter := a\<rparr> \<or>
     snd (emit_at dec ser (\<lambda>_. None) event fs ts w) = snd (emit_record ser (\<lambda>_. None) event fs ts (w\<lparr>ew_filter := a\<rparr>))"
    using emit_at_cases [OF f, of dec ser "\<lambda>_. None" event fs ts] by blast
  from a(2) show ?thesis
  proof
    assume "snd (emit_at dec ser (\<lambda>_. None) event fs ts w) = w\<lparr>ew_filter := a\<rparr>"
    then show ?thesis using filter_update_facts(1) [OF f a(1)] by (simp only:)
  next
    assume "snd (emit_at dec ser (\<lambda>_. None) event fs ts w) =
      snd (emit_record ser (\<lambda>_. None) event fs ts (w\<lparr>ew_filter := a\<rparr>))"
    then show ?thesis
      using same_stream_trans [OF filter_update_facts(1) [OF f a(1)] emit_record_same [OF ser a(1)]]
      by (simp only:)
  qed
qed

lemma emit_at_within:
  assumes ser: "\<And>x. ok (ser x) \<noteq> None" and w: "in_budget used w"
    and notice: "length (notice_bytes ser w ts) \<le> 1024"
    and t: "\<not> terminal_emission w (event, fs, ts)"
  shows "in_budget used (snd (emit_at dec ser (\<lambda>_. None) event fs ts w))"
proof -
  have f: "ew_filter w \<noteq> None" using w by (simp add: in_budget_def)
  obtain a where a: "ew_filter (w\<lparr>ew_filter := a\<rparr>) \<noteq> None"
    "snd (emit_at dec ser (\<lambda>_. None) event fs ts w) = w\<lparr>ew_filter := a\<rparr> \<or>
     snd (emit_at dec ser (\<lambda>_. None) event fs ts w) = snd (emit_record ser (\<lambda>_. None) event fs ts (w\<lparr>ew_filter := a\<rparr>))"
    using emit_at_cases [OF f, of dec ser "\<lambda>_. None" event fs ts] by blast
  let ?v = "w\<lparr>ew_filter := a\<rparr>"
  have v: "same_stream w ?v" "in_budget used ?v" using filter_update_facts [OF f a(1)] w by auto
  have "in_budget used (snd (emit_record ser (\<lambda>_. None) event fs ts ?v))"
    by (rule emit_record_within [OF ser v(2)])
      (simp_all add: notice_same [OF v(1)] terminal_same [OF v(1)] notice t del: select_convs)
  then show ?thesis using a(2) v(2) by (elim disjE) (simp_all only:)
qed

lemma emit_at_final:
  assumes ser: "\<And>x. ok (ser x) \<noteq> None" and w: "in_budget used w"
    and t: "terminal_emission w (event, fs, ts)"
    and room: "used + length (record_bytes ser w (event, fs, ts)) \<le> TERMINAL_RESERVE - 1024"
  shows "in_budget (used + length (record_bytes ser w (event, fs, ts))) (snd (emit_at dec ser (\<lambda>_. None) event fs ts w))"
    and "suffix (record_bytes ser w (event, fs, ts)) (ew_content (snd (emit_at dec ser (\<lambda>_. None) event fs ts w)))"
proof -
  have "snd (emit_at dec ser (\<lambda>_. None) event fs ts w) = snd (emit_record ser (\<lambda>_. None) event fs ts w)"
    using terminal_not_nixlog [OF t] by (simp add: emit_at_def)
  then show "in_budget (used + length (record_bytes ser w (event, fs, ts))) (snd (emit_at dec ser (\<lambda>_. None) event fs ts w))"
    and "suffix (record_bytes ser w (event, fs, ts)) (ew_content (snd (emit_at dec ser (\<lambda>_. None) event fs ts w)))"
    using emit_record_final [OF ser w t room] by simp_all
qed

definition final_bytes :: "((string \<times> json) list \<Rightarrow> (string, string) result) \<Rightarrow> event_writer \<Rightarrow> emission list \<Rightarrow> nat" where
  "final_bytes ser w es = sum_list (map (\<lambda>e. length (record_bytes ser w e)) (filter (terminal_emission w) es))"

lemma emit_all_final:
  assumes ser: "\<And>x. ok (ser x) \<noteq> None" and notice: "\<And>ts. length (notice_bytes ser w ts) \<le> 1024"
    and "in_budget used w" and "used + final_bytes ser w es \<le> TERMINAL_RESERVE - 1024"
  shows "same_stream w (emit_all dec ser es w) \<and>
    (\<forall>e\<in>set es. terminal_emission w e \<longrightarrow> sublist (record_bytes ser w e) (ew_content (emit_all dec ser es w)))"
  using assms(2-4)
proof (induction es arbitrary: w used)
  case Nil
  then show ?case by (simp add: emit_all_def same_stream_def)
next
  case (Cons e es)
  obtain event fs ts where e: "e = (event, fs, ts)" by (cases e)
  define v where "v = snd (emit_at dec ser (\<lambda>_. None) event fs ts w)"
  have all: "emit_all dec ser (e # es) w = emit_all dec ser es v" by (simp add: emit_all_def e v_def)
  have same: "same_stream w v" unfolding v_def by (rule emit_at_same [OF ser Cons.prems(2)])
  have fb: "final_bytes ser v es = final_bytes ser w es"
  proof -
    have "terminal_emission v = terminal_emission w" by (intro ext terminal_same [OF same])
    then show ?thesis by (simp add: final_bytes_def record_bytes_same [OF same])
  qed
  define used' where "used' = (if terminal_emission w e then used + length (record_bytes ser w e) else used)"
  have budget: "used' + final_bytes ser v es \<le> TERMINAL_RESERVE - 1024"
    using Cons.prems(3) fb by (cases "terminal_emission w e") (simp_all add: used'_def final_bytes_def)
  have "in_budget used' v"
  proof (cases "terminal_emission w e")
    case True
    have "used + length (record_bytes ser w (event, fs, ts)) \<le> TERMINAL_RESERVE - 1024"
      using Cons.prems(3) True by (simp add: final_bytes_def e)
    then show ?thesis
      using emit_at_final(1) [OF ser Cons.prems(2), of event fs ts] True by (simp add: used'_def v_def e)
  next
    case False
    then show ?thesis
      using emit_at_within [OF ser Cons.prems(2,1)] by (simp add: used'_def v_def e)
  qed
  then have ih: "same_stream v (emit_all dec ser es v)"
      "\<forall>e\<in>set es. terminal_emission w e \<longrightarrow> sublist (record_bytes ser w e) (ew_content (emit_all dec ser es v))"
    using Cons.IH [of v used'] budget Cons.prems(1)
    by (simp_all add: record_bytes_same [OF same] terminal_same [OF same] notice_same [OF same])
  moreover have "sublist (record_bytes ser w e) (ew_content (emit_all dec ser es v))" if "terminal_emission w e"
  proof -
    have "used + length (record_bytes ser w (event, fs, ts)) \<le> TERMINAL_RESERVE - 1024"
      using Cons.prems(3) that by (simp add: final_bytes_def e)
    then have "suffix (record_bytes ser w e) (ew_content v)"
      using emit_at_final(2) [OF ser Cons.prems(2), of event fs ts] that by (simp add: v_def e)
    moreover have "prefix (ew_content v) (ew_content (emit_all dec ser es v))"
      using ih(1) by (simp add: same_stream_def)
    ultimately show ?thesis by (meson prefix_imp_sublist suffix_imp_sublist sublist_order.order_trans)
  qed
  ultimately show ?case unfolding all using same_stream_trans [OF same] by auto
qed

section \<open>The filtered log can be replayed\<close>

fun kept_messages :: "nix_message list \<Rightarrow> nat bset \<Rightarrow> nix_message list" where
  "kept_messages [] acts = []"
| "kept_messages (m # ms) acts =
    (case filter_message m acts of (keep, acts') \<Rightarrow>
       if keep then m # kept_messages ms acts' else kept_messages ms acts')"

text \<open>Every stop and result names an activity that a start before it opened and no stop closed.\<close>

fun bracketed :: "nat set \<Rightarrow> nix_message list \<Rightarrow> bool" where
  "bracketed opened [] = True"
| "bracketed opened (m # ms) =
    (let i = opt_default 0 (nm_id m)
     in if nm_action m = ''start'' then bracketed (Set.insert i opened) ms
        else if nm_action m = ''stop'' then i \<in> opened \<and> bracketed (opened - {i}) ms
        else if nm_action m = ''result'' then i \<in> opened \<and> bracketed opened ms
        else bracketed opened ms)"

lemma kept_bracketed: "bracketed (set acts) (kept_messages ms acts)"
proof (induction ms arbitrary: acts)
  case (Cons m ms)
  let ?i = "opt_default 0 (nm_id m)"
  have rest: "set (filter (\<lambda>a. a \<noteq> ?i) acts) = set acts - {?i}" by auto
  have unopened: "?i \<notin> set acts \<Longrightarrow> filter (\<lambda>a. a \<noteq> ?i) acts = acts"
    by (induction acts) auto
  note IH = Cons.IH [of acts] Cons.IH [of "bs_insert ?i acts", simplified]
    Cons.IH [of "filter (\<lambda>a. a \<noteq> ?i) acts", unfolded rest]
  consider "nm_action m = ''start''" | "nm_action m = ''stop''" | "nm_action m = ''result''"
    | "nm_action m \<notin> {''start'', ''stop'', ''result''}" by blast
  then show ?case
    by cases (use IH unopened in \<open>auto simp: filter_message_def Let_def\<close>)
qed simp

section \<open>Properties\<close>

text \<open>A run of emissions, each with the fault of the one write it makes.\<close>

definition emits ::
  "(string \<Rightarrow> (string, nix_message) result) \<Rightarrow> ((string \<times> json) list \<Rightarrow> (string, string) result) \<Rightarrow>
    ((nat \<times> string) option \<times> emission) list \<Rightarrow> event_writer \<Rightarrow> event_writer" where
  "emits dec ser es w = fold (\<lambda>(fault, event, fs, ts) w. snd (emit_at dec ser (\<lambda>_. fault) event fs ts w)) es w"

lemma emits_ok: "writer_ok k w \<Longrightarrow> writer_ok (k + sum_list (map (\<lambda>e. torn (fst e)) es)) (emits dec ser es w)"
proof (induction es arbitrary: k w)
  case (Cons e es)
  obtain fault event fs ts where e: "e = (fault, event, fs, ts)" by (rule prod_cases4)
  have "writer_ok (k + torn fault) (snd (emit_at dec ser (\<lambda>_. fault) event fs ts w))"
    by (rule emit_at_ok [OF Cons.prems]) simp
  from Cons.IH [OF this] show ?case by (simp add: emits_def e add.assoc)
qed (simp add: emits_def)

lemma write_bytes_filter [simp]: "ew_filter (snd (write_bytes wr b w)) = ew_filter w"
  using write_bytes_facts [of wr b w] by auto

lemma emit_notice_filter [simp]: "ew_filter (snd (emit_notice ser wr ts w)) = ew_filter w"
  by (simp add: emit_notice_def Let_def split: sum.split)

lemma emit_record_filter [simp]: "ew_filter (snd (emit_record ser wr event fs ts w)) = ew_filter w"
  by (simp add: emit_record_def Let_def split: sum.split)

lemma emit_at_keeps_filter:
  "ew_filter (snd (emit_at dec ser wr event fs ts w)) = None \<longleftrightarrow> ew_filter w = None"
  by (simp add: emit_at_def Let_def split: option.split prod.split bool.split)

lemma emits_keeps_filter: "ew_filter (emits dec ser es w) = None \<longleftrightarrow> ew_filter w = None"
proof (induction es arbitrary: w)
  case (Cons e es)
  obtain wr event fs ts where "e = (wr, event, fs, ts)" by (rule prod_cases4)
  then show ?case using Cons emit_at_keeps_filter [of dec ser "\<lambda>_. wr" event fs ts w] by (simp add: emits_def)
qed (simp add: emits_def)

text \<open>The build stream's last word survives its size cap. However much was written and cut
  before, every final record (the closing status, the final progress counters) is written whole, as
  long as those records together fit the reserve.\<close>

lemma final_records_survive_cap:
  assumes "\<And>x. ok (ser x) \<noteq> None" and "\<And>ts. length (notice_bytes ser w ts) \<le> 1024"
    and "in_budget 0 w" and "final_bytes ser w es \<le> TERMINAL_RESERVE - 1024"
  shows "prefix (ew_content w) (ew_content (emit_all dec ser es w)) \<and>
    (\<forall>e\<in>set es. terminal_emission w e \<longrightarrow>
      sublist (record_bytes ser w e) (ew_content (emit_all dec ser es w)))"
  using emit_all_final [of ser w 0 es dec] assms by (auto simp: same_stream_def)

definition sample_writer :: event_writer where
  "sample_writer = \<lparr>ew_host = ''web'', ew_plugin = ''build'', ew_content = [], ew_filter = Some [],
    ew_bytes = 0, ew_truncated = False\<rparr>"



text \<open>The log filter keeps a stream that can be replayed: in what it keeps, every stop and every
  result belongs to an activity whose start it kept before and whose stop it has not kept yet.\<close>

lemma filtered_log_is_bracketed:
  "bracketed {} (kept_messages ms [])"
  using kept_bracketed [of "[]"] by simp

text \<open>Bounding a record shortens its strings only: every string of the value is replaced by itself
  or by a beginning of at most 8192 bytes, cut between characters, with the truncation mark.\<close>

lemma bounded_strings_are_cut:
  "json_texts (bound_strings v) = map bound_text (json_texts v) \<and>
    length (bound_text s) \<le> 8192 + length TRUNCATED_MARK \<and>
    (bound_text s = s \<or> (\<exists>n. bound_text s = take n s @ TRUNCATED_MARK \<and> n \<le> 8192 \<and>
      (n = 0 \<or> n < length s \<and> is_cont (s ! n) = False)))"
proof -
  have "bound_text s = s \<or> (\<exists>n. bound_text s = take n s @ TRUNCATED_MARK \<and> n \<le> 8192 \<and>
      (n = 0 \<or> n < length s \<and> is_cont (s ! n) = False))"
  proof (cases "MAX_FIELD < length s")
    case True
    have "char_boundary s MAX_FIELD \<le> MAX_FIELD" by (rule char_boundary_le)
    then have "char_boundary s MAX_FIELD < length s" using True by linarith
    then show ?thesis
      using char_boundary_ok [of s MAX_FIELD] char_boundary_le [of s MAX_FIELD] True
      by (auto simp: bound_text_def MAX_FIELD_def)
  qed (simp add: bound_text_def)
  then show ?thesis
    using bound_strings_texts bound_text_length [of s] by (simp add: MAX_FIELD_def)
qed

end
