(* ===== verification/Registry.thy ===== *)
theory Registry
  imports FileStore EventStream "HOL-Library.Word"
begin

text \<open>The run registry (\<^verbatim>\<open>crates/mandala-core/src/registry.rs\<close>): run identifiers, pid probing,
  atomic metadata, pruning, exclusive allocation and the liveness verdict. The registry root is the
  map from directory names to run directories; the calendar (\<^verbatim>\<open>chrono\<close>), the signal probe of the
  operating system and JSON text are arguments.\<close>

definition DEFAULT_KEEP :: nat where
  "DEFAULT_KEEP = 20"

definition DEFAULT_MAX_AGE_DAYS :: nat where
  "DEFAULT_MAX_AGE_DAYS = 30"

type_synonym meta = "(string, json) bmap"

section \<open>Retention settings\<close>

text \<open>\<^verbatim>\<open>str::parse::<i64>\<close>.\<close>

definition parse_i64 :: "string \<Rightarrow> int option" where
  "parse_i64 s =
    (let (neg, d) = (case s of c # r \<Rightarrow> if c = CHR ''-'' then (True, r)
                       else if c = CHR ''+'' then (False, r) else (False, s) | [] \<Rightarrow> (False, s))
     in if d \<noteq> [] \<and> list_all is_ascii_digit d \<and>
           dec_value d \<le> (if neg then I64_MAX + 1 else I64_MAX)
        then Some (if neg then - int (dec_value d) else int (dec_value d)) else None)"

definition keep_env :: "string option \<Rightarrow> nat" where
  "keep_env raw =
    (case opt_filter (\<lambda>r. r \<noteq> []) raw of
       None \<Rightarrow> DEFAULT_KEEP
     | Some r \<Rightarrow> (case parse_i64 r of None \<Rightarrow> DEFAULT_KEEP | Some n \<Rightarrow> nat (max n 1)))"

section \<open>Run identifiers\<close>

definition slice :: "nat \<Rightarrow> nat \<Rightarrow> 'a list \<Rightarrow> 'a list" where
  "slice a b s = take (b - a) (drop a s)"

text \<open>The pid is folded with a saturating multiplication and a plain addition, which wraps.\<close>

definition pid_fold :: "string \<Rightarrow> nat" where
  "pid_fold ds = foldl (\<lambda>n b. wrap_add (min (n * 10) U64_MAX) (byte b - 48)) 0 ds"

definition is_valid_run_id :: "(string \<Rightarrow> bool) \<Rightarrow> string \<Rightarrow> bool" where
  "is_valid_run_id timestamp_ok run_id \<longleftrightarrow>
    \<not> (length run_id < 24 \<or> list_get 8 run_id \<noteq> Some (CHR ''T'') \<or>
       list_get 15 run_id \<noteq> Some (CHR ''_'') \<or> list_get 22 run_id \<noteq> Some (CHR ''-'')) \<and>
    list_all is_ascii_digit (take 8 run_id @ slice 9 15 run_id @ slice 16 22 run_id) \<and>
    timestamp_ok (take 22 run_id) \<and>
    list_all is_ascii_digit (drop 23 run_id) \<and>
    0 < pid_fold (drop 23 run_id)"

section \<open>Pid liveness\<close>

datatype probe_result = ProbeOk | ProbeEPERM | ProbeError

definition real_pid_alive :: "(32 word \<Rightarrow> probe_result) \<Rightarrow> int option \<Rightarrow> bool" where
  "real_pid_alive kill pid =
    (case pid of
       None \<Rightarrow> False
     | Some p \<Rightarrow>
         if p = 0 then False
         else (case kill (word_of_int p) of ProbeOk \<Rightarrow> True | ProbeEPERM \<Rightarrow> True | ProbeError \<Rightarrow> False))"

datatype run_liveness = Running | Finished | RunFailed | RolledBack | LivenessUnknown

fun liveness_str :: "run_liveness \<Rightarrow> string" where
  "liveness_str Running = ''running''"
| "liveness_str Finished = ''finished''"
| "liveness_str RunFailed = ''failed''"
| "liveness_str RolledBack = ''rolled-back''"
| "liveness_str LivenessUnknown = ''unknown''"

section \<open>Metadata\<close>

record run_info =
  ri_run_id :: string
  ri_meta :: meta

definition run_pid :: "meta \<Rightarrow> int option" where
  "run_pid m = Option.bind (map_of m ''pid'') as_i64"

definition run_kind :: "meta \<Rightarrow> string" where
  "run_kind m = opt_default ''deploy'' (Option.bind (map_of m ''kind'') as_str)"

definition META :: string where
  "META = ''meta.json''"

definition META_TMP :: string where
  "META_TMP = ''meta.json.tmp''"

text \<open>A run directory as the map from file names to contents.\<close>

type_synonym run_dir = file_dir

definition read_meta :: "(string \<Rightarrow> json option) \<Rightarrow> run_dir \<Rightarrow> meta" where
  "read_meta parse dir =
    (case map_of dir META of
       None \<Rightarrow> []
     | Some body \<Rightarrow> (case parse body of Some (JObj m) \<Rightarrow> m | _ \<Rightarrow> []))"

text \<open>The file operations of \<open>write_meta\<close>, in order.\<close>

definition write_meta_ops :: "(meta \<Rightarrow> (string, string) result) \<Rightarrow> meta \<Rightarrow> (string, fs_op list) result" where
  "write_meta_ops ser m =
    (case ser m of Inl e \<Rightarrow> Inl e | Inr body \<Rightarrow> Inr (replace_ops META_TMP META body))"

definition merge_meta :: "meta \<Rightarrow> meta \<Rightarrow> meta" where
  "merge_meta m extra = fold (\<lambda>e. bm_insert (fst e) (snd e)) extra m"

definition update_meta_ops ::
  "(string \<Rightarrow> json option) \<Rightarrow> (meta \<Rightarrow> (string, string) result) \<Rightarrow> run_dir \<Rightarrow> meta \<Rightarrow>
    (string, fs_op list) result" where
  "update_meta_ops parse ser dir extra = write_meta_ops ser (merge_meta (read_meta parse dir) extra)"

section \<open>Listing and pruning\<close>

text \<open>The registry root: the directories under it by name.\<close>

type_synonym runs_base = "(string, run_dir) bmap"

definition list_runs_in ::
  "(string \<Rightarrow> bool) \<Rightarrow> (string \<Rightarrow> json option) \<Rightarrow> runs_base \<Rightarrow> run_info list" where
  "list_runs_in timestamp_ok parse base =
    rev (sort_key ri_run_id
      (map (\<lambda>(name, dir). \<lparr>ri_run_id = name, ri_meta = read_meta parse dir\<rparr>)
        (filter (\<lambda>(name, _). is_valid_run_id timestamp_ok name) base)))"

definition allocating_pid :: "run_info \<Rightarrow> int option" where
  "allocating_pid info =
    (if ri_meta info = [] then
       (case rsplit_once (CHR ''-'') (ri_run_id info) of None \<Rightarrow> None | Some (_, pid) \<Rightarrow> parse_i64 pid)
     else None)"

definition supervisor_pid :: "meta \<Rightarrow> int option" where
  "supervisor_pid m = Option.bind (map_of m ''supervisor_pid'') as_i64"

definition run_protected :: "(int option \<Rightarrow> bool) \<Rightarrow> run_info \<Rightarrow> bool" where
  "run_protected alive info \<longleftrightarrow>
    alive (run_pid (ri_meta info)) \<or> alive (supervisor_pid (ri_meta info)) \<or> alive (allocating_pid info)"

text \<open>\<open>age\<close> is the whole days since the timestamp of a run id, when it parses.\<close>

definition run_expired :: "(string \<Rightarrow> int option) \<Rightarrow> nat \<Rightarrow> run_info \<Rightarrow> bool" where
  "run_expired age max_age_days info \<longleftrightarrow>
    0 < max_age_days \<and>
    (case age (take 22 (ri_run_id info)) of
       None \<Rightarrow> False
     | Some days \<Rightarrow> int (min max_age_days I64_MAX) \<le> days)"

text \<open>One pass over the runs, most recent first: the ids to remove.\<close>

fun prune_select ::
  "(int option \<Rightarrow> bool) \<Rightarrow> (string \<Rightarrow> int option) \<Rightarrow> nat \<Rightarrow> nat \<Rightarrow> nat \<Rightarrow> run_info list \<Rightarrow> string list" where
  "prune_select alive age keep days survivors [] = []"
| "prune_select alive age keep days survivors (info # infos) =
    (if run_protected alive info then prune_select alive age keep days survivors infos
     else if keep < survivors + 1 \<or> run_expired age days info then
       ri_run_id info # prune_select alive age keep days (survivors + 1) infos
     else prune_select alive age keep days (survivors + 1) infos)"

text \<open>A removal that fails leaves the directory and is ignored.\<close>

definition prune_policy ::
  "(string \<Rightarrow> bool) \<Rightarrow> (string \<Rightarrow> json option) \<Rightarrow> (int option \<Rightarrow> bool) \<Rightarrow> (string \<Rightarrow> int option) \<Rightarrow>
    (string \<Rightarrow> bool) \<Rightarrow> nat \<Rightarrow> nat \<Rightarrow> runs_base \<Rightarrow> runs_base" where
  "prune_policy timestamp_ok parse alive age removable keep days base =
    fold (\<lambda>name b. if removable name then bm_remove name b else b)
      (prune_select alive age keep days 0 (list_runs_in timestamp_ok parse base)) base"

definition max_age_env :: "string option \<Rightarrow> nat" where
  "max_age_env raw = opt_default DEFAULT_MAX_AGE_DAYS (Option.bind raw (parse_unsigned U64_MAX))"

section \<open>Allocation\<close>

text \<open>Exclusive creation, retried with the next identifier the clock gives; \<^const>\<open>None\<close> when the
  fuel runs out before the clock advances to a free one.\<close>

fun claim_run_dir :: "nat \<Rightarrow> (nat \<Rightarrow> string) \<Rightarrow> nat \<Rightarrow> runs_base \<Rightarrow> (string \<times> runs_base) option" where
  "claim_run_dir 0 ids k base = None"
| "claim_run_dir (Suc n) ids k base =
    (if bm_contains base (ids k) then claim_run_dir n ids (k + 1) base
     else Some (ids k, bm_insert (ids k) [] base))"

definition new_run_dir_in ::
  "nat \<Rightarrow> (nat \<Rightarrow> string) \<Rightarrow> (runs_base \<Rightarrow> runs_base) \<Rightarrow> runs_base \<Rightarrow> (string \<times> runs_base) option" where
  "new_run_dir_in fuel ids prune base = claim_run_dir fuel ids 0 (prune base)"

definition open_run_in ::
  "(string \<Rightarrow> bool) \<Rightarrow> (string \<Rightarrow> json option) \<Rightarrow> runs_base \<Rightarrow> string \<Rightarrow> run_info option" where
  "open_run_in timestamp_ok parse base run_id =
    (if \<not> is_valid_run_id timestamp_ok run_id then None
     else map_option (\<lambda>dir. \<lparr>ri_run_id = run_id, ri_meta = read_meta parse dir\<rparr>) (map_of base run_id))"

section \<open>The liveness verdict\<close>

record observed_run =
  ob_info :: run_info
  ob_tailer :: event_tailer

definition settle_verdict :: "meta \<Rightarrow> event_tailer \<Rightarrow> run_liveness" where
  "settle_verdict m t =
    (let states = map hr_state (bm_values (et_hosts t))
     in if HRolledBack \<in> set states then RolledBack
        else if HFailed \<in> set states then RunFailed
        else (case Option.bind (map_of m ''rc'') as_i64 of
            Some rc \<Rightarrow> if rc = 0 then Finished else RunFailed
          | None \<Rightarrow>
              if states \<noteq> [] \<and> list_all is_terminal states then Finished
              else if bb_done (et_build t) \<and> bb_rc (et_build t) \<notin> {Some 0, None} then RunFailed
              else LivenessUnknown))"

definition liveness ::
  "(int option \<Rightarrow> bool) \<Rightarrow> (event_tailer \<Rightarrow> nat \<times> event_tailer) \<Rightarrow> meta \<Rightarrow> observed_run \<Rightarrow>
    run_liveness \<times> observed_run" where
  "liveness alive poll fresh_meta ob =
    (let ob = ob\<lparr>ob_info := (ob_info ob)\<lparr>ri_meta := fresh_meta\<rparr>\<rparr>;
         sup = supervisor_pid fresh_meta
     in if map_of fresh_meta ''rc'' = None \<and> sup \<noteq> None \<and> \<not> alive sup then (RunFailed, ob)
        else if alive (run_pid fresh_meta) then (Running, ob)
        else
          let t = snd (poll (ob_tailer ob))
          in (settle_verdict fresh_meta t, ob\<lparr>ob_tailer := t\<rparr>))"

section \<open>Identifiers are single path components\<close>

lemma digit_plain: "is_ascii_digit c \<Longrightarrow> c \<noteq> CHR ''/'' \<and> c \<noteq> CHR ''.''"
  by (auto simp: is_ascii_digit_def byte_def)

lemma list_get_Some: "list_get i s = Some c \<longleftrightarrow> i < length s \<and> s ! i = c"
  by (auto simp: list_get_def)

lemma valid_run_id_chars:
  assumes "is_valid_run_id ts run_id" and "c \<in> set run_id"
  shows "is_ascii_digit c \<or> c \<in> {CHR ''T'', CHR ''_'', CHR ''-''}"
proof -
  obtain i where i: "i < length run_id" "run_id ! i = c" using assms(2) by (metis in_set_conv_nth)
  have v: "24 \<le> length run_id" "run_id ! 8 = CHR ''T''" "run_id ! 15 = CHR ''_''" "run_id ! 22 = CHR ''-''"
    "\<forall>d\<in>set (take 8 run_id) \<union> set (slice 9 15 run_id) \<union> set (slice 16 22 run_id) \<union> set (drop 23 run_id).
      is_ascii_digit d"
    using assms(1) by (auto simp: is_valid_run_id_def list_get_Some list_all_iff)
  have mem: "a \<le> i \<Longrightarrow> i < b \<Longrightarrow> c \<in> set (slice a b run_id)" for a b
    using i by (auto simp: slice_def in_set_conv_nth intro!: exI [of _ "i - a"])
  consider "i < 8" | "i = 8" | "9 \<le> i" "i < 15" | "i = 15" | "16 \<le> i" "i < 22" | "i = 22" | "23 \<le> i"
    by linarith
  then show ?thesis
  proof cases
    case 1
    then have "c \<in> set (take 8 run_id)" using mem [of 0 8] by (simp add: slice_def)
    then show ?thesis using v(5) by blast
  next
    case 3
    then show ?thesis using mem [of 9 15] v(5) by blast
  next
    case 5
    then show ?thesis using mem [of 16 22] v(5) by blast
  next
    case 7
    then have "c \<in> set (drop 23 run_id)"
      using i by (auto simp: in_set_conv_nth intro!: exI [of _ "i - 23"])
    then show ?thesis using v(5) by blast
  qed (use i v in auto)
qed

lemma valid_run_id_component:
  assumes "is_valid_run_id ts run_id"
  shows "CHR ''/'' \<notin> set run_id \<and> CHR ''.'' \<notin> set run_id \<and> run_id \<noteq> []"
proof -
  have "c \<in> set run_id \<Longrightarrow> c \<noteq> CHR ''/'' \<and> c \<noteq> CHR ''.''" for c
    using valid_run_id_chars [OF assms, of c] digit_plain [of c] by auto
  moreover have "run_id \<noteq> []" using assms by (auto simp: is_valid_run_id_def)
  ultimately show ?thesis by blast
qed

section \<open>Metadata is replaced atomically\<close>

lemma read_meta_other: "name \<noteq> META \<Longrightarrow> read_meta parse (bm_insert name b dir) = read_meta parse dir"
  by (simp add: read_meta_def)

interpretation meta_file: atomic_file "replace_ops META_TMP META" "\<lambda>dir. map_of dir META"
  by (rule replace_atomic) (simp add: META_def META_TMP_def)

lemma write_meta_crash:
  assumes rt: "parse body = Some (JObj m)" and ops: "write_meta_ops ser m = Inr ops" "ser m = Inr body"
    and crash: "crash_state ops dir dir'"
  shows "read_meta parse dir' \<in> {read_meta parse dir, m}"
proof -
  have "ops = replace_ops META_TMP META body" using ops by (simp add: write_meta_ops_def)
  then have "map_of dir' META \<in> {map_of dir META, Some body}" using meta_file.crash crash by blast
  then show ?thesis using rt by (auto simp: read_meta_def)
qed

lemma merge_meta_lookup: "bm_wf extra \<Longrightarrow> map_of (merge_meta m extra) = map_of m ++ map_of extra"
  using map_of_fold_insert [of extra] bm_wf_distinct [of extra] by (simp add: merge_meta_def bm_keys_def)

lemma write_meta_complete:
  assumes "parse body = Some (JObj m)" and "write_meta_ops ser m = Inr ops" "ser m = Inr body"
  shows "read_meta parse (fs_run ops dir) = m"
  using assms meta_file.complete by (auto simp: write_meta_ops_def read_meta_def)

text \<open>What is relied on of the text of metadata: a parsed object is a sorted map within the reader's limit of nesting,
  and the text of such a map reads back with its integers. Nothing is asked of floats, nor of maps nested deeper.\<close>

definition meta_text :: "(meta \<Rightarrow> (string, string) result) \<Rightarrow> (string \<Rightarrow> json option) \<Rightarrow> bool" where
  "meta_text ser parse \<longleftrightarrow>
    (\<forall>s m. parse s = Some (JObj m) \<longrightarrow> json_fits JSON_DEPTH (JObj m)) \<and>
    (\<forall>m body. json_fits JSON_DEPTH (JObj m) \<longrightarrow> ser m = Inr body \<longrightarrow> (\<exists>m'. parse body = Some (JObj m') \<and>
      (\<forall>k n. \<bar>n\<bar> \<le> int I64_MAX \<longrightarrow> map_of m k = Some (json_of_int n) \<longrightarrow> map_of m' k = Some (json_of_int n))))"

lemma merge_meta_fits:
  assumes "json_fits d (JObj m)" and "json_fits d (JObj extra)"
  shows "json_fits d (JObj (merge_meta m extra))"
proof -
  have "json_fits d (JObj m) \<Longrightarrow> \<forall>e\<in>set xs. json_fits (d - 1) (snd e) \<Longrightarrow>
      json_fits d (JObj (fold (\<lambda>e. bm_insert (fst e) (snd e)) xs m))" for xs
  proof (induction xs arbitrary: m)
    case (Cons x xs)
    then show ?case using fits_insert [of d m "snd x" "fst x"] by (simp del: json_fits.simps)
  qed simp
  moreover have "\<forall>e\<in>set extra. json_fits (d - 1) (snd e)" using assms(2) by simp
  ultimately show ?thesis unfolding merge_meta_def using assms(1) by blast
qed

lemma read_meta_fits: "meta_text ser parse \<Longrightarrow> json_fits JSON_DEPTH (JObj (read_meta parse dir))"
proof -
  assume "meta_text ser parse"
  then have "json_fits JSON_DEPTH (JObj m)" if "parse s = Some (JObj m)" for s m
    using that unfolding meta_text_def by blast
  moreover have "json_fits JSON_DEPTH (JObj [])" by (simp add: JSON_DEPTH_def)
  ultimately show ?thesis by (simp add: read_meta_def split: option.split json.split del: json_fits.simps)
qed

lemma write_meta_int:
  assumes codec: "meta_text ser parse"
    and m: "json_fits JSON_DEPTH (JObj m)" "map_of m k = Some (json_of_int n)" "\<bar>n\<bar> \<le> int I64_MAX"
    and ops: "write_meta_ops ser m = Inr ops"
  shows "map_of (read_meta parse (fs_run ops dir)) k = Some (json_of_int n)"
proof -
  obtain body where body: "ser m = Inr body" "ops = replace_ops META_TMP META body"
    using ops by (auto simp: write_meta_ops_def split: sum.splits)
  then have stored: "map_of (fs_run ops dir) META = Some body" using meta_file.complete by simp
  obtain m' where "parse body = Some (JObj m')" "map_of m' k = Some (json_of_int n)"
    using codec m body(1) unfolding meta_text_def by blast
  then show ?thesis using stored by (simp add: read_meta_def)
qed

section \<open>Pruning spares live and recent runs\<close>

lemma prune_select_subset:
  "r \<in> set (prune_select alive age keep days k infos) \<Longrightarrow>
    \<exists>info\<in>set infos. ri_run_id info = r \<and> \<not> run_protected alive info"
  by (induction infos arbitrary: k) (auto split: if_splits)

lemma prune_select_recent:
  "info \<in> set infos \<Longrightarrow> distinct (map ri_run_id infos) \<Longrightarrow> \<not> run_expired age days info \<Longrightarrow>
    k + count_if (\<lambda>i. \<not> run_protected alive i) (takeWhile (\<lambda>i. i \<noteq> info) infos) < keep \<Longrightarrow>
    ri_run_id info \<notin> set (prune_select alive age keep days k infos)"
proof (induction infos arbitrary: k)
  case (Cons i infos)
  show ?case
  proof (cases "i = info")
    case True
    have "ri_run_id info \<notin> set (prune_select alive age keep days j infos)" for j
      using prune_select_subset [of "ri_run_id info" alive age keep days j infos] Cons.prems(2) True
      by (metis distinct.simps(2) image_eqI list.simps(9) set_map)
    then show ?thesis using True Cons.prems(3,4) by simp
  next
    case False
    have "ri_run_id i \<noteq> ri_run_id info"
      using Cons.prems(1,2) False by (metis distinct.simps(2) image_eqI list.simps(9) set_ConsD set_map)
    then show ?thesis
      using Cons.IH [of k] Cons.IH [of "k + 1"] Cons.prems False by (auto split: if_splits)
  qed
qed simp

lemma prune_select_full:
  "keep \<le> k \<Longrightarrow> info \<in> set infos \<Longrightarrow> \<not> run_protected alive info \<Longrightarrow>
    ri_run_id info \<in> set (prune_select alive age keep days k infos)"
  by (induction infos arbitrary: k) auto

lemma prune_select_bound:
  "k \<le> keep \<Longrightarrow> distinct (map ri_run_id infos) \<Longrightarrow>
    k + count_if (\<lambda>i. \<not> run_protected alive i \<and>
      ri_run_id i \<notin> set (prune_select alive age keep days k infos)) infos \<le> keep"
proof (induction infos arbitrary: k)
  case (Cons i infos)
  have neq: "x \<in> set infos \<Longrightarrow> ri_run_id x \<noteq> ri_run_id i" for x
    using Cons.prems(2) by (metis distinct.simps(2) image_eqI list.simps(9) set_map)
  have same: "count_if (\<lambda>x. \<not> run_protected alive x \<and> ri_run_id x \<notin> Set.insert (ri_run_id i) S) infos =
      count_if (\<lambda>x. \<not> run_protected alive x \<and> ri_run_id x \<notin> S) infos" for S
    unfolding count_if_def by (rule arg_cong [where f = length], rule filter_cong) (simp_all add: neq)
  show ?case
  proof (cases "run_protected alive i")
    case True
    then show ?thesis using Cons by simp
  next
    case dead: False
    show ?thesis
    proof (cases "keep < k + 1")
      case True
      then have "count_if (\<lambda>x. \<not> run_protected alive x \<and>
          ri_run_id x \<notin> set (prune_select alive age keep days (k + 1) infos)) infos = 0"
        using prune_select_full [of keep "k + 1" _ infos alive age days]
        by (auto simp: count_if_def filter_empty_conv)
      then show ?thesis using True dead Cons.prems(1) same by simp
    next
      case False
      have "k + 1 + count_if (\<lambda>x. \<not> run_protected alive x \<and>
          ri_run_id x \<notin> set (prune_select alive age keep days (k + 1) infos)) infos \<le> keep"
        using Cons.IH [of "k + 1"] Cons.prems False by simp
      moreover have "ri_run_id i \<notin> set (prune_select alive age keep days (k + 1) infos)"
        using prune_select_subset [of "ri_run_id i" alive age keep days "k + 1" infos] neq by blast
      ultimately show ?thesis using False dead same by simp
    qed
  qed
qed simp

lemma list_runs_distinct: "bm_wf base \<Longrightarrow> distinct (map ri_run_id (list_runs_in ts parse base))"
proof -
  assume "bm_wf base"
  then have "distinct (map fst (filter (\<lambda>(name, _). is_valid_run_id ts name) base))"
    using bm_wf_distinct [of base] by (simp add: bm_keys_def distinct_map_filter)
  then have "distinct (map ri_run_id (map (\<lambda>(name, dir). \<lparr>ri_run_id = name, ri_meta = read_meta parse dir\<rparr>)
      (filter (\<lambda>(name, _). is_valid_run_id ts name) base)))"
    by (simp add: comp_def split_def)
  then show ?thesis
    unfolding list_runs_in_def rev_map [symmetric] distinct_rev
    by (simp add: distinct_map del: map_map)
qed

lemma list_runs_sorted: "sorted (map ri_run_id (rev (list_runs_in ts parse base)))"
  by (simp add: list_runs_in_def)

lemma set_list_runs:
  "info \<in> set (list_runs_in ts parse base) \<longleftrightarrow>
    (\<exists>name dir. (name, dir) \<in> set base \<and> is_valid_run_id ts name \<and>
      info = \<lparr>ri_run_id = name, ri_meta = read_meta parse dir\<rparr>)"
  by (auto simp: list_runs_in_def image_iff split: prod.splits)

lemma fold_remove_lookup:
  "map_of (fold (\<lambda>name b. if P name then bm_remove name b else b) names m) k =
    (if k \<in> set names \<and> P k then None else map_of m k)"
  by (induction names arbitrary: m) (auto simp: map_of_bm_remove)

lemma prune_policy_lookup:
  "map_of (prune_policy ts parse alive age removable keep days base) name =
    (if name \<in> set (prune_select alive age keep days 0 (list_runs_in ts parse base)) \<and> removable name
     then None else map_of base name)"
  by (simp add: prune_policy_def fold_remove_lookup)

lemma prune_policy_wf: "bm_wf base \<Longrightarrow> bm_wf (prune_policy ts parse alive age removable keep days base)"
proof -
  have "bm_wf m \<Longrightarrow> bm_wf (fold (\<lambda>name b. if P name then bm_remove name b else b) names m)" for P names m
    by (induction names arbitrary: m) (simp_all add: bm_wf_remove)
  then show "bm_wf base \<Longrightarrow> ?thesis" by (simp add: prune_policy_def)
qed

lemma prune_spares_protected:
  assumes wf: "bm_wf base" and d: "map_of base name = Some dir"
    and p: "run_protected alive \<lparr>ri_run_id = name, ri_meta = read_meta parse dir\<rparr> \<or> \<not> is_valid_run_id ts name"
  shows "map_of (prune_policy ts parse alive age removable keep days base) name = Some dir"
proof -
  have "name \<notin> set (prune_select alive age keep days 0 (list_runs_in ts parse base))"
  proof
    assume "name \<in> set (prune_select alive age keep days 0 (list_runs_in ts parse base))"
    then obtain info where i: "info \<in> set (list_runs_in ts parse base)" "ri_run_id info = name"
        "\<not> run_protected alive info"
      using prune_select_subset by blast
    then obtain dir' where "(name, dir') \<in> set base" "is_valid_run_id ts name"
        "info = \<lparr>ri_run_id = name, ri_meta = read_meta parse dir'\<rparr>"
      by (auto simp: set_list_runs)
    moreover from this have "dir' = dir"
      using d map_of_Some_in_wf [OF wf, of name] by (metis option.inject)
    ultimately show False using p i(3) by simp
  qed
  then show ?thesis using d by (simp add: prune_policy_lookup)
qed

section \<open>Allocation is exclusive\<close>

lemma claim_fresh:
  "claim_run_dir n ids k base = Some (name, base') \<Longrightarrow>
    map_of base name = None \<and> base' = bm_insert name [] base \<and> (\<exists>j. name = ids (k + j) \<and> j < n)"
proof (induction n arbitrary: k)
  case (Suc n)
  show ?case
  proof (cases "bm_contains base (ids k)")
    case True
    then obtain j where "map_of base name = None" "base' = bm_insert name [] base" "name = ids (k + 1 + j)" "j < n"
      using Suc by fastforce
    then show ?thesis by (intro conjI exI [of _ "j + 1"]) simp_all
  next
    case False
    then show ?thesis using Suc.prems by (auto simp: bm_contains_def intro: exI [of _ 0])
  qed
qed simp

lemma claim_total:
  "\<exists>j<n. \<not> bm_contains base (ids (k + j)) \<Longrightarrow> claim_run_dir n ids k base \<noteq> None"
proof (induction n arbitrary: k)
  case (Suc n)
  show ?case
  proof (cases "bm_contains base (ids k)")
    case True
    obtain j where j: "j < Suc n" "\<not> bm_contains base (ids (k + j))" using Suc.prems by blast
    then have "j \<noteq> 0" using True by (metis add.right_neutral)
    then obtain i where "j = Suc i" by (cases j) auto
    then have "\<exists>i<n. \<not> bm_contains base (ids (k + 1 + i))" using j by auto
    then show ?thesis using Suc.IH [of "k + 1"] True by simp
  qed simp
qed simp

section \<open>The verdict\<close>

lemma settle_finished:
  assumes "settle_verdict m t = Finished"
  shows "\<not> has_unsuccessful_host t"
  using assms
  by (auto simp: settle_verdict_def Let_def has_unsuccessful_host_def list_ex_iff image_iff split: if_splits)

lemma liveness_finished:
  "liveness alive poll m ob = (Finished, ob') \<Longrightarrow>
    \<not> has_unsuccessful_host (ob_tailer ob') \<and> \<not> alive (run_pid m)"
  using settle_finished by (auto simp: liveness_def Let_def split: if_splits)

lemma liveness_rolled_back:
  "HRolledBack \<in> hr_state ` set (bm_values (et_hosts t)) \<Longrightarrow> settle_verdict m t = RolledBack"
  by (simp add: settle_verdict_def Let_def)

lemma count_if_mono: "(\<And>x. P x \<Longrightarrow> Q x) \<Longrightarrow> count_if P xs \<le> count_if Q xs"
  by (induction xs) auto

section \<open>Properties\<close>

text \<open>A valid run id is one path component made of digits and the separators, so joining it to the
  registry root cannot leave the root; \<^verbatim>\<open>open_run_in\<close> opens only such directories, and only those
  that exist.\<close>

lemma run_ids_stay_inside_the_root:
  assumes "open_run_in timestamp_ok parse base run_id = Some info"
  shows "CHR ''/'' \<notin> set run_id \<and> CHR ''.'' \<notin> set run_id \<and> 24 \<le> length run_id \<and>
    ri_run_id info = run_id \<and> map_of base run_id \<noteq> None"
  using assms valid_run_id_component [of timestamp_ok run_id]
  by (auto simp: open_run_in_def is_valid_run_id_def split: if_splits)

definition sample_run_id :: string where
  "sample_run_id = ''20250102T030405_123456-4242''"

lemma sample_run_valid: "is_valid_run_id (\<lambda>_. True) sample_run_id"
  by (simp add: is_valid_run_id_def sample_run_id_def list_get_def slice_def pid_fold_def wrap_add_def
      U64_MAX_def byte_def is_ascii_digit_def)

lemma sample_run_allocator: "allocating_pid \<lparr>ri_run_id = sample_run_id, ri_meta = []\<rparr> = Some 4242"
  by (simp add: allocating_pid_def sample_run_id_def rsplit_once_def parse_i64_def dec_value_def
      is_ascii_digit_def byte_def I64_MAX_def)



text \<open>C22: Pruning is safe: a run with a living process, supervisor or allocator, and any directory
  that is not a run, keep their contents; a directory that is removed belonged to a run that is none
  of these, and nothing is added.\<close>

theorem prune_spares_live_runs:
  assumes "bm_wf base" and "map_of base name = Some dir"
    and "run_protected alive \<lparr>ri_run_id = name, ri_meta = read_meta parse dir\<rparr> \<or>
      \<not> is_valid_run_id timestamp_ok name"
  shows "map_of (prune_policy timestamp_ok parse alive age removable keep days base) name = Some dir \<and>
    set (bm_keys (prune_policy timestamp_ok parse alive age removable keep days base)) \<subseteq> set (bm_keys base)"
proof -
  let ?p = "prune_policy timestamp_ok parse alive age removable keep days base"
  have "map_of ?p k \<noteq> None \<Longrightarrow> map_of base k \<noteq> None" for k
    by (auto simp: prune_policy_lookup split: if_splits)
  then have "set (bm_keys ?p) \<subseteq> set (bm_keys base)" using bm.keys_get by blast
  then show ?thesis using prune_spares_protected [OF assms] by blast
qed

theorem prune_spares_live_runs_witness:
  "map_of (prune_policy (\<lambda>_. True) (\<lambda>_. None) (\<lambda>p. p = Some 4242) (\<lambda>_. Some 99) (\<lambda>_. True) 1 30
    [(sample_run_id, [])]) sample_run_id = Some []"
proof -
  have "run_protected (\<lambda>p. p = Some 4242) \<lparr>ri_run_id = sample_run_id, ri_meta = read_meta (\<lambda>_. None) []\<rparr>"
    by (simp add: run_protected_def read_meta_def sample_run_allocator)
  then show ?thesis
    using prune_spares_live_runs [of "[(sample_run_id, [])]" sample_run_id "[]"] by (simp add: bm_wf_def)
qed

text \<open>Pruning is effective: when removals succeed, at most \<open>keep\<close> dead runs are left.\<close>

lemma prune_bounds_dead_runs:
  assumes "bm_wf base"
  shows "count_if (\<lambda>i. \<not> run_protected alive i \<and>
      map_of (prune_policy timestamp_ok parse alive age (\<lambda>_. True) keep days base) (ri_run_id i) \<noteq> None)
    (list_runs_in timestamp_ok parse base) \<le> keep"
proof -
  let ?rs = "list_runs_in timestamp_ok parse base"
  let ?sel = "prune_select alive age keep days 0 ?rs"
  have "count_if (\<lambda>i. \<not> run_protected alive i \<and> ri_run_id i \<notin> set ?sel) ?rs \<le> keep"
    using prune_select_bound [of 0 keep ?rs alive age days] list_runs_distinct [OF assms] by simp
  moreover have "count_if (\<lambda>i. \<not> run_protected alive i \<and>
      map_of (prune_policy timestamp_ok parse alive age (\<lambda>_. True) keep days base) (ri_run_id i) \<noteq> None) ?rs
    \<le> count_if (\<lambda>i. \<not> run_protected alive i \<and> ri_run_id i \<notin> set ?sel) ?rs"
    by (rule count_if_mono) (simp add: prune_policy_lookup split: if_splits)
  ultimately show ?thesis by simp
qed

text \<open>Allocation is exclusive and its result is safe: a new run directory did not exist before,
  nothing else changes, and as long as the allocating process (named by the id's suffix) lives, a
  prune by another process spares the directory although it has no metadata yet. One fresh id among
  the first \<open>fuel\<close> the clock gives is enough to succeed.\<close>

lemma allocation_is_exclusive:
  assumes wf: "bm_wf base" and fuel: "\<exists>j<fuel. \<not> bm_contains (prune base) (ids j)"
    and prune: "\<And>b. bm_wf b \<Longrightarrow> bm_wf (prune b)"
    and pid: "\<And>j. \<exists>p. allocating_pid \<lparr>ri_run_id = ids j, ri_meta = []\<rparr> = Some p \<and> alive (Some p)"
  shows "\<exists>name base'. new_run_dir_in fuel ids prune base = Some (name, base') \<and>
    map_of (prune base) name = None \<and> base' = bm_insert name [] (prune base) \<and>
    map_of (prune_policy timestamp_ok parse alive age removable keep days base') name = Some []"
proof -
  obtain name base' where claim: "claim_run_dir fuel ids 0 (prune base) = Some (name, base')"
    using claim_total [of fuel "prune base" ids 0] fuel by fastforce
  note fresh = claim_fresh [OF claim]
  then obtain j where name: "name = ids j" by auto
  have "alive (allocating_pid \<lparr>ri_run_id = name, ri_meta = read_meta parse []\<rparr>)"
    using pid [of j] by (auto simp: name read_meta_def)
  then have "run_protected alive \<lparr>ri_run_id = name, ri_meta = read_meta parse []\<rparr>"
    by (simp add: run_protected_def)
  moreover have "bm_wf base'" "map_of base' name = Some []"
    using fresh prune [OF wf] by (simp_all add: bm_wf_insert)
  ultimately have "map_of (prune_policy timestamp_ok parse alive age removable keep days base') name = Some []"
    by (intro prune_spares_protected) simp_all
  then show ?thesis using claim fresh by (auto simp: new_run_dir_in_def)
qed

text \<open>A run is reported finished only when its process is gone and no host failed or rolled back;
  a rolled-back host is always reported, and a run whose process lives is reported running, unless
  its supervisor died before recording an exit code, which is a failure.\<close>

lemma liveness_verdicts:
  assumes "liveness alive poll m ob = (verdict, ob')"
  shows "(verdict = Finished \<longrightarrow> \<not> alive (run_pid m) \<and> \<not> has_unsuccessful_host (ob_tailer ob')) \<and>
    (verdict = Running \<longleftrightarrow> alive (run_pid m) \<and>
      \<not> (map_of m ''rc'' = None \<and> supervisor_pid m \<noteq> None \<and> \<not> alive (supervisor_pid m))) \<and>
    (verdict \<noteq> Running \<and> HRolledBack \<in> hr_state ` set (bm_values (et_hosts (ob_tailer ob'))) \<longrightarrow>
      verdict = RolledBack \<or> verdict = RunFailed)"
proof -
  have "settle_verdict m t \<noteq> Running" for t
    by (simp add: settle_verdict_def Let_def split: option.split)
  then show ?thesis
    using assms liveness_finished [of alive poll m ob ob'] liveness_rolled_back
    by (auto simp: liveness_def Let_def split: if_splits)
qed

end
