(* ===== verification/Eval.thy ===== *)
theory Eval
  imports Inventory
begin

text \<open>The evaluation client (\<^verbatim>\<open>crates/mandala-core/src/eval.rs\<close>): the supervised worker process with
  its respawn, timeout and request-id rules, and the cold subprocess backend. What the outside
  does is gathered in the record \<open>eval_env\<close>: whether the \<open>n\<close>-th process starts, what it does on a
  request after those sent to it before, how a line parses, what a \<^verbatim>\<open>nix\<close> command prints. A worker
  is its process number with the requests it was sent; the live processes and the shutdown latch are
  the process-wide statics of the source.\<close>

section \<open>Data\<close>

record toplevels =
  tl_paths :: "(string, string) bmap"
  tl_errors :: "(string, string) bmap"

definition toplevels_default :: toplevels where
  "toplevels_default = \<lparr>tl_paths = [], tl_errors = []\<rparr>"

definition is_complete :: "toplevels \<Rightarrow> bool" where
  "is_complete t \<longleftrightarrow> tl_errors t = []"

definition toplevels_from :: "(string, string) bmap \<Rightarrow> toplevels" where
  "toplevels_from paths = \<lparr>tl_paths = paths, tl_errors = []\<rparr>"

definition DEFAULT_TIMEOUT :: nat where
  "DEFAULT_TIMEOUT = 600"

text \<open>Seconds; \<^const>\<open>None\<close> is unbounded.\<close>

definition parse_timeout :: "string option \<Rightarrow> nat option" where
  "parse_timeout raw =
    (case Option.bind raw (\<lambda>s. parse_unsigned U64_MAX (trim s)) of
       Some secs \<Rightarrow> if secs = 0 then None else Some secs
     | None \<Rightarrow> Some DEFAULT_TIMEOUT)"

datatype backend = WorkerBackend | SubprocessBackend

definition backend_from_env :: "string option \<Rightarrow> backend" where
  "backend_from_env v = (if v = Some ''subprocess'' then SubprocessBackend else WorkerBackend)"

record worker =
  wk_pid :: nat
  wk_sent :: "json list"

record evaluator =
  ev_backend :: backend
  ev_worker :: "worker option"
  ev_next_id :: nat
  ev_quiet :: bool
  ev_timeout :: "nat option"

record eval_world =
  wo_spawned :: nat
  wo_live :: "nat list"
  wo_down :: bool

datatype worker_reply =
  WriteError string | NoReply | ClosedStdout | ReadError string | ReplyLine string

datatype nix_run = NixSpawnError string | NixFailed string | NixOutput string

record eval_env =
  en_spawn :: "nat \<Rightarrow> string option"
  en_reply :: "nat \<Rightarrow> json list \<Rightarrow> worker_reply"
  en_parse :: "string \<Rightarrow> (string, json) result"
  en_canonical :: "string \<Rightarrow> string option"
  en_nix :: "string list \<Rightarrow> nix_run"
  en_names :: "string list \<Rightarrow> (string, string) result"

definition evaluator_new :: "backend \<Rightarrow> evaluator" where
  "evaluator_new backend = \<lparr>ev_backend = backend, ev_worker = None, ev_next_id = 1, ev_quiet = False,
    ev_timeout = Some DEFAULT_TIMEOUT\<rparr>"

definition evaluator_from_env :: "string option \<Rightarrow> string option \<Rightarrow> evaluator" where
  "evaluator_from_env eval_var timeout_var =
    (evaluator_new (backend_from_env eval_var))\<lparr>ev_timeout := parse_timeout timeout_var\<rparr>"

definition canonical_flake :: "eval_env \<Rightarrow> string \<Rightarrow> string" where
  "canonical_flake env flake = opt_default flake (en_canonical env flake)"

section \<open>The worker\<close>

type_synonym eval_state = "evaluator \<times> eval_world"

text \<open>Starting a process, unless the latch is set; the new pid is registered as live.\<close>

definition worker_spawn :: "eval_env \<Rightarrow> eval_world \<Rightarrow> (string, worker) result \<times> eval_world" where
  "worker_spawn env w =
    (if wo_down w then (Inl ''evaluator shut down'', w)
     else (case en_spawn env (wo_spawned w) of
         Some e \<Rightarrow> (Inl e, w\<lparr>wo_spawned := wo_spawned w + 1\<rparr>)
       | None \<Rightarrow>
           (Inr \<lparr>wk_pid = wo_spawned w, wk_sent = []\<rparr>,
            w\<lparr>wo_spawned := wo_spawned w + 1, wo_live := wo_live w @ [wo_spawned w]\<rparr>)))"

text \<open>Dropping a worker deregisters, kills and reaps it.\<close>

definition worker_drop :: "worker option \<Rightarrow> eval_world \<Rightarrow> eval_world" where
  "worker_drop wk w =
    (case wk of None \<Rightarrow> w | Some k \<Rightarrow> w\<lparr>wo_live := filter (\<lambda>p. p \<noteq> wk_pid k) (wo_live w)\<rparr>)"

definition shutdown_workers :: "eval_world \<Rightarrow> nat list \<times> eval_world" where
  "shutdown_workers w = (wo_live w, w\<lparr>wo_down := True\<rparr>)"

datatype roundtrip_error = Transport string | Timeout nat

definition show_id :: "nat option \<Rightarrow> string" where
  "show_id got = (case got of None \<Rightarrow> ''None'' | Some n \<Rightarrow> ''Some('' @ show_nat n @ '')'')"

definition check_reply :: "eval_env \<Rightarrow> nat \<Rightarrow> string \<Rightarrow> (roundtrip_error, (string \<times> json) list) result" where
  "check_reply env i line =
    (case en_parse env (trim line) of
       Inl e \<Rightarrow> Inl (Transport (''bad worker response '' @ str_debug line @ '': '' @ e))
     | Inr val \<Rightarrow>
         (case as_object val of
            None \<Rightarrow> Inl (Transport ''worker response not an object'')
          | Some obj \<Rightarrow>
              let got = Option.bind (map_of obj ''id'') as_u64
              in if got = Some i then Inr obj
                 else Inl (Transport (''worker reply id '' @ show_id got
                   @ '' does not match request id '' @ show_nat i))))"

text \<open>\<^const>\<open>None\<close> is a wait that never ends: no reply and no bound.\<close>

definition roundtrip ::
  "eval_env \<Rightarrow> nat option \<Rightarrow> json \<Rightarrow> nat \<Rightarrow> worker \<Rightarrow>
    ((roundtrip_error, (string \<times> json) list) result \<times> worker) option" where
  "roundtrip env timeout req i wk =
    (let wk = wk\<lparr>wk_sent := wk_sent wk @ [req]\<rparr>
     in case en_reply env (wk_pid wk) (wk_sent wk) of
          WriteError e \<Rightarrow> Some (Inl (Transport (''write: '' @ e)), wk)
        | NoReply \<Rightarrow> (case timeout of None \<Rightarrow> None | Some bound \<Rightarrow> Some (Inl (Timeout bound), wk))
        | ClosedStdout \<Rightarrow> Some (Inl (Transport ''worker closed stdout''), wk)
        | ReadError e \<Rightarrow> Some (Inl (Transport (''read: '' @ e)), wk)
        | ReplyLine line \<Rightarrow> Some (check_reply env i line, wk))"

definition eval_request :: "nat \<Rightarrow> string \<Rightarrow> string \<Rightarrow> string option \<Rightarrow> string list option \<Rightarrow> json" where
  "eval_request i op flake member mems =
    (let m = bm_insert ''id'' (JNum (PosInt i)) [];
         m = bm_insert ''op'' (JStr op) m;
         m = bm_insert ''flake'' (JStr flake) m;
         m = (case member of None \<Rightarrow> m | Some x \<Rightarrow> bm_insert ''member'' (JStr x) m);
         m = (case mems of None \<Rightarrow> m | Some xs \<Rightarrow> bm_insert ''members'' (JArr (map JStr xs)) m)
     in JObj m)"

definition reply_outcome :: "(string \<times> json) list \<Rightarrow> (string, json option) result" where
  "reply_outcome resp =
    (if Option.bind (map_of resp ''ok'') as_bool = Some True then Inr (map_of resp ''value'')
     else Inl (opt_default ''unknown worker error'' (Option.bind (map_of resp ''error'') as_str)))"

text \<open>One pass of the loop of \<^verbatim>\<open>worker_call\<close>: it settles the call, or it lost the worker.\<close>

datatype attempt_end = Settled "(string, json option) result" | Lost string

definition timeout_message :: "nat \<Rightarrow> string" where
  "timeout_message bound =
    ''eval worker timed out after '' @ show_nat bound
    @ ''s and was killed (MANDALA_EVAL_TIMEOUT raises the bound; 0 disables it)''"

definition ensure_worker :: "eval_env \<Rightarrow> eval_state \<Rightarrow> (string, worker) result \<times> eval_world" where
  "ensure_worker env st =
    (case st of (ev, w) \<Rightarrow>
       (case ev_worker ev of Some wk \<Rightarrow> (Inr wk, w) | None \<Rightarrow> worker_spawn env w))"

definition call_attempt ::
  "eval_env \<Rightarrow> string \<Rightarrow> string \<Rightarrow> string option \<Rightarrow> string list option \<Rightarrow> eval_state \<Rightarrow>
    (attempt_end \<times> eval_state) option" where
  "call_attempt env op flake member mems st =
    (case (st, ensure_worker env st) of
       ((ev, _), (Inl e, w)) \<Rightarrow> Some (Settled (Inl e), (ev, w))
     | ((ev, _), (Inr wk, w)) \<Rightarrow>
         let i = ev_next_id ev;
             ev = ev\<lparr>ev_worker := Some wk, ev_next_id := wrap_add i 1\<rparr>
         in (case roundtrip env (ev_timeout ev) (eval_request i op flake member mems) i wk of
               None \<Rightarrow> None
             | Some (Inr resp, wk) \<Rightarrow> Some (Settled (reply_outcome resp), (ev\<lparr>ev_worker := Some wk\<rparr>, w))
             | Some (Inl (Timeout bound), wk) \<Rightarrow>
                 Some (Settled (Inl (timeout_message bound)), (ev\<lparr>ev_worker := None\<rparr>, worker_drop (Some wk) w))
             | Some (Inl (Transport msg), wk) \<Rightarrow>
                 Some (Lost msg, (ev\<lparr>ev_worker := None\<rparr>, worker_drop (Some wk) w))))"

primrec worker_attempts ::
  "nat \<Rightarrow> eval_env \<Rightarrow> string \<Rightarrow> string \<Rightarrow> string option \<Rightarrow> string list option \<Rightarrow> eval_state \<Rightarrow>
    ((string, json option) result \<times> eval_state) option" where
  "worker_attempts 0 env op flake member mems st = None"
| "worker_attempts (Suc n) env op flake member mems st =
    (case call_attempt env op flake member mems st of
       None \<Rightarrow> None
     | Some (Settled r, st) \<Rightarrow> Some (r, st)
     | Some (Lost msg, st) \<Rightarrow>
         if n = 0 then Some (Inl (''eval worker unavailable: '' @ msg), st)
         else worker_attempts n env op flake member mems st)"

definition worker_call ::
  "eval_env \<Rightarrow> string \<Rightarrow> string \<Rightarrow> string option \<Rightarrow> string list option \<Rightarrow> eval_state \<Rightarrow>
    ((string, json option) result \<times> eval_state) option" where
  "worker_call = worker_attempts 2"

section \<open>The facade\<close>

text \<open>The worker's value per member: an out-path or an error.\<close>

fun parse_worker_entries :: "(json \<Rightarrow> string) \<Rightarrow> (string \<times> json) list \<Rightarrow> toplevels \<Rightarrow> (string, toplevels) result" where
  "parse_worker_entries render [] out = Inr out"
| "parse_worker_entries render ((m, entry) # rest) out =
    (case as_str entry of
       Some path \<Rightarrow> parse_worker_entries render rest (out\<lparr>tl_paths := bm_insert m path (tl_paths out)\<rparr>)
     | None \<Rightarrow>
         (case Option.bind (json_get ''error'' entry) as_str of
            Some e \<Rightarrow> parse_worker_entries render rest (out\<lparr>tl_errors := bm_insert m e (tl_errors out)\<rparr>)
          | None \<Rightarrow> Inl (''expected_toplevels: unreadable entry for '' @ str_debug m @ '': '' @ render entry)))"

definition parse_worker_toplevels :: "(json \<Rightarrow> string) \<Rightarrow> json \<Rightarrow> (string, toplevels) result" where
  "parse_worker_toplevels render value =
    (case as_object value of
       None \<Rightarrow> Inl ''expected_toplevels: non-object value''
     | Some obj \<Rightarrow> parse_worker_entries render obj toplevels_default)"

definition run_nix_eval :: "eval_env \<Rightarrow> string list \<Rightarrow> (string, json) result" where
  "run_nix_eval env args =
    (case en_nix env args of
       NixSpawnError e \<Rightarrow> Inl (''spawn nix: '' @ e)
     | NixFailed err \<Rightarrow> Inl (''nix '' @ join '' '' args @ '' failed: '' @ trim err)
     | NixOutput out \<Rightarrow>
         (case en_parse env out of Inl e \<Rightarrow> Inl (''parse nix output: '' @ e) | Inr v \<Rightarrow> Inr v))"

definition subprocess_aggregate :: "eval_env \<Rightarrow> string \<Rightarrow> (string, json) result" where
  "subprocess_aggregate env flake =
    run_nix_eval env [''eval'', ''--no-warn-dirty'', ''--json'', flake @ ''#mandala'']"

definition toplevels_expr :: "string \<Rightarrow> string" where
  "toplevels_expr names =
    ''cfgs: builtins.listToAttrs (map (n: { name = n; ''
    @ ''value = cfgs.${n}.config.system.build.toplevel.outPath; }) ''
    @ ''(builtins.filter (n: cfgs ? ${n}) (builtins.fromJSON '' @ [CHR 0x27, CHR 0x27] @ names
    @ [CHR 0x27, CHR 0x27] @ '')))''"

text \<open>The entries of an object that are strings.\<close>

definition string_entries :: "(string \<times> json) list \<Rightarrow> (string, string) bmap" where
  "string_entries obj = List.map_filter (\<lambda>(k, v). map_option (Pair k) (as_str v)) obj"

definition subprocess_expected_toplevels ::
  "eval_env \<Rightarrow> string \<Rightarrow> string list \<Rightarrow> (string, (string, string) bmap) result" where
  "subprocess_expected_toplevels env flake mems =
    (case List.find (\<lambda>m. \<not> is_valid_member_name m) mems of
       Some name \<Rightarrow> Inl (''refusing to eval: invalid member name '' @ str_debug name)
     | None \<Rightarrow>
         (case en_names env mems of
            Inl e \<Rightarrow> Inl e
          | Inr names \<Rightarrow>
              (case run_nix_eval env [''eval'', ''--no-warn-dirty'', ''--json'',
                   flake @ ''#nixosConfigurations'', ''--apply'', toplevels_expr names] of
                 Inl e \<Rightarrow> Inl e
               | Inr value \<Rightarrow>
                   (case as_object value of
                      None \<Rightarrow> Inl ''expected_toplevels: non-object''
                    | Some obj \<Rightarrow> Inr (string_entries obj)))))"

definition isolate_member :: "eval_env \<Rightarrow> string \<Rightarrow> string \<Rightarrow> toplevels \<Rightarrow> toplevels" where
  "isolate_member env flake m out =
    (case subprocess_expected_toplevels env flake [m] of
       Inr paths \<Rightarrow>
         (case map_of paths m of
            Some path \<Rightarrow> out\<lparr>tl_paths := bm_insert m path (tl_paths out)\<rparr>
          | None \<Rightarrow> out)
     | Inl e \<Rightarrow> out\<lparr>tl_errors := bm_insert m e (tl_errors out)\<rparr>)"

definition subprocess_expected_toplevels_isolated ::
  "eval_env \<Rightarrow> string \<Rightarrow> string list \<Rightarrow> (string, toplevels) result" where
  "subprocess_expected_toplevels_isolated env flake mems =
    (case subprocess_expected_toplevels env flake mems of
       Inr paths \<Rightarrow> Inr (toplevels_from paths)
     | Inl batch_err \<Rightarrow>
         if length mems < 2 then Inl batch_err
         else
           let out = fold (isolate_member env flake) mems toplevels_default
           in if tl_paths out = [] \<and> length (tl_errors out) = length mems then Inl batch_err
              else Inr out)"

definition eval_aggregate ::
  "eval_env \<Rightarrow> string \<Rightarrow> eval_state \<Rightarrow> ((string, json) result \<times> eval_state) option" where
  "eval_aggregate env flake st =
    (if ev_backend (fst st) = SubprocessBackend then Some (subprocess_aggregate env flake, st)
     else (case worker_call env ''aggregate'' (canonical_flake env flake) None None st of
         None \<Rightarrow> None
       | Some (Inl e, st) \<Rightarrow> Some (Inl e, st)
       | Some (Inr None, st) \<Rightarrow> Some (Inl ''worker returned no value for aggregate'', st)
       | Some (Inr (Some v), st) \<Rightarrow> Some (Inr v, st)))"

definition expected_toplevels ::
  "eval_env \<Rightarrow> (json \<Rightarrow> string) \<Rightarrow> string \<Rightarrow> string list \<Rightarrow> eval_state \<Rightarrow>
    ((string, toplevels) result \<times> eval_state) option" where
  "expected_toplevels env render flake mems st =
    (if ev_backend (fst st) = SubprocessBackend
     then Some (subprocess_expected_toplevels_isolated env flake mems, st)
     else (case worker_call env ''expected_toplevels'' (canonical_flake env flake) None (Some mems) st of
         None \<Rightarrow> None
       | Some (Inl e, st) \<Rightarrow> Some (Inl e, st)
       | Some (Inr v, st) \<Rightarrow> Some (parse_worker_toplevels render (opt_default JNull v), st)))"

definition host_eval ::
  "eval_env \<Rightarrow> string \<Rightarrow> string \<Rightarrow> eval_state \<Rightarrow> ((string, string option) result \<times> eval_state) option" where
  "host_eval env flake m st =
    (if ev_backend (fst st) = SubprocessBackend
     then Some (case subprocess_expected_toplevels env flake [m] of
                  Inl e \<Rightarrow> Inl e | Inr paths \<Rightarrow> Inr (map_of paths m), st)
     else (case worker_call env ''host_eval'' (canonical_flake env flake) (Some m) None st of
         None \<Rightarrow> None
       | Some (Inl e, st) \<Rightarrow> Some (Inl e, st)
       | Some (Inr v, st) \<Rightarrow> Some (Inr (as_str (opt_default JNull v)), st)))"

definition eval_reload :: "eval_state \<Rightarrow> eval_state" where
  "eval_reload st =
    (case st of (ev, w) \<Rightarrow>
       if ev_backend ev = WorkerBackend then (ev\<lparr>ev_worker := None\<rparr>, worker_drop (ev_worker ev) w)
       else st)"

section \<open>One attempt\<close>

text \<open>Exactly the evaluator's own worker is live, and process numbers are never used twice.\<close>

definition eval_inv :: "eval_state \<Rightarrow> bool" where
  "eval_inv st \<longleftrightarrow>
    wo_live (snd st) = (case ev_worker (fst st) of None \<Rightarrow> [] | Some wk \<Rightarrow> [wk_pid wk]) \<and>
    (\<forall>p\<in>set (wo_live (snd st)). p < wo_spawned (snd st))"

lemma roundtrip_worker:
  assumes "roundtrip env timeout req i wk = Some (r, wk')"
  shows "wk_pid wk' = wk_pid wk" "wk_sent wk' = wk_sent wk @ [req]"
  using assms by (auto simp: roundtrip_def Let_def split: worker_reply.splits option.splits)

lemma roundtrip_bounded: "timeout \<noteq> None \<Longrightarrow> roundtrip env timeout req i wk \<noteq> None"
  by (auto simp: roundtrip_def Let_def split: worker_reply.splits option.splits)

lemma roundtrip_ok:
  assumes "roundtrip env timeout req i wk = Some (Inr obj, wk')"
  shows "\<exists>line. en_reply env (wk_pid wk') (wk_sent wk') = ReplyLine line \<and>
    en_parse env (trim line) = Inr (JObj obj) \<and> Option.bind (map_of obj ''id'') as_u64 = Some i"
  using assms
  by (auto simp: roundtrip_def Let_def check_reply_def as_object.simps
      split: worker_reply.splits option.splits sum.splits if_splits elim!: as_object.elims)

lemma worker_spawn_facts:
  assumes "worker_spawn env w = (r, w')"
  shows "wo_down w' = wo_down w" "wo_down w \<Longrightarrow> w' = w \<and> r = Inl ''evaluator shut down''"
    "r = Inl e \<Longrightarrow> wo_live w' = wo_live w" "wo_spawned w \<le> wo_spawned w'"
    "r = Inr wk \<Longrightarrow> wk = \<lparr>wk_pid = wo_spawned w, wk_sent = []\<rparr> \<and> wo_live w' = wo_live w @ [wk_pid wk] \<and>
      wo_spawned w' = wo_spawned w + 1"
  using assms by (auto simp: worker_spawn_def split: if_splits option.splits)

lemma ensure_worker_inv:
  assumes "eval_inv (ev, w)" and "ensure_worker env (ev, w) = (r, w')"
  shows "r = Inr wk \<Longrightarrow> eval_inv (ev\<lparr>ev_worker := Some wk\<rparr>, w')" "r = Inl e \<Longrightarrow> eval_inv (ev, w')"
    "wo_down w' = wo_down w" "wo_down w \<Longrightarrow> w' = w"
  using assms
  by (auto simp: ensure_worker_def eval_inv_def split: option.splits
      dest: worker_spawn_facts intro: order_less_le_trans)

lemma eval_inv_keep:
  "eval_inv (ev\<lparr>ev_worker := Some wk\<rparr>, w) \<Longrightarrow> wk_pid wk' = wk_pid wk \<Longrightarrow>
    eval_inv (ev\<lparr>ev_worker := Some wk', ev_next_id := k\<rparr>, w)"
  "eval_inv (ev\<lparr>ev_worker := Some wk\<rparr>, w) \<Longrightarrow> wk_pid wk' = wk_pid wk \<Longrightarrow>
    eval_inv (ev\<lparr>ev_worker := None, ev_next_id := k\<rparr>, worker_drop (Some wk') w)"
  by (auto simp: eval_inv_def worker_drop_def)

text \<open>The possible ends of one attempt.\<close>

lemma call_attempt_cases:
  assumes "call_attempt env op flake member mems (ev, w) = Some (r, ev', w')"
  obtains (no_worker) e where "ensure_worker env (ev, w) = (Inl e, w')" "r = Settled (Inl e)" "ev' = ev"
  | (answered) wk wk' resp where "ensure_worker env (ev, w) = (Inr wk, w')"
      "roundtrip env (ev_timeout ev) (eval_request (ev_next_id ev) op flake member mems) (ev_next_id ev) wk =
        Some (Inr resp, wk')"
      "r = Settled (reply_outcome resp)"
      "ev' = ev\<lparr>ev_worker := Some wk', ev_next_id := wrap_add (ev_next_id ev) 1\<rparr>"
  | (gone) wk wk' e v where "ensure_worker env (ev, w) = (Inr wk, v)"
      "roundtrip env (ev_timeout ev) (eval_request (ev_next_id ev) op flake member mems) (ev_next_id ev) wk =
        Some (Inl e, wk')"
      "r = (case e of Timeout b \<Rightarrow> Settled (Inl (timeout_message b)) | Transport m \<Rightarrow> Lost m)"
      "ev' = ev\<lparr>ev_worker := None, ev_next_id := wrap_add (ev_next_id ev) 1\<rparr>"
      "w' = worker_drop (Some wk') v"
  using assms
  by (auto simp: call_attempt_def Let_def split: prod.splits sum.splits option.splits roundtrip_error.splits)

lemma call_attempt_inv:
  assumes "eval_inv (ev, w)" and "call_attempt env op flake member mems (ev, w) = Some (r, ev', w')"
  shows "eval_inv (ev', w')" "ev_timeout ev' = ev_timeout ev" "wo_down w' = wo_down w"
    "ev_next_id ev' \<in> {ev_next_id ev, wrap_add (ev_next_id ev) 1}"
    "r = Lost m \<Longrightarrow> ev_worker ev' = None"
    "wo_down w \<Longrightarrow> wo_spawned w' = wo_spawned w"
proof -
  have drop: "wo_down (worker_drop k v) = wo_down v" "wo_spawned (worker_drop k v) = wo_spawned v" for k v
    by (simp_all add: worker_drop_def split: option.split)
  note ens = ensure_worker_inv [OF assms(1)]
  show "eval_inv (ev', w')" "ev_timeout ev' = ev_timeout ev" "wo_down w' = wo_down w"
    "ev_next_id ev' \<in> {ev_next_id ev, wrap_add (ev_next_id ev) 1}"
    "r = Lost m \<Longrightarrow> ev_worker ev' = None"
    "wo_down w \<Longrightarrow> wo_spawned w' = wo_spawned w"
    using assms(2)
    by (cases rule: call_attempt_cases;
        auto simp: drop dest: ens roundtrip_worker(1) intro: eval_inv_keep)+
qed

lemma call_attempt_bounded:
  assumes "ev_timeout ev \<noteq> None"
  shows "call_attempt env op flake member mems (ev, w) \<noteq> None"
  using roundtrip_bounded [OF assms]
  by (auto simp: call_attempt_def Let_def simp del: not_None_eq split: prod.splits sum.splits option.splits roundtrip_error.splits)

section \<open>The whole call\<close>

text \<open>Every state along a call comes from an attempt, so what attempts keep, calls keep.\<close>

lemma worker_attempts_keep:
  assumes "worker_attempts n env op flake member mems (ev, w) = Some (r, ev', w')" and "eval_inv (ev, w)"
  shows "eval_inv (ev', w') \<and> ev_timeout ev' = ev_timeout ev \<and> wo_down w' = wo_down w \<and>
    (wo_down w \<longrightarrow> wo_spawned w' = wo_spawned w)"
  using assms
proof (induction n arbitrary: ev w)
  case (Suc n)
  obtain a ev1 w1 where att: "call_attempt env op flake member mems (ev, w) = Some (a, ev1, w1)"
    using Suc.prems(1) by (auto split: option.splits)
  note keep = call_attempt_inv [OF Suc.prems(2) att]
  show ?case
  proof (cases a)
    case (Settled x)
    then show ?thesis using Suc.prems(1) att keep(1-3,6) by auto
  next
    case (Lost m)
    show ?thesis
    proof (cases "n = 0")
      case True
      then show ?thesis using Suc.prems(1) att keep(1-3,6) Lost by auto
    next
      case False
      then have "worker_attempts n env op flake member mems (ev1, w1) = Some (r, ev', w')"
        using Suc.prems(1) att Lost by simp
      from Suc.IH [OF this keep(1)] show ?thesis using keep(2,3,6) by auto
    qed
  qed
qed simp

lemma worker_attempts_bounded:
  assumes "eval_inv (ev, w)" and "ev_timeout ev \<noteq> None" and "0 < n"
  shows "worker_attempts n env op flake member mems (ev, w) \<noteq> None"
  using assms
proof (induction n arbitrary: ev w)
  case (Suc n)
  obtain a ev1 w1 where att: "call_attempt env op flake member mems (ev, w) = Some (a, ev1, w1)"
    using call_attempt_bounded [OF Suc.prems(2), of env op flake member mems w] by (cases "call_attempt env op flake member mems (ev, w)") auto
  note keep = call_attempt_inv [OF Suc.prems(1) att]
  show ?case
    using att Suc.IH [OF keep(1)] keep(2) Suc.prems(2) by (cases a) auto
qed simp

text \<open>The request an answer belongs to: the last one sent to the worker that is kept.\<close>

definition answered_by :: "eval_env \<Rightarrow> evaluator \<Rightarrow> (string \<times> json) list \<Rightarrow> bool" where
  "answered_by env ev resp \<longleftrightarrow>
    (\<exists>wk i line. ev_worker ev = Some wk \<and> wk_sent wk \<noteq> [] \<and>
      json_get ''id'' (last (wk_sent wk)) = Some (JNum (PosInt i)) \<and>
      en_reply env (wk_pid wk) (wk_sent wk) = ReplyLine line \<and>
      en_parse env (trim line) = Inr (JObj resp) \<and> Option.bind (map_of resp ''id'') as_u64 = Some i)"

lemma request_id: "json_get ''id'' (eval_request i op flake member mems) = Some (JNum (PosInt i))"
  by (simp add: eval_request_def Let_def split: option.split)

lemma worker_attempts_ok:
  assumes "worker_attempts n env op flake member mems (ev, w) = Some (Inr v, ev', w')"
  shows "\<exists>resp. answered_by env ev' resp \<and> Option.bind (map_of resp ''ok'') as_bool = Some True \<and>
    v = map_of resp ''value''"
  using assms
proof (induction n arbitrary: ev w)
  case (Suc n)
  obtain a ev1 w1 where att: "call_attempt env op flake member mems (ev, w) = Some (a, ev1, w1)"
    using Suc.prems by (auto split: option.splits)
  show ?case
  proof (cases a)
    case (Lost m)
    then have "worker_attempts n env op flake member mems (ev1, w1) = Some (Inr v, ev', w')"
      using Suc.prems att by (simp split: if_splits)
    then show ?thesis by (rule Suc.IH)
  next
    case (Settled x)
    then have x: "x = Inr v" "ev' = ev1" using Suc.prems att by auto
    from att show ?thesis
    proof (cases rule: call_attempt_cases)
      case (answered wk wk' resp)
      note rt = answered(2)
      have "reply_outcome resp = Inr v" using answered(3) Settled x by simp
      then have "Option.bind (map_of resp ''ok'') as_bool = Some True" "v = map_of resp ''value''"
        by (auto simp: reply_outcome_def split: if_splits)
      moreover have "answered_by env ev' resp"
        using roundtrip_ok [OF rt] roundtrip_worker [OF rt] answered(4) x(2)
        by (auto simp: answered_by_def request_id)
      ultimately show ?thesis by blast
    qed (use Settled x in \<open>auto split: roundtrip_error.splits\<close>)
  qed
qed simp

section \<open>Toplevels\<close>

lemma parse_entries_keys:
  assumes "parse_worker_entries render obj out = Inr t" and "distinct (map fst obj)"
    and "fst ` set obj \<inter> (fst ` set (tl_paths out) \<union> fst ` set (tl_errors out)) = {}"
    and "fst ` set (tl_paths out) \<inter> fst ` set (tl_errors out) = {}"
  shows "fst ` set (tl_paths t) \<inter> fst ` set (tl_errors t) = {} \<and>
    fst ` set (tl_paths t) \<union> fst ` set (tl_errors t) =
      fst ` set obj \<union> fst ` set (tl_paths out) \<union> fst ` set (tl_errors out)"
  using assms
proof (induction render obj out rule: parse_worker_entries.induct)
  case (2 render m entry rest out)
  show ?case
  proof (cases "as_str entry")
    case (Some path)
    then show ?thesis using 2(2) [OF Some] 2(3-6) by auto
  next
    case None
    then obtain e where e: "Option.bind (json_get ''error'' entry) as_str = Some e"
      using 2(3) by (auto split: option.splits)
    show ?thesis using 2(1) [OF None e] 2(3-6) None e by auto
  qed
qed auto

lemma find_invalid_name:
  "List.find (\<lambda>m. \<not> is_valid_member_name m) mems = None \<longleftrightarrow> (\<forall>m\<in>set mems. is_valid_member_name m)"
  by (auto simp: find_None_iff)

section \<open>Properties\<close>

text \<open>A worker that dies on its first request and whose replacement answers.\<close>

definition sample_env :: eval_env where
  "sample_env = \<lparr>en_spawn = \<lambda>_. None,
    en_reply = \<lambda>pid sent. if pid = 0 then ClosedStdout else ReplyLine ''reply'',
    en_parse = \<lambda>s. if s = ''reply'' then
      Inr (JObj [(''id'', JNum (PosInt 2)), (''ok'', JBool True), (''value'', JStr ''v'')]) else Inl ''bad'',
    en_canonical = \<lambda>_. None, en_nix = \<lambda>_. NixFailed [], en_names = \<lambda>_. Inl []\<rparr>"

definition sample_world :: eval_world where
  "sample_world = \<lparr>wo_spawned = 0, wo_live = [], wo_down = False\<rparr>"

lemma sample_call:
  "\<exists>st. worker_call sample_env ''aggregate'' ''.'' None None (evaluator_new WorkerBackend, sample_world) =
    Some (Inr (Some (JStr ''v'')), st)"
proof -
  have "trim ''reply'' = ''reply''" by code_simp
  then show ?thesis
    by (simp add: worker_call_def numeral_2_eq_2 call_attempt_def ensure_worker_def evaluator_new_def
        sample_world_def worker_spawn_def sample_env_def roundtrip_def check_reply_def worker_drop_def
        reply_outcome_def wrap_add_def U64_MAX_def Let_def)
qed

text \<open>With a time bound, a call to the evaluation worker always returns. Whatever the worker does,
  the evaluator afterwards owns exactly the processes it has not reaped, at most one, and once the
  process is shutting down no call starts a new one.\<close>

lemma eval_call_settles:
  assumes "eval_inv (ev, w)" and "ev_timeout ev \<noteq> None"
  shows "\<exists>r ev' w'. worker_call env op flake member mems (ev, w) = Some (r, ev', w') \<and>
    eval_inv (ev', w') \<and> length (wo_live w') \<le> 1 \<and> wo_down w' = wo_down w \<and>
    (wo_down w \<longrightarrow> wo_spawned w' = wo_spawned w)"
proof -
  obtain r ev' w' where r: "worker_call env op flake member mems (ev, w) = Some (r, ev', w')"
    using worker_attempts_bounded [OF assms, of 2 env op flake member mems]
    by (cases "worker_call env op flake member mems (ev, w)") (auto simp: worker_call_def)
  note keep = worker_attempts_keep [OF r [unfolded worker_call_def] assms(1)]
  then have "length (wo_live w') \<le> 1" by (auto simp: eval_inv_def split: option.splits)
  then show ?thesis using r keep by auto
qed

text \<open>A successful call is never answered by a stale reply: its value comes from a reply of the
  worker that is still owned, to the last request sent to it, echoing that request's id and marked
  as a success.\<close>

lemma eval_answers_belong_to_request:
  assumes "worker_call env op flake member mems (ev, w) = Some (Inr v, ev', w')"
  shows "\<exists>resp. answered_by env ev' resp \<and> Option.bind (map_of resp ''ok'') as_bool = Some True \<and>
    v = map_of resp ''value''"
  using worker_attempts_ok [OF assms [unfolded worker_call_def]] .

text \<open>The worker's answer about expected toplevels is read without loss or confusion: each member of
  the answer gets a path or an error, never both, and no other member appears.\<close>

lemma toplevels_split_members:
  assumes "parse_worker_toplevels render (JObj obj) = Inr t" and "distinct (map fst obj)"
  shows "set (bm_keys (tl_paths t)) \<inter> set (bm_keys (tl_errors t)) = {} \<and>
    set (bm_keys (tl_paths t)) \<union> set (bm_keys (tl_errors t)) = fst ` set obj"
  using parse_entries_keys [of render obj toplevels_default t] assms
  by (simp add: parse_worker_toplevels_def toplevels_default_def bm_keys_def)

text \<open>The subprocess backend refuses a member name that is not a bare host name before it runs
  anything: the outcome does not depend on the environment and no state changes.\<close>

lemma subprocess_refuses_bad_names:
  assumes "m \<in> set mems" and "\<not> is_valid_member_name m"
  shows "\<exists>e. \<forall>env. subprocess_expected_toplevels env flake mems = Inl e"
proof -
  obtain name where "List.find (\<lambda>m. \<not> is_valid_member_name m) mems = Some name"
    using find_invalid_name [of mems] assms by (cases "List.find (\<lambda>m. \<not> is_valid_member_name m) mems") auto
  then show ?thesis by (simp add: subprocess_expected_toplevels_def)
qed

end
