(* ===== verification/JsonText.thy ===== *)
theory JsonText
  imports Json
begin

text \<open>A printer and a reader of JSON text, the instance the examples of the other theories give to the parameters that stand
  for the third-party \<^verbatim>\<open>serde_json\<close> crate. The reader has the crate's documented limits: objects become
  sorted maps and the 128th level of nesting is an error. The text is plain ASCII on one line; a float prints as null. The
  last lemmas say that exactly the values that fit read back, and what the reader returns always fits.\<close>

section \<open>The printer\<close>

definition plain_byte :: "char \<Rightarrow> bool" where
  "plain_byte c \<longleftrightarrow> 32 \<le> byte c \<and> byte c < 127 \<and> c \<noteq> CHR 0x22 \<and> c \<noteq> CHR 0x5C"

definition byte_text :: "char \<Rightarrow> string" where
  "byte_text c = (if plain_byte c then [c]
    else [CHR 0x5C, CHR ''u'', CHR ''0'', CHR ''0'', hex_digit (byte c div 16), hex_digit (byte c mod 16)])"

definition str_text :: "string \<Rightarrow> string" where
  "str_text s = CHR 0x22 # concat (map byte_text s) @ [CHR 0x22]"

fun num_text :: "jnum \<Rightarrow> string" where
  "num_text (PosInt n) = show_nat n"
| "num_text (NegInt i) = show_int i"
| "num_text (JFloat q) = ''null''"

function json_text :: "json \<Rightarrow> string" where
  "json_text JNull = ''null''"
| "json_text (JBool b) = (if b then ''true'' else ''false'')"
| "json_text (JNum n) = num_text n"
| "json_text (JStr s) = str_text s"
| "json_text (JArr xs) = CHR ''['' # join '','' (map json_text xs) @ '']''"
| "json_text (JObj es) = CHR 0x7B # join '','' (map (\<lambda>e. str_text (fst e) @ CHR '':'' # json_text (snd e)) es) @ [CHR 0x7D]"
  by pat_completeness auto
termination json_text
  by (relation "measure size") (auto simp: json_size_item json_size_entry)

section \<open>The reader\<close>

definition hex_value :: "char \<Rightarrow> nat" where
  "hex_value c = (if is_ascii_digit c then byte c - 48 else byte c - 87)"

text \<open>The rest of a string after its opening quote.\<close>

fun read_bytes :: "string \<Rightarrow> (string \<times> string) option" where
  "read_bytes [] = None"
| "read_bytes (c # s) =
    (if c = CHR 0x22 then Some ([], s)
     else if c = CHR 0x5C then
       (case s of
          u # y # z # h # l # t \<Rightarrow>
            if [u, y, z] = ''u00'' \<and> is_ascii_hex h \<and> is_ascii_hex l
            then map_option (\<lambda>(b, r). (char_of (16 * hex_value h + hex_value l) # b, r)) (read_bytes t)
            else None
        | _ \<Rightarrow> None)
     else map_option (\<lambda>(b, r). (c # b, r)) (read_bytes s))"

definition read_number :: "string \<Rightarrow> (nat \<times> string) option" where
  "read_number s = (case takeWhile is_ascii_digit s of [] \<Rightarrow> None | ds \<Rightarrow> Some (dec_value ds, dropWhile is_ascii_digit s))"

definition read_word :: "string \<Rightarrow> (json \<times> string) option" where
  "read_word s =
    (case strip_prefix ''null'' s of Some r \<Rightarrow> Some (JNull, r)
     | None \<Rightarrow> case strip_prefix ''true'' s of Some r \<Rightarrow> Some (JBool True, r)
     | None \<Rightarrow> case strip_prefix ''false'' s of Some r \<Rightarrow> Some (JBool False, r)
     | None \<Rightarrow> map_option (\<lambda>(n, r). (JNum (PosInt n), r)) (read_number s))"

text \<open>A value, the items of an array and the fields of an object, with fuel for the calls and the levels of nesting left.\<close>

fun read_value :: "nat \<Rightarrow> nat \<Rightarrow> string \<Rightarrow> (json \<times> string) option"
  and read_items :: "nat \<Rightarrow> nat \<Rightarrow> string \<Rightarrow> (json list \<times> string) option"
  and read_fields :: "nat \<Rightarrow> nat \<Rightarrow> string \<Rightarrow> ((string \<times> json) list \<times> string) option" where
  "read_value 0 d s = None"
| "read_value (Suc n) d [] = None"
| "read_value (Suc n) d (c # s) =
    (if c = CHR ''['' then
       (if d = 0 then None
        else if s \<noteq> [] \<and> hd s = CHR '']'' then Some (JArr [], tl s)
        else map_option (\<lambda>(xs, r). (JArr xs, r)) (read_items n (d - 1) s))
     else if c = CHR 0x7B then
       (if d = 0 then None
        else if s \<noteq> [] \<and> hd s = CHR 0x7D then Some (JObj [], tl s)
        else map_option (\<lambda>(es, r). (JObj (bm_of_list es), r)) (read_fields n (d - 1) s))
     else if c = CHR 0x22 then map_option (\<lambda>(b, r). (JStr b, r)) (read_bytes s)
     else if c = CHR ''-'' then map_option (\<lambda>(n, r). (json_of_int (- int n), r)) (read_number s)
     else read_word (c # s))"
| "read_items 0 d s = None"
| "read_items (Suc n) d s =
    (case read_value n d s of
       Some (x, c # r) \<Rightarrow>
         if c = CHR '','' then map_option (\<lambda>(xs, r). (x # xs, r)) (read_items n d r)
         else if c = CHR '']'' then Some ([x], r) else None
     | _ \<Rightarrow> None)"
| "read_fields 0 d s = None"
| "read_fields (Suc n) d s =
    (case s of
       q # s \<Rightarrow> if q \<noteq> CHR 0x22 then None else
         (case read_bytes s of
            Some (k, p # s) \<Rightarrow> if p \<noteq> CHR '':'' then None else
              (case read_value n d s of
                 Some (x, c # r) \<Rightarrow>
                   if c = CHR '','' then map_option (\<lambda>(es, r). ((k, x) # es, r)) (read_fields n d r)
                   else if c = CHR 0x7D then Some ([(k, x)], r) else None
               | _ \<Rightarrow> None)
          | _ \<Rightarrow> None)
     | [] \<Rightarrow> None)"

definition json_read :: "string \<Rightarrow> json option" where
  "json_read s =
    (let t = trim s in case read_value (2 * length t) JSON_DEPTH t of Some (v, []) \<Rightarrow> Some v | _ \<Rightarrow> None)"

section \<open>What is printed reads back\<close>

lemma hex_digit_byte: "n < 16 \<Longrightarrow> byte (hex_digit n) = (if n < 10 then 48 + n else 87 + n)"
  by (simp add: hex_digit_def digit_def byte_def)

lemma hex_value_digit: "n < 16 \<Longrightarrow> hex_value (hex_digit n) = n \<and> is_ascii_hex (hex_digit n)"
  by (simp add: hex_value_def is_ascii_hex_def is_ascii_digit_def hex_digit_byte)

lemma char_of_nibbles: "char_of (16 * (byte c div 16) + byte c mod 16) = c"
  by (simp add: byte_def)

lemma read_bytes_text: "read_bytes (concat (map byte_text s) @ CHR 0x22 # r) = Some (s, r)"
proof (induction s)
  case (Cons c s)
  have "hex_value (hex_digit (byte c div 16)) = byte c div 16 \<and> is_ascii_hex (hex_digit (byte c div 16))"
    by (rule hex_value_digit) (use byte_lt [of c] in auto)
  moreover have "hex_value (hex_digit (byte c mod 16)) = byte c mod 16 \<and> is_ascii_hex (hex_digit (byte c mod 16))"
    by (rule hex_value_digit) auto
  ultimately show ?case
    using Cons char_of_nibbles [of c] by (simp add: byte_text_def plain_byte_def)
qed simp

definition number_stops :: "string \<Rightarrow> bool" where
  "number_stops r \<longleftrightarrow> r = [] \<or> \<not> is_ascii_digit (hd r)"

lemma read_number_text: "number_stops r \<Longrightarrow> read_number (show_nat n @ r) = Some (n, r)"
proof -
  assume "number_stops r"
  then have "takeWhile is_ascii_digit (show_nat n @ r) = show_nat n" "dropWhile is_ascii_digit (show_nat n @ r) = r"
    using show_nat_digits [of _ n]
    by (cases r; simp add: number_stops_def takeWhile_append2 dropWhile_append2)+
  moreover obtain c s where "show_nat n = c # s" by (cases "show_nat n") (use show_nat_nonempty in blast)+
  ultimately show ?thesis unfolding read_number_def using dec_value_show_nat [of n] by simp
qed

text \<open>What a value reads back as: itself, but for floats.\<close>

fun num_image :: "jnum \<Rightarrow> json" where
  "num_image (PosInt n) = JNum (PosInt n)"
| "num_image (NegInt i) = json_of_int i"
| "num_image (JFloat q) = JNull"

function json_image :: "json \<Rightarrow> json" where
  "json_image (JArr xs) = JArr (map json_image xs)"
| "json_image (JObj es) = JObj (map (\<lambda>e. (fst e, json_image (snd e))) es)"
| "json_image (JNum n) = num_image n"
| "json_image JNull = JNull"
| "json_image (JBool b) = JBool b"
| "json_image (JStr s) = JStr s"
  by pat_completeness auto
termination json_image
  by (relation "measure size") (auto simp: json_size_item json_size_entry)

lemma image_exact: "json_exact v \<Longrightarrow> json_image v = v"
proof (induction v)
  case (JNum n)
  then show ?case by (cases n) (simp_all add: json_of_int_def)
next
  case (JArr xs)
  then show ?case by (simp add: map_idI)
next
  case (JObj es)
  then have "(fst e, json_image (snd e)) = e" if "e \<in> set es" for e
    using that by (cases e) fastforce
  then show ?case by (simp add: map_idI)
qed simp_all

lemma read_number_value:
  assumes "number_stops r"
  shows "read_value (Suc n) d (num_text m @ r) = Some (num_image m, r)"
proof -
  have digits: "read_value (Suc n) d (show_nat i @ r) = Some (JNum (PosInt i), r)" for i
  proof -
    obtain c s where c: "show_nat i = c # s" by (cases "show_nat i") (use show_nat_nonempty in blast)+
    then have "is_ascii_digit c" using show_nat_digits [of c i] by simp
    then have ne: "c \<noteq> CHR ''['' \<and> c \<noteq> CHR 0x7B \<and> c \<noteq> CHR 0x22 \<and> c \<noteq> CHR ''-'' \<and> CHR ''n'' \<noteq> c \<and> CHR ''t'' \<noteq> c \<and> CHR ''f'' \<noteq> c"
      by (auto simp: is_ascii_digit_def byte_def)
    then have "read_value (Suc n) d (c # s @ r) = map_option (\<lambda>(n, r). (JNum (PosInt n), r)) (read_number (show_nat i @ r))"
      by (simp add: read_word_def c)
    then show ?thesis using read_number_text [OF assms, of i] c by simp
  qed
  show ?thesis
  proof (cases m)
    case (NegInt i)
    then show ?thesis
      using digits [of "nat i"] read_number_text [OF assms, of "nat (- i)"]
      by (auto simp: show_int_def json_of_int_def)
  next
    case (JFloat q)
    then show ?thesis by (simp add: read_word_def)
  qed (simp add: digits)
qed

lemma text_starts: "\<exists>c s. json_text v = c # s \<and> c \<noteq> CHR '']'' \<and> c \<noteq> CHR 0x7D"
proof (cases v)
  case (JNum m)
  have "\<exists>c s. show_nat i = c # s \<and> is_ascii_digit c" for i
    using show_nat_digits [of _ i] by (cases "show_nat i") (use show_nat_nonempty in auto)
  then show ?thesis
    using JNum by (cases m) (fastforce simp: show_int_def is_ascii_digit_def byte_def)+
qed (simp_all add: str_text_def)

definition field_text :: "string \<times> json \<Rightarrow> string" where
  "field_text e = str_text (fst e) @ CHR '':'' # json_text (snd e)"

lemma join_Cons: "xs \<noteq> [] \<Longrightarrow> join sep (x # xs) = x @ sep @ join sep xs"
  by (cases xs) simp_all

lemma read_items_text:
  assumes "\<And>x n r. x \<in> set xs \<Longrightarrow> number_stops r \<Longrightarrow> 2 * length (json_text x) \<le> n \<Longrightarrow>
      read_value n d (json_text x @ r) = Some (json_image x, r)"
    and "xs \<noteq> []" and "2 * length (join '','' (map json_text xs)) < n"
  shows "read_items n d (join '','' (map json_text xs) @ CHR '']'' # r) = Some (map json_image xs, r)"
  using assms
proof (induction xs arbitrary: n)
  case (Cons x xs)
  then obtain m where m: "n = Suc m" by (cases n) auto
  show ?case
  proof (cases xs)
    case Nil
    have "read_value m d (json_text x @ CHR '']'' # r) = Some (json_image x, CHR '']'' # r)"
      by (rule Cons.prems(1)) (use Cons.prems(3) m Nil in \<open>simp_all add: number_stops_def is_ascii_digit_def byte_def\<close>)
    then show ?thesis using m Nil by simp
  next
    case (Cons y ys)
    let ?r = "join '','' (map json_text xs) @ CHR '']'' # r"
    have "read_value m d (json_text x @ CHR '','' # ?r) = Some (json_image x, CHR '','' # ?r)"
      by (rule Cons.prems(1)) (use Cons.prems(3) m Cons in \<open>simp_all add: number_stops_def is_ascii_digit_def byte_def\<close>)
    moreover have "read_items m d ?r = Some (map json_image xs, r)"
      by (rule Cons.IH) (use Cons.prems m Cons in auto)
    ultimately show ?thesis using m Cons by simp
  qed
qed simp

lemma read_fields_text:
  assumes "\<And>e n r. e \<in> set es \<Longrightarrow> number_stops r \<Longrightarrow> 2 * length (json_text (snd e)) \<le> n \<Longrightarrow>
      read_value n d (json_text (snd e) @ r) = Some (json_image (snd e), r)"
    and "es \<noteq> []" and "2 * length (join '','' (map field_text es)) < n"
  shows "read_fields n d (join '','' (map field_text es) @ CHR 0x7D # r) =
    Some (map (\<lambda>e. (fst e, json_image (snd e))) es, r)"
  using assms
proof (induction es arbitrary: n)
  case (Cons e es)
  then obtain m where m: "n = Suc m" by (cases n) auto
  show ?case
  proof (cases es)
    case Nil
    have "read_value m d (json_text (snd e) @ CHR 0x7D # r) = Some (json_image (snd e), CHR 0x7D # r)"
      by (rule Cons.prems(1))
        (use Cons.prems(3) m Nil in \<open>simp_all add: number_stops_def is_ascii_digit_def byte_def field_text_def\<close>)
    then show ?thesis using m Nil by (simp add: field_text_def str_text_def read_bytes_text)
  next
    case (Cons y ys)
    let ?r = "join '','' (map field_text es) @ CHR 0x7D # r"
    have "read_value m d (json_text (snd e) @ CHR '','' # ?r) = Some (json_image (snd e), CHR '','' # ?r)"
      by (rule Cons.prems(1))
        (use Cons.prems(3) m Cons in \<open>simp_all add: number_stops_def is_ascii_digit_def byte_def field_text_def\<close>)
    moreover have "read_fields m d ?r = Some (map (\<lambda>e. (fst e, json_image (snd e))) es, r)"
      by (rule Cons.IH) (use Cons.prems m Cons in auto)
    moreover have "join '','' (map field_text (e # es)) = str_text (fst e) @ CHR '':'' # json_text (snd e) @ '','' @
        join '','' (map field_text es)"
      unfolding list.map using Cons by (subst join_Cons) (simp_all add: field_text_def)
    ultimately show ?thesis unfolding m
      by (simp add: str_text_def read_bytes_text del: list.map, simp)
  qed
qed simp

lemma read_value_text:
  "json_fits d v \<Longrightarrow> number_stops r \<Longrightarrow> 2 * length (json_text v) \<le> n \<Longrightarrow>
    read_value n d (json_text v @ r) = Some (json_image v, r)"
proof (induction v arbitrary: d n r)
  case (JNum m)
  have "num_text m \<noteq> []" using text_starts [of "JNum m"] by auto
  then obtain k where "n = Suc k" using JNum.prems(3) by (cases n) auto
  then show ?case using read_number_value [OF JNum.prems(2)] by simp
next
  case (JArr xs)
  then obtain k where k: "n = Suc k" by (cases n) auto
  have d: "0 < d" "\<And>x. x \<in> set xs \<Longrightarrow> json_fits (d - 1) x" using JArr.prems(1) by auto
  show ?case
  proof (cases "xs = []")
    case False
    have "read_items k (d - 1) (join '','' (map json_text xs) @ CHR '']'' # r) = Some (map json_image xs, r)"
      by (rule read_items_text) (use JArr d False k in auto)
    moreover obtain c s where "json_text (hd xs) = c # s" "c \<noteq> CHR '']''" using text_starts by blast
    then have "\<exists>s. join '','' (map json_text xs) = c # s" using False by (cases xs; cases "tl xs") auto
    ultimately show ?thesis using k d(1) \<open>c \<noteq> CHR '']''\<close> by auto
  qed (use k d in simp)
next
  case (JObj es)
  then obtain k where k: "n = Suc k" by (cases n) auto
  have d: "0 < d" "\<And>e. e \<in> set es \<Longrightarrow> json_fits (d - 1) (snd e)" and wf: "bm_wf es" using JObj.prems(1) by auto
  have t: "json_text (JObj es) = CHR 0x7B # join '','' (map field_text es) @ [CHR 0x7D]"
    by (simp add: field_text_def [abs_def])
  show ?case
  proof (cases "es = []")
    case False
    have "read_fields k (d - 1) (join '','' (map field_text es) @ CHR 0x7D # r) =
        Some (map (\<lambda>e. (fst e, json_image (snd e))) es, r)"
    proof (rule read_fields_text)
      show "read_value n (d - 1) (json_text (snd e) @ r) = Some (json_image (snd e), r)"
        if "e \<in> set es" "number_stops r" "2 * length (json_text (snd e)) \<le> n" for e n r
        using JObj.IH [of e "snd e"] that d(2) by (cases e) auto
    qed (use JObj.prems(3) t False k in auto)
    moreover have "bm_of_list (map (\<lambda>e. (fst e, json_image (snd e))) es) = map (\<lambda>e. (fst e, json_image (snd e))) es"
      by (rule bm_of_list_id) (use wf in \<open>simp add: bm_wf_def comp_def\<close>)
    moreover have "\<exists>s. join '','' (map field_text es) = CHR 0x22 # s"
      using False by (cases es; cases "tl es") (auto simp: field_text_def str_text_def)
    ultimately show ?thesis unfolding t using k d(1) by auto
  qed (use k d t in simp)
next
  case (JStr s)
  then obtain k where "n = Suc k" by (cases n) (auto simp: str_text_def)
  then show ?case by (simp add: str_text_def read_bytes_text)
next
  case JNull
  then obtain k where "n = Suc k" by (cases n) auto
  then show ?case by (simp add: read_word_def)
next
  case (JBool b)
  then obtain k where "n = Suc k" by (cases n) (auto split: if_splits)
  then show ?case by (cases b) (simp_all add: read_word_def)
qed

section \<open>What is read fits\<close>

lemma map_pair_Some: "map_option (\<lambda>(a, r). (f a, r)) x = Some (v, r) \<longleftrightarrow> (\<exists>a. x = Some (a, r) \<and> v = f a)"
  by (cases x) auto

lemma read_number_fits: "read_word s = Some (v, r) \<Longrightarrow> json_fits d v"
  by (auto simp: read_word_def map_pair_Some split: option.splits)

lemma read_fits:
  "read_value n d s = Some (v, r) \<Longrightarrow> json_fits d v"
  "read_items n d s = Some (xs, r) \<Longrightarrow> \<forall>x\<in>set xs. json_fits d x"
  "read_fields n d s = Some (es, r) \<Longrightarrow> \<forall>e\<in>set es. json_fits d (snd e)"
proof (induction n d s and n d s and n d s arbitrary: v r and xs r and es r
    rule: read_value_read_items_read_fields.induct)
  case (3 n d c s)
  show ?case
  proof (cases "c = CHR ''['' \<or> c = CHR 0x7B")
    case True
    then have "0 < d" using "3.prems" by (auto split: if_splits)
    then show ?thesis
      using True 3 fits_of_list [of _ "d - 1"] by (auto simp: map_pair_Some split: if_splits)
  next
    case False
    then show ?thesis
      using "3.prems" read_number_fits by (auto simp: map_pair_Some json_of_int_def split: if_splits)
  qed
next
  case (5 n d s)
  then show ?case by (force simp: map_pair_Some split: option.splits list.splits if_splits prod.splits)
next
  case (7 n d s)
  then show ?case by (force simp: map_pair_Some split: option.splits list.splits if_splits prod.splits)
qed simp_all

section \<open>The text of a value\<close>

definition line_byte :: "char \<Rightarrow> bool" where
  "line_byte c \<longleftrightarrow> 32 \<le> byte c \<and> byte c < 127"

lemma show_nat_line: "c \<in> set (show_nat n) \<Longrightarrow> line_byte c \<and> byte c \<noteq> 32"
  by (drule show_nat_digits) (simp add: is_ascii_digit_def line_byte_def)

lemma str_text_line: "c \<in> set (str_text s) \<Longrightarrow> line_byte c"
proof -
  have "line_byte (hex_digit n)" if "n < 16" for n
    using that by (simp add: line_byte_def hex_digit_byte)
  moreover have "byte c div 16 < 16" for c using byte_lt [of c] by simp
  ultimately have "\<forall>b\<in>set (byte_text c). line_byte b" for c
    unfolding byte_text_def plain_byte_def by (auto simp: line_byte_def byte_def)
  then show "line_byte c" if "c \<in> set (str_text s)" using that by (auto simp: str_text_def line_byte_def byte_def)
qed

lemma join_line: "\<forall>p\<in>set ps. \<forall>c\<in>set p. line_byte c \<Longrightarrow> c \<in> set (join '','' ps) \<Longrightarrow> line_byte c"
  by (induction "'',''" ps rule: join.induct) (auto simp: line_byte_def byte_def)

lemma json_text_line: "\<forall>c\<in>set (json_text v). line_byte c"
proof (induction v)
  case (JNum n)
  then show ?case by (cases n) (auto simp: show_int_def dest!: show_nat_line, auto simp: line_byte_def byte_def)
next
  case (JArr xs)
  then have "\<forall>p\<in>set (map json_text xs). \<forall>c\<in>set p. line_byte c" by simp
  then have "line_byte c" if "c \<in> set (join '','' (map json_text xs))" for c using that by (rule join_line)
  then show ?case by (simp add: line_byte_def byte_def)
next
  case (JObj es)
  have "\<forall>p\<in>set (map (\<lambda>e. str_text (fst e) @ CHR '':'' # json_text (snd e)) es). \<forall>c\<in>set p. line_byte c"
  proof -
    have "\<forall>c\<in>set (json_text (snd e)). line_byte c" if "e \<in> set es" for e
      using JObj.IH [OF that, of "snd e"] by (simp add: snds.simps)
    moreover have "line_byte (CHR '':'')" by (simp add: line_byte_def byte_def)
    ultimately show ?thesis using str_text_line by auto
  qed
  then have "line_byte c"
    if "c \<in> set (join '','' (map (\<lambda>e. str_text (fst e) @ CHR '':'' # json_text (snd e)) es))" for c
    using that by (rule join_line)
  then show ?case by (simp add: line_byte_def byte_def)
qed (auto simp: line_byte_def byte_def dest: str_text_line [unfolded line_byte_def byte_def])

lemma json_text_ends: "json_text v \<noteq> [] \<and> byte (hd (json_text v)) \<noteq> 32 \<and> byte (last (json_text v)) \<noteq> 32"
proof (cases v)
  case (JNum n)
  have "hd (show_nat k) \<in> set (show_nat k)" "last (show_nat k) \<in> set (show_nat k)" for k by simp_all
  then have "byte (hd (show_nat k)) \<noteq> 32" "byte (last (show_nat k)) \<noteq> 32" for k
    using show_nat_line by blast+
  then show ?thesis using JNum by (cases n) (simp_all add: show_int_def byte_def)
qed (simp_all add: str_text_def byte_def)

lemma trim_line:
  assumes "\<forall>c\<in>set s. line_byte c" and "s \<noteq> []" "byte (hd s) \<noteq> 32" "byte (last s) \<noteq> 32"
  shows "trim s = s" "trim (s @ [CHR 0x0A]) = s"
proof -
  have ws: "\<not> is_whitespace [c]" if "line_byte c" "byte c \<noteq> 32" for c
    using that by (auto simp: is_whitespace_def ws_chars_def line_byte_def byte_def)
  have chars: "utf8_chars s = map (\<lambda>c. [c]) s" "utf8_chars (s @ [CHR 0x0A]) = map (\<lambda>c. [c]) s @ [[CHR 0x0A]]"
    using assms(1) by (subst utf8_chars_ascii; auto simp: is_ascii_def line_byte_def byte_def)+
  have ends: "\<not> is_whitespace [hd s]" "\<not> is_whitespace [last s]" using assms ws by simp_all
  have fwd: "dropWhile is_whitespace (map (\<lambda>c. [c]) s @ t) = map (\<lambda>c. [c]) s @ t" for t
    using ends(1) assms(2) by (cases s) simp_all
  have bwd: "dropWhile is_whitespace (map (\<lambda>c. [c]) (rev s)) = map (\<lambda>c. [c]) (rev s)"
    using ends(2) assms(2) by (cases s rule: rev_cases) simp_all
  have "is_whitespace [CHR 0x0A]" by (simp add: is_whitespace_def ws_chars_def)
  then show "trim s = s" "trim (s @ [CHR 0x0A]) = s"
    using fwd [of "[]"] fwd bwd by (simp_all add: trim_def chars rev_map [symmetric])
qed

lemmas trim_json_text = trim_line [OF json_text_line conjunct1 [OF json_text_ends]
  conjunct1 [OF conjunct2 [OF json_text_ends]] conjunct2 [OF conjunct2 [OF json_text_ends]]]

text \<open>What a value that fits reads back as, and what can be read at all.\<close>

lemma read_of_text:
  assumes "json_fits JSON_DEPTH v"
  shows "json_read (json_text v) = Some (json_image v)" "json_read (json_text v @ [CHR 0x0A]) = Some (json_image v)"
  using read_value_text [OF assms, of "[]" "2 * length (json_text v)"]
  by (simp_all add: json_read_def trim_json_text number_stops_def)

lemma read_of_exact:
  assumes "json_fits JSON_DEPTH v" and "json_exact v"
  shows "json_read (json_text v) = Some v" "json_read (json_text v @ [CHR 0x0A]) = Some v"
  using read_of_text [OF assms(1)] image_exact [OF assms(2)] by simp_all

lemma read_json_fits: "json_read s = Some v \<Longrightarrow> json_fits JSON_DEPTH v"
  using read_fits(1) by (auto simp: json_read_def Let_def split: option.splits list.splits prod.splits)

lemma image_int: "json_image (json_of_int i) = json_of_int i"
  by (simp add: json_of_int_def)

lemma map_of_image: "map_of (map (\<lambda>e. (fst e, json_image (snd e))) m) k = map_option json_image (map_of m k)"
  by (induction m) auto

section \<open>What is too deep cannot be read\<close>

lemma read_items_Some:
  "read_items (Suc n) d s = Some (xs, r) \<longleftrightarrow>
    (\<exists>x c t. read_value n d s = Some (x, c # t) \<and>
      (c = CHR '','' \<and> (\<exists>ys. read_items n d t = Some (ys, r) \<and> xs = x # ys) \<or> c = CHR '']'' \<and> xs = [x] \<and> r = t))"
  by (auto simp: map_pair_Some split: option.splits list.splits if_splits prod.splits)

lemma read_fields_Some:
  "read_fields (Suc n) d s = Some (es, r) \<longleftrightarrow>
    (\<exists>k q x c t. s \<noteq> [] \<and> hd s = CHR 0x22 \<and> read_bytes (tl s) = Some (k, CHR '':'' # q) \<and> read_value n d q = Some (x, c # t) \<and>
      (c = CHR '','' \<and> (\<exists>fs. read_fields n d t = Some (fs, r) \<and> es = (k, x) # fs) \<or> c = CHR 0x7D \<and> es = [(k, x)] \<and> r = t))"
  by (cases s) (auto simp: map_pair_Some split: option.splits list.splits if_splits prod.splits)

lemma read_deeper:
  "read_value n d s = Some (v, r) \<Longrightarrow> d \<le> d' \<Longrightarrow> read_value n d' s = Some (v, r)"
  "read_items n d s = Some (xs, r) \<Longrightarrow> d \<le> d' \<Longrightarrow> read_items n d' s = Some (xs, r)"
  "read_fields n d s = Some (es, r) \<Longrightarrow> d \<le> d' \<Longrightarrow> read_fields n d' s = Some (es, r)"
proof (induction n d s and n d s and n d s arbitrary: v r d' and xs r d' and es r d'
    rule: read_value_read_items_read_fields.induct)
  case (3 n d c s)
  consider "c = CHR ''[''" | "c = CHR 0x7B" | "c \<noteq> CHR ''[''" "c \<noteq> CHR 0x7B" by blast
  then show ?case
  proof cases
    case 1
    then have d: "0 < d" "0 < d'" "d - 1 \<le> d' - 1" using "3.prems" by (auto split: if_splits)
    show ?thesis
    proof (cases "s \<noteq> [] \<and> hd s = CHR '']''")
      case True
      then show ?thesis using 1 d "3.prems"(1) by simp
    next
      case False
      then obtain xs where xs: "read_items n (d - 1) s = Some (xs, r)" "v = JArr xs"
        using 1 d "3.prems"(1) by (auto simp: map_pair_Some)
      have "read_items n (d' - 1) s = Some (xs, r)" by (rule "3.IH"(1) [OF 1 _ False xs(1) d(3)]) (use d in simp)
      then show ?thesis using 1 d False xs(2) by auto
    qed
  next
    case 2
    then have d: "0 < d" "0 < d'" "d - 1 \<le> d' - 1" using "3.prems" by (auto split: if_splits)
    show ?thesis
    proof (cases "s \<noteq> [] \<and> hd s = CHR 0x7D")
      case True
      then show ?thesis using 2 d "3.prems"(1) by simp
    next
      case False
      then obtain es where es: "read_fields n (d - 1) s = Some (es, r)" "v = JObj (bm_of_list es)"
        using 2 d "3.prems"(1) by (auto simp: map_pair_Some)
      have "read_fields n (d' - 1) s = Some (es, r)"
        by (rule "3.IH"(2) [OF _ 2 _ False es(1) d(3)]) (use 2 d in simp_all)
      then show ?thesis using 2 d False es(2) by auto
    qed
  next
    case 3
    then show ?thesis using "3.prems"(1) by (auto split: if_splits)
  qed
next
  case (5 n d s)
  from "5.prems"(1) obtain x c t where x: "read_value n d s = Some (x, c # t)"
    and rest: "c = CHR '','' \<and> (\<exists>ys. read_items n d t = Some (ys, r) \<and> xs = x # ys) \<or> c = CHR '']'' \<and> xs = [x] \<and> r = t"
    unfolding read_items_Some by blast
  have "read_value n d' s = Some (x, c # t)" by (rule "5.IH"(1) [OF x "5.prems"(2)])
  moreover have "read_items n d' t = Some (ys, r)" if "c = CHR '',''" "read_items n d t = Some (ys, r)" for ys
    by (rule "5.IH"(2) [OF x _ _ _ that(2) "5.prems"(2)]) (use that(1) in simp_all)
  ultimately show ?case unfolding read_items_Some using rest by blast
next
  case (7 n d s)
  from "7.prems"(1) obtain k q x c t where x: "s \<noteq> []" "hd s = CHR 0x22" "read_bytes (tl s) = Some (k, CHR '':'' # q)"
      "read_value n d q = Some (x, c # t)"
    and rest: "c = CHR '','' \<and> (\<exists>fs. read_fields n d t = Some (fs, r) \<and> es = (k, x) # fs) \<or> c = CHR 0x7D \<and> es = [(k, x)] \<and> r = t"
    unfolding read_fields_Some by blast
  have s: "s = CHR 0x22 # tl s" using x(1,2) by (cases s) simp_all
  have "read_value n d' q = Some (x, c # t)"
    by (rule "7.IH"(1) [OF s _ x(3) _ _ _ x(4) "7.prems"(2)]) simp_all
  moreover have "read_fields n d' t = Some (fs, r)" if "c = CHR '',''" "read_fields n d t = Some (fs, r)" for fs
    by (rule "7.IH"(2) [OF s _ x(3) _ _ _ x(4) _ _ _ that(2) "7.prems"(2)]) (use that(1) in simp_all)
  ultimately show ?case unfolding read_fields_Some using x(1-3) rest by blast
qed simp_all

lemma fits_image: "json_fits d (json_image v) \<Longrightarrow> json_fits d v"
proof (induction v arbitrary: d)
  case (JArr xs)
  then show ?case by auto
next
  case (JObj es)
  have "json_fits (d - 1) (snd e)" if "e \<in> set es" for e
    by (rule JObj.IH [OF that, of "snd e"]) (use JObj.prems that in \<open>auto simp: snds.simps\<close>)
  then show ?case using JObj.prems by (auto simp: bm_wf_def comp_def)
qed simp_all

lemma read_too_deep:
  assumes "json_fits d v" and "\<not> json_fits JSON_DEPTH v"
  shows "json_read (json_text v) = None"
proof (rule ccontr)
  assume "json_read (json_text v) \<noteq> None"
  then obtain w where w: "read_value (2 * length (json_text v)) JSON_DEPTH (json_text v) = Some (w, [])"
    by (auto simp: json_read_def trim_json_text Let_def split: option.splits list.splits prod.splits)
  have "read_value (2 * length (json_text v)) d (json_text v) = Some (json_image v, [])"
    using read_value_text [OF assms(1), of "[]" "2 * length (json_text v)"] by (simp add: number_stops_def)
  then have "json_image v = w"
    using read_deeper(1) [OF w, of "max d JSON_DEPTH"] read_deeper(1) [of _ d _ "json_image v" "[]" "max d JSON_DEPTH"] by simp
  then show False using read_fits(1) [OF w] fits_image assms(2) by blast
qed

end
