(* ===== verification/EvalWorker.thy ===== *)
theory EvalWorker
  imports Eval JsonText
begin

text \<open>The evaluation worker's side of the protocol (crate \<^verbatim>\<open>mandala-eval-worker\<close>): \<^verbatim>\<open>nix.rs\<close>, which walks the values of the
  Nix evaluator, and \<^verbatim>\<open>main.rs\<close>, the loop over requests. The Nix library is the record \<open>nix_api\<close> over its own types of
  values and locked flakes; the JSON library's reading and printing are \<open>wire\<close>.\<close>

section \<open>The Nix library\<close>

datatype value_type = NixNull | NixBool | NixInt | NixFloat | NixString | NixPath | NixAttrs | NixList | NixOther string

text \<open>Errors are their text. \<open>na_string\<close> is the discarding of a string's context followed by reading it, which builds
  nothing; a float that is not finite is \<^const>\<open>None\<close>. Locking reads the world, so its number is an argument.\<close>

record ('v, 'l) nix_api =
  na_force :: "'v \<Rightarrow> (string, unit) result"
  na_type :: "'v \<Rightarrow> value_type"
  na_bool :: "'v \<Rightarrow> (string, bool) result"
  na_int :: "'v \<Rightarrow> (string, int) result"
  na_float :: "'v \<Rightarrow> (string, rat option) result"
  na_string :: "'v \<Rightarrow> 'v \<Rightarrow> (string, string) result"
  na_path :: "'v \<Rightarrow> (string, string) result"
  na_has_attr :: "'v \<Rightarrow> string \<Rightarrow> (string, bool) result"
  na_get_attr :: "'v \<Rightarrow> string \<Rightarrow> (string, 'v) result"
  na_call :: "'v \<Rightarrow> 'v \<Rightarrow> (string, 'v) result"
  na_attrs :: "'v \<Rightarrow> (string, (string, string \<times> 'v) result list) result"
  na_list :: "'v \<Rightarrow> (string, (string, 'v) result list) result"
  na_eval :: "string \<Rightarrow> (string, 'v) result"
  na_lock :: "nat \<Rightarrow> string \<Rightarrow> (string, 'l) result"
  na_outputs :: "'l \<Rightarrow> (string, 'v) result"

text \<open>The \<^verbatim>\<open>?\<close> operator, and a loop that stops at the first error.\<close>

fun try_then :: "('e, 'a) result \<Rightarrow> ('a \<Rightarrow> ('e, 'b) result) \<Rightarrow> ('e, 'b) result" where
  "try_then (Inl e) f = Inl e"
| "try_then (Inr a) f = f a"

fun collect_all :: "('a \<Rightarrow> ('e, 'b) result) \<Rightarrow> 'a list \<Rightarrow> ('e, 'b list) result" where
  "collect_all f [] = Inr []"
| "collect_all f (x # xs) = try_then (f x) (\<lambda>y. try_then (collect_all f xs) (\<lambda>ys. Inr (y # ys)))"

lemma try_then_cong [fundef_cong]:
  "m = m' \<Longrightarrow> (\<And>a. m' = Inr a \<Longrightarrow> f a = g a) \<Longrightarrow> try_then m f = try_then m' g"
  by (cases m') auto

lemma collect_all_cong [fundef_cong]:
  "xs = ys \<Longrightarrow> (\<And>x. x \<in> set ys \<Longrightarrow> f x = g x) \<Longrightarrow> collect_all f xs = collect_all g ys"
  by (induction xs arbitrary: ys) (auto split: list.splits intro!: try_then_cong)

lemma try_then_Inr: "try_then m f = Inr b \<longleftrightarrow> (\<exists>a. m = Inr a \<and> f a = Inr b)"
  by (cases m) auto

section \<open>Values as JSON\<close>

definition MAX_DEPTH :: nat where
  "MAX_DEPTH = 128"

text \<open>\<^verbatim>\<open>Json::from\<close> of an \<^verbatim>\<open>f64\<close>.\<close>

definition json_of_float :: "rat option \<Rightarrow> json" where
  "json_of_float x = (case x of None \<Rightarrow> JNull | Some q \<Rightarrow> JNum (JFloat q))"

function value_to_json_at ::
  "('v, 'l) nix_api \<Rightarrow> 'v \<Rightarrow> nat \<Rightarrow> string list \<Rightarrow> 'v \<Rightarrow> (string, json) result" where
  "value_to_json_at api discard depth path v =
    (if MAX_DEPTH < depth then
       Inl (''value_to_json exceeded depth '' @ show_nat MAX_DEPTH @ '' at .'' @ join ''.'' path @ '' (cycle or mis-navigation)'')
     else try_then (na_force api v) (\<lambda>_.
       case na_type api v of
         NixNull \<Rightarrow> Inr JNull
       | NixBool \<Rightarrow> try_then (na_bool api v) (\<lambda>b. Inr (JBool b))
       | NixInt \<Rightarrow> try_then (na_int api v) (\<lambda>i. Inr (json_of_int i))
       | NixFloat \<Rightarrow> try_then (na_float api v) (\<lambda>x. Inr (json_of_float x))
       | NixString \<Rightarrow> try_then (na_string api discard v) (\<lambda>s. Inr (JStr s))
       | NixPath \<Rightarrow> try_then (na_path api v) (\<lambda>p. Inr (JStr p))
       | NixAttrs \<Rightarrow>
           try_then (na_has_attr api v ''__toString'') (\<lambda>printable.
           if printable then
             try_then (na_get_attr api v ''__toString'') (\<lambda>f.
             try_then (na_call api f v) (\<lambda>out. value_to_json_at api discard (depth + 1) path out))
           else
             try_then (na_has_attr api v ''outPath'') (\<lambda>derivation.
             if derivation then
               try_then (na_get_attr api v ''outPath'') (\<lambda>out. value_to_json_at api discard (depth + 1) path out)
             else
               try_then (na_attrs api v) (\<lambda>entries.
               try_then (collect_all (\<lambda>entry. try_then entry (\<lambda>x.
                   try_then (value_to_json_at api discard (depth + 1) (path @ [fst x]) (snd x)) (\<lambda>j. Inr (fst x, j)))) entries)
                 (\<lambda>kvs. Inr (JObj (bm_of_list kvs))))))
       | NixList \<Rightarrow>
           try_then (na_list api v) (\<lambda>entries.
           try_then (collect_all (\<lambda>x. try_then (snd x) (\<lambda>child.
               value_to_json_at api discard (depth + 1) (path @ [''['' @ show_nat (fst x) @ '']'']) child)) (enumerate 0 entries))
             (\<lambda>xs. Inr (JArr xs)))
       | NixOther other \<Rightarrow> Inl (''cannot serialize nix value of type '' @ other @ '' to JSON'')))"
  by pat_completeness auto
termination by (relation "measure (\<lambda>(_, _, depth, _, _). Suc MAX_DEPTH - depth)") auto

declare value_to_json_at.simps [simp del]

section \<open>The warm evaluator\<close>

record 'l warm =
  wm_cache :: "(string, 'l) bmap"
  wm_locks :: nat

definition warm_new :: "'l warm" where
  "warm_new = \<lparr>wm_cache = [], wm_locks = 0\<rparr>"

definition ensure_locked :: "('v, 'l) nix_api \<Rightarrow> string \<Rightarrow> 'l warm \<Rightarrow> (string, unit) result \<times> 'l warm" where
  "ensure_locked api flake st =
    (if bm_contains (wm_cache st) flake then (Inr (), st)
     else
       case na_lock api (wm_locks st) flake of
         Inl e \<Rightarrow> (Inl e, st\<lparr>wm_locks := wm_locks st + 1\<rparr>)
       | Inr l \<Rightarrow> (Inr (), st\<lparr>wm_cache := bm_insert flake l (wm_cache st), wm_locks := wm_locks st + 1\<rparr>))"

definition outputs :: "('v, 'l) nix_api \<Rightarrow> string \<Rightarrow> 'l warm \<Rightarrow> (string, 'v) result" where
  "outputs api flake st =
    (case map_of (wm_cache st) flake of
       None \<Rightarrow> Inl (''flake '' @ str_debug flake @ '' not locked'')
     | Some l \<Rightarrow> na_outputs api l)"

definition discard_fn :: "('v, 'l) nix_api \<Rightarrow> (string, 'v) result" where
  "discard_fn api = na_eval api ''builtins.unsafeDiscardStringContext''"

text \<open>Locking is the only step that changes the state.\<close>

definition locked :: "('v, 'l) nix_api \<Rightarrow> string \<Rightarrow> ('l warm \<Rightarrow> (string, 'a) result) \<Rightarrow> 'l warm \<Rightarrow> (string, 'a) result \<times> 'l warm" where
  "locked api flake f st =
    (case ensure_locked api flake st of (Inl e, st) \<Rightarrow> (Inl e, st) | (Inr _, st) \<Rightarrow> (f st, st))"

definition worker_aggregate :: "('v, 'l) nix_api \<Rightarrow> string \<Rightarrow> 'l warm \<Rightarrow> (string, json) result \<times> 'l warm" where
  "worker_aggregate api flake =
    locked api flake (\<lambda>st.
      try_then (discard_fn api) (\<lambda>discard.
      try_then (outputs api flake st) (\<lambda>out.
      try_then (na_force api out) (\<lambda>_.
      try_then (na_get_attr api out ''mandala'') (value_to_json_at api discard 0 [])))))"

fun nav_to_string :: "('v, 'l) nix_api \<Rightarrow> 'v \<Rightarrow> string list \<Rightarrow> 'v \<Rightarrow> (string, string) result" where
  "nav_to_string api discard [] cur = try_then (na_force api cur) (\<lambda>_. na_string api discard cur)"
| "nav_to_string api discard (key # rest) cur =
    try_then (na_force api cur) (\<lambda>_. try_then (na_get_attr api cur key) (nav_to_string api discard rest))"

text \<open>The configurations of a locked flake.\<close>

definition configurations :: "('v, 'l) nix_api \<Rightarrow> string \<Rightarrow> 'l warm \<Rightarrow> (string, 'v) result" where
  "configurations api flake st =
    try_then (outputs api flake st) (\<lambda>out.
    try_then (na_force api out) (\<lambda>_.
    try_then (na_get_attr api out ''nixosConfigurations'') (\<lambda>cfgs.
    try_then (na_force api cfgs) (\<lambda>_. Inr cfgs))))"

definition TOPLEVEL_KEYS :: "string list" where
  "TOPLEVEL_KEYS = [''config'', ''system'', ''build'', ''toplevel'', ''outPath'']"

definition member_accepted :: "string \<Rightarrow> bool" where
  "member_accepted name \<longleftrightarrow>
    length name \<in> {1..63} \<and> (case name of [] \<Rightarrow> False | c # _ \<Rightarrow> is_ascii_alnum c) \<and>
    (name \<noteq> [] \<and> is_ascii_alnum (last name)) \<and> list_all (\<lambda>b. is_ascii_alnum b \<or> b = CHR ''-'') name \<and>
    \<not> eq_ignore_ascii_case name ''all''"

definition host_toplevel ::
  "('v, 'l) nix_api \<Rightarrow> string \<Rightarrow> string \<Rightarrow> 'l warm \<Rightarrow> (string, string option) result \<times> 'l warm" where
  "host_toplevel api flake member st =
    (if \<not> member_accepted member then (Inl (''refusing invalid member name '' @ str_debug member), st)
     else
       locked api flake (\<lambda>st.
         try_then (discard_fn api) (\<lambda>discard.
         try_then (configurations api flake st) (\<lambda>cfgs.
           case na_get_attr api cfgs member of
             Inl _ \<Rightarrow> Inr None
           | Inr host \<Rightarrow> try_then (nav_to_string api discard TOPLEVEL_KEYS host) (\<lambda>path. Inr (Some path))))) st)"

fun toplevels_of_members ::
  "('v, 'l) nix_api \<Rightarrow> string \<Rightarrow> string list \<Rightarrow> toplevels \<times> 'l warm \<Rightarrow> toplevels \<times> 'l warm" where
  "toplevels_of_members api flake [] acc = acc"
| "toplevels_of_members api flake (m # ms) (out, st) =
    (case host_toplevel api flake m st of
       (Inr (Some path), st) \<Rightarrow> toplevels_of_members api flake ms (out\<lparr>tl_paths := bm_insert m path (tl_paths out)\<rparr>, st)
     | (Inr None, st) \<Rightarrow> toplevels_of_members api flake ms (out, st)
     | (Inl e, st) \<Rightarrow> toplevels_of_members api flake ms (out\<lparr>tl_errors := bm_insert m e (tl_errors out)\<rparr>, st))"

definition worker_toplevels ::
  "('v, 'l) nix_api \<Rightarrow> string \<Rightarrow> string list \<Rightarrow> 'l warm \<Rightarrow> (string, toplevels) result \<times> 'l warm" where
  "worker_toplevels api flake mems st =
    (case locked api flake (configurations api flake) st of
       (Inl e, st) \<Rightarrow> (Inl e, st)
     | (Inr _, st) \<Rightarrow>
         (case toplevels_of_members api flake mems (toplevels_default, st) of (out, st) \<Rightarrow> (Inr out, st)))"

section \<open>Requests and responses\<close>

record eval_call =
  er_id :: nat
  er_op :: string
  er_flake :: string
  er_member :: "string option"
  er_members :: "string list option"

text \<open>The derived \<^verbatim>\<open>Deserialize\<close>: a frame is an object or the array of its fields in order; the last three have defaults.\<close>

definition optional_field :: "(json \<Rightarrow> 'a option) \<Rightarrow> json option \<Rightarrow> 'a option option" where
  "optional_field f x = (case x of None \<Rightarrow> Some None | Some JNull \<Rightarrow> Some None | Some v \<Rightarrow> map_option Some (f v))"

definition eval_call_of :: "json option \<Rightarrow> json option \<Rightarrow> json option \<Rightarrow> json option \<Rightarrow> json option \<Rightarrow> eval_call option" where
  "eval_call_of i op flake member mems =
    Option.bind (Option.bind i as_u64) (\<lambda>i. Option.bind (Option.bind op as_str) (\<lambda>op.
    Option.bind (case flake of None \<Rightarrow> Some [] | Some v \<Rightarrow> as_str v) (\<lambda>flake.
    Option.bind (optional_field as_str member) (\<lambda>member.
    Option.bind (optional_field (\<lambda>v. Option.bind (as_array v) strings_of) mems) (\<lambda>mems.
      Some \<lparr>er_id = i, er_op = op, er_flake = flake, er_member = member, er_members = mems\<rparr>)))))"

definition nth_opt :: "'a list \<Rightarrow> nat \<Rightarrow> 'a option" where
  "nth_opt xs n = (if n < length xs then Some (xs ! n) else None)"

definition eval_call_of_json :: "json \<Rightarrow> eval_call option" where
  "eval_call_of_json v =
    (case v of
       JObj m \<Rightarrow> eval_call_of (map_of m ''id'') (map_of m ''op'') (map_of m ''flake'') (map_of m ''member'') (map_of m ''members'')
     | JArr xs \<Rightarrow>
         if 5 < length xs then None
         else eval_call_of (nth_opt xs 0) (nth_opt xs 1) (nth_opt xs 2) (nth_opt xs 3) (nth_opt xs 4)
     | _ \<Rightarrow> None)"

record response =
  rs_id :: nat
  rs_ok :: bool
  rs_value :: "json option"
  rs_error :: "string option"

definition response_ok :: "nat \<Rightarrow> json option \<Rightarrow> response" where
  "response_ok i value = \<lparr>rs_id = i, rs_ok = True, rs_value = value, rs_error = None\<rparr>"

definition response_err :: "nat \<Rightarrow> string \<Rightarrow> response" where
  "response_err i error = \<lparr>rs_id = i, rs_ok = False, rs_value = None, rs_error = Some error\<rparr>"

text \<open>The frame a response is printed as: absent fields are left out.\<close>

definition response_json :: "response \<Rightarrow> json" where
  "response_json r = json_obj
    ([(''id'', JNum (PosInt (rs_id r))), (''ok'', JBool (rs_ok r))] @
     (case rs_value r of None \<Rightarrow> [] | Some v \<Rightarrow> [(''value'', v)]) @
     (case rs_error r of None \<Rightarrow> [] | Some e \<Rightarrow> [(''error'', JStr e)]))"

definition toplevels_value :: "toplevels \<Rightarrow> json" where
  "toplevels_value t =
    JObj (fold (\<lambda>x. bm_insert (fst x) (json_obj [(''error'', JStr (snd x))])) (tl_errors t)
      (bm_of_list (map (\<lambda>(m, path). (m, JStr path)) (tl_paths t))))"

definition handle_request :: "('v, 'l) nix_api \<Rightarrow> eval_call \<Rightarrow> 'l warm \<Rightarrow> response \<times> 'l warm" where
  "handle_request api req st =
    (let i = er_id req in
     if er_op req = ''ping'' then (response_ok i None, st)
     else if er_op req = ''aggregate'' then
       (case worker_aggregate api (er_flake req) st of
          (Inr v, st) \<Rightarrow> (response_ok i (Some v), st)
        | (Inl e, st) \<Rightarrow> (response_err i e, st))
     else if er_op req = ''host_eval'' then
       (case er_member req of
          None \<Rightarrow> (response_err i (''host_eval requires '' @ [CHR 0x27] @ ''member'' @ [CHR 0x27]), st)
        | Some member \<Rightarrow>
            (case host_toplevel api (er_flake req) member st of
               (Inr v, st) \<Rightarrow> (response_ok i (Some (case v of None \<Rightarrow> JNull | Some path \<Rightarrow> JStr path)), st)
             | (Inl e, st) \<Rightarrow> (response_err i e, st)))
     else if er_op req = ''expected_toplevels'' \<or> er_op req = ''toplevel'' then
       (case worker_toplevels api (er_flake req) (opt_default [] (er_members req)) st of
          (Inr t, st) \<Rightarrow> (response_ok i (Some (toplevels_value t)), st)
        | (Inl e, st) \<Rightarrow> (response_err i e, st))
     else (response_err i (''unknown op '' @ str_debug (er_op req)), st))"

section \<open>The loop\<close>

text \<open>Reading a line as a value, the message for a value of another shape, and printing a response.\<close>

record wire =
  wi_parse :: "string \<Rightarrow> (string, json) result"
  wi_shape :: "json \<Rightarrow> string"
  wi_print :: "response \<Rightarrow> (string, string) result"

definition encode_response :: "wire \<Rightarrow> response \<Rightarrow> string" where
  "encode_response io r =
    (case wi_print io r of
       Inr s \<Rightarrow> s
     | Inl e \<Rightarrow>
         (case wi_print io (response_err (rs_id r) (''response serialization failed: '' @ e)) of
            Inr s \<Rightarrow> s
          | Inl _ \<Rightarrow> [CHR 0x7B, CHR 0x22] @ ''id'' @ [CHR 0x22, CHR '':''] @ show_nat (rs_id r) @ [CHR '','', CHR 0x22] @ ''ok'' @
              [CHR 0x22] @ '':false'' @ [CHR 0x7D]))"

definition read_request :: "wire \<Rightarrow> string \<Rightarrow> (string, eval_call) result" where
  "read_request io line =
    (case wi_parse io line of
       Inl e \<Rightarrow> Inl e
     | Inr v \<Rightarrow> (case eval_call_of_json v of None \<Rightarrow> Inl (wi_shape io v) | Some req \<Rightarrow> Inr req))"

definition answer_line :: "('v, 'l) nix_api \<Rightarrow> wire \<Rightarrow> string \<Rightarrow> 'l warm \<Rightarrow> response \<times> 'l warm" where
  "answer_line api io line st =
    (case read_request io line of
       Inr req \<Rightarrow> handle_request api req st
     | Inl e \<Rightarrow> (response_err 0 (''bad request: '' @ e), st))"

text \<open>The lines of standard input, an unreadable one being \<^const>\<open>None\<close>, and whether the \<open>n\<close>-th reply can be written.\<close>

fun serve_lines ::
  "('v, 'l) nix_api \<Rightarrow> wire \<Rightarrow> (nat \<Rightarrow> bool) \<Rightarrow> string option list \<Rightarrow> string list \<Rightarrow> 'l warm \<Rightarrow> string list \<times> 'l warm" where
  "serve_lines api io writable [] out st = (out, st)"
| "serve_lines api io writable (None # rest) out st = (out, st)"
| "serve_lines api io writable (Some line # rest) out st =
    (if trim line = [] then serve_lines api io writable rest out st
     else
       case answer_line api io line st of
         (resp, st) \<Rightarrow>
           if writable (length out) then serve_lines api io writable rest (out @ [encode_response io resp]) st
           else (out, st))"

definition worker_main ::
  "('v, 'l) nix_api \<Rightarrow> wire \<Rightarrow> string option \<Rightarrow> (nat \<Rightarrow> bool) \<Rightarrow> string option list \<Rightarrow> string list \<times> nat" where
  "worker_main api io init_error writable lines =
    (case init_error of
       Some _ \<Rightarrow> ([], 1)
     | None \<Rightarrow> (fst (serve_lines api io writable lines [] warm_new), 0))"

section \<open>The walk against a tree\<close>

text \<open>What \<^verbatim>\<open>nix eval --json\<close> serialises, as a finite tree: a set with \<^verbatim>\<open>__toString\<close> is its printed value, one with an
  \<^verbatim>\<open>outPath\<close> that path, any other its attributes.\<close>

datatype nix_tree =
    TNull | TBool bool | TInt int | TFloat "rat option" | TString string | TPath string
  | TPrinted nix_tree | TDerivation nix_tree | TAttrs "(string \<times> nix_tree) list" | TList "nix_tree list"

fun tree_json :: "nix_tree \<Rightarrow> json" where
  "tree_json TNull = JNull"
| "tree_json (TBool b) = JBool b"
| "tree_json (TInt i) = json_of_int i"
| "tree_json (TFloat x) = json_of_float x"
| "tree_json (TString s) = JStr s"
| "tree_json (TPath p) = JStr p"
| "tree_json (TPrinted t) = tree_json t"
| "tree_json (TDerivation t) = tree_json t"
| "tree_json (TAttrs kts) = json_obj (map (\<lambda>kt. (fst kt, tree_json (snd kt))) kts)"
| "tree_json (TList ts) = JArr (map tree_json ts)"

fun tree_depth :: "nix_tree \<Rightarrow> nat" where
  "tree_depth (TPrinted t) = Suc (tree_depth t)"
| "tree_depth (TDerivation t) = Suc (tree_depth t)"
| "tree_depth (TAttrs kts) = foldr max (map (\<lambda>kt. Suc (tree_depth (snd kt))) kts) 0"
| "tree_depth (TList ts) = foldr max (map (\<lambda>t. Suc (tree_depth t)) ts) 0"
| "tree_depth _ = 0"

inductive has_tree :: "('v, 'l) nix_api \<Rightarrow> 'v \<Rightarrow> 'v \<Rightarrow> nix_tree \<Rightarrow> bool" for api discard where
  null: "na_force api v = Inr () \<Longrightarrow> na_type api v = NixNull \<Longrightarrow> has_tree api discard v TNull"
| bool: "na_force api v = Inr () \<Longrightarrow> na_type api v = NixBool \<Longrightarrow> na_bool api v = Inr b \<Longrightarrow> has_tree api discard v (TBool b)"
| int: "na_force api v = Inr () \<Longrightarrow> na_type api v = NixInt \<Longrightarrow> na_int api v = Inr i \<Longrightarrow> has_tree api discard v (TInt i)"
| float: "na_force api v = Inr () \<Longrightarrow> na_type api v = NixFloat \<Longrightarrow> na_float api v = Inr x \<Longrightarrow> has_tree api discard v (TFloat x)"
| string: "na_force api v = Inr () \<Longrightarrow> na_type api v = NixString \<Longrightarrow> na_string api discard v = Inr s \<Longrightarrow>
    has_tree api discard v (TString s)"
| path: "na_force api v = Inr () \<Longrightarrow> na_type api v = NixPath \<Longrightarrow> na_path api v = Inr p \<Longrightarrow> has_tree api discard v (TPath p)"
| printed: "na_force api v = Inr () \<Longrightarrow> na_type api v = NixAttrs \<Longrightarrow> na_has_attr api v ''__toString'' = Inr True \<Longrightarrow>
    na_get_attr api v ''__toString'' = Inr f \<Longrightarrow> na_call api f v = Inr out \<Longrightarrow> has_tree api discard out t \<Longrightarrow>
    has_tree api discard v (TPrinted t)"
| derivation: "na_force api v = Inr () \<Longrightarrow> na_type api v = NixAttrs \<Longrightarrow> na_has_attr api v ''__toString'' = Inr False \<Longrightarrow>
    na_has_attr api v ''outPath'' = Inr True \<Longrightarrow> na_get_attr api v ''outPath'' = Inr out \<Longrightarrow> has_tree api discard out t \<Longrightarrow>
    has_tree api discard v (TDerivation t)"
| attrs: "na_force api v = Inr () \<Longrightarrow> na_type api v = NixAttrs \<Longrightarrow> na_has_attr api v ''__toString'' = Inr False \<Longrightarrow>
    na_has_attr api v ''outPath'' = Inr False \<Longrightarrow> na_attrs api v = Inr entries \<Longrightarrow>
    list_all2 (\<lambda>entry kt. \<exists>child. entry = Inr (fst kt, child) \<and> has_tree api discard child (snd kt)) entries kts \<Longrightarrow>
    has_tree api discard v (TAttrs kts)"
| list: "na_force api v = Inr () \<Longrightarrow> na_type api v = NixList \<Longrightarrow> na_list api v = Inr entries \<Longrightarrow>
    list_all2 (\<lambda>entry t. \<exists>child. entry = Inr child \<and> has_tree api discard child t) entries ts \<Longrightarrow>
    has_tree api discard v (TList ts)"

lemma ok_try_then: "ok (try_then m f) = Option.bind (ok m) (\<lambda>a. ok (f a))"
  by (cases m) auto

lemma collect_all_ok:
  "list_all2 (\<lambda>e t. ok (f e) = (if P t then Some (g t) else None)) es ts \<Longrightarrow>
    ok (collect_all f es) = (if list_all P ts then Some (map g ts) else None)"
  by (induction rule: list_all2_induct) (auto simp: ok_try_then)

lemma list_all2_enumerate: "list_all2 R es ts \<Longrightarrow> list_all2 (\<lambda>x. R (snd x)) (enumerate n es) ts"
  by (induction arbitrary: n rule: list_all2_induct) auto

lemma max_depth_all: "d + foldr max xs 0 \<le> (M::nat) \<longleftrightarrow> d \<le> M \<and> (\<forall>x\<in>set xs. d + x \<le> M)"
  by (induction xs) auto

lemma value_to_json_tree:
  "has_tree api discard v t \<Longrightarrow>
    ok (value_to_json_at api discard depth path v) = (if depth + tree_depth t \<le> MAX_DEPTH then Some (tree_json t) else None)"
proof (induction arbitrary: depth path rule: has_tree.induct)
  case (attrs v entries kts)
  have "list_all2 (\<lambda>e kt. ok (try_then e (\<lambda>x. try_then (value_to_json_at api discard (depth + 1) (path @ [fst x]) (snd x))
        (\<lambda>j. Inr (fst x, j)))) =
      (if Suc depth + tree_depth (snd kt) \<le> MAX_DEPTH then Some (fst kt, tree_json (snd kt)) else None)) entries kts"
    by (rule list_all2_mono [OF attrs.IH]) (auto simp: ok_try_then)
  from collect_all_ok [OF this] attrs.hyps show ?case
    by (subst value_to_json_at.simps)
      (auto simp: ok_try_then max_depth_all list_all_iff json_obj_def)
next
  case (list v entries ts)
  have "list_all2 (\<lambda>x t. ok (try_then (snd x) (\<lambda>child.
        value_to_json_at api discard (depth + 1) (path @ [''['' @ show_nat (fst x) @ '']'']) child)) =
      (if Suc depth + tree_depth t \<le> MAX_DEPTH then Some (tree_json t) else None)) (enumerate 0 entries) ts"
    by (rule list_all2_mono [OF list_all2_enumerate [OF list.IH]]) auto
  from collect_all_ok [OF this] list.hyps show ?case
    by (subst value_to_json_at.simps) (auto simp: ok_try_then max_depth_all list_all_iff)
qed (subst value_to_json_at.simps; auto simp: ok_try_then)+

section \<open>Members\<close>

lemma member_accepted_valid: "member_accepted m = is_valid_member_name m"
  by (auto simp: member_accepted_def is_valid_member_name_def)

text \<open>What a locked flake says of a member.\<close>

definition member_toplevel :: "('v, 'l) nix_api \<Rightarrow> 'l \<Rightarrow> string \<Rightarrow> (string, string option) result" where
  "member_toplevel api l m =
    fst (host_toplevel api [] m \<lparr>wm_cache = [([], l)], wm_locks = 0\<rparr>)"

lemma configurations_cached:
  "map_of (wm_cache st) flake = Some l \<Longrightarrow> map_of (wm_cache st') flake' = Some l \<Longrightarrow>
    configurations api flake st = configurations api flake' st'"
  by (simp add: configurations_def outputs_def)

lemma locked_cached: "map_of (wm_cache st) flake = Some l \<Longrightarrow> locked api flake f st = (f st, st)"
  by (simp add: locked_def ensure_locked_def bm_contains_def)

lemma host_toplevel_cached:
  assumes "map_of (wm_cache st) flake = Some l"
  shows "host_toplevel api flake m st = (member_toplevel api l m, st)"
proof -
  let ?st = "\<lparr>wm_cache = [([], l)], wm_locks = 0\<rparr>"
  have l: "map_of (wm_cache ?st) [] = Some l" by simp
  show ?thesis
    using configurations_cached [OF assms l, of api]
    by (simp add: host_toplevel_def member_toplevel_def locked_cached [OF assms] locked_cached [OF l])
qed

lemma locked_flake:
  assumes "locked api flake f st = (r, st')"
  shows "(\<exists>e. r = Inl e \<and> map_of (wm_cache st') flake = None) \<or> (\<exists>l. map_of (wm_cache st') flake = Some l \<and> r = f st')"
  using assms by (auto simp: locked_def ensure_locked_def bm_contains_def split: if_splits sum.splits)

definition tells :: "(string, string option) result \<Rightarrow> string option \<times> string option" where
  "tells r = (case r of Inl e \<Rightarrow> (None, Some e) | Inr p \<Rightarrow> (p, None))"

lemma toplevels_of_members_tell:
  assumes "map_of (wm_cache st) flake = Some l" and "bm_wf (tl_paths out)" and "bm_wf (tl_errors out)"
    and "\<forall>m. (map_of (tl_paths out) m, map_of (tl_errors out) m) = (if m \<in> old then tells (member_toplevel api l m) else (None, None))"
    and "toplevels_of_members api flake ms (out, st) = (out', st')"
  shows "st' = st \<and> bm_wf (tl_paths out') \<and> bm_wf (tl_errors out') \<and>
    (\<forall>m. (map_of (tl_paths out') m, map_of (tl_errors out') m) =
      (if m \<in> old \<union> set ms then tells (member_toplevel api l m) else (None, None)))"
  using assms(2-)
proof (induction ms arbitrary: out old)
  case (Cons x xs)
  define add where "add = (case member_toplevel api l x of
      Inr (Some path) \<Rightarrow> out\<lparr>tl_paths := bm_insert x path (tl_paths out)\<rparr>
    | Inr None \<Rightarrow> out | Inl e \<Rightarrow> out\<lparr>tl_errors := bm_insert x e (tl_errors out)\<rparr>)"
  have run: "toplevels_of_members api flake xs (add, st) = (out', st')"
    using Cons.prems(4) by (auto simp: host_toplevel_cached [OF assms(1)] add_def split: sum.splits option.splits)
  have wf: "bm_wf (tl_paths add)" "bm_wf (tl_errors add)"
    using Cons.prems(1,2) by (auto simp: add_def bm_wf_insert split: sum.split option.split)
  have "(map_of (tl_paths add) m, map_of (tl_errors add) m) =
      (if m \<in> insert x old then tells (member_toplevel api l m) else (None, None))" for m
    using Cons.prems(3) [rule_format, of m]
    by (auto simp: add_def tells_def split: sum.splits option.splits if_splits)
  from Cons.IH [OF wf _ run, of "insert x old"] this show ?case by simp
qed simp

text \<open>An answer about members is, for each of them alone, what the locked flake says of it.\<close>

definition tells_members :: "('v, 'l) nix_api \<Rightarrow> 'l \<Rightarrow> string list \<Rightarrow> toplevels \<Rightarrow> bool" where
  "tells_members api l ms t \<longleftrightarrow>
    bm_wf (tl_paths t) \<and> bm_wf (tl_errors t) \<and>
    (\<forall>m. (map_of (tl_paths t) m, map_of (tl_errors t) m) =
      (if m \<in> set ms then tells (member_toplevel api l m) else (None, None)))"

lemma worker_toplevels_tell:
  assumes "worker_toplevels api flake ms st = (Inr t, st')"
  shows "\<exists>l. map_of (wm_cache st') flake = Some l \<and> tells_members api l ms t"
proof -
  obtain x st1 where x: "locked api flake (configurations api flake) st = (Inr x, st1)"
    "toplevels_of_members api flake ms (toplevels_default, st1) = (t, st')"
    using assms by (auto simp: worker_toplevels_def split: prod.splits sum.splits)
  then obtain l where "map_of (wm_cache st1) flake = Some l" using locked_flake [OF x(1)] by auto
  from toplevels_of_members_tell [OF this _ _ _ x(2), of "{}"] this show ?thesis
    by (auto simp: tells_members_def toplevels_default_def)
qed

section \<open>The answer on the wire\<close>

lemma told_apart:
  assumes "tells_members api l ms t"
  shows "map_of (tl_paths t) m = None \<or> map_of (tl_errors t) m = None"
proof -
  have "fst (tells r) = None \<or> snd (tells r) = None" for r by (simp add: tells_def split: sum.split)
  moreover have "(map_of (tl_paths t) m, map_of (tl_errors t) m) \<in> {tells (member_toplevel api l m), (None, None)}"
    using assms by (simp add: tells_members_def)
  ultimately show ?thesis by (metis fst_conv insertE singletonD snd_conv)
qed

text \<open>Reading an answer whose entries are paths and error objects.\<close>

definition reads_error :: "json \<Rightarrow> string option" where
  "reads_error v = (if as_str v = None then Option.bind (json_get ''error'' v) as_str else None)"

definition first_of :: "'a option \<Rightarrow> 'a option \<Rightarrow> 'a option" where
  "first_of x y = (case x of None \<Rightarrow> y | Some a \<Rightarrow> Some a)"

lemma first_of_simps [simp]: "first_of None y = y" "first_of (Some a) y = Some a"
  by (simp_all add: first_of_def)

lemma parse_entries_told:
  assumes "distinct (map fst obj)" and "list_all (\<lambda>x. as_str (snd x) \<noteq> None \<or> reads_error (snd x) \<noteq> None) obj"
    and "bm_wf (tl_paths out)" and "bm_wf (tl_errors out)"
  shows "\<exists>t. parse_worker_entries render obj out = Inr t \<and> bm_wf (tl_paths t) \<and> bm_wf (tl_errors t) \<and>
    (\<forall>m. map_of (tl_paths t) m = first_of (Option.bind (map_of obj m) as_str) (map_of (tl_paths out) m) \<and>
      map_of (tl_errors t) m = first_of (Option.bind (map_of obj m) reads_error) (map_of (tl_errors out) m))"
  using assms
proof (induction obj arbitrary: out)
  case (Cons x obj)
  obtain m v where x: "x = (m, v)" by fastforce
  have new: "map_of obj m = None" using Cons.prems(1) by (simp add: x map_of_eq_None_iff)
  show ?case
  proof (cases "as_str v")
    case (Some p)
    let ?out = "out\<lparr>tl_paths := bm_insert m p (tl_paths out)\<rparr>"
    have "reads_error v = None" using Some by (simp add: reads_error_def)
    moreover obtain t where "parse_worker_entries render obj ?out = Inr t" "bm_wf (tl_paths t)" "bm_wf (tl_errors t)"
      "\<forall>m. map_of (tl_paths t) m = first_of (Option.bind (map_of obj m) as_str) (map_of (tl_paths ?out) m) \<and>
        map_of (tl_errors t) m = first_of (Option.bind (map_of obj m) reads_error) (map_of (tl_errors ?out) m)"
      using Cons.IH [of ?out] Cons.prems by (auto simp: bm_wf_insert)
    ultimately show ?thesis using Some new by (intro exI [of _ t]) (simp add: x)
  next
    case None
    then obtain e where e: "Option.bind (json_get ''error'' v) as_str = Some e" "reads_error v = Some e"
      using Cons.prems(2) by (auto simp: x reads_error_def)
    let ?out = "out\<lparr>tl_errors := bm_insert m e (tl_errors out)\<rparr>"
    obtain t where "parse_worker_entries render obj ?out = Inr t" "bm_wf (tl_paths t)" "bm_wf (tl_errors t)"
      "\<forall>m. map_of (tl_paths t) m = first_of (Option.bind (map_of obj m) as_str) (map_of (tl_paths ?out) m) \<and>
        map_of (tl_errors t) m = first_of (Option.bind (map_of obj m) reads_error) (map_of (tl_errors ?out) m)"
      using Cons.IH [of ?out] Cons.prems by (auto simp: bm_wf_insert)
    then show ?thesis using None e new by (intro exI [of _ t]) (simp add: x)
  qed
qed simp

definition error_entry :: "string \<Rightarrow> json" where
  "error_entry e = json_obj [(''error'', JStr e)]"

lemma error_entry_reads: "as_str (error_entry e) = None" "reads_error (error_entry e) = Some e"
proof -
  show "as_str (error_entry e) = None" by (simp add: error_entry_def json_obj_def)
  moreover have "json_get ''error'' (error_entry e) = Some (JStr e)" by (simp add: error_entry_def bm_of_list_def)
  ultimately show "reads_error (error_entry e) = Some e" by (simp add: reads_error_def)
qed

lemma toplevels_value_obj:
  assumes "bm_wf (tl_paths t)" and "bm_wf (tl_errors t)"
  shows "\<exists>obj. toplevels_value t = JObj obj \<and> bm_wf obj \<and>
    (\<forall>m. map_of obj m = first_of (map_option error_entry (map_of (tl_errors t) m)) (map_option JStr (map_of (tl_paths t) m)))"
proof -
  let ?base = "bm_of_list (map (\<lambda>(m, path). (m, JStr path)) (tl_paths t))"
  let ?es = "map (\<lambda>(m, e). (m, error_entry e)) (tl_errors t)"
  let ?obj = "fold (\<lambda>x. bm_insert (fst x) (snd x)) ?es ?base"
  have "toplevels_value t = JObj ?obj"
    by (simp add: toplevels_value_def fold_map comp_def split_beta error_entry_def)
  moreover have "bm_wf ?obj" by (rule bm.inv_fold_ins) (rule bm_wf_of_list)
  moreover have "map fst ?es = map fst (tl_errors t)" by (simp add: comp_def split_beta)
  then have "distinct (map fst ?es)" using bm_wf_distinct [OF assms(2)] by (simp only: bm_keys_def)
  then have "map_of ?obj = map_of ?base ++ map_of ?es" by (rule map_of_fold_insert)
  moreover have "bm_wf (map (\<lambda>(m, path). (m, JStr path)) (tl_paths t))"
    using assms(1) by (simp add: bm_wf_def comp_def split_beta)
  then have "map_of ?base = map_option JStr \<circ> map_of (tl_paths t)" by (simp add: bm_of_list_id map_of_map)
  ultimately show ?thesis
    by (intro exI [of _ ?obj]) (auto simp: map_add_def map_of_map first_of_def split: option.split)
qed

lemma toplevels_roundtrip:
  assumes "tells_members api l ms t"
  shows "parse_worker_toplevels render (toplevels_value t) = Inr t"
proof -
  have wf: "bm_wf (tl_paths t)" "bm_wf (tl_errors t)" using assms by (simp_all add: tells_members_def)
  obtain obj where obj: "toplevels_value t = JObj obj" "bm_wf obj"
    "\<And>m. map_of obj m = first_of (map_option error_entry (map_of (tl_errors t) m)) (map_option JStr (map_of (tl_paths t) m))"
    using toplevels_value_obj [OF wf] by blast
  have "as_str v \<noteq> None \<or> reads_error v \<noteq> None" if "(m, v) \<in> set obj" for m v
  proof -
    have "map_of obj m = Some v" using that obj(2) by (simp add: map_of_Some_in_wf)
    then show ?thesis unfolding obj(3)
      by (cases "map_of (tl_errors t) m") (auto simp: error_entry_reads)
  qed
  then have "list_all (\<lambda>x. as_str (snd x) \<noteq> None \<or> reads_error (snd x) \<noteq> None) obj" by (fastforce simp: list_all_iff)
  moreover have "distinct (map fst obj)" using bm_wf_distinct [OF obj(2)] by (simp add: bm_keys_def)
  ultimately obtain t' where t': "parse_worker_entries render obj toplevels_default = Inr t'" "bm_wf (tl_paths t')" "bm_wf (tl_errors t')"
    "\<And>m. map_of (tl_paths t') m = Option.bind (map_of obj m) as_str \<and> map_of (tl_errors t') m = Option.bind (map_of obj m) reads_error"
    using parse_entries_told [of obj toplevels_default render] by (fastforce simp: toplevels_default_def first_of_def split: option.splits)
  have "map_of (tl_paths t') m = map_of (tl_paths t) m \<and> map_of (tl_errors t') m = map_of (tl_errors t) m" for m
    using told_apart [OF assms, of m] t'(4) [of m] obj(3) [of m]
    by (cases "map_of (tl_errors t) m"; cases "map_of (tl_paths t) m") (auto simp: error_entry_reads reads_error_def [of "JStr _"])
  then have "tl_paths t' = tl_paths t" "tl_errors t' = tl_errors t"
    using wf t'(2,3) by (auto intro!: bm_ext)
  then show ?thesis using t'(1) by (simp add: parse_worker_toplevels_def obj(1))
qed

section \<open>Client and worker\<close>

text \<open>What both sides rely on of the JSON library. A request or a response with no float in it and within the reader's limit of
  nesting is read back as it was written; a response that is nested deeper is printed all the same, and reading it is an
  error. Nothing is asked of floats.\<close>

definition json_wire :: "wire \<Rightarrow> (json \<Rightarrow> string) \<Rightarrow> bool" where
  "json_wire io write \<longleftrightarrow>
    (\<forall>j. trim (write j) \<noteq> []) \<and>
    (\<forall>j. json_fits JSON_DEPTH j \<longrightarrow> json_exact j \<longrightarrow> wi_parse io (write j) = Inr j) \<and>
    (\<forall>r. \<exists>s. wi_print io r = Inr s \<and>
      (json_fits JSON_DEPTH (response_json r) \<longrightarrow> json_exact (response_json r) \<longrightarrow> wi_parse io (trim s) = Inr (response_json r)) \<and>
      (\<forall>d. json_fits d (response_json r) \<longrightarrow> \<not> json_fits JSON_DEPTH (response_json r) \<longrightarrow> (\<exists>e. wi_parse io (trim s) = Inl e)))"

definition piped_session :: "('v, 'l) nix_api \<Rightarrow> wire \<Rightarrow> (json \<Rightarrow> string) \<Rightarrow> json list \<Rightarrow> string list \<times> 'l warm" where
  "piped_session api io write sent = serve_lines api io (\<lambda>_. True) (map (\<lambda>j. Some (write j)) sent) [] warm_new"

text \<open>The client's environment with this worker at the other end of the pipe.\<close>

definition piped :: "('v, 'l) nix_api \<Rightarrow> wire \<Rightarrow> (json \<Rightarrow> string) \<Rightarrow> eval_env \<Rightarrow> eval_env" where
  "piped api io write env = env\<lparr>en_spawn := \<lambda>_. None, en_parse := wi_parse io,
    en_reply := \<lambda>_ sent. ReplyLine (last (fst (piped_session api io write sent)))\<rparr>"

lemma serve_lines_append:
  assumes "\<And>l. l \<in> set ls \<Longrightarrow> trim l \<noteq> []"
  shows "serve_lines api io (\<lambda>_. True) (map Some ls @ rest) out st =
    (case serve_lines api io (\<lambda>_. True) (map Some ls) out st of (out, st) \<Rightarrow> serve_lines api io (\<lambda>_. True) rest out st)"
  using assms by (induction ls arbitrary: out st) (auto split: prod.split)

lemma piped_session_last:
  assumes "json_wire io write"
  shows "piped_session api io write (sent @ [req]) =
    (case piped_session api io write sent of (out, st) \<Rightarrow>
       (case answer_line api io (write req) st of (r, st) \<Rightarrow> (out @ [encode_response io r], st)))"
proof -
  have nonempty: "trim (write j) \<noteq> []" for j using assms unfolding json_wire_def by blast
  have "serve_lines api io (\<lambda>_. True) (map Some (map write sent) @ [Some (write req)]) [] warm_new =
    (case serve_lines api io (\<lambda>_. True) (map Some (map write sent)) [] warm_new of
       (out, st) \<Rightarrow> serve_lines api io (\<lambda>_. True) [Some (write req)] out st)"
    by (rule serve_lines_append) (use nonempty in auto)
  then show ?thesis using nonempty by (auto simp: piped_session_def comp_def split: prod.splits)
qed

lemma request_plain:
  assumes "i < 2 ^ 64"
  shows "json_fits JSON_DEPTH (eval_request i op flake member mems)" "json_exact (eval_request i op flake member mems)"
proof -
  let ?fs = "[(''id'', JNum (PosInt i)), (''op'', JStr op), (''flake'', JStr flake)] @
    (case member of None \<Rightarrow> [] | Some x \<Rightarrow> [(''member'', JStr x)]) @
    (case mems of None \<Rightarrow> [] | Some xs \<Rightarrow> [(''members'', JArr (map JStr xs))])"
  have req: "eval_request i op flake member mems = JObj (bm_of_list ?fs)"
    by (simp add: eval_request_def Let_def bm_of_list_def split: option.split)
  have "\<forall>e\<in>set ?fs. json_fits 1 (snd e)" "\<forall>e\<in>set ?fs. json_exact (snd e)"
    using assms by (auto split: option.splits)
  then show "json_fits JSON_DEPTH (eval_request i op flake member mems)" "json_exact (eval_request i op flake member mems)"
    unfolding req using json_fits_mono [OF fits_of_list, of ?fs 1 JSON_DEPTH] exact_of_list [of ?fs]
    by (simp_all add: JSON_DEPTH_def)
qed

lemma request_read:
  assumes "json_wire io write" and "i < 2 ^ 64"
  shows "read_request io (write (eval_request i op flake member mems)) =
    Inr \<lparr>er_id = i, er_op = op, er_flake = flake, er_member = member, er_members = mems\<rparr>"
proof -
  have "wi_parse io (write (eval_request i op flake member mems)) = Inr (eval_request i op flake member mems)"
    using assms(1) request_plain [OF assms(2)] unfolding json_wire_def by blast
  moreover obtain m where "eval_request i op flake member mems = JObj m" "map_of m ''id'' = Some (JNum (PosInt i))"
    "map_of m ''op'' = Some (JStr op)" "map_of m ''flake'' = Some (JStr flake)" "map_of m ''member'' = map_option JStr member"
    "map_of m ''members'' = map_option (\<lambda>xs. JArr (map JStr xs)) mems"
    by (simp add: eval_request_def Let_def split: option.split)
  ultimately show ?thesis
    by (cases member; cases mems)
      (simp_all add: read_request_def eval_call_of_json_def eval_call_of_def optional_field_def strings_of_strs)
qed

lemma handle_id: "rs_id (fst (handle_request api req st)) = er_id req"
  by (simp add: handle_request_def Let_def response_ok_def response_err_def split: prod.split sum.split option.split)

definition outcome_of :: "response \<Rightarrow> (string, json option) result" where
  "outcome_of r = (if rs_ok r then Inr (rs_value r) else Inl (opt_default ''unknown worker error'' (rs_error r)))"

lemma response_read:
  "\<exists>obj. response_json r = JObj obj \<and> Option.bind (map_of obj ''id'') as_u64 = Some (rs_id r) \<and> reply_outcome obj = outcome_of r"
  by (cases "rs_value r"; cases "rs_error r")
    (simp_all add: response_json_def json_obj_def reply_outcome_def outcome_of_def map_of_bm_of_list)

lemma response_plain:
  assumes "rs_id r < 2 ^ 64" and "\<And>v. rs_value r = Some v \<Longrightarrow> json_fits (JSON_DEPTH - 1) v \<and> json_exact v"
  shows "json_fits JSON_DEPTH (response_json r) \<and> json_exact (response_json r)"
proof -
  let ?es = "[(''id'', JNum (PosInt (rs_id r))), (''ok'', JBool (rs_ok r))] @
     (case rs_value r of None \<Rightarrow> [] | Some v \<Rightarrow> [(''value'', v)]) @
     (case rs_error r of None \<Rightarrow> [] | Some e \<Rightarrow> [(''error'', JStr e)])"
  have "\<forall>e\<in>set ?es. json_fits (JSON_DEPTH - 1) (snd e)" "\<forall>e\<in>set ?es. json_exact (snd e)"
    using assms by (auto split: option.splits)
  then show ?thesis
    unfolding response_json_def json_obj_def using fits_of_list [of ?es "JSON_DEPTH - 1"] exact_of_list [of ?es]
    by (simp add: JSON_DEPTH_def del: json_fits.simps json_exact.simps)
qed

lemma response_fits:
  assumes "\<And>v. rs_value r = Some v \<Longrightarrow> json_fits d v"
  shows "json_fits (Suc d) (response_json r)"
  unfolding response_json_def json_obj_def by (rule fits_of_list) (use assms in \<open>auto split: option.splits\<close>)

lemma response_deep:
  assumes "rs_value r = Some v" and "\<not> json_fits (JSON_DEPTH - 1) v"
  shows "\<not> json_fits JSON_DEPTH (response_json r)"
proof
  assume fits: "json_fits JSON_DEPTH (response_json r)"
  obtain obj where obj: "response_json r = JObj obj" "map_of obj ''value'' = Some v"
    using assms(1) by (cases "rs_error r") (simp_all add: response_json_def json_obj_def map_of_bm_of_list)
  then show False using fits assms(2) by (auto dest!: map_of_SomeD)
qed

text \<open>What the client has sent to the process it would use next, and the state that process is in.\<close>

definition sent_to :: "eval_state \<Rightarrow> json list" where
  "sent_to st = (case ev_worker (fst st) of None \<Rightarrow> [] | Some wk \<Rightarrow> wk_sent wk)"

definition worker_state :: "('v, 'l) nix_api \<Rightarrow> wire \<Rightarrow> (json \<Rightarrow> string) \<Rightarrow> eval_state \<Rightarrow> 'l warm" where
  "worker_state api io write st = snd (piped_session api io write (sent_to st))"

text \<open>The client uses a worker, may start one if it has none, and its counter of requests is a 64-bit number.\<close>

definition can_call :: "eval_state \<Rightarrow> bool" where
  "can_call st \<longleftrightarrow> ev_backend (fst st) = WorkerBackend \<and> (ev_worker (fst st) \<noteq> None \<or> \<not> wo_down (snd st)) \<and>
    ev_next_id (fst st) < 2 ^ 64"

definition answer_to ::
  "('v, 'l) nix_api \<Rightarrow> wire \<Rightarrow> (json \<Rightarrow> string) \<Rightarrow> string \<Rightarrow> string \<Rightarrow> string option \<Rightarrow> string list option \<Rightarrow> eval_state \<Rightarrow> response" where
  "answer_to api io write op flake member mems st =
    fst (handle_request api \<lparr>er_id = ev_next_id (fst st), er_op = op, er_flake = flake, er_member = member, er_members = mems\<rparr>
      (worker_state api io write st))"

lemma piped_attempt:
  fixes api :: "('v, 'l) nix_api"
  assumes "json_wire io write" and "can_call st"
  shows "\<exists>wk ev w line. call_attempt (piped api io write env) op flake member mems st =
    (case check_reply (piped api io write env) (ev_next_id (fst st)) line of
       Inr obj \<Rightarrow> Some (Settled (reply_outcome obj), (ev\<lparr>ev_worker := Some wk\<rparr>, w))
     | Inl (Transport msg) \<Rightarrow> Some (Lost msg, (ev\<lparr>ev_worker := None\<rparr>, worker_drop (Some wk) w))
     | Inl (Timeout n) \<Rightarrow> Some (Settled (Inl (timeout_message n)), (ev\<lparr>ev_worker := None\<rparr>, worker_drop (Some wk) w))) \<and>
    line = encode_response io (answer_to api io write op flake member mems st) \<and>
    ev_backend ev = WorkerBackend \<and> ev_next_id ev < 2 ^ 64"
proof -
  let ?env = "piped api io write env"
  obtain ev w where st: "st = (ev, w)" by fastforce
  let ?i = "ev_next_id ev" and ?req = "eval_request (ev_next_id ev) op flake member mems"
  obtain wk w' where wk: "ensure_worker ?env (ev, w) = (Inr wk, w')" "wk_sent wk = sent_to st"
    using assms(2)
    by (cases "ev_worker ev") (simp_all add: can_call_def st ensure_worker_def worker_spawn_def piped_def sent_to_def)
  have id: "?i < 2 ^ 64" "ev_backend ev = WorkerBackend" using assms(2) by (simp_all add: can_call_def st)
  let ?line = "encode_response io (answer_to api io write op flake member mems st)"
  have "last (fst (piped_session api io write (sent_to st @ [?req]))) = ?line"
    by (simp add: piped_session_last [OF assms(1)] answer_line_def request_read [OF assms(1) id(1)] worker_state_def
        answer_to_def st split_beta)
  then have reply: "en_reply ?env p (sent_to st @ [?req]) = ReplyLine ?line" for p by (simp add: piped_def)
  let ?ev = "ev\<lparr>ev_worker := Some wk, ev_next_id := wrap_add ?i 1\<rparr>"
  have next_id: "wrap_add ?i 1 < 2 ^ 64" by (simp add: wrap_add_def U64_MAX_def)
  have rt: "roundtrip ?env t ?req ?i wk = Some (check_reply ?env ?i ?line, wk\<lparr>wk_sent := wk_sent wk @ [?req]\<rparr>)" for t
    by (simp add: roundtrip_def wk(2) reply Let_def)
  have "call_attempt ?env op flake member mems st =
    (case check_reply ?env ?i ?line of
       Inr obj \<Rightarrow> Some (Settled (reply_outcome obj), (?ev\<lparr>ev_worker := Some (wk\<lparr>wk_sent := wk_sent wk @ [?req]\<rparr>)\<rparr>, w'))
     | Inl (Transport msg) \<Rightarrow> Some (Lost msg, (?ev\<lparr>ev_worker := None\<rparr>, worker_drop (Some (wk\<lparr>wk_sent := wk_sent wk @ [?req]\<rparr>)) w'))
     | Inl (Timeout n) \<Rightarrow> Some (Settled (Inl (timeout_message n)),
         (?ev\<lparr>ev_worker := None\<rparr>, worker_drop (Some (wk\<lparr>wk_sent := wk_sent wk @ [?req]\<rparr>)) w')))"
    unfolding st by (simp add: call_attempt_def wk(1) rt [unfolded st] Let_def split: sum.split roundtrip_error.split)
  moreover have "ev_next_id (fst st) = ?i" by (simp add: st)
  ultimately show ?thesis using id(2) next_id
    by (intro exI [of _ "wk\<lparr>wk_sent := wk_sent wk @ [?req]\<rparr>"] exI [of _ ?ev] exI [of _ w'] exI [of _ ?line]) simp
qed

lemma plain_attempt:
  assumes "json_wire io write" and "can_call st" and "r = answer_to api io write op flake member mems st"
    and "\<And>v. rs_value r = Some v \<Longrightarrow> json_fits (JSON_DEPTH - 1) v \<and> json_exact v"
  shows "\<exists>st'. call_attempt (piped api io write env) op flake member mems st = Some (Settled (outcome_of r), st')"
proof -
  have id: "rs_id r = ev_next_id (fst st)" "rs_id r < 2 ^ 64"
    using assms(2) by (simp_all add: assms(3) answer_to_def handle_id can_call_def)
  obtain s where s: "wi_print io r = Inr s" "wi_parse io (trim s) = Inr (response_json r)"
    using assms(1) response_plain [OF id(2) assms(4)] unfolding json_wire_def by blast
  obtain obj where obj: "response_json r = JObj obj" "Option.bind (map_of obj ''id'') as_u64 = Some (rs_id r)"
    "reply_outcome obj = outcome_of r"
    using response_read [of r] by blast
  have "check_reply (piped api io write env) (ev_next_id (fst st)) (encode_response io r) = Inr obj"
    using s obj id(1) by (simp add: check_reply_def encode_response_def piped_def Let_def)
  then show ?thesis
    using piped_attempt [OF assms(1,2), of api env op flake member mems] obj(3) unfolding assms(3) [symmetric] by auto
qed

lemma deep_attempt:
  assumes "json_wire io write" and "can_call st" and "r = answer_to api io write op flake member mems st"
    and "rs_value r = Some v" and "json_fits d v" and "\<not> json_fits (JSON_DEPTH - 1) v"
  shows "\<exists>msg ev w. call_attempt (piped api io write env) op flake member mems st = Some (Lost msg, (ev, w)) \<and>
    ev_worker ev = None \<and> ev_backend ev = WorkerBackend \<and> ev_next_id ev < 2 ^ 64"
proof -
  have "json_fits (Suc d) (response_json r)" by (rule response_fits) (use assms(4,5) in simp)
  then obtain s e where s: "wi_print io r = Inr s" "wi_parse io (trim s) = Inl e"
    using assms(1) response_deep [OF assms(4,6)] unfolding json_wire_def by blast
  then have "\<exists>m. check_reply (piped api io write env) (ev_next_id (fst st)) (encode_response io r) = Inl (Transport m)"
    by (simp add: check_reply_def encode_response_def piped_def)
  then show ?thesis
    using piped_attempt [OF assms(1,2), of api env op flake member mems] unfolding assms(3) [symmetric] by fastforce
qed

lemma plain_call:
  assumes "json_wire io write" and "can_call st" and "r = answer_to api io write op flake member mems st"
    and "\<And>v. rs_value r = Some v \<Longrightarrow> json_fits (JSON_DEPTH - 1) v \<and> json_exact v"
  shows "\<exists>st'. worker_call (piped api io write env) op flake member mems st = Some (outcome_of r, st')"
  using plain_attempt [OF assms, of env] by (auto simp: worker_call_def numeral_2_eq_2)

text \<open>An answer that is too deep is lost twice, and the call ends with an error.\<close>

lemma deep_call:
  fixes api :: "('v, 'l) nix_api"
  assumes "json_wire io write" and "can_call st"
    and "\<And>i warm. warm \<in> {worker_state api io write st, warm_new} \<Longrightarrow>
      \<exists>v. rs_value (fst (handle_request api \<lparr>er_id = i, er_op = op, er_flake = flake, er_member = member, er_members = mems\<rparr> warm)) = Some v \<and>
        json_fits d v \<and> \<not> json_fits (JSON_DEPTH - 1) v"
  shows "\<exists>e st'. worker_call (piped api io write env) op flake member mems st = Some (Inl e, st')"
proof -
  let ?env = "piped api io write env"
  have first: "\<exists>v. rs_value (answer_to api io write op flake member mems st) = Some v \<and> json_fits d v \<and> \<not> json_fits (JSON_DEPTH - 1) v"
    unfolding answer_to_def by (rule assms(3)) simp
  then obtain msg ev w where lost: "call_attempt ?env op flake member mems st = Some (Lost msg, (ev, w))"
    and ev: "ev_worker ev = None" "ev_backend ev = WorkerBackend" "ev_next_id ev < 2 ^ 64"
    using deep_attempt [OF assms(1,2) refl] by blast
  have "\<exists>e st'. worker_attempts 1 ?env op flake member mems (ev, w) = Some (Inl e, st')"
  proof (cases "wo_down w")
    case True
    then show ?thesis using ev by (simp add: call_attempt_def ensure_worker_def worker_spawn_def)
  next
    case False
    then have call: "can_call (ev, w)" using ev by (simp add: can_call_def)
    have "worker_state api io write (ev, w) = warm_new" using ev(1) by (simp add: worker_state_def sent_to_def piped_session_def)
    then have "\<exists>v. rs_value (answer_to api io write op flake member mems (ev, w)) = Some v \<and> json_fits d v \<and> \<not> json_fits (JSON_DEPTH - 1) v"
      unfolding answer_to_def by (intro assms(3)) simp
    then obtain msg' st' where "call_attempt ?env op flake member mems (ev, w) = Some (Lost msg', st')"
      using deep_attempt [OF assms(1) call refl] by blast
    then show ?thesis by simp
  qed
  then show ?thesis using lost by (simp add: worker_call_def numeral_2_eq_2)
qed

text \<open>The value of an evaluation is sorted, and no deeper than the worker's own bound.\<close>

lemma collect_all_set: "collect_all f xs = Inr ys \<Longrightarrow> y \<in> set ys \<Longrightarrow> \<exists>x\<in>set xs. f x = Inr y"
  by (induction f xs arbitrary: ys rule: collect_all.induct) (auto simp: try_then_Inr)

lemma value_fits: "value_to_json_at api discard depth path v = Inr j \<Longrightarrow> json_fits (Suc MAX_DEPTH - depth) j"
proof (induction "Suc MAX_DEPTH - depth" arbitrary: depth path v j rule: less_induct)
  case less
  have bound: "depth \<le> MAX_DEPTH" using less.prems by (simp add: value_to_json_at.simps [of api discard depth] split: if_splits)
  then have step: "Suc MAX_DEPTH - depth = Suc (MAX_DEPTH - depth)" by simp
  have child: "json_fits (MAX_DEPTH - depth) c" if "value_to_json_at api discard (Suc depth) p u = Inr c" for p u c
    using less.hyps [of "Suc depth" p u c] that bound by simp
  have deeper: "json_fits (Suc (MAX_DEPTH - depth)) c" if "value_to_json_at api discard (Suc depth) p u = Inr c" for p u c
    using json_fits_mono [OF child [OF that], of "Suc (MAX_DEPTH - depth)"] by simp
  have attrs: "json_fits (Suc (MAX_DEPTH - depth)) (JObj (bm_of_list kvs))"
    if "collect_all (\<lambda>entry. try_then entry (\<lambda>x. try_then (value_to_json_at api discard (Suc depth) (path @ [fst x]) (snd x))
      (\<lambda>j. Inr (fst x, j)))) entries = Inr kvs" for entries kvs
    by (rule fits_of_list) (auto simp: try_then_Inr dest!: collect_all_set [OF that] child)
  have items: "json_fits (MAX_DEPTH - depth) x"
    if "collect_all (\<lambda>x. try_then (snd x) (value_to_json_at api discard (Suc depth) (path @ [CHR ''['' # show_nat (fst x) @ '']'']))) entries = Inr xs"
      "x \<in> set xs" for entries xs x
    using that(2) by (auto simp: try_then_Inr dest!: collect_all_set [OF that(1)] child)
  show ?case unfolding step using less.prems bound
    by (subst (asm) value_to_json_at.simps)
      (auto simp: try_then_Inr json_of_int_def json_of_float_def intro: deeper attrs items
        split: value_type.splits if_splits option.splits simp del: json_fits.simps(2))
qed

lemma aggregate_fits: "fst (worker_aggregate api flake st) = Inr v \<Longrightarrow> json_fits (Suc MAX_DEPTH) v"
proof -
  assume "fst (worker_aggregate api flake st) = Inr v"
  then obtain discard u where "value_to_json_at api discard 0 [] u = Inr v"
    by (auto simp: worker_aggregate_def locked_def try_then_Inr split: prod.splits sum.splits)
  then show ?thesis using value_fits [of api discard 0 "[]" u v] by simp
qed

lemma toplevels_plain:
  "json_fits (JSON_DEPTH - 1) (toplevels_value t) \<and> json_exact (toplevels_value t)"
proof -
  let ?es = "map (\<lambda>(m, path). (m, JStr path)) (tl_paths t) @ map (\<lambda>(m, e). (m, error_entry e)) (tl_errors t)"
  have obj: "toplevels_value t = JObj (bm_of_list ?es)"
    by (simp add: toplevels_value_def bm_of_list_def fold_map comp_def split_beta error_entry_def)
  have "json_fits (Suc 0) (error_entry e) \<and> json_exact (error_entry e)" for e
    by (simp add: error_entry_def json_obj_def bm_of_list_def bm_wf_def)
  then have "\<forall>x\<in>set ?es. json_fits 1 (snd x)" "\<forall>x\<in>set ?es. json_exact (snd x)" by auto
  then show ?thesis
    unfolding obj using json_fits_mono [OF fits_of_list, of ?es 1 126] exact_of_list [of ?es]
    by (simp add: JSON_DEPTH_def del: json_fits.simps json_exact.simps)
qed

section \<open>Properties\<close>

text \<open>C31: The JSON of a Nix value is that of its tree, exactly when the tree is within the depth bound: a deeper one is an
  error, never a truncated value.\<close>

theorem nix_value_becomes_its_tree:
  assumes "has_tree api discard v t"
  shows "ok (value_to_json_at api discard 0 [] v) = (if tree_depth t \<le> MAX_DEPTH then Some (tree_json t) else None)"
  using value_to_json_tree [OF assms, of 0] by simp

text \<open>The aggregate can be given to the client whole: an error, or a value that no float is in and that fits, under the
  response's own level, into what the client's reader follows. It cannot when it is nested deeper.\<close>

definition deliverable :: "(string, json) result \<Rightarrow> bool" where
  "deliverable r \<longleftrightarrow> (case r of Inl _ \<Rightarrow> True | Inr v \<Rightarrow> json_fits (JSON_DEPTH - 1) v \<and> json_exact v)"

definition too_deep :: "(string, json) result \<Rightarrow> bool" where
  "too_deep r \<longleftrightarrow> (case r of Inl _ \<Rightarrow> False | Inr v \<Rightarrow> \<not> json_fits (JSON_DEPTH - 1) v)"


text \<open>A library whose values are trees, and a flake with one host that evaluates and one that does not.\<close>

definition tree_type :: "nix_tree \<Rightarrow> value_type" where
  "tree_type t =
    (case t of TNull \<Rightarrow> NixNull | TBool _ \<Rightarrow> NixBool | TInt _ \<Rightarrow> NixInt | TFloat _ \<Rightarrow> NixFloat | TString _ \<Rightarrow> NixString
     | TPath _ \<Rightarrow> NixPath | TList _ \<Rightarrow> NixList | _ \<Rightarrow> NixAttrs)"

definition tree_attrs :: "nix_tree \<Rightarrow> (string \<times> nix_tree) list" where
  "tree_attrs t = (case t of TAttrs kts \<Rightarrow> kts | TDerivation out \<Rightarrow> [(''outPath'', out)] | TPrinted f \<Rightarrow> [(''__toString'', f)] | _ \<Rightarrow> [])"

definition tree_api :: "nix_tree \<Rightarrow> (nix_tree, nix_tree) nix_api" where
  "tree_api flake = \<lparr>na_force = \<lambda>_. Inr (), na_type = tree_type,
    na_bool = \<lambda>t. (case t of TBool b \<Rightarrow> Inr b | _ \<Rightarrow> Inl ''not a bool''), na_int = \<lambda>t. (case t of TInt i \<Rightarrow> Inr i | _ \<Rightarrow> Inl ''not an int''),
    na_float = \<lambda>t. (case t of TFloat x \<Rightarrow> Inr x | _ \<Rightarrow> Inl ''not a float''),
    na_string = \<lambda>_ t. (case t of TString s \<Rightarrow> Inr s | _ \<Rightarrow> Inl ''not a string''),
    na_path = \<lambda>t. (case t of TPath p \<Rightarrow> Inr p | _ \<Rightarrow> Inl ''not a path''),
    na_has_attr = \<lambda>t k. Inr (map_of (tree_attrs t) k \<noteq> None),
    na_get_attr = \<lambda>t k. (case map_of (tree_attrs t) k of None \<Rightarrow> Inl ''missing'' | Some c \<Rightarrow> Inr c),
    na_call = \<lambda>f _. Inr f, na_attrs = \<lambda>t. Inr (map Inr (tree_attrs t)),
    na_list = \<lambda>t. (case t of TList ts \<Rightarrow> Inr (map Inr ts) | _ \<Rightarrow> Inl ''not a list''),
    na_eval = \<lambda>_. Inr TNull, na_lock = \<lambda>_ _. Inr flake, na_outputs = Inr\<rparr>"

definition sample_host :: nix_tree where
  "sample_host = TAttrs [(''config'', TAttrs [(''system'', TAttrs [(''build'', TAttrs [(''toplevel'',
    TDerivation (TString ''/nix/store/w''))])])])]"

definition sample_flake :: nix_tree where
  "sample_flake = TAttrs [(''mandala'', TAttrs [(''schemaVersion'', TInt 1)]),
    (''nixosConfigurations'', TAttrs [(''broken'', TAttrs []), (''web'', sample_host)])]"

definition text_wire :: wire where
  "text_wire = \<lparr>wi_parse = \<lambda>s. (case json_read s of None \<Rightarrow> Inl ''recursion limit exceeded'' | Some v \<Rightarrow> Inr v), wi_shape = \<lambda>_. ''shape'',
    wi_print = \<lambda>r. Inr (json_text (response_json r))\<rparr>"

lemma text_wire_reads: "json_wire text_wire json_text"
  unfolding json_wire_def
proof (intro conjI allI)
  fix r
  show "\<exists>s. wi_print text_wire r = Inr s \<and>
      (json_fits JSON_DEPTH (response_json r) \<longrightarrow> json_exact (response_json r) \<longrightarrow> wi_parse text_wire (trim s) = Inr (response_json r)) \<and>
      (\<forall>d. json_fits d (response_json r) \<longrightarrow> \<not> json_fits JSON_DEPTH (response_json r) \<longrightarrow> (\<exists>e. wi_parse text_wire (trim s) = Inl e))"
    using read_of_exact(1) [of "response_json r"] read_too_deep [of _ "response_json r"]
    by (auto simp: text_wire_def trim_json_text)
qed (use json_text_ends read_of_exact in \<open>auto simp: trim_json_text text_wire_def\<close>)

lemma sample_evaluation:
  "fst (worker_toplevels (tree_api sample_flake) ''/f'' [''web'', ''broken''] warm_new) =
    Inr \<lparr>tl_paths = [(''web'', ''/nix/store/w'')], tl_errors = [(''broken'', ''missing'')]\<rparr>"
  by code_simp

theorem nix_value_becomes_its_tree_witness:
  "ok (value_to_json_at (tree_api sample_flake) TNull 0 [] (TAttrs [(''schemaVersion'', TInt 1)])) =
    Some (JObj [(''schemaVersion'', JNum (PosInt 1))])"
proof -
  have "has_tree (tree_api sample_flake) TNull (TInt 1) (TInt 1)"
    by (rule has_tree.int) (simp_all add: tree_api_def tree_type_def)
  then have "has_tree (tree_api sample_flake) TNull (TAttrs [(''schemaVersion'', TInt 1)]) (TAttrs [(''schemaVersion'', TInt 1)])"
    by (intro has_tree.attrs [where entries = "[Inr (''schemaVersion'', TInt 1)]"]) (simp_all add: tree_api_def tree_type_def tree_attrs_def)
  from nix_value_becomes_its_tree [OF this] show ?thesis
    by (simp add: MAX_DEPTH_def json_obj_def json_of_int_def bm_of_list_def)
qed


end
