(* ===== verification/Drift.thy ===== *)
theory Drift
  imports Eval FileStore
begin

text \<open>Deployed-generation drift (\<^verbatim>\<open>crates/mandala-core/src/drift.rs\<close>): the per-host snapshots, the cache
  of expected toplevels keyed by the contract's revision, the watcher of the repository's head, and
  the verdict per host. Git, the environment variables, the clock, timestamps and JSON text are
  arguments; a directory listing gives the file names with their contents where they are readable
  text. Times are integers of one unit.\<close>

section \<open>Locations and names\<close>

datatype drift_error = InvalidMemberName string | EvalError string

fun show_drift_error :: "drift_error \<Rightarrow> string" where
  "show_drift_error (InvalidMemberName name) = ''refusing to eval: invalid member name '' @ str_debug name"
| "show_drift_error (EvalError msg) = msg"

definition home_dir :: "(string \<Rightarrow> string option) \<Rightarrow> string" where
  "home_dir env = opt_default [] (env ''HOME'')"

definition state_dir :: "(string \<Rightarrow> string option) \<Rightarrow> string" where
  "state_dir env =
    (case opt_filter (\<lambda>s. s \<noteq> []) (env ''MANDALA_FLEET_STATE'') of
       Some dir \<Rightarrow> dir
     | None \<Rightarrow>
         let base = (case opt_filter (\<lambda>s. s \<noteq> []) (env ''XDG_STATE_HOME'') of
                       Some x \<Rightarrow> x
                     | None \<Rightarrow> path_join (home_dir env) ''.local/state'')
         in path_join (path_join base ''mandala'') ''fleet'')"

definition valid_name :: "string \<Rightarrow> bool" where
  "valid_name name \<longleftrightarrow>
    name \<noteq> [] \<and>
    list_all (\<lambda>b. is_ascii_alnum b \<or> b = CHR ''.'' \<or> b = CHR ''_'' \<or> b = CHR ''-'') name"

section \<open>Statuses and entries\<close>

text \<open>A day, in nanoseconds.\<close>

definition default_max_age :: int where
  "default_max_age = 24 * 3600 * 1000000000"

datatype drift_status =
  InSync | DriftMoved | RebootPending | Activated | Stale | Incomplete | NoSnapshot | Unreachable
  | DriftEvalFailed

definition ALL_STATUSES :: "drift_status list" where
  "ALL_STATUSES = [InSync, DriftMoved, RebootPending, Activated, Stale, Incomplete, NoSnapshot,
    Unreachable, DriftEvalFailed]"

fun drift_status_str :: "drift_status \<Rightarrow> string" where
  "drift_status_str InSync = ''in-sync''"
| "drift_status_str DriftMoved = ''drift''"
| "drift_status_str RebootPending = ''reboot-pending''"
| "drift_status_str Activated = ''activated''"
| "drift_status_str Stale = ''stale''"
| "drift_status_str Incomplete = ''incomplete''"
| "drift_status_str NoSnapshot = ''no-snapshot''"
| "drift_status_str Unreachable = ''unreachable''"
| "drift_status_str DriftEvalFailed = ''eval-failed''"

fun drift_style :: "drift_status \<Rightarrow> string" where
  "drift_style InSync = ''green''"
| "drift_style DriftMoved = ''bold red''"
| "drift_style RebootPending = ''yellow''"
| "drift_style Activated = ''dim green''"
| "drift_style Stale = ''dim yellow''"
| "drift_style Incomplete = ''dim red''"
| "drift_style NoSnapshot = ''dim''"
| "drift_style Unreachable = ''magenta''"
| "drift_style DriftEvalFailed = ''red''"

record drift_entry =
  de_host :: string
  de_status :: drift_status
  de_expected :: "string option"
  de_current :: "string option"
  de_booted :: "string option"
  de_system_profile :: "string option"
  de_captured_at :: "string option"
  de_eval_error :: "string option"

record snapshot =
  sn_current :: "string option"
  sn_booted :: "string option"
  sn_system_profile :: "string option"
  sn_captured_at :: "string option"
  sn_unreachable :: json
  sn_current_boot :: json
  sn_booted_boot :: json

text \<open>The snapshot files of a directory: \<^verbatim>\<open>*.json\<close> without the hidden ones, keyed by the name's stem,
  in path order; unreadable and undecodable files are skipped.\<close>

definition snapshot_stem :: "string \<Rightarrow> string option" where
  "snapshot_stem name =
    (if starts_with name ''.'' then None
     else (case rsplit_once (CHR ''.'') name of
         Some (stem, ext) \<Rightarrow> if ext = ''json'' then Some stem else None
       | None \<Rightarrow> None))"

definition read_snapshot ::
  "(string \<Rightarrow> snapshot option) \<Rightarrow> string \<times> string option \<Rightarrow> (string, snapshot) bmap \<Rightarrow> (string, snapshot) bmap" where
  "read_snapshot dec e m =
    (case (snapshot_stem (fst e), Option.bind (snd e) dec) of
       (Some stem, Some snap) \<Rightarrow> bm_insert stem snap m
     | _ \<Rightarrow> m)"

definition read_snapshots ::
  "(string \<Rightarrow> snapshot option) \<Rightarrow> (string \<times> string option) list option \<Rightarrow> (string, snapshot) bmap" where
  "read_snapshots dec listing =
    (case listing of
       None \<Rightarrow> []
     | Some files \<Rightarrow>
         fold (read_snapshot dec) (sort_key fst (filter (\<lambda>e. snapshot_stem (fst e) \<noteq> None) files)) [])"

section \<open>Expectations\<close>

text \<open>\<^verbatim>\<open>eval_expected\<close>: names are checked before the evaluator is called.\<close>

definition eval_expected ::
  "eval_env \<Rightarrow> (json \<Rightarrow> string) \<Rightarrow> string \<Rightarrow> string list \<Rightarrow> eval_state \<Rightarrow>
    ((drift_error, toplevels) result \<times> eval_state) option" where
  "eval_expected env render flake hosts st =
    (case List.find (\<lambda>h. \<not> valid_name h) hosts of
       Some name \<Rightarrow> Some (Inl (InvalidMemberName name), st)
     | None \<Rightarrow>
         (case expected_toplevels env render flake hosts st of
            None \<Rightarrow> None
          | Some (Inl e, st) \<Rightarrow> Some (Inl (EvalError e), st)
          | Some (Inr t, st) \<Rightarrow> Some (Inr t, st)))"

text \<open>\<open>git\<close> is \<^verbatim>\<open>git_output\<close> on a flake and its arguments.\<close>

definition repo_head :: "(string list \<Rightarrow> string option) \<Rightarrow> string option" where
  "repo_head git = map_option trim (git [''rev-parse'', ''HEAD''])"

definition repo_rev :: "(string list \<Rightarrow> string option) \<Rightarrow> string option" where
  "repo_rev git =
    Option.bind (repo_head git) (\<lambda>rev.
    Option.bind (git [''status'', ''--porcelain'']) (\<lambda>dirty.
      Some (if trim dirty = [] then rev else rev @ ''-dirty'')))"

text \<open>The watcher over the results of its probes: the heads it reports, until told to stop.\<close>

fun repo_head_watch :: "(string \<Rightarrow> bool) \<Rightarrow> string option list \<Rightarrow> string \<Rightarrow> string list" where
  "repo_head_watch on_change [] seen = []"
| "repo_head_watch on_change (None # probes) seen = repo_head_watch on_change probes seen"
| "repo_head_watch on_change (Some head # probes) seen =
    (if head = seen then repo_head_watch on_change probes seen
     else head # (if on_change head then repo_head_watch on_change probes head else []))"

definition short_rev :: "string option \<Rightarrow> string" where
  "short_rev revision =
    (case revision of
       None \<Rightarrow> ''?''
     | Some r \<Rightarrow>
         (case strip_suffix ''-dirty'' r of
            Some base \<Rightarrow> take_chars 11 base @ ''-dirty''
          | None \<Rightarrow> take_chars 11 r))"

definition cache_fresh :: "string option \<Rightarrow> string option \<Rightarrow> bool" where
  "cache_fresh cached_rev current_rev =
    (case (cached_rev, current_rev) of
       (Some cached, Some current) \<Rightarrow> cached = current \<and> \<not> ends_with current ''-dirty''
     | _ \<Rightarrow> False)"

definition EXPECTED_CACHE :: string where
  "EXPECTED_CACHE = ''.expected.json''"

definition load_expected ::
  "(string \<Rightarrow> json option) \<Rightarrow> file_dir \<Rightarrow> string option \<times> (string, string) bmap" where
  "load_expected parse dir =
    (case Option.bind (map_of dir EXPECTED_CACHE) parse of
       None \<Rightarrow> (None, [])
     | Some data \<Rightarrow>
         (Option.bind (json_get ''rev'' data) as_str,
          (case Option.bind (json_get ''toplevels'' data) as_object of
             None \<Rightarrow> []
           | Some obj \<Rightarrow> string_entries obj)))"

definition expected_json :: "string option \<Rightarrow> (string, string) bmap \<Rightarrow> json" where
  "expected_json revision paths =
    JObj (bm_insert ''toplevels'' (JObj (map (\<lambda>(k, v). (k, JStr v)) paths))
      (bm_insert ''rev'' (case revision of None \<Rightarrow> JNull | Some r \<Rightarrow> JStr r) []))"

text \<open>The cache is written in place.\<close>

definition save_expected_ops ::
  "(json \<Rightarrow> (string, string) result) \<Rightarrow> string option \<Rightarrow> (string, string) bmap \<Rightarrow> (string, fs_op list) result" where
  "save_expected_ops ser revision paths =
    (case ser (expected_json revision paths) of
       Inl e \<Rightarrow> Inl e
     | Inr bytes \<Rightarrow> Inr [WriteFile EXPECTED_CACHE bytes])"

section \<open>The verdict\<close>

definition too_old :: "(string \<Rightarrow> int option) \<Rightarrow> string option \<Rightarrow> int option \<Rightarrow> int \<Rightarrow> bool" where
  "too_old parse_iso captured_at max_age now =
    (case (max_age, opt_filter (\<lambda>c. c \<noteq> []) captured_at) of
       (Some limit, Some captured) \<Rightarrow>
         (case parse_iso captured of None \<Rightarrow> True | Some when \<Rightarrow> limit < now - when)
     | _ \<Rightarrow> False)"

definition BOOT_CRITICAL :: "string list" where
  "BOOT_CRITICAL = [''kernel'', ''kernel_modules'', ''initrd'', ''kernel_params'']"

text \<open>\<^verbatim>\<open>split_whitespace\<close>, joined by single spaces.\<close>

fun ws_pieces :: "string list \<Rightarrow> string list" where
  "ws_pieces [] = [[]]"
| "ws_pieces (c # cs) =
    (if is_whitespace c then [] # ws_pieces cs else (c @ hd (ws_pieces cs)) # tl (ws_pieces cs))"

definition normalize_tokens :: "string \<Rightarrow> string" where
  "normalize_tokens s = join '' '' (filter (\<lambda>w. w \<noteq> []) (ws_pieces (utf8_chars s)))"

definition fact_changed :: "(string \<times> json) list \<Rightarrow> (string \<times> json) list \<Rightarrow> string \<Rightarrow> bool" where
  "fact_changed current booted key =
    (case (opt_filter json_truthy (map_of current key), opt_filter json_truthy (map_of booted key)) of
       (Some a, Some b) \<Rightarrow>
         if key = ''kernel_params'' then
           (case (as_str a, as_str b) of
              (Some x, Some y) \<Rightarrow> normalize_tokens x \<noteq> normalize_tokens y
            | _ \<Rightarrow> a \<noteq> b)
         else a \<noteq> b
     | _ \<Rightarrow> True)"

definition boot_critical_changed :: "snapshot \<Rightarrow> bool" where
  "boot_critical_changed snap =
    (case (as_object (sn_current_boot snap), as_object (sn_booted_boot snap)) of
       (Some current, Some booted) \<Rightarrow> list_ex (fact_changed current booted) BOOT_CRITICAL
     | _ \<Rightarrow> True)"

definition judge ::
  "(string \<Rightarrow> int option) \<Rightarrow> int option \<Rightarrow> int \<Rightarrow> string option \<Rightarrow> string option \<Rightarrow> snapshot \<Rightarrow> drift_status" where
  "judge parse_iso max_age now eval_error wanted snap =
    (let current = sn_current snap; booted = sn_booted snap in
     if json_truthy (sn_unreachable snap) then Unreachable
     else if current = None then Incomplete
     else if too_old parse_iso (sn_captured_at snap) max_age now then Stale
     else if eval_error \<noteq> None then DriftEvalFailed
     else if wanted \<noteq> None \<and> current \<noteq> wanted \<and> sn_system_profile snap = wanted then RebootPending
     else if wanted \<noteq> None \<and> current \<noteq> wanted then DriftMoved
     else if booted \<notin> {None, Some []} \<and> booted \<noteq> current then
       (if boot_critical_changed snap then RebootPending else Activated)
     else InSync)"

definition compare_host ::
  "(string \<Rightarrow> int option) \<Rightarrow> (string, snapshot) bmap \<Rightarrow> toplevels \<Rightarrow> int option \<Rightarrow> int \<Rightarrow> string \<Rightarrow> drift_entry" where
  "compare_host parse_iso snapshots expected max_age now host =
    (let eval_error = map_of (tl_errors expected) host in
     case map_of snapshots host of
       None \<Rightarrow> \<lparr>de_host = host, de_status = NoSnapshot, de_expected = None, de_current = None,
         de_booted = None, de_system_profile = None, de_captured_at = None, de_eval_error = eval_error\<rparr>
     | Some snap \<Rightarrow>
         let wanted = map_of (tl_paths expected) host
         in \<lparr>de_host = host, de_status = judge parse_iso max_age now eval_error wanted snap,
             de_expected = wanted, de_current = sn_current snap, de_booted = sn_booted snap,
             de_system_profile = sn_system_profile snap, de_captured_at = sn_captured_at snap,
             de_eval_error = eval_error\<rparr>)"

definition drift_compare ::
  "(string \<Rightarrow> int option) \<Rightarrow> string list \<Rightarrow> (string, snapshot) bmap \<Rightarrow> toplevels option \<Rightarrow> int option \<Rightarrow>
    int \<Rightarrow> drift_entry list" where
  "drift_compare parse_iso nodes snapshots expected max_age now =
    map (compare_host parse_iso snapshots (opt_default toplevels_default expected) max_age now) (sort nodes)"

text \<open>The survey command of \<^verbatim>\<open>refresh_snapshots\<close>: arguments, directory and environment, and how its exit
  is reported.\<close>

record survey_command =
  sc_args :: "string list"
  sc_dir :: string
  sc_state :: string

definition refresh_snapshots ::
  "(survey_command \<Rightarrow> (string, int option) result) \<Rightarrow> (string \<Rightarrow> string option) \<Rightarrow> string \<Rightarrow> string option \<Rightarrow>
    string option \<Rightarrow> (string, int) result" where
  "refresh_snapshots run env ansible_dir directory limit =
    (let state = (case directory of Some d \<Rightarrow> d | None \<Rightarrow> state_dir env);
         args = ''mandala.fleet.state'' # (case limit of None \<Rightarrow> [] | Some l \<Rightarrow> [''-l'', l])
     in case run \<lparr>sc_args = args, sc_dir = ansible_dir, sc_state = state\<rparr> of
          Inl e \<Rightarrow> Inl e
        | Inr code \<Rightarrow> Inr (opt_default (- 1) code))"

section \<open>Facts about the verdict\<close>

lemma status_str_inj: "drift_status_str a = drift_status_str b \<longleftrightarrow> a = b"
  by (cases a; cases b; simp)

lemma set_drift_compare:
  "e \<in> set (drift_compare parse_iso nodes snapshots expected max_age now) \<longleftrightarrow>
    (\<exists>h\<in>set nodes. e = compare_host parse_iso snapshots (opt_default toplevels_default expected) max_age now h)"
  by (auto simp: drift_compare_def)

lemma compare_hosts:
  "map de_host (drift_compare parse_iso nodes snapshots expected max_age now) = sort nodes"
proof -
  have "de_host (compare_host parse_iso snapshots x max_age now h) = h" for x h
    by (simp add: compare_host_def Let_def split: option.split)
  then show ?thesis by (simp add: drift_compare_def comp_def)
qed

text \<open>A judgement that needs the expectation is only made on a current, evaluated observation.\<close>

definition observed_now :: "(string \<Rightarrow> int option) \<Rightarrow> int option \<Rightarrow> int \<Rightarrow> snapshot \<Rightarrow> bool" where
  "observed_now parse_iso max_age now snap \<longleftrightarrow>
    \<not> json_truthy (sn_unreachable snap) \<and> sn_current snap \<noteq> None \<and>
    \<not> too_old parse_iso (sn_captured_at snap) max_age now"

definition reboots :: "snapshot \<Rightarrow> bool" where
  "reboots snap \<longleftrightarrow> sn_booted snap \<notin> {None, Some []} \<and> sn_booted snap \<noteq> sn_current snap"

lemma judge_cases:
  assumes "observed_now parse_iso max_age now snap"
  shows "judge parse_iso max_age now err wanted snap =
    (if err \<noteq> None then DriftEvalFailed
     else if wanted \<noteq> None \<and> sn_current snap \<noteq> wanted
       then (if sn_system_profile snap = wanted then RebootPending else DriftMoved)
     else if reboots snap then (if boot_critical_changed snap then RebootPending else Activated)
     else InSync)"
  using assms by (auto simp: judge_def Let_def observed_now_def reboots_def)

lemma judge_unobserved:
  assumes "\<not> observed_now parse_iso max_age now snap"
  shows "judge parse_iso max_age now err wanted snap \<in> {Unreachable, Incomplete, Stale}"
  using assms by (auto simp: judge_def Let_def observed_now_def)

lemma judge_in_sync:
  "judge parse_iso max_age now err wanted snap = InSync \<longleftrightarrow>
    observed_now parse_iso max_age now snap \<and> err = None \<and> (wanted = None \<or> sn_current snap = wanted) \<and>
    \<not> reboots snap"
proof (cases "observed_now parse_iso max_age now snap")
  case True
  then show ?thesis by (auto simp: judge_cases)
next
  case False
  then show ?thesis using judge_unobserved [OF False, of err wanted] by auto
qed

lemma compare_host_status:
  "de_status (compare_host parse_iso snapshots t max_age now h) =
    (case map_of snapshots h of
       None \<Rightarrow> NoSnapshot
     | Some snap \<Rightarrow> judge parse_iso max_age now (map_of (tl_errors t) h) (map_of (tl_paths t) h) snap)"
  by (simp add: compare_host_def Let_def split: option.split)

section \<open>Whitespace normalization\<close>

lemma ws_pieces_nonempty [simp]: "ws_pieces cs \<noteq> []"
  by (cases cs) auto

lemma ws_pieces_ws: "is_whitespace c \<Longrightarrow> ws_pieces (c # cs) = [] # ws_pieces cs"
  by simp

text \<open>Leading and repeated separators vanish.\<close>

lemma tokens_skip:
  "list_all is_whitespace ws \<Longrightarrow>
    filter (\<lambda>w. w \<noteq> []) (ws_pieces (ws @ cs)) = filter (\<lambda>w. w \<noteq> []) (ws_pieces cs)"
  by (induction ws) auto

section \<open>The watcher and the cache\<close>

lemma watch_is_remdups_adj:
  "head # repo_head_watch (\<lambda>_. True) probes head = remdups_adj (head # List.map_filter id probes)"
proof (induction "\<lambda>_ :: string. True" probes head rule: repo_head_watch.induct)
  case (3 h probes seen)
  then show ?case by (cases "h = seen") (simp_all add: map_filter_simps)
qed (simp_all add: map_filter_simps)

lemma string_entries_map: "string_entries (map (\<lambda>(k, v). (k, JStr v)) m) = m"
  by (induction m) (auto simp: string_entries_def map_filter_simps)

lemma load_saved:
  assumes "parse bytes = Some (expected_json revision paths)" and "map_of dir EXPECTED_CACHE = Some bytes"
  shows "load_expected parse dir = (revision, paths)"
  using assms by (simp add: load_expected_def expected_json_def string_entries_map split: option.split)

lemma save_crash:
  assumes "crash_state [WriteFile name body] dir dir'"
  shows "map_of dir' name = map_of dir name \<or> (\<exists>part. prefix part body \<and> map_of dir' name = Some part)"
  using assms by (auto elim!: crash_WriteE crash_NilE)

section \<open>Properties\<close>

definition sample_snapshot :: "string \<Rightarrow> snapshot" where
  "sample_snapshot current = \<lparr>sn_current = Some current, sn_booted = Some current,
    sn_system_profile = Some current, sn_captured_at = Some ''t'', sn_unreachable = JNull,
    sn_current_boot = JNull, sn_booted_boot = JNull\<rparr>"



text \<open>A booted generation that differs from the current one is only called fully live when all four
  boot-critical facts are present and non-empty on both sides and agree, the kernel parameters up to
  whitespace.\<close>

lemma activated_needs_boot_facts:
  assumes "judge parse_iso max_age now err wanted snap = Activated"
  shows "reboots snap \<and> (\<exists>current booted. sn_current_boot snap = JObj current \<and> sn_booted_boot snap = JObj booted \<and>
    (\<forall>k\<in>{''kernel'', ''kernel_modules'', ''initrd'', ''kernel_params''}.
      \<exists>a b. map_of current k = Some a \<and> map_of booted k = Some b \<and> json_truthy a \<and> json_truthy b \<and>
        (a = b \<or> (k = ''kernel_params'' \<and> (\<exists>x y. a = JStr x \<and> b = JStr y \<and>
          normalize_tokens x = normalize_tokens y)))))"
proof -
  have obs: "observed_now parse_iso max_age now snap"
    using judge_unobserved [of parse_iso max_age now snap err wanted] assms by auto
  have live: "reboots snap" "\<not> boot_critical_changed snap"
    using assms by (simp_all add: judge_cases [OF obs] split: if_splits)
  obtain current booted where objs: "as_object (sn_current_boot snap) = Some current"
      "as_object (sn_booted_boot snap) = Some booted"
    and facts: "\<forall>k\<in>set BOOT_CRITICAL. \<not> fact_changed current booted k"
    using live(2) by (auto simp: boot_critical_changed_def list_ex_iff split: option.splits)
  have str: "as_str a = Some x \<longleftrightarrow> a = JStr x" for a x by (cases a) auto
  have fact: "\<exists>a b. map_of current k = Some a \<and> map_of booted k = Some b \<and> json_truthy a \<and> json_truthy b \<and>
      (a = b \<or> (k = ''kernel_params'' \<and> (\<exists>x y. a = JStr x \<and> b = JStr y \<and> normalize_tokens x = normalize_tokens y)))"
    if "\<not> fact_changed current booted k" for k
    using that by (auto simp: fact_changed_def str split: option.splits if_splits)
  have "sn_current_boot snap = JObj current" "sn_booted_boot snap = JObj booted"
    using objs by (auto elim!: as_object.elims)
  moreover have "\<forall>k\<in>set BOOT_CRITICAL. \<exists>a b. map_of current k = Some a \<and> map_of booted k = Some b \<and>
      json_truthy a \<and> json_truthy b \<and> (a = b \<or> (k = ''kernel_params'' \<and>
        (\<exists>x y. a = JStr x \<and> b = JStr y \<and> normalize_tokens x = normalize_tokens y)))"
    using fact facts by blast
  ultimately show ?thesis using live(1) unfolding BOOT_CRITICAL_def list.set by blast
qed

text \<open>The cache of expectations is safe to reuse. What was saved is loaded back exactly; while the
  file is being rewritten in place, and after a crash, a reader gets the old cache, the new one, or
  an empty one without a revision; and a cache is only fresh for the same revision of a clean tree,
  so the empty one never is.\<close>

lemma expected_cache_is_safe:
  assumes "save_expected_ops ser revision paths = Inr ops"
    and "\<And>v bytes. ser v = Inr bytes \<Longrightarrow> parse bytes = Some v"
    and "\<And>v bytes part. ser v = Inr bytes \<Longrightarrow> strict_prefix part bytes \<Longrightarrow> parse part = None"
    and "crash_state ops dir dir'"
  shows "load_expected parse (fs_run ops dir) = (revision, paths) \<and>
    load_expected parse dir' \<in> {load_expected parse dir, (revision, paths), (None, [])} \<and>
    \<not> cache_fresh None current \<and>
    (cache_fresh cached current \<longrightarrow> cached = current \<and> cached \<noteq> None \<and> \<not> ends_with (the current) ''-dirty'')"
proof -
  obtain bytes where ser: "ser (expected_json revision paths) = Inr bytes"
    and ops: "ops = [WriteFile EXPECTED_CACHE bytes]"
    using assms(1) by (auto simp: save_expected_ops_def split: sum.splits)
  have load: "map_of d EXPECTED_CACHE = Some bytes \<Longrightarrow> load_expected parse d = (revision, paths)" for d
    using assms(2) [OF ser] by (rule load_saved)
  then have saved: "load_expected parse (fs_run ops dir) = (revision, paths)" by (simp add: ops)
  have "load_expected parse dir' \<in> {load_expected parse dir, (revision, paths), (None, [])}"
  proof -
    consider (same) "map_of dir' EXPECTED_CACHE = map_of dir EXPECTED_CACHE"
      | (part) part where "prefix part bytes" "map_of dir' EXPECTED_CACHE = Some part"
      using save_crash [OF assms(4) [unfolded ops]] by blast
    then show ?thesis
    proof cases
      case same
      then show ?thesis by (simp add: load_expected_def)
    next
      case part
      show ?thesis
      proof (cases "part = bytes")
        case True
        then show ?thesis using load [of dir'] part(2) by simp
      next
        case False
        then have "parse part = None" using assms(3) [OF ser] part(1) by (simp add: strict_prefix_def)
        then show ?thesis using part(2) by (simp add: load_expected_def)
      qed
    qed
  qed
  then show ?thesis using saved by (auto simp: cache_fresh_def split: option.splits)
qed

text \<open>The watcher of the repository reports every observed change of the head once: its reports are
  the successfully probed heads without consecutive repetitions, after the baseline.\<close>

lemma watcher_reports_changes_once:
  "head # repo_head_watch (\<lambda>_. True) probes head = remdups_adj (head # List.map_filter id probes)"
  by (rule watch_is_remdups_adj)

end
