(* ===== verification/DeployData.thy ===== *)
theory DeployData
  imports FileStore "HOL-Library.Word"
begin

text \<open>The data of the deploy controller, \<^verbatim>\<open>mandala-deploy/src/data.rs\<close> and \<^verbatim>\<open>lib.rs\<close>: the settings of
  a node and their merge, the users and the privilege prefix derived from them, the arguments of
  every \<^verbatim>\<open>ssh\<close> call, and their quoting into the one environment string \<^verbatim>\<open>nix\<close> reads. The theorems
  say that the merge is an associative override, and that a shell splits the quoted string back
  into exactly the arguments, whatever bytes they hold.\<close>

section \<open>Settings\<close>

record generic_settings =
  gs_ssh_user :: "string option"
  gs_ssh_port :: "16 word option"
  gs_identity_file :: "string option"
  gs_user :: "string option"
  gs_ssh_opts :: "string list"
  gs_fast_connection :: "bool option"
  gs_auto_rollback :: "bool option"
  gs_confirm_timeout :: "16 word option"
  gs_activation_timeout :: "16 word option"
  gs_temp_path :: "string option"
  gs_magic_rollback :: "bool option"
  gs_sudo :: "string option"
  gs_remote_build :: "bool option"
  gs_interactive_sudo :: "bool option"

definition settings_default :: generic_settings where
  "settings_default = \<lparr>gs_ssh_user = None, gs_ssh_port = None, gs_identity_file = None, gs_user = None,
    gs_ssh_opts = [], gs_fast_connection = None, gs_auto_rollback = None, gs_confirm_timeout = None,
    gs_activation_timeout = None, gs_temp_path = None, gs_magic_rollback = None, gs_sudo = None,
    gs_remote_build = None, gs_interactive_sudo = None\<rparr>"

definition with_fallback :: "generic_settings \<Rightarrow> generic_settings \<Rightarrow> generic_settings" where
  "with_fallback inner outer =
    \<lparr>gs_ssh_user = opt_or (gs_ssh_user inner) (gs_ssh_user outer),
     gs_ssh_port = opt_or (gs_ssh_port inner) (gs_ssh_port outer),
     gs_identity_file = opt_or (gs_identity_file inner) (gs_identity_file outer),
     gs_user = opt_or (gs_user inner) (gs_user outer),
     gs_ssh_opts = gs_ssh_opts inner @ gs_ssh_opts outer,
     gs_fast_connection = opt_or (gs_fast_connection inner) (gs_fast_connection outer),
     gs_auto_rollback = opt_or (gs_auto_rollback inner) (gs_auto_rollback outer),
     gs_confirm_timeout = opt_or (gs_confirm_timeout inner) (gs_confirm_timeout outer),
     gs_activation_timeout = opt_or (gs_activation_timeout inner) (gs_activation_timeout outer),
     gs_temp_path = opt_or (gs_temp_path inner) (gs_temp_path outer),
     gs_magic_rollback = opt_or (gs_magic_rollback inner) (gs_magic_rollback outer),
     gs_sudo = opt_or (gs_sudo inner) (gs_sudo outer),
     gs_remote_build = opt_or (gs_remote_build inner) (gs_remote_build outer),
     gs_interactive_sudo = opt_or (gs_interactive_sudo inner) (gs_interactive_sudo outer)\<rparr>"

record profile =
  pf_path :: string
  pf_profile_path :: "string option"
  pf_settings :: generic_settings

record node =
  nd_settings :: generic_settings
  nd_hostname :: string
  nd_profiles :: "(string, profile) bmap"
  nd_profiles_order :: "string list"

section \<open>One deployment\<close>

record cmd_overrides =
  co_hostname :: "string option"
  co_nix_program :: "string option"
  co_ssh_program :: "string option"
  co_environment :: "(string \<times> string) list"

record deploy_data =
  dd_node_name :: string
  dd_node :: node
  dd_profile_name :: string
  dd_profile :: profile
  dd_overrides :: cmd_overrides
  dd_settings :: generic_settings

record deploy_defs =
  df_ssh_user :: string
  df_profile_user :: string
  df_sudo :: "string option"

datatype profile_info = ProfilePath string | ProfileUserAndName string string

datatype defs_error = MissingSshUser string string | NoProfileUser string string

fun show_defs_error :: "defs_error \<Rightarrow> string" where
  "show_defs_error (MissingSshUser p n) = ''`sshUser` is not set for profile '' @ p @ '' of node '' @ n"
| "show_defs_error (NoProfileUser p n) =
    ''Neither `user` nor `sshUser` are set for profile '' @ p @ '' of node '' @ n"

definition make_deploy_data ::
  "generic_settings \<Rightarrow> node \<Rightarrow> string \<Rightarrow> profile \<Rightarrow> string \<Rightarrow> cmd_overrides \<Rightarrow> deploy_data" where
  "make_deploy_data outer nd node_name pf profile_name overrides =
    \<lparr>dd_node_name = node_name, dd_node = nd, dd_profile_name = profile_name, dd_profile = pf,
     dd_overrides = overrides,
     dd_settings = with_fallback (with_fallback (pf_settings pf) (nd_settings nd)) outer\<rparr>"

definition profile_user :: "deploy_data \<Rightarrow> (defs_error, string) result" where
  "profile_user d =
    (case opt_or (gs_user (dd_settings d)) (gs_ssh_user (dd_settings d)) of
       None \<Rightarrow> Inl (NoProfileUser (dd_profile_name d) (dd_node_name d))
     | Some u \<Rightarrow> Inr u)"

definition defs_of :: "deploy_data \<Rightarrow> (defs_error, deploy_defs) result" where
  "defs_of d =
    (case gs_ssh_user (dd_settings d) of
       None \<Rightarrow> Inl (MissingSshUser (dd_profile_name d) (dd_node_name d))
     | Some ssh_user \<Rightarrow>
         (case profile_user d of
            Inl e \<Rightarrow> Inl e
          | Inr puser \<Rightarrow>
              Inr \<lparr>df_ssh_user = ssh_user, df_profile_user = puser,
                df_sudo = map_option
                  (\<lambda>user. opt_default ''sudo -u'' (gs_sudo (dd_settings d)) @ '' '' @ user)
                  (opt_filter (\<lambda>user. user \<noteq> ssh_user) (gs_user (dd_settings d)))\<rparr>))"

definition profile_info_of :: "deploy_data \<Rightarrow> (defs_error, profile_info) result" where
  "profile_info_of d =
    (case pf_profile_path (dd_profile d) of
       Some p \<Rightarrow> Inr (ProfilePath p)
     | None \<Rightarrow>
         (case profile_user d of
            Inl e \<Rightarrow> Inl e
          | Inr user \<Rightarrow> Inr (ProfileUserAndName user (dd_profile_name d))))"

definition ssh_args :: "deploy_data \<Rightarrow> string list" where
  "ssh_args d =
    [''-p'', show_nat (unat (opt_default 22 (gs_ssh_port (dd_settings d))))]
    @ (case gs_identity_file (dd_settings d) of
         None \<Rightarrow> []
       | Some f \<Rightarrow> [''-i'', f, ''-o'', ''IdentitiesOnly=yes'', ''-o'', ''IdentityAgent=none''])
    @ gs_ssh_opts (dd_settings d)"

definition shell_safe_byte :: "char \<Rightarrow> bool" where
  "shell_safe_byte c \<longleftrightarrow> is_ascii_alnum c \<or> c \<in> set ''_-./:=@''"

definition quote_escape :: "string \<Rightarrow> string" where
  "quote_escape s =
    concat (map (\<lambda>c. if c = CHR 0x27 then [CHR 0x27, CHR 0x22, CHR 0x27, CHR 0x22, CHR 0x27] else [c]) s)"

definition shell_word :: "string \<Rightarrow> string" where
  "shell_word v =
    (if v \<noteq> [] \<and> list_all shell_safe_byte v then v
     else [CHR 0x27] @ quote_escape v @ [CHR 0x27])"

definition nix_ssh_opts :: "deploy_data \<Rightarrow> string" where
  "nix_ssh_opts d = join '' '' (map shell_word (ssh_args d))"

definition make_lock_path :: "string \<Rightarrow> string \<Rightarrow> string" where
  "make_lock_path temp_path closure =
    path_join temp_path (''deploy-rs-canary-'' @
      hd (split_on (CHR ''-'') (opt_default closure (strip_prefix ''/nix/store/'' closure))))"

section \<open>Merging settings\<close>

lemma opt_or_assoc: "opt_or (opt_or a b) c = opt_or a (opt_or b c)"
  by (cases a) simp_all

lemma opt_or_None [simp]: "opt_or a None = a"
  by (cases a) simp_all

text \<open>The settings under the merge: \<^const>\<open>settings_default\<close> is neutral and the merge associative,
  so the three tiers of a deployment can be merged in any grouping.\<close>

locale override =
  fixes merge :: "'s \<Rightarrow> 's \<Rightarrow> 's" and none :: 's
  assumes left_none: "merge none s = s"
    and right_none: "merge s none = s"
    and assoc: "merge (merge a b) c = merge a (merge b c)"
begin

lemma fold_tiers: "fold (\<lambda>t s. merge s t) ts s = merge s (foldr merge ts none)"
  by (induction ts arbitrary: s) (simp_all add: right_none assoc)

end

interpretation settings: override with_fallback settings_default
  by unfold_locales (simp_all add: with_fallback_def settings_default_def opt_or_assoc)

section \<open>What a shell reads\<close>

text \<open>The words of a command line that only holds blanks, quotes and ordinary bytes: the
  specification \<^const>\<open>shell_word\<close> is measured against. A byte the shell would interpret makes the
  line \<^const>\<open>None\<close>.\<close>

datatype sh_mode = Plain | SingleQuoted | DoubleQuoted

fun sh_words :: "sh_mode \<Rightarrow> string option \<Rightarrow> string \<Rightarrow> string list option" where
  "sh_words m cur [] =
    (if m \<noteq> Plain then None else Some (case cur of None \<Rightarrow> [] | Some w \<Rightarrow> [w]))"
| "sh_words Plain cur (c # s) =
    (if c = CHR '' '' then
       (case cur of None \<Rightarrow> sh_words Plain None s
        | Some w \<Rightarrow> map_option ((#) w) (sh_words Plain None s))
     else if c = CHR 0x27 then sh_words SingleQuoted (Some (opt_default [] cur)) s
     else if c = CHR 0x22 then sh_words DoubleQuoted (Some (opt_default [] cur)) s
     else if shell_safe_byte c then sh_words Plain (Some (opt_default [] cur @ [c])) s
     else None)"
| "sh_words SingleQuoted cur (c # s) =
    (if c = CHR 0x27 then sh_words Plain cur s
     else sh_words SingleQuoted (Some (opt_default [] cur @ [c])) s)"
| "sh_words DoubleQuoted cur (c # s) =
    (if c = CHR 0x22 then sh_words Plain cur s
     else if c \<in> {CHR ''$'', CHR 0x60, CHR 0x5C} then None
     else sh_words DoubleQuoted (Some (opt_default [] cur @ [c])) s)"

lemma safe_byte_plain:
  "shell_safe_byte c \<Longrightarrow> c \<noteq> CHR '' '' \<and> c \<noteq> CHR 0x27 \<and> c \<noteq> CHR 0x22"
  by (auto simp: shell_safe_byte_def is_ascii_alnum_def is_ascii_alpha_def is_ascii_lower_def
      is_ascii_upper_def is_ascii_digit_def byte_def)

lemma sh_words_safe:
  "list_all shell_safe_byte v \<Longrightarrow> v \<noteq> [] \<Longrightarrow>
    sh_words Plain cur (v @ s) = sh_words Plain (Some (opt_default [] cur @ v)) s"
proof (induction v arbitrary: cur)
  case (Cons c v)
  then show ?case using safe_byte_plain [of c] by (cases v) auto
qed simp

lemma sh_words_quoted:
  "sh_words SingleQuoted (Some w) (quote_escape v @ [CHR 0x27] @ s) = sh_words Plain (Some (w @ v)) s"
  by (induction v arbitrary: w) (simp_all add: quote_escape_def)

lemma sh_words_word:
  "sh_words Plain None (shell_word v @ s) = sh_words Plain (Some v) s"
  using sh_words_quoted [of "[]" v s] sh_words_safe [of v None s] by (simp add: shell_word_def)

lemma sh_words_join:
  "sh_words Plain None (join '' '' (map shell_word ws)) = Some ws"
proof (induction ws rule: induct_list012)
  case (2 w)
  then show ?case using sh_words_word [of w "[]"] by simp
next
  case (3 v w ws)
  then show ?case using sh_words_word [of v "'' '' @ join '' '' (map shell_word (w # ws))"] by simp
qed simp

text \<open>C37: Quoting is exact: a shell reading the \<^verbatim>\<open>NIX_SSHOPTS\<close> string gets back exactly the arguments
  given to \<^verbatim>\<open>ssh\<close>, whatever bytes the settings put in them, and a quoted word is one word.\<close>

theorem ssh_options_survive_the_shell:
  "sh_words Plain None (nix_ssh_opts d) = Some (ssh_args d) \<and>
    sh_words Plain None (shell_word v) = Some [v]"
  using sh_words_join [of "ssh_args d"] sh_words_join [of "[v]"] by (simp add: nix_ssh_opts_def)

text \<open>The merge of settings is an override: it is associative with the empty settings as neutral
  element, each scalar is the innermost one that is set, and the ssh options are concatenated from
  the inside out.\<close>

lemma settings_merge_overrides:
  "with_fallback (with_fallback a b) c = with_fallback a (with_fallback b c) \<and>
    with_fallback settings_default a = a \<and> with_fallback a settings_default = a \<and>
    gs_ssh_opts (with_fallback a b) = gs_ssh_opts a @ gs_ssh_opts b \<and>
    gs_ssh_user (with_fallback a b) =
      (if gs_ssh_user a \<noteq> None then gs_ssh_user a else gs_ssh_user b)"
proof -
  have "opt_or x y = (if x \<noteq> None then x else y)" for x y :: "string option"
    by (cases x) simp_all
  then show ?thesis
    using settings.assoc settings.left_none settings.right_none by (simp add: with_fallback_def)
qed

end
