(* ===== verification/DeployPlan.thy ===== *)
theory DeployPlan
  imports Registry BuildLog DeployData
begin

text \<open>Preflight and registration of a native deployment, the first part of
  \<^verbatim>\<open>mandala-core/src/engines/deploy.rs\<close>: the flattened settings of a host, the plan made from the
  selection and the aggregate, the files of the new run, and the identity of the supervisor
  (\<^verbatim>\<open>supervisor.rs\<close>). The theorems say what a plan contains, and that a run is safe from pruning from
  the moment its directory exists.\<close>

section \<open>Flattened settings\<close>

datatype activation_mode = SwitchMode | BootMode

fun mode_of_str :: "string \<Rightarrow> activation_mode option" where
  "mode_of_str s = (if s = ''switch'' then Some SwitchMode else if s = ''boot'' then Some BootMode else None)"

record flattened_settings =
  fl_activation :: activation_mode
  fl_hostname :: string
  fl_ssh_user :: string
  fl_ssh_port :: "16 word"
  fl_identity_file :: "string option"
  fl_ssh_opts :: "string list"
  fl_auto_rollback :: bool
  fl_fast_connection :: bool
  fl_magic_rollback :: "bool option"
  fl_confirm_timeout :: "16 word option"
  fl_activation_timeout :: "16 word option"
  fl_temp_path :: "string option"
  fl_sudo :: "string option"
  fl_user :: "string option"

text \<open>The derived \<^verbatim>\<open>Deserialize\<close>: how each field type reads a value, the outer \<^const>\<open>None\<close> being a
  type error.\<close>

fun mode_of_json :: "json \<Rightarrow> activation_mode option" where
  "mode_of_json (JStr s) = mode_of_str s"
| "mode_of_json (JObj [(s, JNull)]) = mode_of_str s"
| "mode_of_json _ = None"

fun u16_of_json :: "json \<Rightarrow> 16 word option" where
  "u16_of_json (JNum (PosInt n)) = (if n < 65536 then Some (of_nat n) else None)"
| "u16_of_json _ = None"

fun opt_of_json :: "(json \<Rightarrow> 'a option) \<Rightarrow> json \<Rightarrow> 'a option option" where
  "opt_of_json f JNull = Some None"
| "opt_of_json f v = map_option Some (f v)"

fun map_opt :: "('a \<Rightarrow> 'b option) \<Rightarrow> 'a list \<Rightarrow> 'b list option" where
  "map_opt f [] = Some []"
| "map_opt f (x # xs) =
    (case f x of None \<Rightarrow> None | Some y \<Rightarrow> map_option ((#) y) (map_opt f xs))"

definition strings_of_json :: "json \<Rightarrow> string list option" where
  "strings_of_json v = Option.bind (as_array v) (map_opt as_str)"

definition FLATTENED_FIELDS :: "string list" where
  "FLATTENED_FIELDS = [''activation'', ''hostname'', ''sshUser'', ''sshPort'', ''identityFile'', ''sshOpts'',
    ''autoRollback'', ''fastConnection'', ''magicRollback'', ''confirmTimeout'', ''activationTimeout'',
    ''tempPath'', ''sudo'', ''user'']"

definition required :: "(string \<times> json) list \<Rightarrow> string \<Rightarrow> (json \<Rightarrow> 'a option) \<Rightarrow> 'a option" where
  "required m k f = Option.bind (map_of m k) f"

definition nullable :: "(string \<times> json) list \<Rightarrow> string \<Rightarrow> (json \<Rightarrow> 'a option) \<Rightarrow> 'a option option" where
  "nullable m k f = (case map_of m k of None \<Rightarrow> Some None | Some v \<Rightarrow> opt_of_json f v)"

definition flattened_of_fields :: "(string \<times> json) list \<Rightarrow> flattened_settings option" where
  "flattened_of_fields m =
    Option.bind (required m ''activation'' mode_of_json) (\<lambda>activation.
    Option.bind (required m ''hostname'' as_str) (\<lambda>hostname.
    Option.bind (required m ''sshUser'' as_str) (\<lambda>ssh_user.
    Option.bind (required m ''sshPort'' u16_of_json) (\<lambda>ssh_port.
    Option.bind (nullable m ''identityFile'' as_str) (\<lambda>identity_file.
    Option.bind (case map_of m ''sshOpts'' of None \<Rightarrow> Some [] | Some v \<Rightarrow> strings_of_json v) (\<lambda>ssh_opts.
    Option.bind (required m ''autoRollback'' as_bool) (\<lambda>auto_rollback.
    Option.bind (required m ''fastConnection'' as_bool) (\<lambda>fast_connection.
    Option.bind (nullable m ''magicRollback'' as_bool) (\<lambda>magic_rollback.
    Option.bind (nullable m ''confirmTimeout'' u16_of_json) (\<lambda>confirm_timeout.
    Option.bind (nullable m ''activationTimeout'' u16_of_json) (\<lambda>activation_timeout.
    Option.bind (nullable m ''tempPath'' as_str) (\<lambda>temp_path.
    Option.bind (nullable m ''sudo'' as_str) (\<lambda>sudo.
    Option.bind (nullable m ''user'' as_str) (\<lambda>user.
      Some \<lparr>fl_activation = activation, fl_hostname = hostname, fl_ssh_user = ssh_user,
        fl_ssh_port = ssh_port, fl_identity_file = identity_file, fl_ssh_opts = ssh_opts,
        fl_auto_rollback = auto_rollback, fl_fast_connection = fast_connection,
        fl_magic_rollback = magic_rollback, fl_confirm_timeout = confirm_timeout,
        fl_activation_timeout = activation_timeout, fl_temp_path = temp_path, fl_sudo = sudo,
        fl_user = user\<rparr>))))))))))))))"

text \<open>An object without unknown fields, or an array of all fields in their order.\<close>

fun flattened_of_json :: "json \<Rightarrow> flattened_settings option" where
  "flattened_of_json (JObj m) =
    (if list_all (\<lambda>e. fst e \<in> set FLATTENED_FIELDS) m then flattened_of_fields m else None)"
| "flattened_of_json (JArr vs) =
    (if length vs = length FLATTENED_FIELDS then flattened_of_fields (zip FLATTENED_FIELDS vs) else None)"
| "flattened_of_json _ = None"

definition generic_of :: "flattened_settings \<Rightarrow> generic_settings" where
  "generic_of s = \<lparr>gs_ssh_user = Some (fl_ssh_user s), gs_ssh_port = Some (fl_ssh_port s),
    gs_identity_file = fl_identity_file s, gs_user = fl_user s, gs_ssh_opts = fl_ssh_opts s,
    gs_fast_connection = Some (fl_fast_connection s), gs_auto_rollback = Some (fl_auto_rollback s),
    gs_confirm_timeout = fl_confirm_timeout s, gs_activation_timeout = fl_activation_timeout s,
    gs_temp_path = fl_temp_path s, gs_magic_rollback = fl_magic_rollback s, gs_sudo = fl_sudo s,
    gs_remote_build = None, gs_interactive_sudo = None\<rparr>"

section \<open>The plan\<close>

record deploy_plan =
  dp_limit :: string
  dp_targets :: "string list"
  dp_skipped :: "string list"
  dp_settings :: "(string, json) bmap"
  dp_dry_activate :: bool
  dp_boot :: bool
  dp_halt_on_build_failure :: bool
  dp_throttle :: int

datatype deploy_run_error =
    InventoryError inventory_error
  | NoDeployableMembers string
  | InvalidThrottle int
  | MissingSettingsProjection
  | MissingMemberSettings string
  | InvalidMemberSettings string json
  | RegistryError string

text \<open>\<open>serde_err\<close> gives the text of the deserialisation error of a value.\<close>

fun show_run_error :: "(json \<Rightarrow> string) \<Rightarrow> deploy_run_error \<Rightarrow> string" where
  "show_run_error serde_err (InventoryError e) = show_inventory_error e"
| "show_run_error serde_err (NoDeployableMembers limit) = ''selection has no deploy-rs members: '' @ limit"
| "show_run_error serde_err (InvalidThrottle t) = ''deploy throttle must be positive (got '' @ show_int t @ '')''"
| "show_run_error serde_err MissingSettingsProjection = ''aggregate has no projections.deploy.settings object''"
| "show_run_error serde_err (MissingMemberSettings host) = ''aggregate has no flattened deploy settings for '' @ host"
| "show_run_error serde_err (InvalidMemberSettings host v) =
    ''invalid flattened deploy settings for '' @ host @ '': '' @ serde_err v"
| "show_run_error serde_err (RegistryError e) = ''creating deploy registry run: '' @ e"

definition deploy_rs_enabled :: "inventory \<Rightarrow> string \<Rightarrow> bool" where
  "deploy_rs_enabled iv host =
    opt_default False (Option.bind (Option.bind (Option.bind (Option.bind
      (map_of (members iv) host) (\<lambda>m. map_of m ''deployment''))
      (json_get ''deployRs'')) (json_get ''enable'')) as_bool)"

fun plan_settings ::
  "(string, json) bmap \<Rightarrow> string list \<Rightarrow> (string, json) bmap \<Rightarrow> (deploy_run_error, (string, json) bmap) result" where
  "plan_settings projected [] settings = Inr settings"
| "plan_settings projected (host # hosts) settings =
    (case map_of projected host of
       None \<Rightarrow> Inl (MissingMemberSettings host)
     | Some v \<Rightarrow>
         (case flattened_of_json v of
            None \<Rightarrow> Inl (InvalidMemberSettings host v)
          | Some _ \<Rightarrow> plan_settings projected hosts (bm_insert host v settings)))"

definition plan_run_with_boot ::
  "inventory \<Rightarrow> string \<Rightarrow> int \<Rightarrow> bool \<Rightarrow> bool \<Rightarrow> (deploy_run_error, deploy_plan) result" where
  "plan_run_with_boot iv limit throttle dry boot =
    (if throttle \<le> 0 then Inl (InvalidThrottle throttle)
     else (case to_limit iv limit of
         Inl e \<Rightarrow> Inl (InventoryError e)
       | Inr canonical \<Rightarrow>
           let selected = split_on (CHR '','') canonical;
               targets = filter (deploy_rs_enabled iv) selected;
               skipped = filter (\<lambda>h. \<not> deploy_rs_enabled iv h) selected
           in if targets = [] then Inl (NoDeployableMembers canonical)
              else (case deploy_settings iv of
                  None \<Rightarrow> Inl MissingSettingsProjection
                | Some projected \<Rightarrow>
                    (case plan_settings projected targets [] of
                       Inl e \<Rightarrow> Inl e
                     | Inr settings \<Rightarrow>
                         Inr \<lparr>dp_limit = canonical, dp_targets = targets, dp_skipped = skipped,
                           dp_settings = settings, dp_dry_activate = dry, dp_boot = boot,
                           dp_halt_on_build_failure = False, dp_throttle = throttle\<rparr>))))"

definition plan_run :: "inventory \<Rightarrow> string \<Rightarrow> int \<Rightarrow> bool \<Rightarrow> (deploy_run_error, deploy_plan) result" where
  "plan_run iv limit throttle dry = plan_run_with_boot iv limit throttle dry False"

definition batch_argv :: "inventory \<Rightarrow> string \<Rightarrow> string \<Rightarrow> (inventory_error, string list) result" where
  "batch_argv iv flake grp =
    (if grp \<noteq> ''all'' \<and> \<not> bm_contains (groups iv) grp then Inl (NoSuchGroup grp (bm_keys (groups iv)))
     else Inr [''nix'', ''build'', ''--no-link'', ''--print-out-paths'', flake @ ''#deployBatch.'' @ grp])"

text \<open>\<open>c & 0xff\<close> on the exit code of a child, as the byte of an \<^verbatim>\<open>ExitCode\<close>.\<close>

definition exit_byte :: "int option \<Rightarrow> nat" where
  "exit_byte code =
    (case code of None \<Rightarrow> 1 | Some c \<Rightarrow> if c = 0 then 0 else max (nat (c mod 256)) 1)"

section \<open>Registration\<close>

text \<open>\<open>supervisor.rs\<close>: the hint of the environment counts only when it is the parent's id.\<close>

definition captured_pid :: "string option \<Rightarrow> int \<Rightarrow> int option" where
  "captured_pid hint parent =
    opt_filter (\<lambda>pid. 0 < pid \<and> pid = parent)
      (opt_filter (\<lambda>pid. - 2147483648 \<le> pid \<and> pid \<le> 2147483647) (Option.bind hint parse_i64))"

definition run_meta :: "string \<Rightarrow> deploy_plan \<Rightarrow> int \<Rightarrow> int option \<Rightarrow> json \<Rightarrow> meta" where
  "run_meta run_id plan pid supervisor started =
    (let m = bm_of_list [(''run_id'', JStr run_id), (''kind'', JStr ''deploy''), (''limit'', JStr (dp_limit plan)),
        (''targets'', JArr (map JStr (dp_targets plan))), (''skipped'', JArr (map JStr (dp_skipped plan))),
        (''dry_activate'', JBool (dp_dry_activate plan)), (''boot'', JBool (dp_boot plan)),
        (''throttle'', json_of_int (dp_throttle plan)),
        (''halt_on_build_failure'', JBool (dp_halt_on_build_failure plan)), (''pid'', json_of_int pid)];
         m = (case supervisor of None \<Rightarrow> m | Some p \<Rightarrow> bm_insert ''supervisor_pid'' (json_of_int p) m)
     in bm_insert ''started_at'' started m)"

definition stream_file :: "string \<Rightarrow> string" where
  "stream_file host = host @ ''.jsonl''"

definition stream_ops :: "deploy_plan \<Rightarrow> fs_op list" where
  "stream_ops plan = map (\<lambda>h. WriteFile (stream_file h) []) (dp_targets plan)"

record registered_run =
  rr_run_id :: string
  rr_plan :: deploy_plan

text \<open>The clock's identifiers, the pruning before an allocation and the registry root are those of
  \<^const>\<open>new_run_dir_in\<close>. \<open>io\<close> is the error of a file operation, if it fails; then what the
  operations before it stored stays.\<close>

definition register_files ::
  "(fs_op \<Rightarrow> string option) \<Rightarrow> (meta \<Rightarrow> (string, string) result) \<Rightarrow> deploy_plan \<Rightarrow> meta \<Rightarrow> run_dir \<Rightarrow>
    (string, unit) result \<times> run_dir" where
  "register_files io ser plan m dir =
    (case fs_try io (stream_ops plan) dir of
       (Inl e, dir) \<Rightarrow> (Inl e, dir)
     | (Inr _, dir) \<Rightarrow>
         (case write_meta_ops ser m of
            Inl e \<Rightarrow> (Inl e, dir)
          | Inr ops \<Rightarrow> fs_try io ops dir))"

definition register_run ::
  "nat \<Rightarrow> (nat \<Rightarrow> string) \<Rightarrow> (runs_base \<Rightarrow> runs_base) \<Rightarrow> (fs_op \<Rightarrow> string option) \<Rightarrow>
    (meta \<Rightarrow> (string, string) result) \<Rightarrow> int \<Rightarrow> int option \<Rightarrow> json \<Rightarrow> deploy_plan \<Rightarrow> runs_base \<Rightarrow>
    ((deploy_run_error, registered_run) result \<times> runs_base) option" where
  "register_run fuel ids prune io ser pid supervisor started plan base =
    (case new_run_dir_in fuel ids prune base of
       None \<Rightarrow> None
     | Some (run_id, base) \<Rightarrow>
         (case register_files io ser plan (run_meta run_id plan pid supervisor started) [] of
            (Inl e, dir) \<Rightarrow> Some (Inl (RegistryError e), bm_insert run_id dir base)
          | (Inr _, dir) \<Rightarrow>
              Some (Inr \<lparr>rr_run_id = run_id, rr_plan = plan\<rparr>, bm_insert run_id dir base)))"

definition prepare_run_with_boot ::
  "nat \<Rightarrow> (nat \<Rightarrow> string) \<Rightarrow> (runs_base \<Rightarrow> runs_base) \<Rightarrow> (fs_op \<Rightarrow> string option) \<Rightarrow>
    (meta \<Rightarrow> (string, string) result) \<Rightarrow> int \<Rightarrow> int option \<Rightarrow> json \<Rightarrow>
    inventory \<Rightarrow> string \<Rightarrow> int \<Rightarrow> bool \<Rightarrow> bool \<Rightarrow> runs_base \<Rightarrow>
    ((deploy_run_error, registered_run) result \<times> runs_base) option" where
  "prepare_run_with_boot fuel ids prune io ser pid supervisor started iv limit throttle dry boot base =
    (case plan_run_with_boot iv limit throttle dry boot of
       Inl e \<Rightarrow> Some (Inl e, base)
     | Inr plan \<Rightarrow> register_run fuel ids prune io ser pid supervisor started plan base)"

definition prepare_run ::
  "nat \<Rightarrow> (nat \<Rightarrow> string) \<Rightarrow> (runs_base \<Rightarrow> runs_base) \<Rightarrow> (fs_op \<Rightarrow> string option) \<Rightarrow>
    (meta \<Rightarrow> (string, string) result) \<Rightarrow> int \<Rightarrow> int option \<Rightarrow> json \<Rightarrow>
    inventory \<Rightarrow> string \<Rightarrow> int \<Rightarrow> bool \<Rightarrow> runs_base \<Rightarrow>
    ((deploy_run_error, registered_run) result \<times> runs_base) option" where
  "prepare_run fuel ids prune io ser pid supervisor started iv limit throttle dry base =
    prepare_run_with_boot fuel ids prune io ser pid supervisor started iv limit throttle dry False base"

section \<open>What a plan contains\<close>

lemma plan_settings_ok:
  assumes "plan_settings projected hosts s0 = Inr s"
  shows "map_of s = map_of s0 ++ (\<lambda>h. if h \<in> set hosts then map_of projected h else None) \<and>
    (\<forall>h\<in>set hosts. \<exists>v. map_of projected h = Some v \<and> flattened_of_json v \<noteq> None) \<and> (bm_wf s0 \<longrightarrow> bm_wf s)"
  using assms
proof (induction hosts arbitrary: s0)
  case Nil
  then show ?case by (simp add: map_add_def)
next
  case (Cons host hosts)
  then obtain v where v: "map_of projected host = Some v" "flattened_of_json v \<noteq> None"
    "plan_settings projected hosts (bm_insert host v s0) = Inr s"
    by (auto split: option.splits)
  then show ?case using Cons.IH [OF v(3)]
    by (auto simp: map_add_def fun_eq_iff bm_wf_insert split: option.splits)
qed

lemma plan_targets:
  assumes ok: "inventory_ok iv" and plan: "plan_run_with_boot iv limit throttle dry boot = Inr p"
  obtains ms where "resolve iv limit = Inr ms" "dp_limit p = join '','' ms"
    "dp_targets p = filter (deploy_rs_enabled iv) ms" "dp_skipped p = filter (\<lambda>h. \<not> deploy_rs_enabled iv h) ms"
    "dp_targets p \<noteq> []" "0 < throttle" "dp_throttle p = throttle"
proof -
  obtain ms where ms: "resolve iv limit = Inr ms" "dp_limit p = join '','' ms"
    "dp_targets p = filter (deploy_rs_enabled iv) (split_on (CHR '','') (join '','' ms))"
    "dp_skipped p = filter (\<lambda>h. \<not> deploy_rs_enabled iv h) (split_on (CHR '','') (join '','' ms))"
    "dp_targets p \<noteq> []" "0 < throttle" "dp_throttle p = throttle"
    using plan by (auto simp: plan_run_with_boot_def to_limit_def Let_def
        split: if_splits sum.splits option.splits)
  have m: "ms \<noteq> []" "set ms \<subseteq> set (bm_keys (members iv))"
    using inv_sel.expand_members [OF ok ms(1)] ms(1) by (auto simp: resolve_def Let_def split: sum.splits if_splits)
  then have "\<forall>m\<in>set ms. CHR '','' \<notin> set m"
    using ok valid_name_facts(1) name_byte_plain by (fastforce simp: inventory_ok_def list_all_iff)
  with m(1) have "split_on (CHR '','') (join '','' ms) = ms" by (rule split_on_join)
  with ms show thesis by (intro that) simp_all
qed

section \<open>A new run is protected\<close>

lemma crash_after_writes:
  assumes "crash_state (map (\<lambda>h. WriteFile (f h) body) hs @ ops) dir dir'" and "\<forall>h\<in>set hs. f h \<noteq> name"
  shows "map_of dir' name = map_of dir name \<or> (\<exists>d. map_of d name = map_of dir name \<and> crash_state ops d dir')"
  using assms
proof (induction hs arbitrary: dir)
  case (Cons h hs)
  from Cons.prems(1) have "crash_state (WriteFile (f h) body # (map (\<lambda>h. WriteFile (f h) body) hs @ ops)) dir dir'"
    by simp
  then show ?case
  proof (cases rule: crash_state.cases)
    case (crash_torn part)
    then show ?thesis using Cons.prems(2) by auto
  next
    case crash_later
    then show ?thesis using Cons.IH [of "bm_insert (f h) body dir"] Cons.prems(2) by auto
  qed simp
qed auto

lemma stream_not_meta: "stream_file h \<noteq> META" "stream_file h \<noteq> META_TMP"
proof -
  have "rev (stream_file h) \<noteq> rev META" "rev (stream_file h) \<noteq> rev META_TMP"
    by (simp_all add: stream_file_def META_def META_TMP_def)
  then show "stream_file h \<noteq> META" "stream_file h \<noteq> META_TMP" by metis+
qed

lemma run_meta_pid:
  assumes "0 < pid" and "pid \<le> int I64_MAX"
  shows "run_pid (run_meta run_id plan pid supervisor started) = Some pid"
  using assms
  by (auto simp: run_meta_def run_pid_def json_of_int_def Let_def bm_of_list_def I64_MAX_def split: option.split)

section \<open>Properties\<close>

text \<open>C28: A plan is exactly what was selected. Its limit is the canonical spelling of the selection; its
  targets are the selected members with deploy-rs enabled and the rest is reported as skipped, both
  in sorted order; there is a target and a positive throttle; and the settings hold, for exactly the
  targets, the projected value, which decodes.\<close>

theorem plan_partitions_selection:
  assumes "inventory_ok iv" and "plan_run_with_boot iv limit throttle dry boot = Inr p"
  shows "\<exists>ms. resolve iv limit = Inr ms \<and> to_limit iv (dp_limit p) = Inr (dp_limit p) \<and>
    dp_targets p = filter (deploy_rs_enabled iv) ms \<and>
    dp_skipped p = filter (\<lambda>h. \<not> deploy_rs_enabled iv h) ms \<and>
    dp_targets p \<noteq> [] \<and> 0 < dp_throttle p \<and> bm_wf (dp_settings p) \<and>
    set (bm_keys (dp_settings p)) = set (dp_targets p) \<and>
    (\<forall>h\<in>set (dp_targets p). \<exists>projected v. deploy_settings iv = Some projected \<and>
      map_of projected h = Some v \<and> map_of (dp_settings p) h = Some v \<and> flattened_of_json v \<noteq> None)"
proof -
  obtain ms where ms: "resolve iv limit = Inr ms" "dp_limit p = join '','' ms"
    "dp_targets p = filter (deploy_rs_enabled iv) ms" "dp_skipped p = filter (\<lambda>h. \<not> deploy_rs_enabled iv h) ms"
    "dp_targets p \<noteq> []" "0 < throttle" "dp_throttle p = throttle"
    using plan_targets [OF assms] by blast
  obtain projected where pr: "deploy_settings iv = Some projected"
    "plan_settings projected (dp_targets p) [] = Inr (dp_settings p)"
    using assms(2) by (auto simp: plan_run_with_boot_def Let_def split: if_splits sum.splits option.splits)
  note st = plan_settings_ok [OF pr(2)]
  then have "map_of (dp_settings p) h = (if h \<in> set (dp_targets p) then map_of projected h else None)" for h
    by (simp add: map_add_def)
  moreover from this st have "set (bm_keys (dp_settings p)) = set (dp_targets p)"
    unfolding bm_keys_def set_map dom_map_of_conv_image_fst [symmetric] dom_def by auto
  moreover have "to_limit iv (dp_limit p) = Inr (dp_limit p)"
    using to_limit_idempotent [OF assms(1), of limit] ms(1,2) by (simp add: to_limit_def)
  ultimately show ?thesis using ms st pr by (intro exI [of _ ms]) auto
qed

definition deployable_inventory :: inventory where
  "deployable_inventory = \<lparr>iv_aggregate = \<lparr>ag_schema_version = JNum (PosInt 1),
      ag_members = [(''db'', [(''name'', JStr ''db'')]),
        (''web'', [(''deployment'', JObj [(''deployRs'', JObj [(''enable'', JBool True)])]), (''name'', JStr ''web'')])],
      ag_groups = [],
      ag_extra = [(''projections'', JObj [(''deploy'', JObj [(''settings'', JObj [(''web'',
        JObj [(''activation'', JStr ''switch''), (''autoRollback'', JBool True), (''fastConnection'', JBool False),
          (''hostname'', JStr ''web.example''), (''sshPort'', JNum (PosInt 22)), (''sshUser'', JStr ''root'')])])])])]\<rparr>,
    iv_controller_platform = None\<rparr>"

lemma deployable_targets:
  "map_option dp_targets (ok (plan_run_with_boot deployable_inventory ''all'' 4 False False)) = Some [''web'']"
proof -
  have 1: "to_limit deployable_inventory ''all'' = Inr ''db,web''" by code_simp
  have 2: "split_on (CHR '','') ''db,web'' = [''db'', ''web'']" by code_simp
  have 3: "deploy_rs_enabled deployable_inventory ''web''" "\<not> deploy_rs_enabled deployable_inventory ''db''" by code_simp+
  define v where "v = JObj [(''activation'', JStr ''switch''), (''autoRollback'', JBool True), (''fastConnection'', JBool False),
    (''hostname'', JStr ''web.example''), (''sshPort'', JNum (PosInt 22)), (''sshUser'', JStr ''root'')]"
  have 4: "deploy_settings deployable_inventory = Some [(''web'', v)]"
    by (simp add: deploy_settings_def connection_projections_def projections_def deployable_inventory_def v_def)
  obtain fs where "flattened_of_json v = Some fs"
    by (simp add: v_def flattened_of_fields_def FLATTENED_FIELDS_def nullable_def required_def)
  then have "plan_settings [(''web'', v)] [''web''] [] = Inr [(''web'', v)]" by simp
  then show ?thesis using 1 2 3 4 by (simp add: plan_run_with_boot_def)
qed

lemma deployable_ok: "inventory_ok deployable_inventory"
proof -
  have "is_valid_member_name ''web''" "is_valid_member_name ''db''" by code_simp+
  then show ?thesis
    by (simp add: inventory_ok_def deployable_inventory_def members_def groups_def bm_wf_def bm_keys_def)
qed

theorem plan_partitions_selection_witness:
  "\<exists>p. plan_run_with_boot deployable_inventory ''all'' 4 False False = Inr p \<and>
    set (bm_keys (dp_settings p)) = set (dp_targets p) \<and> dp_targets p = [''web'']"
proof -
  obtain p where p: "plan_run_with_boot deployable_inventory ''all'' 4 False False = Inr p" "dp_targets p = [''web'']"
    using deployable_targets by (cases "plan_run_with_boot deployable_inventory ''all'' 4 False False") auto
  with plan_partitions_selection [OF deployable_ok p(1)] show ?thesis by auto
qed

text \<open>A new run is never pruned away under the engine that created it. At every moment of its
  registration, whichever file operations have been carried out, and afterwards, the registry
  protects the run as long as the engine's process lives: before the metadata file appears through
  the process id in the run's name, from then on through the recorded one.\<close>

lemma registration_is_protected:
  assumes "write_meta_ops ser (run_meta run_id plan pid supervisor started) = Inr ops"
    and "\<And>m body. ser m = Inr body \<Longrightarrow> parse body = Some (JObj m)"
    and "crash_state (stream_ops plan @ ops) [] dir"
    and "allocating_pid \<lparr>ri_run_id = run_id, ri_meta = []\<rparr> = Some pid"
    and "0 < pid" and "pid \<le> int I64_MAX" and "alive (Some pid)"
  shows "run_protected alive \<lparr>ri_run_id = run_id, ri_meta = read_meta parse dir\<rparr>"
proof -
  let ?m = "run_meta run_id plan pid supervisor started"
  obtain body where body: "ser ?m = Inr body"
    using assms(1) by (auto simp: write_meta_ops_def split: sum.splits)
  have "read_meta parse dir = [] \<or> read_meta parse dir = ?m"
  proof -
    consider "map_of dir META = None" | d where "map_of d META = None" "crash_state ops d dir"
      using crash_after_writes [of stream_file "[]" "dp_targets plan" ops "[]" dir META] assms(3) stream_not_meta
      by (auto simp: stream_ops_def)
    then show ?thesis
    proof cases
      case 2
      show ?thesis using write_meta_crash [where parse = parse and body = body, OF assms(2) [OF body] assms(1) body 2(2)] 2(1)
        by (auto simp: read_meta_def)
    qed (simp add: read_meta_def)
  qed
  then show ?thesis
    using assms(4,7) run_meta_pid [OF assms(5,6)] by (auto simp: run_protected_def)
qed


definition sample_plan :: deploy_plan where
  "sample_plan = \<lparr>dp_limit = ''web'', dp_targets = [''web''], dp_skipped = [], dp_settings = [(''web'', JNull)],
    dp_dry_activate = False, dp_boot = False, dp_halt_on_build_failure = False, dp_throttle = 4\<rparr>"

end
