(* ===== verification/Activation.thy ===== *)
theory Activation
  imports DeployData Utf8
begin

text \<open>Copying and activating one profile on one host: \<^verbatim>\<open>mandala-deploy/src/push.rs\<close>, \<^verbatim>\<open>deploy.rs\<close> and
  the output forwarding of \<^verbatim>\<open>event.rs\<close>. Each operation threads the trace of what it did: the events
  it gave the sink, the commands it ran with their outcomes, and the start, end and killing of the
  processes it had in the background. The outcomes come from an environment that may depend on the
  whole trace, and so does the order in which two processes running at the same time settle.\<close>

section \<open>Processes and events\<close>

datatype level = LTrace | LDebug | LInfo | LWarn | LError

datatype exit_status = ExitCode int | KilledBy int

fun exit_code :: "exit_status \<Rightarrow> int option" where
  "exit_code (ExitCode n) = Some n"
| "exit_code (KilledBy s) = None"

definition exit_success :: "exit_status \<Rightarrow> bool" where
  "exit_success s \<longleftrightarrow> s = ExitCode 0"

record process_output =
  po_status :: exit_status
  po_stdout :: string
  po_stderr :: string

record command =
  cm_program :: string
  cm_args :: "string list"
  cm_env :: "(string \<times> string) list"

datatype deploy_effect =
    Emitted level string
  | Ran command "(string, process_output) result"
  | Spawned command
  | Finished command "(string, process_output) result"
  | Killed command

type_synonym trace = "deploy_effect list"

datatype confirm_race = ActivationSettles bool | ConfirmationSettles

text \<open>\<open>de_waiter_first\<close> and \<open>de_confirm_race\<close> decide the two \<^verbatim>\<open>select!\<close>s: which process settles first, and
  for the second one, when it is the activation, whether the confirmation is already running.\<close>

record deploy_env =
  de_output :: "trace \<Rightarrow> command \<Rightarrow> (string, process_output) result"
  de_spawn_error :: "trace \<Rightarrow> command \<Rightarrow> string option"
  de_waiter_first :: "trace \<Rightarrow> bool"
  de_confirm_race :: "trace \<Rightarrow> confirm_race"
  de_show_status :: "exit_status \<Rightarrow> string"

definition emit :: "level \<Rightarrow> string \<Rightarrow> trace \<Rightarrow> trace" where
  "emit l msg tr = tr @ [Emitted l msg]"

definition emit_output :: "process_output \<Rightarrow> trace \<Rightarrow> trace" where
  "emit_output out tr =
    tr @ map (Emitted LInfo) (str_lines (utf8_lossy (po_stdout out)))
      @ map (Emitted LWarn) (str_lines (utf8_lossy (po_stderr out)))"

definition run_command ::
  "deploy_env \<Rightarrow> command \<Rightarrow> trace \<Rightarrow> (string, process_output) result \<times> trace" where
  "run_command env c tr = (de_output env tr c, tr @ [Ran c (de_output env tr c)])"

definition finish_command ::
  "deploy_env \<Rightarrow> command \<Rightarrow> trace \<Rightarrow> (string, process_output) result \<times> trace" where
  "finish_command env c tr = (de_output env tr c, tr @ [Finished c (de_output env tr c)])"

definition remote_address :: "deploy_data \<Rightarrow> deploy_defs \<Rightarrow> string" where
  "remote_address d defs =
    df_ssh_user defs @ ''@'' @ opt_default (nd_hostname (dd_node d)) (co_hostname (dd_overrides d))"

definition ssh_command :: "deploy_data \<Rightarrow> string \<Rightarrow> string \<Rightarrow> command" where
  "ssh_command d addr remote =
    \<lparr>cm_program = opt_default ''ssh'' (co_ssh_program (dd_overrides d)),
     cm_args = [addr] @ ssh_args d @ [remote], cm_env = co_environment (dd_overrides d)\<rparr>"

section \<open>Copying\<close>

datatype push_error = RemoteBuildUnsupported | PushSpawn string | PushExit exit_status

definition push_command :: "deploy_data \<Rightarrow> deploy_defs \<Rightarrow> bool \<Rightarrow> command" where
  "push_command d defs check_sigs =
    \<lparr>cm_program = opt_default ''nix'' (co_nix_program (dd_overrides d)),
     cm_args = [''copy'']
       @ (if gs_fast_connection (dd_settings d) \<noteq> Some True then [''--substitute-on-destination''] else [])
       @ (if check_sigs then [] else [''--no-check-sigs''])
       @ [''--to'', ''ssh://'' @ remote_address d defs, pf_path (dd_profile d)],
     cm_env = (''NIX_SSHOPTS'', nix_ssh_opts d) # co_environment (dd_overrides d)\<rparr>"

definition push_profile ::
  "deploy_env \<Rightarrow> deploy_data \<Rightarrow> deploy_defs \<Rightarrow> bool \<Rightarrow> trace \<Rightarrow> (push_error, unit) result \<times> trace" where
  "push_profile env d defs check_sigs tr =
    (if gs_remote_build (dd_settings d) = Some True then (Inl RemoteBuildUnsupported, tr)
     else
       let tr = emit LInfo (''copy-start profile='' @ dd_profile_name d @ '' host='' @ dd_node_name d) tr
       in case run_command env (push_command d defs check_sigs) tr of
            (Inl e, tr) \<Rightarrow> (Inl (PushSpawn e), tr)
          | (Inr out, tr) \<Rightarrow>
              let tr = emit_output out tr
              in if \<not> exit_success (po_status out) then (Inl (PushExit (po_status out)), tr)
                 else (Inr (), emit LInfo ''copy-complete'' tr))"

section \<open>The remote commands\<close>

definition sanitized_remote_command :: "string option \<Rightarrow> string \<Rightarrow> string" where
  "sanitized_remote_command sudo c =
    (case sudo of
       Some s \<Rightarrow> ''env -u NIXOS_NO_CHECK '' @ s @ '' env -u NIXOS_NO_CHECK '' @ c
     | None \<Rightarrow> ''env -u NIXOS_NO_CHECK '' @ c)"

record activate_command_data =
  ac_sudo :: "string option"
  ac_profile_info :: profile_info
  ac_closure :: string
  ac_auto_rollback :: bool
  ac_temp_path :: string
  ac_confirm_timeout :: "16 word"
  ac_magic_rollback :: bool
  ac_dry_activate :: bool
  ac_boot :: bool

definition quoted :: "string \<Rightarrow> string" where
  "quoted s = [CHR 0x27] @ s @ [CHR 0x27]"

fun profile_flags :: "profile_info \<Rightarrow> string" where
  "profile_flags (ProfilePath p) = ''--profile-path '' @ quoted p"
| "profile_flags (ProfileUserAndName u n) = ''--profile-user '' @ u @ '' --profile-name '' @ n"

definition build_activate_command :: "activate_command_data \<Rightarrow> string" where
  "build_activate_command a =
    sanitized_remote_command (ac_sudo a)
      (ac_closure a @ ''/activate-rs activate '' @ quoted (ac_closure a) @ '' ''
       @ profile_flags (ac_profile_info a) @ '' --temp-path '' @ quoted (ac_temp_path a)
       @ '' --confirm-timeout '' @ show_nat (unat (ac_confirm_timeout a))
       @ (if ac_magic_rollback a then '' --magic-rollback'' else [])
       @ (if ac_auto_rollback a then '' --auto-rollback'' else [])
       @ (if ac_dry_activate a then '' --dry-activate'' else [])
       @ (if ac_boot a then '' --boot'' else []))"

definition with_sudo :: "string option \<Rightarrow> string \<Rightarrow> string" where
  "with_sudo sudo c = (case sudo of Some s \<Rightarrow> s @ '' '' @ c | None \<Rightarrow> c)"

definition build_wait_command :: "string option \<Rightarrow> string \<Rightarrow> string \<Rightarrow> 16 word option \<Rightarrow> string" where
  "build_wait_command sudo closure temp_path timeout =
    with_sudo sudo
      (closure @ ''/activate-rs wait '' @ quoted closure @ '' --temp-path '' @ quoted temp_path
       @ (case timeout of None \<Rightarrow> [] | Some t \<Rightarrow> '' --activation-timeout '' @ show_nat (unat t)))"

fun profile_path :: "profile_info \<Rightarrow> string" where
  "profile_path (ProfilePath p) = p"
| "profile_path (ProfileUserAndName user name) =
    (if user = ''root'' \<and> name = ''system'' then ''/nix/var/nix/profiles/system''
     else ''/nix/var/nix/profiles/per-user/'' @ user @ ''/'' @ name)"

datatype deploy_error =
    InteractiveSudoUnsupported
  | InvalidDeployData defs_error
  | ActivateSpawn string
  | ActivateExit exit_status
  | CanaryCleanupSpawn string
  | CanaryCleanupExit exit_status
  | RollbackExit exit_status
  | WaitSpawn string
  | WaitExit exit_status
  | ConfirmSpawn string
  | ConfirmExit exit_status
  | CapabilityProbeSpawn string
  | CapabilityProbeExit exit_status
  | PreflightSpawn string
  | PreflightTransport exit_status
  | PreviousProfileSpawn string
  | PreviousProfileExit exit_status
  | PreviousProfileInvalid
  | BootStage string string

fun rolled_back :: "deploy_error \<Rightarrow> bool" where
  "rolled_back (RollbackExit _) = True"
| "rolled_back (ConfirmSpawn _) = True"
| "rolled_back (ConfirmExit _) = True"
| "rolled_back _ = False"

definition checked_output ::
  "process_output \<Rightarrow> (exit_status \<Rightarrow> deploy_error) \<Rightarrow> trace \<Rightarrow> (deploy_error, unit) result \<times> trace" where
  "checked_output out err tr =
    (if exit_success (po_status out) then (Inr (), emit_output out tr)
     else (Inl (err (po_status out)), emit_output out tr))"

section \<open>Choosing the activation path\<close>

datatype activation_disposition = DryPreview bool | LiveSwitch | BootStaging

fun reboot_pending :: "activation_disposition \<Rightarrow> bool" where
  "reboot_pending BootStaging = True"
| "reboot_pending (DryPreview b) = b"
| "reboot_pending LiveSwitch = False"

definition capability_command :: "deploy_data \<Rightarrow> string" where
  "capability_command d = ''test -e '' @ shell_word (pf_path (dd_profile d)) @ ''/switch-inhibitors''"

definition preflight_command :: "deploy_data \<Rightarrow> deploy_defs \<Rightarrow> string" where
  "preflight_command d defs = sanitized_remote_command (df_sudo defs)
    (shell_word (pf_path (dd_profile d)) @ ''/bin/switch-to-configuration check'')"

definition live_disposition :: "bool \<Rightarrow> bool \<Rightarrow> activation_disposition" where
  "live_disposition dry reboot =
    (if dry then DryPreview reboot else if reboot then BootStaging else LiveSwitch)"

definition resolve_preflight ::
  "deploy_env \<Rightarrow> deploy_data \<Rightarrow> deploy_defs \<Rightarrow> bool \<Rightarrow> trace \<Rightarrow>
    (deploy_error, activation_disposition) result \<times> trace" where
  "resolve_preflight env d defs dry tr =
    (let check = preflight_command d defs;
         tr = emit LDebug (''switch-preflight-command '' @ check) tr
     in case run_command env (ssh_command d (remote_address d defs) check) tr of
          (Inl e, tr) \<Rightarrow> (Inl (PreflightSpawn e), tr)
        | (Inr out, tr) \<Rightarrow>
            let tr = emit_output out tr
            in if exit_success (po_status out) then
                 (Inr (live_disposition dry False),
                  emit LInfo ''target switch preflight accepted live activation'' tr)
               else if exit_code (po_status out) = Some 255 then
                 (Inl (PreflightTransport (po_status out)), tr)
               else
                 (Inr (live_disposition dry True),
                  emit LInfo ''target switch preflight refused live activation; selecting boot-only staging'' tr))"

definition resolve_activation_disposition ::
  "deploy_env \<Rightarrow> deploy_data \<Rightarrow> deploy_defs \<Rightarrow> bool \<Rightarrow> bool \<Rightarrow> trace \<Rightarrow>
    (deploy_error, activation_disposition) result \<times> trace" where
  "resolve_activation_disposition env d defs dry boot tr =
    (if boot then (Inr (live_disposition dry True), tr)
     else
       let capability = capability_command d;
           tr = emit LDebug (''switch-capability-command '' @ capability) tr
       in case run_command env (ssh_command d (remote_address d defs) capability) tr of
            (Inl e, tr) \<Rightarrow> (Inl (CapabilityProbeSpawn e), tr)
          | (Inr out, tr) \<Rightarrow>
              let tr = emit_output out tr
              in if exit_code (po_status out) = Some 0 then resolve_preflight env d defs dry tr
                 else if exit_code (po_status out) = Some 1 then
                   (Inr (live_disposition dry False),
                    emit LInfo ''target generation has no switch-inhibitor contract; preserving legacy switch behavior'' tr)
                 else (Inl (CapabilityProbeExit (po_status out)), tr))"

section \<open>Staging for the next boot\<close>

definition boot_stage_command ::
  "deploy_env \<Rightarrow> deploy_data \<Rightarrow> string \<Rightarrow> string \<Rightarrow> string \<Rightarrow> trace \<Rightarrow> (string, unit) result \<times> trace" where
  "boot_stage_command env d addr label remote tr =
    (let tr = emit LDebug (label @ ''-command '' @ remote) tr
     in case run_command env (ssh_command d addr remote) tr of
          (Inl e, tr) \<Rightarrow> (Inl (label @ '' spawn failed: '' @ e), tr)
        | (Inr out, tr) \<Rightarrow>
            (if exit_success (po_status out) then Inr ()
             else Inl (label @ '' exited with '' @ de_show_status env (po_status out)),
             emit_output out tr))"

definition set_profile_command :: "deploy_defs \<Rightarrow> string \<Rightarrow> string \<Rightarrow> string" where
  "set_profile_command defs ppath closure = sanitized_remote_command (df_sudo defs)
    (''nix-env --profile '' @ shell_word ppath @ '' --set '' @ shell_word closure)"

definition boot_default_command :: "deploy_defs \<Rightarrow> string \<Rightarrow> string" where
  "boot_default_command defs closure = sanitized_remote_command (df_sudo defs)
    (shell_word closure @ ''/bin/switch-to-configuration boot'')"

definition recover_boot_stage ::
  "deploy_env \<Rightarrow> deploy_data \<Rightarrow> deploy_defs \<Rightarrow> string \<Rightarrow> string \<Rightarrow> string \<Rightarrow> trace \<Rightarrow> string \<times> trace" where
  "recover_boot_stage env d defs addr ppath previous tr =
    (case boot_stage_command env d addr ''boot-recovery-profile'' (set_profile_command defs ppath previous) tr of
       (r1, tr) \<Rightarrow>
         (case boot_stage_command env d addr ''boot-recovery-default'' (boot_default_command defs previous) tr of
            (r2, tr) \<Rightarrow>
              let errors = (case r1 of Inl e \<Rightarrow> [e] | Inr _ \<Rightarrow> []) @ (case r2 of Inl e \<Rightarrow> [e] | Inr _ \<Rightarrow> [])
              in (if errors = [] then ''restored previous profile and boot default'' else join ''; '' errors, tr)))"

definition resolve_command :: "deploy_defs \<Rightarrow> string \<Rightarrow> string" where
  "resolve_command defs ppath =
    sanitized_remote_command (df_sudo defs) (''readlink -e '' @ shell_word ppath)"

definition previous_profile ::
  "deploy_env \<Rightarrow> deploy_data \<Rightarrow> deploy_defs \<Rightarrow> string \<Rightarrow> string \<Rightarrow> trace \<Rightarrow>
    (deploy_error, string) result \<times> trace" where
  "previous_profile env d defs addr ppath tr =
    (let resolve = resolve_command defs ppath;
         tr = emit LDebug (''previous-profile-command '' @ resolve) tr
     in case run_command env (ssh_command d addr resolve) tr of
          (Inl e, tr) \<Rightarrow> (Inl (PreviousProfileSpawn e), tr)
        | (Inr out, tr) \<Rightarrow>
            let tr = emit_output out tr; previous = trim (utf8_lossy (po_stdout out))
            in if \<not> exit_success (po_status out) then (Inl (PreviousProfileExit (po_status out)), tr)
               else if \<not> starts_with previous ''/nix/store/'' then (Inl PreviousProfileInvalid, tr)
               else (Inr previous, tr))"

definition recovered ::
  "deploy_env \<Rightarrow> deploy_data \<Rightarrow> deploy_defs \<Rightarrow> string \<Rightarrow> string \<Rightarrow> string \<Rightarrow> string \<Rightarrow> trace \<Rightarrow>
    (deploy_error, unit) result \<times> trace" where
  "recovered env d defs addr ppath previous primary tr =
    (case recover_boot_stage env d defs addr ppath previous tr of
       (recovery, tr) \<Rightarrow> (Inl (BootStage primary recovery), tr))"

definition stage_profile_for_boot ::
  "deploy_env \<Rightarrow> deploy_data \<Rightarrow> deploy_defs \<Rightarrow> trace \<Rightarrow> (deploy_error, unit) result \<times> trace" where
  "stage_profile_for_boot env d defs tr =
    (if gs_interactive_sudo (dd_settings d) = Some True then (Inl InteractiveSudoUnsupported, tr)
     else (case profile_info_of d of
         Inl e \<Rightarrow> (Inl (InvalidDeployData e), tr)
       | Inr info \<Rightarrow>
           let ppath = profile_path info; closure = pf_path (dd_profile d); addr = remote_address d defs
           in case previous_profile env d defs addr ppath tr of
                (Inl e, tr) \<Rightarrow> (Inl e, tr)
              | (Inr previous, tr) \<Rightarrow>
                  (case boot_stage_command env d addr ''boot-stage-profile'' (set_profile_command defs ppath closure) tr of
                     (Inl primary, tr) \<Rightarrow> recovered env d defs addr ppath previous primary tr
                   | (Inr _, tr) \<Rightarrow>
                       (case boot_stage_command env d addr ''boot-stage-default'' (boot_default_command defs closure) tr of
                          (Inl primary, tr) \<Rightarrow> recovered env d defs addr ppath previous primary tr
                        | (Inr _, tr) \<Rightarrow>
                            (Inr (), emit LInfo ''boot-only staging complete; target requires reboot'' tr)))))"

section \<open>Live activation with a canary\<close>

definition confirm_command :: "deploy_data \<Rightarrow> deploy_defs \<Rightarrow> string \<Rightarrow> string" where
  "confirm_command d defs temp_path =
    with_sudo (df_sudo defs) (''rm '' @ make_lock_path temp_path (pf_path (dd_profile d)))"

definition cleanup_command :: "deploy_data \<Rightarrow> deploy_defs \<Rightarrow> string \<Rightarrow> string" where
  "cleanup_command d defs temp_path =
    with_sudo (df_sudo defs) (''rm -f '' @ make_lock_path temp_path (pf_path (dd_profile d)))"

definition confirm_end ::
  "(string, process_output) result \<Rightarrow> trace \<Rightarrow> (deploy_error, unit) result \<times> trace" where
  "confirm_end r tr =
    (case r of
       Inl e \<Rightarrow> (Inl (ConfirmSpawn e), tr)
     | Inr out \<Rightarrow>
         (case checked_output out ConfirmExit tr of
            (Inl e, tr) \<Rightarrow> (Inl e, tr)
          | (Inr _, tr) \<Rightarrow> (Inr (), emit LInfo ''deployment confirmed'' tr)))"

definition confirm_begin :: "deploy_data \<Rightarrow> deploy_defs \<Rightarrow> string \<Rightarrow> trace \<Rightarrow> trace" where
  "confirm_begin d defs temp_path tr = emit LDebug (''confirm-command '' @ confirm_command d defs temp_path) tr"

definition confirm_profile ::
  "deploy_env \<Rightarrow> deploy_data \<Rightarrow> deploy_defs \<Rightarrow> string \<Rightarrow> string \<Rightarrow> trace \<Rightarrow>
    (deploy_error, unit) result \<times> trace" where
  "confirm_profile env d defs temp_path addr tr =
    (case run_command env (ssh_command d addr (confirm_command d defs temp_path)) (confirm_begin d defs temp_path tr) of
       (r, tr) \<Rightarrow> confirm_end r tr)"

definition clear_stale_canary ::
  "deploy_env \<Rightarrow> deploy_data \<Rightarrow> deploy_defs \<Rightarrow> string \<Rightarrow> string \<Rightarrow> trace \<Rightarrow>
    (deploy_error, unit) result \<times> trace" where
  "clear_stale_canary env d defs temp_path addr tr =
    (let cleanup = cleanup_command d defs temp_path;
         tr = emit LDebug (''canary-cleanup-command '' @ cleanup) tr
     in case run_command env (ssh_command d addr cleanup) tr of
          (Inl e, tr) \<Rightarrow> (Inl (CanaryCleanupSpawn e), tr)
        | (Inr out, tr) \<Rightarrow>
            (case checked_output out CanaryCleanupExit tr of
               (Inl e, tr) \<Rightarrow> (Inl e, tr)
             | (Inr _, tr) \<Rightarrow> (Inr (), emit LInfo ''stale deployment canary cleared'' tr)))"

text \<open>A background process that is not awaited any more is dropped: its group is killed. \<open>act\<close> and
  \<open>wt\<close> are the activation and the waiter.\<close>

definition await_activation ::
  "deploy_env \<Rightarrow> command \<Rightarrow> trace \<Rightarrow> (deploy_error, process_output) result \<times> trace" where
  "await_activation env act tr =
    (case finish_command env act tr of
       (Inl e, tr) \<Rightarrow> (Inl (ActivateSpawn e), tr)
     | (Inr out, tr) \<Rightarrow> (Inr out, emit_output out tr))"

definition first_settled ::
  "deploy_env \<Rightarrow> command \<Rightarrow> command \<Rightarrow> trace \<Rightarrow> (deploy_error, bool) result \<times> trace" where
  "first_settled env act wt tr =
    (if de_waiter_first env tr then
       (case finish_command env wt tr of
          (Inl e, tr) \<Rightarrow> (Inl (WaitSpawn e), tr @ [Killed act])
        | (Inr out, tr) \<Rightarrow>
            (case checked_output out WaitExit tr of
               (Inl e, tr) \<Rightarrow> (Inl e, tr @ [Killed act])
             | (Inr _, tr) \<Rightarrow> (Inr False, emit LInfo ''activation waiter complete'' tr)))
     else
       (case await_activation env act tr of
          (Inl e, tr) \<Rightarrow> (Inl e, tr @ [Killed wt])
        | (Inr out, tr) \<Rightarrow>
            if \<not> exit_success (po_status out) then (Inl (ActivateExit (po_status out)), tr @ [Killed wt])
            else (Inr True, emit LDebug ''activation finished before waiter'' tr)))"

text \<open>The confirmation while the activation may still settle: an early return, or the result of the
  confirmation.\<close>

definition confirm_racing ::
  "deploy_env \<Rightarrow> deploy_data \<Rightarrow> deploy_defs \<Rightarrow> string \<Rightarrow> string \<Rightarrow> command \<Rightarrow> trace \<Rightarrow>
    (deploy_error, (deploy_error, unit) result) result \<times> trace" where
  "confirm_racing env d defs temp_path addr act tr =
    (let cc = ssh_command d addr (confirm_command d defs temp_path)
     in case de_confirm_race env tr of
          ActivationSettles started \<Rightarrow>
            let tr = (if started then confirm_begin d defs temp_path tr @ [Spawned cc] else tr);
                drop_confirm = (if started then [Killed cc] else [])
            in (case await_activation env act tr of
                  (Inl e, tr) \<Rightarrow> (Inl e, tr @ drop_confirm)
                | (Inr out, tr) \<Rightarrow>
                    if \<not> exit_success (po_status out) then
                      (Inl (RollbackExit (po_status out)), tr @ drop_confirm)
                    else if started then
                      (case finish_command env cc tr of (r, tr) \<Rightarrow> apfst Inr (confirm_end r tr))
                    else apfst Inr (confirm_profile env d defs temp_path addr tr))
        | ConfirmationSettles \<Rightarrow>
            (case confirm_profile env d defs temp_path addr tr of
               (result, tr) \<Rightarrow>
                 (case await_activation env act tr of
                    (Inl e, tr) \<Rightarrow> (Inl e, tr)
                  | (Inr out, tr) \<Rightarrow>
                      if is_ok result \<and> \<not> exit_success (po_status out) then
                        (Inl (ActivateExit (po_status out)), tr)
                      else (Inr result, tr))))"

definition conclude :: "(deploy_error, unit) result \<Rightarrow> trace \<Rightarrow> (deploy_error, unit) result \<times> trace" where
  "conclude confirmation tr =
    (case confirmation of
       Inl e \<Rightarrow> (Inl e, emit LError ''deployment confirmation failed; activate-rs rolled back'' tr)
     | Inr _ \<Rightarrow> (Inr (), emit LInfo ''activate-complete'' tr))"

definition deploy_magic ::
  "deploy_env \<Rightarrow> deploy_data \<Rightarrow> deploy_defs \<Rightarrow> string \<Rightarrow> string \<Rightarrow> command \<Rightarrow> command \<Rightarrow> trace \<Rightarrow>
    (deploy_error, unit) result \<times> trace" where
  "deploy_magic env d defs temp_path addr act wt tr =
    (case clear_stale_canary env d defs temp_path addr tr of
       (Inl e, tr) \<Rightarrow> (Inl e, tr)
     | (Inr _, tr) \<Rightarrow>
         (case de_spawn_error env tr act of
            Some e \<Rightarrow> (Inl (ActivateSpawn e), tr)
          | None \<Rightarrow>
              let tr = tr @ [Spawned act]
              in case de_spawn_error env tr wt of
                   Some e \<Rightarrow> (Inl (WaitSpawn e), tr @ [Killed act])
                 | None \<Rightarrow>
                     (case first_settled env act wt (tr @ [Spawned wt]) of
                        (Inl e, tr) \<Rightarrow> (Inl e, tr)
                      | (Inr finished, tr) \<Rightarrow>
                          let tr = emit LInfo ''attempting deployment confirmation'' tr
                          in if finished then
                               (case confirm_profile env d defs temp_path addr tr of
                                  (result, tr) \<Rightarrow> apsnd (\<lambda>tr. tr @ [Killed wt]) (conclude result tr))
                             else
                               (case confirm_racing env d defs temp_path addr act tr of
                                  (Inl e, tr) \<Rightarrow> (Inl e, tr)
                                | (Inr result, tr) \<Rightarrow> conclude result tr))))"

definition magic_rollback :: "deploy_data \<Rightarrow> bool" where
  "magic_rollback d = opt_default True (gs_magic_rollback (dd_settings d))"

definition activate_command ::
  "deploy_data \<Rightarrow> deploy_defs \<Rightarrow> profile_info \<Rightarrow> string \<Rightarrow> bool \<Rightarrow> string" where
  "activate_command d defs info temp_path dry = build_activate_command
    \<lparr>ac_sudo = df_sudo defs, ac_profile_info = info, ac_closure = pf_path (dd_profile d),
     ac_auto_rollback = opt_default True (gs_auto_rollback (dd_settings d)), ac_temp_path = temp_path,
     ac_confirm_timeout = opt_default 30 (gs_confirm_timeout (dd_settings d)),
     ac_magic_rollback = magic_rollback d, ac_dry_activate = dry, ac_boot = False\<rparr>"

definition canary_dir :: "deploy_data \<Rightarrow> string" where
  "canary_dir d = opt_default ''/tmp'' (gs_temp_path (dd_settings d))"

definition activation_process :: "deploy_data \<Rightarrow> deploy_defs \<Rightarrow> profile_info \<Rightarrow> bool \<Rightarrow> command" where
  "activation_process d defs info dry =
    ssh_command d (remote_address d defs) (activate_command d defs info (canary_dir d) dry)"

definition wait_command :: "deploy_data \<Rightarrow> deploy_defs \<Rightarrow> string" where
  "wait_command d defs = build_wait_command (df_sudo defs) (pf_path (dd_profile d)) (canary_dir d)
    (gs_activation_timeout (dd_settings d))"

definition waiter_process :: "deploy_data \<Rightarrow> deploy_defs \<Rightarrow> command" where
  "waiter_process d defs = ssh_command d (remote_address d defs) (wait_command d defs)"

definition start_message :: "deploy_data \<Rightarrow> bool \<Rightarrow> string" where
  "start_message d dry = ''activate-start profile='' @ dd_profile_name d @ '' host='' @ dd_node_name d
    @ '' dry='' @ (if dry then ''true'' else ''false'')"

definition deploy_profile ::
  "deploy_env \<Rightarrow> deploy_data \<Rightarrow> deploy_defs \<Rightarrow> bool \<Rightarrow> trace \<Rightarrow> (deploy_error, unit) result \<times> trace" where
  "deploy_profile env d defs dry tr =
    (if gs_interactive_sudo (dd_settings d) = Some True then (Inl InteractiveSudoUnsupported, tr)
     else (case profile_info_of d of
         Inl e \<Rightarrow> (Inl (InvalidDeployData e), tr)
       | Inr info \<Rightarrow>
           let act = activation_process d defs info dry;
               tr = emit LInfo (start_message d dry) tr;
               tr = emit LDebug (''activate-command '' @ activate_command d defs info (canary_dir d) dry) tr
           in if \<not> magic_rollback d \<or> dry then
                (case run_command env act tr of
                   (Inl e, tr) \<Rightarrow> (Inl (ActivateSpawn e), tr)
                 | (Inr out, tr) \<Rightarrow>
                     (case checked_output out ActivateExit tr of
                        (Inl e, tr) \<Rightarrow> (Inl e, tr)
                      | (Inr _, tr) \<Rightarrow> (Inr (), emit LInfo ''activate-complete'' tr)))
              else
                deploy_magic env d defs (canary_dir d) (remote_address d defs) act (waiter_process d defs)
                  (emit LDebug (''wait-command '' @ wait_command d defs) tr)))"

section \<open>Background processes\<close>

text \<open>How many processes a command has in the background.\<close>

definition in_background :: "trace \<Rightarrow> command \<Rightarrow> int" where
  "in_background tr c =
    int (count_if (\<lambda>e. e = Spawned c) tr) - int (count_if (\<lambda>e. e = Killed c \<or> (\<exists>r. e = Finished c r)) tr)"

lemma in_background_append [simp]: "in_background (tr @ es) c = in_background tr c + in_background es c"
  by (simp add: in_background_def count_if_def)

lemma in_background_effects [simp]:
  "in_background [] c = 0"
  "in_background (Emitted l m # es) c = in_background es c"
  "in_background (Ran x r # es) c = in_background es c"
  "in_background (Spawned x # es) c = in_background es c + (if x = c then 1 else 0)"
  "in_background (Finished x r # es) c = in_background es c - (if x = c then 1 else 0)"
  "in_background (Killed x # es) c = in_background es c - (if x = c then 1 else 0)"
  by (auto simp: in_background_def count_if_def)

lemma in_background_emitted [simp]: "in_background (map (Emitted l) ms) c = 0"
  by (induction ms) simp_all

lemma in_background_emit [simp]:
  "in_background (emit l m tr) c = in_background tr c"
  "in_background (emit_output out tr) c = in_background tr c"
  by (simp_all add: emit_def emit_output_def)

lemma in_background_run:
  "run_command env x tr = (r, tr') \<Longrightarrow> in_background tr' c = in_background tr c"
  by (auto simp: run_command_def)

lemma in_background_finish:
  "finish_command env x tr = (r, tr') \<Longrightarrow> in_background tr' c = in_background tr c - (if x = c then 1 else 0)"
  by (auto simp: finish_command_def)

lemma in_background_checked:
  "checked_output out err tr = (r, tr') \<Longrightarrow> in_background tr' c = in_background tr c"
  by (auto simp: checked_output_def split: if_splits)

lemma in_background_confirm_end:
  "confirm_end r tr = (x, tr') \<Longrightarrow> in_background tr' c = in_background tr c"
  by (auto simp: confirm_end_def in_background_checked split: sum.splits prod.splits)

lemma in_background_confirm:
  "confirm_profile env d defs t a tr = (x, tr') \<Longrightarrow> in_background tr' c = in_background tr c"
  by (auto simp: confirm_profile_def confirm_begin_def in_background_run in_background_confirm_end
      split: prod.splits)

lemma in_background_cleanup:
  "clear_stale_canary env d defs t a tr = (x, tr') \<Longrightarrow> in_background tr' c = in_background tr c"
  by (auto simp: clear_stale_canary_def Let_def in_background_run in_background_checked
      split: sum.splits prod.splits)

lemma in_background_await:
  "await_activation env act tr = (r, tr') \<Longrightarrow>
    in_background tr' c = in_background tr c - (if act = c then 1 else 0)"
  by (auto simp: await_activation_def in_background_finish split: sum.splits prod.splits)

lemma in_background_conclude:
  "conclude x tr = (r, tr') \<Longrightarrow> in_background tr' c = in_background tr c"
  by (auto simp: conclude_def split: sum.splits)

lemma in_background_first:
  assumes "first_settled env act wt tr = (r, tr')"
  shows "in_background tr' c = in_background tr c -
    (case r of
       Inl _ \<Rightarrow> (if act = c then 1 else 0) + (if wt = c then 1 else 0)
     | Inr finished \<Rightarrow> if finished then (if act = c then 1 else 0) else (if wt = c then 1 else 0))"
proof (cases "de_waiter_first env tr")
  case True
  then show ?thesis using assms
    by (auto simp: first_settled_def in_background_finish in_background_checked
        split: sum.splits prod.splits)
next
  case False
  then show ?thesis using assms
    by (auto simp: first_settled_def in_background_await split: sum.splits prod.splits if_splits)
qed

lemma in_background_racing:
  assumes "confirm_racing env d defs t a act tr = (r, tr')"
  shows "in_background tr' c = in_background tr c - (if act = c then 1 else 0)"
proof (cases "de_confirm_race env tr")
  case (ActivationSettles started)
  obtain x tr1 where x: "await_activation env act (if started
      then confirm_begin d defs t tr @ [Spawned (ssh_command d a (confirm_command d defs t))] else tr) = (x, tr1)"
    by fastforce
  then show ?thesis using assms ActivationSettles
    by (cases started)
      (auto simp: confirm_racing_def Let_def in_background_await in_background_finish in_background_confirm_end
        in_background_confirm confirm_begin_def apfst_def map_prod_def
        split: sum.splits prod.splits if_splits)
next
  case ConfirmationSettles
  then show ?thesis using assms
    by (auto simp: confirm_racing_def Let_def in_background_await in_background_confirm
        split: sum.splits prod.splits if_splits)
qed

lemma in_background_magic:
  assumes "deploy_magic env d defs t a act wt tr = (r, tr')"
  shows "in_background tr' c = in_background tr c"
proof -
  show ?thesis using assms
    by (auto simp: deploy_magic_def Let_def in_background_cleanup in_background_first in_background_confirm
        in_background_racing in_background_conclude apsnd_def map_prod_def
        split: sum.splits prod.splits if_splits option.splits)
qed

lemma in_background_deploy:
  "deploy_profile env d defs dry tr = (r, tr') \<Longrightarrow> in_background tr' c = in_background tr c"
  by (auto simp: deploy_profile_def Let_def in_background_run in_background_checked in_background_magic
      split: sum.splits prod.splits if_splits)

section \<open>What was run\<close>

fun succeeded :: "(string, process_output) result \<Rightarrow> bool" where
  "succeeded (Inl _) = False"
| "succeeded (Inr out) = exit_success (po_status out)"

fun commands_run :: "trace \<Rightarrow> (command \<times> (string, process_output) result) list" where
  "commands_run [] = []"
| "commands_run (Ran c r # es) = (c, r) # commands_run es"
| "commands_run (_ # es) = commands_run es"

lemma commands_run_append [simp]: "commands_run (tr @ es) = commands_run tr @ commands_run es"
  by (induction tr rule: commands_run.induct) simp_all

lemma commands_run_emitted [simp]: "commands_run (map (Emitted l) ms) = []"
  by (induction ms) simp_all

lemma commands_run_emit [simp]:
  "commands_run (emit l m tr) = commands_run tr"
  "commands_run (emit_output out tr) = commands_run tr"
  by (simp_all add: emit_def emit_output_def)

lemma run_command_eq:
  "run_command env c tr = (r, tr') \<longleftrightarrow> r = de_output env tr c \<and> tr' = tr @ [Ran c r]"
  by (auto simp: run_command_def)

lemma finish_command_eq:
  "finish_command env c tr = (r, tr') \<longleftrightarrow> r = de_output env tr c \<and> tr' = tr @ [Finished c r]"
  by (auto simp: finish_command_def)

lemma preflight_run:
  "resolve_preflight env d defs dry tr = (r, tr') \<Longrightarrow>
    \<exists>out. commands_run tr' = commands_run tr @ [(ssh_command d (remote_address d defs) (preflight_command d defs), out)] \<and>
      (\<forall>disp. r = Inr disp \<longrightarrow> disp = live_disposition dry (\<not> succeeded out))"
  by (auto simp: resolve_preflight_def Let_def run_command_eq split: sum.splits prod.splits if_splits)

lemma disposition_run:
  assumes "resolve_activation_disposition env d defs dry boot tr = (Inr disp, tr')"
  shows "(boot \<and> tr' = tr \<and> disp = live_disposition dry True) \<or>
    (\<not> boot \<and> (\<exists>out. po_status out = ExitCode 1 \<and> disp = live_disposition dry False \<and> commands_run tr' =
      commands_run tr @ [(ssh_command d (remote_address d defs) (capability_command d), Inr out)])) \<or>
    (\<not> boot \<and> (\<exists>out check. exit_success (po_status out) \<and> disp = live_disposition dry (\<not> succeeded check) \<and>
      commands_run tr' = commands_run tr @ [(ssh_command d (remote_address d defs) (capability_command d), Inr out),
        (ssh_command d (remote_address d defs) (preflight_command d defs), check)]))"
proof (cases boot)
  case False
  have code: "exit_code s = Some n \<longleftrightarrow> s = ExitCode n" for s n by (cases s) auto
  obtain r tr1 where r: "run_command env (ssh_command d (remote_address d defs) (capability_command d))
      (emit LDebug (''switch-capability-command '' @ capability_command d) tr) = (r, tr1)" by fastforce
  then obtain out where out: "r = Inr out"
    using assms False by (cases r) (auto simp: resolve_activation_disposition_def)
  have C: "commands_run tr1 = commands_run tr @
      [(ssh_command d (remote_address d defs) (capability_command d), Inr out)]"
    using r out by (auto simp: run_command_eq)
  show ?thesis
  proof (cases "po_status out = ExitCode 0")
    case True
    then show ?thesis
      using assms False r out C preflight_run [of env d defs dry "emit_output out tr1" "Inr disp" tr']
      by (auto simp: resolve_activation_disposition_def exit_success_def)
  next
    case ne: False
    then show ?thesis
      using assms False r out C
      by (auto simp: resolve_activation_disposition_def Let_def code split: if_splits)
  qed
qed (use assms in \<open>auto simp: resolve_activation_disposition_def\<close>)

lemma boot_command_run:
  assumes "boot_stage_command env d a label remote tr = (r, tr')"
  shows "\<exists>out. commands_run tr' = commands_run tr @ [(ssh_command d a remote, out)] \<and>
    (is_ok r \<longleftrightarrow> succeeded out) \<and> (\<forall>e. r = Inl e \<longrightarrow> prefix label e)"
  using assms
  by (auto simp: boot_stage_command_def Let_def run_command_eq split: sum.splits prod.splits if_splits)

lemma recover_run:
  assumes "recover_boot_stage env d defs a ppath previous tr = (msg, tr')"
  shows "\<exists>r1 r2. commands_run tr' = commands_run tr @
      [(ssh_command d a (set_profile_command defs ppath previous), r1),
       (ssh_command d a (boot_default_command defs previous), r2)] \<and>
    (msg = ''restored previous profile and boot default'' \<longleftrightarrow> succeeded r1 \<and> succeeded r2)"
proof -
  obtain x1 tr1 where 1: "boot_stage_command env d a ''boot-recovery-profile''
      (set_profile_command defs ppath previous) tr = (x1, tr1)" by fastforce
  obtain x2 tr2 where 2: "boot_stage_command env d a ''boot-recovery-default''
      (boot_default_command defs previous) tr1 = (x2, tr2)" by fastforce
  have lst: "join sep (x # xs) = x @ concat (map (\<lambda>y. sep @ y) xs)" for sep x :: string and xs
    by (induction xs arbitrary: x) simp_all
  show ?thesis
    using boot_command_run [OF 1] boot_command_run [OF 2] assms
    by (cases x1; cases x2) (auto simp: recover_boot_stage_def 1 2 prefix_def lst)
qed

text \<open>The store path that the resolution of the profile has printed.\<close>

definition resolved_profile :: "(string, process_output) result \<Rightarrow> string \<Rightarrow> bool" where
  "resolved_profile r previous \<longleftrightarrow>
    (\<exists>out. r = Inr out \<and> exit_success (po_status out) \<and> previous = trim (utf8_lossy (po_stdout out)) \<and>
      prefix ''/nix/store/'' previous)"

definition boot_stage_log :: "deploy_data \<Rightarrow> deploy_defs \<Rightarrow> string \<Rightarrow> string \<Rightarrow>
    (command \<times> (string, process_output) result) list \<Rightarrow> (deploy_error, unit) result \<Rightarrow> bool" where
  "boot_stage_log d defs a ppath log r \<longleftrightarrow>
    (let resolve = ssh_command d a (resolve_command defs ppath);
         set_to = (\<lambda>x. ssh_command d a (set_profile_command defs ppath x));
         default_to = (\<lambda>x. ssh_command d a (boot_default_command defs x)); new = pf_path (dd_profile d)
     in case r of
       Inr _ \<Rightarrow> \<exists>r0 r1 r2 previous. log = [(resolve, r0), (set_to new, r1), (default_to new, r2)] \<and>
         resolved_profile r0 previous \<and> succeeded r1 \<and> succeeded r2
     | Inl (BootStage primary recovery) \<Rightarrow>
         \<exists>r0 previous tried r1 r2. resolved_profile r0 previous \<and>
           log = (resolve, r0) # tried @ [(set_to previous, r1), (default_to previous, r2)] \<and>
           ((\<exists>x. tried = [(set_to new, x)] \<and> \<not> succeeded x) \<or>
            (\<exists>x y. tried = [(set_to new, x), (default_to new, y)] \<and> succeeded x \<and> \<not> succeeded y)) \<and>
           (recovery = ''restored previous profile and boot default'' \<longleftrightarrow> succeeded r1 \<and> succeeded r2)
     | Inl _ \<Rightarrow> log = [] \<or> (\<exists>r0. log = [(resolve, r0)]))"

lemma previous_run:
  assumes "previous_profile env d defs a ppath tr = (r, tr')"
  shows "\<exists>out. commands_run tr' = commands_run tr @ [(ssh_command d a (resolve_command defs ppath), out)] \<and>
    (\<forall>p. r = Inr p \<longrightarrow> resolved_profile out p) \<and>
    (\<forall>e p q. r = Inl e \<longrightarrow> e \<noteq> BootStage p q)"
  using assms
  by (auto simp: previous_profile_def Let_def run_command_eq starts_with_iff resolved_profile_def
      split: sum.splits prod.splits if_splits)

lemma recovered_run:
  assumes "recovered env d defs a ppath previous primary tr = (r, tr')"
  shows "\<exists>r1 r2 msg. r = Inl (BootStage primary msg) \<and> commands_run tr' = commands_run tr @
      [(ssh_command d a (set_profile_command defs ppath previous), r1),
       (ssh_command d a (boot_default_command defs previous), r2)] \<and>
    (msg = ''restored previous profile and boot default'' \<longleftrightarrow> succeeded r1 \<and> succeeded r2)"
  using assms recover_run [of env d defs a ppath previous tr]
  by (auto simp: recovered_def split: prod.splits)

lemma stage_run:
  assumes "stage_profile_for_boot env d defs tr = (r, tr')" and "profile_info_of d = Inr info"
  shows "\<exists>log. commands_run tr' = commands_run tr @ log \<and>
    boot_stage_log d defs (remote_address d defs) (profile_path info) log r"
proof (cases "gs_interactive_sudo (dd_settings d) = Some True")
  case True
  then show ?thesis using assms by (auto simp: stage_profile_for_boot_def boot_stage_log_def)
next
  case False
  let ?a = "remote_address d defs" and ?p = "profile_path info" and ?c = "pf_path (dd_profile d)"
  obtain x0 t0 where 0: "previous_profile env d defs ?a ?p tr = (x0, t0)" by fastforce
  obtain r0 where R0: "commands_run t0 = commands_run tr @ [(ssh_command d ?a (resolve_command defs ?p), r0)]"
    "\<And>p. x0 = Inr p \<Longrightarrow> resolved_profile r0 p" "\<And>e p q. x0 = Inl e \<Longrightarrow> e \<noteq> BootStage p q"
    using previous_run [OF 0] by blast
  show ?thesis
  proof (cases x0)
    case (Inl e)
    then have "r = Inl e" "tr' = t0" using assms False 0 by (simp_all add: stage_profile_for_boot_def)
    moreover have "\<forall>p q. e \<noteq> BootStage p q" using R0(3) [OF Inl] by blast
    ultimately show ?thesis using R0(1) by (cases e) (simp_all add: boot_stage_log_def)
  next
    case (Inr previous)
    note named = R0(2) [OF Inr]
    obtain x1 t1 where 1: "boot_stage_command env d ?a ''boot-stage-profile''
        (set_profile_command defs ?p ?c) t0 = (x1, t1)" by fastforce
    obtain r1 where R1: "commands_run t1 = commands_run t0 @ [(ssh_command d ?a (set_profile_command defs ?p ?c), r1)]"
      "is_ok x1 \<longleftrightarrow> succeeded r1" using boot_command_run [OF 1] by blast
    obtain x2 t2 where 2: "boot_stage_command env d ?a ''boot-stage-default''
        (boot_default_command defs ?c) t1 = (x2, t2)" by fastforce
    obtain r2 where R2: "commands_run t2 = commands_run t1 @ [(ssh_command d ?a (boot_default_command defs ?c), r2)]"
      "is_ok x2 \<longleftrightarrow> succeeded r2" using boot_command_run [OF 2] by blast
    consider (set) e where "x1 = Inl e" | (default) e where "x1 = Inr ()" "x2 = Inl e" | (staged) "x1 = Inr ()" "x2 = Inr ()"
      by (cases x1; cases x2) auto
    then show ?thesis
    proof cases
      case set
      then have "recovered env d defs ?a ?p previous e t1 = (r, tr')"
        using assms False 0 Inr 1 by (simp add: stage_profile_for_boot_def)
      from recovered_run [OF this] show ?thesis
        using R0(1) R1 set named by (force simp: boot_stage_log_def)
    next
      case default
      then have "recovered env d defs ?a ?p previous e t2 = (r, tr')"
        using assms False 0 Inr 1 2 by (simp add: stage_profile_for_boot_def)
      from recovered_run [OF this] show ?thesis
        using R0(1) R1 R2 default named by (force simp: boot_stage_log_def)
    next
      case staged
      then have "r = Inr ()" "commands_run tr' = commands_run t2"
        using assms False 0 Inr 1 2 by (auto simp: stage_profile_for_boot_def)
      then show ?thesis using R0(1) R1 R2 staged named by (auto simp: boot_stage_log_def)
    qed
  qed
qed

section \<open>A confirmed activation\<close>

definition canary_cleared :: "deploy_data \<Rightarrow> deploy_defs \<Rightarrow> string \<Rightarrow> string \<Rightarrow> trace \<Rightarrow> bool" where
  "canary_cleared d defs t a es \<longleftrightarrow>
    (\<exists>r. Ran (ssh_command d a (cleanup_command d defs t)) r \<in> set es \<and> succeeded r)"

definition confirmed :: "deploy_data \<Rightarrow> deploy_defs \<Rightarrow> string \<Rightarrow> string \<Rightarrow> trace \<Rightarrow> bool" where
  "confirmed d defs t a es \<longleftrightarrow>
    (\<exists>r. (Ran (ssh_command d a (confirm_command d defs t)) r \<in> set es \<or>
          Finished (ssh_command d a (confirm_command d defs t)) r \<in> set es) \<and> succeeded r)"

definition settled_well :: "command \<Rightarrow> trace \<Rightarrow> bool" where
  "settled_well c es \<longleftrightarrow> (\<exists>r. Finished c r \<in> set es \<and> succeeded r)"

lemma settled_wellI:
  "Finished c (Inr out) \<in> set es \<Longrightarrow> exit_success (po_status out) \<Longrightarrow> settled_well c es"
  unfolding settled_well_def by (intro exI [of _ "Inr out"]) simp

lemma canary_clearedI:
  "Ran (ssh_command d a (cleanup_command d defs t)) (Inr out) \<in> set es \<Longrightarrow> exit_success (po_status out) \<Longrightarrow>
    canary_cleared d defs t a es"
  unfolding canary_cleared_def by (intro exI [of _ "Inr out"]) simp

lemma settled_well_append [simp]: "settled_well c (xs @ ys) \<longleftrightarrow> settled_well c xs \<or> settled_well c ys"
  by (auto simp: settled_well_def)

lemma settled_well_Cons: "settled_well c ys \<Longrightarrow> settled_well c (x # ys)"
  by (auto simp: settled_well_def)

lemma confirmed_append [simp]:
  "confirmed d defs t a (xs @ ys) \<longleftrightarrow> confirmed d defs t a xs \<or> confirmed d defs t a ys"
  by (auto simp: confirmed_def)

lemma confirmed_Cons: "confirmed d defs t a ys \<Longrightarrow> confirmed d defs t a (x # ys)"
  by (auto simp: confirmed_def)

lemma emit_append: "emit l m tr = tr @ [Emitted l m]"
  by (rule emit_def)

lemma emit_output_append: "\<exists>es. emit_output out tr = tr @ es"
  by (auto simp: emit_output_def)

lemma checked_ok:
  "checked_output out err tr = (r, tr') \<Longrightarrow>
    (\<exists>es. tr' = tr @ es) \<and> (\<forall>u. r = Inr u \<longrightarrow> exit_success (po_status out)) \<and>
    (\<forall>e. r = Inl e \<longrightarrow> e = err (po_status out))"
  by (auto simp: checked_output_def emit_output_def split: if_splits)

lemma canary_ok:
  assumes "clear_stale_canary env d defs t a tr = (r, tr')"
  shows "\<exists>es. tr' = tr @ es \<and> (\<forall>u. r = Inr u \<longrightarrow> canary_cleared d defs t a es) \<and>
    (\<forall>e. r = Inl e \<longrightarrow> \<not> rolled_back e)"
proof -
  let ?c = "ssh_command d a (cleanup_command d defs t)"
  obtain x tr1 where x: "run_command env ?c (emit LDebug (''canary-cleanup-command '' @ cleanup_command d defs t) tr) = (x, tr1)"
    by fastforce
  then have tr1: "tr1 = tr @ [Emitted LDebug (''canary-cleanup-command '' @ cleanup_command d defs t), Ran ?c x]"
    by (simp add: run_command_eq emit_append)
  show ?thesis
  proof (cases x)
    case (Inl e)
    then show ?thesis using assms x tr1 by (auto simp: clear_stale_canary_def Let_def)
  next
    case (Inr out)
    obtain y tr2 where y: "checked_output out CanaryCleanupExit tr1 = (y, tr2)" by fastforce
    from checked_ok [OF y] show ?thesis using assms x tr1 Inr y
      by (cases y) (auto simp: clear_stale_canary_def Let_def emit_append intro!: canary_clearedI)
  qed
qed

lemma confirm_end_ok:
  assumes "confirm_end x tr = (r, tr')"
  shows "\<exists>es. tr' = tr @ es \<and> (\<forall>u. r = Inr u \<longrightarrow> succeeded x) \<and> (\<forall>e. r = Inl e \<longrightarrow> rolled_back e)"
proof (cases x)
  case (Inl e)
  then show ?thesis using assms by (auto simp: confirm_end_def)
next
  case (Inr out)
  obtain y tr2 where y: "checked_output out ConfirmExit tr = (y, tr2)" by fastforce
  from checked_ok [OF y] show ?thesis using assms Inr y
    by (cases y) (auto simp: confirm_end_def emit_append)
qed

lemma confirm_ok:
  assumes "confirm_profile env d defs t a tr = (r, tr')"
  shows "\<exists>es. tr' = tr @ es \<and> (\<forall>u. r = Inr u \<longrightarrow> confirmed d defs t a es) \<and> (\<forall>e. r = Inl e \<longrightarrow> rolled_back e)"
proof -
  let ?c = "ssh_command d a (confirm_command d defs t)"
  obtain x tr1 where x: "run_command env ?c (confirm_begin d defs t tr) = (x, tr1)" by fastforce
  then have "tr1 = tr @ [Emitted LDebug (''confirm-command '' @ confirm_command d defs t), Ran ?c x]"
    by (simp add: run_command_eq confirm_begin_def emit_append)
  then show ?thesis
    using confirm_end_ok [of x tr1 r tr'] assms x
    by (auto simp: confirm_profile_def confirmed_def)
qed

lemma await_ok:
  assumes "await_activation env act tr = (r, tr')"
  shows "\<exists>es x. tr' = tr @ es \<and> Finished act x \<in> set es \<and>
    (\<forall>out. r = Inr out \<longrightarrow> x = Inr out) \<and> (\<forall>e. r = Inl e \<longrightarrow> \<not> rolled_back e)"
proof -
  obtain x tr1 where x: "finish_command env act tr = (x, tr1)" by fastforce
  then have tr1: "tr1 = tr @ [Finished act x]" by (simp add: finish_command_eq)
  show ?thesis
  proof (cases x)
    case (Inl e)
    then show ?thesis using assms x tr1 by (auto simp: await_activation_def)
  next
    case (Inr out)
    obtain es where "emit_output out tr1 = tr1 @ es" using emit_output_append by blast
    then show ?thesis using assms x tr1 Inr
      by (intro exI [of _ "Finished act x # es"] exI [of _ x]) (auto simp: await_activation_def)
  qed
qed

lemma first_ok:
  assumes "first_settled env act wt tr = (r, tr')"
  shows "\<exists>es. tr' = tr @ es \<and> (\<forall>f. r = Inr f \<longrightarrow> settled_well (if f then act else wt) es) \<and>
    (\<forall>e. r = Inl e \<longrightarrow> \<not> rolled_back e)"
proof (cases "de_waiter_first env tr")
  case True
  obtain x tr1 where x: "finish_command env wt tr = (x, tr1)" by fastforce
  then have tr1: "tr1 = tr @ [Finished wt x]" by (simp add: finish_command_eq)
  show ?thesis
  proof (cases x)
    case (Inl e)
    then show ?thesis using assms True x tr1 by (auto simp: first_settled_def)
  next
    case (Inr out)
    obtain y tr2 where y: "checked_output out WaitExit tr1 = (y, tr2)" by fastforce
    from checked_ok [OF y] show ?thesis using assms True x tr1 Inr y
      by (cases y) (auto simp: first_settled_def emit_append intro!: settled_wellI)
  qed
next
  case False
  obtain x tr1 where x: "await_activation env act tr = (x, tr1)" by fastforce
  obtain es y where es: "tr1 = tr @ es" "Finished act y \<in> set es" "\<forall>out. x = Inr out \<longrightarrow> y = Inr out"
    "\<forall>e. x = Inl e \<longrightarrow> \<not> rolled_back e"
    using await_ok [OF x] by blast
  show ?thesis
  proof (cases x)
    case (Inl e)
    then show ?thesis using assms False x es by (auto simp: first_settled_def)
  next
    case (Inr out)
    then have "exit_success (po_status out) \<Longrightarrow> settled_well act es"
      using es by (force simp: settled_well_def)
    then show ?thesis using assms False x es Inr
      by (auto simp: first_settled_def settled_well_def emit_append split: if_splits)
  qed
qed

lemma racing_ok:
  assumes "confirm_racing env d defs t a act tr = (r, tr')"
  shows "\<exists>es. tr' = tr @ es \<and> (\<forall>u. r = Inr (Inr u) \<longrightarrow> settled_well act es \<and> confirmed d defs t a es) \<and>
    (\<forall>e. r = Inr (Inl e) \<longrightarrow> rolled_back e)"
proof (cases "de_confirm_race env tr")
  case (ActivationSettles started)
  let ?c = "ssh_command d a (confirm_command d defs t)"
  let ?tr = "if started then confirm_begin d defs t tr @ [Spawned ?c] else tr"
  obtain x tr1 where x: "await_activation env act ?tr = (x, tr1)" by fastforce
  obtain pre where pre: "?tr = tr @ pre" by (cases started) (auto simp: confirm_begin_def emit_append)
  obtain es0 y0 where "tr1 = ?tr @ es0" "Finished act y0 \<in> set es0" "\<forall>out. x = Inr out \<longrightarrow> y0 = Inr out"
    using await_ok [OF x] by blast
  then have es: "tr1 = tr @ (pre @ es0)" "\<And>out. x = Inr out \<Longrightarrow> Finished act (Inr out) \<in> set (pre @ es0)"
    unfolding pre by auto
  define es where "es = pre @ es0"
  note es = es [folded es_def]
  show ?thesis
  proof (cases x)
    case (Inl e)
    then show ?thesis using assms ActivationSettles x es by (auto simp: confirm_racing_def Let_def)
  next
    case (Inr out)
    show ?thesis
    proof (cases "exit_success (po_status out)")
      case True
      then have well: "settled_well act es" using es Inr by (auto intro: settled_wellI)
      show ?thesis
      proof (cases started)
        case True
        obtain y tr2 where y: "finish_command env ?c tr1 = (y, tr2)" by fastforce
        then have tr2: "tr2 = tr1 @ [Finished ?c y]" by (simp add: finish_command_eq)
        obtain z tr3 where z: "confirm_end y tr2 = (z, tr3)" by fastforce
        obtain es' where es': "tr3 = tr2 @ es'" "\<And>u. z = Inr u \<Longrightarrow> succeeded y" "\<And>e. z = Inl e \<Longrightarrow> rolled_back e"
          using confirm_end_ok [OF z] by auto
        have "r = Inr z" "tr' = tr3"
          using assms ActivationSettles x Inr True \<open>exit_success _\<close> y z
          by (auto simp: confirm_racing_def Let_def)
        moreover have "confirmed d defs t a (es @ Finished ?c y # es')" if "z = Inr u" for u
          using es'(2) [OF that] by (auto simp: confirmed_def)
        ultimately show ?thesis using es tr2 es' well
          by (intro exI [of _ "es @ Finished ?c y # es'"]) simp
      next
        case False
        obtain w tr4 where w: "confirm_profile env d defs t a tr1 = (w, tr4)" by fastforce
        obtain es' where es': "tr4 = tr1 @ es'" "\<And>u. w = Inr u \<Longrightarrow> confirmed d defs t a es'"
          "\<And>e. w = Inl e \<Longrightarrow> rolled_back e" using confirm_ok [OF w] by (elim exE conjE, intro that) simp_all
        have "r = Inr w" "tr' = tr4"
          using assms ActivationSettles x Inr False \<open>exit_success _\<close> w
          by (auto simp: confirm_racing_def Let_def)
        then show ?thesis using es es' well by (intro exI [of _ "es @ es'"]) simp
      qed
    next
      case False
      then show ?thesis using assms ActivationSettles x es Inr
        by (auto simp: confirm_racing_def Let_def)
    qed
  qed
next
  case ConfirmationSettles
  obtain w tr1 where w: "confirm_profile env d defs t a tr = (w, tr1)" by fastforce
  obtain x tr2 where x: "await_activation env act tr1 = (x, tr2)" by fastforce
  obtain es1 where 1: "tr1 = tr @ es1" "\<forall>u. w = Inr u \<longrightarrow> confirmed d defs t a es1"
    "\<forall>e. w = Inl e \<longrightarrow> rolled_back e" using confirm_ok [OF w] by blast
  obtain es2 y where 2: "tr2 = tr1 @ es2" "Finished act y \<in> set es2" "\<forall>out. x = Inr out \<longrightarrow> y = Inr out"
    using await_ok [OF x] by blast
  show ?thesis
  proof (cases x)
    case (Inl e)
    then show ?thesis using assms ConfirmationSettles w x 1 2 by (auto simp: confirm_racing_def)
  next
    case (Inr out)
    then have "exit_success (po_status out) \<Longrightarrow> settled_well act (es1 @ es2)"
      using 2 by (force simp: settled_well_def)
    moreover have "w = Inr u \<Longrightarrow> confirmed d defs t a (es1 @ es2)" for u
      using 1 by (auto simp: confirmed_def)
    ultimately show ?thesis using assms ConfirmationSettles w x 1 2 Inr
      by (cases w) (auto simp: confirm_racing_def split: if_splits)
  qed
qed


lemma conclude_ok:
  "conclude x tr = (r, tr') \<Longrightarrow> r = x \<and> (\<exists>es. tr' = tr @ es)"
  by (auto simp: conclude_def emit_append split: sum.splits)

definition live_swap :: "deploy_data \<Rightarrow> deploy_defs \<Rightarrow> string \<Rightarrow> string \<Rightarrow> command \<Rightarrow> trace \<Rightarrow> bool" where
  "live_swap d defs t a act es \<longleftrightarrow>
    (\<exists>pre post. es = pre @ Spawned act # post \<and> canary_cleared d defs t a pre \<and>
      settled_well act post \<and> confirmed d defs t a post)"

text \<open>A rollback verdict: the new generation was live, and then the activation failed or the
  confirmation did.\<close>

definition went_live :: "command \<Rightarrow> command \<Rightarrow> trace \<Rightarrow> bool" where
  "went_live act wt es \<longleftrightarrow>
    (\<exists>pre post. es = pre @ Spawned act # post \<and> (settled_well wt post \<or> settled_well act post))"

lemma live_swapI:
  "canary_cleared d defs t a pre \<Longrightarrow> settled_well act post \<Longrightarrow> confirmed d defs t a post \<Longrightarrow>
    live_swap d defs t a act (pre @ Spawned act # post)"
  unfolding live_swap_def by blast

lemma went_liveI:
  "settled_well wt post \<or> settled_well act post \<Longrightarrow> went_live act wt (pre @ Spawned act # post)"
  unfolding went_live_def by blast

lemma magic_ok:
  assumes "deploy_magic env d defs t a act wt tr = (r, tr')"
  shows "\<exists>es. tr' = tr @ es \<and> (\<forall>u. r = Inr u \<longrightarrow> live_swap d defs t a act es) \<and>
    (\<forall>e. r = Inl e \<longrightarrow> rolled_back e \<longrightarrow> went_live act wt es)"
proof -
  obtain x0 t0 where 0: "clear_stale_canary env d defs t a tr = (x0, t0)" by fastforce
  obtain e0 where e0: "t0 = tr @ e0" "\<forall>u. x0 = Inr u \<longrightarrow> canary_cleared d defs t a e0"
    "\<forall>e. x0 = Inl e \<longrightarrow> \<not> rolled_back e" using canary_ok [OF 0] by auto
  let ?t1 = "t0 @ [Spawned act]" and ?t2 = "t0 @ [Spawned act, Spawned wt]"
  consider e where "x0 = Inl e" | e where "x0 = Inr ()" "de_spawn_error env t0 act = Some e"
    | e where "x0 = Inr ()" "de_spawn_error env t0 act = None" "de_spawn_error env ?t1 wt = Some e"
    | "x0 = Inr ()" "de_spawn_error env t0 act = None" "de_spawn_error env ?t1 wt = None"
    by (cases x0; cases "de_spawn_error env t0 act"; cases "de_spawn_error env ?t1 wt") auto
  then show ?thesis
  proof cases
    case 4
    obtain x1 t1 where 1: "first_settled env act wt ?t2 = (x1, t1)" by fastforce
    obtain e1 where e1: "t1 = ?t2 @ e1" "\<And>f. x1 = Inr f \<Longrightarrow> settled_well (if f then act else wt) e1"
      "\<forall>e. x1 = Inl e \<longrightarrow> \<not> rolled_back e" using first_ok [OF 1] by (elim exE conjE, intro that) simp_all
    note flow = assms 0 4 1
    show ?thesis
    proof (cases x1)
      case (Inl e)
      then show ?thesis using flow e0 e1 by (auto simp: deploy_magic_def)
    next
      case (Inr f)
      let ?m = "emit LInfo ''attempting deployment confirmation'' t1"
      obtain m where m: "?m = t1 @ [m]" by (simp add: emit_append)
      show ?thesis
      proof (cases f)
        case True
        obtain x2 t2 where 2: "confirm_profile env d defs t a ?m = (x2, t2)" by fastforce
        obtain e2 where e2: "t2 = ?m @ e2" "\<And>u. x2 = Inr u \<Longrightarrow> confirmed d defs t a e2"
          using confirm_ok [OF 2] by (elim exE conjE, intro that) simp_all
        obtain x3 t3 where 3: "conclude x2 t2 = (x3, t3)" by fastforce
        obtain e3 where e3: "x3 = x2" "t3 = t2 @ e3" using conclude_ok [OF 3] by blast
        have res: "r = x2" "tr' = t3 @ [Killed wt]"
          using flow Inr True 2 3 e3 by (simp_all add: deploy_magic_def Let_def)
        let ?post = "Spawned wt # e1 @ m # e2 @ e3 @ [Killed wt]"
        have tr': "tr' = tr @ (e0 @ Spawned act # ?post)" using res e0 e1 e2 e3 m by simp
        have well: "settled_well act ?post" using e1(2) [OF Inr] True by (simp add: settled_well_Cons)
        have "live_swap d defs t a act (e0 @ Spawned act # ?post)" if "r = Inr u" for u
          using e2(2) [of u] res that well e0(2) 4(1) by (intro live_swapI) (simp_all add: confirmed_Cons)
        then show ?thesis using tr' well went_liveI [of wt ?post act e0]
          by (intro exI [of _ "e0 @ Spawned act # ?post"] conjI allI impI) simp_all
      next
        case False
        obtain x2 t2 where 2: "confirm_racing env d defs t a act ?m = (x2, t2)" by fastforce
        obtain e2 where e2: "t2 = ?m @ e2"
          "\<And>u. x2 = Inr (Inr u) \<Longrightarrow> settled_well act e2 \<and> confirmed d defs t a e2"
          using racing_ok [OF 2] by (elim exE conjE, intro that) simp_all
        obtain e3 where res: "tr' = t2 @ e3" "\<And>u. r = Inr u \<Longrightarrow> x2 = Inr (Inr u)"
        proof (cases x2)
          case (Inl e)
          then have "r = Inl e" "tr' = t2"
            using flow False 2 \<open>x1 = Inr f\<close> by (simp_all add: deploy_magic_def Let_def)
          then show thesis by (intro that [of "[]"]) simp_all
        next
          case (Inr x)
          obtain x3 t3 where 3: "conclude x t2 = (x3, t3)" by fastforce
          then have "r = x3" "tr' = t3"
            using flow False 2 \<open>x1 = Inr f\<close> Inr by (simp_all add: deploy_magic_def Let_def)
          then show thesis using conclude_ok [OF 3] Inr by (elim exE conjE) (intro that, simp_all)
        qed
        let ?post = "Spawned wt # e1 @ m # e2 @ e3"
        have tr': "tr' = tr @ (e0 @ Spawned act # ?post)" using res e0 e1 e2 m by simp
        have well: "settled_well wt ?post" using e1(2) [OF Inr] False by (simp add: settled_well_Cons)
        have "live_swap d defs t a act (e0 @ Spawned act # ?post)" if "r = Inr u" for u
          using e2(2) [OF res(2) [OF that]] e0(2) 4(1)
          by (intro live_swapI) (simp_all add: confirmed_Cons settled_well_Cons)
        then show ?thesis using tr' well went_liveI [of wt ?post act e0]
          by (intro exI [of _ "e0 @ Spawned act # ?post"] conjI allI impI) simp_all
      qed
    qed
  qed (use assms 0 e0 in \<open>auto simp: deploy_magic_def\<close>)
qed


lemma live_swap_append: "live_swap d defs t a act es \<Longrightarrow> live_swap d defs t a act (ms @ es)"
  by (auto simp: live_swap_def canary_cleared_def) (metis append_assoc UnI2 set_append)

lemma went_live_append: "went_live act wt es \<Longrightarrow> went_live act wt (ms @ es)"
  unfolding went_live_def by (metis append_assoc)

lemma deploy_run:
  assumes "deploy_profile env d defs dry tr = (r, tr')" and "profile_info_of d = Inr info"
  shows "\<exists>es. tr' = tr @ es \<and>
    (\<forall>u. r = Inr u \<longrightarrow>
      (if magic_rollback d \<and> \<not> dry
       then live_swap d defs (canary_dir d) (remote_address d defs) (activation_process d defs info dry) es
       else \<exists>out. commands_run es = [(activation_process d defs info dry, Inr out)] \<and>
         exit_success (po_status out))) \<and>
    (\<forall>e. r = Inl e \<longrightarrow> rolled_back e \<longrightarrow>
      magic_rollback d \<and> \<not> dry \<and> went_live (activation_process d defs info dry) (waiter_process d defs) es)"
proof (cases "gs_interactive_sudo (dd_settings d) = Some True")
  case True
  then show ?thesis using assms by (auto simp: deploy_profile_def)
next
  case interactive: False
  let ?act = "activation_process d defs info dry" and ?wt = "waiter_process d defs"
  let ?ms = "[Emitted LInfo (start_message d dry),
    Emitted LDebug (''activate-command '' @ activate_command d defs info (canary_dir d) dry)]"
  define tr1 where "tr1 = tr @ ?ms"
  define m3 where "m3 = Emitted LDebug (''wait-command '' @ wait_command d defs)"
  obtain ms where tr1: "tr1 = tr @ ms" "commands_run ms = []" by (simp add: tr1_def)
  have dep: "deploy_profile env d defs dry tr =
      (if \<not> magic_rollback d \<or> dry then
         (case run_command env ?act tr1 of
            (Inl e, tr) \<Rightarrow> (Inl (ActivateSpawn e), tr)
          | (Inr out, tr) \<Rightarrow>
              (case checked_output out ActivateExit tr of
                 (Inl e, tr) \<Rightarrow> (Inl e, tr)
               | (Inr _, tr) \<Rightarrow> (Inr (), emit LInfo ''activate-complete'' tr)))
       else deploy_magic env d defs (canary_dir d) (remote_address d defs) ?act ?wt (tr1 @ [m3]))"
    using interactive assms(2) by (simp add: deploy_profile_def Let_def emit_append tr1_def m3_def)
  show ?thesis
  proof (cases "\<not> magic_rollback d \<or> dry")
    case True
    obtain x t1 where x: "run_command env ?act tr1 = (x, t1)" by fastforce
    then have t1: "t1 = tr1 @ [Ran ?act x]" by (simp add: run_command_eq)
    show ?thesis
    proof (cases x)
      case (Inl e)
      then have "r = Inl (ActivateSpawn e)" "tr' = t1" using assms(1) True x by (simp_all add: dep)
      then show ?thesis using True t1 tr1 Inl by (intro exI [of _ "ms @ [Ran ?act x]"]) auto
    next
      case (Inr out)
      obtain y t2 where y: "checked_output out ActivateExit t1 = (y, t2)" by fastforce
      then have t2: "t2 = emit_output out t1" "y = (if exit_success (po_status out) then Inr () else Inl (ActivateExit (po_status out)))"
        by (auto simp: checked_output_def split: if_splits)
      obtain es where es: "t2 = t1 @ es" "commands_run es = []"
        unfolding t2 by (simp add: emit_output_def)
      have res: "(r, tr') = (case y of Inl e \<Rightarrow> (Inl e, t2) | Inr _ \<Rightarrow> (Inr (), emit LInfo ''activate-complete'' t2))"
        using assms(1) True x Inr y by (simp add: dep)
      show ?thesis
      proof (cases "exit_success (po_status out)")
        case ok: True
        have "r = Inr ()" "tr' = tr @ ms @ [Ran ?act x] @ es @ [Emitted LInfo ''activate-complete'']"
          using res t2(2) ok es(1) t1 tr1(1) by (simp_all add: emit_append)
        then show ?thesis using True ok tr1(2) es(2) Inr
          by (intro exI [of _ "ms @ [Ran ?act x] @ es @ [Emitted LInfo ''activate-complete'']"]) auto
      next
        case failed: False
        have "r = Inl (ActivateExit (po_status out))" "tr' = tr @ ms @ [Ran ?act x] @ es"
          using res t2(2) failed es(1) t1 tr1(1) by simp_all
        then show ?thesis by (intro exI [of _ "ms @ [Ran ?act x] @ es"]) simp
      qed
    qed
  next
    case False
    then have "deploy_magic env d defs (canary_dir d) (remote_address d defs) ?act ?wt (tr1 @ [m3]) = (r, tr')"
      using assms(1) dep by simp
    from magic_ok [OF this] obtain es where es: "tr' = (tr1 @ [m3]) @ es"
      "r = Inr () \<Longrightarrow> live_swap d defs (canary_dir d) (remote_address d defs) ?act es"
      "\<And>e. r = Inl e \<Longrightarrow> rolled_back e \<Longrightarrow> went_live ?act ?wt es" by auto
    show ?thesis using False tr1 es
      by (intro exI [of _ "(ms @ [m3]) @ es"]) (auto intro: live_swap_append went_live_append simp del: append_assoc)
  qed
qed

section \<open>Properties\<close>

definition sample_output :: process_output where
  "sample_output = \<lparr>po_status = ExitCode 0, po_stdout = [], po_stderr = []\<rparr>"

definition sample_env :: deploy_env where
  "sample_env = \<lparr>de_output = \<lambda>_ _. Inr sample_output, de_spawn_error = \<lambda>_ _. None,
    de_waiter_first = \<lambda>_. True, de_confirm_race = \<lambda>_. ActivationSettles True, de_show_status = \<lambda>_. []\<rparr>"

definition sample_profile :: profile where
  "sample_profile = \<lparr>pf_path = ''/nix/store/abc-web'', pf_profile_path = None, pf_settings = settings_default\<rparr>"

definition sample_deploy :: deploy_data where
  "sample_deploy = make_deploy_data settings_default
    \<lparr>nd_settings = settings_default\<lparr>gs_ssh_user := Some ''root''\<rparr>, nd_hostname = ''web.example'',
     nd_profiles = [(''system'', sample_profile)], nd_profiles_order = []\<rparr>
    ''web'' sample_profile ''system''
    \<lparr>co_hostname = None, co_nix_program = None, co_ssh_program = None, co_environment = []\<rparr>"

definition sample_defs :: deploy_defs where
  "sample_defs = \<lparr>df_ssh_user = ''root'', df_profile_user = ''root'', df_sudo = None\<rparr>"

lemma sample_no_output [simp]: "emit_output sample_output tr = tr"
  by (simp add: emit_output_def sample_output_def str_lines_def)

lemma sample_env_simps [simp]:
  "de_output sample_env tr c = Inr sample_output" "de_spawn_error sample_env tr c = None"
  "de_waiter_first sample_env tr" "de_confirm_race sample_env tr = ActivationSettles True"
  "exit_success (po_status sample_output)" "exit_code (po_status sample_output) = Some 0"
  by (simp_all add: sample_env_def sample_output_def exit_success_def)

lemma sample_deploy_simps [simp]:
  "defs_of sample_deploy = Inr sample_defs"
  "profile_info_of sample_deploy = Inr (ProfileUserAndName ''root'' ''system'')"
  "gs_interactive_sudo (dd_settings sample_deploy) = None" "magic_rollback sample_deploy"
  by (simp_all add: sample_deploy_def sample_defs_def make_deploy_data_def sample_profile_def
      with_fallback_def settings_default_def defs_of_def profile_info_of_def profile_user_def
      magic_rollback_def opt_filter_def)

text \<open>The activation path is chosen before anything on the host changes. Only the capability probe
  and the switch preflight are run, in this order; a dry run only ever previews; an explicit boot
  request is staged without a probe; and without one, a reboot is only planned when the preflight
  ran and did not succeed.\<close>

lemma disposition_follows_preflight:
  assumes "resolve_activation_disposition env d defs dry boot tr = (Inr disp, tr')"
  shows "(\<exists>log. commands_run tr' = commands_run tr @ log \<and>
      prefix (map fst log) (map (ssh_command d (remote_address d defs))
        [capability_command d, preflight_command d defs]) \<and>
      (boot \<longrightarrow> log = [] \<and> reboot_pending disp) \<and>
      (\<not> boot \<longrightarrow> (reboot_pending disp \<longleftrightarrow> length log = 2 \<and> \<not> succeeded (snd (last log))))) \<and>
    (dry \<longleftrightarrow> (\<exists>b. disp = DryPreview b))"
  using disposition_run [OF assms] by (cases dry) (auto simp: live_disposition_def exit_success_def split: if_split_asm)

text \<open>C16: Staging for the next boot is all or undone. Success means that the profile was resolved to a store path, the new
  closure was set as the profile and made the boot default, each command succeeding, and nothing else was run. When setting
  or making it the default fails, the last two commands put the store path that the resolution had printed on its standard
  output back as profile and as boot default, and the error says "restored" exactly when both succeeded. With any other
  error nothing was run but the resolution.\<close>

theorem boot_staging_is_undone:
  assumes "stage_profile_for_boot env d defs tr = (r, tr')" and "profile_info_of d = Inr info"
  defines "run c \<equiv> ssh_command d (remote_address d defs) (sanitized_remote_command (df_sudo defs) c)"
  defines "set_to x \<equiv> run (''nix-env --profile '' @ shell_word (profile_path info) @ '' --set '' @ shell_word x)"
    and "default_to x \<equiv> run (shell_word x @ ''/bin/switch-to-configuration boot'')"
    and "resolve \<equiv> run (''readlink -e '' @ shell_word (profile_path info))"
    and "new \<equiv> pf_path (dd_profile d)"
  shows "\<exists>log. commands_run tr' = commands_run tr @ log \<and>
    (case r of
       Inr _ \<Rightarrow> \<exists>r0 r1 r2 previous. log = [(resolve, r0), (set_to new, r1), (default_to new, r2)] \<and>
         resolved_profile r0 previous \<and> succeeded r1 \<and> succeeded r2
     | Inl (BootStage primary recovery) \<Rightarrow>
         \<exists>out previous tried r1 r2. exit_success (po_status out) \<and> previous = trim (utf8_lossy (po_stdout out)) \<and>
           prefix ''/nix/store/'' previous \<and>
           log = (resolve, Inr out) # tried @ [(set_to previous, r1), (default_to previous, r2)] \<and>
           ((\<exists>x. tried = [(set_to new, x)] \<and> \<not> succeeded x) \<or>
            (\<exists>x y. tried = [(set_to new, x), (default_to new, y)] \<and> succeeded x \<and> \<not> succeeded y)) \<and>
           (recovery = ''restored previous profile and boot default'' \<longleftrightarrow> succeeded r1 \<and> succeeded r2)
     | Inl _ \<Rightarrow> log = [] \<or> (\<exists>r0. log = [(resolve, r0)]))"
proof -
  have texts: "ssh_command d (remote_address d defs) (resolve_command defs (profile_path info)) = resolve"
    "\<And>x. ssh_command d (remote_address d defs) (set_profile_command defs (profile_path info) x) = set_to x"
    "\<And>x. ssh_command d (remote_address d defs) (boot_default_command defs x) = default_to x"
    by (simp_all add: resolve_def set_to_def default_to_def run_def resolve_command_def set_profile_command_def boot_default_command_def)
  obtain log where log: "commands_run tr' = commands_run tr @ log"
    "boot_stage_log d defs (remote_address d defs) (profile_path info) log r"
    using stage_run [OF assms(1,2)] by blast
  show ?thesis
  proof (intro exI [of _ log] conjI log(1))
    show "case r of
       Inr _ \<Rightarrow> \<exists>r0 r1 r2 previous. log = [(resolve, r0), (set_to new, r1), (default_to new, r2)] \<and>
         resolved_profile r0 previous \<and> succeeded r1 \<and> succeeded r2
     | Inl (BootStage primary recovery) \<Rightarrow>
         \<exists>out previous tried r1 r2. exit_success (po_status out) \<and> previous = trim (utf8_lossy (po_stdout out)) \<and>
           prefix ''/nix/store/'' previous \<and>
           log = (resolve, Inr out) # tried @ [(set_to previous, r1), (default_to previous, r2)] \<and>
           ((\<exists>x. tried = [(set_to new, x)] \<and> \<not> succeeded x) \<or>
            (\<exists>x y. tried = [(set_to new, x), (default_to new, y)] \<and> succeeded x \<and> \<not> succeeded y)) \<and>
           (recovery = ''restored previous profile and boot default'' \<longleftrightarrow> succeeded r1 \<and> succeeded r2)
     | Inl _ \<Rightarrow> log = [] \<or> (\<exists>r0. log = [(resolve, r0)])"
      using log(2) unfolding boot_stage_log_def Let_def texts new_def [symmetric]
      by (cases r; (elim exE conjE)?) (fastforce simp: resolved_profile_def split: deploy_error.splits)+
  qed
qed

text \<open>A host whose profile resolves and whose profile cannot be set.\<close>

definition sample_unset_env :: deploy_env where
  "sample_unset_env = sample_env\<lparr>de_output := \<lambda>tr c.
    if commands_run tr = [] then Inr (sample_output\<lparr>po_stdout := ''/nix/store/old''\<rparr>)
    else if length (commands_run tr) = 1 then Inr (sample_output\<lparr>po_status := ExitCode 1\<rparr>) else Inr sample_output\<rparr>"

theorem boot_staging_is_undone_witness:
  "\<exists>tr' primary out r2. stage_profile_for_boot sample_unset_env sample_deploy sample_defs [] =
      (Inl (BootStage primary ''restored previous profile and boot default''), tr') \<and>
    last (commands_run tr') = (ssh_command sample_deploy (remote_address sample_deploy sample_defs)
      (sanitized_remote_command None (shell_word (trim (utf8_lossy (po_stdout (out :: process_output)))) @ ''/bin/switch-to-configuration boot'')), r2) \<and>
    succeeded r2"
proof -
  have "fst (stage_profile_for_boot sample_unset_env sample_deploy sample_defs []) =
      Inl (BootStage ''boot-stage-profile exited with '' ''restored previous profile and boot default'')"
    by code_simp
  then obtain primary tr' where run: "stage_profile_for_boot sample_unset_env sample_deploy sample_defs [] =
      (Inl (BootStage primary ''restored previous profile and boot default''), tr')"
    by (metis prod.collapse)
  obtain log out tried previous r1 r2 res x where log: "commands_run tr' = commands_run [] @ log"
    "previous = trim (utf8_lossy (po_stdout out))"
    "log = (res, Inr out) # tried @ [(x, r1), (ssh_command sample_deploy (remote_address sample_deploy sample_defs)
      (sanitized_remote_command (df_sudo sample_defs) (shell_word previous @ ''/bin/switch-to-configuration boot'')), r2)]"
    "''restored previous profile and boot default'' = ''restored previous profile and boot default'' \<longleftrightarrow> succeeded r1 \<and> succeeded r2"
    using boot_staging_is_undone [OF run sample_deploy_simps(2), unfolded sum.case deploy_error.case]
    by (elim exE conjE) (rule that)
  have "last (commands_run tr') = (ssh_command sample_deploy (remote_address sample_deploy sample_defs)
      (sanitized_remote_command None (shell_word (trim (utf8_lossy (po_stdout out))) @ ''/bin/switch-to-configuration boot'')), r2)"
    unfolding log(1,3) log(2) [symmetric] by (simp add: sample_defs_def)
  moreover have "succeeded r2" using log(4) by simp
  ultimately show ?thesis using run
    by (intro exI [of _ tr'] exI [of _ primary] exI [of _ out] exI [of _ r2] conjI)
qed

text \<open>A live activation is reported successful only when it was confirmed. With the canary
  protocol, a stale canary was cleared before the activation was started, and after that the
  activation ended with success and the removal of the canary succeeded; without it (or in a dry
  run), the one activation command succeeded and nothing else was run.\<close>

lemma success_means_confirmed:
  assumes "deploy_profile env d defs dry tr = (Inr (), tr')" and "profile_info_of d = Inr info"
  defines "act \<equiv> activation_process d defs info dry" and "a \<equiv> remote_address d defs"
  shows "\<exists>es. tr' = tr @ es \<and>
    (if magic_rollback d \<and> \<not> dry then
       \<exists>pre post x y z. es = pre @ Spawned act # post \<and>
         Ran (ssh_command d a (cleanup_command d defs (canary_dir d))) x \<in> set pre \<and> succeeded x \<and>
         Finished act y \<in> set post \<and> succeeded y \<and>
         {Ran (ssh_command d a (confirm_command d defs (canary_dir d))) z,
          Finished (ssh_command d a (confirm_command d defs (canary_dir d))) z} \<inter> set post \<noteq> {} \<and> succeeded z
     else \<exists>out. commands_run es = [(act, Inr out)] \<and> exit_success (po_status out))"
proof -
  obtain es where "tr' = tr @ es" "if magic_rollback d \<and> \<not> dry
       then live_swap d defs (canary_dir d) a act es
       else \<exists>out. commands_run es = [(act, Inr out)] \<and> exit_success (po_status out)"
    using deploy_run [OF assms(1,2)] unfolding act_def a_def by auto
  then show ?thesis
    unfolding live_swap_def canary_cleared_def settled_well_def confirmed_def by (intro exI [of _ es]) (auto, blast+)
qed

definition sample_late_env :: deploy_env where
  "sample_late_env = sample_env\<lparr>de_output := \<lambda>tr c. if Spawned c \<in> set tr \<and> (\<exists>x. Finished x (Inr sample_output) \<in> set tr)
    then Inr (sample_output\<lparr>po_status := ExitCode 1\<rparr>) else Inr sample_output\<rparr>"

lemma sample_late_env_simps [simp]:
  "de_output sample_late_env tr c = (if Spawned c \<in> set tr \<and> (\<exists>x. Finished x (Inr sample_output) \<in> set tr)
    then Inr (sample_output\<lparr>po_status := ExitCode 1\<rparr>) else Inr sample_output)"
  "de_spawn_error sample_late_env tr c = None" "de_waiter_first sample_late_env tr"
  "de_confirm_race sample_late_env tr = ActivationSettles True" "\<not> exit_success (ExitCode 1)"
  by (simp_all add: sample_late_env_def exit_success_def)

text \<open>C20: A failure is called a rollback only when the new generation had gone live: the canary protocol
  was in use, and after the activation was started, its waiter or the activation itself had ended
  with success.\<close>

theorem rollback_means_it_was_live:
  assumes "deploy_profile env d defs dry tr = (Inl e, tr')" and "rolled_back e"
    and "profile_info_of d = Inr info"
  defines "act \<equiv> activation_process d defs info dry" and "wt \<equiv> waiter_process d defs"
  shows "magic_rollback d \<and> \<not> dry \<and> (\<exists>pre post x. tr' = tr @ pre @ Spawned act # post \<and>
    {Finished wt x, Finished act x} \<inter> set post \<noteq> {} \<and> succeeded x)"
proof -
  obtain es where es: "tr' = tr @ es" "magic_rollback d" "\<not> dry" "went_live act wt es"
    using deploy_run [OF assms(1,3)] assms(2) unfolding act_def wt_def by auto
  obtain pre post x where "es = pre @ Spawned act # post" "succeeded x"
    "Finished wt x \<in> set post \<or> Finished act x \<in> set post"
    using es(4) unfolding went_live_def settled_well_def by blast
  with es show ?thesis by (intro conjI exI [of _ pre] exI [of _ post] exI [of _ x]) auto
qed

theorem rollback_means_it_was_live_witness:
  "\<exists>pre post tr'. snd (deploy_profile sample_late_env sample_deploy sample_defs False []) = tr' \<and>
    tr' = pre @ Spawned (activation_process sample_deploy sample_defs (ProfileUserAndName ''root'' ''system'') False) # post"
proof -
  obtain r tr' where run: "deploy_profile sample_late_env sample_deploy sample_defs False [] = (r, tr')"
    by fastforce
  have "r = Inl (RollbackExit (ExitCode 1))"
    using run
    by (auto simp: deploy_profile_def deploy_magic_def clear_stale_canary_def run_command_def finish_command_def
        checked_output_def first_settled_def confirm_racing_def await_activation_def confirm_end_def
        confirm_begin_def Let_def emit_def)
  with rollback_means_it_was_live [OF run [unfolded this] _ sample_deploy_simps(2)] run show ?thesis by auto
qed

text \<open>C15: No deployment leaves a process running: whatever the outcome and the order of events, every
  background process that \<^const>\<open>deploy_profile\<close> started has ended or has been killed when it returns.\<close>

theorem deploy_leaves_no_process:
  "int (count_if (\<lambda>e. e = Spawned c) (snd (deploy_profile env d defs dry tr)))
      - int (count_if (\<lambda>e. e = Killed c \<or> (\<exists>r. e = Finished c r)) (snd (deploy_profile env d defs dry tr))) =
    int (count_if (\<lambda>e. e = Spawned c) tr) - int (count_if (\<lambda>e. e = Killed c \<or> (\<exists>r. e = Finished c r)) tr)"
  using in_background_deploy [of env d defs dry tr "fst (deploy_profile env d defs dry tr)"
      "snd (deploy_profile env d defs dry tr)" c]
  by (simp add: in_background_def)

end
