(* ===== verification/ProfileBuild.thy ===== *)
theory ProfileBuild
  imports DeployPlan Activation
begin

text \<open>The pieces of the batch build of \<^verbatim>\<open>engines/deploy.rs\<close>: the progress counters kept from Nix's
  internal-json lines, the build command, the resolution of the profiles before it, and the two ways
  of finding the built profiles afterwards, through the indexed result links or by probing each
  profile. The theorems bound the counters and say when a host gets a profile path.\<close>

section \<open>Progress counters\<close>

definition ACT_COPY_PATH :: int where "ACT_COPY_PATH = 100"
definition ACT_COPY_PATHS :: int where "ACT_COPY_PATHS = 103"
definition ACT_BUILD :: int where "ACT_BUILD = 105"

record build_tracker =
  bt_built :: int
  bt_finished :: int
  bt_fetched :: int
  bt_fetched_done :: int
  bt_errors :: int
  bt_current :: string
  bt_running :: "(int, string) bmap"
  bt_error_messages :: "string list"

definition tracker_default :: build_tracker where
  "tracker_default = \<lparr>bt_built = 0, bt_finished = 0, bt_fetched = 0, bt_fetched_done = 0, bt_errors = 0,
    bt_current = [], bt_running = [], bt_error_messages = []\<rparr>"

definition engine_derivation_name :: "string \<Rightarrow> string" where
  "engine_derivation_name path =
    (let file = (case rsplit_once (CHR ''/'') path of None \<Rightarrow> path | Some (_, name) \<Rightarrow> name);
         base = opt_default file (strip_suffix ''.drv'' file)
     in case split_once (CHR ''-'') base of
          Some (hash, name) \<Rightarrow> if length hash = 32 then name else base
        | None \<Rightarrow> base)"

definition start_build_activity :: "int \<Rightarrow> json \<Rightarrow> build_tracker \<Rightarrow> build_tracker" where
  "start_build_activity i ev t =
    (let drv = opt_default [] (Option.bind (Option.bind (Option.bind (json_get ''fields'' ev) as_array) list_first) as_str);
         name = engine_derivation_name drv
     in t\<lparr>bt_current := name, bt_running := bm_insert i name (bt_running t), bt_built := bt_built t + 1\<rparr>)"

definition tracker_start :: "json \<Rightarrow> build_tracker \<Rightarrow> bool \<times> build_tracker" where
  "tracker_start ev t =
    (let ty = get_i64 ''type'' ev
     in if ty = Some ACT_BUILD then
          (case get_i64 ''id'' ev of None \<Rightarrow> (False, t) | Some i \<Rightarrow> (True, start_build_activity i ev t))
        else if ty = Some ACT_COPY_PATH \<or> ty = Some ACT_COPY_PATHS then
          (True, t\<lparr>bt_fetched := bt_fetched t + 1\<rparr>)
        else (False, t))"

definition tracker_stop :: "json \<Rightarrow> build_tracker \<Rightarrow> bool \<times> build_tracker" where
  "tracker_stop ev t =
    (case Option.bind (get_i64 ''id'' ev) (\<lambda>i. map_option (\<lambda>_. i) (map_of (bt_running t) i)) of
       Some i \<Rightarrow>
         let running = bm_remove i (bt_running t)
         in (True, t\<lparr>bt_running := running, bt_finished := bt_finished t + 1,
              bt_current := opt_default (bt_current t) (list_first (bm_values running))\<rparr>)
     | None \<Rightarrow>
         if bt_fetched_done t < bt_fetched t then (True, t\<lparr>bt_fetched_done := bt_fetched_done t + 1\<rparr>)
         else (False, t))"

definition tracker_message :: "json \<Rightarrow> build_tracker \<Rightarrow> bool \<times> build_tracker" where
  "tracker_message ev t =
    (let message = opt_default [] (Option.bind
       (opt_or (opt_or (json_get ''raw_msg'' ev) (json_get ''msg'' ev)) (json_get ''text'' ev)) as_str)
     in (False, if message = [] then t
        else t\<lparr>bt_errors := bt_errors t + 1, bt_error_messages := bt_error_messages t @ [message]\<rparr>))"

text \<open>\<open>parse\<close> is \<^verbatim>\<open>serde_json::from_str\<close>. The result says whether the progress changed.\<close>

definition tracker_feed :: "(string \<Rightarrow> json option) \<Rightarrow> string \<Rightarrow> build_tracker \<Rightarrow> bool \<times> build_tracker" where
  "tracker_feed parse line t =
    (case Option.bind (strip_prefix NIX_JSON_PREFIX line) parse of
       None \<Rightarrow> (False, t)
     | Some ev \<Rightarrow>
         let action = get_str ''action'' ev
         in if action = Some ''start'' then tracker_start ev t
            else if action = Some ''stop'' then tracker_stop ev t
            else if action = Some ''msg'' \<and> get_i64 ''level'' ev = Some 0 then tracker_message ev t
            else (False, t))"

definition tracker_fields :: "build_tracker \<Rightarrow> (string, json) bmap" where
  "tracker_fields t = bm_of_list [(''built'', json_of_int (bt_built t)), (''finished'', json_of_int (bt_finished t)),
    (''fetched'', json_of_int (bt_fetched t)), (''fetched_done'', json_of_int (bt_fetched_done t)),
    (''errors'', json_of_int (bt_errors t)), (''current'', JStr (bt_current t))]"

section \<open>The build command\<close>

definition build_run_argv :: "string \<Rightarrow> string list \<Rightarrow> string \<Rightarrow> string list" where
  "build_run_argv flake targets out_link =
    [''nix'', ''build''] @ map (\<lambda>h. flake @ ''#deploy.nodes.'' @ h @ ''.profiles.system.path'') targets
    @ [''--keep-going'', ''--log-format'', ''internal-json'', ''--out-link'', out_link]"

text \<open>With \<^verbatim>\<open>--halt-on-build-failure\<close>.\<close>

definition policy_argv :: "bool \<Rightarrow> string list \<Rightarrow> string list" where
  "policy_argv halt argv =
    (if halt then filter (\<lambda>a. a \<noteq> ''--keep-going'') argv @ [''--option'', ''keep-going'', ''false''] else argv)"

datatype build_error =
    BuildFailed int
  | BuildIo string
  | MissingProfileLink string string
  | InvalidProfilePath string string

fun build_exit_code :: "build_error \<Rightarrow> int" where
  "build_exit_code (BuildFailed rc) = rc"
| "build_exit_code _ = 1"

fun show_build_error :: "build_error \<Rightarrow> string" where
  "show_build_error (BuildFailed rc) = ''nix build failed (rc='' @ show_int rc @ '')''"
| "show_build_error (BuildIo e) = ''running nix build: '' @ e"
| "show_build_error (MissingProfileLink host path) =
    ''nix build produced no profile link for '' @ host @ '': '' @ path"
| "show_build_error (InvalidProfilePath host path) =
    ''nix build produced an invalid profile path for '' @ host @ '': '' @ path"

record built_profiles =
  bp_paths :: "(string, string) bmap"
  bp_failures :: "(string, string) bmap"

section \<open>Result links\<close>

text \<open>The out-link of this program ends in a file name.\<close>

definition profile_link :: "string \<Rightarrow> nat \<Rightarrow> string" where
  "profile_link out_link i =
    (if i = 0 then out_link
     else (case rsplit_once (CHR ''/'') out_link of
         None \<Rightarrow> out_link @ ''-'' @ show_nat i
       | Some (dir, name) \<Rightarrow> dir @ ''/'' @ name @ ''-'' @ show_nat i))"

definition in_store :: "string \<Rightarrow> bool" where
  "in_store p \<longleftrightarrow> starts_with p ''/'' \<and> prefix [''nix'', ''store''] (path_components p)"

definition same_path :: "string \<Rightarrow> string \<Rightarrow> bool" where
  "same_path p q \<longleftrightarrow> starts_with p ''/'' = starts_with q ''/'' \<and> path_components p = path_components q"

text \<open>\<open>link\<close> is \<^verbatim>\<open>read_link\<close>. The hosts have the indices from \<open>i\<close> on.\<close>

fun map_links_from ::
  "(string \<Rightarrow> string option) \<Rightarrow> string \<Rightarrow> nat \<Rightarrow> string list \<Rightarrow> (string, string) bmap \<Rightarrow>
    (build_error, (string, string) bmap) result" where
  "map_links_from link out_link i [] paths = Inr paths"
| "map_links_from link out_link i (host # hosts) paths =
    (case link (profile_link out_link i) of
       None \<Rightarrow> Inl (MissingProfileLink host (profile_link out_link i))
     | Some path \<Rightarrow>
         if \<not> in_store path then Inl (InvalidProfilePath host path)
         else map_links_from link out_link (i + 1) hosts (bm_insert host path paths))"

definition map_profile_links ::
  "(string \<Rightarrow> string option) \<Rightarrow> string list \<Rightarrow> string \<Rightarrow> (build_error, (string, string) bmap) result" where
  "map_profile_links link targets out_link = map_links_from link out_link 0 targets []"

section \<open>Resolving the profiles\<close>

fun json_index :: "json \<Rightarrow> string \<Rightarrow> json" where
  "json_index (JObj m) k = opt_default JNull (map_of m k)"
| "json_index _ k = JNull"

definition resolved_value :: "json \<Rightarrow> (build_error, string \<times> string) result" where
  "resolved_value v =
    (case (as_str (json_index v ''drvPath''), as_object (json_index v ''outputs'')) of
       (Some drv, Some [(name, path)]) \<Rightarrow>
         if starts_with drv ''/nix/store/'' \<and> ends_with drv ''.drv'' then
           (case opt_filter (\<lambda>p. starts_with p ''/nix/store/'') (as_str path) of
              None \<Rightarrow> Inl (BuildIo ''profile has no statically known store output'')
            | Some p \<Rightarrow> Inr (drv @ ''^'' @ name, p))
         else Inl (BuildIo ''profile resolution requires one derivation output per target'')
     | _ \<Rightarrow> Inl (BuildIo ''profile resolution requires one derivation output per target''))"

fun map_result :: "('a \<Rightarrow> ('e, 'b) result) \<Rightarrow> 'a list \<Rightarrow> ('e, 'b list) result" where
  "map_result f [] = Inr []"
| "map_result f (x # xs) =
    (case f x of
       Inl e \<Rightarrow> Inl e
     | Inr y \<Rightarrow> (case map_result f xs of Inl e \<Rightarrow> Inl e | Inr ys \<Rightarrow> Inr (y # ys)))"

text \<open>\<open>out\<close> is the outcome of the command with \<^verbatim>\<open>--dry-run --json\<close>, \<open>values\<close> parses its output.\<close>

definition resolve_profiles ::
  "(string \<Rightarrow> (string, json list) result) \<Rightarrow> (string, process_output) result \<Rightarrow> nat \<Rightarrow>
    (build_error, (string \<times> string) list) result" where
  "resolve_profiles values out count =
    (case out of
       Inl e \<Rightarrow> Inl (BuildIo e)
     | Inr o' \<Rightarrow>
         if \<not> exit_success (po_status o') then Inl (BuildIo (''resolving profiles: '' @ utf8_lossy (po_stderr o')))
         else (case values (po_stdout o') of
             Inl e \<Rightarrow> Inl (BuildIo e)
           | Inr vs \<Rightarrow>
               if length vs \<noteq> count then Inl (BuildIo ''profile resolution returned an unexpected target count'')
               else map_result resolved_value vs))"

section \<open>Recovering profiles after a failed batch\<close>

text \<open>\<open>probe i\<close> is the outcome of the offline build of the \<open>i\<close>-th profile, which leaves its link.\<close>

definition failure_text :: "int \<Rightarrow> string \<Rightarrow> string" where
  "failure_text rc drv = ''profile build failed (batch rc='' @ show_int rc @ ''): '' @ drv
    @ ''; see build.jsonl for dependency errors and derivation logs''"

fun recover_from ::
  "(nat \<Rightarrow> (string, process_output) result) \<Rightarrow> (string \<Rightarrow> string option) \<Rightarrow> string \<Rightarrow> int \<Rightarrow> nat \<Rightarrow>
    (string \<times> string \<times> string) list \<Rightarrow> built_profiles \<Rightarrow> (build_error, built_profiles) result" where
  "recover_from probe link out_link rc i [] built = Inr built"
| "recover_from probe link out_link rc i ((host, drv, path) # rest) built =
    (case probe i of
       Inl e \<Rightarrow> Inl (BuildIo e)
     | Inr out \<Rightarrow>
         if exit_success (po_status out) then
           (case map_profile_links link [host] (profile_link out_link i) of
              Inl e \<Rightarrow> Inl e
            | Inr mapped \<Rightarrow>
                let got = opt_default [] (map_of mapped host)
                in if \<not> same_path got path then Inl (InvalidProfilePath host got)
                   else recover_from probe link out_link rc (i + 1) rest
                     (built\<lparr>bp_paths := bm_insert host got (bp_paths built)\<rparr>))
         else recover_from probe link out_link rc (i + 1) rest
           (built\<lparr>bp_failures := bm_insert host (failure_text rc drv) (bp_failures built)\<rparr>))"

definition recover_profiles ::
  "(nat \<Rightarrow> (string, process_output) result) \<Rightarrow> (string \<Rightarrow> string option) \<Rightarrow> string \<Rightarrow> int \<Rightarrow>
    string list \<Rightarrow> (string \<times> string) list \<Rightarrow> (build_error, built_profiles) result" where
  "recover_profiles probe link out_link rc targets resolved =
    recover_from probe link out_link rc 0 (zip targets resolved) \<lparr>bp_paths = [], bp_failures = []\<rparr>"

section \<open>Which profiles were built\<close>

text \<open>The last step: what the exit of the one build process means.\<close>

definition build_outcome ::
  "(nat \<Rightarrow> (string, process_output) result) \<Rightarrow> (string \<Rightarrow> string option) \<Rightarrow> string \<Rightarrow> bool \<Rightarrow> string list \<Rightarrow>
    (string \<times> string) list \<Rightarrow> string option \<Rightarrow> exit_status \<Rightarrow> (build_error, built_profiles) result" where
  "build_outcome probe link out_link halt targets resolved event_error status =
    (let rc = opt_default 1 (exit_code status)
     in case event_error of
          Some e \<Rightarrow> Inl (BuildIo e)
        | None \<Rightarrow>
            if exit_code status = None \<or> rc = 130 \<or> rc = 143 \<or> (rc \<noteq> 0 \<and> halt) then Inl (BuildFailed rc)
            else if rc \<noteq> 0 then recover_profiles probe link out_link rc targets resolved
            else (case map_profile_links link targets out_link of
                Inl e \<Rightarrow> Inl e
              | Inr paths \<Rightarrow> Inr \<lparr>bp_paths = paths, bp_failures = []\<rparr>))"

section \<open>The counters\<close>

definition tracker_ok :: "build_tracker \<Rightarrow> bool" where
  "tracker_ok t \<longleftrightarrow> 0 \<le> bt_finished t \<and> bt_finished t + int (length (bt_running t)) \<le> bt_built t \<and>
    0 \<le> bt_fetched_done t \<and> bt_fetched_done t \<le> bt_fetched t \<and>
    bt_errors t = int (length (bt_error_messages t)) \<and> bm_wf (bt_running t)"

lemma length_bm_insert: "bm_wf m \<Longrightarrow> length (bm_insert k v m) \<le> Suc (length m)"
  using bm.length_keys_ins [of m k v] by (simp add: bm_keys_def split: if_splits)

lemma length_bm_remove:
  assumes "bm_wf m" and "map_of m k \<noteq> None"
  shows "Suc (length (bm_remove k m)) = length m"
proof -
  have "card (fst ` set (bm_remove k m)) = card (fst ` set m - {k})" by (simp add: keys_bm_remove)
  moreover have "k \<in> fst ` set m" using assms(2) by (simp add: map_of_eq_None_iff)
  moreover have "card (fst ` set m') = length m'" if "bm_wf m'" for m' :: "('a \<times> 'b) list"
    using bm_wf_distinct [OF that] distinct_card [of "bm_keys m'"] by (simp add: bm_keys_def)
  ultimately have "length (bm_remove k m) = length m - 1"
    using assms(1) bm_wf_remove [OF assms(1), of k] by (metis card_Diff_singleton)
  moreover have "m \<noteq> []" using assms(2) by auto
  ultimately show ?thesis by (cases m) auto
qed

lemma tracker_ok_feed: "tracker_ok t \<Longrightarrow> tracker_ok (snd (tracker_feed parse line t))"
proof -
  assume t: "tracker_ok t"
  have "tracker_ok (snd (tracker_start ev t))" for ev
  proof -
    have "tracker_ok (start_build_activity i ev t)" for i
    proof -
      obtain name where st: "start_build_activity i ev t = t\<lparr>bt_current := name,
          bt_running := bm_insert i name (bt_running t), bt_built := bt_built t + 1\<rparr>"
        by (simp add: start_build_activity_def Let_def)
      have "int (length (bm_insert i name (bt_running t))) \<le> int (length (bt_running t)) + 1"
        using length_bm_insert [of "bt_running t" i name] t by (simp add: tracker_ok_def)
      then show ?thesis unfolding st using t by (simp add: tracker_ok_def bm_wf_insert)
    qed
    moreover have "tracker_ok (t\<lparr>bt_fetched := bt_fetched t + 1\<rparr>)" using t by (simp add: tracker_ok_def)
    ultimately show ?thesis using t by (simp add: tracker_start_def Let_def split: option.split)
  qed
  moreover have "tracker_ok (snd (tracker_stop ev t))" for ev
  proof (cases "Option.bind (get_i64 ''id'' ev) (\<lambda>i. map_option (\<lambda>_. i) (map_of (bt_running t) i))")
    case None
    then show ?thesis using t by (auto simp: tracker_stop_def tracker_ok_def)
  next
    case (Some i)
    then have "map_of (bt_running t) i \<noteq> None" by (auto simp: bind_eq_Some_conv)
    then show ?thesis using t Some length_bm_remove [of "bt_running t" i]
      by (auto simp: tracker_stop_def tracker_ok_def Let_def bm_wf_remove)
  qed
  moreover have "tracker_ok (snd (tracker_message ev t))" for ev
    using t by (auto simp: tracker_message_def tracker_ok_def Let_def)
  ultimately show ?thesis using t by (auto simp: tracker_feed_def Let_def split: option.split)
qed

section \<open>Result links\<close>

lemma show_nat_dash: "CHR ''-'' \<notin> set (show_nat n)"
  using show_nat_digits [of "CHR ''-''" n] by (auto simp: is_ascii_digit_def byte_def)

lemma profile_link_inj: "profile_link out_link i = profile_link out_link j \<Longrightarrow> i = j"
  using show_nat_inj [of i j]
  by (auto simp: profile_link_def rsplit_once_Some split: if_splits option.splits)

lemma map_links_ok:
  assumes "map_links_from link out_link i hosts paths = Inr ps"
  shows "fst ` set ps = fst ` set paths \<union> set hosts \<and>
    (\<forall>h p. map_of ps h = Some p \<longrightarrow> map_of paths h = Some p \<or> (h \<in> set hosts \<and> in_store p \<and>
      (\<exists>k. k < length hosts \<and> hosts ! k = h \<and> link (profile_link out_link (i + k)) = Some p)))"
  using assms
proof (induction hosts arbitrary: i paths)
  case (Cons host hosts)
  then obtain path where path: "link (profile_link out_link i) = Some path" "in_store path"
    "map_links_from link out_link (i + 1) hosts (bm_insert host path paths) = Inr ps"
    by (auto split: option.splits if_splits)
  note IH = Cons.IH [OF path(3)]
  have "map_of paths h = Some p \<or> (h \<in> set (host # hosts) \<and> in_store p \<and>
      (\<exists>k. k < length (host # hosts) \<and> (host # hosts) ! k = h \<and> link (profile_link out_link (i + k)) = Some p))"
    if hp: "map_of ps h = Some p" for h p
  proof -
    consider "map_of (bm_insert host path paths) h = Some p"
      | k where "h \<in> set hosts" "in_store p" "k < length hosts" "hosts ! k = h"
        "link (profile_link out_link (i + 1 + k)) = Some p"
      using IH hp by blast
    then show ?thesis
    proof cases
      case 1
      then show ?thesis using path(1,2) by (cases "h = host") (auto intro: exI [of _ 0])
    next
      case 2
      then show ?thesis by (intro disjI2) (auto intro!: exI [of _ "Suc k"])
    qed
  qed
  then show ?case using IH by auto
qed simp

lemma map_profile_links_ok:
  assumes "map_profile_links link targets out_link = Inr ps"
  shows "fst ` set ps = set targets"
    "map_of ps h = Some p \<Longrightarrow> in_store p \<and>
      (\<exists>k<length targets. targets ! k = h \<and> link (profile_link out_link k) = Some p)"
  using map_links_ok [OF assms [unfolded map_profile_links_def]] by auto

section \<open>Recovered profiles\<close>

lemma if_Inl_Inr: "(if \<not> b then Inl e else x) = Inr y \<Longrightarrow> b \<and> x = Inr y"
  by (cases b) simp_all

lemma recover_ok:
  assumes "recover_from probe link out_link rc i rest b0 = Inr built" and "distinct (map fst rest)"
    and "fst ` set (bp_paths b0) \<inter> fst ` set rest = {}" and "fst ` set (bp_failures b0) \<inter> fst ` set rest = {}"
    and "fst ` set (bp_paths b0) \<inter> fst ` set (bp_failures b0) = {}"
  shows "fst ` set (bp_paths built) \<union> fst ` set (bp_failures built) =
      fst ` set (bp_paths b0) \<union> fst ` set (bp_failures b0) \<union> fst ` set rest \<and>
    fst ` set (bp_paths built) \<inter> fst ` set (bp_failures built) = {} \<and>
    (\<forall>h p. map_of (bp_paths built) h = Some p \<longrightarrow> map_of (bp_paths b0) h = Some p \<or>
      (in_store p \<and> (\<exists>drv path. (h, drv, path) \<in> set rest \<and> same_path p path)))"
  using assms
proof (induction rest arbitrary: i b0)
  case (Cons r rest)
  obtain host drv path where r: "r = (host, drv, path)" by (cases r)
  from Cons.prems(1) r obtain out where out: "probe i = Inr out" by (auto split: sum.splits)
  show ?case
  proof (cases "exit_success (po_status out)")
    case True
    note step = Cons.prems(1) [unfolded r recover_from.simps out sum.case if_P [OF True]]
    from step obtain mapped where mapped: "map_profile_links link [host] (profile_link out_link i) = Inr mapped"
      by (cases "map_profile_links link [host] (profile_link out_link i)") simp_all
    define got where "got = opt_default [] (map_of mapped host)"
    have step': "(if \<not> same_path got path then Inl (InvalidProfilePath host got)
        else recover_from probe link out_link rc (i + 1) rest (b0\<lparr>bp_paths := bm_insert host got (bp_paths b0)\<rparr>)) = Inr built"
      using step unfolding mapped sum.case Let_def got_def .
    have m: "same_path got path"
      "recover_from probe link out_link rc (i + 1) rest (b0\<lparr>bp_paths := bm_insert host got (bp_paths b0)\<rparr>) = Inr built"
      using if_Inl_Inr [OF step'] by blast+
    have "map_of mapped host \<noteq> None" using map_profile_links_ok(1) [OF mapped] by (simp add: map_of_eq_None_iff)
    then obtain p where p: "map_of mapped host = Some p" by blast
    have store: "in_store got"
      using map_profile_links_ok(2) [OF mapped p] p by (simp only: got_def opt_default.simps)
    let ?b = "b0\<lparr>bp_paths := bm_insert host got (bp_paths b0)\<rparr>"
    have IH: "fst ` set (bp_paths built) \<union> fst ` set (bp_failures built) =
        fst ` set (bp_paths ?b) \<union> fst ` set (bp_failures ?b) \<union> fst ` set rest"
      "fst ` set (bp_paths built) \<inter> fst ` set (bp_failures built) = {}"
      "\<And>h p. map_of (bp_paths built) h = Some p \<Longrightarrow> map_of (bp_paths ?b) h = Some p \<or>
        (in_store p \<and> (\<exists>drv path. (h, drv, path) \<in> set rest \<and> same_path p path))"
      using Cons.IH [OF m(2)] Cons.prems(2-5) r by simp_all
    have "map_of (bp_paths b0) h = Some p \<or>
        (in_store p \<and> (\<exists>drv path. (h, drv, path) \<in> set (r # rest) \<and> same_path p path))"
      if "map_of (bp_paths built) h = Some p" for h p
      using IH(3) [OF that] store m(1) r by (cases "h = host") auto
    then show ?thesis using IH(1,2) r by simp
  next
    case False
    with Cons.prems(1) r out have f: "recover_from probe link out_link rc (i + 1) rest
        (b0\<lparr>bp_failures := bm_insert host (failure_text rc drv) (bp_failures b0)\<rparr>) = Inr built"
      by (auto split: sum.splits)
    let ?b = "b0\<lparr>bp_failures := bm_insert host (failure_text rc drv) (bp_failures b0)\<rparr>"
    have IH: "fst ` set (bp_paths built) \<union> fst ` set (bp_failures built) =
        fst ` set (bp_paths ?b) \<union> fst ` set (bp_failures ?b) \<union> fst ` set rest"
      "fst ` set (bp_paths built) \<inter> fst ` set (bp_failures built) = {}"
      "\<And>h p. map_of (bp_paths built) h = Some p \<Longrightarrow> map_of (bp_paths ?b) h = Some p \<or>
        (in_store p \<and> (\<exists>drv path. (h, drv, path) \<in> set rest \<and> same_path p path))"
      using Cons.IH [OF f] Cons.prems(2-5) r by simp_all
    have "map_of (bp_paths b0) h = Some p \<or>
        (in_store p \<and> (\<exists>drv path. (h, drv, path) \<in> set (r # rest) \<and> same_path p path))"
      if "map_of (bp_paths built) h = Some p" for h p
      using IH(3) [OF that] by auto
    then show ?thesis using IH(1,2) r by simp
  qed
qed simp

lemma map_result_length: "map_result f xs = Inr ys \<Longrightarrow> length ys = length xs"
  by (induction xs arbitrary: ys) (auto split: sum.splits)

text \<open>The counters follow stops that do not belong to them: the end of any activity that is not a
  tracked build counts as a completed fetch while one is outstanding, whatever ended.\<close>

lemma any_stop_completes_a_fetch:
  assumes "parse payload = Some ev" and "get_str ''action'' ev = Some ''stop''"
    and "get_i64 ''id'' ev = Some i" and "map_of (bt_running t) i = None" and "bt_fetched_done t < bt_fetched t"
  shows "tracker_feed parse (NIX_JSON_PREFIX @ payload) t = (True, t\<lparr>bt_fetched_done := bt_fetched_done t + 1\<rparr>)"
  using assms by (simp add: tracker_feed_def tracker_stop_def)

section \<open>Properties\<close>

text \<open>The progress counters stay consistent over any input lines: finished and running builds
  together never exceed the builds started, completed fetches never exceed the fetches, and the
  error count is the number of error messages kept.\<close>

lemma progress_counters_are_consistent:
  fixes parse :: "string \<Rightarrow> json option" and ls :: "string list"
  defines "t \<equiv> fold (\<lambda>line t. snd (tracker_feed parse line t)) ls tracker_default"
  shows "0 \<le> bt_finished t \<and> bt_finished t + int (length (bt_running t)) \<le> bt_built t \<and>
    0 \<le> bt_fetched_done t \<and> bt_fetched_done t \<le> bt_fetched t \<and>
    bt_errors t = int (length (bt_error_messages t))"
proof -
  have "tracker_ok t" unfolding t_def
    by (rule fold_invariant_set [where P = tracker_ok]) (auto simp: tracker_ok_feed, simp add: tracker_ok_def tracker_default_def)
  then show ?thesis by (simp add: tracker_ok_def)
qed

text \<open>A build that succeeds accounts for every target: it has either a profile path, which is in the
  store, or a failure, and not both.\<close>

lemma build_outcome_facts:
  assumes "build_outcome probe link out_link halt targets resolved event_error status = Inr built"
    and "distinct targets" and "length resolved = length targets"
  shows "set (bm_keys (bp_paths built)) \<union> set (bm_keys (bp_failures built)) = set targets \<and>
    set (bm_keys (bp_paths built)) \<inter> set (bm_keys (bp_failures built)) = {} \<and>
    (\<forall>h p. map_of (bp_paths built) h = Some p \<longrightarrow> in_store p) \<and>
    event_error = None \<and> (\<exists>rc. status = ExitCode rc \<and> rc \<notin> {130, 143} \<and> (halt \<longrightarrow> rc = 0) \<and>
      (rc = 0 \<longrightarrow> bp_failures built = []))"
proof -
  obtain rc where rc: "status = ExitCode rc" "event_error = None" "rc \<notin> {130, 143}" "halt \<longrightarrow> rc = 0"
    using assms(1) by (cases status) (auto simp: build_outcome_def Let_def split: option.splits if_splits)
  show ?thesis
  proof (cases "rc = 0")
    case True
    then obtain paths where "map_profile_links link targets out_link = Inr paths"
      "built = \<lparr>bp_paths = paths, bp_failures = []\<rparr>"
      using assms(1) rc by (auto simp: build_outcome_def split: sum.splits)
    then show ?thesis using map_profile_links_ok rc True by (simp add: bm_keys_def)
  next
    case False
    then have "recover_from probe link out_link rc 0 (zip targets resolved) \<lparr>bp_paths = [], bp_failures = []\<rparr> = Inr built"
      using assms(1) rc by (auto simp: build_outcome_def recover_profiles_def split: if_splits)
    moreover have "map fst (zip targets resolved) = targets" using assms(3) by (simp add: map_fst_zip)
    moreover from this have "fst ` set (zip targets resolved) = set targets" by (metis set_map)
    ultimately show ?thesis using recover_ok [of probe link out_link rc 0 "zip targets resolved"
        "\<lparr>bp_paths = [], bp_failures = []\<rparr>" built] assms(2) rc False
      by (simp add: bm_keys_def)
  qed
qed

end
