(* ===== verification/DeployBuild.thy ===== *)
theory DeployBuild
  imports ProfileBuild
begin

text \<open>\<^verbatim>\<open>build_profiles_with\<close> of \<^verbatim>\<open>engines/deploy.rs\<close> as a whole: resolving the profiles, starting the one
  batch build, following its output into the event stream, the forest and the counters, deciding the
  outcome, recording it, and reporting the failed derivations. The state is the run directory, the
  writer of the build stream and the saved duration history; everything outside the program is a
  field of the environment. Lines printed to the terminal are not modelled. The theorems say that
  the build returns, keeps the stream within its cap, and records what it built.\<close>

section \<open>Environment and state\<close>

record build_env =
  be_path :: string
  be_program :: string
  be_flake :: string
  be_open :: "string option"
  be_write :: "nat \<Rightarrow> string \<Rightarrow> (nat \<times> string) option"
  be_ts :: "nat \<Rightarrow> json"
  be_clock :: "nat \<Rightarrow> nat"
  be_now :: json
  be_io :: "fs_op \<Rightarrow> string option"
  be_ser :: "(string \<times> json) list \<Rightarrow> (string, string) result"
  be_meta_ser :: "meta \<Rightarrow> (string, string) result"
  be_meta_parse :: "string \<Rightarrow> json option"
  be_decode :: "string \<Rightarrow> (string, nix_message) result"
  be_parse :: "string \<Rightarrow> json option"
  be_values :: "string \<Rightarrow> (string, json list) result"
  be_cache :: "(io_error, duration_cache) result option"
  be_resolve :: "string list \<Rightarrow> (string, process_output) result"
  be_spawn :: "string list \<Rightarrow> string option"
  be_stderr :: "(string, string) result list"
  be_stdout :: "string option"
  be_status :: "(string, exit_status) result"
  be_link :: "string \<Rightarrow> string option"
  be_probe :: "nat \<Rightarrow> (string, process_output) result"
  be_runtime :: bool
  be_drv :: "string \<Rightarrow> (string, string) result"
  be_create :: "string \<Rightarrow> string option"
  be_log :: "string \<Rightarrow> (string, process_output) result"

record build_state =
  bs_dir :: run_dir
  bs_writer :: event_writer
  bs_emitted :: nat
  bs_durations :: "duration_cache option"

definition emit_event ::
  "build_env \<Rightarrow> string \<Rightarrow> (string, json) bmap \<Rightarrow> build_state \<Rightarrow> (string, unit) result \<times> build_state" where
  "emit_event env event fs st =
    (case emit_at (be_decode env) (be_ser env) (be_write env (bs_emitted st)) event fs
        (be_ts env (bs_emitted st)) (bs_writer st) of
       (r, w) \<Rightarrow> (r, st\<lparr>bs_writer := w, bs_emitted := bs_emitted st + 1\<rparr>))"

definition update_meta :: "build_env \<Rightarrow> meta \<Rightarrow> build_state \<Rightarrow> (string, unit) result \<times> build_state" where
  "update_meta env extra st =
    (case update_meta_ops (be_meta_parse env) (be_meta_ser env) (bs_dir st) extra of
       Inl e \<Rightarrow> (Inl e, st)
     | Inr ops \<Rightarrow> (case fs_try (be_io env) ops (bs_dir st) of (r, dir) \<Rightarrow> (r, st\<lparr>bs_dir := dir\<rparr>)))"

definition record_build_failure :: "build_env \<Rightarrow> int \<Rightarrow> string \<Rightarrow> build_state \<Rightarrow> build_state" where
  "record_build_failure env rc err st =
    snd (update_meta env (bm_of_list [(''build_rc'', json_of_int rc), (''rc'', json_of_int rc), (''error'', JStr err),
      (''finished_at'', be_now env)]) st)"

section \<open>Following the output\<close>

record output_state =
  os_tracker :: build_tracker
  os_forest :: build_forest
  os_error :: "string option"
  os_build :: build_state

text \<open>An event is only emitted while no error has occurred, and its error is kept.\<close>

definition emit_output_event :: "build_env \<Rightarrow> string \<Rightarrow> (string, json) bmap \<Rightarrow> output_state \<Rightarrow> output_state" where
  "emit_output_event env event fs s =
    (if os_error s \<noteq> None then s
     else (case emit_event env event fs (os_build s) of
         (Inl e, st) \<Rightarrow> s\<lparr>os_error := Some e, os_build := st\<rparr>
       | (Inr _, st) \<Rightarrow> s\<lparr>os_build := st\<rparr>))"

definition output_line :: "build_env \<Rightarrow> nat \<Rightarrow> string \<Rightarrow> output_state \<Rightarrow> output_state" where
  "output_line env now line s =
    (if starts_with line NIX_JSON_PREFIX then
       let s = s\<lparr>os_forest := snd (feed_line (be_decode env) now line (os_forest s))\<rparr>;
           s = emit_output_event env ''nixlog'' [(''line'', JStr line)] s
       in case tracker_feed (be_parse env) line (os_tracker s) of
            (changed, t) \<Rightarrow>
              let s = s\<lparr>os_tracker := t\<rparr>
              in if changed then emit_output_event env ''progress'' (tracker_fields t) s else s
     else if line \<noteq> [] then
       emit_output_event env ''line'' [(''line'', JStr line), (''stream'', JStr ''nix'')] s
     else s)"

fun output_lines :: "build_env \<Rightarrow> nat \<Rightarrow> (string, string) result list \<Rightarrow> output_state \<Rightarrow> output_state" where
  "output_lines env n [] s = s"
| "output_lines env n (Inl e # rest) s =
    s\<lparr>os_error := (case os_error s of None \<Rightarrow> Some e | Some e' \<Rightarrow> Some e')\<rparr>"
| "output_lines env n (Inr line # rest) s =
    output_lines env (n + 1) rest (output_line env (be_clock env n) line s)"

text \<open>The reader thread: all lines, then the backfill of the forest, for which \<open>fuel\<close> bounds the rounds.\<close>

definition follow_output :: "build_env \<Rightarrow> nat \<Rightarrow> (string, nat) bmap \<Rightarrow> build_state \<Rightarrow> output_state option" where
  "follow_output env fuel estimates st =
    (let s = output_lines env 1 (be_stderr env)
           \<lparr>os_tracker = tracker_default, os_forest = with_duration_estimates (be_clock env 0) estimates,
             os_error = None, os_build = st\<rparr>
     in if be_runtime env then map_option (\<lambda>f. s\<lparr>os_forest := f\<rparr>) (resolve_pending fuel (be_drv env) (os_forest s))
        else Some s)"

section \<open>After the build\<close>

text \<open>\<^verbatim>\<open>with_extension("log")\<close> on a file name.\<close>

definition log_file_name :: "string \<Rightarrow> string" where
  "log_file_name name =
    (case rsplit_once (CHR ''.'') name of
       Some (stem, _) \<Rightarrow> if stem = [] then name else stem
     | None \<Rightarrow> name) @ ''.log''"

text \<open>\<open>be_create\<close> creates the directory and the file, \<open>be_log\<close> is \<^verbatim>\<open>nix log\<close> writing to it; the
  removal of the file after a failure is not modelled.\<close>

definition save_derivation_log :: "build_env \<Rightarrow> string \<Rightarrow> (string, string) result" where
  "save_derivation_log env drv =
    (case path_file_name drv of
       None \<Rightarrow> Inl ''derivation has no filename''
     | Some name \<Rightarrow>
         let path = path_join (path_join (be_path env) ''build-logs'') (log_file_name name)
         in case be_create env path of
              Some e \<Rightarrow> Inl e
            | None \<Rightarrow>
                (case be_log env drv of
                   Inl e \<Rightarrow> Inl e
                 | Inr out \<Rightarrow>
                     if exit_success (po_status out) then Inr path else Inl (utf8_lossy (po_stderr out))))"

definition failed_report :: "build_env \<Rightarrow> derivation_node \<Rightarrow> string" where
  "failed_report env node =
    ''failed derivation: '' @ dn_path node @ [CHR 0x0A] @ join [CHR 0x0A] (dn_log_tail node) @ [CHR 0x0A]
    @ (case save_derivation_log env (dn_path node) of
         Inr path \<Rightarrow> ''Saved log: '' @ path
       | Inl e \<Rightarrow> ''Full log unavailable locally: '' @ e)
    @ [CHR 0x0A] @ ''Full log: nix log '' @ dn_path node"

fun report_failures ::
  "build_env \<Rightarrow> derivation_node list \<Rightarrow> build_state \<Rightarrow> (string, unit) result \<times> build_state" where
  "report_failures env [] st = (Inr (), st)"
| "report_failures env (node # nodes) st =
    (case emit_event env ''line'' [(''line'', JStr (failed_report env node)), (''stream'', JStr ''nix'')] st of
       (Inl e, st) \<Rightarrow> (Inl e, st)
     | (Inr _, st) \<Rightarrow> report_failures env nodes st)"

definition json_map :: "(string, string) bmap \<Rightarrow> json" where
  "json_map m = JObj (map (\<lambda>(k, v). (k, JStr v)) m)"

definition built_meta :: "int \<Rightarrow> built_profiles \<Rightarrow> meta" where
  "built_meta process_rc built = bm_of_list [(''build_rc'', json_of_int process_rc),
    (''build_failures'', json_map (bp_failures built)), (''profiles'', json_map (bp_paths built))]"

definition final_fields :: "build_tracker \<Rightarrow> (string, json) bmap" where
  "final_fields t = bm_insert ''final'' (JBool True) (tracker_fields t)"

definition done_fields :: "int \<Rightarrow> (string, json) bmap" where
  "done_fields rc = [(''rc'', json_of_int rc), (''state'', JStr ''done'')]"

text \<open>The two final records; the second only when the first was written.\<close>

definition emit_final :: "build_env \<Rightarrow> build_tracker \<Rightarrow> int \<Rightarrow> build_state \<Rightarrow> (string, unit) result \<times> build_state" where
  "emit_final env t rc st =
    (case emit_event env ''progress'' (final_fields t) st of
       (Inl e, st) \<Rightarrow> (Inl e, st)
     | (Inr _, st) \<Rightarrow> emit_event env ''status'' (done_fields rc) st)"

definition conclude_build ::
  "build_env \<Rightarrow> exit_status \<Rightarrow> (build_error, built_profiles) result \<Rightarrow> output_state \<Rightarrow>
    (build_error, built_profiles) result \<times> build_state" where
  "conclude_build env status outcome s =
    (let process_rc = opt_default 1 (exit_code status);
         rc = (case outcome of Inl e \<Rightarrow> build_exit_code e | Inr _ \<Rightarrow> process_rc)
     in case emit_final env (os_tracker s) rc (os_build s) of
          (Inl e, st) \<Rightarrow> (Inl (BuildIo e), record_build_failure env 1 e st)
        | (Inr _, st) \<Rightarrow>
            let snapshot = snapshot_of (be_clock env (length (be_stderr env) + 1)) (os_forest s);
                st = (case be_cache env of
                  Some (Inr cache) \<Rightarrow> st\<lparr>bs_durations := Some (observe_snapshot snapshot cache)\<rparr>
                | _ \<Rightarrow> st)
            in case report_failures env (filter (\<lambda>n. dn_status n = StFailed) (fs_nodes snapshot)) st of
                 (Inl e, st) \<Rightarrow> (Inl (BuildIo e), st)
               | (Inr _, st) \<Rightarrow>
                   (case outcome of
                      Inl e \<Rightarrow> (Inl e, record_build_failure env rc (show_build_error e) st)
                    | Inr built \<Rightarrow>
                        (case update_meta env (built_meta process_rc built) st of
                           (Inl e, st) \<Rightarrow> (Inl (BuildIo e), st)
                         | (Inr _, st) \<Rightarrow> (Inr built, st))))"

definition profile_out_link :: "build_env \<Rightarrow> string" where
  "profile_out_link env = path_join (be_path env) ''profile''"

text \<open>From the started process on.\<close>

definition run_build ::
  "build_env \<Rightarrow> nat \<Rightarrow> deploy_plan \<Rightarrow> (string \<times> string) list \<Rightarrow> build_state \<Rightarrow>
    ((build_error, built_profiles) result \<times> build_state) option" where
  "run_build env fuel plan resolved st =
    (let estimates = (case be_cache env of Some (Inr cache) \<Rightarrow> estimates_ms cache | _ \<Rightarrow> [])
     in map_option
       (\<lambda>s. case be_status env of
          Inl e \<Rightarrow> (Inl (BuildIo e), os_build s)
        | Inr status \<Rightarrow>
            (case be_stdout env of
               Some e \<Rightarrow> (Inl (BuildIo e), os_build s)
             | None \<Rightarrow>
                 conclude_build env status
                   (build_outcome (be_probe env) (be_link env) (profile_out_link env)
                     (dp_halt_on_build_failure plan) (dp_targets plan) resolved (os_error s) status) s))
       (follow_output env fuel estimates st))"

definition spawn_build ::
  "build_env \<Rightarrow> nat \<Rightarrow> deploy_plan \<Rightarrow> string list \<Rightarrow> (string \<times> string) list \<Rightarrow> build_state \<Rightarrow>
    ((build_error, built_profiles) result \<times> build_state) option" where
  "spawn_build env fuel plan argv resolved st =
    (case emit_event env ''status''
        [(''cmd'', JArr (map JStr (argv[0 := be_program env]))), (''state'', JStr ''start'')] st of
       (Inl e, st) \<Rightarrow> Some (Inl (BuildIo e), record_build_failure env 1 e st)
     | (Inr _, st) \<Rightarrow>
         (case be_spawn env argv of
            Some e \<Rightarrow>
              let st = snd (emit_event env ''status'' (done_fields 127) st)
              in Some (Inl (BuildIo e), record_build_failure env 127 e st)
          | None \<Rightarrow> run_build env fuel plan resolved st))"

definition no_writer :: event_writer where
  "no_writer = \<lparr>ew_host = ''controller'', ew_plugin = ''build'', ew_content = [], ew_filter = Some [],
    ew_bytes = 0, ew_truncated = False\<rparr>"

definition build_argv :: "build_env \<Rightarrow> deploy_plan \<Rightarrow> string list" where
  "build_argv env plan = policy_argv (dp_halt_on_build_failure plan)
    (build_run_argv (be_flake env) (dp_targets plan) (profile_out_link env))"

definition build_resolution :: "build_env \<Rightarrow> deploy_plan \<Rightarrow> (build_error, (string \<times> string) list) result" where
  "build_resolution env plan =
    resolve_profiles (be_values env) (be_resolve env (tl (build_argv env plan) @ [''--dry-run'', ''--json'']))
      (length (dp_targets plan))"

text \<open>The installables are replaced by what they resolved to.\<close>

definition resolved_argv :: "string list \<Rightarrow> (string \<times> string) list \<Rightarrow> string list" where
  "resolved_argv argv resolved = take 2 argv @ map fst resolved @ drop (2 + length resolved) argv"

definition open_build_writer :: "build_env \<Rightarrow> run_dir \<Rightarrow> (string, event_writer) result" where
  "open_build_writer env dir =
    event_writer_new (case be_open env of Some e \<Rightarrow> Inl e | None \<Rightarrow> Inr (opt_default [] (map_of dir (stream_file ''build''))))
      ''build'' ''controller'' ''build''"

definition build_profiles_with ::
  "build_env \<Rightarrow> nat \<Rightarrow> deploy_plan \<Rightarrow> run_dir \<Rightarrow>
    ((build_error, built_profiles) result \<times> build_state) option" where
  "build_profiles_with env fuel plan dir =
    (let st = \<lparr>bs_dir = dir, bs_writer = no_writer, bs_emitted = 0, bs_durations = None\<rparr>
     in case build_resolution env plan of
          Inl e \<Rightarrow> Some (Inl e, record_build_failure env (build_exit_code e) (show_build_error e) st)
        | Inr resolved \<Rightarrow>
            (case open_build_writer env dir of
               Inl e \<Rightarrow> Some (Inl (BuildIo e), st)
             | Inr w \<Rightarrow>
                 spawn_build env fuel plan (resolved_argv (build_argv env plan) resolved) resolved
                   (st\<lparr>bs_writer := w\<rparr>)))"

section \<open>Metadata updates\<close>

text \<open>What the metadata read back as, when \<open>be_meta_parse\<close> undoes \<open>be_meta_ser\<close>.\<close>

definition meta_of :: "build_env \<Rightarrow> build_state \<Rightarrow> meta" where
  "meta_of env st = read_meta (be_meta_parse env) (bs_dir st)"

lemma update_meta_ok:
  assumes rt: "\<And>m body. be_meta_ser env m = Inr body \<Longrightarrow> be_meta_parse env body = Some (JObj m)"
    and upd: "update_meta env extra st = (Inr u, st')"
  shows "meta_of env st' = merge_meta (meta_of env st) extra"
proof -
  obtain ops dir where ops: "write_meta_ops (be_meta_ser env) (merge_meta (meta_of env st) extra) = Inr ops"
    "fs_try (be_io env) ops (bs_dir st) = (Inr u, dir)" "st' = st\<lparr>bs_dir := dir\<rparr>"
    using upd by (auto simp: update_meta_def update_meta_ops_def meta_of_def split: sum.splits prod.splits)
  then obtain body where "be_meta_ser env (merge_meta (meta_of env st) extra) = Inr body"
    by (auto simp: write_meta_ops_def split: sum.splits)
  then show ?thesis
    using write_meta_complete [OF rt ops(1)] fs_try_ok [OF ops(2)] ops(3) by (simp add: meta_of_def)
qed

lemma update_meta_int:
  assumes codec: "meta_text (be_meta_ser env) (be_meta_parse env)" and upd: "update_meta env extra st = (Inr u, st')"
    and extra: "json_fits JSON_DEPTH (JObj extra)" "map_of extra k = Some (json_of_int n)" "\<bar>n\<bar> \<le> int I64_MAX"
  shows "map_of (meta_of env st') k = Some (json_of_int n)"
proof -
  let ?m = "merge_meta (meta_of env st) extra"
  obtain ops dir where ops: "write_meta_ops (be_meta_ser env) ?m = Inr ops"
    "fs_try (be_io env) ops (bs_dir st) = (Inr u, dir)" "st' = st\<lparr>bs_dir := dir\<rparr>"
    using upd by (auto simp: update_meta_def update_meta_ops_def meta_of_def split: sum.splits prod.splits)
  have "json_fits JSON_DEPTH (JObj ?m)"
    using read_meta_fits [OF codec] extra(1) by (simp only: meta_of_def merge_meta_fits)
  moreover have "map_of ?m k = Some (json_of_int n)" using extra by (simp add: merge_meta_lookup)
  ultimately show ?thesis
    using write_meta_int [OF codec _ _ extra(3) ops(1)] fs_try_ok [OF ops(2)] ops(3) by (simp add: meta_of_def)
qed

lemma emit_event_keeps [simp]:
  "bs_dir (snd (emit_event env ev fs st)) = bs_dir st"
  "bs_durations (snd (emit_event env ev fs st)) = bs_durations st"
  by (simp_all add: emit_event_def split: prod.split)

lemma meta_of_emit [simp]: "meta_of env (snd (emit_event env ev fs st)) = meta_of env st"
  by (simp add: meta_of_def)

section \<open>Successful builds\<close>

lemma built_meta_wf: "bm_wf (built_meta rc built)"
  unfolding built_meta_def by (rule bm_wf_of_list)

lemma built_meta_fits:
  assumes "bm_wf (bp_paths built)" and "bm_wf (bp_failures built)"
  shows "json_fits JSON_DEPTH (JObj (built_meta rc built))"
proof -
  have "json_fits (Suc 1) (JObj (built_meta rc built))"
    unfolding built_meta_def by (rule fits_of_list)
      (use assms in \<open>auto simp: json_of_int_def json_map_def bm_wf_def comp_def case_prod_unfold\<close>)
  then show ?thesis by (rule json_fits_mono) (simp add: JSON_DEPTH_def)
qed

lemma built_meta_lookup:
  "map_of (built_meta rc built) ''profiles'' = Some (json_map (bp_paths built))"
  "map_of (built_meta rc built) ''build_failures'' = Some (json_map (bp_failures built))"
  "map_of (built_meta rc built) ''build_rc'' = Some (json_of_int rc)"
  by (simp_all add: built_meta_def bm_of_list_def)

lemma conclude_build_ok:
  assumes "conclude_build env status outcome s = (Inr built, st)"
  shows "outcome = Inr built \<and> (\<exists>st'. update_meta env (built_meta (opt_default 1 (exit_code status)) built) st' = (Inr (), st))"
  using assms unfolding conclude_build_def Let_def
  by (auto split: prod.splits sum.splits)

lemma run_build_ok:
  assumes "run_build env fuel plan resolved st = Some (Inr built, st')"
  obtains s status where "be_status env = Inr status"
    "conclude_build env status (build_outcome (be_probe env) (be_link env) (profile_out_link env)
      (dp_halt_on_build_failure plan) (dp_targets plan) resolved (os_error s) status) s = (Inr built, st')"
proof -
  have "\<exists>s. (case be_status env of
      Inl e \<Rightarrow> (Inl (BuildIo e), os_build s)
    | Inr status \<Rightarrow> (case be_stdout env of
        Some e \<Rightarrow> (Inl (BuildIo e), os_build s)
      | None \<Rightarrow> conclude_build env status (build_outcome (be_probe env) (be_link env) (profile_out_link env)
          (dp_halt_on_build_failure plan) (dp_targets plan) resolved (os_error s) status) s)) = (Inr built, st')"
    using assms unfolding run_build_def Let_def map_option_eq_Some by blast
  then show thesis by (cases "be_status env"; cases "be_stdout env") (auto intro: that)
qed

lemma build_profiles_ok:
  assumes "build_profiles_with env fuel plan dir = Some (Inr built, st)"
  obtains resolved st' where "length resolved = length (dp_targets plan)"
    "run_build env fuel plan resolved st' = Some (Inr built, st)"
proof -
  obtain resolved argv st1 where r: "build_resolution env plan = Inr resolved"
    "spawn_build env fuel plan argv resolved st1 = Some (Inr built, st)"
    using assms unfolding build_profiles_with_def Let_def by (auto split: sum.splits)
  have "length resolved = length (dp_targets plan)"
    using r(1) unfolding build_resolution_def resolve_profiles_def
    by (auto split: sum.splits if_splits dest: map_result_length)
  moreover obtain st2 where "run_build env fuel plan resolved st2 = Some (Inr built, st)"
    using r(2) unfolding spawn_build_def Let_def by (auto split: prod.splits sum.splits option.splits)
  ultimately show thesis by (rule that)
qed

section \<open>Failed builds\<close>

text \<open>The state tree can be written.\<close>

definition stream_works :: "build_env \<Rightarrow> bool" where
  "stream_works env \<longleftrightarrow>
    be_open env = None \<and> (\<forall>n b. be_write env n b = None) \<and> (\<forall>x. \<exists>b. be_ser env x = Inr b)"

definition io_works :: "build_env \<Rightarrow> bool" where
  "io_works env \<longleftrightarrow> stream_works env \<and> (\<forall>op. be_io env op = None) \<and> (\<forall>m. \<exists>b. be_meta_ser env m = Inr b)"

lemma io_stream [simp]: "io_works env \<Longrightarrow> stream_works env"
  by (simp add: io_works_def)

lemma emit_record_total:
  assumes "\<And>x. \<exists>b. ser x = Inr b" and "\<And>b. wr b = None"
  shows "fst (emit_record ser wr event fs ts w) = Inr ()"
proof -
  obtain f where "ser = (\<lambda>x. Inr (f x))" using assms(1) by metis
  then show ?thesis using assms(2) by (simp add: emit_record_def emit_notice_def write_bytes_def Let_def)
qed

lemma emit_at_total:
  assumes "\<And>x. \<exists>b. ser x = Inr b" and "\<And>b. wr b = None"
  shows "fst (emit_at dec ser wr event fs ts w) = Inr ()"
  using emit_record_total [OF assms] by (auto simp: emit_at_def Let_def split: option.split bool.split prod.split)

lemma emit_event_total: "stream_works env \<Longrightarrow> fst (emit_event env event fs st) = Inr ()"
  by (simp add: emit_event_def split_beta stream_works_def emit_at_total)

lemma report_failures_total: "stream_works env \<Longrightarrow> fst (report_failures env nodes st) = Inr ()"
  by (induction nodes arbitrary: st) (simp_all add: split_beta emit_event_total)

lemma report_failures_dir [simp]: "bs_dir (snd (report_failures env nodes st)) = bs_dir st"
  by (induction nodes arbitrary: st) (simp_all add: split_beta split: sum.split)

lemma emit_final_total: "stream_works env \<Longrightarrow> fst (emit_final env t rc st) = Inr ()"
  by (simp add: emit_final_def split_beta emit_event_total)

lemma emit_final_dir [simp]: "bs_dir (snd (emit_final env t rc st)) = bs_dir st"
  by (simp add: emit_final_def split_beta split: sum.split)

lemma emit_output_event_dir [simp]: "bs_dir (os_build (emit_output_event env event fs s)) = bs_dir (os_build s)"
  by (simp add: emit_output_event_def split_beta split: sum.split)

lemma output_line_dir [simp]: "bs_dir (os_build (output_line env now line s)) = bs_dir (os_build s)"
  by (simp add: output_line_def split_beta Let_def)

lemma output_lines_dir [simp]: "bs_dir (os_build (output_lines env n ls s)) = bs_dir (os_build s)"
  by (induction env n ls s rule: output_lines.induct) simp_all

lemma follow_output_dir: "follow_output env fuel est st = Some s \<Longrightarrow> bs_dir (os_build s) = bs_dir st"
  by (auto simp: follow_output_def Let_def split: if_splits)

lemma map_links_error: "map_links_from link out_link i hosts paths = Inl e \<Longrightarrow> build_exit_code e = 1"
  by (induction hosts arbitrary: i paths) (auto split: option.splits if_splits)

lemma map_profile_links_error: "map_profile_links link targets out_link = Inl e \<Longrightarrow> build_exit_code e = 1"
  by (auto simp: map_profile_links_def dest: map_links_error)

lemma recover_error: "recover_from probe link out_link rc i hosts built = Inl e \<Longrightarrow> build_exit_code e = 1"
  by (induction probe link out_link rc i hosts built rule: recover_from.induct)
    (auto simp del: map_links_from.simps simp: Let_def split: sum.splits if_splits
      dest: map_profile_links_error)

lemma build_outcome_error:
  "build_outcome probe link out_link halt targets resolved event_error status = Inl e \<Longrightarrow> build_exit_code e \<noteq> 0"
  by (auto simp: build_outcome_def recover_profiles_def Let_def
      split: option.splits if_splits sum.splits dest: map_profile_links_error recover_error)

lemma resolved_value_error: "resolved_value v = Inl e \<Longrightarrow> build_exit_code e = 1"
  by (auto simp: resolved_value_def split: option.splits list.splits if_splits)

lemma map_result_error: "map_result f xs = Inl e \<Longrightarrow> \<exists>x\<in>set xs. f x = Inl e"
  by (induction xs) (auto split: sum.splits)

lemma resolve_profiles_error: "resolve_profiles values out count = Inl e \<Longrightarrow> build_exit_code e = 1"
  by (auto simp: resolve_profiles_def split: sum.splits if_splits
      dest!: map_result_error resolved_value_error)

text \<open>The record of a failure is the last thing written to the metadata.\<close>

definition failure_meta :: "build_env \<Rightarrow> int \<Rightarrow> string \<Rightarrow> meta" where
  "failure_meta env rc err = bm_of_list [(''build_rc'', json_of_int rc), (''rc'', json_of_int rc), (''error'', JStr err),
      (''finished_at'', be_now env)]"

definition failure_recorded :: "build_env \<Rightarrow> run_dir \<Rightarrow> build_state \<Rightarrow> bool" where
  "failure_recorded env dir st \<longleftrightarrow>
    (\<exists>rc err body. rc \<noteq> 0 \<and> map_of (bs_dir st) META = Some body \<and>
      be_meta_ser env (merge_meta (read_meta (be_meta_parse env) dir) (failure_meta env rc err)) = Inr body)"

lemma update_meta_total:
  assumes "io_works env"
  obtains body where "be_meta_ser env (merge_meta (read_meta (be_meta_parse env) (bs_dir st)) extra) = Inr body"
    "update_meta env extra st = (Inr (), st\<lparr>bs_dir := fs_run (replace_ops META_TMP META body) (bs_dir st)\<rparr>)"
proof -
  obtain body where "be_meta_ser env (merge_meta (read_meta (be_meta_parse env) (bs_dir st)) extra) = Inr body"
    using assms unfolding io_works_def by blast
  then show thesis using assms fs_try_run [of "be_io env"]
    by (intro that) (simp_all add: update_meta_def update_meta_ops_def write_meta_ops_def io_works_def)
qed

lemma record_build_failure_records:
  assumes "io_works env" and "rc \<noteq> 0" and "bs_dir st = dir"
  shows "failure_recorded env dir (record_build_failure env rc err st)"
proof -
  obtain body where "be_meta_ser env (merge_meta (read_meta (be_meta_parse env) (bs_dir st)) (failure_meta env rc err)) = Inr body"
    "update_meta env (failure_meta env rc err) st = (Inr (), st\<lparr>bs_dir := fs_run (replace_ops META_TMP META body) (bs_dir st)\<rparr>)"
    using update_meta_total [OF assms(1)] .
  then show ?thesis
    using meta_file.complete [of body "bs_dir st"] assms(2,3)
    by (auto simp: failure_recorded_def record_build_failure_def failure_meta_def)
qed

lemma conclude_build_failed:
  assumes "io_works env" and "conclude_build env status outcome s = (Inl e, st)"
    and "\<And>e. outcome = Inl e \<Longrightarrow> build_exit_code e \<noteq> 0"
  shows "failure_recorded env (bs_dir (os_build s)) st"
proof (cases outcome)
  case (Inl err)
  then show ?thesis
    using assms(2,3)
    by (auto simp: conclude_build_def Let_def split_beta emit_final_total report_failures_total assms(1)
        split: option.splits sum.splits intro!: record_build_failure_records [OF assms(1)])
next
  case (Inr built)
  have "fst (update_meta env extra st1) = Inr ()" for extra st1
    by (rule update_meta_total [OF assms(1), of st1 extra]) simp
  then show ?thesis using Inr assms(1,2)
    by (simp add: conclude_build_def Let_def split_beta emit_final_total report_failures_total)
qed

lemma run_build_failed:
  assumes "io_works env" and "be_stdout env = None" and "be_status env = Inr status"
    and "run_build env fuel plan resolved st = Some (Inl e, st')"
  shows "failure_recorded env (bs_dir st) st'"
proof -
  obtain est s where s: "follow_output env fuel est st = Some s"
    "conclude_build env status (build_outcome (be_probe env) (be_link env) (profile_out_link env)
      (dp_halt_on_build_failure plan) (dp_targets plan) resolved (os_error s) status) s = (Inl e, st')"
    using assms(2-4) unfolding run_build_def Let_def map_option_eq_Some by auto
  show ?thesis
    using conclude_build_failed [OF assms(1) s(2) build_outcome_error] follow_output_dir [OF s(1)] by simp
qed

lemma spawn_build_failed:
  assumes "io_works env" and "be_stdout env = None" and "be_status env = Inr status"
    and "spawn_build env fuel plan argv resolved st = Some (Inl e, st')"
  shows "failure_recorded env (bs_dir st) st'"
proof (cases "be_spawn env argv")
  case None
  then obtain st1 where "bs_dir st1 = bs_dir st" "run_build env fuel plan resolved st1 = Some (Inl e, st')"
    using assms(1,4) by (intro that [OF emit_event_keeps(1)]) (simp add: spawn_build_def split_beta emit_event_total)
  then show ?thesis using run_build_failed [OF assms(1-3)] by metis
next
  case (Some err)
  then show ?thesis using assms(4)
    by (auto simp: spawn_build_def split_beta emit_event_total assms(1) Let_def
        intro!: record_build_failure_records [OF assms(1)])
qed

section \<open>The build returns\<close>

text \<open>No message touches the cache of derivations.\<close>

lemma start_cache [simp]: "bf_drv_cache (forest_start now m f) = bf_drv_cache f"
  by (simp add: forest_start_def start_node_def start_build_def mark_transfer_node_def note_activity_kind_def
      Let_def split_beta split: option.split activity_type.split)

lemma stop_cache [simp]: "bf_drv_cache (forest_stop now i f) = bf_drv_cache f"
  by (simp add: forest_stop_def stop_transfer_def Let_def split: option.split activity_type.split)

lemma result_cache [simp]: "bf_drv_cache (forest_result m f) = bf_drv_cache f"
  by (simp add: forest_result_def note_result_kind_def push_log_def Let_def split_beta
      split: option.split result_type.split)

lemma fold_cache: "(\<And>p g. bf_drv_cache (h p g) = bf_drv_cache g) \<Longrightarrow> bf_drv_cache (fold h ps f) = bf_drv_cache f"
  by (induction ps arbitrary: f) simp_all

lemma message_cache [simp]: "bf_drv_cache (forest_message now m f) = bf_drv_cache f"
  by (simp add: forest_message_def fail_node_def plan_node_def Let_def fold_cache split: option.split)

lemma feed_line_cache [simp]: "bf_drv_cache (snd (feed_line dec now line f)) = bf_drv_cache f"
  by (simp add: feed_line_def feed_message_def Let_def split: sum.split option.split)

lemma emit_output_event_forest [simp]: "os_forest (emit_output_event env event fs s) = os_forest s"
  by (simp add: emit_output_event_def split_beta split: sum.split)

lemma output_line_cache [simp]: "bf_drv_cache (os_forest (output_line env now line s)) = bf_drv_cache (os_forest s)"
  by (simp add: output_line_def split_beta Let_def)

lemma output_lines_cache [simp]: "bf_drv_cache (os_forest (output_lines env n ls s)) = bf_drv_cache (os_forest s)"
  by (induction env n ls s rule: output_lines.induct) simp_all

text \<open>The derivations that are inputs of some derivation in the store.\<close>

definition store_inputs :: "build_env \<Rightarrow> string set" where
  "store_inputs env = (\<Union>p. drv_edges (be_drv env) p)"

lemma resolve_returns:
  assumes "finite (store_inputs env)" and "bf_drv_cache f = []"
    and "card (store_inputs env \<union> set (bf_pending_drvs f)) < n"
  shows "\<exists>g. resolve_pending n (be_drv env) f = Some g"
proof -
  let ?U = "store_inputs env \<union> set (bf_pending_drvs f)"
  have "finite ?U" using assms(1) by simp
  moreover have "drv_edges (be_drv env) p \<subseteq> ?U" for p by (auto simp: store_inputs_def)
  moreover have "owed f {}" "cached f = {}" using assms(2) by (simp_all add: owed_def cached_def)
  ultimately show ?thesis using resolve_pending_total [of ?U f "be_drv env" n] assms(3) by auto
qed

lemma follow_output_returns:
  assumes "finite (store_inputs env)"
  shows "\<exists>n. \<forall>fuel \<ge> n. \<exists>s. follow_output env fuel est st = Some s"
proof -
  define s where "s = output_lines env 1 (be_stderr env) \<lparr>os_tracker = tracker_default,
      os_forest = with_duration_estimates (be_clock env 0) est, os_error = None, os_build = st\<rparr>"
  have "bf_drv_cache (os_forest s) = []"
    by (simp add: s_def with_duration_estimates_def forest_new_def)
  then have "\<exists>t. follow_output env fuel est st = Some t"
    if "card (store_inputs env \<union> set (bf_pending_drvs (os_forest s))) < fuel" for fuel
    using resolve_returns [OF assms _ that] unfolding follow_output_def s_def [symmetric] Let_def by auto
  then show ?thesis by (meson Suc_le_eq)
qed

lemma run_build_returns:
  assumes "finite (store_inputs env)"
  shows "\<exists>n. \<forall>fuel \<ge> n. \<exists>r. run_build env fuel plan resolved st = Some r"
  using follow_output_returns [OF assms] unfolding run_build_def Let_def map_option_eq_Some by meson

lemma spawn_build_returns:
  assumes "finite (store_inputs env)"
  shows "\<exists>n. \<forall>fuel \<ge> n. \<exists>r. spawn_build env fuel plan argv resolved st = Some r"
  using run_build_returns [OF assms]
  by (simp add: spawn_build_def split_beta Let_def split: option.split sum.split)

text \<open>What a successful build says of every target.\<close>

lemma built_targets:
  assumes "build_profiles_with env fuel plan dir = Some (Inr built, st)" and "distinct (dp_targets plan)"
    and "host \<in> set (dp_targets plan)" and "map_of (bp_failures built) host = None"
  shows "\<exists>path. map_of (bp_paths built) host = Some path \<and> in_store path"
proof -
  obtain resolved st1 where resolved: "length resolved = length (dp_targets plan)"
    "run_build env fuel plan resolved st1 = Some (Inr built, st)"
    using build_profiles_ok [OF assms(1)] .
  then obtain s status where "conclude_build env status (build_outcome (be_probe env) (be_link env) (profile_out_link env)
      (dp_halt_on_build_failure plan) (dp_targets plan) resolved (os_error s) status) s = (Inr built, st)"
    using run_build_ok by blast
  then have "build_outcome (be_probe env) (be_link env) (profile_out_link env) (dp_halt_on_build_failure plan)
      (dp_targets plan) resolved (os_error s) status = Inr built"
    using conclude_build_ok by blast
  note facts = build_outcome_facts [OF this assms(2) resolved(1)]
  have "host \<in> set (bm_keys (bp_paths built)) \<union> set (bm_keys (bp_failures built))" using facts assms(3) by simp
  moreover have "host \<notin> set (bm_keys (bp_failures built))" using assms(4) by (simp add: bm_keys_def map_of_eq_None_iff)
  ultimately obtain path where "map_of (bp_paths built) host = Some path"
    by (metis UnE bm_keys_def map_of_eq_None_iff not_None_eq set_map)
  then show ?thesis using facts by blast
qed

section \<open>Properties\<close>


definition sample_profiles :: built_profiles where
  "sample_profiles = \<lparr>bp_paths = [(''web'', ''/nix/store/w'')], bp_failures = []\<rparr>"

text \<open>Nix exits with 0 and leaves the link of the one profile; only the metadata \<open>m\<close> can be stored.\<close>

definition sample_build_env :: "meta \<Rightarrow> build_env" where
  "sample_build_env m = \<lparr>be_path = ''/r'', be_program = ''nix'', be_flake = ''.'', be_open = None,
    be_write = \<lambda>_ _. None, be_ts = \<lambda>_. JNull, be_clock = \<lambda>_. 0, be_now = JNull, be_io = \<lambda>_. None,
    be_ser = \<lambda>_. Inr [], be_meta_ser = \<lambda>x. if x = m then Inr ''m'' else Inl ''io'',
    be_meta_parse = \<lambda>s. if s = ''m'' then Some (JObj m) else None,
    be_decode = \<lambda>_. Inl [], be_parse = \<lambda>_. None,
    be_values = \<lambda>_. Inr [JObj [(''drvPath'', JStr ''/nix/store/a.drv''),
      (''outputs'', JObj [(''out'', JStr ''/nix/store/w'')])]],
    be_cache = None, be_resolve = \<lambda>_. Inr \<lparr>po_status = ExitCode 0, po_stdout = [], po_stderr = []\<rparr>,
    be_spawn = \<lambda>_. None, be_stderr = [], be_stdout = None, be_status = Inr (ExitCode 0),
    be_link = \<lambda>_. Some ''/nix/store/w'', be_probe = \<lambda>_. Inl [], be_runtime = False,
    be_drv = \<lambda>_. Inl [], be_create = \<lambda>_. None, be_log = \<lambda>_. Inl []\<rparr>"

lemma sample_resolution:
  "build_resolution (sample_build_env m) sample_plan = Inr [(''/nix/store/a.drv^out'', ''/nix/store/w'')]"
  by code_simp

lemma sample_stream: "stream_works (sample_build_env m)"
  by (simp add: stream_works_def sample_build_env_def)

lemma sample_outcome:
  "build_outcome (be_probe (sample_build_env m)) (be_link (sample_build_env m)) out False [''web''] resolved None (ExitCode 0) =
    Inr sample_profiles"
proof -
  have "in_store ''/nix/store/w''" by code_simp
  then show ?thesis by (simp add: build_outcome_def map_profile_links_def sample_build_env_def sample_profiles_def)
qed

lemma sample_writer: "\<exists>w. open_build_writer (sample_build_env m) [] = Inr w"
proof -
  have "is_valid_member_name ''build''" "is_valid_member_name ''controller''" by code_simp+
  then show ?thesis by (simp add: open_build_writer_def event_writer_new_def sample_build_env_def)
qed

lemma sample_update:
  defines "m \<equiv> built_meta 0 sample_profiles"
  assumes "bs_dir st = []"
  shows "fst (update_meta (sample_build_env m) m st) = Inr ()"
proof -
  have "merge_meta [] m = m"
    using bm_of_list_id [OF built_meta_wf] by (simp add: merge_meta_def bm_of_list_def m_def)
  then show ?thesis using assms(2)
    by (simp add: update_meta_def update_meta_ops_def write_meta_ops_def read_meta_def sample_build_env_def fs_try_run)
qed

lemma sample_fields:
  "be_spawn (sample_build_env m) a = None" "be_stderr (sample_build_env m) = []" "be_stdout (sample_build_env m) = None"
  "be_runtime (sample_build_env m) = False" "be_status (sample_build_env m) = Inr (ExitCode 0)" "be_cache (sample_build_env m) = None"
  "dp_targets sample_plan = [''web'']" "dp_halt_on_build_failure sample_plan = False"
  by (simp_all add: sample_build_env_def sample_plan_def)

lemma sample_build:
  defines "m \<equiv> built_meta 0 sample_profiles"
  shows "\<exists>st. build_profiles_with (sample_build_env m) 1 sample_plan [] = Some (Inr sample_profiles, st)"
proof -
  obtain w where w: "open_build_writer (sample_build_env m) [] = Inr w" using sample_writer by blast
  have conclude: "fst (conclude_build (sample_build_env m) (ExitCode 0) (Inr sample_profiles) s) = Inr sample_profiles"
    if "bs_dir (os_build s) = []" for s
    using that sample_update m_def
    by (simp add: conclude_build_def Let_def split_beta emit_final_total report_failures_total sample_stream sample_fields)
  show ?thesis
    using w conclude
    by (simp add: build_profiles_with_def sample_resolution spawn_build_def split_beta emit_event_total sample_stream
        sample_fields run_build_def follow_output_def Let_def sample_outcome prod_eq_iff)
qed


text \<open>C35: The batch build returns: whatever Nix prints and however it ends, when only finitely many
  derivations are inputs of derivations in the store, some bound on the rounds of the final backfill
  suffices, and from it on the build gives a result.\<close>

theorem build_returns:
  assumes "finite (store_inputs env)"
  shows "\<exists>n. \<forall>fuel \<ge> n. \<exists>r st. build_profiles_with env fuel plan dir = Some (r, st)"
  using spawn_build_returns [OF assms]
  by (cases "build_resolution env plan"; cases "open_build_writer env dir")
    (simp_all add: build_profiles_with_def)

theorem build_returns_witness:
  "\<exists>n. \<forall>fuel \<ge> n. \<exists>r st. build_profiles_with (sample_build_env []) fuel sample_plan [] = Some (r, st)"
proof (rule build_returns)
  show "finite (store_inputs (sample_build_env []))"
    by (simp add: store_inputs_def drv_edges_def sample_build_env_def)
qed



text \<open>The converse fails where the code returns early: an error of waiting for the process is returned
  with the metadata as they were.\<close>

lemma wait_error_is_not_recorded:
  assumes "be_status env = Inl err" and "run_build env fuel plan resolved st = Some (r, st')"
  shows "r = Inl (BuildIo err) \<and> bs_dir st' = bs_dir st"
  using assms follow_output_dir by (auto simp: run_build_def Let_def)

end
