(* ===== verification/DeployHost.thy ===== *)
theory DeployHost
  imports DeployBuild JsonText
begin

text \<open>One host of a native deployment: \<^verbatim>\<open>deploy_host_with\<close> of \<^verbatim>\<open>engines/deploy.rs\<close> with the sink that
  forwards the output of the activation library into the host's event stream, and the terminal records
  it ends with. The copy, the choice of the activation path and the activations are those of the
  theory \<open>Activation\<close>; the stream is that of \<open>BuildLog\<close>. The theorems compose them with the reader of
  the stream: what the tailer makes of the records is the state the controller reports.\<close>

section \<open>State\<close>

record host_env =
  he_open :: "(string, string) result"
  he_write :: "nat \<Rightarrow> string \<Rightarrow> (nat \<times> string) option"
  he_ts :: "nat \<Rightarrow> json"
  he_ser :: "(string \<times> json) list \<Rightarrow> (string, string) result"
  he_decode :: "string \<Rightarrow> (string, nix_message) result"
  he_serde_err :: "json \<Rightarrow> string"
  he_deploy :: deploy_env
  he_overrides :: cmd_overrides

record host_deploy_result =
  hd_host :: string
  hd_state :: host_state
  hd_error :: "string option"

text \<open>The writer, the number of records emitted so far, the first error of the sink, and the trace of
  the activation library.\<close>

record host_ctx =
  hx_writer :: event_writer
  hx_emitted :: nat
  hx_sink :: "string option"
  hx_trace :: trace

section \<open>Records\<close>

definition host_emit ::
  "host_env \<Rightarrow> string \<Rightarrow> (string, json) bmap \<Rightarrow> host_ctx \<Rightarrow> (string, unit) result \<times> host_ctx" where
  "host_emit env event fs st =
    (case emit_at (he_decode env) (he_ser env) (he_write env (hx_emitted st)) event fs
        (he_ts env (hx_emitted st)) (hx_writer st) of
       (r, w) \<Rightarrow> (r, st\<lparr>hx_writer := w, hx_emitted := hx_emitted st + 1\<rparr>))"

definition host_line :: "string \<Rightarrow> (string, json) bmap" where
  "host_line text = [(''line'', JStr text), (''stream'', JStr ''deploy'')]"

definition start_fields :: "string \<Rightarrow> (string, json) bmap" where
  "start_fields host = [(''cmd'', JArr [JStr ''mandala-deploy'', JStr host]), (''state'', JStr ''start'')]"

definition emit_milestone :: "host_env \<Rightarrow> string \<Rightarrow> host_ctx \<Rightarrow> (string, unit) result \<times> host_ctx" where
  "emit_milestone env m = host_emit env ''milestone'' [(''milestone'', JStr m)]"

definition host_result ::
  "host_env \<Rightarrow> string \<Rightarrow> host_state \<Rightarrow> string option \<Rightarrow> host_ctx \<Rightarrow> host_deploy_result \<times> host_ctx" where
  "host_result env host state error st =
    (case host_emit env ''status'' (done_fields (if error \<noteq> None then 1 else 0)) st of
       (Inl e, st) \<Rightarrow>
         (\<lparr>hd_host = host, hd_state = HFailed, hd_error = Some (''writing terminal host status: '' @ e)\<rparr>, st)
     | (Inr _, st) \<Rightarrow> (\<lparr>hd_host = host, hd_state = state, hd_error = error\<rparr>, st))"

definition failed_host :: "host_env \<Rightarrow> string \<Rightarrow> string \<Rightarrow> host_ctx \<Rightarrow> host_deploy_result \<times> host_ctx" where
  "failed_host env host error st =
    host_result env host HFailed (Some error) (snd (host_emit env ''line'' (host_line error) st))"

text \<open>The sink: every emission of the library is a line of the host's stream, the first error is kept.\<close>

fun sink_effects :: "host_env \<Rightarrow> deploy_effect list \<Rightarrow> host_ctx \<Rightarrow> host_ctx" where
  "sink_effects env [] st = st"
| "sink_effects env (Emitted l msg # es) st =
    (case host_emit env ''line'' (host_line msg) st of
       (Inl e, st) \<Rightarrow> sink_effects env es (st\<lparr>hx_sink := get_or_insert e (hx_sink st)\<rparr>)
     | (Inr _, st) \<Rightarrow> sink_effects env es st)"
| "sink_effects env (_ # es) st = sink_effects env es st"

text \<open>A call into the library: what it adds to the trace has gone through the sink.\<close>

definition call_library :: "host_env \<Rightarrow> (trace \<Rightarrow> 'a \<times> trace) \<Rightarrow> host_ctx \<Rightarrow> 'a \<times> host_ctx" where
  "call_library env f st =
    (case f (hx_trace st) of
       (r, tr) \<Rightarrow> (r, sink_effects env (drop (length (hx_trace st)) tr) (st\<lparr>hx_trace := tr\<rparr>)))"

section \<open>Messages\<close>

fun show_push_error :: "(exit_status \<Rightarrow> string) \<Rightarrow> push_error \<Rightarrow> string" where
  "show_push_error sh RemoteBuildUnsupported = ''remoteBuild is outside the native-deploy contract''"
| "show_push_error sh (PushSpawn e) = ''failed to run nix copy: '' @ e"
| "show_push_error sh (PushExit s) = ''nix copy failed with '' @ sh s"

fun show_deploy_error :: "(exit_status \<Rightarrow> string) \<Rightarrow> deploy_error \<Rightarrow> string" where
  "show_deploy_error sh InteractiveSudoUnsupported =
    ''interactive sudo is not supported by the headless native engine''"
| "show_deploy_error sh (InvalidDeployData e) = ''deployment data invalid: '' @ show_defs_error e"
| "show_deploy_error sh (ActivateSpawn e) = ''failed to run activation over ssh: '' @ e"
| "show_deploy_error sh (ActivateExit s) = ''ssh activation failed with '' @ sh s"
| "show_deploy_error sh (CanaryCleanupSpawn e) = ''failed to clear stale deployment canary over ssh: '' @ e"
| "show_deploy_error sh (CanaryCleanupExit s) = ''ssh stale deployment canary cleanup failed with '' @ sh s"
| "show_deploy_error sh (RollbackExit s) =
    ''activation rolled back with '' @ sh s @ '' before confirmation completed''"
| "show_deploy_error sh (WaitSpawn e) = ''failed to run activation waiter over ssh: '' @ e"
| "show_deploy_error sh (WaitExit s) = ''ssh activation waiter failed with '' @ sh s"
| "show_deploy_error sh (ConfirmSpawn e) = ''failed to run deployment confirmation over ssh: '' @ e"
| "show_deploy_error sh (ConfirmExit s) = ''ssh deployment confirmation failed with '' @ sh s"
| "show_deploy_error sh (CapabilityProbeSpawn e) =
    ''failed to probe target switch-inhibitor support over ssh: '' @ e"
| "show_deploy_error sh (CapabilityProbeExit s) =
    ''target switch-inhibitor capability probe failed with '' @ sh s"
| "show_deploy_error sh (PreflightSpawn e) = ''failed to run target switch preflight over ssh: '' @ e"
| "show_deploy_error sh (PreflightTransport s) = ''target switch preflight transport failed with '' @ sh s"
| "show_deploy_error sh (PreviousProfileSpawn e) =
    ''failed to resolve the previous system profile over ssh: '' @ e"
| "show_deploy_error sh (PreviousProfileExit s) =
    ''previous system profile could not be resolved: '' @ sh s"
| "show_deploy_error sh PreviousProfileInvalid =
    ''previous system profile resolved to an empty or invalid path''"
| "show_deploy_error sh (BootStage primary recovery) =
    ''boot-only staging failed: '' @ primary @ ''; recovery: '' @ recovery"

section \<open>One host\<close>

definition host_profile :: "string \<Rightarrow> profile" where
  "host_profile path = \<lparr>pf_path = path, pf_profile_path = None, pf_settings = settings_default\<rparr>"

definition host_node :: "flattened_settings \<Rightarrow> string \<Rightarrow> node" where
  "host_node s path = \<lparr>nd_settings = generic_of s, nd_hostname = fl_hostname s,
    nd_profiles = [(''system'', host_profile path)], nd_profiles_order = []\<rparr>"

definition host_deploy_data :: "cmd_overrides \<Rightarrow> flattened_settings \<Rightarrow> string \<Rightarrow> string \<Rightarrow> deploy_data" where
  "host_deploy_data overrides s host path =
    make_deploy_data settings_default (host_node s path) host (host_profile path) ''system'' overrides"

text \<open>The last phase: the milestone and the result of a successful activation, and the two kinds of
  failure.\<close>

definition conclude_host ::
  "host_env \<Rightarrow> string \<Rightarrow> activation_disposition \<Rightarrow> (deploy_error, unit) result \<Rightarrow> host_ctx \<Rightarrow>
    host_deploy_result \<times> host_ctx" where
  "conclude_host env host disposition deployment st =
    (case deployment of
       Inr _ \<Rightarrow>
         (case hx_sink st of
            Some e \<Rightarrow> failed_host env host (''writing activation output: '' @ e) st
          | None \<Rightarrow>
              let (m, state) = (if disposition = BootStaging then (''reboot-pending'', HRebootPending)
                else (''confirm'', HConfirmed))
              in case emit_milestone env m st of
                   (Inl e, st) \<Rightarrow> failed_host env host (''writing '' @ m @ '' milestone: '' @ e) st
                 | (Inr _, st) \<Rightarrow> host_result env host state None st)
     | Inl error \<Rightarrow>
         let message = show_deploy_error (de_show_status (he_deploy env)) error
         in if rolled_back error then
              (let st = snd (host_emit env ''line'' (host_line message) st)
               in case emit_milestone env ''rollback'' st of
                    (Inl e, st) \<Rightarrow> failed_host env host (''writing rollback milestone: '' @ e) st
                  | (Inr _, st) \<Rightarrow> host_result env host HRolledBack (Some message) st)
            else failed_host env host message st)"

definition DRY_REBOOT :: string where
  "DRY_REBOOT = ''dry activation: a real deployment would be staged for reboot''"

definition preview_reboot :: "host_env \<Rightarrow> string \<Rightarrow> host_ctx \<Rightarrow> host_deploy_result \<times> host_ctx" where
  "preview_reboot env host st =
    (let st = snd (host_emit env ''line'' (host_line DRY_REBOOT) st)
     in case emit_milestone env ''reboot-pending'' st of
          (Inl e, st) \<Rightarrow> failed_host env host (''writing reboot-pending milestone: '' @ e) st
        | (Inr _, st) \<Rightarrow> host_result env host HRebootPending None st)"

text \<open>The milestone \<open>wait\<close> is only written for a live switch under the canary protocol.\<close>

definition activate_host ::
  "host_env \<Rightarrow> string \<Rightarrow> bool \<Rightarrow> flattened_settings \<Rightarrow> deploy_data \<Rightarrow> deploy_defs \<Rightarrow> activation_disposition \<Rightarrow>
    host_ctx \<Rightarrow> host_deploy_result \<times> host_ctx" where
  "activate_host env host dry settings d defs disposition st =
    (case emit_milestone env ''activate'' st of
       (Inl e, st) \<Rightarrow> failed_host env host (''writing activation milestone: '' @ e) st
     | (Inr _, st) \<Rightarrow>
         (case (if disposition = LiveSwitch \<and> opt_default True (fl_magic_rollback settings)
             then emit_milestone env ''wait'' st else (Inr (), st)) of
            (Inl e, st) \<Rightarrow> failed_host env host (''writing activation-wait milestone: '' @ e) st
          | (Inr _, st) \<Rightarrow>
              (case call_library env
                  (if disposition = BootStaging then stage_profile_for_boot (he_deploy env) d defs
                   else deploy_profile (he_deploy env) d defs dry) st of
                 (deployment, st) \<Rightarrow> conclude_host env host disposition deployment st)))"

definition choose_activation ::
  "host_env \<Rightarrow> string \<Rightarrow> bool \<Rightarrow> bool \<Rightarrow> flattened_settings \<Rightarrow> deploy_data \<Rightarrow> deploy_defs \<Rightarrow>
    host_ctx \<Rightarrow> host_deploy_result \<times> host_ctx" where
  "choose_activation env host dry boot settings d defs st =
    (case call_library env (resolve_activation_disposition (he_deploy env) d defs dry
         (boot \<or> fl_activation settings = BootMode)) st of
       (Inl e, st) \<Rightarrow> failed_host env host (show_deploy_error (de_show_status (he_deploy env)) e) st
     | (Inr disposition, st) \<Rightarrow>
         (case hx_sink st of
            Some e \<Rightarrow> failed_host env host (''writing preflight output: '' @ e) st
          | None \<Rightarrow>
              if reboot_pending disposition \<and> dry then preview_reboot env host st
              else activate_host env host dry settings d defs disposition st))"

definition copy_host ::
  "host_env \<Rightarrow> string \<Rightarrow> bool \<Rightarrow> bool \<Rightarrow> flattened_settings \<Rightarrow> deploy_data \<Rightarrow> deploy_defs \<Rightarrow>
    host_ctx \<Rightarrow> host_deploy_result \<times> host_ctx" where
  "copy_host env host dry boot settings d defs st =
    (case emit_milestone env ''copy'' st of
       (Inl e, st) \<Rightarrow> failed_host env host (''writing copy milestone: '' @ e) st
     | (Inr _, st) \<Rightarrow>
         (case call_library env (push_profile (he_deploy env) d defs False) st of
            (Inl e, st) \<Rightarrow> failed_host env host (show_push_error (de_show_status (he_deploy env)) e) st
          | (Inr _, st) \<Rightarrow>
              (case hx_sink st of
                 Some e \<Rightarrow> failed_host env host (''writing copied output: '' @ e) st
               | None \<Rightarrow> choose_activation env host dry boot settings d defs st)))"

definition start_host ::
  "host_env \<Rightarrow> deploy_plan \<Rightarrow> built_profiles \<Rightarrow> string \<Rightarrow> host_ctx \<Rightarrow> host_deploy_result \<times> host_ctx" where
  "start_host env plan built host st =
    (case map_of (dp_settings plan) host of
       None \<Rightarrow> failed_host env host ''flattened deploy settings are missing'' st
     | Some v \<Rightarrow>
         (case flattened_of_json v of
            None \<Rightarrow> failed_host env host (''invalid flattened deploy settings: '' @ he_serde_err env v) st
          | Some settings \<Rightarrow>
              (case map_of (bp_paths built) host of
                 None \<Rightarrow> failed_host env host ''prebuilt profile path is missing'' st
               | Some path \<Rightarrow>
                   let d = host_deploy_data (he_overrides env) settings host path
                   in case defs_of d of
                        Inl e \<Rightarrow> failed_host env host (show_defs_error e) st
                      | Inr defs \<Rightarrow> copy_host env host (dp_dry_activate plan) (dp_boot plan) settings d defs st)))"

definition open_host :: "host_env \<Rightarrow> string \<Rightarrow> (string, host_ctx) result" where
  "open_host env host =
    (case event_writer_new (he_open env) host host ''deploy'' of
       Inl e \<Rightarrow> Inl e
     | Inr w \<Rightarrow> Inr \<lparr>hx_writer = w, hx_emitted = 0, hx_sink = None, hx_trace = []\<rparr>)"

text \<open>\<^const>\<open>None\<close> where the stream could not be opened.\<close>

definition deploy_host_with ::
  "host_env \<Rightarrow> deploy_plan \<Rightarrow> built_profiles \<Rightarrow> string \<Rightarrow> host_deploy_result \<times> host_ctx option" where
  "deploy_host_with env plan built host =
    (case open_host env host of
       Inl e \<Rightarrow>
         (\<lparr>hd_host = host, hd_state = HFailed, hd_error = Some (''opening host event stream: '' @ e)\<rparr>, None)
     | Inr st \<Rightarrow>
         (case host_emit env ''status'' (start_fields host) st of
            (Inl e, st) \<Rightarrow>
              (\<lparr>hd_host = host, hd_state = HFailed, hd_error = Some (''writing host start status: '' @ e)\<rparr>, Some st)
          | (Inr _, st) \<Rightarrow> apsnd Some (start_host env plan built host st)))"

text \<open>A host that was not deployed: its build failed, or its task ended abnormally.\<close>

definition abnormal_host :: "host_env \<Rightarrow> string \<Rightarrow> string \<Rightarrow> host_deploy_result \<times> host_ctx option" where
  "abnormal_host env host error =
    (case open_host env host of
       Inl e \<Rightarrow>
         (\<lparr>hd_host = host, hd_state = HFailed, hd_error = Some (error @ ''; opening host event stream: '' @ e)\<rparr>, None)
     | Inr st \<Rightarrow>
         apsnd Some (failed_host env host error (snd (host_emit env ''status'' (start_fields host) st))))"

section \<open>The stream as the tailer reads it\<close>

text \<open>What the two sides of the stream assume of \<^verbatim>\<open>serde_json\<close>. A record whose fields are within the reader's
  limit of nesting has a text, which is one line of UTF-8, and parsing the line gives an object with the keys of the record. A key
  given twice keeps its last value, and a value with no float in it reads back as it is; nothing is asked of
  floats, nor of the order of the object.\<close>

definition reads_as :: "(string \<times> json) list \<Rightarrow> json \<Rightarrow> bool" where
  "reads_as es ev \<longleftrightarrow> (\<exists>obj. ev = JObj obj \<and>
    (\<forall>k. case map_of (bm_of_list es) k of
       None \<Rightarrow> map_of obj k = None
     | Some v \<Rightarrow> json_exact v \<longrightarrow> map_of obj k = Some v))"

definition json_lines ::
  "((string \<times> json) list \<Rightarrow> (string, string) result) \<Rightarrow> (string \<Rightarrow> json option) \<Rightarrow> bool" where
  "json_lines ser parse \<longleftrightarrow> (\<forall>es. (\<forall>e\<in>set es. json_fits (JSON_DEPTH - 1) (snd e)) \<longrightarrow>
    (\<exists>t ev. ser es = Inr t \<and> CHR 0x0A \<notin> set t \<and> utf8_valid (t @ [CHR 0x0A]) \<and>
      parse (t @ [CHR 0x0A]) = Some ev \<and> reads_as es ev))"

text \<open>A line that the tailer gives to the host.\<close>

definition host_record :: "(string \<Rightarrow> json option) \<Rightarrow> string \<Rightarrow> string \<Rightarrow> json \<Rightarrow> bool" where
  "host_record parse host l ev \<longleftrightarrow> (\<exists>t. l = t @ [CHR 0x0A] \<and> CHR 0x0A \<notin> set t) \<and> utf8_valid l \<and>
    parse l = Some ev \<and> get_i64 ''v'' ev = Some EVENT_PROTOCOL_VERSION \<and> get_str ''event'' ev \<noteq> Some ''nixlog'' \<and>
    get_str ''plugin'' ev = Some ''deploy'' \<and> get_str ''host'' ev = Some host"

text \<open>The stream so far is read as a host in state \<open>s\<close>.\<close>

definition replays :: "(string \<Rightarrow> json option) \<Rightarrow> string \<Rightarrow> host_state \<Rightarrow> host_ctx \<Rightarrow> bool" where
  "replays parse host s st \<longleftrightarrow> hx_sink st = None \<and> ew_filter (hx_writer st) = None \<and>
    ew_host (hx_writer st) = host \<and> ew_plugin (hx_writer st) = ''deploy'' \<and>
    (\<exists>ls evs. ew_content (hx_writer st) = concat ls \<and> list_all2 (host_record parse host) ls evs \<and>
      hr_state (fold host_feed evs (host_run_new host)) = s)"

definition event_entries :: "host_env \<Rightarrow> string \<Rightarrow> string \<Rightarrow> (string, json) bmap \<Rightarrow> host_ctx \<Rightarrow> (string \<times> json) list" where
  "event_entries env host event fs st = record_entries \<lparr>er_v = EVENT_PROTOCOL_VERSION,
    er_ts = he_ts env (hx_emitted st), er_host = host, er_plugin = ''deploy'', er_event = event, er_fields = fs\<rparr>"

text \<open>Records can be written, and a time stamp is a number.\<close>

definition host_io :: "host_env \<Rightarrow> (string \<Rightarrow> json option) \<Rightarrow> bool" where
  "host_io env parse \<longleftrightarrow> (\<forall>n b. he_write env n b = None) \<and> (\<forall>n. \<exists>q. he_ts env n = JNum q) \<and>
    json_lines (he_ser env) parse"

definition plain_fields :: "(string, json) bmap \<Rightarrow> bool" where
  "plain_fields fs \<longleftrightarrow> (\<forall>e\<in>set fs. fst e \<notin> {''v'', ''ts'', ''host'', ''plugin'', ''event''} \<and> json_fits 1 (snd e))"

lemma reads_get: "reads_as es ev \<Longrightarrow> map_of (bm_of_list es) k = Some v \<Longrightarrow> json_exact v \<Longrightarrow> json_get k ev = Some v"
  by (auto simp: reads_as_def dest!: spec [of _ k])

lemma reads_get_none: "reads_as es ev \<Longrightarrow> map_of (bm_of_list es) k = None \<Longrightarrow> json_get k ev = None"
  by (auto simp: reads_as_def dest!: spec [of _ k])

text \<open>The entries after the envelope come from the fields.\<close>

lemma event_entries_split:
  obtains rest where "event_entries env host event fs st = [(''v'', JNum (PosInt (nat EVENT_PROTOCOL_VERSION))),
      (''ts'', he_ts env (hx_emitted st)), (''host'', JStr host), (''plugin'', JStr ''deploy''), (''event'', JStr event)] @ rest"
    "set rest \<subseteq> set fs"
proof
  let ?pref = "preferred_keys event fs"
  show "event_entries env host event fs st = [(''v'', JNum (PosInt (nat EVENT_PROTOCOL_VERSION))),
      (''ts'', he_ts env (hx_emitted st)), (''host'', JStr host), (''plugin'', JStr ''deploy''), (''event'', JStr event)] @
      (List.map_filter (\<lambda>k. map_option (Pair k) (map_of fs k)) ?pref @ filter (\<lambda>e. fst e \<notin> set ?pref) fs)"
    by (simp add: event_entries_def record_entries_def Let_def)
  show "set (List.map_filter (\<lambda>k. map_option (Pair k) (map_of fs k)) ?pref @ filter (\<lambda>e. fst e \<notin> set ?pref) fs) \<subseteq> set fs"
    by (auto simp: List.map_filter_def dest: map_of_SomeD)
qed

lemma record_envelope:
  assumes "plain_fields fs" and "reads_as (event_entries env host event fs st) ev"
  shows "get_i64 ''v'' ev = Some EVENT_PROTOCOL_VERSION" "get_str ''event'' ev = Some event"
    "get_str ''plugin'' ev = Some ''deploy''" "get_str ''host'' ev = Some host"
proof -
  obtain rest where es: "event_entries env host event fs st = [(''v'', JNum (PosInt (nat EVENT_PROTOCOL_VERSION))),
      (''ts'', he_ts env (hx_emitted st)), (''host'', JStr host), (''plugin'', JStr ''deploy''), (''event'', JStr event)] @ rest"
    "set rest \<subseteq> set fs"
    by (rule event_entries_split)
  have "map_of (rev rest) k = None" if "k \<in> {''v'', ''ts'', ''host'', ''plugin'', ''event''}" for k
    using assms(1) es(2) that unfolding map_of_eq_None_iff plain_fields_def set_rev by blast
  then have none: "map_of (rev rest) ''v'' = None" "map_of (rev rest) ''event'' = None"
    "map_of (rev rest) ''plugin'' = None" "map_of (rev rest) ''host'' = None" by simp_all
  note at = reads_get [OF assms(2), unfolded es(1) map_of_bm_of_list]
  have "json_get ''v'' ev = Some (JNum (PosInt (nat EVENT_PROTOCOL_VERSION)))" "json_get ''event'' ev = Some (JStr event)"
    "json_get ''plugin'' ev = Some (JStr ''deploy'')" "json_get ''host'' ev = Some (JStr host)"
    by (rule at; simp add: none map_add_def EVENT_PROTOCOL_VERSION_def)+
  then show "get_i64 ''v'' ev = Some EVENT_PROTOCOL_VERSION" "get_str ''event'' ev = Some event"
    "get_str ''plugin'' ev = Some ''deploy''" "get_str ''host'' ev = Some host"
    by (simp_all add: get_i64_def get_str_def EVENT_PROTOCOL_VERSION_def I64_MAX_def)
qed

lemma event_entries_fit:
  assumes "host_io env parse" and "plain_fields fs"
  shows "\<forall>e\<in>set (event_entries env host event fs st). json_fits (JSON_DEPTH - 1) (snd e)"
proof -
  obtain rest where es: "event_entries env host event fs st = [(''v'', JNum (PosInt (nat EVENT_PROTOCOL_VERSION))),
      (''ts'', he_ts env (hx_emitted st)), (''host'', JStr host), (''plugin'', JStr ''deploy''), (''event'', JStr event)] @ rest"
    "set rest \<subseteq> set fs"
    by (rule event_entries_split)
  have "json_fits 126 (snd e)" if "e \<in> set rest" for e
  proof -
    have "json_fits 1 (snd e)" using assms(2) es(2) that unfolding plain_fields_def by blast
    then show ?thesis by (rule json_fits_mono) simp
  qed
  moreover obtain q where "he_ts env (hx_emitted st) = JNum q" using assms(1) unfolding host_io_def by blast
  ultimately show ?thesis by (auto simp: es(1) JSON_DEPTH_def)
qed

lemma host_emit_replays:
  assumes "host_io env parse" and "replays parse host s st" and "event \<noteq> ''nixlog''" and "plain_fields fs"
  shows "\<exists>st'. host_emit env event fs st = (Inr (), st') \<and>
    (\<forall>s'. (\<forall>ev h. reads_as (event_entries env host event fs st) ev \<longrightarrow> hr_state h = s \<longrightarrow>
      hr_state (host_feed ev h) = s') \<longrightarrow> replays parse host s' st')"
proof -
  let ?w = "hx_writer st"
  have w: "ew_filter ?w = None" "ew_host ?w = host" "ew_plugin ?w = ''deploy''" "hx_sink st = None"
    using assms(2) by (simp_all add: replays_def)
  obtain t ev where t: "he_ser env (event_entries env host event fs st) = Inr t" "CHR 0x0A \<notin> set t"
    "utf8_valid (t @ [CHR 0x0A])" "parse (t @ [CHR 0x0A]) = Some ev" "reads_as (event_entries env host event fs st) ev"
    using assms(1) event_entries_fit [OF assms(1,4)] unfolding host_io_def json_lines_def by blast
  let ?w' = "?w\<lparr>ew_content := ew_content ?w @ t @ [CHR 0x0A], ew_bytes := ew_bytes ?w + length (t @ [CHR 0x0A])\<rparr>"
  have "host_emit env event fs st = (Inr (), st\<lparr>hx_writer := ?w', hx_emitted := hx_emitted st + 1\<rparr>)"
    using assms(1,3) w t(1)
    by (simp add: host_emit_def emit_at_def emit_record_def bounded_fields_def write_bytes_def host_io_def event_entries_def Let_def)
  moreover have "host_record parse host (t @ [CHR 0x0A]) ev"
    using t(2-4) assms(3) record_envelope [OF assms(4) t(5)] by (simp add: host_record_def)
  moreover obtain ls evs where "ew_content ?w = concat ls" "list_all2 (host_record parse host) ls evs"
    "hr_state (fold host_feed evs (host_run_new host)) = s"
    using assms(2) unfolding replays_def by blast
  ultimately show ?thesis using w t(5)
    by (auto simp: replays_def intro!: exI [of _ "ls @ [t @ [CHR 0x0A]]"] exI [of _ "evs @ [ev]"] list_all2_appendI)
qed

lemma plain_kinds [simp]:
  "plain_fields (host_line m)" "plain_fields [(''milestone'', JStr m)]" "plain_fields (start_fields host)"
  "plain_fields (done_fields rc)"
  by (simp_all add: plain_fields_def host_line_def start_fields_def done_fields_def json_of_int_def)

lemma feed_record_line:
  "reads_as (event_entries env host ''line'' (host_line m) st) ev \<Longrightarrow> hr_state (host_feed ev h) = hr_state h"
  by (simp add: host_feed_def record_envelope [OF plain_kinds(1)])

lemma feed_record_milestone:
  assumes "reads_as (event_entries env host ''milestone'' [(''milestone'', JStr m)] st) ev"
  shows "hr_state (host_feed ev h) = feed_milestone m (hr_state h)"
proof -
  have "json_get ''milestone'' ev = Some (JStr m)"
    by (rule reads_get [OF assms])
      (simp_all add: event_entries_def record_entries_def preferred_keys_def map_of_bm_of_list Let_def)
  then have "get_str ''milestone'' ev = Some m" by (simp add: get_str_def)
  then show ?thesis by (simp add: host_feed_def record_envelope [OF plain_kinds(2) assms] Let_def)
qed

lemma feed_record_start:
  assumes "reads_as (event_entries env host ''status'' (start_fields host) st) ev"
  shows "hr_state (host_feed ev h) = hr_state h"
proof -
  have "json_get ''state'' ev = Some (JStr ''start'')"
    by (rule reads_get [OF assms]) (simp_all add: event_entries_def record_entries_def preferred_keys_def start_fields_def
        bm_contains_iff map_of_bm_of_list List.map_filter_def Let_def)
  then have "get_str ''state'' ev = Some ''start''" by (simp add: get_str_def)
  then show ?thesis by (simp add: host_feed_def record_envelope [OF plain_kinds(3) assms])
qed

lemma feed_record_done:
  assumes "reads_as (event_entries env host ''status'' (done_fields rc) st) ev" and "rc \<in> {0, 1}"
  shows "hr_state (host_feed ev h) = (if rc \<noteq> 0 \<and> \<not> is_terminal (hr_state h) then HFailed else hr_state h)"
proof -
  have lookup: "map_of (bm_of_list (event_entries env host ''status'' (done_fields rc) st)) ''state'' = Some (JStr ''done'')"
    "map_of (bm_of_list (event_entries env host ''status'' (done_fields rc) st)) ''rc'' = Some (json_of_int rc)"
    by (simp_all add: event_entries_def record_entries_def preferred_keys_def done_fields_def bm_contains_iff
        map_of_bm_of_list List.map_filter_def Let_def)
  have "json_get ''state'' ev = Some (JStr ''done'')" by (rule reads_get [OF assms(1) lookup(1)]) simp
  moreover have "json_get ''rc'' ev = Some (json_of_int rc)"
    by (rule reads_get [OF assms(1) lookup(2)]) (use assms(2) in \<open>auto simp: json_of_int_def\<close>)
  ultimately have "get_str ''state'' ev = Some ''done''" "get_i64 ''rc'' ev = Some rc"
    using assms(2) by (auto simp: get_str_def get_i64_def json_of_int_def I64_MAX_def)
  then show ?thesis by (simp add: host_feed_def record_envelope [OF plain_kinds(4) assms(1)] Let_def)
qed

lemma host_emit_line:
  assumes "host_io env parse" and "replays parse host s st"
  obtains st' where "host_emit env ''line'' (host_line m) st = (Inr (), st')" "replays parse host s st'"
  using host_emit_replays [OF assms _ plain_kinds(1), of "''line''" m] feed_record_line [of env host m st] by auto

lemma host_milestone:
  assumes "host_io env parse" and "replays parse host s st"
  obtains st' where "emit_milestone env m st = (Inr (), st')" "replays parse host (feed_milestone m s) st'"
  using host_emit_replays [OF assms _ plain_kinds(2), of "''milestone''" m]
    feed_record_milestone [of env host m st] unfolding emit_milestone_def by auto

lemma host_start:
  assumes "host_io env parse" and "replays parse host s st"
  obtains st' where "host_emit env ''status'' (start_fields host) st = (Inr (), st')" "replays parse host s st'"
  using host_emit_replays [OF assms _ plain_kinds(3), of "''status''" host] feed_record_start [of env host st] by auto

lemma host_result_replays:
  assumes "host_io env parse" and "replays parse host s st" and "error \<noteq> None \<longrightarrow> \<not> is_terminal s \<longrightarrow> state = HFailed"
    and "error = None \<or> is_terminal s \<longrightarrow> state = s"
  obtains st' where "host_result env host state error st = (\<lparr>hd_host = host, hd_state = state, hd_error = error\<rparr>, st')"
    "replays parse host state st'"
proof -
  define rc :: int where "rc = (if error \<noteq> None then 1 else 0)"
  have rc: "rc \<in> {0, 1}" "rc = 0 \<longleftrightarrow> error = None" by (simp_all add: rc_def)
  obtain st' where st': "host_emit env ''status'' (done_fields rc) st = (Inr (), st')"
    "\<And>s'. (\<And>ev h. reads_as (event_entries env host ''status'' (done_fields rc) st) ev \<Longrightarrow> hr_state h = s \<Longrightarrow>
      hr_state (host_feed ev h) = s') \<Longrightarrow> replays parse host s' st'"
    using host_emit_replays [OF assms(1,2) _ plain_kinds(4), of "''status''" rc] by auto
  have "replays parse host state st'"
  proof (rule st'(2))
    fix ev and h :: host_run assume "reads_as (event_entries env host ''status'' (done_fields rc) st) ev" and h: "hr_state h = s"
    from feed_record_done [OF this(1) rc(1), of h] show "hr_state (host_feed ev h) = state"
      using assms(3,4) rc(2) h by auto
  qed
  then show thesis using st'(1) by (intro that) (simp add: host_result_def rc_def)
qed

lemma failed_host_replays:
  assumes "host_io env parse" and "replays parse host s st" and "\<not> is_terminal s"
  obtains st' where "failed_host env host e st = (\<lparr>hd_host = host, hd_state = HFailed, hd_error = Some e\<rparr>, st')"
    "replays parse host HFailed st'"
proof -
  obtain st1 where "host_emit env ''line'' (host_line e) st = (Inr (), st1)" "replays parse host s st1"
    using host_emit_line [OF assms(1,2)] .
  then show thesis
    using host_result_replays [OF assms(1) \<open>replays parse host s st1\<close>, of "Some e" HFailed] assms(3) that
    by (auto simp: failed_host_def)
qed

lemma sink_replays: "host_io env parse \<Longrightarrow> replays parse host s st \<Longrightarrow> replays parse host s (sink_effects env es st)"
proof (induction env es st rule: sink_effects.induct)
  case (2 env l msg es st)
  obtain st1 where "host_emit env ''line'' (host_line msg) st = (Inr (), st1)" "replays parse host s st1"
    using host_emit_line [OF 2(3,4)] .
  then show ?case using 2 by simp
qed simp_all

lemma call_library_replays:
  assumes "host_io env parse" and "replays parse host s st"
  obtains st' where "call_library env f st = (fst (f (hx_trace st)), st')" "replays parse host s st'"
    "hx_sink st' = None"
proof -
  obtain r tr where f: "f (hx_trace st) = (r, tr)" by fastforce
  have "replays parse host s (st\<lparr>hx_trace := tr\<rparr>)" using assms(2) by (simp add: replays_def)
  then have "replays parse host s (sink_effects env (drop (length (hx_trace st)) tr) (st\<lparr>hx_trace := tr\<rparr>))"
    by (rule sink_replays [OF assms(1)])
  then show thesis using f by (intro that) (auto simp: call_library_def replays_def)
qed

lemma terminal_states [simp]:
  "\<not> is_terminal HPending" "\<not> is_terminal HCopying" "\<not> is_terminal HActivating" "\<not> is_terminal HWaiting"
  "is_terminal HConfirmed" "is_terminal HRebootPending" "is_terminal HRolledBack" "is_terminal HFailed"
  by (simp_all add: is_terminal_def)

text \<open>A phase that ends the host keeps the two sides together.\<close>

definition agrees :: "(string \<Rightarrow> json option) \<Rightarrow> string \<Rightarrow> host_deploy_result \<times> host_ctx \<Rightarrow> bool" where
  "agrees parse host r \<longleftrightarrow> hd_host (fst r) = host \<and> is_terminal (hd_state (fst r)) \<and> replays parse host (hd_state (fst r)) (snd r)"

lemma failed_host_agrees:
  "host_io env parse \<Longrightarrow> replays parse host s st \<Longrightarrow> \<not> is_terminal s \<Longrightarrow> agrees parse host (failed_host env host e st)"
  by (rule failed_host_replays [of env parse host s st e]) (simp_all add: agrees_def)

lemma host_result_agrees:
  "host_io env parse \<Longrightarrow> replays parse host s st \<Longrightarrow> is_terminal s \<Longrightarrow> agrees parse host (host_result env host s error st)"
  by (rule host_result_replays [of env parse host s st error s]) (simp_all add: agrees_def)

lemma milestone_states:
  "\<not> is_terminal s \<Longrightarrow> feed_milestone ''copy'' s = HCopying"
  "\<not> is_terminal s \<Longrightarrow> feed_milestone ''activate'' s = HActivating"
  "\<not> is_terminal s \<Longrightarrow> feed_milestone ''wait'' s = HWaiting"
  "\<not> is_terminal s \<Longrightarrow> feed_milestone ''confirm'' s = HConfirmed"
  "\<not> is_terminal s \<Longrightarrow> feed_milestone ''reboot-pending'' s = HRebootPending"
  "\<not> is_terminal s \<Longrightarrow> feed_milestone ''rollback'' s = HRolledBack"
  by (simp_all add: feed_milestone_def milestone_state_def)

lemma conclude_host_agrees:
  assumes io: "host_io env parse" and st: "replays parse host s st" "\<not> is_terminal s" "hx_sink st = None"
  shows "agrees parse host (conclude_host env host disposition deployment st)"
proof (cases deployment)
  case (Inr u)
  obtain m state where m: "(if disposition = BootStaging then (''reboot-pending'', HRebootPending)
      else (''confirm'', HConfirmed)) = (m, state)" by fastforce
  obtain st1 where "emit_milestone env m st = (Inr (), st1)" "replays parse host (feed_milestone m s) st1"
    using host_milestone [OF io st(1)] .
  moreover have "feed_milestone m s = state" "is_terminal state"
    using m st(2) by (auto simp: milestone_states split: if_splits)
  ultimately show ?thesis using Inr st(3) m host_result_agrees [OF io] by (simp add: conclude_host_def)
next
  case (Inl e)
  let ?m = "show_deploy_error (de_show_status (he_deploy env)) e"
  obtain st1 where 1: "host_emit env ''line'' (host_line ?m) st = (Inr (), st1)" "replays parse host s st1"
    using host_emit_line [OF io st(1)] .
  obtain st2 where "emit_milestone env ''rollback'' st1 = (Inr (), st2)" "replays parse host (feed_milestone ''rollback'' s) st2"
    using host_milestone [OF io 1(2)] .
  then show ?thesis using Inl 1 st host_result_agrees [OF io] failed_host_agrees [OF io st(1,2)]
    by (simp add: conclude_host_def milestone_states Let_def)
qed

lemma preview_reboot_agrees:
  assumes io: "host_io env parse" and st: "replays parse host s st" "\<not> is_terminal s"
  shows "agrees parse host (preview_reboot env host st)"
proof -
  obtain st1 where 1: "host_emit env ''line'' (host_line DRY_REBOOT) st = (Inr (), st1)" "replays parse host s st1"
    using host_emit_line [OF io st(1)] .
  obtain st2 where "emit_milestone env ''reboot-pending'' st1 = (Inr (), st2)"
    "replays parse host (feed_milestone ''reboot-pending'' s) st2"
    using host_milestone [OF io 1(2)] .
  then show ?thesis using 1 st host_result_agrees [OF io]
    by (simp add: preview_reboot_def milestone_states Let_def)
qed

lemma activate_host_agrees:
  assumes io: "host_io env parse" and st: "replays parse host s st" "\<not> is_terminal s"
  shows "agrees parse host (activate_host env host dry settings d defs disposition st)"
proof -
  let ?wait = "disposition = LiveSwitch \<and> opt_default True (fl_magic_rollback settings)"
  obtain st1 where 1: "emit_milestone env ''activate'' st = (Inr (), st1)" "replays parse host HActivating st1"
    using host_milestone [OF io st(1), of "''activate''"] st(2) by (auto simp: milestone_states)
  obtain st2 s2 where 2: "(if ?wait then emit_milestone env ''wait'' st1 else (Inr (), st1)) = (Inr (), st2)"
    "replays parse host s2 st2" "\<not> is_terminal s2"
  proof (cases ?wait)
    case True
    have wait: "feed_milestone ''wait'' HActivating = HWaiting" by (simp add: milestone_states)
    obtain st2 where "emit_milestone env ''wait'' st1 = (Inr (), st2)" "replays parse host HWaiting st2"
      using host_milestone [OF io 1(2), of "''wait''"] unfolding wait .
    then show ?thesis using True by (intro that [of st2 HWaiting]) simp_all
  next
    case False
    then show ?thesis using 1(2) by (intro that [of st1 HActivating]) (simp_all del: de_Morgan_conj)
  qed
  obtain r st3 where 3: "call_library env (if disposition = BootStaging then stage_profile_for_boot (he_deploy env) d defs
      else deploy_profile (he_deploy env) d defs dry) st2 = (r, st3)" "replays parse host s2 st3" "hx_sink st3 = None"
    using call_library_replays [OF io 2(2)] by blast
  show ?thesis unfolding activate_host_def 1(1) prod.case sum.case 2(1) 3(1)
    by (rule conclude_host_agrees [OF io 3(2) 2(3) 3(3)])
qed

lemma choose_activation_agrees:
  assumes io: "host_io env parse" and st: "replays parse host s st" "\<not> is_terminal s"
  shows "agrees parse host (choose_activation env host dry boot settings d defs st)"
proof -
  obtain r st1 where "call_library env (resolve_activation_disposition (he_deploy env) d defs dry
      (boot \<or> fl_activation settings = BootMode)) st = (r, st1)" "replays parse host s st1" "hx_sink st1 = None"
    using call_library_replays [OF io st(1)] by blast
  then show ?thesis
    using failed_host_agrees [OF io _ st(2)] preview_reboot_agrees [OF io _ st(2)] activate_host_agrees [OF io _ st(2)]
    by (simp add: choose_activation_def split: sum.split)
qed

lemma copy_host_agrees:
  assumes io: "host_io env parse" and st: "replays parse host s st" "\<not> is_terminal s"
  shows "agrees parse host (copy_host env host dry boot settings d defs st)"
proof -
  obtain st1 where 1: "emit_milestone env ''copy'' st = (Inr (), st1)" "replays parse host HCopying st1"
    using host_milestone [OF io st(1), of "''copy''"] st(2) by (auto simp: milestone_states)
  obtain r st2 where "call_library env (push_profile (he_deploy env) d defs False) st1 = (r, st2)"
    "replays parse host HCopying st2" "hx_sink st2 = None"
    using call_library_replays [OF io 1(2)] by blast
  then show ?thesis
    using 1 failed_host_agrees [OF io, of host HCopying] choose_activation_agrees [OF io, of host HCopying]
    by (simp add: copy_host_def split: sum.split)
qed

lemma start_host_agrees:
  assumes io: "host_io env parse" and st: "replays parse host s st" "\<not> is_terminal s"
  shows "agrees parse host (start_host env plan built host st)"
  using failed_host_agrees [OF io st] copy_host_agrees [OF io st]
  by (simp add: start_host_def Let_def split: option.split sum.split)

lemma open_host_replays:
  assumes "is_valid_member_name host" and "he_open env = Inr []" and "host \<noteq> ''build''"
  obtains st where "open_host env host = Inr st" "replays parse host HPending st"
  using assms by (intro that [of "\<lparr>hx_writer = \<lparr>ew_host = host, ew_plugin = ''deploy'', ew_content = [],
      ew_filter = None, ew_bytes = 0, ew_truncated = False\<rparr>, hx_emitted = 0, hx_sink = None, hx_trace = []\<rparr>"])
    (simp_all add: open_host_def event_writer_new_def replays_def host_run_new_def exI [of _ "[]"])

lemma deploy_host_agrees:
  assumes io: "host_io env parse" and host: "is_valid_member_name host" "host \<noteq> ''build''" "he_open env = Inr []"
  obtains r st where "deploy_host_with env plan built host = (r, Some st)" "agrees parse host (r, st)"
proof -
  obtain st where st: "open_host env host = Inr st" "replays parse host HPending st"
    using open_host_replays [OF host(1,3,2)] .
  obtain st1 where st1: "host_emit env ''status'' (start_fields host) st = (Inr (), st1)" "replays parse host HPending st1"
    using host_start [OF io st(2)] by blast
  obtain r st2 where "start_host env plan built host st1 = (r, st2)" by fastforce
  then show thesis using st(1) st1 start_host_agrees [OF io st1(2), of plan built]
    by (intro that) (simp_all add: deploy_host_with_def)
qed

lemma abnormal_host_agrees:
  assumes io: "host_io env parse" and host: "is_valid_member_name host" "host \<noteq> ''build''" "he_open env = Inr []"
  obtains r st where "abnormal_host env host e = (r, Some st)" "agrees parse host (r, st)" "hd_state r = HFailed"
proof -
  obtain st where st: "open_host env host = Inr st" "replays parse host HPending st"
    using open_host_replays [OF host(1,3,2)] .
  obtain st1 where st1: "host_emit env ''status'' (start_fields host) st = (Inr (), st1)" "replays parse host HPending st1"
    using host_start [OF io st(2)] by blast
  obtain st2 where "failed_host env host e st1 = (\<lparr>hd_host = host, hd_state = HFailed, hd_error = Some e\<rparr>, st2)"
    "replays parse host HFailed st2"
    using failed_host_replays [OF io st1(2)] by auto
  then show thesis using st(1) st1
    by (intro that [of "\<lparr>hd_host = host, hd_state = HFailed, hd_error = Some e\<rparr>" st2])
      (simp_all add: abnormal_host_def agrees_def)
qed

section \<open>One poll of the finished stream\<close>

lemma read_lines_concat:
  assumes "list_all2 (host_record parse host) ls evs"
  shows "read_lines (concat ls) = ls"
  using assms
proof (induction ls evs rule: list_all2_induct)
  case Nil
  then show ?case by (simp add: read_lines.simps [of "[]"])
next
  case (Cons l ls ev evs)
  then obtain t where t: "l = t @ [CHR 0x0A]" "CHR 0x0A \<notin> set t" "utf8_valid l"
    by (auto simp: host_record_def)
  then have "split_once (CHR 0x0A) (concat (l # ls)) = Some (t, concat ls)"
    by (simp add: split_once_Some)
  then show ?case using Cons t by (simp add: read_lines.simps [of "t @ CHR 0x0A # concat ls"])
qed

lemma route_host_record:
  assumes "host_record parse host l ev" and "host \<noteq> []"
  shows "route parse dec now l t = tailer_host host (host_feed ev) t"
  using assms
  by (simp add: host_record_def route_def version_supported_def EVENT_PROTOCOL_VERSION_def
      SUPPORTED_EVENT_VERSIONS_def opt_filter_def)

lemma route_host_records:
  assumes "list_all2 (host_record parse host) ls evs" and "host \<noteq> []" and "ls \<noteq> []"
  shows "map_of (et_hosts (fold (route parse dec now) ls t)) host =
    Some (fold host_feed evs (opt_default (host_run_new host) (map_of (et_hosts t) host)))"
  using assms(1,3)
proof (induction ls evs arbitrary: t rule: list_all2_induct)
  case (Cons l ls ev evs)
  then show ?case using route_host_record [OF Cons(1) assms(2)]
    by (cases "ls = []") (simp_all add: tailer_host_def)
qed simp

lemma poll_replayed:
  assumes "replays parse host s st" and "is_terminal s" and "host \<noteq> []"
    and "map_of (et_offsets t) path = None" and "map_of (et_hosts t) host = None"
  shows "\<exists>h. map_of (et_hosts (snd (poll_file parse dec now (path, Some (ew_content (hx_writer st))) (n, t)))) host = Some h \<and>
    hr_state h = s"
proof -
  obtain ls evs where ls: "ew_content (hx_writer st) = concat ls" "list_all2 (host_record parse host) ls evs"
    "hr_state (fold host_feed evs (host_run_new host)) = s"
    using assms(1) unfolding replays_def by blast
  have "ls \<noteq> []" using ls(2,3) assms(2) by (auto simp: host_run_new_def)
  then show ?thesis
    using ls route_host_records [OF ls(2) assms(3), of dec now t] read_lines_concat [OF ls(2)] assms(4,5)
    by (simp add: poll_file_def Let_def)
qed

section \<open>What a result rests on\<close>

lemma sink_trace [simp]: "hx_trace (sink_effects env es st) = hx_trace st"
proof (induction env es st rule: sink_effects.induct)
  case (2 env l msg es st)
  have "hx_trace (snd (host_emit env ''line'' (host_line msg) st)) = hx_trace st"
    by (simp add: host_emit_def split_beta)
  then show ?case using 2 by (cases "host_emit env ''line'' (host_line msg) st") (auto split: sum.split)
qed simp_all

lemma host_emit_trace [simp]: "hx_trace (snd (host_emit env event fs st)) = hx_trace st"
  by (simp add: host_emit_def split_beta)

lemma emit_milestone_trace [simp]: "hx_trace (snd (emit_milestone env m st)) = hx_trace st"
  by (simp add: emit_milestone_def)

lemma host_result_trace [simp]: "hx_trace (snd (host_result env host s e st)) = hx_trace st"
  by (simp add: host_result_def split_beta split: sum.split)

lemma failed_host_trace [simp]: "hx_trace (snd (failed_host env host e st)) = hx_trace st"
  by (simp add: failed_host_def)

lemma failed_host_state [simp]: "hd_state (fst (failed_host env host e st)) = HFailed"
  by (simp add: failed_host_def host_result_def split_beta split: sum.split)

lemma host_result_state: "hd_state (fst (host_result env host s e st)) \<in> {s, HFailed}"
  by (simp add: host_result_def split_beta split: sum.split)

lemma call_library_trace [simp]:
  "fst (call_library env f st) = fst (f (hx_trace st))" "hx_trace (snd (call_library env f st)) = snd (f (hx_trace st))"
  by (simp_all add: call_library_def split_beta)

lemma host_result_confirmed: "hd_state (fst (host_result env host s e st)) = HConfirmed \<Longrightarrow> s = HConfirmed"
  using host_result_state [of env host s e st] by auto

lemma conclude_host_trace [simp]: "hx_trace (snd (conclude_host env host disp r st)) = hx_trace st"
  by (simp add: conclude_host_def split_beta Let_def split: sum.split option.split)

lemma conclude_confirmed:
  assumes "hd_state (fst (conclude_host env host disp r st)) = HConfirmed"
  shows "disp \<noteq> BootStaging \<and> r = Inr ()"
  using assms
  by (auto simp: conclude_host_def split_beta Let_def split: sum.splits option.splits if_splits
      dest!: host_result_confirmed)

lemma activate_host_trace:
  "hx_trace (snd (activate_host env host dry settings d defs disp st)) \<in> {hx_trace st,
    snd ((if disp = BootStaging then stage_profile_for_boot (he_deploy env) d defs
      else deploy_profile (he_deploy env) d defs dry) (hx_trace st))}"
  by (simp add: activate_host_def split_beta split: sum.split)

lemma activate_confirmed:
  assumes "hd_state (fst (activate_host env host dry settings d defs disp st)) = HConfirmed"
  shows "disp \<noteq> BootStaging \<and> fst (deploy_profile (he_deploy env) d defs dry (hx_trace st)) = Inr () \<and>
    hx_trace (snd (activate_host env host dry settings d defs disp st)) =
      snd (deploy_profile (he_deploy env) d defs dry (hx_trace st))"
  using assms
  by (auto simp: activate_host_def split_beta split: sum.splits if_splits dest!: conclude_confirmed)

lemma choose_confirmed:
  assumes "hd_state (fst (choose_activation env host dry boot settings d defs st)) = HConfirmed"
  obtains disp tr where
    "resolve_activation_disposition (he_deploy env) d defs dry (boot \<or> fl_activation settings = BootMode) (hx_trace st) =
      (Inr disp, tr)" "disp \<noteq> BootStaging" "\<not> (reboot_pending disp \<and> dry)"
    "fst (deploy_profile (he_deploy env) d defs dry tr) = Inr ()"
    "hx_trace (snd (choose_activation env host dry boot settings d defs st)) = snd (deploy_profile (he_deploy env) d defs dry tr)"
proof -
  obtain r tr where run: "resolve_activation_disposition (he_deploy env) d defs dry
      (boot \<or> fl_activation settings = BootMode) (hx_trace st) = (r, tr)" by fastforce
  let ?c = "call_library env (resolve_activation_disposition (he_deploy env) d defs dry
      (boot \<or> fl_activation settings = BootMode)) st"
  have c: "fst ?c = r" "hx_trace (snd ?c) = tr" using run by simp_all
  have preview: "hd_state (fst (preview_reboot env host s)) \<noteq> HConfirmed" for s
    by (auto simp: preview_reboot_def split_beta Let_def split: sum.splits dest!: host_result_confirmed)
  show thesis
  proof (cases r)
    case (Inl e)
    then show ?thesis using assms c by (simp add: choose_activation_def split_beta)
  next
    case (Inr disp)
    then have "choose_activation env host dry boot settings d defs st =
        activate_host env host dry settings d defs disp (snd ?c)" "\<not> (reboot_pending disp \<and> dry)"
      using assms c preview [of "snd ?c"] by (auto simp: choose_activation_def split_beta split: option.splits if_splits)
    then show ?thesis using that [OF run [unfolded Inr]] activate_confirmed [of env host dry settings d defs disp "snd ?c"]
        assms c by simp
  qed
qed

lemma copy_confirmed:
  assumes "hd_state (fst (copy_host env host dry boot settings d defs st)) = HConfirmed"
  obtains tr1 disp tr2 where "push_profile (he_deploy env) d defs False (hx_trace st) = (Inr (), tr1)"
    "resolve_activation_disposition (he_deploy env) d defs dry (boot \<or> fl_activation settings = BootMode) tr1 = (Inr disp, tr2)"
    "disp \<noteq> BootStaging" "\<not> (reboot_pending disp \<and> dry)" "fst (deploy_profile (he_deploy env) d defs dry tr2) = Inr ()"
    "hx_trace (snd (copy_host env host dry boot settings d defs st)) = snd (deploy_profile (he_deploy env) d defs dry tr2)"
proof -
  let ?st = "snd (emit_milestone env ''copy'' st)"
  let ?c = "call_library env (push_profile (he_deploy env) d defs False) ?st"
  obtain r tr1 where run: "push_profile (he_deploy env) d defs False (hx_trace st) = (r, tr1)" by fastforce
  have c: "fst ?c = r" "hx_trace (snd ?c) = tr1" using run by simp_all
  have "r = Inr () \<and> copy_host env host dry boot settings d defs st = choose_activation env host dry boot settings d defs (snd ?c)"
    using assms c by (auto simp: copy_host_def split_beta split: sum.splits option.splits)
  then show thesis using assms c run that choose_confirmed [of env host dry boot settings d defs "snd ?c"] by metis
qed

lemma push_ok:
  assumes "push_profile env d defs check tr = (Inr (), tr')"
  shows "\<exists>es x. tr' = tr @ es \<and> Ran (push_command d defs check) x \<in> set es \<and> succeeded x"
proof -
  obtain m1 m2 out where out: "exit_success (po_status out)"
    "tr' = emit LInfo m2 (emit_output out (emit LInfo m1 tr @ [Ran (push_command d defs check) (Inr out)]))"
    using assms by (auto simp: push_profile_def run_command_def Let_def split: if_splits sum.splits)
  obtain es where "emit_output out (emit LInfo m1 tr @ [Ran (push_command d defs check) (Inr out)]) =
      (emit LInfo m1 tr @ [Ran (push_command d defs check) (Inr out)]) @ es"
    using emit_output_append by blast
  then have "tr' = tr @ [Emitted LInfo m1, Ran (push_command d defs check) (Inr out)] @ es @ [Emitted LInfo m2]"
    by (simp add: out(2) emit_append)
  then show ?thesis using out(1) by (intro exI [of _ "[Emitted LInfo m1, Ran (push_command d defs check) (Inr out)] @ es @ [Emitted LInfo m2]"]
        exI [of _ "Inr out"] conjI) simp_all
qed

lemma host_info: "\<exists>info. profile_info_of (host_deploy_data overrides settings host path) = Inr info"
  by (cases "fl_user settings") (simp_all add: profile_info_of_def profile_user_def host_deploy_data_def make_deploy_data_def
      host_profile_def host_node_def with_fallback_def settings_default_def generic_of_def)

text \<open>The trace only grows.\<close>

lemma trace_grows [simp]:
  "prefix tr t \<Longrightarrow> prefix tr (emit l m t)" "prefix tr t \<Longrightarrow> prefix tr (emit_output out t)"
  "prefix tr t \<Longrightarrow> prefix tr (t @ es)"
  by (simp_all add: emit_def emit_output_def)

lemma disposition_grows: "prefix tr (snd (resolve_activation_disposition env d defs dry boot tr))"
  by (simp add: resolve_activation_disposition_def resolve_preflight_def run_command_def Let_def split: sum.split)

lemma start_host_cases:
  obtains (refused) "hx_trace (snd (start_host env plan built host st)) = hx_trace st"
      "hd_state (fst (start_host env plan built host st)) = HFailed"
  | (copied) v settings path defs where "map_of (dp_settings plan) host = Some v" "flattened_of_json v = Some settings"
      "map_of (bp_paths built) host = Some path"
      "defs_of (host_deploy_data (he_overrides env) settings host path) = Inr defs"
      "start_host env plan built host st = copy_host env host (dp_dry_activate plan) (dp_boot plan) settings
        (host_deploy_data (he_overrides env) settings host path) defs st"
proof -
  have "(hx_trace (snd (start_host env plan built host st)) = hx_trace st \<and>
      hd_state (fst (start_host env plan built host st)) = HFailed) \<or>
    (\<exists>v settings path defs. map_of (dp_settings plan) host = Some v \<and> flattened_of_json v = Some settings \<and>
      map_of (bp_paths built) host = Some path \<and>
      defs_of (host_deploy_data (he_overrides env) settings host path) = Inr defs \<and>
      start_host env plan built host st = copy_host env host (dp_dry_activate plan) (dp_boot plan) settings
        (host_deploy_data (he_overrides env) settings host path) defs st)"
    by (simp add: start_host_def Let_def split: option.split sum.split)
  then show thesis using refused copied by blast
qed

lemma deploy_host_opened:
  assumes "deploy_host_with env plan built host = (r, Some st)"
  obtains (refused) "hd_state r = HFailed" "hx_trace st = []"
  | (started) st0 where "hx_trace st0 = []" "r = fst (start_host env plan built host st0)"
    "st = snd (start_host env plan built host st0)"
proof -
  obtain st1 where st1: "open_host env host = Inr st1" using assms(1) by (cases "open_host env host") (auto simp: deploy_host_with_def)
  obtain x st0 where st0: "host_emit env ''status'' (start_fields host) st1 = (x, st0)" by fastforce
  have "hx_trace st0 = hx_trace st1" using host_emit_trace [of env "''status''" "start_fields host" st1] unfolding st0 by simp
  then have "hx_trace st0 = []" using st1 by (auto simp: open_host_def split: sum.splits)
  moreover from this have "st0 = st \<and> hd_state r = HFailed \<or>
      r = fst (start_host env plan built host st0) \<and> st = snd (start_host env plan built host st0)"
    using assms st1 st0
    by (cases x; cases "start_host env plan built host st0") (auto simp: deploy_host_with_def)
  ultimately show thesis using that by auto
qed

section \<open>Dry runs\<close>

text \<open>Nothing was started but commands in the foreground, all of them among \<open>A\<close>.\<close>

fun runs_only :: "command set \<Rightarrow> trace \<Rightarrow> bool" where
  "runs_only A [] = True"
| "runs_only A (Emitted l m # es) = runs_only A es"
| "runs_only A (Ran c r # es) = (c \<in> A \<and> runs_only A es)"
| "runs_only A (_ # es) = False"

lemma runs_only_append [simp]: "runs_only A (tr @ es) \<longleftrightarrow> runs_only A tr \<and> runs_only A es"
  by (induction A tr rule: runs_only.induct) auto

lemma runs_only_emit [simp]:
  "runs_only A (emit l m tr) = runs_only A tr" "runs_only A (emit_output out tr) = runs_only A tr"
proof -
  have "runs_only A (map (Emitted l) ms)" for l ms by (induction ms) simp_all
  then show "runs_only A (emit l m tr) = runs_only A tr" "runs_only A (emit_output out tr) = runs_only A tr"
    by (simp_all add: emit_def emit_output_def)
qed

definition dry_commands :: "deploy_data \<Rightarrow> deploy_defs \<Rightarrow> profile_info \<Rightarrow> command set" where
  "dry_commands d defs info = {push_command d defs False,
    ssh_command d (remote_address d defs) (capability_command d),
    ssh_command d (remote_address d defs) (preflight_command d defs),
    activation_process d defs info True}"

lemma push_dry:
  "runs_only (dry_commands d defs info) tr \<Longrightarrow> runs_only (dry_commands d defs info) (snd (push_profile env d defs False tr))"
  by (simp add: push_profile_def run_command_def dry_commands_def Let_def split: sum.split)

lemma resolve_dry:
  assumes "runs_only (dry_commands d defs info) tr"
  shows "runs_only (dry_commands d defs info) (snd (resolve_activation_disposition env d defs dry boot tr))"
  using assms
  by (simp add: resolve_activation_disposition_def resolve_preflight_def run_command_def dry_commands_def Let_def
      split: sum.split)

lemma deploy_dry:
  assumes "profile_info_of d = Inr info" and "runs_only (dry_commands d defs info) tr"
  shows "runs_only (dry_commands d defs info) (snd (deploy_profile env d defs True tr))"
  using assms
  by (simp add: deploy_profile_def run_command_def checked_output_def dry_commands_def Let_def split: sum.split)

lemma disposition_dry:
  "resolve_activation_disposition env d defs True boot tr = (Inr disp, tr') \<Longrightarrow> disp \<noteq> BootStaging"
  by (auto simp: resolve_activation_disposition_def resolve_preflight_def live_disposition_def run_command_def Let_def
      split: if_splits sum.splits)

lemma preview_reboot_trace [simp]: "hx_trace (snd (preview_reboot env host st)) = hx_trace st"
  by (simp add: preview_reboot_def split_beta Let_def split: sum.split)

lemma activate_dry:
  assumes "profile_info_of d = Inr info" and "runs_only (dry_commands d defs info) (hx_trace st)" and "disp \<noteq> BootStaging"
  shows "runs_only (dry_commands d defs info) (hx_trace (snd (activate_host env host True settings d defs disp st)))"
  using activate_host_trace [of env host True settings d defs disp st] assms deploy_dry [OF assms(1,2)] by auto

lemma choose_dry:
  assumes "profile_info_of d = Inr info" and "runs_only (dry_commands d defs info) (hx_trace st)"
  shows "runs_only (dry_commands d defs info) (hx_trace (snd (choose_activation env host True boot settings d defs st)))"
proof -
  let ?f = "resolve_activation_disposition (he_deploy env) d defs True (boot \<or> fl_activation settings = BootMode)"
  let ?c = "call_library env ?f st"
  have tr: "runs_only (dry_commands d defs info) (hx_trace (snd ?c))" using resolve_dry [OF assms(2)] by simp
  show ?thesis
  proof (cases "fst ?c")
    case (Inl e)
    then show ?thesis using tr unfolding choose_activation_def split_beta by simp
  next
    case (Inr disp)
    then have "fst (?f (hx_trace st)) = Inr disp" by simp
    then have "disp \<noteq> BootStaging" using disposition_dry by (metis prod.collapse)
    then show ?thesis using Inr tr activate_dry [OF assms(1) tr] unfolding choose_activation_def split_beta
      by (simp split: option.split)
  qed
qed

lemma copy_dry:
  assumes "profile_info_of d = Inr info" and "runs_only (dry_commands d defs info) (hx_trace st)"
  shows "runs_only (dry_commands d defs info) (hx_trace (snd (copy_host env host True boot settings d defs st)))"
proof -
  let ?st = "snd (emit_milestone env ''copy'' st)"
  have "runs_only (dry_commands d defs info) (hx_trace (snd (call_library env (push_profile (he_deploy env) d defs False) ?st)))"
    using push_dry [OF assms(2)] by simp
  then show ?thesis using assms choose_dry [OF assms(1)] unfolding copy_host_def split_beta
    by (simp split: sum.split option.split)
qed

section \<open>Properties\<close>


text \<open>C2: A host is reported confirmed only after its profile was copied and activated: no boot was asked
  for, the copy succeeded, and after it, under the canary protocol, the activation ended with success
  and was confirmed, or else the one activation command succeeded.\<close>

theorem confirmed_host_was_activated:
  assumes "deploy_host_with env plan built host = (r, Some st)" and "hd_state r = HConfirmed"
  shows "\<exists>v settings path d defs info x pre es.
    map_of (dp_settings plan) host = Some v \<and> flattened_of_json v = Some settings \<and>
    map_of (bp_paths built) host = Some path \<and> d = host_deploy_data (he_overrides env) settings host path \<and>
    defs_of d = Inr defs \<and> profile_info_of d = Inr info \<and>
    \<not> dp_boot plan \<and> fl_activation settings \<noteq> BootMode \<and>
    hx_trace st = pre @ es \<and> Ran (push_command d defs False) x \<in> set pre \<and> succeeded x \<and>
    (if magic_rollback d \<and> \<not> dp_dry_activate plan
     then live_swap d defs (canary_dir d) (remote_address d defs) (activation_process d defs info (dp_dry_activate plan)) es
     else \<exists>out. commands_run es = [(activation_process d defs info (dp_dry_activate plan), Inr out)] \<and>
       exit_success (po_status out))"
proof -
  obtain st0 where st0: "hx_trace st0 = []" "r = fst (start_host env plan built host st0)"
    "st = snd (start_host env plan built host st0)"
    using assms(2) by (cases rule: deploy_host_opened [OF assms(1)]) auto
  then obtain v settings path d defs where d: "map_of (dp_settings plan) host = Some v"
    "flattened_of_json v = Some settings" "map_of (bp_paths built) host = Some path"
    "d = host_deploy_data (he_overrides env) settings host path" "defs_of d = Inr defs"
    "start_host env plan built host st0 = copy_host env host (dp_dry_activate plan) (dp_boot plan) settings d defs st0"
    using assms(2) by (cases rule: start_host_cases [of env plan built host st0]) auto
  obtain info where info: "profile_info_of d = Inr info" using host_info d(4) by blast
  obtain tr1 disp tr2 where run: "push_profile (he_deploy env) d defs False [] = (Inr (), tr1)"
    "resolve_activation_disposition (he_deploy env) d defs (dp_dry_activate plan)
      (dp_boot plan \<or> fl_activation settings = BootMode) tr1 = (Inr disp, tr2)"
    "disp \<noteq> BootStaging" "\<not> (reboot_pending disp \<and> dp_dry_activate plan)"
    "fst (deploy_profile (he_deploy env) d defs (dp_dry_activate plan) tr2) = Inr ()"
    "hx_trace st = snd (deploy_profile (he_deploy env) d defs (dp_dry_activate plan) tr2)"
    using copy_confirmed [of env host "dp_dry_activate plan" "dp_boot plan" settings d defs st0] assms(2) st0 d(6)
    by metis
  obtain es1 x where es1: "tr1 = es1" "Ran (push_command d defs False) x \<in> set es1" "succeeded x"
    using push_ok [OF run(1)] by auto
  have pre: "prefix tr1 tr2" using disposition_grows [of tr1] run(2) by (metis snd_conv)
  have mode: "\<not> (dp_boot plan \<or> fl_activation settings = BootMode)"
    using run(2-4) by (auto simp: resolve_activation_disposition_def live_disposition_def split: if_splits)
  obtain es where es: "hx_trace st = tr2 @ es" "if magic_rollback d \<and> \<not> dp_dry_activate plan
       then live_swap d defs (canary_dir d) (remote_address d defs) (activation_process d defs info (dp_dry_activate plan)) es
       else \<exists>out. commands_run es = [(activation_process d defs info (dp_dry_activate plan), Inr out)] \<and>
         exit_success (po_status out)"
    using deploy_run [of "he_deploy env" d defs "dp_dry_activate plan" tr2 "Inr ()" "hx_trace st" info] info run(5,6)
    by (metis prod.collapse)
  have "Ran (push_command d defs False) x \<in> set tr2" using es1 pre by (auto simp: prefix_def)
  then show ?thesis using d(1-5) info mode es es1(3)
    by (rule_tac exI [of _ v], rule_tac exI [of _ settings], rule_tac exI [of _ path], rule_tac exI [of _ d],
        rule_tac exI [of _ defs], rule_tac exI [of _ info], rule_tac exI [of _ x], rule_tac exI [of _ tr2],
        rule_tac exI [of _ es]) (simp del: not_None_eq)
qed

text \<open>The texts of the commands of a dry run.\<close>

lemma dry_texts:
  "\<exists>line. prefix (pf_path (dd_profile d) @ ''/activate-rs activate '' @ quoted (pf_path (dd_profile d))) line \<and>
    dry_commands d defs info = {push_command d defs False,
      ssh_command d (remote_address d defs) (''test -e '' @ shell_word (pf_path (dd_profile d)) @ ''/switch-inhibitors''),
      ssh_command d (remote_address d defs) (sanitized_remote_command (df_sudo defs)
        (shell_word (pf_path (dd_profile d)) @ ''/bin/switch-to-configuration check'')),
      ssh_command d (remote_address d defs) (sanitized_remote_command (df_sudo defs) (line @ '' --dry-activate''))}"
proof -
  let ?c = "pf_path (dd_profile d)"
  let ?line = "?c @ ''/activate-rs activate '' @ quoted ?c @ '' '' @ profile_flags info @ '' --temp-path '' @ quoted (canary_dir d)
    @ '' --confirm-timeout '' @ show_nat (unat (opt_default 30 (gs_confirm_timeout (dd_settings d)) :: 16 word))
    @ (if magic_rollback d then '' --magic-rollback'' else [])
    @ (if opt_default True (gs_auto_rollback (dd_settings d)) then '' --auto-rollback'' else [])"
  have act: "activation_process d defs info True =
      ssh_command d (remote_address d defs) (sanitized_remote_command (df_sudo defs) (?line @ '' --dry-activate''))"
    by (simp add: activation_process_def activate_command_def build_activate_command_def)
  show ?thesis
    unfolding dry_commands_def capability_command_def preflight_command_def act
    by (intro exI [of _ ?line] conjI refl) simp
qed

text \<open>C24: A dry run changes nothing on the host. It starts no process in the background, and the only commands it runs are
  the \<^verbatim>\<open>nix copy\<close> of the profile, the test for the capability, the check of the switch, and the profile's own
  \<^verbatim>\<open>activate-rs activate\<close> with \<^verbatim>\<open>--dry-activate\<close> as its last word.\<close>

theorem dry_run_only_previews:
  assumes "deploy_host_with env plan built host = (r, Some st)" and "dp_dry_activate plan"
  shows "runs_only {} (hx_trace st) \<or> (\<exists>v settings path d defs info line.
    map_of (dp_settings plan) host = Some v \<and> flattened_of_json v = Some settings \<and>
    map_of (bp_paths built) host = Some path \<and> d = host_deploy_data (he_overrides env) settings host path \<and>
    defs_of d = Inr defs \<and> profile_info_of d = Inr info \<and>
    hd (cm_args (push_command d defs False)) = ''copy'' \<and> last (cm_args (push_command d defs False)) = path \<and>
    prefix (path @ ''/activate-rs activate '' @ quoted path) line \<and>
    runs_only {push_command d defs False,
      ssh_command d (remote_address d defs) (''test -e '' @ shell_word path @ ''/switch-inhibitors''),
      ssh_command d (remote_address d defs) (sanitized_remote_command (df_sudo defs)
        (shell_word path @ ''/bin/switch-to-configuration check'')),
      ssh_command d (remote_address d defs) (sanitized_remote_command (df_sudo defs) (line @ '' --dry-activate''))}
      (hx_trace st))"
  using assms(1)
proof (cases rule: deploy_host_opened)
  case (started st0)
  show ?thesis
  proof (cases rule: start_host_cases [of env plan built host st0])
    case (copied v settings path defs)
    let ?d = "host_deploy_data (he_overrides env) settings host path"
    obtain info where info: "profile_info_of ?d = Inr info"
      using host_info by blast
    have path: "pf_path (dd_profile ?d) = path" by (simp add: host_deploy_data_def make_deploy_data_def host_profile_def)
    have only: "runs_only (dry_commands ?d defs info) (hx_trace st)"
      using copy_dry [OF info, of defs st0] started copied(5) assms(2) by simp
    obtain line where line: "prefix (path @ ''/activate-rs activate '' @ quoted path) line"
      "dry_commands ?d defs info = {push_command ?d defs False,
        ssh_command ?d (remote_address ?d defs) (''test -e '' @ shell_word path @ ''/switch-inhibitors''),
        ssh_command ?d (remote_address ?d defs) (sanitized_remote_command (df_sudo defs)
          (shell_word path @ ''/bin/switch-to-configuration check'')),
        ssh_command ?d (remote_address ?d defs) (sanitized_remote_command (df_sudo defs) (line @ '' --dry-activate''))}"
      using dry_texts [of ?d defs info] unfolding path by (elim exE conjE) (rule that)
    have push: "hd (cm_args (push_command ?d defs False)) = ''copy''" "last (cm_args (push_command ?d defs False)) = path"
      by (simp_all add: push_command_def path)
    show ?thesis
      by (intro disjI2 exI [of _ v] exI [of _ settings] exI [of _ path] exI [of _ ?d] exI [of _ defs] exI [of _ info] exI [of _ line] conjI
          copied(1-4) info push line(1) refl only [unfolded line(2)])
  qed (use started in simp)
qed simp

section \<open>A concrete text format\<close>

definition text_ser :: "(string \<times> json) list \<Rightarrow> (string, string) result" where
  "text_ser es = Inr (json_text (JObj (bm_of_list es)))"

lemma ascii_text_valid: "\<forall>c\<in>set s. byte c < 128 \<Longrightarrow> utf8_valid s"
  by (induction s) (simp_all add: utf8_valid.simps(2))

lemma text_lines: "json_lines text_ser json_read"
  unfolding json_lines_def
proof (intro allI impI)
  fix es :: "(string \<times> json) list" assume fit: "\<forall>e\<in>set es. json_fits (JSON_DEPTH - 1) (snd e)"
  let ?o = "JObj (bm_of_list es)"
  have "json_fits JSON_DEPTH ?o" using fits_of_list [OF fit] by (simp add: JSON_DEPTH_def del: json_fits.simps)
  then have parse: "json_read (json_text ?o @ [CHR 0x0A]) = Some (json_image ?o)" by (rule read_of_text(2))
  have line: "line_byte c" if "c \<in> set (json_text ?o)" for c using that json_text_line by blast
  have "CHR 0x0A \<notin> set (json_text ?o)" using line [of "CHR 0x0A"] by (auto simp: line_byte_def byte_def)
  moreover have "utf8_valid (json_text ?o @ [CHR 0x0A])"
    by (rule ascii_text_valid) (use line in \<open>fastforce simp: line_byte_def byte_def\<close>)
  moreover have "reads_as es (json_image ?o)"
    by (simp add: reads_as_def map_of_image image_exact split: option.split)
  ultimately show "\<exists>t ev. text_ser es = Inr t \<and> CHR 0x0A \<notin> set t \<and> utf8_valid (t @ [CHR 0x0A]) \<and>
      json_read (t @ [CHR 0x0A]) = Some ev \<and> reads_as es ev"
    using parse unfolding text_ser_def by blast
qed

definition sample_host_env :: host_env where
  "sample_host_env = \<lparr>he_open = Inr [], he_write = \<lambda>_ _. None, he_ts = \<lambda>_. JNum (PosInt 0), he_ser = text_ser,
    he_decode = \<lambda>_. Inl [], he_serde_err = \<lambda>_. [], he_deploy = Activation.sample_env,
    he_overrides = \<lparr>co_hostname = None, co_nix_program = None, co_ssh_program = None, co_environment = []\<rparr>\<rparr>"

lemma sample_host_io: "host_io sample_host_env json_read"
  by (simp add: host_io_def sample_host_env_def text_lines)

lemma sample_host_name: "is_valid_member_name ''web''" by code_simp


text \<open>With writable records, a host whose copy, choice and activation succeed is confirmed.\<close>

lemma activate_confirms:
  assumes io: "host_io env parse" and st: "replays parse host s st" "\<not> is_terminal s"
    and ok: "disp \<noteq> BootStaging" "fst (deploy_profile (he_deploy env) d defs dry (hx_trace st)) = Inr ()"
  shows "hd_state (fst (activate_host env host dry settings d defs disp st)) = HConfirmed"
proof -
  let ?wait = "disp = LiveSwitch \<and> opt_default True (fl_magic_rollback settings)"
  obtain st1 where 1: "emit_milestone env ''activate'' st = (Inr (), st1)" "replays parse host HActivating st1"
    using host_milestone [OF io st(1), of "''activate''"] st(2) by (auto simp: milestone_states)
  have wait: "feed_milestone ''wait'' HActivating = HWaiting" by (simp add: milestone_states)
  obtain st2' where w: "emit_milestone env ''wait'' st1 = (Inr (), st2')" "replays parse host HWaiting st2'"
    using host_milestone [OF io 1(2), of "''wait''"] unfolding wait .
  obtain st2 s2 where 2: "(if ?wait then emit_milestone env ''wait'' st1 else (Inr (), st1)) = (Inr (), st2)"
    "replays parse host s2 st2" "\<not> is_terminal s2" "hx_trace st2 = hx_trace st1"
  proof (cases ?wait)
    case True
    then show ?thesis using w emit_milestone_trace [of env "''wait''" st1]
      by (intro that [of st2' HWaiting]) simp_all
  next
    case False
    then show ?thesis using 1(2) by (intro that [of st1 HActivating]) (simp_all del: de_Morgan_conj)
  qed
  have tr: "hx_trace st2 = hx_trace st" using 2(4) emit_milestone_trace [of env "''activate''" st] 1(1) by simp
  obtain st3 where 3: "call_library env (deploy_profile (he_deploy env) d defs dry) st2 = (Inr (), st3)"
    "replays parse host s2 st3" "hx_sink st3 = None"
    using call_library_replays [OF io 2(2), of "deploy_profile (he_deploy env) d defs dry"] ok(2) tr by auto
  have confirm: "feed_milestone ''confirm'' s2 = HConfirmed" using 2(3) by (simp add: milestone_states)
  obtain st4 where 4: "emit_milestone env ''confirm'' st3 = (Inr (), st4)" "replays parse host HConfirmed st4"
    using host_milestone [OF io 3(2), of "''confirm''"] unfolding confirm .
  obtain st5 where "host_result env host HConfirmed None st4 = (\<lparr>hd_host = host, hd_state = HConfirmed, hd_error = None\<rparr>, st5)"
    using host_result_replays [OF io 4(2), of None HConfirmed] by auto
  then show ?thesis using ok(1) 1 2(1) 3 4 unfolding activate_host_def conclude_host_def by simp
qed

lemma copy_confirms:
  assumes io: "host_io env parse" and st: "replays parse host s st" "\<not> is_terminal s"
    and ok: "push_profile (he_deploy env) d defs False (hx_trace st) = (Inr (), tr1)"
      "resolve_activation_disposition (he_deploy env) d defs dry (boot \<or> fl_activation settings = BootMode) tr1 = (Inr disp, tr2)"
      "\<not> reboot_pending disp" "fst (deploy_profile (he_deploy env) d defs dry tr2) = Inr ()"
  shows "hd_state (fst (copy_host env host dry boot settings d defs st)) = HConfirmed"
proof -
  obtain st1 where 1: "emit_milestone env ''copy'' st = (Inr (), st1)" "replays parse host HCopying st1"
    using host_milestone [OF io st(1), of "''copy''"] st(2) by (auto simp: milestone_states)
  have tr: "hx_trace st1 = hx_trace st" using emit_milestone_trace [of env "''copy''" st] 1(1) by simp
  let ?push = "push_profile (he_deploy env) d defs False"
  obtain st2 where 2: "call_library env ?push st1 = (Inr (), st2)" "replays parse host HCopying st2" "hx_sink st2 = None"
    using call_library_replays [OF io 1(2), of ?push] ok(1) tr by auto
  have tr2: "hx_trace st2 = tr1" using call_library_trace(2) [of env ?push st1] 2(1) ok(1) tr by simp
  let ?choose = "resolve_activation_disposition (he_deploy env) d defs dry (boot \<or> fl_activation settings = BootMode)"
  obtain st3 where 3: "call_library env ?choose st2 = (Inr disp, st3)" "replays parse host HCopying st3" "hx_sink st3 = None"
    using call_library_replays [OF io 2(2), of ?choose] ok(2) tr2 by auto
  have tr3: "hx_trace st3 = tr2" using call_library_trace(2) [of env ?choose st2] 3(1) ok(2) tr2 by simp
  have "hd_state (fst (activate_host env host dry settings d defs disp st3)) = HConfirmed"
    using ok(3,4) tr3 by (intro activate_confirms [OF io 3(2)]) auto
  then show ?thesis using 1(1) 2 3 ok(3) unfolding copy_host_def choose_activation_def by simp
qed

definition sample_settings :: json where
  "sample_settings = JObj [(''activation'', JStr ''switch''), (''autoRollback'', JBool True),
    (''fastConnection'', JBool False), (''hostname'', JStr ''web''), (''sshPort'', JNum (PosInt 22)),
    (''sshUser'', JStr ''root'')]"

definition sample_live_plan :: "bool \<Rightarrow> deploy_plan" where
  "sample_live_plan dry = sample_plan\<lparr>dp_settings := [(''web'', sample_settings)], dp_dry_activate := dry\<rparr>"

lemma sample_flattened:
  obtains s where "flattened_of_json sample_settings = Some s" "fl_activation s = SwitchMode" "fl_ssh_user s = ''root''"
    "fl_user s = None" "fl_magic_rollback s = None"
proof -
  define m where "m = [(''activation'', JStr ''switch''), (''autoRollback'', JBool True),
    (''fastConnection'', JBool False), (''hostname'', JStr ''web''), (''sshPort'', JNum (PosInt 22)),
    (''sshUser'', JStr ''root'')]"
  have known: "list_all (\<lambda>e. fst e \<in> set FLATTENED_FIELDS) m"
    by (simp add: m_def FLATTENED_FIELDS_def)
  have fields: "map_of m ''activation'' = Some (JStr ''switch'')" "map_of m ''autoRollback'' = Some (JBool True)"
    "map_of m ''fastConnection'' = Some (JBool False)" "map_of m ''hostname'' = Some (JStr ''web'')"
    "map_of m ''sshPort'' = Some (JNum (PosInt 22))" "map_of m ''sshUser'' = Some (JStr ''root'')"
    "map_of m ''identityFile'' = None" "map_of m ''sshOpts'' = None" "map_of m ''magicRollback'' = None"
    "map_of m ''confirmTimeout'' = None" "map_of m ''activationTimeout'' = None" "map_of m ''tempPath'' = None"
    "map_of m ''sudo'' = None" "map_of m ''user'' = None"
    by (simp_all add: m_def)
  have settings: "flattened_of_json sample_settings = flattened_of_fields m"
    using known unfolding sample_settings_def m_def by simp
  have "\<exists>s. flattened_of_fields m = Some s \<and> fl_activation s = SwitchMode \<and> fl_ssh_user s = ''root'' \<and>
      fl_user s = None \<and> fl_magic_rollback s = None"
    unfolding flattened_of_fields_def required_def nullable_def fields by simp
  then show thesis using that unfolding settings by blast
qed

lemma sample_deploy_ok:
  assumes "defs_of d = Inr defs" and "profile_info_of d = Inr info" and "gs_interactive_sudo (dd_settings d) = None"
    and "gs_remote_build (dd_settings d) = None" and "magic_rollback d"
  shows "fst (push_profile Activation.sample_env d defs False tr) = Inr ()"
    "fst (resolve_activation_disposition Activation.sample_env d defs False False tr) = Inr LiveSwitch"
    "fst (deploy_profile Activation.sample_env d defs False tr) = Inr ()"
  using assms
  by (simp_all add: push_profile_def resolve_activation_disposition_def resolve_preflight_def live_disposition_def
      deploy_profile_def deploy_magic_def clear_stale_canary_def run_command_def finish_command_def
      checked_output_def first_settled_def confirm_racing_def await_activation_def confirm_end_def conclude_def Let_def)

lemma sample_confirmed:
  obtains r st where "deploy_host_with sample_host_env (sample_live_plan False) sample_profiles ''web'' = (r, Some st)"
    "hd_state r = HConfirmed"
proof -
  have host: "''web'' \<noteq> ''build''" "he_open sample_host_env = Inr []" "he_deploy sample_host_env = Activation.sample_env"
    by (simp_all add: sample_host_env_def)
  obtain s where s: "flattened_of_json sample_settings = Some s" "fl_activation s = SwitchMode"
    "fl_ssh_user s = ''root''" "fl_user s = None" "fl_magic_rollback s = None"
    using sample_flattened .
  let ?d = "host_deploy_data (he_overrides sample_host_env) s ''web'' ''/nix/store/w''"
  have d: "gs_interactive_sudo (dd_settings ?d) = None" "gs_remote_build (dd_settings ?d) = None" "magic_rollback ?d"
    "\<exists>defs. defs_of ?d = Inr defs"
    using s by (simp_all add: host_deploy_data_def make_deploy_data_def host_profile_def host_node_def with_fallback_def
        settings_default_def generic_of_def magic_rollback_def defs_of_def profile_user_def)
  then obtain defs where defs: "defs_of ?d = Inr defs" by blast
  obtain info where info: "profile_info_of ?d = Inr info" using host_info by blast
  note ok = sample_deploy_ok [OF defs info d(1-3)]
  obtain st where st: "open_host sample_host_env ''web'' = Inr st" "replays json_read ''web'' HPending st"
    using open_host_replays [OF sample_host_name host(2,1)] .
  obtain st1 where st1: "host_emit sample_host_env ''status'' (start_fields ''web'') st = (Inr (), st1)"
    "replays json_read ''web'' HPending st1"
    using host_start [OF sample_host_io st(2)] by blast
  have plan: "map_of (dp_settings (sample_live_plan False)) ''web'' = Some sample_settings"
    "map_of (bp_paths sample_profiles) ''web'' = Some ''/nix/store/w''" "\<not> dp_dry_activate (sample_live_plan False)"
    "\<not> dp_boot (sample_live_plan False)"
    by (simp_all add: sample_live_plan_def sample_profiles_def sample_plan_def)
  have start: "start_host sample_host_env (sample_live_plan False) sample_profiles ''web'' st1 =
      copy_host sample_host_env ''web'' False False s ?d defs st1"
    unfolding start_host_def Let_def plan(1,2) s(1) defs option.case sum.case using plan(3,4) by simp
  have "hd_state (fst (copy_host sample_host_env ''web'' False False s ?d defs st1)) = HConfirmed"
    by (rule copy_confirms [OF sample_host_io st1(2), where disp = LiveSwitch], unfold host(3), simp)
      (use ok s(2) in \<open>simp_all add: prod_eq_iff\<close>)
  then show thesis using that st(1) st1(1) start
    by (cases "copy_host sample_host_env ''web'' False False s ?d defs st1") (simp add: deploy_host_with_def)
qed

theorem confirmed_host_was_activated_witness:
  "\<exists>r st x d defs. deploy_host_with sample_host_env (sample_live_plan False) sample_profiles ''web'' = (r, Some st) \<and>
    Ran (push_command d defs False) x \<in> set (hx_trace st) \<and> succeeded x"
proof -
  obtain r st where run: "deploy_host_with sample_host_env (sample_live_plan False) sample_profiles ''web'' = (r, Some st)"
    "hd_state r = HConfirmed"
    using sample_confirmed .
  then show ?thesis using confirmed_host_was_activated [OF run] by (metis Un_iff set_append)
qed

theorem dry_run_only_previews_witness:
  "\<exists>r st. deploy_host_with sample_host_env (sample_live_plan True) sample_profiles ''web'' = (r, Some st) \<and>
    \<not> (\<exists>c. Spawned c \<in> set (hx_trace st))"
proof -
  have host: "''web'' \<noteq> ''build''" "he_open sample_host_env = Inr []" by (simp_all add: sample_host_env_def)
  obtain r st where run: "deploy_host_with sample_host_env (sample_live_plan True) sample_profiles ''web'' = (r, Some st)"
    using deploy_host_agrees [OF sample_host_io sample_host_name host] by blast
  have dry: "dp_dry_activate (sample_live_plan True)" by (simp add: sample_live_plan_def)
  have fg: "Spawned c \<notin> set tr" if "runs_only A tr" for c A tr
    using that by (induction A tr rule: runs_only.induct) auto
  show ?thesis using dry_run_only_previews [OF run dry] run fg by blast
qed

end
