(* ===== verification/FanOut.thy ===== *)
theory FanOut
  imports DeployHost "HOL-Library.Multiset"
begin

text \<open>The whole native deployment: \<^verbatim>\<open>fan_out_with\<close>, which runs one task per built host under the
  throttle, and \<^verbatim>\<open>settle_fan_out\<close>, \<^verbatim>\<open>outcome_lines\<close> and \<^verbatim>\<open>run\<close> of \<^verbatim>\<open>engines/deploy.rs\<close>. The tasks are
  scheduled by the runtime, so the fan-out is a step relation: a task takes a permit, ends, and is
  joined, in any order the semaphore allows. The theorems bound the tasks at work, show that every
  schedule ends with one result per target, and say what the exit code means.\<close>

section \<open>Starting the tasks\<close>

text \<open>What the runtime reports of a task: its result, or that it panicked or was cancelled.\<close>

datatype task_outcome = TaskReturned host_deploy_result | TaskAborted string

record fan_state =
  fo_waiting :: "string list"
  fo_running :: "string list"
  fo_done :: "(string \<times> task_outcome) list"
  fo_free :: nat
  fo_results :: "(string, host_deploy_result) bmap"

text \<open>Hosts whose build failed get their result at once, the others a task that waits for a permit.
  \<open>abn\<close> is the result of \<^const>\<open>abnormal_host\<close>.\<close>

definition spawn_host ::
  "(string \<Rightarrow> string \<Rightarrow> host_deploy_result) \<Rightarrow> built_profiles \<Rightarrow> string \<Rightarrow> fan_state \<Rightarrow> fan_state" where
  "spawn_host abn built host s =
    (case map_of (bp_failures built) host of
       Some e \<Rightarrow> s\<lparr>fo_results := bm_insert host (abn host e) (fo_results s)\<rparr>
     | None \<Rightarrow> s\<lparr>fo_waiting := fo_waiting s @ [host]\<rparr>)"

definition fan_out_start ::
  "(string \<Rightarrow> string \<Rightarrow> host_deploy_result) \<Rightarrow> deploy_plan \<Rightarrow> built_profiles \<Rightarrow> (string, fan_state) result" where
  "fan_out_start abn plan built =
    (if dp_throttle plan < 0 then Inl ''validated deploy throttle is outside usize''
     else if dp_throttle plan = 0 then Inl ''validated deploy throttle is zero''
     else Inr (fold (spawn_host abn built) (dp_targets plan)
       \<lparr>fo_waiting = [], fo_running = [], fo_done = [], fo_free = nat (dp_throttle plan), fo_results = []\<rparr>))"

section \<open>Running and joining\<close>

text \<open>The entry of the results that a joined task makes.\<close>

fun task_entry ::
  "(string \<Rightarrow> string \<Rightarrow> host_deploy_result) \<Rightarrow> string \<Rightarrow> task_outcome \<Rightarrow> string \<times> host_deploy_result" where
  "task_entry abn host (TaskReturned r) = (hd_host r, r)"
| "task_entry abn host (TaskAborted e) = (host, abn host (''host task failed abnormally: '' @ e))"

definition join_task ::
  "(string \<Rightarrow> string \<Rightarrow> host_deploy_result) \<Rightarrow> string \<Rightarrow> task_outcome \<Rightarrow>
    (string, host_deploy_result) bmap \<Rightarrow> (string, host_deploy_result) bmap" where
  "join_task abn host out results =
    (case task_entry abn host out of (h, r) \<Rightarrow> bm_insert h r results)"

text \<open>\<open>task host out\<close>: the task of the host may end with \<open>out\<close>. A task that ends gives its permit back,
  whether it returned or not.\<close>

inductive fan_step ::
  "(string \<Rightarrow> task_outcome \<Rightarrow> bool) \<Rightarrow> (string \<Rightarrow> string \<Rightarrow> host_deploy_result) \<Rightarrow> fan_state \<Rightarrow> fan_state \<Rightarrow> bool"
  for task abn where
  fan_acquire: "fo_waiting s = pre @ host # post \<Longrightarrow> 0 < fo_free s \<Longrightarrow>
    fan_step task abn s (s\<lparr>fo_waiting := pre @ post, fo_running := fo_running s @ [host], fo_free := fo_free s - 1\<rparr>)"
| fan_finish: "fo_running s = pre @ host # post \<Longrightarrow> task host out \<Longrightarrow>
    fan_step task abn s (s\<lparr>fo_running := pre @ post, fo_free := fo_free s + 1, fo_done := fo_done s @ [(host, out)]\<rparr>)"
| fan_join: "fo_done s = pre @ (host, out) # post \<Longrightarrow>
    fan_step task abn s (s\<lparr>fo_done := pre @ post, fo_results := join_task abn host out (fo_results s)\<rparr>)"

inductive_cases fan_stepE: "fan_step task abn s s'"

definition fan_over :: "fan_state \<Rightarrow> bool" where
  "fan_over s \<longleftrightarrow> fo_waiting s = [] \<and> fo_running s = [] \<and> fo_done s = []"

text \<open>\<^verbatim>\<open>deploy_hosts\<close>: the tasks are those of \<^const>\<open>deploy_host_with\<close> in the environments \<open>henv\<close> of the
  hosts, each of which may also abort; \<open>aenv\<close> are the environments of the abnormal results.\<close>

definition host_task ::
  "(string \<Rightarrow> host_env) \<Rightarrow> deploy_plan \<Rightarrow> built_profiles \<Rightarrow> string \<Rightarrow> task_outcome \<Rightarrow> bool" where
  "host_task henv plan built host out \<longleftrightarrow>
    (case out of
       TaskReturned r \<Rightarrow> r = fst (deploy_host_with (henv host) plan built host)
     | TaskAborted e \<Rightarrow> True)"

definition host_abnormal :: "(string \<Rightarrow> host_env) \<Rightarrow> string \<Rightarrow> string \<Rightarrow> host_deploy_result" where
  "host_abnormal aenv host e = fst (abnormal_host (aenv host) host e)"

definition deploy_hosts ::
  "(string \<Rightarrow> host_env) \<Rightarrow> (string \<Rightarrow> host_env) \<Rightarrow> deploy_plan \<Rightarrow> built_profiles \<Rightarrow>
    (string, host_deploy_result) bmap \<Rightarrow> bool" where
  "deploy_hosts henv aenv plan built results \<longleftrightarrow>
    (\<exists>n s0 s. fan_out_start (host_abnormal aenv) plan built = Inr s0 \<and>
      (fan_step (host_task henv plan built) (host_abnormal aenv) ^^ n) s0 s \<and> fan_over s \<and> results = fo_results s)"

section \<open>Settling\<close>

record deploy_summary =
  su_total :: nat
  su_confirmed :: nat
  su_reboot_pending :: nat
  su_failed :: nat
  su_rolled_back :: nat

definition count_state :: "host_state \<Rightarrow> (string, host_deploy_result) bmap \<Rightarrow> nat" where
  "count_state s results = count_if (\<lambda>r. hd_state r = s) (bm_values results)"

definition summarize :: "(string, host_deploy_result) bmap \<Rightarrow> deploy_summary" where
  "summarize results = \<lparr>su_total = length results, su_confirmed = count_state HConfirmed results,
    su_reboot_pending = count_state HRebootPending results, su_failed = count_state HFailed results,
    su_rolled_back = count_state HRolledBack results\<rparr>"

record deploy_outcome =
  oc_results :: "(string, host_deploy_result) bmap"
  oc_summary :: deploy_summary
  oc_process_rc :: int
  oc_rc :: int

definition summary_json :: "deploy_summary \<Rightarrow> json" where
  "summary_json s = JObj (bm_of_list [(''total'', json_of_int (int (su_total s))),
    (''confirmed'', json_of_int (int (su_confirmed s))), (''reboot_pending'', json_of_int (int (su_reboot_pending s))),
    (''failed'', json_of_int (int (su_failed s))), (''rolled_back'', json_of_int (int (su_rolled_back s)))])"

definition build_failed :: "meta \<Rightarrow> bool" where
  "build_failed m \<longleftrightarrow> (case Option.bind (map_of m ''build_rc'') as_i64 of None \<Rightarrow> False | Some rc \<Rightarrow> rc \<noteq> 0)"

definition settled_rc :: "meta \<Rightarrow> deploy_summary \<Rightarrow> int" where
  "settled_rc m s = (if build_failed m \<or> 0 < su_failed s \<or> 0 < su_rolled_back s then 1 else 0)"

definition settled_meta :: "json \<Rightarrow> int \<Rightarrow> deploy_summary \<Rightarrow> meta" where
  "settled_meta now rc s = bm_of_list [(''process_rc'', json_of_int 0), (''rc'', json_of_int rc), (''finished_at'', now),
    (''summary'', summary_json s)]"

definition settle_fan_out ::
  "build_env \<Rightarrow> json \<Rightarrow> (string, host_deploy_result) bmap \<Rightarrow> build_state \<Rightarrow>
    (string, deploy_outcome) result \<times> build_state" where
  "settle_fan_out env now results st =
    (let summary = summarize results;
         rc = settled_rc (read_meta (be_meta_parse env) (bs_dir st)) summary
     in case update_meta env (settled_meta now rc summary) st of
          (Inl e, st) \<Rightarrow> (Inl e, st)
        | (Inr _, st) \<Rightarrow>
            (Inr \<lparr>oc_results = results, oc_summary = summary, oc_process_rc = 0, oc_rc = rc\<rparr>, st))"

definition record_controller_failure :: "build_env \<Rightarrow> json \<Rightarrow> string \<Rightarrow> build_state \<Rightarrow> build_state" where
  "record_controller_failure env now error st =
    snd (update_meta env (bm_of_list [(''process_rc'', json_of_int 1), (''rc'', json_of_int 1), (''error'', JStr error),
      (''finished_at'', now)]) st)"

section \<open>Reporting\<close>

definition skipped_notice :: "string \<Rightarrow> string" where
  "skipped_notice host = ''mandala: skipping '' @ host @ '': deploy-rs is disabled''"

definition result_line :: "host_deploy_result \<Rightarrow> string" where
  "result_line r = ''mandala: deploy: '' @ hd_host r @ '': '' @ host_state_str (hd_state r) @ '': ''
    @ opt_default ''no diagnostic'' (hd_error r)"

definition outcome_lines :: "deploy_outcome \<Rightarrow> string list" where
  "outcome_lines oc =
    (let s = oc_summary oc
     in [''mandala: deploy summary: total='' @ show_nat (su_total s) @ '' confirmed='' @ show_nat (su_confirmed s)
          @ '' reboot-pending='' @ show_nat (su_reboot_pending s) @ '' failed='' @ show_nat (su_failed s)
          @ '' rolled-back='' @ show_nat (su_rolled_back s)]
        @ map result_line (filter (\<lambda>r. hd_state r \<in> {HFailed, HRolledBack}) (bm_values (oc_results oc)))
        @ [if oc_rc oc = 0 \<and> su_reboot_pending s = 0 then ''mandala: deploy: all hosts confirmed''
           else if oc_rc oc = 0 then ''mandala: deploy: '' @ show_nat (su_reboot_pending s)
             @ '' host(s) staged successfully and require reboot''
           else ''mandala: deploy: PARTIAL FAILURE '' @ [CHR 0xE2, CHR 0x80, CHR 0x94]
             @ '' healthy siblings were not revoked''])"

section \<open>The controller\<close>

text \<open>\<open>fan\<close> resolves the schedule: the results the fan-out ends with, or its error. The other arguments
  are the outcomes of publishing the run id and of creating the runtime; the last text is what is
  printed of the outcome.\<close>

definition settle_run ::
  "build_env \<Rightarrow> json \<Rightarrow> (string, (string, host_deploy_result) bmap) result \<Rightarrow> build_state \<Rightarrow>
    nat \<times> build_state \<times> string list" where
  "settle_run env now fan st =
    (case (case fan of Inl e \<Rightarrow> (Inl e, st) | Inr results \<Rightarrow> settle_fan_out env now results st) of
       (Inr oc, st) \<Rightarrow> (exit_byte (Some (oc_rc oc)), st, outcome_lines oc)
     | (Inl e, st) \<Rightarrow> (1, record_controller_failure env now (''settling deploy fan-out: '' @ e) st, []))"

definition controller_run ::
  "build_env \<Rightarrow> nat \<Rightarrow> json \<Rightarrow> deploy_plan \<Rightarrow> run_dir \<Rightarrow> string option \<Rightarrow> string option \<Rightarrow>
    (built_profiles \<Rightarrow> (string, (string, host_deploy_result) bmap) result) \<Rightarrow>
    (nat \<times> build_state \<times> string list) option" where
  "controller_run env fuel now plan dir publish runtime fan =
    (case publish of
       Some e \<Rightarrow>
         Some (1, record_controller_failure env now (''publishing deploy run id: '' @ e)
           \<lparr>bs_dir = dir, bs_writer = no_writer, bs_emitted = 0, bs_durations = None\<rparr>, [])
     | None \<Rightarrow>
         map_option
           (\<lambda>(r, st).
             case r of
               Inl e \<Rightarrow> (exit_byte (Some (build_exit_code e)), st, [])
             | Inr built \<Rightarrow>
                 (case runtime of
                    Some e \<Rightarrow> (1, record_controller_failure env now (''creating deploy runtime: '' @ e) st, [])
                  | None \<Rightarrow> settle_run env now (fan built) st))
           (build_profiles_with env fuel plan dir))"

text \<open>\<^verbatim>\<open>publish_run_id\<close>: the bytes written to standard output before it is flushed.\<close>

definition publish_run_id :: "(string \<Rightarrow> string option) \<Rightarrow> string option \<Rightarrow> string \<Rightarrow> string option" where
  "publish_run_id write flush run_id = (case write (run_id @ [CHR 0x0A]) of Some e \<Rightarrow> Some e | None \<Rightarrow> flush)"

section \<open>Where the hosts are\<close>

text \<open>Every host is in one place: waiting for a permit, running, ended but not joined, or with a result.\<close>

definition places :: "fan_state \<Rightarrow> string multiset" where
  "places s = mset (fo_waiting s) + mset (fo_running s) + mset (map fst (fo_done s)) + mset (bm_keys (fo_results s))"

text \<open>A task reports the host it was started for, as the tasks of \<^const>\<open>deploy_host_with\<close> do.\<close>

definition own_host :: "(string \<Rightarrow> task_outcome \<Rightarrow> bool) \<Rightarrow> bool" where
  "own_host task \<longleftrightarrow> (\<forall>h r. task h (TaskReturned r) \<longrightarrow> hd_host r = h)"

definition fan_inv ::
  "(string \<Rightarrow> task_outcome \<Rightarrow> bool) \<Rightarrow> (string \<Rightarrow> string \<Rightarrow> host_deploy_result) \<Rightarrow> deploy_plan \<Rightarrow> built_profiles \<Rightarrow>
    fan_state \<Rightarrow> bool" where
  "fan_inv task abn plan built s \<longleftrightarrow>
    int (length (fo_running s)) + int (fo_free s) = dp_throttle plan \<and>
    bm_wf (fo_results s) \<and> places s = mset (dp_targets plan) \<and>
    (\<forall>h\<in>set (fo_waiting s) \<union> set (fo_running s). map_of (bp_failures built) h = None) \<and>
    (\<forall>(h, out)\<in>set (fo_done s). map_of (bp_failures built) h = None \<and> task h out) \<and>
    (\<forall>h r. map_of (fo_results s) h = Some r \<longrightarrow>
      (case map_of (bp_failures built) h of
         Some e \<Rightarrow> r = abn h e
       | None \<Rightarrow> \<exists>out. task h out \<and> task_entry abn h out = (h, r)))"

lemma keys_insert_new:
  assumes "bm_wf m" and "k \<notin> set (bm_keys m)"
  shows "mset (bm_keys (bm_insert k v m)) = add_mset k (mset (bm_keys m))"
proof -
  have "mset_set (Set.insert k (set (bm_keys m))) = add_mset k (mset_set (set (bm_keys m)))"
    using assms(2) by simp
  moreover have "mset (bm_keys m') = mset_set (set (bm_keys m'))" if "bm_wf m'" for m' :: "('a \<times> 'b) list"
    using bm_wf_distinct [OF that] by (simp add: mset_set_set)
  ultimately show ?thesis using assms(1) bm_wf_insert [OF assms(1), of k v] by (simp add: bm_keys_def)
qed

lemma start_inv:
  assumes "fan_out_start abn plan built = Inr s" and "distinct (dp_targets plan)"
  shows "fan_inv task abn plan built s"
proof -
  let ?s0 = "\<lparr>fo_waiting = [], fo_running = [], fo_done = [], fo_free = nat (dp_throttle plan), fo_results = []\<rparr>"
  let ?inv = "\<lambda>seen s. fo_running s = [] \<and> fo_done s = [] \<and> fo_free s = nat (dp_throttle plan) \<and> bm_wf (fo_results s) \<and>
    places s = mset seen \<and> (\<forall>h\<in>set (fo_waiting s). map_of (bp_failures built) h = None) \<and>
    (\<forall>h r. map_of (fo_results s) h = Some r \<longrightarrow> (\<exists>e. map_of (bp_failures built) h = Some e \<and> r = abn h e))"
  have grow: "?inv (seen @ hosts) (fold (spawn_host abn built) hosts s)"
    if "?inv seen s" "distinct (seen @ hosts)" for seen hosts s
    using that
  proof (induction hosts arbitrary: seen s)
    case (Cons h hosts)
    have fresh: "h \<notin># places s" using Cons.prems by auto
    then have "h \<notin> set (bm_keys (fo_results s))" by (simp add: places_def)
    then have "?inv (seen @ [h]) (spawn_host abn built h s)"
      using Cons.prems(1) keys_insert_new [of "fo_results s" h]
      by (auto simp: spawn_host_def places_def bm_wf_insert split: option.split)
    from Cons.IH [OF this] Cons.prems(2) show ?case by simp
  qed simp
  have "?inv [] ?s0" by (simp add: places_def bm_keys_def bm_wf_def)
  then have "?inv ([] @ dp_targets plan) (fold (spawn_host abn built) (dp_targets plan) ?s0)"
    by (rule grow) (simp add: assms(2))
  moreover have s: "fold (spawn_host abn built) (dp_targets plan) ?s0 = s" and "0 < dp_throttle plan"
    using assms(1) by (auto simp: fan_out_start_def split: if_splits)
  ultimately show ?thesis unfolding s fan_inv_def by (fastforce split: option.split)
qed

lemma step_inv:
  assumes "fan_step task abn s s'" and "fan_inv task abn plan built s" and "own_host task" and "distinct (dp_targets plan)"
  shows "fan_inv task abn plan built s'"
  using assms(1)
proof (cases rule: fan_step.cases)
  case (fan_join pre host out post)
  have host: "map_of (bp_failures built) host = None" "task host out"
    using assms(2) fan_join(2) by (auto simp: fan_inv_def)
  obtain r where r: "task_entry abn host out = (host, r)"
    using assms(3) host(2) by (cases out) (auto simp: own_host_def)
  have "count (places s) host \<le> 1"
    using assms(2,4) distinct_count_atmost_1 [of "dp_targets plan"] by (simp add: fan_inv_def)
  then have "count (mset (bm_keys (fo_results s))) host = 0"
    using fan_join(2) by (simp add: places_def)
  then have "host \<notin> set (bm_keys (fo_results s))" by simp
  then have "places s' = places s"
    using fan_join assms(2) keys_insert_new [of "fo_results s" host r]
    by (simp add: places_def join_task_def r fan_inv_def)
  then show ?thesis
    using assms(2) fan_join host r by (auto simp: fan_inv_def join_task_def bm_wf_insert split: option.splits)
qed (use assms(2) in \<open>auto simp: fan_inv_def places_def\<close>)

lemma steps_inv:
  assumes "(fan_step task abn ^^ n) s s'" and "fan_inv task abn plan built s" and "own_host task"
    and "distinct (dp_targets plan)"
  shows "fan_inv task abn plan built s'"
  using assms(1)
proof (induction n arbitrary: s')
  case (Suc n)
  then show ?case using step_inv [OF _ _ assms(3,4)] by auto
qed (use assms(2) in simp)

section \<open>Every schedule ends\<close>

definition fan_measure :: "fan_state \<Rightarrow> nat" where
  "fan_measure s = 3 * length (fo_waiting s) + 2 * length (fo_running s) + length (fo_done s)"

lemma step_measure: "fan_step task abn s s' \<Longrightarrow> fan_measure s = Suc (fan_measure s')"
  by (erule fan_stepE) (simp_all add: fan_measure_def)

lemma steps_measure: "(fan_step task abn ^^ n) s s' \<Longrightarrow> fan_measure s = n + fan_measure s'"
proof (induction n arbitrary: s')
  case (Suc n)
  then obtain t where "(fan_step task abn ^^ n) s t" "fan_step task abn t s'" by auto
  then show ?case using Suc.IH step_measure by fastforce
qed simp

lemma step_exists:
  assumes "0 < dp_throttle plan" and "fan_inv task abn plan built s" and "\<And>h. \<exists>out. task h out" and "\<not> fan_over s"
  shows "\<exists>s'. fan_step task abn s s'"
proof (cases "fo_done s")
  case (Cons e es)
  then have "fo_done s = [] @ (fst e, snd e) # es" by simp
  then show ?thesis by (meson fan_join)
next
  case no_done: Nil
  show ?thesis
  proof (cases "fo_running s")
    case (Cons h hs)
    then have "fo_running s = [] @ h # hs" by simp
    moreover obtain out where "task h out" using assms(3) by blast
    ultimately show ?thesis by (meson fan_finish)
  next
    case Nil
    then obtain h hs where "fo_waiting s = [] @ h # hs" using assms(4) no_done by (cases "fo_waiting s") (auto simp: fan_over_def)
    moreover have "0 < fo_free s" using assms(1,2) Nil by (simp add: fan_inv_def)
    ultimately show ?thesis by (meson fan_acquire)
  qed
qed

lemma over_measure: "fan_over s \<longleftrightarrow> fan_measure s = 0"
  by (auto simp: fan_over_def fan_measure_def)

section \<open>Summary and exit code\<close>

lemma count_if_disjoint:
  "(\<And>x. x \<in> set xs \<Longrightarrow> P x \<Longrightarrow> \<not> Q x) \<Longrightarrow> count_if (\<lambda>x. P x \<or> Q x) xs = count_if P xs + count_if Q xs"
  by (induction xs) auto

lemma count_if_zero: "count_if P xs = 0 \<longleftrightarrow> (\<forall>x\<in>set xs. \<not> P x)"
  by (induction xs) auto

definition good_state :: "host_state \<Rightarrow> bool" where
  "good_state s \<longleftrightarrow> s = HConfirmed \<or> s = HRebootPending"

lemma no_bad_hosts:
  assumes "\<forall>r\<in>set (bm_values results). is_terminal (hd_state r)"
  shows "su_failed (summarize results) = 0 \<and> su_rolled_back (summarize results) = 0 \<longleftrightarrow>
    (\<forall>r\<in>set (bm_values results). good_state (hd_state r))"
  using assms by (auto simp: summarize_def count_state_def count_if_zero good_state_def is_terminal_def)

lemma exit_byte_zero: "exit_byte (Some c) = 0 \<longleftrightarrow> c = 0"
  by (simp add: exit_byte_def)

lemma settled_rc_zero:
  "settled_rc m s = 0 \<longleftrightarrow> \<not> build_failed m \<and> su_failed s = 0 \<and> su_rolled_back s = 0"
  by (auto simp: settled_rc_def)

lemma settle_run_zero:
  assumes "settle_run env now fan st = (0, st', ls)"
  obtains results where "fan = Inr results"
    "settled_rc (read_meta (be_meta_parse env) (bs_dir st)) (summarize results) = 0"
    "update_meta env (settled_meta now 0 (summarize results)) st = (Inr (), st')"
proof -
  have "\<exists>results. fan = Inr results \<and>
      settled_rc (read_meta (be_meta_parse env) (bs_dir st)) (summarize results) = 0 \<and>
      update_meta env (settled_meta now 0 (summarize results)) st = (Inr (), st')"
    using assms
    by (auto simp: settle_run_def settle_fan_out_def exit_byte_zero Let_def split: sum.splits prod.splits)
  then show thesis using that by blast
qed

text \<open>No error of the build has exit code 0.\<close>

lemma build_profiles_error:
  assumes "build_profiles_with env fuel plan dir = Some (Inl e, st)"
  shows "build_exit_code e \<noteq> 0"
proof -
  have conclude: "build_exit_code e \<noteq> 0"
    if "conclude_build env status (build_outcome probe link out halt targets resolved err status) s = (Inl e, st')"
    for status probe link out halt targets resolved err s st'
    using that build_outcome_error
    by (auto simp: conclude_build_def Let_def split_beta split: sum.splits)
  have run: "build_exit_code e \<noteq> 0" if "run_build env fuel plan resolved st1 = Some (Inl e, st')" for resolved st1 st'
  proof -
    have "\<exists>s. (case be_status env of
        Inl e \<Rightarrow> (Inl (BuildIo e), os_build s)
      | Inr status \<Rightarrow> (case be_stdout env of
          Some e \<Rightarrow> (Inl (BuildIo e), os_build s)
        | None \<Rightarrow> conclude_build env status (build_outcome (be_probe env) (be_link env) (profile_out_link env)
            (dp_halt_on_build_failure plan) (dp_targets plan) resolved (os_error s) status) s)) = (Inl e, st')"
      using that unfolding run_build_def Let_def map_option_eq_Some by blast
    then show ?thesis by (cases "be_status env"; cases "be_stdout env") (auto dest: conclude)
  qed
  have spawn: "build_exit_code e \<noteq> 0" if "spawn_build env fuel plan argv resolved st1 = Some (Inl e, st')"
    for argv resolved st1 st'
    using that by (auto simp: spawn_build_def split_beta Let_def split: sum.splits option.splits dest: run)
  show ?thesis
  proof (cases "build_resolution env plan")
    case (Inl err)
    then show ?thesis using assms resolve_profiles_error [of _ _ _ err]
      by (auto simp: build_profiles_with_def build_resolution_def)
  next
    case (Inr resolved)
    then show ?thesis using assms spawn
      by (cases "open_build_writer env dir") (auto simp: build_profiles_with_def Let_def)
  qed
qed

lemma controller_zero:
  assumes "controller_run env fuel now plan dir publish runtime fan = Some (0, st', ls)"
  obtains built st where "build_profiles_with env fuel plan dir = Some (Inr built, st)"
    "settle_run env now (fan built) st = (0, st', ls)"
proof -
  have "publish = None" using assms by (auto simp: controller_run_def split: option.splits)
  then obtain r st where b: "build_profiles_with env fuel plan dir = Some (r, st)"
    "(case r of
       Inl e \<Rightarrow> (exit_byte (Some (build_exit_code e)), st, [])
     | Inr built \<Rightarrow>
         (case runtime of
            Some e \<Rightarrow> (1, record_controller_failure env now (''creating deploy runtime: '' @ e) st, [])
          | None \<Rightarrow> settle_run env now (fan built) st)) = (0, st', ls)"
    using assms unfolding controller_run_def by (auto simp del: split_paired_Ex)
  show thesis
  proof (cases r)
    case (Inl e)
    then show ?thesis using b build_profiles_error [of env fuel plan dir e st] by (simp add: exit_byte_zero)
  next
    case (Inr built)
    then show ?thesis using b that by (cases runtime) auto
  qed
qed

lemma settled_meta_lookup:
  "bm_wf (settled_meta now rc s)" "map_of (settled_meta now rc s) ''rc'' = Some (json_of_int rc)"
  "map_of (settled_meta now rc s) ''build_rc'' = None"
  by (simp_all add: settled_meta_def bm_wf_of_list) (simp_all add: bm_of_list_def)

lemma host_result_name [simp]: "hd_host (fst (host_result env host s e st)) = host"
  by (simp add: host_result_def split_beta split: sum.split)

lemma failed_host_name [simp]: "hd_host (fst (failed_host env host e st)) = host"
  by (simp add: failed_host_def)

lemma conclude_host_name [simp]: "hd_host (fst (conclude_host env host disp r st)) = host"
  by (simp add: conclude_host_def split_beta Let_def split: sum.split option.split)

lemma activate_host_name [simp]: "hd_host (fst (activate_host env host dry settings d defs disp st)) = host"
  by (simp add: activate_host_def split_beta split: sum.split)

lemma choose_activation_name [simp]: "hd_host (fst (choose_activation env host dry boot settings d defs st)) = host"
  by (simp add: choose_activation_def preview_reboot_def split_beta Let_def split: sum.split option.split)

lemma copy_host_name [simp]: "hd_host (fst (copy_host env host dry boot settings d defs st)) = host"
  by (simp add: copy_host_def split_beta split: sum.split option.split)

lemma deploy_host_name: "hd_host (fst (deploy_host_with env plan built host)) = host"
  by (simp add: deploy_host_with_def start_host_def split_beta Let_def split: sum.split option.split)

lemma host_result_terminal: "is_terminal s \<Longrightarrow> is_terminal (hd_state (fst (host_result env host s e st)))"
  using host_result_state [of env host s e st] by auto

lemma conclude_host_terminal: "is_terminal (hd_state (fst (conclude_host env host disp r st)))"
  by (simp add: conclude_host_def split_beta Let_def host_result_terminal split: sum.split option.split)

lemma activate_host_terminal: "is_terminal (hd_state (fst (activate_host env host dry settings d defs disp st)))"
  by (simp add: activate_host_def split_beta conclude_host_terminal split: sum.split)

lemma choose_activation_terminal:
  "is_terminal (hd_state (fst (choose_activation env host dry boot settings d defs st)))"
  by (simp add: choose_activation_def preview_reboot_def split_beta Let_def activate_host_terminal host_result_terminal
      split: sum.split option.split)

lemma deploy_host_terminal: "is_terminal (hd_state (fst (deploy_host_with env plan built host)))"
  by (simp add: deploy_host_with_def start_host_def copy_host_def split_beta Let_def choose_activation_terminal
      split: sum.split option.split)

lemma abnormal_is_failed: "hd_state (host_abnormal aenv host e) = HFailed"
  by (simp add: host_abnormal_def abnormal_host_def split: sum.split)

lemma host_tasks:
  "own_host (host_task henv plan built)" "\<exists>out. host_task henv plan built host out"
  by (auto simp: own_host_def host_task_def deploy_host_name intro: exI [of _ "TaskAborted []"])

lemma deploy_hosts_inv:
  assumes "deploy_hosts henv aenv plan built results" and "distinct (dp_targets plan)"
  obtains s where "fan_inv (host_task henv plan built) (host_abnormal aenv) plan built s" "fan_over s"
    "results = fo_results s"
  using assms start_inv steps_inv host_tasks(1) unfolding deploy_hosts_def by metis

lemma over_keys: "fan_inv task abn plan built s \<Longrightarrow> fan_over s \<Longrightarrow> set (bm_keys (fo_results s)) = set (dp_targets plan)"
  by (simp add: fan_inv_def fan_over_def places_def) (metis set_mset_mset)

lemma keys_lookup: "h \<in> set (bm_keys m) \<longleftrightarrow> (\<exists>v. map_of m h = Some v)"
  by (metis bm_keys_def map_of_eq_None_iff not_None_eq set_map)

lemma lookup_in_values: "map_of m h = Some v \<Longrightarrow> v \<in> set (bm_values m)"
  by (force simp: bm_values_def dest: map_of_SomeD)

lemma values_lookup: "bm_wf m \<Longrightarrow> v \<in> set (bm_values m) \<Longrightarrow> \<exists>h. map_of m h = Some v"
  using bm_wf_distinct [of m] by (auto simp: bm_values_def bm_keys_def intro!: map_of_is_SomeI)

lemma host_entry:
  "host_task henv plan built h out \<Longrightarrow> task_entry abn h out = (h, r) \<Longrightarrow>
    (\<exists>e. r = abn h e) \<or> r = fst (deploy_host_with (henv h) plan built h)"
  by (cases out) (auto simp: host_task_def)

section \<open>Examples\<close>

definition ends_confirmed :: "string \<Rightarrow> task_outcome \<Rightarrow> bool" where
  "ends_confirmed h out \<longleftrightarrow> out = TaskReturned \<lparr>hd_host = h, hd_state = HConfirmed, hd_error = None\<rparr>"

definition ends_failed :: "string \<Rightarrow> string \<Rightarrow> host_deploy_result" where
  "ends_failed h e = \<lparr>hd_host = h, hd_state = HFailed, hd_error = Some e\<rparr>"

lemma ends_own: "own_host ends_confirmed" "\<exists>out. ends_confirmed h out"
  by (auto simp: own_host_def ends_confirmed_def)

text \<open>The three steps of the one task of the sample plan.\<close>

lemma one_task_start:
  assumes "dp_targets plan = [h]" and "0 < dp_throttle plan" and "map_of (bp_failures built) h = None"
  shows "fan_out_start abn plan built = Inr \<lparr>fo_waiting = [h], fo_running = [], fo_done = [],
    fo_free = nat (dp_throttle plan), fo_results = []\<rparr>"
  using assms by (simp add: fan_out_start_def spawn_host_def)

lemma one_task_run:
  assumes "task h (TaskReturned r)" and "hd_host r = h" and "0 < k"
  shows "(fan_step task abn ^^ 3) \<lparr>fo_waiting = [h], fo_running = [], fo_done = [], fo_free = k, fo_results = []\<rparr>
    \<lparr>fo_waiting = [], fo_running = [], fo_done = [], fo_free = k, fo_results = [(h, r)]\<rparr>"
proof -
  let ?s0 = "\<lparr>fo_waiting = [h], fo_running = [], fo_done = [], fo_free = k, fo_results = []\<rparr>"
  let ?s1 = "\<lparr>fo_waiting = [], fo_running = [h], fo_done = [], fo_free = k - 1, fo_results = []\<rparr>"
  let ?s2 = "\<lparr>fo_waiting = [], fo_running = [], fo_done = [(h, TaskReturned r)], fo_free = k, fo_results = []\<rparr>"
  let ?s3 = "\<lparr>fo_waiting = [], fo_running = [], fo_done = [], fo_free = k, fo_results = [(h, r)]\<rparr>"
  have "fan_step task abn ?s0 ?s1" using fan_acquire [of ?s0 "[]" h "[]" task abn] assms(3) by simp
  moreover have "fan_step task abn ?s1 ?s2" using fan_finish [of ?s1 "[]" h "[]" task "TaskReturned r" abn] assms by simp
  moreover have "fan_step task abn ?s2 ?s3"
    using fan_join [of ?s2 "[]" h "TaskReturned r" "[]" task abn] assms(2) by (simp add: join_task_def)
  ultimately show ?thesis by (auto simp: numeral_3_eq_3 relcompp_apply)
qed

lemma sample_plan_simps: "dp_targets sample_plan = [''web'']" "dp_throttle sample_plan = 4"
  "map_of (bp_failures sample_profiles) ''web'' = None"
  by (simp_all add: sample_plan_def sample_profiles_def)

lemma sample_fan_out:
  "\<exists>s0. fan_out_start ends_failed sample_plan sample_profiles = Inr s0 \<and> (fan_step ends_confirmed ends_failed ^^ 3) s0
    \<lparr>fo_waiting = [], fo_running = [], fo_done = [], fo_free = 4,
      fo_results = [(''web'', \<lparr>hd_host = ''web'', hd_state = HConfirmed, hd_error = None\<rparr>)]\<rparr>"
proof -
  have "fan_out_start ends_failed sample_plan sample_profiles = Inr \<lparr>fo_waiting = [''web''], fo_running = [],
      fo_done = [], fo_free = 4, fo_results = []\<rparr>"
    using one_task_start [of sample_plan "''web''" sample_profiles ends_failed] sample_plan_simps by simp
  then show ?thesis
    using one_task_run [of ends_confirmed "''web''" "\<lparr>hd_host = ''web'', hd_state = HConfirmed, hd_error = None\<rparr>" 4]
    by (simp add: ends_confirmed_def)
qed

section \<open>Properties\<close>

text \<open>However the tasks are scheduled, never more of them work than the throttle allows, no permit is
  lost, and every target is in exactly one place: waiting, at work, ended but not joined, or with its
  one result.\<close>

lemma fan_out_is_bounded:
  assumes "fan_out_start abn plan built = Inr s0" and "distinct (dp_targets plan)" and "own_host task"
    and "(fan_step task abn ^^ n) s0 s"
  shows "int (length (fo_running s)) \<le> dp_throttle plan \<and>
    int (length (fo_running s)) + int (fo_free s) = dp_throttle plan \<and>
    mset (fo_waiting s) + mset (fo_running s) + mset (map fst (fo_done s)) + mset (bm_keys (fo_results s)) =
      mset (dp_targets plan)"
  using steps_inv [OF assms(4) start_inv [OF assms(1,2)] assms(3,2)] by (simp add: fan_inv_def places_def)

text \<open>Every schedule ends: it has at most three steps per target, it can only stop when no task is
  left, and then exactly the targets have results.\<close>

lemma fan_out_ends:
  assumes "fan_out_start abn plan built = Inr s0" and "distinct (dp_targets plan)" and "own_host task"
    and "\<And>h. \<exists>out. task h out" and "(fan_step task abn ^^ n) s0 s"
  shows "n \<le> 3 * length (dp_targets plan) \<and> ((\<forall>s'. \<not> fan_step task abn s s') \<longleftrightarrow> fan_over s) \<and>
    (fan_over s \<longrightarrow> set (bm_keys (fo_results s)) = set (dp_targets plan))"
proof -
  have inv: "fan_inv task abn plan built s0" "fan_inv task abn plan built s"
    using start_inv [OF assms(1,2)] steps_inv [OF assms(5) _ assms(3,2)] by blast+
  have throttle: "0 < dp_throttle plan" using assms(1) by (auto simp: fan_out_start_def split: if_splits)
  have "size (places s0) = length (dp_targets plan)" using inv(1) by (simp add: fan_inv_def)
  then have "fan_measure s0 \<le> 3 * length (dp_targets plan)" by (simp add: places_def fan_measure_def)
  then have "n \<le> 3 * length (dp_targets plan)" using steps_measure [OF assms(5)] by simp
  moreover have "\<not> fan_step task abn s s'" if "fan_over s" for s'
    using that step_measure over_measure by fastforce
  moreover have "\<exists>s'. fan_step task abn s s'" if "\<not> fan_over s"
    using step_exists [OF throttle inv(2) assms(4) that] .
  ultimately show ?thesis using over_keys [OF inv(2)] by blast
qed

text \<open>C14: Hosts do not affect each other: in every state of every schedule, the result of a host is that of
  its own failed build or of its own task, whatever became of the others.\<close>

theorem fan_out_isolates_hosts:
  assumes "fan_out_start abn plan built = Inr s0" and "distinct (dp_targets plan)" and "own_host task"
    and "(fan_step task abn ^^ n) s0 s" and "map_of (fo_results s) host = Some r"
  shows "case map_of (bp_failures built) host of
      Some e \<Rightarrow> r = abn host e
    | None \<Rightarrow> \<exists>out. task host out \<and> task_entry abn host out = (host, r)"
  using steps_inv [OF assms(4) start_inv [OF assms(1,2)] assms(3,2)] assms(5) unfolding fan_inv_def by blast

theorem fan_out_isolates_hosts_witness:
  "\<exists>out. ends_confirmed ''web'' out \<and> task_entry ends_failed ''web'' out =
    (''web'', \<lparr>hd_host = ''web'', hd_state = HConfirmed, hd_error = None\<rparr>)"
proof -
  have d: "distinct (dp_targets sample_plan)" by (simp add: sample_plan_simps)
  obtain s0 s where s: "fan_out_start ends_failed sample_plan sample_profiles = Inr s0"
    "(fan_step ends_confirmed ends_failed ^^ 3) s0 s"
    "map_of (fo_results s) ''web'' = Some \<lparr>hd_host = ''web'', hd_state = HConfirmed, hd_error = None\<rparr>"
    using sample_fan_out by fastforce
  show ?thesis using fan_out_isolates_hosts [OF s(1) d ends_own(1) s(2,3)] by (simp add: sample_plan_simps)
qed

lemma settled_well_deployed:
  assumes dh: "deploy_hosts henv aenv plan built results" and "distinct (dp_targets plan)"
    and rc: "settled_rc m (summarize results) = 0" and host: "host \<in> set (dp_targets plan)"
  shows "map_of (bp_failures built) host = None \<and> (\<exists>r. map_of results host = Some r \<and>
    r = fst (deploy_host_with (henv host) plan built host) \<and> hd_state r \<in> {HConfirmed, HRebootPending})"
proof -
  obtain s where s: "fan_inv (host_task henv plan built) (host_abnormal aenv) plan built s" "fan_over s"
    "results = fo_results s"
    using deploy_hosts_inv assms(1,2) by blast
  have own: "(\<exists>e. r = host_abnormal aenv h e) \<or> map_of (bp_failures built) h = None \<and> r = fst (deploy_host_with (henv h) plan built h)"
    if "map_of results h = Some r" for h r
  proof -
    have "case map_of (bp_failures built) h of
        Some e \<Rightarrow> r = host_abnormal aenv h e
      | None \<Rightarrow> \<exists>out. host_task henv plan built h out \<and> task_entry (host_abnormal aenv) h out = (h, r)"
      using s(1) that unfolding s(3) fan_inv_def by blast
    then show ?thesis using host_entry by (cases "map_of (bp_failures built) h") fastforce+
  qed
  have wf: "bm_wf results" using s by (simp add: fan_inv_def)
  have "host \<in> set (bm_keys results)" using over_keys [OF s(1,2)] host s(3) by simp
  then obtain r where r: "map_of results host = Some r" unfolding keys_lookup by blast
  have "\<forall>r\<in>set (bm_values results). is_terminal (hd_state r)"
    using values_lookup [OF wf] own by (fastforce simp: abnormal_is_failed deploy_host_terminal)
  then have good: "hd_state r \<in> {HConfirmed, HRebootPending}"
    using no_bad_hosts [of results] lookup_in_values [OF r] rc by (simp add: settled_rc_zero good_state_def)
  then have "map_of (bp_failures built) host = None \<and> r = fst (deploy_host_with (henv host) plan built host)"
    using own [OF r] abnormal_is_failed by fastforce
  then show ?thesis using r good by blast
qed

lemma settled_meta_fits: "json_fits JSON_DEPTH (JObj (settled_meta (JNum now) rc s))"
proof -
  have "json_fits (Suc 2) (JObj (settled_meta (JNum now) rc s))" unfolding settled_meta_def
  proof (rule fits_of_list)
    have "json_fits (Suc 1) (summary_json s)" unfolding summary_json_def
      by (rule fits_of_list) (simp add: json_of_int_def)
    then show "\<forall>e\<in>set [(''process_rc'', json_of_int 0), (''rc'', json_of_int rc), (''finished_at'', JNum now),
        (''summary'', summary_json s)]. json_fits 2 (snd e)"
      by (simp add: json_of_int_def numeral_2_eq_2)
  qed
  then show ?thesis by (rule json_fits_mono) (simp add: JSON_DEPTH_def)
qed

text \<open>C1: The exit code tells the truth: the controller exits with 0 only if the batch build of the plan succeeded and built
  every target, the tasks that then deployed the hosts worked on the profiles of that build, every target was deployed by its
  own task and ended confirmed or staged for reboot, and this has been recorded in the run's metadata.\<close>

theorem exit_zero_means_all_deployed:
  assumes "controller_run env fuel (JNum now) plan dir publish runtime fan = Some (0, st, ls)"
    and "\<And>built results. fan built = Inr results \<Longrightarrow> deploy_hosts henv aenv plan built results"
    and "distinct (dp_targets plan)"
    and "meta_text (be_meta_ser env) (be_meta_parse env)"
  shows "\<exists>built bst results. build_profiles_with env fuel plan dir = Some (Inr built, bst) \<and>
    fan built = Inr results \<and> deploy_hosts henv aenv plan built results \<and>
    (\<forall>host\<in>set (dp_targets plan). (\<exists>path. map_of (bp_paths built) host = Some path \<and> in_store path) \<and>
      (\<exists>r. map_of results host = Some r \<and> r = fst (deploy_host_with (henv host) plan built host) \<and>
        hd_state r \<in> {HConfirmed, HRebootPending})) \<and>
    map_of (meta_of env st) ''rc'' = Some (json_of_int 0)"
proof -
  obtain built bst where b: "build_profiles_with env fuel plan dir = Some (Inr built, bst)"
    "settle_run env (JNum now) (fan built) bst = (0, st, ls)"
    using controller_zero [OF assms(1)] by blast
  from b(2) obtain results where res: "fan built = Inr results"
    "settled_rc (read_meta (be_meta_parse env) (bs_dir bst)) (summarize results) = 0"
    "update_meta env (settled_meta (JNum now) 0 (summarize results)) bst = (Inr (), st)"
    by (rule settle_run_zero)
  have dh: "deploy_hosts henv aenv plan built results" using assms(2) res(1) by blast
  have "map_of (meta_of env st) ''rc'' = Some (json_of_int 0)"
    by (rule update_meta_int [OF assms(4) res(3) settled_meta_fits]) (simp_all add: settled_meta_lookup)
  then show ?thesis
    using settled_well_deployed [OF dh assms(3) res(2)] built_targets [OF b(1) assms(3)] dh b(1) res(1) by blast
qed

text \<open>An example with a printer and a reader of JSON text for the metadata.\<close>

definition text_build_env :: build_env where
  "text_build_env = (sample_build_env [])\<lparr>be_meta_ser := \<lambda>m. Inr (json_text (JObj m)), be_meta_parse := json_read\<rparr>"

lemma text_io: "io_works text_build_env"
  by (simp add: io_works_def stream_works_def text_build_env_def sample_build_env_def)

lemma text_meta: "meta_text (be_meta_ser text_build_env) (be_meta_parse text_build_env)"
proof -
  have env: "be_meta_ser text_build_env = (\<lambda>m. Inr (json_text (JObj m)))" "be_meta_parse text_build_env = json_read"
    by (simp_all add: text_build_env_def)
  have "\<exists>m'. json_read (json_text (JObj m)) = Some (JObj m') \<and>
      (\<forall>k n. \<bar>n\<bar> \<le> int I64_MAX \<longrightarrow> map_of m k = Some (json_of_int n) \<longrightarrow> map_of m' k = Some (json_of_int n))"
    if "json_fits JSON_DEPTH (JObj m)" for m
    unfolding read_of_text [OF that] by (simp add: map_of_image image_int)
  then show ?thesis unfolding meta_text_def env using read_json_fits by (metis Inr_inject)
qed

lemma live_plan_fields:
  "dp_targets (sample_live_plan b) = [''web'']" "dp_throttle (sample_live_plan b) = 4"
  "dp_halt_on_build_failure (sample_live_plan b) = False"
  by (simp_all add: sample_live_plan_def sample_plan_def)

lemma text_build: "\<exists>st. build_profiles_with text_build_env 1 (sample_live_plan False) [] = Some (Inr sample_profiles, st)"
proof -
  have res: "build_resolution text_build_env (sample_live_plan False) = Inr [(''/nix/store/a.drv^out'', ''/nix/store/w'')]"
    using sample_resolution [of "[]"]
    by (simp add: build_resolution_def build_argv_def text_build_env_def live_plan_fields sample_fields profile_out_link_def)
  obtain w where w: "open_build_writer text_build_env [] = Inr w"
    using sample_writer [of "[]"] by (auto simp: open_build_writer_def text_build_env_def)
  have fields: "be_spawn text_build_env a = None" "be_stderr text_build_env = []" "be_stdout text_build_env = None"
    "be_runtime text_build_env = False" "be_status text_build_env = Inr (ExitCode 0)" "be_cache text_build_env = None"
    for a using sample_fields by (simp_all add: text_build_env_def)
  have outcome: "build_outcome (be_probe text_build_env) (be_link text_build_env) out False [''web''] resolved None (ExitCode 0) =
      Inr sample_profiles" for out resolved
    using sample_outcome [of "[]"] by (simp add: text_build_env_def)
  have "fst (conclude_build text_build_env (ExitCode 0) (Inr sample_profiles) s) = Inr sample_profiles" for s
  proof -
    have "fst (update_meta text_build_env x t) = Inr ()" for x t
      by (rule update_meta_total [OF text_io, of t x]) simp
    then show ?thesis
      by (simp add: conclude_build_def Let_def split_beta emit_final_total report_failures_total text_io fields)
  qed
  then show ?thesis
    using w by (simp add: build_profiles_with_def res spawn_build_def split_beta emit_event_total text_io fields
        run_build_def follow_output_def Let_def outcome live_plan_fields prod_eq_iff)
qed

theorem exit_zero_means_all_deployed_witness:
  "\<exists>built st r path. map_of (meta_of text_build_env st) ''rc'' = Some (json_of_int 0) \<and>
    map_of (bp_paths built) ''web'' = Some path \<and> in_store path \<and>
    r = fst (deploy_host_with sample_host_env (sample_live_plan False) built ''web'') \<and>
    hd_state r \<in> {HConfirmed, HRebootPending}"
proof -
  obtain r st where r: "deploy_host_with sample_host_env (sample_live_plan False) sample_profiles ''web'' = (r, Some st)"
    "hd_state r = HConfirmed"
    using sample_confirmed .
  define fan where "fan = (\<lambda>built. if built = sample_profiles then Inr [(''web'', r)] else Inl ''none'' ::
    (string, (string, host_deploy_result) bmap) result)"
  have name: "hd_host r = ''web''" using deploy_host_name [of sample_host_env _ _ "''web''"] r(1) by (metis fst_conv)
  have "deploy_hosts (\<lambda>_. sample_host_env) (\<lambda>_. sample_host_env) (sample_live_plan False) sample_profiles [(''web'', r)]"
    unfolding deploy_hosts_def
    using one_task_start [of "sample_live_plan False" "''web''" sample_profiles "host_abnormal (\<lambda>_. sample_host_env)"]
      one_task_run [of "host_task (\<lambda>_. sample_host_env) (sample_live_plan False) sample_profiles" "''web''" r 4
        "host_abnormal (\<lambda>_. sample_host_env)"] name r(1)
    by (intro exI [of _ 3] exI) (auto simp: live_plan_fields sample_plan_simps host_task_def fan_over_def)
  then have ends: "deploy_hosts (\<lambda>_. sample_host_env) (\<lambda>_. sample_host_env) (sample_live_plan False) built results"
    if "fan built = Inr results" for built results
    using that by (auto simp: fan_def split: if_splits)
  obtain bst where build: "build_profiles_with text_build_env 1 (sample_live_plan False) [] = Some (Inr sample_profiles, bst)"
    using text_build by blast
  have "map_of (meta_of text_build_env bst) ''build_rc'' = Some (json_of_int 0)"
  proof -
    obtain resolved s0 where "run_build text_build_env 1 (sample_live_plan False) resolved s0 = Some (Inr sample_profiles, bst)"
      using build_profiles_ok [OF build] .
    then obtain s1 status outcome where "be_status text_build_env = Inr status"
      "conclude_build text_build_env status outcome s1 = (Inr sample_profiles, bst)"
      using run_build_ok by metis
    then obtain s2 where "update_meta text_build_env (built_meta 0 sample_profiles) s2 = (Inr (), bst)"
      using conclude_build_ok by (force simp: text_build_env_def sample_build_env_def)
    then show ?thesis
      by (rule update_meta_int [OF text_meta _ built_meta_fits]) (simp_all add: built_meta_lookup sample_profiles_def bm_wf_def)
  qed
  then have rc: "settled_rc (read_meta (be_meta_parse text_build_env) (bs_dir bst)) (summarize [(''web'', r)]) = 0"
    using r(2) by (simp add: settled_rc_def build_failed_def meta_of_def json_of_int_def I64_MAX_def summarize_def
        count_state_def bm_values_def)
  have "fst (update_meta text_build_env x t) = Inr ()" for x t
    by (rule update_meta_total [OF text_io, of t x]) simp
  then have "fst (settle_run text_build_env (JNum (PosInt 0)) (fan sample_profiles) bst) = 0"
    using rc by (simp add: settle_run_def settle_fan_out_def fan_def split_beta Let_def exit_byte_zero)
  then obtain st' ls where run: "controller_run text_build_env 1 (JNum (PosInt 0)) (sample_live_plan False) [] None None fan = Some (0, st', ls)"
    using build by (cases "settle_run text_build_env (JNum (PosInt 0)) (fan sample_profiles) bst") (auto simp: controller_run_def)
  have d: "distinct (dp_targets (sample_live_plan False))" by (simp add: live_plan_fields)
  show ?thesis
    using exit_zero_means_all_deployed [OF run ends d text_meta] by (auto simp: live_plan_fields)
qed

end
