(* ===== verification/ProcessGroups.thy ===== *)
theory ProcessGroups
  imports OrderedMap
begin

text \<open>The process groups a deployment owns, \<^verbatim>\<open>mandala-deploy/src/process.rs\<close>: the registry behind one
  lock, the guard (\<^verbatim>\<open>ChildGroup\<close>) each child has, and the signal forwarder. Every operation that
  holds the lock is one step; the steps of the threads interleave freely, and the kernel chooses
  process ids, which it may use again once a leader has been reaped. The theorems say that a signal
  is only ever sent to a group whose leader has not been reaped, and, as long as no id is used again
  while an old guard for it is still held, that the forwarder reaches every running child.\<close>

section \<open>Operations under the lock\<close>

datatype signal = SIGINT | SIGTERM | SIGKILL

record children =
  ch_groups :: "int bset"
  ch_stopping :: bool

record child_group =
  cg_pgid :: int
  cg_reaped :: bool

definition children_default :: children where
  "children_default = \<lparr>ch_groups = [], ch_stopping = False\<rparr>"

definition bs_remove :: "'a \<Rightarrow> 'a bset \<Rightarrow> 'a bset" where
  "bs_remove x s = filter (\<lambda>y. y \<noteq> x) s"

text \<open>\<open>forked\<close> is what \<^verbatim>\<open>Command::spawn\<close> answers.\<close>

definition spawn_child ::
  "(string, int) result \<Rightarrow> children \<Rightarrow> (string, child_group) result \<times> children" where
  "spawn_child forked ch =
    (if ch_stopping ch then (Inl ''deploy is terminating'', ch)
     else (case forked of
         Inl e \<Rightarrow> (Inl e, ch)
       | Inr pid \<Rightarrow> (Inr \<lparr>cg_pgid = pid, cg_reaped = False\<rparr>, ch\<lparr>ch_groups := bs_insert pid (ch_groups ch)\<rparr>)))"

definition leader_reaped :: "child_group \<Rightarrow> children \<Rightarrow> child_group \<times> children" where
  "leader_reaped g ch = (g\<lparr>cg_reaped := True\<rparr>, ch\<lparr>ch_groups := bs_remove (cg_pgid g) (ch_groups ch)\<rparr>)"

definition drop_group :: "child_group \<Rightarrow> children \<Rightarrow> (int \<times> signal) list \<times> children" where
  "drop_group g ch =
    ((if \<not> cg_reaped g then [(cg_pgid g, SIGKILL)] else []),
     ch\<lparr>ch_groups := bs_remove (cg_pgid g) (ch_groups ch)\<rparr>)"

definition forward_signal :: "signal \<Rightarrow> children \<Rightarrow> (int \<times> signal) list \<times> children" where
  "forward_signal sig ch = (map (\<lambda>g. (g, sig)) (ch_groups ch), ch\<lparr>ch_stopping := True\<rparr>)"

text \<open>Two seconds later, in the engine, before it exits.\<close>

definition escalate :: "children \<Rightarrow> (int \<times> signal) list" where
  "escalate ch = map (\<lambda>g. (g, SIGKILL)) (ch_groups ch)"

definition forwarder_dropped :: "children \<Rightarrow> children" where
  "forwarder_dropped ch = ch\<lparr>ch_stopping := False\<rparr>"

section \<open>Interleavings\<close>

text \<open>The registry, the guards the program holds, and the leaders that the kernel still has because
  nobody reaped them.\<close>

record process_world =
  pw_children :: children
  pw_guards :: "child_group list"
  pw_leaders :: "int set"

text \<open>A step with the signals it sends.\<close>

inductive process_step :: "process_world \<Rightarrow> (int \<times> signal) list \<Rightarrow> process_world \<Rightarrow> bool" where
  spawn: "spawn_child (Inr pid) (pw_children w) = (Inr g, ch) \<Longrightarrow> pid \<notin> pw_leaders w \<Longrightarrow>
    process_step w [] (w\<lparr>pw_children := ch, pw_guards := pw_guards w @ [g], pw_leaders := Set.insert pid (pw_leaders w)\<rparr>)"
| spawn_fails: "spawn_child forked (pw_children w) = (Inl e, ch) \<Longrightarrow> process_step w [] (w\<lparr>pw_children := ch\<rparr>)"
| reap: "pw_guards w = pre @ g # post \<Longrightarrow> \<not> cg_reaped g \<Longrightarrow> leader_reaped g (pw_children w) = (g', ch) \<Longrightarrow>
    process_step w [] (w\<lparr>pw_children := ch, pw_guards := pre @ g' # post, pw_leaders := pw_leaders w - {cg_pgid g}\<rparr>)"
| drop_guard: "pw_guards w = pre @ g # post \<Longrightarrow> drop_group g (pw_children w) = (sent, ch) \<Longrightarrow>
    process_step w sent (w\<lparr>pw_children := ch, pw_guards := pre @ post\<rparr>)"
| orphan_reaped: "(\<forall>g\<in>set (pw_guards w). cg_pgid g = pid \<longrightarrow> cg_reaped g) \<Longrightarrow>
    process_step w [] (w\<lparr>pw_leaders := pw_leaders w - {pid}\<rparr>)"
| forward: "forward_signal sig (pw_children w) = (sent, ch) \<Longrightarrow> process_step w sent (w\<lparr>pw_children := ch\<rparr>)"
| kill_all: "process_step w (escalate (pw_children w)) w"
| forwarder_gone: "process_step w [] (w\<lparr>pw_children := forwarder_dropped (pw_children w)\<rparr>)"

inductive process_reachable :: "process_world \<Rightarrow> bool" where
  process_start: "process_reachable \<lparr>pw_children = children_default, pw_guards = [], pw_leaders = {}\<rparr>"
| process_next: "process_reachable w \<Longrightarrow> process_step w sent w' \<Longrightarrow> process_reachable w'"

lemma set_bs_remove [simp]: "set (bs_remove x s) = set s - {x}"
  by (auto simp: bs_remove_def)

definition open_groups :: "child_group list \<Rightarrow> int list" where
  "open_groups gs = map cg_pgid (filter (\<lambda>g. \<not> cg_reaped g) gs)"

lemma open_groups_simps [simp]:
  "open_groups [] = []"
  "open_groups (g # gs) = (if cg_reaped g then open_groups gs else cg_pgid g # open_groups gs)"
  "open_groups (gs @ hs) = open_groups gs @ open_groups hs"
  by (simp_all add: open_groups_def)

lemma open_groups_subset: "set (open_groups gs) \<subseteq> cg_pgid ` set gs"
  by (auto simp: open_groups_def)

abbreviation running :: "process_world \<Rightarrow> int set" where
  "running w \<equiv> set (open_groups (pw_guards w))"

text \<open>The invariant: a registered group belongs to a guard that has not been reaped, two such guards
  have different groups, and their leaders have not been reaped.\<close>

definition groups_inv :: "process_world \<Rightarrow> bool" where
  "groups_inv w \<longleftrightarrow>
    set (ch_groups (pw_children w)) \<subseteq> running w \<and> running w \<subseteq> pw_leaders w \<and>
    distinct (open_groups (pw_guards w))"

lemma groups_inv_step:
  assumes "process_step w sent w'" and inv: "groups_inv w"
  shows "groups_inv w' \<and> fst ` set sent \<subseteq> pw_leaders w"
  using assms(1)
proof (cases rule: process_step.cases)
  case (orphan_reaped pid)
  then have "pid \<notin> running w" by (auto simp: open_groups_def)
  with orphan_reaped show ?thesis using inv by (auto simp: groups_inv_def)
next
  case (forward sig ch)
  then show ?thesis using inv by (force simp: groups_inv_def forward_signal_def)
qed (use inv in \<open>auto simp: groups_inv_def spawn_child_def leader_reaped_def drop_group_def forward_signal_def
    escalate_def forwarder_dropped_def split: if_splits sum.splits\<close>)

lemma process_reachable_inv: "process_reachable w \<Longrightarrow> groups_inv w"
proof (induction rule: process_reachable.induct)
  case process_start
  then show ?case by (simp add: groups_inv_def children_default_def)
next
  case (process_next w sent w')
  then show ?case using groups_inv_step by blast
qed

text \<open>Executions in which no process id is used again while a guard for it is held.\<close>

inductive process_reachable_fresh :: "process_world \<Rightarrow> bool" where
  fresh_start: "process_reachable_fresh \<lparr>pw_children = children_default, pw_guards = [], pw_leaders = {}\<rparr>"
| fresh_next: "process_reachable_fresh w \<Longrightarrow> process_step w sent w' \<Longrightarrow> distinct (map cg_pgid (pw_guards w')) \<Longrightarrow>
    process_reachable_fresh w'"

lemma distinct_guard:
  assumes "distinct (map cg_pgid (pre @ g # post))"
  shows "cg_pgid g \<notin> set (open_groups pre)" "cg_pgid g \<notin> set (open_groups post)"
  using assms open_groups_subset [of pre] open_groups_subset [of post] by auto

lemma registered_step:
  assumes "process_step w sent w'" and "set (ch_groups (pw_children w)) = running w"
    and "distinct (map cg_pgid (pw_guards w))"
  shows "set (ch_groups (pw_children w')) = running w'"
  using assms(1)
proof (cases rule: process_step.cases)
  case (reap pre g post g' ch)
  then have "cg_pgid g \<notin> set (open_groups pre) \<union> set (open_groups post)" using distinct_guard [of pre g post] assms(3) by simp
  then show ?thesis using reap assms(2) by (auto simp: leader_reaped_def)
next
  case (drop_guard pre g post ch)
  then have "cg_pgid g \<notin> set (open_groups pre) \<union> set (open_groups post)" using distinct_guard [of pre g post] assms(3) by simp
  moreover have "ch_groups ch = bs_remove (cg_pgid g) (ch_groups (pw_children w))"
    using drop_guard by (auto simp: drop_group_def)
  ultimately show ?thesis using drop_guard assms(2) by (cases "cg_reaped g") auto
next
  case (spawn pid g ch)
  then have "g = \<lparr>cg_pgid = pid, cg_reaped = False\<rparr>" "set (ch_groups ch) = Set.insert pid (set (ch_groups (pw_children w)))"
    by (auto simp: spawn_child_def split: if_splits)
  then show ?thesis using spawn assms(2) by simp
next
  case (spawn_fails forked e ch)
  then have "ch = pw_children w" by (simp add: spawn_child_def split: if_splits sum.splits)
  then show ?thesis using spawn_fails assms(2) by simp
next
  case (forward sig ch)
  then have "ch_groups ch = ch_groups (pw_children w)" by (metis forward_signal_def children.select_convs(1) children.surjective
      children.update_convs(2) prod.inject)
  then show ?thesis using forward assms(2) by simp
next
  case forwarder_gone
  then show ?thesis using assms(2) by (simp add: forwarder_dropped_def)
qed (use assms(2) in simp_all)

lemma fresh_registered:
  "process_reachable_fresh w \<Longrightarrow>
    set (ch_groups (pw_children w)) = running w \<and> distinct (map cg_pgid (pw_guards w))"
proof (induction rule: process_reachable_fresh.induct)
  case fresh_start
  then show ?case by (simp add: children_default_def)
next
  case (fresh_next w sent w')
  then show ?case using registered_step by blast
qed

section \<open>Properties\<close>

text \<open>C36: Signals only go to groups the program owns: in every interleaving, each signal a step sends,
  by the forwarder, by its escalation or by a dropped guard, goes to a group whose leader nobody has
  reaped, so the id cannot have been given to another process.\<close>

theorem signals_stay_in_owned_groups:
  assumes "process_reachable w" and "process_step w sent w'"
  shows "fst ` set sent \<subseteq> pw_leaders w"
  using groups_inv_step [OF assms(2) process_reachable_inv [OF assms(1)]] by blast

definition sample_world :: "int \<Rightarrow> process_world" where
  "sample_world pid = \<lparr>pw_children = \<lparr>ch_groups = [pid], ch_stopping = False\<rparr>,
    pw_guards = [\<lparr>cg_pgid = pid, cg_reaped = False\<rparr>], pw_leaders = {pid}\<rparr>"

lemma sample_spawn:
  "process_step \<lparr>pw_children = children_default, pw_guards = [], pw_leaders = {}\<rparr> [] (sample_world pid)"
  using process_step.spawn [of pid "\<lparr>pw_children = children_default, pw_guards = [], pw_leaders = {}\<rparr>"]
  by (simp add: spawn_child_def children_default_def sample_world_def)

lemma sample_reachable: "process_reachable (sample_world pid)" "process_reachable_fresh (sample_world pid)"
proof -
  show "process_reachable (sample_world pid)"
    using process_start sample_spawn by (rule process_next)
  show "process_reachable_fresh (sample_world pid)"
    using fresh_start sample_spawn by (rule fresh_next) (simp add: sample_world_def)
qed

theorem signals_stay_in_owned_groups_witness:
  "fst ` set [(7, SIGKILL)] \<subseteq> pw_leaders (sample_world 7)"
proof (rule signals_stay_in_owned_groups [OF sample_reachable(1)])
  show "process_step (sample_world 7) [(7, SIGKILL)] (sample_world 7)"
    using process_step.kill_all [of "sample_world 7"] by (simp add: escalate_def sample_world_def)
qed

text \<open>Termination reaches every child. As long as no process id is used again while an old guard
  for it is held, a forwarded signal is sent to exactly the groups of the children that run, and
  after it no new child is started until the forwarder is gone.\<close>

lemma forwarder_reaches_every_child:
  assumes "process_reachable_fresh w" and "forward_signal sig (pw_children w) = (sent, ch)"
  shows "set sent = {(g, sig) |g. g \<in> running w} \<and>
    (\<forall>forked. fst (spawn_child forked ch) = Inl ''deploy is terminating'' \<and> snd (spawn_child forked ch) = ch)"
  using assms(2) fresh_registered [OF assms(1)] by (auto simp: forward_signal_def spawn_child_def)

text \<open>The restriction on process ids is needed: the guard of a reaped child removes its id from the
  registry when it is dropped, also when the id belongs to a newer child by then, which the forwarder
  does not reach any more.\<close>

lemma reused_id_escapes_the_forwarder:
  "\<exists>w sent ch. process_reachable w \<and> 7 \<in> running w \<and>
    forward_signal SIGTERM (pw_children w) = (sent, ch) \<and> sent = []"
proof -
  let ?r = "\<lparr>cg_pgid = 7, cg_reaped = True\<rparr>" and ?g = "\<lparr>cg_pgid = 7, cg_reaped = False\<rparr>"
  let ?w1 = "\<lparr>pw_children = children_default, pw_guards = [?r], pw_leaders = {}\<rparr>"
  let ?w2 = "\<lparr>pw_children = \<lparr>ch_groups = [7], ch_stopping = False\<rparr>, pw_guards = [?r, ?g], pw_leaders = {7}\<rparr>"
  let ?w3 = "\<lparr>pw_children = children_default, pw_guards = [?g], pw_leaders = {7}\<rparr>"
  have "process_step (sample_world 7) [] ?w1"
    using process_step.reap [of "sample_world 7" "[]" ?g "[]"]
    by (simp add: sample_world_def leader_reaped_def children_default_def bs_remove_def)
  moreover have "process_step ?w1 [] ?w2"
    using process_step.spawn [of 7 ?w1] by (simp add: spawn_child_def children_default_def)
  moreover have "process_step ?w2 [] ?w3"
    using process_step.drop_guard [of ?w2 "[]" ?r "[?g]"]
    by (simp add: drop_group_def children_default_def bs_remove_def)
  ultimately have "process_reachable ?w3"
    using sample_reachable(1) by (blast intro: process_next)
  then show ?thesis
    by (intro exI [of _ ?w3]) (simp add: forward_signal_def children_default_def)
qed

end
