(* ===== verification/Launches.thy ===== *)
theory Launches
  imports Registry Activation
begin

text \<open>Launch directories, from the write side of \<^verbatim>\<open>crates/mandala-core/src/runner.rs\<close>: how a frontend
  allocates the directory through which it starts a deployment, how old ones are pruned, and the
  supervisor process that takes the request from it and owns the engine. A directory is protected by
  the name of its allocator, by the process id published in it, by a file lock, and by the run whose
  id its log begins with. What a process sees of the others (locks, live processes, the registry) is
  an argument.\<close>

section \<open>Pruning\<close>

definition COMMAND_LOG :: string where
  "COMMAND_LOG = ''output.log''"

definition LAUNCH_ACTIVE :: string where
  "LAUNCH_ACTIVE = ''active.json''"

definition DEPLOY_SUPERVISOR_REQUEST :: string where
  "DEPLOY_SUPERVISOR_REQUEST = ''supervisor.json''"

text \<open>The lock file of a directory, as the scan finds it: a symbolic link, one that cannot be opened
  (or created), one that another process holds, or one that is free.\<close>

datatype lock_probe = LockSymlink | LockUnopenable | LockHeld | LockFree

datatype read_attempt = NotFound | ReadError | ReadBytes string

record launch_entry =
  le_is_dir :: bool
  le_lock :: lock_probe
  le_active :: read_attempt
  le_log :: "string option"

record launch_env =
  len_alive :: "int option \<Rightarrow> bool"
  len_open_run :: "string \<Rightarrow> run_info option"
  len_timestamp_ok :: "string \<Rightarrow> bool"
  len_parse :: "string \<Rightarrow> json option"
  len_relock :: "string \<Rightarrow> bool"
  len_removable :: "string \<Rightarrow> bool"

definition U128_MAX :: nat where
  "U128_MAX = 340282366920938463463374607431768211455"

text \<open>Stamp and allocator of a launch name; other names are not touched.\<close>

definition launch_name :: "string \<Rightarrow> (nat \<times> int) option" where
  "launch_name name =
    (case split_on (CHR ''-'') name of
       [s, a, n] \<Rightarrow>
         (case (parse_unsigned U128_MAX s, parse_i64 a, parse_unsigned U32_MAX n) of
            (Some stamp, Some allocator, Some _) \<Rightarrow> if allocator \<le> 0 then None else Some (stamp, allocator)
          | _ \<Rightarrow> None)
     | _ \<Rightarrow> None)"

text \<open>The first lines of the log; a line that is not UTF-8 counts but is skipped.\<close>

definition log_head :: "string \<Rightarrow> string list" where
  "log_head content = filter utf8_valid (take 32 (str_lines (take (64 * 1024) content)))"

definition launch_engine_alive :: "launch_env \<Rightarrow> string option \<Rightarrow> bool" where
  "launch_engine_alive env lg =
    (case lg of
       None \<Rightarrow> False
     | Some content \<Rightarrow>
         (case List.find (\<lambda>r. is_valid_run_id (len_timestamp_ok env) r \<and> len_open_run env r \<noteq> None)
             (map trim (log_head content)) of
            None \<Rightarrow> False
          | Some run \<Rightarrow>
              let m = ri_meta (the (len_open_run env run))
              in len_alive env (run_pid m) \<or> len_alive env (supervisor_pid m)))"

text \<open>Whether a launch counts as active; None when that cannot be told.\<close>

definition launch_active :: "launch_env \<Rightarrow> int \<Rightarrow> launch_entry \<Rightarrow> bool option" where
  "launch_active env allocator e =
    (case le_active e of
       ReadBytes body \<Rightarrow>
         map_option (\<lambda>pid. len_alive env (Some pid)) (Option.bind (len_parse env body) (get_i64 ''pid''))
     | NotFound \<Rightarrow> Some (len_alive env (Some allocator) \<or> launch_engine_alive env (le_log e))
     | ReadError \<Rightarrow> None)"

definition launch_inactive :: "launch_env \<Rightarrow> string \<times> launch_entry \<Rightarrow> (nat \<times> string) option" where
  "launch_inactive env = (\<lambda>(name, e).
    if \<not> le_is_dir e then None
    else (case launch_name name of
        None \<Rightarrow> None
      | Some (stamp, allocator) \<Rightarrow>
          if le_lock e \<noteq> LockFree then None
          else (case launch_active env allocator e of
              None \<Rightarrow> None
            | Some active \<Rightarrow>
                if \<not> active \<and> \<not> launch_engine_alive env (le_log e) then Some (stamp, name) else None)))"

definition DAY_NANOS :: nat where
  "DAY_NANOS = 86400 * 1000000000"

definition launch_victims :: "launch_env \<Rightarrow> nat \<Rightarrow> nat \<Rightarrow> nat \<Rightarrow> (string \<times> launch_entry) list \<Rightarrow> string list" where
  "launch_victims env keep days now entries =
    (let inactive = sort_key (\<lambda>(stamp, _). - int stamp) (List.map_filter (launch_inactive env) entries)
     in List.map_filter
          (\<lambda>(index, stamp, name).
            if (keep \<le> index \<or> (0 < days \<and> days * DAY_NANOS \<le> now - stamp)) \<and> len_relock env name
            then Some name else None)
          (enumerate 0 inactive))"

definition prune_deploy_launches ::
  "launch_env \<Rightarrow> nat \<Rightarrow> nat \<Rightarrow> nat \<Rightarrow> (string \<times> launch_entry) list \<Rightarrow> (string \<times> launch_entry) list" where
  "prune_deploy_launches env keep days now entries =
    (let victims = launch_victims env keep days now entries
     in filter (\<lambda>(name, _). \<not> (name \<in> set victims \<and> len_removable env name)) entries)"

section \<open>Allocation\<close>

definition launch_dir_name :: "nat \<Rightarrow> nat \<Rightarrow> nat \<Rightarrow> string" where
  "launch_dir_name stamp pid attempt = show_nat stamp @ ''-'' @ show_nat pid @ ''-'' @ show_nat attempt"

definition new_launch :: launch_entry where
  "new_launch = \<lparr>le_is_dir = True, le_lock = LockFree, le_active = NotFound, le_log = None\<rparr>"

text \<open>\<open>create\<close> is what creating a fresh directory answers.\<close>

fun claim_launch ::
  "nat \<Rightarrow> (nat \<Rightarrow> nat) \<Rightarrow> nat \<Rightarrow> (string \<Rightarrow> string option) \<Rightarrow> nat \<Rightarrow> (string \<times> launch_entry) list \<Rightarrow>
    (string, string \<times> (string \<times> launch_entry) list) result" where
  "claim_launch 0 stamps pid create attempt entries =
    Inl ''could not allocate deploy coordination directory''"
| "claim_launch (Suc left) stamps pid create attempt entries =
    (let name = launch_dir_name (stamps attempt) pid attempt
     in if name \<in> fst ` set entries then claim_launch left stamps pid create (attempt + 1) entries
        else (case create name of
            Some e \<Rightarrow> Inl e
          | None \<Rightarrow> Inr (name, entries @ [(name, new_launch)])))"

definition new_deploy_launch_dir ::
  "launch_env \<Rightarrow> nat \<Rightarrow> nat \<Rightarrow> nat \<Rightarrow> (string \<Rightarrow> string option) \<Rightarrow> (nat \<Rightarrow> nat) \<Rightarrow> nat \<Rightarrow> string option \<Rightarrow>
    (string \<times> launch_entry) list \<Rightarrow> (string, string \<times> (string \<times> launch_entry) list) result" where
  "new_deploy_launch_dir env keep days now create stamps pid base_error entries =
    (let entries = prune_deploy_launches env keep days now entries
     in case base_error of
          Some e \<Rightarrow> Inl e
        | None \<Rightarrow> claim_launch 100 stamps pid create 0 entries)"

section \<open>Handing over to the supervisor\<close>

record supervisor_request =
  sr_argv :: "string list"
  sr_cwd :: string

definition launch_pid_body :: "nat \<Rightarrow> string" where
  "launch_pid_body pid = ''{'' @ [CHR 0x22] @ ''pid'' @ [CHR 0x22] @ '':'' @ show_nat pid @ ''}''"

definition write_launch_pid :: "nat \<Rightarrow> nat \<Rightarrow> fs_op list" where
  "write_launch_pid writer pid = replace_ops (''active.'' @ show_nat writer @ ''.tmp'') LAUNCH_ACTIVE (launch_pid_body pid)"

definition launch_header :: "string list \<Rightarrow> string \<Rightarrow> string" where
  "launch_header argv cwd = ''$ '' @ join '' '' argv @ ''  (cwd='' @ cwd @ '')'' @ [CHR 0x0A]"

text \<open>The files a frontend writes before it starts the supervisor: the header of the log, then the
  request, complete before it gets its name.\<close>

definition request_ops :: "string \<Rightarrow> fs_op list" where
  "request_ops body = replace_ops (DEPLOY_SUPERVISOR_REQUEST @ ''.tmp'') DEPLOY_SUPERVISOR_REQUEST body"

definition launch_ops :: "string \<Rightarrow> string list \<Rightarrow> string \<Rightarrow> fs_op list" where
  "launch_ops body argv cwd = WriteFile COMMAND_LOG (launch_header argv cwd) # request_ops body"

record supervisor_env =
  se_io :: "fs_op \<Rightarrow> string option"
  se_encode :: "supervisor_request \<Rightarrow> (string, string) result"
  se_decode :: "string \<Rightarrow> (string, supervisor_request) result"
  se_canonical :: "string \<Rightarrow> (string, string) result"
  se_removes :: bool
  se_lock_error :: "string option"
  se_spawn :: "string list \<Rightarrow> (string, nat) result"
  se_signals :: "string option"
  se_log_error :: "string option"
  se_engine :: "string list \<Rightarrow> string \<Rightarrow> string option"
  se_wait :: "(string, exit_status) result"

text \<open>Appending to the log, which is ignored when the log cannot be opened.\<close>

definition append_log :: "supervisor_env \<Rightarrow> string \<Rightarrow> file_dir \<Rightarrow> file_dir" where
  "append_log env text dir =
    (if se_log_error env \<noteq> None then dir
     else bm_insert COMMAND_LOG (opt_default [] (map_of dir COMMAND_LOG) @ text) dir)"

text \<open>\<^verbatim>\<open>start_supervised\<close>, on the files of the new launch directory: the process id of the supervisor.\<close>

definition drop_request :: "supervisor_env \<Rightarrow> file_dir \<Rightarrow> file_dir" where
  "drop_request env dir = (if se_removes env then bm_remove DEPLOY_SUPERVISOR_REQUEST dir else dir)"

definition spawn_supervisor ::
  "supervisor_env \<Rightarrow> nat \<Rightarrow> string \<Rightarrow> file_dir \<Rightarrow> (string, nat) result \<times> file_dir" where
  "spawn_supervisor env self path dir =
    (case opt_or (se_lock_error env) (se_log_error env) of
       Some e \<Rightarrow> (Inl e, dir)
     | None \<Rightarrow>
         (case se_spawn env [path] of
            Inl e \<Rightarrow>
              (Inl e, append_log env (''failed to launch deploy supervisor: '' @ e @ [CHR 0x0A]) (drop_request env dir))
          | Inr pid \<Rightarrow>
              (case fs_try (se_io env) (write_launch_pid self pid) dir of
                 (Inl e, dir) \<Rightarrow> (Inl e, dir)
               | (Inr _, dir) \<Rightarrow> (Inr pid, dir))))"

definition start_supervised ::
  "supervisor_env \<Rightarrow> nat \<Rightarrow> string \<Rightarrow> string list \<Rightarrow> string \<Rightarrow> file_dir \<Rightarrow> (string, nat) result \<times> file_dir" where
  "start_supervised env self path argv cwd dir =
    (case fs_try (se_io env) [WriteFile COMMAND_LOG (launch_header argv cwd)] dir of
       (Inl e, dir) \<Rightarrow> (Inl e, dir)
     | (Inr _, dir) \<Rightarrow>
         (case se_encode env \<lparr>sr_argv = argv, sr_cwd = cwd\<rparr> of
            Inl e \<Rightarrow> (Inl e, dir)
          | Inr body \<Rightarrow>
              (case fs_try (se_io env) (request_ops body) dir of
                 (Inl e, dir) \<Rightarrow> (Inl e, dir)
               | (Inr _, dir) \<Rightarrow> spawn_supervisor env self path dir)))"

text \<open>The code a waiter reports: that of the exit, or the negated signal.\<close>

fun wait_code :: "exit_status \<Rightarrow> int" where
  "wait_code (ExitCode n) = n"
| "wait_code (KilledBy s) = - s"

definition run_request ::
  "supervisor_env \<Rightarrow> supervisor_request \<Rightarrow> file_dir \<Rightarrow> (string, int) result \<times> file_dir \<times> (string list \<times> string) list" where
  "run_request env request dir =
    (case opt_or (se_signals env) (se_log_error env) of
       Some e \<Rightarrow> (Inl e, dir, [])
     | None \<Rightarrow>
         (case se_engine env (sr_argv request) (sr_cwd request) of
            Some e \<Rightarrow>
              (Inr 127, append_log env (''failed to launch '' @ hd (sr_argv request) @ '': '' @ e @ [CHR 0x0A]) dir, [])
          | None \<Rightarrow>
              (map_sum id wait_code (se_wait env), dir, [(sr_argv request, sr_cwd request)])))"

text \<open>The supervisor: its exit code, and the engine it has run.\<close>

definition run_deploy_supervisor ::
  "supervisor_env \<Rightarrow> nat \<Rightarrow> string \<Rightarrow> string \<Rightarrow> file_dir \<Rightarrow>
    (string, int) result \<times> file_dir \<times> (string list \<times> string) list" where
  "run_deploy_supervisor env self base path dir =
    (case (se_canonical env path, se_canonical env base) of
       (Inl e, _) \<Rightarrow> (Inl e, dir, [])
     | (_, Inl e) \<Rightarrow> (Inl e, dir, [])
     | (Inr path, Inr base) \<Rightarrow>
         if parent_path path \<noteq> Some base then
           (Inl ''deploy coordination directory is outside the launch root'', dir, [])
         else
           (case fs_try (se_io env) (write_launch_pid self self) dir of
              (Inl e, dir) \<Rightarrow> (Inl e, dir, [])
            | (Inr _, dir) \<Rightarrow>
                (case map_of dir DEPLOY_SUPERVISOR_REQUEST of
                   None \<Rightarrow> (Inl ''not found'', dir, [])
                 | Some body \<Rightarrow>
                     (case se_decode env body of
                        Inl e \<Rightarrow> (Inl e, dir, [])
                      | Inr request \<Rightarrow>
                          let dir = drop_request env dir
                          in if sr_argv request = [] then (Inl ''invalid deploy supervisor request'', dir, [])
                             else run_request env request dir))))"

section \<open>Launches in use are not pruned\<close>

lemma int_show_nat: "n \<le> I64_MAX \<Longrightarrow> parse_i64 (show_nat n) = Some (int n)"
proof -
  assume n: "n \<le> I64_MAX"
  obtain c r where c: "show_nat n = c # r" by (cases "show_nat n") (use show_nat_nonempty in blast)+
  then have "is_ascii_digit c" using show_nat_digits [of c n] by simp
  then have "c \<noteq> CHR ''-''" "c \<noteq> CHR ''+''" by (auto simp: is_ascii_digit_def byte_def)
  moreover have "list_all is_ascii_digit (show_nat n)" using show_nat_digits by (simp add: list_all_iff)
  ultimately show ?thesis using n c dec_value_show_nat [of n] by (simp add: parse_i64_def Let_def)
qed

lemma unsigned_show_nat: "n \<le> mx \<Longrightarrow> parse_unsigned mx (show_nat n) = Some n"
proof -
  assume n: "n \<le> mx"
  obtain c r where c: "show_nat n = c # r" by (cases "show_nat n") (use show_nat_nonempty in blast)+
  then have "is_ascii_digit c" using show_nat_digits [of c n] by simp
  then have "c \<noteq> CHR ''+''" by (auto simp: is_ascii_digit_def byte_def)
  then have "(case show_nat n of CHR ''+'' # r \<Rightarrow> r | _ \<Rightarrow> show_nat n) = show_nat n"
    using c by (auto split: char.splits bool.splits)
  moreover have "list_all is_ascii_digit (show_nat n)" using show_nat_digits by (simp add: list_all_iff)
  ultimately show ?thesis using n by (simp add: parse_unsigned_def)
qed

lemma split_on_absent: "c \<notin> set s \<Longrightarrow> split_on c s = [s]"
  by (induction s) auto

lemma split_on_append: "c \<notin> set a \<Longrightarrow> split_on c (a @ c # b) = a # split_on c b"
  by (induction a) auto

lemma show_nat_no_dash: "CHR ''-'' \<notin> set (show_nat n)"
  using show_nat_digits [of "CHR ''-''" n] by (auto simp: is_ascii_digit_def byte_def)

lemma launch_name_dir [simp]:
  assumes "stamp \<le> U128_MAX" and "0 < pid" and "pid \<le> I64_MAX" and "attempt \<le> U32_MAX"
  shows "launch_name (launch_dir_name stamp pid attempt) = Some (stamp, int pid)"
  using assms split_on_append [OF show_nat_no_dash] split_on_absent [OF show_nat_no_dash]
  by (simp add: launch_name_def launch_dir_name_def int_show_nat unsigned_show_nat)

lemma pid_tmp_name: "''active.'' @ show_nat n @ ''.tmp'' \<noteq> LAUNCH_ACTIVE"
proof
  assume "''active.'' @ show_nat n @ ''.tmp'' = LAUNCH_ACTIVE"
  then have "show_nat n @ ''.tmp'' = ''json''" by (simp add: LAUNCH_ACTIVE_def)
  moreover obtain c r where c: "show_nat n = c # r" by (cases "show_nat n") (use show_nat_nonempty in blast)+
  ultimately have "c = CHR ''j''" by simp
  then show False using show_nat_digits [of c n] c by (simp add: is_ascii_digit_def byte_def)
qed

text \<open>The entry a scan sees for the files of a launch.\<close>

definition seen_launch :: "lock_probe \<Rightarrow> file_dir \<Rightarrow> launch_entry" where
  "seen_launch lock dir = \<lparr>le_is_dir = True, le_lock = lock,
    le_active = (case map_of dir LAUNCH_ACTIVE of None \<Rightarrow> NotFound | Some body \<Rightarrow> ReadBytes body),
    le_log = map_of dir COMMAND_LOG\<rparr>"

lemma launch_files:
  assumes "crash_state (launch_ops body argv cwd @ write_launch_pid pid spid @ write_launch_pid spid spid) [] dir"
  shows "map_of dir LAUNCH_ACTIVE \<in> {None, Some (launch_pid_body spid)}"
proof -
  have names: "COMMAND_LOG \<noteq> LAUNCH_ACTIVE" "DEPLOY_SUPERVISOR_REQUEST \<noteq> LAUNCH_ACTIVE"
    "DEPLOY_SUPERVISOR_REQUEST @ ''.tmp'' \<noteq> LAUNCH_ACTIVE"
    by (simp_all add: COMMAND_LOG_def LAUNCH_ACTIVE_def DEPLOY_SUPERVISOR_REQUEST_def)
  show ?thesis
    using assms names pid_tmp_name [of pid] pid_tmp_name [of spid]
    unfolding launch_ops_def request_ops_def write_launch_pid_def replace_ops_def append.simps
    by (auto elim!: crash_WriteE crash_RenameE crash_NilE simp: map_of_bm_remove split: option.splits if_splits)
qed

lemma set_map_filter: "set (List.map_filter f xs) = {y. \<exists>x\<in>set xs. f x = Some y}"
  by (force simp: List.map_filter_def)

lemma victims_inactive:
  assumes "name \<in> set (launch_victims env keep days now entries)"
  obtains e stamp where "(name, e) \<in> set entries" "launch_inactive env (name, e) = Some (stamp, name)"
    "len_relock env name"
proof -
  let ?f = "\<lambda>(index, stamp, name). if (keep \<le> index \<or> (0 < days \<and> days * DAY_NANOS \<le> now - stamp)) \<and> len_relock env name
    then Some name else None"
  obtain i where "i \<in> set (enumerate 0 (sort_key (\<lambda>(stamp, _). - int stamp) (List.map_filter (launch_inactive env) entries)))"
    "?f i = Some name"
    using assms unfolding launch_victims_def Let_def by (auto simp: set_map_filter simp del: enumerate_simps)
  moreover from this(1) have "snd i \<in> set (map snd (enumerate 0 (sort_key (\<lambda>(stamp, _). - int stamp)
      (List.map_filter (launch_inactive env) entries))))"
    by (metis imageI list.set_map)
  then have "snd i \<in> set (List.map_filter (launch_inactive env) entries)" by simp
  moreover obtain j stamp n where "i = (j, stamp, n)" by (cases i)
  ultimately have "(stamp, name) \<in> set (List.map_filter (launch_inactive env) entries)" and "len_relock env name"
    by (auto split: if_splits)
  then obtain x where "x \<in> set entries" "launch_inactive env x = Some (stamp, name)"
    by (auto simp: set_map_filter)
  moreover from this have "fst x = name"
    by (auto simp: launch_inactive_def split: prod.splits if_splits option.splits)
  ultimately show thesis using that [of "snd x" stamp] \<open>len_relock env name\<close> by (metis prod.collapse)
qed

lemma pid_file_keeps:
  assumes "fs_try io (write_launch_pid writer pid) dir = (r, dir')"
  shows "map_of dir' DEPLOY_SUPERVISOR_REQUEST = map_of dir DEPLOY_SUPERVISOR_REQUEST"
proof -
  have "''active.'' @ show_nat writer @ ''.tmp'' \<noteq> DEPLOY_SUPERVISOR_REQUEST" "LAUNCH_ACTIVE \<noteq> DEPLOY_SUPERVISOR_REQUEST"
    by (simp_all add: DEPLOY_SUPERVISOR_REQUEST_def LAUNCH_ACTIVE_def)
  then show ?thesis using assms unfolding write_launch_pid_def replace_ops_def
    by (auto split: option.splits if_splits simp: map_of_bm_remove)
qed

lemma supervised_request:
  assumes "start_supervised env self path argv cwd [] = (Inr pid, dir)"
  obtains body where "se_encode env \<lparr>sr_argv = argv, sr_cwd = cwd\<rparr> = Inr body"
    "map_of dir DEPLOY_SUPERVISOR_REQUEST = Some body"
proof -
  obtain d1 body d2 where "se_encode env \<lparr>sr_argv = argv, sr_cwd = cwd\<rparr> = Inr body"
    "fs_try (se_io env) (request_ops body) d1 = (Inr (), d2)" "spawn_supervisor env self path d2 = (Inr pid, dir)"
    using assms unfolding start_supervised_def by (auto split: prod.splits sum.splits)
  moreover from this(2) have "map_of d2 DEPLOY_SUPERVISOR_REQUEST = Some body"
    using fs_try_ok by (fastforce simp: request_ops_def replace_ops_def)
  moreover have "map_of dir DEPLOY_SUPERVISOR_REQUEST = map_of d2 DEPLOY_SUPERVISOR_REQUEST"
    using calculation(3) pid_file_keeps [of _ self _ d2] unfolding spawn_supervisor_def
    by (auto split: option.splits sum.splits prod.splits)
  ultimately show thesis using that by simp
qed

section \<open>Properties\<close>

text \<open>C18: A launch in use is never pruned. At every moment of the handover, whichever file operations the
  frontend and then the supervisor have carried out, a scan does not choose the directory, as long as
  the allocating frontend lives while no process id is published and the supervisor lives from then
  on; and none is chosen whose lock is held.\<close>

theorem launch_is_protected:
  assumes "crash_state (launch_ops body argv cwd @ write_launch_pid pid spid @ write_launch_pid spid spid) [] dir"
    and "\<And>p. len_parse env (launch_pid_body p) = Some (JObj [(''pid'', JNum (PosInt p))])"
    and "0 < pid" and "pid \<le> I64_MAX" and "spid \<le> I64_MAX" and "stamp \<le> U128_MAX" and "attempt \<le> U32_MAX"
    and "\<And>e. (launch_dir_name stamp pid attempt, e) \<in> set entries \<Longrightarrow> e = seen_launch lock dir"
    and "lock \<noteq> LockFree \<or>
      len_alive env (Some (if map_of dir LAUNCH_ACTIVE = None then int pid else int spid))"
  shows "launch_dir_name stamp pid attempt \<notin> set (launch_victims env keep days now entries)"
proof
  let ?name = "launch_dir_name stamp pid attempt"
  assume "?name \<in> set (launch_victims env keep days now entries)"
  then obtain e st where e: "(?name, e) \<in> set entries" "launch_inactive env (?name, e) = Some (st, ?name)"
    by (rule victims_inactive)
  have seen: "e = seen_launch lock dir" using assms(8) e(1) .
  have name: "launch_name ?name = Some (stamp, int pid)" using assms(3-7) by simp
  have free: "lock = LockFree" and dead: "launch_active env (int pid) e = Some False"
    using e(2) seen name by (auto simp: launch_inactive_def seen_launch_def split: if_splits option.splits)
  show False
  proof (cases "map_of dir LAUNCH_ACTIVE")
    case None
    then show ?thesis using dead seen assms(9) free by (simp add: launch_active_def seen_launch_def)
  next
    case (Some b)
    then have "b = launch_pid_body spid" using launch_files [OF assms(1)] by simp
    then show ?thesis
      using Some dead seen assms(2) [of spid] assms(5,9) free
      by (simp add: launch_active_def seen_launch_def get_i64_def)
  qed
qed

definition launch_parse :: "string \<Rightarrow> json option" where
  "launch_parse body =
    map_option (\<lambda>s. JObj [(''pid'', JNum (PosInt (dec_value s)))])
      (Option.bind (strip_prefix (''{'' @ [CHR 0x22] @ ''pid'' @ [CHR 0x22] @ '':'') body) (strip_suffix ''}''))"

lemma launch_parse_body: "launch_parse (launch_pid_body p) = Some (JObj [(''pid'', JNum (PosInt p))])"
proof -
  have "strip_prefix (''{'' @ [CHR 0x22] @ ''pid'' @ [CHR 0x22] @ '':'') (launch_pid_body p) = Some (show_nat p @ ''}'')"
    by (simp add: launch_pid_body_def)
  moreover have "strip_suffix ''}'' (show_nat p @ ''}'') = Some (show_nat p)" by simp
  ultimately show ?thesis unfolding launch_parse_def by simp
qed

definition sample_launch_env :: launch_env where
  "sample_launch_env = \<lparr>len_alive = \<lambda>p. p = Some 9, len_open_run = \<lambda>_. None, len_timestamp_ok = \<lambda>_. False,
    len_parse = launch_parse, len_relock = \<lambda>_. True, len_removable = \<lambda>_. True\<rparr>"

definition sample_launch_files :: file_dir where
  "sample_launch_files = fs_run (launch_ops [] [''mandala''] ''/'' @ write_launch_pid 7 9 @ write_launch_pid 9 9) []"

theorem launch_is_protected_witness:
  "launch_dir_name 1 7 0 \<notin> set (launch_victims sample_launch_env 0 1 (2 * DAY_NANOS)
    [(launch_dir_name 1 7 0, seen_launch LockFree sample_launch_files)])"
proof (rule launch_is_protected)
  show "crash_state (launch_ops [] [''mandala''] ''/'' @ write_launch_pid 7 9 @ write_launch_pid 9 9) [] sample_launch_files"
    unfolding sample_launch_files_def by (rule crash_complete)
  show "len_parse sample_launch_env (launch_pid_body p) = Some (JObj [(''pid'', JNum (PosInt p))])" for p
    by (simp add: sample_launch_env_def launch_parse_body)
  have "map_of sample_launch_files LAUNCH_ACTIVE \<noteq> None"
    by (simp add: sample_launch_files_def write_launch_pid_def replace_ops_def)
  then show "LockFree \<noteq> LockFree \<or>
      len_alive sample_launch_env (Some (if map_of sample_launch_files LAUNCH_ACTIVE = None then int 7 else int 9))"
    by (simp add: sample_launch_env_def)
qed (simp_all add: I64_MAX_def U128_MAX_def)

text \<open>The supervisor runs what the frontend asked for, and nothing else: after a successful handover,
  the one engine it starts is given exactly the arguments and the working directory of the request,
  its result is that of the engine, and it starts one exactly when the launch directory lies in the
  launch root, the process id could be published, and the log, the signal handler and the engine
  itself could be set up.\<close>

lemma supervisor_runs_the_request:
  assumes "start_supervised env self path argv cwd [] = (Inr pid, dir)"
    and "\<And>q body. se_encode env q = Inr body \<Longrightarrow> se_decode env body = Inr q"
    and "run_deploy_supervisor env pid base path dir = (r, dir', runs)"
  shows "runs = (if (\<exists>p b. se_canonical env path = Inr p \<and> se_canonical env base = Inr b \<and> parent_path p = Some b) \<and>
        is_ok (fst (fs_try (se_io env) (write_launch_pid pid pid) dir)) \<and> argv \<noteq> [] \<and>
        se_signals env = None \<and> se_log_error env = None \<and> se_engine env argv cwd = None
      then [(argv, cwd)] else []) \<and>
    (runs \<noteq> [] \<longrightarrow> r = map_sum id wait_code (se_wait env)) \<and> (runs = [] \<longrightarrow> r \<noteq> Inr 0)"
proof -
  obtain body where "se_encode env \<lparr>sr_argv = argv, sr_cwd = cwd\<rparr> = Inr body"
    and req: "map_of dir DEPLOY_SUPERVISOR_REQUEST = Some body"
    using supervised_request [OF assms(1)] .
  then have dec: "se_decode env body = Inr \<lparr>sr_argv = argv, sr_cwd = cwd\<rparr>" using assms(2) by blast
  obtain w d where w: "fs_try (se_io env) (write_launch_pid pid pid) dir = (w, d)" by fastforce
  have "map_of d DEPLOY_SUPERVISOR_REQUEST = Some body" using pid_file_keeps [OF w] req by simp
  then show ?thesis
    using assms(3) dec w
    by (cases "se_canonical env path"; cases "se_canonical env base"; cases w; cases "se_signals env";
        cases "se_log_error env"; cases "se_engine env argv cwd")
      (auto simp: run_deploy_supervisor_def run_request_def Let_def split: if_splits)
qed

end
