(* ===== verification/Frontend.thy ===== *)
theory Frontend
  imports Launches DeployBuild
begin

text \<open>The frontends' side of a run, the write side of \<^verbatim>\<open>crates/mandala-core/src/runner.rs\<close>: \<^verbatim>\<open>DeployRun\<close>,
  which starts a deployment through a launch directory, finds the run the engine has registered, or
  attaches to a run of another frontend, and \<^verbatim>\<open>CommandRun\<close>, which registers an ad-hoc command. What an
  operation finds outside (the log, the registry, live processes, the child's status) is a \<^verbatim>\<open>view\<close>
  argument; it may differ from call to call.\<close>

section \<open>Commands to run\<close>

definition ansible_dir :: "(string \<Rightarrow> (string, string) result) \<Rightarrow> (string \<Rightarrow> bool) \<Rightarrow> string \<Rightarrow> string" where
  "ansible_dir canonical is_file flake =
    (let base = (case canonical flake of Inl _ \<Rightarrow> flake | Inr p \<Rightarrow> p)
     in if is_file (path_join base ''ansible/ansible.cfg'') then path_join base ''ansible'' else base)"

definition reboot_argv :: "(string \<Rightarrow> (string, string) result) \<Rightarrow> string \<Rightarrow> string \<Rightarrow> string \<Rightarrow> bool \<Rightarrow> string list option" where
  "reboot_argv canonical flake target serial drain =
    (let base = (case canonical flake of Inl _ \<Rightarrow> flake | Inr p \<Rightarrow> p)
     in Some [''nix'', ''run'', base @ ''#ans-reboot'', ''--'', ''-l'', target, ''-e'', ''reboot_serial='' @ serial,
       ''-e'', ''drain='' @ show_bool drain])"

definition supervisor_binary :: "string option \<Rightarrow> string option \<Rightarrow> (string \<Rightarrow> bool) \<Rightarrow> string option" where
  "supervisor_binary configured executable is_file =
    (case configured of
       Some p \<Rightarrow> Some p
     | None \<Rightarrow>
         Option.bind executable (\<lambda>exe. Option.bind (parent_path exe) (\<lambda>d.
           let sibling = path_join d ''mandala-run-supervisor''
           in if is_file sibling then Some sibling
              else if path_file_name d = Some ''deps'' then
                Option.bind (parent_path d) (\<lambda>u.
                  let sibling = path_join u ''mandala-run-supervisor''
                  in if is_file sibling then Some sibling else None)
              else None)))"

section \<open>Deployments\<close>

definition DEPLOY_OUTPUT_MAX :: nat where
  "DEPLOY_OUTPUT_MAX = 4000"

record deploy_frontend =
  dr_limit :: string
  dr_flake :: string
  dr_dry :: bool
  dr_boot :: bool
  dr_halt :: bool
  dr_throttle :: int
  dr_events_dir :: "string option"
  dr_run_id :: "string option"
  dr_tailer :: "event_tailer option"
  dr_program :: "string list option"
  dr_output :: "string list"
  dr_offset :: nat
  dr_launch_dir :: "string option"
  dr_discovery_error :: "string option"
  dr_child :: "nat option"
  dr_exited :: "exit_status option"
  dr_attached :: bool
  dr_meta_pid :: "int option"

definition deploy_new :: "string \<Rightarrow> deploy_frontend" where
  "deploy_new limit =
    \<lparr>dr_limit = limit, dr_flake = ''.'', dr_dry = False, dr_boot = False, dr_halt = False, dr_throttle = 4,
     dr_events_dir = None, dr_run_id = None, dr_tailer = None, dr_program = None, dr_output = [],
     dr_offset = 0, dr_launch_dir = None, dr_discovery_error = None, dr_child = None, dr_exited = None,
     dr_attached = False, dr_meta_pid = None\<rparr>"

text \<open>What a frontend finds when an operation runs: the log of its launch, the registry, the metadata of
  its run at the first, second and third reading, the processes alive at each check, what the child's
  status is if it has ended, and the poll of the run's streams.\<close>

record frontend_view =
  fv_log :: "string option"
  fv_timestamp_ok :: "string \<Rightarrow> bool"
  fv_open :: "string \<Rightarrow> observed_run option"
  fv_meta :: "nat \<Rightarrow> meta"
  fv_alive :: "nat \<Rightarrow> int option \<Rightarrow> bool"
  fv_wait :: "exit_status option"
  fv_poll :: "event_tailer \<Rightarrow> nat \<times> event_tailer"

definition get_bool :: "string \<Rightarrow> meta \<Rightarrow> bool" where
  "get_bool key m = (case map_of m key of Some (JBool b) \<Rightarrow> b | _ \<Rightarrow> False)"

definition attach :: "(string \<Rightarrow> observed_run option) \<Rightarrow> (string \<Rightarrow> string) \<Rightarrow> string \<Rightarrow> deploy_frontend option" where
  "attach open_run run_path run_id =
    map_option
      (\<lambda>obs. let m = ri_meta (ob_info obs)
        in (deploy_new (opt_default [] (Option.bind (map_of m ''limit'') as_str)))
          \<lparr>dr_dry := get_bool ''dry_activate'' m, dr_boot := get_bool ''boot'' m,
           dr_halt := get_bool ''halt_on_build_failure'' m, dr_events_dir := Some (run_path run_id),
           dr_run_id := Some run_id, dr_meta_pid := run_pid m, dr_tailer := Some (ob_tailer obs),
           dr_attached := True\<rparr>)
      (open_run run_id)"

text \<open>\<open>engine\<close> is the engine binary: the configured one, else the running executable, else the name.\<close>

definition deploy_argv :: "string option \<Rightarrow> string option \<Rightarrow> deploy_frontend \<Rightarrow> string list" where
  "deploy_argv configured executable r =
    (case dr_program r of
       Some p \<Rightarrow> p
     | None \<Rightarrow>
         [utf8_lossy (opt_default ''mandala'' (opt_or configured executable)), ''--flake'', dr_flake r, ''deploy'',
          ''run'', ''--limit'', dr_limit r, ''--throttle'', show_int (dr_throttle r)]
         @ (if dr_halt r then [''--halt-on-build-failure''] else [])
         @ (if dr_dry r then [''--dry-activate''] else [])
         @ (if dr_boot r then [''--boot''] else []))"

text \<open>\<^verbatim>\<open>start\<close>: the launch directory and the working directory may be missing, and the supervisor may not be
  installed.\<close>

definition deploy_start ::
  "supervisor_env \<Rightarrow> nat \<Rightarrow> string option \<Rightarrow> string option \<Rightarrow> string option \<Rightarrow> (string, string) result \<Rightarrow>
    (string, string) result \<Rightarrow> deploy_frontend \<Rightarrow> (string, unit) result \<times> deploy_frontend \<times> file_dir" where
  "deploy_start env self configured executable supervisor launch cwd r =
    (case supervisor of
       None \<Rightarrow> (Inl ''mandala-run-supervisor is not installed beside the frontend'', r, [])
     | Some _ \<Rightarrow>
         (case launch of
            Inl e \<Rightarrow> (Inl e, r, [])
          | Inr path \<Rightarrow>
              let r = r\<lparr>dr_launch_dir := Some path\<rparr>
              in (case cwd of
                    Inl e \<Rightarrow> (Inl e, r, [])
                  | Inr cwd \<Rightarrow>
                      (case start_supervised env self path (deploy_argv configured executable r) cwd [] of
                         (Inl e, dir) \<Rightarrow> (Inl e, r, dir)
                       | (Inr pid, dir) \<Rightarrow> (Inr (), r\<lparr>dr_child := Some pid\<rparr>, dir)))))"

definition push_output :: "string \<Rightarrow> deploy_frontend \<Rightarrow> deploy_frontend" where
  "push_output line r = r\<lparr>dr_output := push_capped DEPLOY_OUTPUT_MAX line (dr_output r)\<rparr>"

definition trim_newlines :: "string \<Rightarrow> string" where
  "trim_newlines s = rev (dropWhile (\<lambda>c. c = CHR 0x0D \<or> c = CHR 0x0A) (rev s))"

definition sync_output_log :: "frontend_view \<Rightarrow> deploy_frontend \<Rightarrow> deploy_frontend" where
  "sync_output_log v r =
    (case (dr_launch_dir r, fv_log v) of
       (Some _, Some content) \<Rightarrow>
         let ls = read_lines (drop (dr_offset r) content)
         in fold (push_output \<circ> trim_newlines) ls (r\<lparr>dr_offset := dr_offset r + length (concat ls)\<rparr>)
     | _ \<Rightarrow> r)"

definition poll_exit :: "frontend_view \<Rightarrow> deploy_frontend \<Rightarrow> exit_status option \<times> deploy_frontend" where
  "poll_exit v r =
    (let r = (if dr_exited r = None \<and> dr_child r \<noteq> None then r\<lparr>dr_exited := fv_wait v\<rparr> else r)
     in (dr_exited r, r))"

definition NO_RUN_ID :: string where
  "NO_RUN_ID = ''native deploy exited without publishing a run id''"

definition undiscoverable :: "string \<Rightarrow> string" where
  "undiscoverable run_id = ''native deploy published '' @ run_id @ '', but its registry run was not discoverable''"

definition published_id :: "frontend_view \<Rightarrow> deploy_frontend \<Rightarrow> string option" where
  "published_id v r =
    map_option trim (List.find (\<lambda>line. is_valid_run_id (fv_timestamp_ok v) (trim line)) (dr_output r))"

definition adopt_run :: "string \<Rightarrow> string \<Rightarrow> observed_run \<Rightarrow> deploy_frontend \<Rightarrow> deploy_frontend" where
  "adopt_run path run_id obs r =
    r\<lparr>dr_meta_pid := run_pid (ri_meta (ob_info obs)), dr_events_dir := Some path, dr_run_id := Some run_id,
      dr_tailer := Some (ob_tailer obs)\<rparr>"

definition discover_run ::
  "frontend_view \<Rightarrow> (string \<Rightarrow> string) \<Rightarrow> deploy_frontend \<Rightarrow> (string, bool) result \<times> deploy_frontend" where
  "discover_run v run_path r =
    (if dr_tailer r \<noteq> None then (Inr True, r)
     else (case dr_discovery_error r of
         Some e \<Rightarrow> (Inl e, r)
       | None \<Rightarrow>
           let r = sync_output_log v r; candidate = published_id v r
           in case Option.bind candidate (fv_open v) of
                Some obs \<Rightarrow> (Inr True, adopt_run (run_path (the candidate)) (the candidate) obs r)
              | None \<Rightarrow>
                  (case poll_exit v r of
                     (None, r) \<Rightarrow> (Inr False, r)
                   | (Some _, r) \<Rightarrow>
                       let message = (case candidate of None \<Rightarrow> NO_RUN_ID | Some run_id \<Rightarrow> undiscoverable run_id)
                       in (Inl message, (push_output (''mandala: '' @ message) r)\<lparr>dr_discovery_error := Some message\<rparr>))))"

definition deploy_poll :: "frontend_view \<Rightarrow> deploy_frontend \<Rightarrow> nat \<times> deploy_frontend" where
  "deploy_poll v r =
    (let r = sync_output_log v r
     in case dr_tailer r of
          None \<Rightarrow> (0, r)
        | Some t \<Rightarrow> (case fv_poll v t of (n, t) \<Rightarrow> (n, r\<lparr>dr_tailer := Some t\<rparr>)))"

definition meta_at :: "frontend_view \<Rightarrow> nat \<Rightarrow> deploy_frontend \<Rightarrow> meta" where
  "meta_at v k r = (if dr_events_dir r = None then [] else fv_meta v k)"

definition recorded_rc :: "meta \<Rightarrow> int option" where
  "recorded_rc m = Option.bind (map_of m ''rc'') as_i64"

definition deploy_finished :: "frontend_view \<Rightarrow> deploy_frontend \<Rightarrow> bool \<times> deploy_frontend" where
  "deploy_finished v r =
    (if dr_attached r then
       let m = meta_at v 0 r
       in if recorded_rc m \<noteq> None then (True, r)
          else if supervisor_pid m \<noteq> None \<and> \<not> fv_alive v 0 (supervisor_pid m) then (True, r)
          else
            let r = r\<lparr>dr_meta_pid := opt_or (run_pid m) (dr_meta_pid r)\<rparr>
            in (\<not> fv_alive v 0 (dr_meta_pid r), r)
     else (case poll_exit v r of (status, r) \<Rightarrow> (status \<noteq> None, r)))"

definition deploy_returncode :: "frontend_view \<Rightarrow> deploy_frontend \<Rightarrow> int option \<times> deploy_frontend" where
  "deploy_returncode v r =
    (case deploy_finished v r of
       (False, r) \<Rightarrow> (None, r)
     | (True, r) \<Rightarrow>
         let r = snd (deploy_poll v r)
         in if dr_attached r then
              (case effective_deploy_returncode (recorded_rc (meta_at v 1 r)) (dr_tailer r) of
                 Some rc \<Rightarrow> (Some rc, r)
               | None \<Rightarrow>
                   let s = (if dr_events_dir r = None then None else supervisor_pid (fv_meta v 2))
                   in if s \<noteq> None \<and> \<not> fv_alive v 1 s then (Some 1, r)
                      else (Some (case dr_tailer r of
                        Some t \<Rightarrow> if has_unsuccessful_host t then 1 else 0 | None \<Rightarrow> 0), r))
            else
              (case poll_exit v r of
                 (status, r) \<Rightarrow> (effective_deploy_returncode (map_option wait_code status) (dr_tailer r), r)))"

text \<open>The process group \<^verbatim>\<open>terminate\<close> signals, if any.\<close>

definition I32_MAX :: int where
  "I32_MAX = 2147483647"

definition deploy_terminate :: "frontend_view \<Rightarrow> deploy_frontend \<Rightarrow> int option \<times> deploy_frontend" where
  "deploy_terminate v r =
    (case poll_exit v r of
       (Some _, r) \<Rightarrow> (None, r)
     | (None, r) \<Rightarrow>
         let engine = opt_filter (\<lambda>p. fv_alive v 0 (Some p)) (run_pid (meta_at v 0 r))
         in (case opt_filter (\<lambda>p. - I32_MAX - 1 \<le> p \<and> p \<le> I32_MAX) engine of
               Some p \<Rightarrow> (Some p, r)
             | None \<Rightarrow> (map_option int (dr_child r), r)))"

definition deploy_output :: "frontend_view \<Rightarrow> deploy_frontend \<Rightarrow> string list \<times> deploy_frontend" where
  "deploy_output v r = (let r = sync_output_log v r in (dr_output r, r))"

section \<open>Ad-hoc commands\<close>

record command_run =
  cr_argv :: "string list"
  cr_kind :: string
  cr_cwd :: "string option"
  cr_extra :: meta
  cr_run_id :: "string option"
  cr_launched :: bool

text \<open>\<open>ce_append\<close> says whether the log can be opened once more after a failed start.\<close>

record command_env =
  ce_io :: "fs_op \<Rightarrow> string option"
  ce_ser :: "meta \<Rightarrow> (string, string) result"
  ce_parse :: "string \<Rightarrow> json option"
  ce_started :: json
  ce_ended :: json
  ce_alloc :: "(string, string) result"
  ce_header_error :: "string option"
  ce_log_error :: "string option"
  ce_append :: bool
  ce_spawn :: "(string, nat option) result"

definition command_new :: "string list \<Rightarrow> string \<Rightarrow> command_run" where
  "command_new argv kind = \<lparr>cr_argv = argv, cr_kind = kind, cr_cwd = None, cr_extra = [], cr_run_id = None,
    cr_launched = False\<rparr>"

definition unlaunched_meta :: "command_env \<Rightarrow> string \<Rightarrow> string \<Rightarrow> command_run \<Rightarrow> meta" where
  "unlaunched_meta env run_id e r =
    merge_meta (bm_of_list [(''run_id'', JStr run_id), (''kind'', JStr (cr_kind r)), (''pid'', JNull),
      (''rc'', json_of_int 127), (''error'', JStr e), (''started_at'', ce_started env)]) (cr_extra r)"

definition launched_meta :: "command_env \<Rightarrow> string \<Rightarrow> nat option \<Rightarrow> command_run \<Rightarrow> meta" where
  "launched_meta env run_id pid r =
    merge_meta (bm_of_list [(''run_id'', JStr run_id), (''kind'', JStr (cr_kind r)),
      (''pid'', (case pid of None \<Rightarrow> JNull | Some p \<Rightarrow> json_of_int (int p))),
      (''argv'', JArr (map JStr (cr_argv r))), (''started_at'', ce_started env)]) (cr_extra r)"

text \<open>A failure to store the metadata is ignored.\<close>

definition store_meta :: "command_env \<Rightarrow> meta \<Rightarrow> run_dir \<Rightarrow> run_dir" where
  "store_meta env m dir =
    (case write_meta_ops (ce_ser env) m of Inl _ \<Rightarrow> dir | Inr ops \<Rightarrow> snd (fs_try (ce_io env) ops dir))"

definition command_start ::
  "command_env \<Rightarrow> command_run \<Rightarrow> (string, unit) result \<times> command_run \<times> run_dir" where
  "command_start env r =
    (case ce_alloc env of
       Inl e \<Rightarrow> (Inl e, r, [])
     | Inr run_id \<Rightarrow>
         let r = r\<lparr>cr_run_id := Some run_id\<rparr>
         in (case ce_header_error env of
               Some e \<Rightarrow> (Inl e, r, [])
             | None \<Rightarrow>
                 let lg = launch_header (cr_argv r) (opt_default ''.'' (cr_cwd r))
                 in (case ce_log_error env of
                       Some e \<Rightarrow> (Inl e, r, [(COMMAND_LOG, lg)])
                     | None \<Rightarrow>
                         (case ce_spawn env of
                            Inl e \<Rightarrow>
                              let lg = (if ce_append env
                                    then lg @ ''failed to launch '' @ hd (cr_argv r) @ '': '' @ e @ [CHR 0x0A] else lg)
                              in (Inr (), r\<lparr>cr_launched := False\<rparr>,
                                  store_meta env (unlaunched_meta env run_id e r) [(COMMAND_LOG, lg)])
                          | Inr pid \<Rightarrow>
                              (Inr (), r\<lparr>cr_launched := True\<rparr>,
                               store_meta env (launched_meta env run_id pid r) [(COMMAND_LOG, lg)])))))"

text \<open>The reaper task, when the child has ended.\<close>

definition command_reaped :: "command_env \<Rightarrow> exit_status \<Rightarrow> run_dir \<Rightarrow> run_dir" where
  "command_reaped env status dir =
    (case update_meta_ops (ce_parse env) (ce_ser env) dir
        (bm_of_list [(''rc'', json_of_int (wait_code status)), (''finished_at'', ce_ended env)]) of
       Inl _ \<Rightarrow> dir
     | Inr ops \<Rightarrow> snd (fs_try (ce_io env) ops dir))"

section \<open>The mirror of the log\<close>

interpretation mirror_lines: bounded_queue "push_capped DEPLOY_OUTPUT_MAX" DEPLOY_OUTPUT_MAX
  by standard (simp_all add: push_capped_def DEPLOY_OUTPUT_MAX_def)

lemma pushed_output: "dr_output (fold (push_output \<circ> f) ls r) = fold (push_capped DEPLOY_OUTPUT_MAX) (map f ls) (dr_output r)"
  by (induction ls arbitrary: r) (simp_all add: push_output_def)

lemma pushed_frame:
  "dr_offset (fold (push_output \<circ> f) ls r) = dr_offset r"
  "dr_launch_dir (fold (push_output \<circ> f) ls r) = dr_launch_dir r"
  by (induction ls arbitrary: r) (simp_all add: push_output_def)

definition mirrors :: "string \<Rightarrow> deploy_frontend \<Rightarrow> bool" where
  "mirrors content r \<longleftrightarrow> dr_launch_dir r \<noteq> None \<and> dr_offset r = length (concat (read_lines content)) \<and>
    dr_output r = (let ls = map trim_newlines (read_lines content) in drop (length ls - DEPLOY_OUTPUT_MAX) ls)"

lemma read_lines_grown:
  assumes "prefix c c'"
  shows "read_lines c' = read_lines c @ read_lines (drop (length (concat (read_lines c))) c')"
  using assms read_lines_resume [of c] by (auto simp: prefix_def)

lemma mirrors_sync:
  assumes "mirrors c r" and "prefix c c'"
  shows "mirrors c' (sync_output_log (v\<lparr>fv_log := Some c'\<rparr>) r)"
proof -
  let ?ls = "map trim_newlines (read_lines c)" and ?new = "read_lines (drop (length (concat (read_lines c))) c')"
  have "length (drop (length ?ls - DEPLOY_OUTPUT_MAX) ?ls) \<le> DEPLOY_OUTPUT_MAX" by simp
  then have "fold (push_capped DEPLOY_OUTPUT_MAX) (map trim_newlines ?new) (drop (length ?ls - DEPLOY_OUTPUT_MAX) ?ls) =
      (let ls = ?ls @ map trim_newlines ?new in drop (length ls - DEPLOY_OUTPUT_MAX) ls)"
    by (cases "length (read_lines c) \<le> DEPLOY_OUTPUT_MAX") (simp_all add: mirror_lines.pushes_recent Let_def add.commute)
  then show ?thesis
    using assms(1) read_lines_grown [OF assms(2)]
    by (auto simp: mirrors_def sync_output_log_def pushed_output pushed_frame Let_def)
qed

text \<open>However often and whenever the growing log is read, the mirror holds the last complete lines of
  the log, up to its limit.\<close>

lemma output_mirrors_log:
  assumes "dr_launch_dir r \<noteq> None" and "dr_offset r = 0" and "dr_output r = []" and "sorted_wrt prefix (cs @ [c])"
  shows "mirrors c (fold (\<lambda>c. sync_output_log (v\<lparr>fv_log := Some c\<rparr>)) (cs @ [c]) r)"
proof -
  have *: "sorted_wrt prefix (c0 # cs) \<Longrightarrow> mirrors c0 r \<Longrightarrow>
      mirrors (last (c0 # cs)) (fold (\<lambda>c. sync_output_log (v\<lparr>fv_log := Some c\<rparr>)) cs r)" for c0 cs r
    by (induction cs arbitrary: c0 r) (auto simp: mirrors_sync)
  have "mirrors [] r" using assms(1-3) by (simp add: mirrors_def read_lines.simps [of "[]"])
  then show ?thesis using * [of "[]" "cs @ [c]" r] assms(4) by simp
qed

section \<open>Properties\<close>

lemma poll_exit_frame [simp]:
  "dr_tailer (snd (poll_exit v r)) = dr_tailer r" "dr_discovery_error (snd (poll_exit v r)) = dr_discovery_error r"
  "dr_attached (snd (poll_exit v r)) = dr_attached r" "dr_output (snd (poll_exit v r)) = dr_output r"
  "fst (poll_exit v r) = dr_exited (snd (poll_exit v r))"
  by (simp_all add: poll_exit_def Let_def)

lemma sync_frame [simp]:
  "dr_tailer (sync_output_log v r) = dr_tailer r" "dr_discovery_error (sync_output_log v r) = dr_discovery_error r"
  "dr_attached (sync_output_log v r) = dr_attached r" "dr_exited (sync_output_log v r) = dr_exited r"
  "dr_child (sync_output_log v r) = dr_child r" "dr_events_dir (sync_output_log v r) = dr_events_dir r"
proof -
  have *: "dr_tailer (fold (push_output \<circ> f) ls r) = dr_tailer r \<and>
      dr_discovery_error (fold (push_output \<circ> f) ls r) = dr_discovery_error r \<and>
      dr_attached (fold (push_output \<circ> f) ls r) = dr_attached r \<and> dr_exited (fold (push_output \<circ> f) ls r) = dr_exited r \<and>
      dr_child (fold (push_output \<circ> f) ls r) = dr_child r \<and>
      dr_events_dir (fold (push_output \<circ> f) ls r) = dr_events_dir r" for f ls r
    by (induction ls arbitrary: r) (simp_all add: push_output_def)
  show "dr_tailer (sync_output_log v r) = dr_tailer r" "dr_discovery_error (sync_output_log v r) = dr_discovery_error r"
    "dr_attached (sync_output_log v r) = dr_attached r" "dr_exited (sync_output_log v r) = dr_exited r"
    "dr_child (sync_output_log v r) = dr_child r" "dr_events_dir (sync_output_log v r) = dr_events_dir r"
    by (simp_all add: sync_output_log_def * Let_def split: option.split)
qed

text \<open>Discovery adopts the run the engine has published and registered, and no other; while the engine
  lives it only reports that there is none yet; and it fails only after the engine has exited, and
  then for good.\<close>

lemma discovery_adopts_published_run:
  assumes "discover_run v run_path r = (res, r')" and "dr_tailer r = None" and "dr_discovery_error r = None"
  shows "case res of
      Inr True \<Rightarrow> \<exists>line\<in>set (dr_output (sync_output_log v r)). \<exists>obs. is_valid_run_id (fv_timestamp_ok v) (trim line) \<and>
        fv_open v (trim line) = Some obs \<and> dr_run_id r' = Some (trim line) \<and> dr_tailer r' = Some (ob_tailer obs) \<and>
        dr_events_dir r' = Some (run_path (trim line))
    | Inr False \<Rightarrow> dr_exited r' = None \<and> dr_tailer r' = None \<and> dr_discovery_error r' = None
    | Inl e \<Rightarrow> dr_exited r' \<noteq> None \<and> dr_tailer r' = None \<and> (\<forall>v' path'. discover_run v' path' r' = (Inl e, r'))"
proof (cases "Option.bind (published_id v (sync_output_log v r)) (fv_open v)")
  case (Some obs)
  then obtain c where c: "published_id v (sync_output_log v r) = Some c" "fv_open v c = Some obs"
    by (auto simp: bind_eq_Some_conv)
  then obtain line where "line \<in> set (dr_output (sync_output_log v r))" "c = trim line"
    "is_valid_run_id (fv_timestamp_ok v) (trim line)"
    by (auto simp: published_id_def dest!: find_SomeD)
  then show ?thesis using assms c Some
    by (auto simp: discover_run_def Let_def adopt_run_def intro!: bexI [of _ line])
next
  case None
  let ?r = "snd (poll_exit v (sync_output_log v r))"
  show ?thesis
  proof (cases "dr_exited ?r")
    case running: None
    then show ?thesis using assms None by (auto simp: discover_run_def Let_def split_beta)
  next
    case (Some status)
    then obtain e where "res = Inl e" "dr_discovery_error r' = Some e" "dr_tailer r' = None" "dr_exited r' = Some status"
      using assms None by (auto simp: discover_run_def Let_def split_beta push_output_def)
    then show ?thesis by (simp add: discover_run_def)
  qed
qed

lemma finished_frame:
  "dr_attached (snd (deploy_finished v r)) = dr_attached r" "dr_events_dir (snd (deploy_finished v r)) = dr_events_dir r"
  by (simp_all add: deploy_finished_def Let_def split_beta poll_exit_def)


lemma stored_meta:
  assumes "\<And>op. ce_io env op = None" and "ce_ser env m = Inr body" and "ce_parse env body = Some (JObj m)"
  shows "read_meta (ce_parse env) (store_meta env m dir) = m"
  using fs_try_run [of "ce_io env", OF assms(1)] assms(2) write_meta_complete [of "ce_parse env" body m "ce_ser env", OF assms(3)]
  by (simp add: store_meta_def write_meta_ops_def)

lemma command_reaped_eq:
  "command_reaped env status dir = store_meta env (merge_meta (read_meta (ce_parse env) dir)
    (bm_of_list [(''rc'', json_of_int (wait_code status)), (''finished_at'', ce_ended env)])) dir"
  by (simp add: command_reaped_def store_meta_def update_meta_ops_def)

lemma as_i64_json_of_int: "\<bar>i\<bar> \<le> int I64_MAX \<Longrightarrow> as_i64 (json_of_int i) = Some i"
  by (auto simp: json_of_int_def nat_le_iff)

lemma command_keys:
  fixes a b c d e f :: json
  defines "m5 \<equiv> bm_of_list [(''run_id'', a), (''kind'', b), (''pid'', c), (''argv'', d), (''started_at'', e)]"
    and "m6 \<equiv> bm_of_list [(''run_id'', a), (''kind'', b), (''pid'', c), (''rc'', d), (''error'', e), (''started_at'', f)]"
  shows "map_of m5 ''rc'' = None" "map_of m5 ''pid'' = Some c" "map_of m5 ''supervisor_pid'' = None"
    "map_of m6 ''rc'' = Some d" "map_of m6 ''pid'' = Some c" "map_of m6 ''supervisor_pid'' = None"
  unfolding m5_def m6_def bm_of_list_def by simp_all

text \<open>The metadata say what became of the command when nothing else does.\<close>

lemma quiet_verdict:
  assumes "et_hosts (snd (poll (ob_tailer ob))) = []" and "\<not> bb_done (et_build (snd (poll (ob_tailer ob))))"
    and "supervisor_pid m = None"
  shows "fst (liveness alive poll m ob) = (if alive (run_pid m) then Running
    else (case recorded_rc m of None \<Rightarrow> LivenessUnknown | Some rc \<Rightarrow> if rc = 0 then run_liveness.Finished else RunFailed))"
  using assms by (simp add: liveness_def settle_verdict_def recorded_rc_def bm_values_def Let_def split: option.split)

text \<open>The registry's verdict on an ad-hoc command follows its process, also when the launching client is
  gone: failed when it could not be started; running while its process lives; once it has been
  reaped, finished exactly when it exited with 0.\<close>

lemma command_verdict_follows_process:
  fixes kill :: "32 word \<Rightarrow> probe_result"
  assumes "command_start env r = (Inr (), r', dir)" and "bm_wf (cr_extra r)"
    and "\<forall>key\<in>{''rc'', ''pid'', ''supervisor_pid''}. map_of (cr_extra r) key = None"
    and "\<And>op. ce_io env op = None" and "\<And>m. \<exists>body. ce_ser env m = Inr body \<and> ce_parse env body = Some (JObj m)"
    and "et_hosts (snd (poll (ob_tailer ob))) = []" and "\<not> bb_done (et_build (snd (poll (ob_tailer ob))))"
    and "\<And>pid. ce_spawn env = Inr (Some pid) \<Longrightarrow> pid \<le> I64_MAX" and "\<bar>wait_code status\<bar> \<le> int I64_MAX"
  defines "verdict d \<equiv> fst (liveness (real_pid_alive kill) poll (read_meta (ce_parse env) d) ob)"
  shows "case ce_spawn env of
      Inl e \<Rightarrow> verdict dir = RunFailed
    | Inr pid \<Rightarrow>
        (if real_pid_alive kill (map_option int pid) then verdict dir = Running
         else verdict (command_reaped env status dir) = (if wait_code status = 0 then run_liveness.Finished else RunFailed))"
proof -
  obtain run_id where run_id: "ce_alloc env = Inr run_id"
    using assms(1) by (auto simp: command_start_def split: sum.splits)
  have store: "read_meta (ce_parse env) (store_meta env m d) = m" for m d
  proof -
    obtain body where "ce_ser env m = Inr body" "ce_parse env body = Some (JObj m)" using assms(5) by blast
    then show ?thesis using stored_meta assms(4) by blast
  qed
  have merged: "map_of (merge_meta m (cr_extra r)) key = map_of m key"
    if "key \<in> {''rc'', ''pid'', ''supervisor_pid''}" for m key
  proof -
    have "map_of (cr_extra r) key = None" using assms(3) that by (rule bspec)
    then show ?thesis using merge_meta_lookup [OF assms(2), of m] by (simp add: map_add_def)
  qed
  note quiet = quiet_verdict [where poll = poll and ob = ob, OF assms(6,7)]
  show ?thesis
  proof (cases "ce_spawn env")
    case (Inl e)
    obtain lg where dir: "dir = store_meta env (unlaunched_meta env run_id e (r\<lparr>cr_run_id := Some run_id\<rparr>)) [(COMMAND_LOG, lg)]"
      using assms(1) Inl run_id by (auto simp: command_start_def Let_def split: option.splits)
    let ?m = "unlaunched_meta env run_id e (r\<lparr>cr_run_id := Some run_id\<rparr>)"
    have "supervisor_pid ?m = None" "run_pid ?m = None" "recorded_rc ?m = Some 127"
      by (simp_all add: unlaunched_meta_def supervisor_pid_def run_pid_def recorded_rc_def merged command_keys as_i64_json_of_int I64_MAX_def)
    then show ?thesis using Inl quiet [of ?m "real_pid_alive kill"] store
      by (simp add: dir verdict_def real_pid_alive_def)
  next
    case (Inr pid)
    obtain lg where dir: "dir = store_meta env (launched_meta env run_id pid (r\<lparr>cr_run_id := Some run_id\<rparr>)) [(COMMAND_LOG, lg)]"
      using assms(1) Inr run_id by (auto simp: command_start_def Let_def split: option.splits)
    let ?m = "launched_meta env run_id pid (r\<lparr>cr_run_id := Some run_id\<rparr>)"
    have m: "supervisor_pid ?m = None" "run_pid ?m = map_option int pid"
      using assms(8) [of "the pid"] Inr
      by (cases pid; simp add: launched_meta_def supervisor_pid_def run_pid_def merged command_keys as_i64_json_of_int)+
    let ?extra = "bm_of_list [(''rc'', json_of_int (wait_code status)), (''finished_at'', ce_ended env)]"
    let ?e = "merge_meta ?m ?extra"
    have "command_reaped env status dir = store_meta env ?e dir"
      by (simp only: command_reaped_eq dir store)
    moreover have "map_of ?e ''rc'' = Some (json_of_int (wait_code status))" "map_of ?e ''pid'' = map_of ?m ''pid''"
      "map_of ?e ''supervisor_pid'' = map_of ?m ''supervisor_pid''"
      by (simp_all add: bm_of_list_def merge_meta_def)
    ultimately show ?thesis
      using m quiet [of ?m "real_pid_alive kill"] quiet [of ?e "real_pid_alive kill"] store Inr assms(9)
      by (auto simp: dir verdict_def supervisor_pid_def run_pid_def recorded_rc_def as_i64_json_of_int)
  qed
qed

section \<open>Examples\<close>

definition sample_tailer :: event_tailer where
  "sample_tailer = tailer_new 0 ''/r'' None False"

definition sample_view :: frontend_view where
  "sample_view = \<lparr>fv_log = Some (sample_run_id @ [CHR 0x0A]), fv_timestamp_ok = \<lambda>_. True,
    fv_open = \<lambda>i. Some \<lparr>ob_info = \<lparr>ri_run_id = i, ri_meta = []\<rparr>, ob_tailer = sample_tailer\<rparr>, fv_meta = \<lambda>_. [],
    fv_alive = \<lambda>_ _. False, fv_wait = Some (ExitCode 0), fv_poll = \<lambda>t. (0, t)\<rparr>"

definition sample_frontend :: deploy_frontend where
  "sample_frontend = (deploy_new ''all'')\<lparr>dr_launch_dir := Some ''/l/1-7-0'', dr_child := Some 9\<rparr>"


end
