(* ===== verification/Identity.thy ===== *)
theory Identity
  imports FileStore Json Utf8 "HOL-Library.Word"
begin

text \<open>Who a fleet context is and where it is published: \<^verbatim>\<open>mandala-context/src/identity.rs\<close> (the key and
  the port sequence derived from the canonical flake path), \<^verbatim>\<open>discovery.rs\<close> (the discovery file) and
  the frames of \<^verbatim>\<open>protocol.rs\<close>. Hashes and ports are words of their width; the arithmetic on ports
  wraps as in a release build. Canonicalisation, address syntax and JSON text are arguments.\<close>

unbundle bit_operations_syntax

section \<open>Identity\<close>

definition PORT_BASE :: "16 word" where
  "PORT_BASE = 27155"

definition PORT_RANGE :: "16 word" where
  "PORT_RANGE = 256"

definition fnv1a64 :: "string \<Rightarrow> 64 word" where
  "fnv1a64 bytes = fold (\<lambda>b h. (h XOR word_of_nat (byte b)) * 0x100000001b3) bytes 0xcbf29ce484222325"

definition port_offset :: "64 word \<Rightarrow> 16 word \<Rightarrow> 16 word" where
  "port_offset hash rng = ucast (hash mod ucast rng)"

record context_identity =
  ci_flake :: string
  ci_key :: string
  ci_hash :: "64 word"
  ci_base :: "16 word"
  ci_range :: "16 word"

definition sanitize_char :: "string \<Rightarrow> char" where
  "sanitize_char c =
    (case c of
       [b] \<Rightarrow> if is_ascii_alnum b \<or> b \<in> {CHR ''-'', CHR ''_'', CHR ''.''} then b else CHR ''-''
     | _ \<Rightarrow> CHR ''-'')"

definition sanitize :: "string \<Rightarrow> string" where
  "sanitize stem = map sanitize_char (utf8_chars stem)"

definition show_hex64 :: "64 word \<Rightarrow> string" where
  "show_hex64 w = map (\<lambda>i. hex_digit (unat (drop_bit (4 * i) w AND 15))) (rev [0..<16])"

text \<open>\<^verbatim>\<open>with_port_range\<close>; None is its panic on an empty range.\<close>

definition with_port_range ::
  "(string \<Rightarrow> (string, string) result) \<Rightarrow> string \<Rightarrow> 16 word \<Rightarrow> 16 word \<Rightarrow> (string, context_identity) result option" where
  "with_port_range canonicalize path base rng =
    (if rng = 0 then None
     else Some (map_sum id
       (\<lambda>canonical.
         let flake = utf8_lossy canonical; hash = fnv1a64 flake;
             stem = opt_default ''flake'' (opt_filter (\<lambda>s. s \<noteq> [])
               (map_option (\<lambda>n. sanitize (utf8_lossy n)) (path_file_name canonical)))
         in \<lparr>ci_flake = flake, ci_key = stem @ ''-'' @ show_hex64 hash, ci_hash = hash, ci_base = base, ci_range = rng\<rparr>)
       (canonicalize path)))"

definition for_flake :: "(string \<Rightarrow> (string, string) result) \<Rightarrow> string \<Rightarrow> (string, context_identity) result option" where
  "for_flake canonicalize path = with_port_range canonicalize path PORT_BASE PORT_RANGE"

definition derived_port :: "context_identity \<Rightarrow> 16 word" where
  "derived_port ci = ci_base ci + port_offset (ci_hash ci) (ci_range ci)"

definition ports :: "context_identity \<Rightarrow> 16 word list" where
  "ports ci =
    (let offset = port_offset (ci_hash ci) (ci_range ci)
     in map (\<lambda>i. ci_base ci + ((offset + word_of_nat i) mod ci_range ci)) [0..<unat (ci_range ci)])"

section \<open>Frames\<close>

definition PROTOCOL_VERSION :: "32 word" where
  "PROTOCOL_VERSION = 1"

definition UNAUTHORIZED :: string where
  "UNAUTHORIZED = ''unauthorized''"

datatype frame =
    Hello "32 word" string string string
  | Welcome "32 word" string "32 word"
  | ErrorFrame string "string option"
  | Call "64 word" string "(string \<times> json) list"
  | CallResult "64 word" bool "json option" "string option"
  | Subscribe
  | Subscribed
  | EventFrame json
  | Ping
  | Pong
  | Heartbeat

instance frame :: countable by countable_datatype

section \<open>The discovery file\<close>

record discovery =
  di_url :: string
  di_token :: string
  di_pid :: "32 word"
  di_flake :: string

definition discovery_addr :: "(string \<Rightarrow> 'a option) \<Rightarrow> discovery \<Rightarrow> 'a option" where
  "discovery_addr parse d = Option.bind (strip_prefix ''tcp://'' (di_url d)) parse"

definition contexts_dir :: "string \<Rightarrow> string" where
  "contexts_dir state_dir = path_join (path_join state_dir ''mcp'') ''contexts''"

definition discovery_file :: "string \<Rightarrow> string" where
  "discovery_file key = key @ ''.json''"

definition discovery_path :: "string \<Rightarrow> string \<Rightarrow> string" where
  "discovery_path state_dir key = path_join (contexts_dir state_dir) (discovery_file key)"

text \<open>Files of the contexts directory; \<open>decode\<close> is the decoder serde derives, on valid UTF-8.\<close>

definition discovery_read :: "(string \<Rightarrow> discovery option) \<Rightarrow> file_dir \<Rightarrow> string \<Rightarrow> discovery option" where
  "discovery_read decode dir key = Option.bind (opt_filter utf8_valid (map_of dir (discovery_file key))) decode"

definition discovery_value :: "discovery \<Rightarrow> (string, json) bmap" where
  "discovery_value d = bm_of_list [(''url'', JStr (di_url d)), (''token'', JStr (di_token d)),
    (''pid'', JNum (PosInt (unat (di_pid d)))), (''flake'', JStr (di_flake d))]"

definition discovery_tmp :: "string \<Rightarrow> nat \<Rightarrow> nat \<Rightarrow> string" where
  "discovery_tmp key pid n = ''.'' @ key @ ''.json.'' @ show_nat pid @ ''.'' @ show_nat n @ ''.tmp''"

text \<open>The temporary name is the first free one from \<open>n\<close> on; one of them is free.\<close>

definition free_tmp :: "file_dir \<Rightarrow> string \<Rightarrow> nat \<Rightarrow> nat \<Rightarrow> nat" where
  "free_tmp dir key pid n =
    opt_default n (List.find (\<lambda>k. \<not> bm_contains dir (discovery_tmp key pid k)) [n..<n + length dir + 1])"

definition discovery_write ::
  "((string, json) bmap \<Rightarrow> (string, string) result) \<Rightarrow> (fs_op \<Rightarrow> string option) \<Rightarrow> nat \<Rightarrow> nat \<Rightarrow> string \<Rightarrow> discovery \<Rightarrow>
    file_dir \<Rightarrow> (string, unit) result \<times> file_dir" where
  "discovery_write ser io pid n key d dir =
    (case ser (discovery_value d) of
       Inl e \<Rightarrow> (Inl e, dir)
     | Inr body \<Rightarrow>
         let tmp = discovery_tmp key pid (free_tmp dir key pid n)
         in case fs_try io (replace_ops tmp (discovery_file key) body) dir of
              (Inl e, dir) \<Rightarrow> (Inl e, bm_remove tmp dir)
            | (Inr _, dir) \<Rightarrow> (Inr (), dir))"

definition mint_token :: "8 word list \<Rightarrow> string" where
  "mint_token random = concat (map (\<lambda>b. [hex_digit (unat b div 16), hex_digit (unat b mod 16)]) random)"

section \<open>The port sequence\<close>

lemma unat16_lt: "unat (w :: 16 word) < 2 ^ 16"
  using unsigned_less [of w] by simp

lemma unat_port_offset:
  assumes "rng \<noteq> 0"
  shows "unat (port_offset hash rng) = unat hash mod unat rng"
proof -
  have pos: "0 < unat rng" using assms unat_gt_0 by blast
  have r: "unat (ucast rng :: 64 word) = unat rng"
    using unat16_lt [of rng] by (simp add: unsigned_ucast_eq take_bit_nat_eq_self)
  have "unat hash mod unat rng < 2 ^ 16"
    using mod_less_divisor [OF pos, of "unat hash"] unat16_lt [of rng] by linarith
  moreover have "unat (hash mod ucast rng) = unat hash mod unat rng" by (simp only: unat_mod r)
  ultimately show ?thesis by (simp add: port_offset_def unsigned_ucast_eq take_bit_nat_eq_self)
qed

text \<open>Ranges whose arithmetic does not wrap, as that of production.\<close>

definition ports_ok :: "context_identity \<Rightarrow> bool" where
  "ports_ok ci \<longleftrightarrow> ci_range ci \<noteq> 0 \<and> unat (ci_range ci) \<le> 2 ^ 15 \<and> unat (ci_base ci) + unat (ci_range ci) \<le> 2 ^ 16"

lemma unat_port_plus:
  "unat a + unat b < 2 ^ 16 \<Longrightarrow> unat (a + b :: 16 word) = unat a + unat b"
  using unat_add_lem [of a b] by simp

lemma unat_ports:
  assumes "ports_ok ci"
  shows "map unat (ports ci) = map (\<lambda>i. unat (ci_base ci) +
    (unat (ci_hash ci) mod unat (ci_range ci) + i) mod unat (ci_range ci)) [0..<unat (ci_range ci)]"
proof -
  let ?r = "unat (ci_range ci)" and ?o = "port_offset (ci_hash ci) (ci_range ci)"
  have pos: "0 < ?r" using assms unat_gt_0 by (auto simp: ports_ok_def)
  have o: "unat ?o = unat (ci_hash ci) mod ?r" using assms unat_port_offset by (simp add: ports_ok_def)
  have "unat (ci_base ci + ((?o + word_of_nat i) mod ci_range ci)) = unat (ci_base ci) + (unat (ci_hash ci) mod ?r + i) mod ?r"
    if i: "i < ?r" for i
  proof -
    have wi: "unat (word_of_nat i :: 16 word) = i"
      using i unat16_lt [of "ci_range ci"] by (simp add: unat_of_nat)
    have "unat ?o + i < 2 ^ 16"
    proof -
      obtain m where m: "unat (ci_hash ci) mod ?r = m" "m < ?r" using mod_less_divisor [OF pos] by blast
      have "?r \<le> 32768" using assms by (simp add: ports_ok_def)
      then show ?thesis using i m(2) unfolding o m(1) by simp
    qed
    then have "unat (?o + word_of_nat i) = unat ?o + i" using unat_port_plus [of ?o "word_of_nat i"] wi by simp
    then have m: "unat ((?o + word_of_nat i) mod ci_range ci) = (unat (ci_hash ci) mod ?r + i) mod ?r"
      by (simp add: unat_mod o)
    have "(unat (ci_hash ci) mod ?r + i) mod ?r < ?r" using pos by simp
    then have "unat (ci_base ci) + unat ((?o + word_of_nat i) mod ci_range ci) < 2 ^ 16"
      using assms unfolding m ports_ok_def by linarith
    then show ?thesis using unat_port_plus m by simp
  qed
  then show ?thesis by (simp add: ports_def Let_def)
qed

lemma shifted_residues: "0 < r \<Longrightarrow> (\<lambda>i. (k + i) mod r) ` {0..<r} = {0..<r}" for r :: nat
proof -
  assume r: "0 < r"
  have le: "i = j" if "(k + i) mod r = (k + j) mod r" "i < r" "j \<le> i" for i j
  proof (rule ccontr)
    assume "i \<noteq> j"
    then have "0 < i - j" "i - j < r" using that by simp_all
    then have "\<not> r dvd i - j" by (rule nat_dvd_not_less)
    then show False using that mod_eq_dvd_iff_nat [of "k + j" "k + i" r] by simp
  qed
  have "inj_on (\<lambda>i. (k + i) mod r) {0..<r}"
    by (rule inj_onI) (metis atLeastLessThan_iff le nat_le_linear)
  moreover have "(\<lambda>i. (k + i) mod r) ` {0..<r} \<subseteq> {0..<r}" using r by auto
  ultimately show ?thesis by (metis card_image card_subset_eq finite_atLeastLessThan)
qed

text \<open>The port sequence starts at the derived port and visits every port of the range exactly once.\<close>

lemma ports_cover_the_range:
  assumes "ports_ok ci"
  shows "hd (ports ci) = derived_port ci \<and> distinct (ports ci) \<and>
    unat ` set (ports ci) = {unat (ci_base ci)..<unat (ci_base ci) + unat (ci_range ci)}"
proof -
  let ?r = "unat (ci_range ci)" and ?b = "unat (ci_base ci)" and ?h = "unat (ci_hash ci)"
  have pos: "0 < ?r" using assms unat_gt_0 by (auto simp: ports_ok_def)
  have "unat ` set (ports ci) = set (map unat (ports ci))" by simp
  also have "\<dots> = (\<lambda>i. ?b + (?h mod ?r + i) mod ?r) ` {0..<?r}" using unat_ports [OF assms] by simp
  also have "\<dots> = (+) ?b ` ((\<lambda>i. (?h mod ?r + i) mod ?r) ` {0..<?r})" by (simp only: image_image)
  also have "\<dots> = {?b..<?b + ?r}" using shifted_residues [OF pos, of "?h mod ?r"] by (simp add: image_add_atLeastLessThan add.commute)
  finally have range: "unat ` set (ports ci) = {?b..<?b + ?r}" .
  have "card (unat ` set (ports ci)) = length (ports ci)" unfolding range by (simp add: ports_def Let_def)
  then have "length (ports ci) \<le> card (set (ports ci))" using card_image_le [of "set (ports ci)" unat] by simp
  then have "distinct (ports ci)" by (metis card_distinct card_length le_antisym)
  moreover have "hd (ports ci) = derived_port ci"
  proof -
    let ?o = "port_offset (ci_hash ci) (ci_range ci)"
    have "unat ?o mod ?r = unat ?o" using unat_port_offset assms pos by (simp add: ports_ok_def)
    then have "?o mod ci_range ci = ?o" by (simp add: word_eq_iff_unsigned [where 'a = nat] unat_mod)
    then show ?thesis using pos by (simp add: ports_def derived_port_def Let_def upt_rec)
  qed
  ultimately show ?thesis using range by blast
qed

definition sample_identity :: context_identity where
  "sample_identity = \<lparr>ci_flake = ''/f'', ci_key = ''f'', ci_hash = 300, ci_base = PORT_BASE, ci_range = PORT_RANGE\<rparr>"

text \<open>A new discovery file appears complete or not at all.\<close>

lemma tmp_not_discovery: "discovery_tmp key pid n \<noteq> discovery_file key"
  by (auto simp: discovery_tmp_def discovery_file_def dest!: arg_cong [where f = length])

interpretation discovery_store:
  atomic_file "replace_ops (discovery_tmp key pid n) (discovery_file key)" "\<lambda>dir. map_of dir (discovery_file key)"
  for key pid n
  by (rule replace_atomic) (rule tmp_not_discovery)

lemma discovery_write_contents:
  assumes "discovery_write ser io pid n key d dir = (Inr u, dir')"
  shows "\<exists>body. ser (discovery_value d) = Inr body \<and> map_of dir' (discovery_file key) = Some body"
proof -
  obtain body where body: "ser (discovery_value d) = Inr body"
    using assms by (auto simp: discovery_write_def split: sum.splits)
  let ?ops = "replace_ops (discovery_tmp key pid (free_tmp dir key pid n)) (discovery_file key) body"
  have "fs_try io ?ops dir = (Inr (), dir')"
    using assms body by (auto simp: discovery_write_def Let_def split: prod.splits sum.splits)
  then have "dir' = fs_run ?ops dir" by (rule fs_try_ok)
  then show ?thesis using body discovery_store.complete by simp
qed

end
