(* ===== verification/Acquire.thy ===== *)
theory Acquire
  imports Identity
begin

text \<open>Joining or leading a fleet context: \<^verbatim>\<open>acquire\<close> of \<^verbatim>\<open>mandala-context/src/lib.rs\<close> with the handshake
  of \<^verbatim>\<open>client.rs\<close> (\<^verbatim>\<open>ContextClient::connect\<close>) and of \<^verbatim>\<open>host.rs\<close> (the hello part of \<^verbatim>\<open>serve_conn\<close>). A
  contender first probes the address of the discovery file, then scans all ports of its sequence, and
  only then walks the sequence again to bind: the bind is the lock. \<open>acquire_next\<close> is one step of a
  contender; \<open>acquire_run\<close> lets one contender run against an environment that answers its probes and
  binds, and \<open>race_step\<close> interleaves many contenders over shared ports.\<close>

section \<open>The handshake\<close>

datatype connect_error = Unauthorized "string option" | NotAContext string | ConnectTimeout | ConnectIo string

text \<open>What the peer does with the hello: it cannot be written, the answer never comes, cannot be read,
  is the end of the stream, or is a line.\<close>

datatype handshake = HelloFailed string | Silent | ReadFailed string | ClosedEarly | FirstLine string

definition first_frame ::
  "(string \<Rightarrow> (string, frame) result) \<Rightarrow> (frame \<Rightarrow> string) \<Rightarrow> string \<Rightarrow> (connect_error, string \<times> 32 word) result" where
  "first_frame dec dbg line =
    (case dec line of
       Inl _ \<Rightarrow> Inl (NotAContext ''non-protocol response'')
     | Inr f \<Rightarrow>
         (case f of
            Welcome _ flake pid \<Rightarrow> Inr (flake, pid)
          | ErrorFrame e flake \<Rightarrow>
              if e = UNAUTHORIZED then Inl (Unauthorized flake)
              else Inl (NotAContext (''unexpected first frame: '' @ dbg f))
          | _ \<Rightarrow> Inl (NotAContext (''unexpected first frame: '' @ dbg f))))"

text \<open>\<open>tcp\<close> is the error of the connection itself, if any.\<close>

definition connect ::
  "(frame \<Rightarrow> (string, string) result) \<Rightarrow> (string \<Rightarrow> (string, frame) result) \<Rightarrow> (frame \<Rightarrow> string) \<Rightarrow> string option \<Rightarrow>
    (string \<Rightarrow> handshake) \<Rightarrow> string \<Rightarrow> string \<Rightarrow> string \<Rightarrow> (connect_error, string \<times> 32 word) result" where
  "connect enc dec dbg tcp peer token client_name flake =
    (case tcp of
       Some e \<Rightarrow> Inl (ConnectIo e)
     | None \<Rightarrow>
         (case enc (Hello PROTOCOL_VERSION token client_name flake) of
            Inl e \<Rightarrow> Inl (NotAContext e)
          | Inr line \<Rightarrow>
              (case peer line of
                 HelloFailed e \<Rightarrow> Inl (ConnectIo e)
               | Silent \<Rightarrow> Inl ConnectTimeout
               | ReadFailed e \<Rightarrow> Inl (ConnectIo e)
               | ClosedEarly \<Rightarrow> Inl (NotAContext ''closed before welcome'')
               | FirstLine l \<Rightarrow> first_frame dec dbg l)))"

text \<open>The leader's side: the answer to the first line, and the client's name when it is served.\<close>

definition answer_hello ::
  "(string \<Rightarrow> (string, frame) result) \<Rightarrow> string \<Rightarrow> string \<Rightarrow> 32 word \<Rightarrow> string \<Rightarrow> frame \<times> string option" where
  "answer_hello dec token flake pid line =
    (case dec line of
       Inr (Hello v presented client f) \<Rightarrow>
         if token = presented then (Welcome PROTOCOL_VERSION flake pid, Some client)
         else (ErrorFrame UNAUTHORIZED (Some flake), None)
     | _ \<Rightarrow> (ErrorFrame UNAUTHORIZED (Some flake), None))"

datatype probe = OurLeader "32 word" | TokenMismatch | Foreign | Dead | Busy

definition classify :: "string \<Rightarrow> (connect_error, string \<times> 32 word) result \<Rightarrow> probe" where
  "classify flake r =
    (case r of
       Inr (server_flake, pid) \<Rightarrow> if server_flake = flake then OurLeader pid else Foreign
     | Inl (Unauthorized server_flake) \<Rightarrow> if server_flake = Some flake then TokenMismatch else Foreign
     | Inl (NotAContext _) \<Rightarrow> Foreign
     | Inl ConnectTimeout \<Rightarrow> Busy
     | Inl (ConnectIo _) \<Rightarrow> Dead)"

definition BUSY_PROBE_ATTEMPTS :: nat where
  "BUSY_PROBE_ATTEMPTS = 3"

text \<open>The answers to successive attempts; how many were made is the second result.\<close>

fun busy_retry :: "nat \<Rightarrow> (nat \<Rightarrow> probe) \<Rightarrow> nat \<Rightarrow> probe \<times> nat" where
  "busy_retry 0 f k = (Busy, k)"
| "busy_retry (Suc n) f k = (case f k of Busy \<Rightarrow> busy_retry n f (k + 1) | p \<Rightarrow> (p, k + 1))"

definition probe_with_busy_retry :: "(nat \<Rightarrow> probe) \<Rightarrow> probe" where
  "probe_with_busy_retry f = fst (busy_retry BUSY_PROBE_ATTEMPTS f 0)"

text \<open>The rounds of \<^verbatim>\<open>join_with_refreshed_token\<close> within its window: the discovery file as it is read, and
  what a connection with its token gives.\<close>

fun join_with_refreshed_token ::
  "string \<Rightarrow> string \<Rightarrow> (discovery option \<times> (string \<Rightarrow> (connect_error, string \<times> 32 word) result)) list \<Rightarrow> 32 word option" where
  "join_with_refreshed_token flake stale [] = None"
| "join_with_refreshed_token flake stale ((read, conn) # rounds) =
    (case opt_filter (\<lambda>d. di_flake d = flake \<and> di_token d \<noteq> [] \<and> di_token d \<noteq> stale) read of
       None \<Rightarrow> join_with_refreshed_token flake stale rounds
     | Some d \<Rightarrow>
         (case conn (di_token d) of
            Inr (server_flake, pid) \<Rightarrow>
              if server_flake = flake then Some pid else join_with_refreshed_token flake stale rounds
          | Inl _ \<Rightarrow> join_with_refreshed_token flake stale rounds))"

section \<open>One contender\<close>

datatype acquire_error = AcquireIo string | PortsExhausted | TokenUnavailable | LeaderBusy

fun show_acquire_error :: "acquire_error \<Rightarrow> string" where
  "show_acquire_error (AcquireIo e) = ''context acquire failed: '' @ e"
| "show_acquire_error PortsExhausted = ''no free port in the context range''"
| "show_acquire_error TokenUnavailable = ''live leader rejected our token and discovery never refreshed''"
| "show_acquire_error LeaderBusy =
    ''the context leader is bound but too busy to answer; not claiming a second context''"

datatype endpoint = AtDiscovery | AtPort nat

datatype phase =
    ProbeDiscovery
  | Scan nat
  | Bind nat
  | ProbeInUse nat
  | Refresh endpoint
  | Publish nat
  | Leading nat
  | Following endpoint "32 word"
  | Failed acquire_error

datatype bind_answer = Bound | AddrInUse | BindError string

datatype answer = Probed probe | BindAnswer bind_answer | Refreshed "32 word option" | Published "string option"

fun probed :: "endpoint \<Rightarrow> phase \<Rightarrow> probe \<Rightarrow> phase" where
  "probed ep nxt (OurLeader pid) = Following ep pid"
| "probed ep nxt Busy = Failed LeaderBusy"
| "probed ep nxt TokenMismatch = Refresh ep"
| "probed ep nxt Foreign = nxt"
| "probed ep nxt Dead = nxt"

text \<open>With \<open>n\<close> ports; answers of the wrong kind do not occur.\<close>

fun acquire_next :: "nat \<Rightarrow> phase \<Rightarrow> answer \<Rightarrow> phase" where
  "acquire_next n ProbeDiscovery (Probed p) = probed AtDiscovery (Scan 0) p"
| "acquire_next n (Scan i) (Probed p) = probed (AtPort i) (if i + 1 < n then Scan (i + 1) else Bind 0) p"
| "acquire_next n (Bind i) (BindAnswer Bound) = Publish i"
| "acquire_next n (Bind i) (BindAnswer AddrInUse) = ProbeInUse i"
| "acquire_next n (Bind i) (BindAnswer (BindError e)) = Failed (AcquireIo e)"
| "acquire_next n (ProbeInUse i) (Probed p) =
    probed (AtPort i) (if i + 1 < n then Bind (i + 1) else Failed PortsExhausted) p"
| "acquire_next n (Refresh ep) (Refreshed (Some pid)) = Following ep pid"
| "acquire_next n (Refresh ep) (Refreshed None) = Failed TokenUnavailable"
| "acquire_next n (Publish i) (Published None) = Leading i"
| "acquire_next n (Publish i) (Published (Some e)) = Failed (AcquireIo e)"
| "acquire_next n ph _ = ph"

fun settled :: "phase \<Rightarrow> bool" where
  "settled (Leading _) = True"
| "settled (Following _ _) = True"
| "settled (Failed _) = True"
| "settled _ = False"

text \<open>The environment answers the attempts of the \<open>k\<close>-th action.\<close>

record acquire_env =
  ae_probe :: "nat \<Rightarrow> endpoint \<Rightarrow> nat \<Rightarrow> probe"
  ae_bind :: "nat \<Rightarrow> nat \<Rightarrow> bind_answer"
  ae_refresh :: "endpoint \<Rightarrow> (discovery option \<times> (string \<Rightarrow> (connect_error, string \<times> 32 word) result)) list"
  ae_publish :: "nat \<Rightarrow> string option"

definition answer_of :: "acquire_env \<Rightarrow> string \<Rightarrow> string \<Rightarrow> nat \<Rightarrow> phase \<Rightarrow> answer" where
  "answer_of env flake token k ph =
    (case ph of
       ProbeDiscovery \<Rightarrow> Probed (probe_with_busy_retry (ae_probe env k AtDiscovery))
     | Scan i \<Rightarrow> Probed (probe_with_busy_retry (ae_probe env k (AtPort i)))
     | ProbeInUse i \<Rightarrow> Probed (probe_with_busy_retry (ae_probe env k (AtPort i)))
     | Bind i \<Rightarrow> BindAnswer (ae_bind env k i)
     | Refresh ep \<Rightarrow> Refreshed (join_with_refreshed_token flake token (ae_refresh env ep))
     | Publish i \<Rightarrow> Published (ae_publish env i)
     | _ \<Rightarrow> Published None)"

text \<open>Each step comes closer to a settled phase.\<close>

fun phase_rank :: "nat \<Rightarrow> phase \<Rightarrow> nat" where
  "phase_rank n ProbeDiscovery = 3 * n + 8"
| "phase_rank n (Scan i) = (n - i) + 2 * n + 6"
| "phase_rank n (Bind i) = 2 * (n - i) + 4"
| "phase_rank n (ProbeInUse i) = 2 * (n - i) + 3"
| "phase_rank n (Refresh _) = 1"
| "phase_rank n (Publish _) = 1"
| "phase_rank n _ = 0"

lemma rank_decreases: "\<not> settled ph \<Longrightarrow> phase_rank n (acquire_next n ph (answer_of env flake token k ph)) < phase_rank n ph"
proof -
  have p: "phase_rank n (probed ep nxt p) \<le> max 1 (phase_rank n nxt)" for ep nxt p
    by (cases p) auto
  assume "\<not> settled ph"
  then show ?thesis
  proof (cases ph)
    case (Scan i)
    then show ?thesis using p [of "AtPort i" "if i + 1 < n then Scan (i + 1) else Bind 0"
        "probe_with_busy_retry (ae_probe env k (AtPort i))"] by (auto simp: answer_of_def split: if_splits)
  next
    case (ProbeInUse i)
    then show ?thesis using p [of "AtPort i" "if i + 1 < n then Bind (i + 1) else Failed PortsExhausted"
        "probe_with_busy_retry (ae_probe env k (AtPort i))"] by (auto simp: answer_of_def split: if_splits)
  next
    case ProbeDiscovery
    then show ?thesis using p [of AtDiscovery "Scan 0" "probe_with_busy_retry (ae_probe env k AtDiscovery)"]
      by (auto simp: answer_of_def)
  next
    case (Bind i)
    then show ?thesis by (cases "ae_bind env k i") (simp_all add: answer_of_def)
  next
    case (Refresh ep)
    then show ?thesis by (cases "join_with_refreshed_token flake token (ae_refresh env ep)") (simp_all add: answer_of_def)
  next
    case (Publish i)
    then show ?thesis by (cases "ae_publish env i") (simp_all add: answer_of_def)
  qed simp_all
qed

function acquire_run :: "nat \<Rightarrow> acquire_env \<Rightarrow> string \<Rightarrow> string \<Rightarrow> nat \<Rightarrow> phase \<Rightarrow> phase" where
  "acquire_run n env flake token k ph =
    (if settled ph then ph
     else acquire_run n env flake token (k + 1) (acquire_next n ph (answer_of env flake token k ph)))"
  by pat_completeness auto
termination
  by (relation "measure (\<lambda>(n, env, flake, token, k, ph). phase_rank n ph)") (simp_all add: rank_decreases)

declare acquire_run.simps [simp del]

text \<open>\<^verbatim>\<open>acquire\<close>: the discovery file when it is ours, the token to use, and the outcome.\<close>

definition own_discovery :: "context_identity \<Rightarrow> discovery option \<Rightarrow> discovery option" where
  "own_discovery ci = opt_filter (\<lambda>d. di_flake d = ci_flake ci \<and> di_token d \<noteq> [])"

definition acquire_token :: "context_identity \<Rightarrow> string \<Rightarrow> discovery option \<Rightarrow> string" where
  "acquire_token ci minted found = (case own_discovery ci found of None \<Rightarrow> minted | Some d \<Rightarrow> di_token d)"

definition acquire_start :: "context_identity \<Rightarrow> (string \<Rightarrow> 'a option) \<Rightarrow> discovery option \<Rightarrow> phase" where
  "acquire_start ci parse found =
    (if Option.bind (own_discovery ci found) (discovery_addr parse) \<noteq> None then ProbeDiscovery else Scan 0)"

definition acquire ::
  "context_identity \<Rightarrow> (string \<Rightarrow> 'a option) \<Rightarrow> string \<Rightarrow> discovery option \<Rightarrow> acquire_env \<Rightarrow> phase" where
  "acquire ci parse minted found env =
    acquire_run (length (ports ci)) env (ci_flake ci) (acquire_token ci minted found) 0 (acquire_start ci parse found)"

section \<open>A live leader is never bypassed\<close>

definition answers_for_us :: "probe \<Rightarrow> bool" where
  "answers_for_us p \<longleftrightarrow> p \<noteq> Foreign \<and> p \<noteq> Dead"

lemma busy_retry_for_us: "(\<And>k. answers_for_us (f k)) \<Longrightarrow> answers_for_us (fst (busy_retry n f k))"
proof (induction n f k rule: busy_retry.induct)
  case (2 n f k)
  then show ?case using 2(2) [of k] by (cases "f k") auto
qed (simp add: answers_for_us_def)

lemma probed_fixed: "answers_for_us p \<Longrightarrow> P (probed ep (Failed LeaderBusy) p) \<Longrightarrow> P (probed ep nxt p)"
  by (cases p) (simp_all add: answers_for_us_def)

fun before_bind :: "nat \<Rightarrow> phase \<Rightarrow> bool" where
  "before_bind i ProbeDiscovery = True"
| "before_bind i (Scan j) = (j \<le> i)"
| "before_bind i (Refresh _) = True"
| "before_bind i (Following _ _) = True"
| "before_bind i (Failed _) = True"
| "before_bind i _ = False"

lemma before_bind_next:
  assumes "before_bind i ph" and "i < n" and "\<And>k j. answers_for_us (ae_probe env k (AtPort i) j)"
  shows "before_bind i (acquire_next n ph (answer_of env flake token k ph))"
proof -
  have simple: "before_bind i (probed ep nxt p)" if "before_bind i nxt" for ep nxt p
    using that by (cases p) auto
  show ?thesis
  proof (cases ph)
    case (Scan j)
    show ?thesis
    proof (cases "j = i")
      case True
      let ?p = "probe_with_busy_retry (ae_probe env k (AtPort i))"
      have "answers_for_us ?p"
        unfolding probe_with_busy_retry_def by (rule busy_retry_for_us) (rule assms(3))
      then have "before_bind i (probed (AtPort i) nxt ?p)" for nxt
        by (rule probed_fixed) (rule simple, simp)
      then show ?thesis using Scan True by (simp add: answer_of_def)
    next
      case False
      then show ?thesis using Scan assms(1,2) simple [of "Scan (j + 1)"] by (simp add: answer_of_def)
    qed
  next
    case ProbeDiscovery
    then show ?thesis using simple [of "Scan 0"] by (simp add: answer_of_def)
  next
    case (Refresh ep)
    then show ?thesis by (cases "join_with_refreshed_token flake token (ae_refresh env ep)") (simp_all add: answer_of_def)
  qed (use assms(1) in simp_all)
qed

lemma run_before_bind:
  assumes "i < n" and "\<And>k j. answers_for_us (ae_probe env k (AtPort i) j)" and "before_bind i ph"
  shows "before_bind i (acquire_run n env flake token k ph)"
  using assms
proof (induction n env flake token k ph rule: acquire_run.induct)
  case (1 n env flake token k ph)
  show ?case
    using 1 before_bind_next [OF 1(4,2,3)] by (subst acquire_run.simps) simp
qed

lemma run_settles: "settled (acquire_run n env flake token k ph)"
proof (induction n env flake token k ph rule: acquire_run.induct)
  case (1 n env flake token k ph)
  then show ?case by (subst acquire_run.simps) simp
qed

text \<open>A checkout gets no second leader while one is alive: if any port of the sequence is held by
  something that answers as our context's leader, accepts but rejects our token, or is too busy to
  answer, then no contender becomes leader, wherever it sits in the sequence and whatever the
  discovery file says: it joins, or fails.\<close>

lemma live_leader_is_not_bypassed:
  assumes "i < length (ports ci)" and "\<And>k j. ae_probe env k (AtPort i) j \<notin> {Foreign, Dead}"
  shows "(\<exists>ep pid. acquire ci parse minted found env = Following ep pid) \<or>
    (\<exists>e. acquire ci parse minted found env = Failed e)"
proof -
  let ?ph = "acquire ci parse minted found env"
  have "before_bind i (acquire_start ci parse found)" by (simp add: acquire_start_def)
  then have "before_bind i ?ph"
    unfolding acquire_def using assms by (intro run_before_bind) (auto simp: answers_for_us_def)
  moreover have "settled ?ph" unfolding acquire_def by (rule run_settles)
  ultimately show ?thesis by (cases ?ph) auto
qed

text \<open>The handshake tells contexts apart: with an endpoint that is a leader, a probe finds our leader,
  our leader with another token, or a foreign context, according to the flake the leader serves and
  the token it holds.\<close>

lemma handshake_identifies_the_leader:
  assumes "\<And>f. enc f = Inr (wire f) \<and> dec (wire f) = Inr f"
  shows "classify flake (connect enc dec dbg None
      (\<lambda>line. FirstLine (wire (fst (answer_hello dec server_token server_flake pid line)))) token name flake) =
    (if server_flake \<noteq> flake then Foreign else if server_token = token then OurLeader pid else TokenMismatch)"
  using assms by (simp add: connect_def answer_hello_def first_frame_def classify_def)

section \<open>Contenders racing for the ports\<close>

datatype owner = ForeignOwner | ContextOwner nat

record race =
  ra_owner :: "nat \<Rightarrow> owner option"
  ra_phase :: "nat \<Rightarrow> phase"

text \<open>What may go wrong during a race: a leader dies, the discovery file cannot be written after the bind (the host is dropped,
  and with it the listener), a foreign service releases its port, a live leader of this checkout is not recognised.\<close>

datatype disturbance = LeaderDies | PublishFails | ForeignReleases | LeaderUnrecognised

text \<open>What a probe of a port can find. A recognised leader answers as ours, with another token, or not in time.\<close>

fun probe_finds :: "disturbance set \<Rightarrow> owner option \<Rightarrow> probe \<Rightarrow> bool" where
  "probe_finds ds None p = (p = Dead)"
| "probe_finds ds (Some ForeignOwner) p = (p = Foreign \<or> p = Busy \<or> p = Dead)"
| "probe_finds ds (Some (ContextOwner c)) p = (answers_for_us p \<or> LeaderUnrecognised \<in> ds)"

text \<open>One atomic action of a contender, and its effect on the ports.\<close>

inductive race_action :: "disturbance set \<Rightarrow> nat \<Rightarrow> race \<Rightarrow> nat \<Rightarrow> answer \<Rightarrow> (nat \<Rightarrow> owner option) \<Rightarrow> bool" for ds n w c where
  act_discovery: "ra_phase w c = ProbeDiscovery \<Longrightarrow> race_action ds n w c (Probed p) (ra_owner w)"
| act_scan: "ra_phase w c = Scan i \<Longrightarrow> probe_finds ds (ra_owner w i) p \<Longrightarrow> race_action ds n w c (Probed p) (ra_owner w)"
| act_in_use: "ra_phase w c = ProbeInUse i \<Longrightarrow> probe_finds ds (ra_owner w i) p \<Longrightarrow>
    race_action ds n w c (Probed p) (ra_owner w)"
| act_bound: "ra_phase w c = Bind i \<Longrightarrow> ra_owner w i = None \<Longrightarrow>
    race_action ds n w c (BindAnswer Bound) ((ra_owner w)(i := Some (ContextOwner c)))"
| act_taken: "ra_phase w c = Bind i \<Longrightarrow> ra_owner w i \<noteq> None \<Longrightarrow>
    race_action ds n w c (BindAnswer AddrInUse) (ra_owner w)"
| act_bind_error: "ra_phase w c = Bind i \<Longrightarrow> race_action ds n w c (BindAnswer (BindError e)) (ra_owner w)"
| act_refresh: "ra_phase w c = Refresh ep \<Longrightarrow> race_action ds n w c (Refreshed r) (ra_owner w)"
| act_published: "ra_phase w c = Publish i \<Longrightarrow> race_action ds n w c (Published None) (ra_owner w)"
| act_unpublished: "ra_phase w c = Publish i \<Longrightarrow> PublishFails \<in> ds \<Longrightarrow>
    race_action ds n w c (Published (Some e)) ((ra_owner w)(i := None))"

definition act :: "nat \<Rightarrow> race \<Rightarrow> nat \<Rightarrow> answer \<Rightarrow> (nat \<Rightarrow> owner option) \<Rightarrow> race" where
  "act n w c a owners = \<lparr>ra_owner = owners, ra_phase = (ra_phase w)(c := acquire_next n (ra_phase w c) a)\<rparr>"

text \<open>Foreign services hold some ports at the start and may take free ones at any time. Death frees a leader's port.\<close>

inductive race_reachable :: "disturbance set \<Rightarrow> nat \<Rightarrow> race \<Rightarrow> bool" for ds n where
  race_start: "(\<And>c. ra_phase w c = ProbeDiscovery \<or> ra_phase w c = Scan 0) \<Longrightarrow>
    (\<And>i. ra_owner w i = None \<or> ra_owner w i = Some ForeignOwner) \<Longrightarrow> race_reachable ds n w"
| race_act: "race_reachable ds n w \<Longrightarrow> race_action ds n w c a owners \<Longrightarrow> race_reachable ds n (act n w c a owners)"
| race_foreign_takes: "race_reachable ds n w \<Longrightarrow> ra_owner w i = None \<Longrightarrow>
    race_reachable ds n (w\<lparr>ra_owner := (ra_owner w)(i := Some ForeignOwner)\<rparr>)"
| race_foreign_leaves: "race_reachable ds n w \<Longrightarrow> ForeignReleases \<in> ds \<Longrightarrow> ra_owner w i = Some ForeignOwner \<Longrightarrow>
    race_reachable ds n (w\<lparr>ra_owner := (ra_owner w)(i := None)\<rparr>)"
| race_death: "race_reachable ds n w \<Longrightarrow> LeaderDies \<in> ds \<Longrightarrow> ra_phase w c = Leading i \<Longrightarrow>
    race_reachable ds n
      \<lparr>ra_owner = (ra_owner w)(i := None), ra_phase = (ra_phase w)(c := Failed LeaderBusy)\<rparr>"

definition holds :: "race \<Rightarrow> nat \<Rightarrow> nat \<Rightarrow> bool" where
  "holds w c i \<longleftrightarrow> ra_phase w c = Publish i \<or> ra_phase w c = Leading i"

definition past_foreign :: "nat set \<Rightarrow> phase \<Rightarrow> bool" where
  "past_foreign foreign ph \<longleftrightarrow>
    (\<forall>i. ph \<in> {Bind i, ProbeInUse i, Publish i, Leading i} \<longrightarrow> (\<forall>j<i. j \<in> foreign))"

definition race_inv :: "nat set \<Rightarrow> race \<Rightarrow> bool" where
  "race_inv foreign w \<longleftrightarrow>
    (\<forall>i. ra_owner w i = Some ForeignOwner \<longleftrightarrow> i \<in> foreign) \<and>
    (\<forall>c i. ra_owner w i = Some (ContextOwner c) \<longleftrightarrow> holds w c i) \<and>
    (\<forall>c. past_foreign foreign (ra_phase w c)) \<and>
    (\<forall>c i. ra_phase w c = ProbeInUse i \<longrightarrow> ra_owner w i \<noteq> None)"

lemma past_foreign_simps [simp]:
  "past_foreign F ProbeDiscovery" "past_foreign F (Scan i)" "past_foreign F (Refresh ep)"
  "past_foreign F (Following ep pid)" "past_foreign F (Failed e)"
  "past_foreign F (Bind i) \<longleftrightarrow> {..<i} \<subseteq> F" "past_foreign F (ProbeInUse i) \<longleftrightarrow> {..<i} \<subseteq> F"
  "past_foreign F (Publish i) \<longleftrightarrow> {..<i} \<subseteq> F" "past_foreign F (Leading i) \<longleftrightarrow> {..<i} \<subseteq> F"
  by (auto simp: past_foreign_def)

lemma probed_cases: "probed ep nxt p = nxt \<or> (\<exists>pid. probed ep nxt p = Following ep pid) \<or>
    probed ep nxt p = Refresh ep \<or> (\<exists>e. probed ep nxt p = Failed e)"
  by (cases p) auto

text \<open>What a step changes of a contender's claims on the ports: only a bind gains one, and publishing keeps it.\<close>

fun claim_of :: "phase \<Rightarrow> nat option" where
  "claim_of (Publish i) = Some i"
| "claim_of (Leading i) = Some i"
| "claim_of _ = None"

lemma holds_claim: "holds w c i \<longleftrightarrow> claim_of (ra_phase w c) = Some i"
  by (cases "ra_phase w c") (auto simp: holds_def)

lemma claim_probed [simp]: "claim_of nxt = None \<Longrightarrow> claim_of (probed ep nxt p) = None"
  by (cases p) auto

lemma not_in_use_probed [simp]:
  "(\<And>j. nxt \<noteq> ProbeInUse j) \<Longrightarrow> probed ep nxt p \<noteq> ProbeInUse i"
  by (cases p) auto

lemma past_foreign_probed [simp]: "past_foreign F nxt \<Longrightarrow> past_foreign F (probed ep nxt p)"
  by (cases p) auto

lemma race_inv_foreign: "race_inv F w \<Longrightarrow> ra_owner w i = Some ForeignOwner \<longleftrightarrow> i \<in> F"
  and race_inv_context: "race_inv F w \<Longrightarrow> ra_owner w i = Some (ContextOwner c) \<longleftrightarrow> claim_of (ra_phase w c) = Some i"
  and race_inv_past: "race_inv F w \<Longrightarrow> past_foreign F (ra_phase w c)"
  and race_inv_in_use: "race_inv F w \<Longrightarrow> ra_phase w c = ProbeInUse i \<Longrightarrow> ra_owner w i \<noteq> None"
  by (simp_all add: race_inv_def holds_claim del: not_None_eq)

text \<open>A contender steps past a port in use only when a foreign service holds it.\<close>

lemma in_use_step:
  assumes "race_inv F w" and "ra_phase w c = ProbeInUse i" and "probe_finds {} (ra_owner w i) p"
  shows "past_foreign F (acquire_next n (ProbeInUse i) (Probed p))"
proof (cases "ra_owner w i")
  case None
  then show ?thesis using race_inv_in_use [OF assms(1,2)] by simp
next
  case (Some ow)
  have before: "{..<i} \<subseteq> F" using race_inv_past [OF assms(1), of c] assms(2) by simp
  show ?thesis
  proof (cases ow)
    case ForeignOwner
    then have "i \<in> F" using Some race_inv_foreign [OF assms(1)] by simp
    then have "{..<i + 1} \<subseteq> F" using before by (auto simp: less_Suc_eq)
    then show ?thesis by simp
  next
    case (ContextOwner d)
    then have "answers_for_us p" using Some assms(3) by simp
    then have "past_foreign F (probed (AtPort i) nxt p)" for nxt
      by (rule probed_fixed) simp
    then show ?thesis by simp
  qed
qed

lemma race_inv_start:
  assumes "\<And>c. ra_phase w c = ProbeDiscovery \<or> ra_phase w c = Scan 0"
    and "\<And>i. ra_owner w i = None \<or> ra_owner w i = Some ForeignOwner"
  shows "race_inv {i. ra_owner w i = Some ForeignOwner} w"
proof -
  have "claim_of (ra_phase w c) = None" "past_foreign F (ra_phase w c)" "ra_phase w c \<noteq> ProbeInUse i" for c i F
    using assms(1) [of c] by auto
  moreover have "ra_owner w i \<noteq> Some (ContextOwner c)" for i c using assms(2) [of i] by auto
  ultimately show ?thesis by (simp add: race_inv_def holds_claim)
qed

lemma past_foreign_mono: "past_foreign F ph \<Longrightarrow> F \<subseteq> G \<Longrightarrow> past_foreign G ph"
  by (auto simp: past_foreign_def)

lemma race_inv_takes:
  assumes "race_inv F w" and "ra_owner w i = None"
  shows "race_inv (Set.insert i F) (w\<lparr>ra_owner := (ra_owner w)(i := Some ForeignOwner)\<rparr>)"
proof -
  have "claim_of (ra_phase w c) \<noteq> Some i" for c using race_inv_context [OF assms(1), of i c] assms(2) by simp
  then show ?thesis using assms
    by (auto simp: race_inv_def holds_claim intro: past_foreign_mono [of F] simp del: not_None_eq)
qed

lemma race_inv_act:
  assumes inv: "race_inv F w" and a: "race_action {} n w c a owners"
  shows "race_inv F (act n w c a owners)"
proof -
  have keep: "race_inv F (act n w c b (ra_owner w))"
    if "claim_of (acquire_next n (ra_phase w c) b) = claim_of (ra_phase w c)"
      and "past_foreign F (acquire_next n (ra_phase w c) b)"
      and "\<And>i. acquire_next n (ra_phase w c) b = ProbeInUse i \<Longrightarrow> ra_owner w i \<noteq> None" for b
    using inv that by (auto simp: race_inv_def act_def holds_claim)
  have past: "past_foreign F (ra_phase w c)" using inv by (simp add: race_inv_def)
  from a show ?thesis
  proof cases
    case (act_in_use i p)
    have "past_foreign F (acquire_next n (ra_phase w c) a)"
      unfolding act_in_use(1,3) by (rule in_use_step [OF inv act_in_use(3,4)])
    then show ?thesis unfolding act_in_use(2)
      by (rule keep [rotated]) (use act_in_use in simp_all)
  next
    case (act_bound i)
    have "i \<notin> F" "claim_of (ra_phase w d) \<noteq> Some i" for d
      using race_inv_foreign [OF inv, of i] race_inv_context [OF inv, of i d] act_bound(4) by simp_all
    then show ?thesis using inv past act_bound
      by (auto simp: race_inv_def act_def holds_claim)
  next
    case (act_refresh ep r)
    show ?thesis unfolding act_refresh(2)
      by (rule keep; cases r) (use act_refresh in simp_all)
  qed (use past in \<open>auto intro!: keep\<close>)
qed

lemma race_keeps_inv: "race_reachable ds n w \<Longrightarrow> ds = {} \<Longrightarrow> \<exists>F. race_inv F w"
proof (induction rule: race_reachable.induct)
  case (race_start w)
  then show ?case using race_inv_start [of w] by blast
next
  case (race_act w c a owners)
  then show ?case using race_inv_act by blast
next
  case (race_foreign_takes w i)
  then show ?case using race_inv_takes by blast
qed simp_all


text \<open>Every one of the provisos is needed. A contender that lost the bind, and then finds the port dead or foreign,
  steps to the next one, while a contender behind it binds the port that has become free: both lead.\<close>

lemma act_phase:
  assumes "race_reachable ds n w" and "race_action ds n w c a owners"
    and "w' = \<lparr>ra_owner = owners, ra_phase = (ra_phase w)(c := acquire_next n (ra_phase w c) a)\<rparr>"
  shows "race_reachable ds n w'"
  using race_act [OF assms(1,2)] assms(3) by (simp add: act_def)

lemma scans_two_ports:
  assumes "race_reachable ds 2 \<lparr>ra_owner = O1, ra_phase = ph\<rparr>" and "ph c = Scan 0"
    and "\<And>i. O1 i = None \<or> O1 i = Some ForeignOwner"
  shows "race_reachable ds 2 \<lparr>ra_owner = O1, ra_phase = ph(c := Bind 0)\<rparr>"
proof -
  have dead: "probe_finds ds (O1 i) Dead" for i using assms(3) [of i] by auto
  have "race_reachable ds 2 \<lparr>ra_owner = O1, ra_phase = ph(c := Scan 1)\<rparr>"
    by (rule act_phase [OF assms(1) act_scan [where i = 0 and p = Dead and c = c]]) (simp_all add: assms(2) dead)
  then show ?thesis
    by (rule act_phase [OF _ act_scan [where i = 1 and p = Dead and c = c]]) (simp_all add: assms(2) dead)
qed

lemma claims_a_free_port:
  assumes "race_reachable ds n \<lparr>ra_owner = O1, ra_phase = ph\<rparr>" and "ph c = Bind i" and "O1 i = None"
  shows "race_reachable ds n \<lparr>ra_owner = O1(i := Some (ContextOwner c)), ra_phase = ph(c := Publish i)\<rparr>"
  by (rule act_phase [OF assms(1) act_bound [where i = i and c = c]]) (simp_all add: assms)

lemma binds_a_free_port:
  assumes "race_reachable ds n \<lparr>ra_owner = O1, ra_phase = ph\<rparr>" and "ph c = Bind i" and "O1 i = None"
  shows "race_reachable ds n \<lparr>ra_owner = O1(i := Some (ContextOwner c)), ra_phase = ph(c := Leading i)\<rparr>"
  by (rule act_phase [OF claims_a_free_port [OF assms] act_published [where i = i and c = c]]) simp_all

text \<open>Three contenders about to bind, with the two ports free or the first one foreign.\<close>

lemma three_at_bind:
  assumes "\<And>i. O1 i = None \<or> O1 i = Some ForeignOwner"
  shows "race_reachable ds 2 \<lparr>ra_owner = O1, ra_phase = (\<lambda>_. Scan 0)(0 := Bind 0, 1 := Bind 0, 2 := Bind 0)\<rparr>"
proof -
  have "race_reachable ds 2 \<lparr>ra_owner = O1, ra_phase = (\<lambda>_. Scan 0)\<rparr>" by (rule race_start) (use assms in simp_all)
  then show ?thesis by (intro scans_two_ports) (use assms in simp_all)
qed

text \<open>From the first port free again and a contender past it, two lead.\<close>

lemma split_from:
  assumes "race_reachable ds 2 \<lparr>ra_owner = O1, ra_phase = ph\<rparr>" and "ph 1 = Bind 1" "ph 2 = Bind 0"
    and "O1 0 = None" "O1 1 = None"
  shows "\<exists>w. race_reachable ds 2 w \<and> ra_phase w 1 = Leading 1 \<and> ra_phase w 2 = Leading 0"
proof -
  have "race_reachable ds 2 \<lparr>ra_owner = O1(1 := Some (ContextOwner 1)), ra_phase = ph(1 := Leading 1)\<rparr>"
    by (rule binds_a_free_port [OF assms(1,2,5)])
  then have "race_reachable ds 2 \<lparr>ra_owner = O1(1 := Some (ContextOwner 1), 0 := Some (ContextOwner 2)),
      ra_phase = ph(1 := Leading 1, 2 := Leading 0)\<rparr>"
    by (rule binds_a_free_port) (use assms in simp_all)
  then show ?thesis by (intro exI) (erule conjI, simp)
qed

text \<open>The state after contender 0 took the first port and contender 1 found it in use.\<close>

lemma one_holds_one_waits:
  assumes "ph = (\<lambda>_. Scan 0)(0 := Publish 0, 1 := ProbeInUse 0, 2 := Bind 0)"
  shows "race_reachable ds 2 \<lparr>ra_owner = (\<lambda>_. None)(0 := Some (ContextOwner 0)), ra_phase = ph\<rparr>"
proof -
  have "race_reachable ds 2 \<lparr>ra_owner = (\<lambda>_. None)(0 := Some (ContextOwner 0)),
      ra_phase = ((\<lambda>_. Scan 0)(0 := Bind 0, 1 := Bind 0, 2 := Bind 0))(0 := Publish 0)\<rparr>"
    by (rule claims_a_free_port [OF three_at_bind]) simp_all
  then show ?thesis
    by (rule act_phase [OF _ act_taken [where i = 0 and c = 1]]) (simp_all add: assms fun_eq_iff)
qed

lemma steps_past_a_dead_port:
  assumes "race_reachable ds 2 \<lparr>ra_owner = (\<lambda>_. None), ra_phase = ph\<rparr>" and "ph 1 = ProbeInUse 0" and "ph 2 = Bind 0"
  shows "\<exists>w. race_reachable ds 2 w \<and> ra_phase w 1 = Leading 1 \<and> ra_phase w 2 = Leading 0"
proof (rule split_from)
  show "race_reachable ds 2 \<lparr>ra_owner = (\<lambda>_. None), ra_phase = ph(1 := Bind 1)\<rparr>"
    by (rule act_phase [OF assms(1) act_in_use [where i = 0 and p = Dead and c = 1]])
      (simp_all add: assms(2) [simplified])
qed (use assms in simp_all)

lemma leader_death_can_split_the_context:
  "\<exists>w. race_reachable {LeaderDies} 2 w \<and> ra_phase w 1 = Leading 1 \<and> ra_phase w 2 = Leading 0"
proof (rule steps_past_a_dead_port)
  let ?ph = "(\<lambda>_. Scan 0)(0 := Publish 0, 1 := ProbeInUse 0, 2 := Bind 0)"
  have "race_reachable {LeaderDies} 2 \<lparr>ra_owner = (\<lambda>_. None)(0 := Some (ContextOwner 0)), ra_phase = ?ph(0 := Leading 0)\<rparr>"
    by (rule act_phase [OF one_holds_one_waits [OF refl] act_published [where i = 0 and c = 0]]) simp_all
  from race_death [OF this, of 0 0]
  show "race_reachable {LeaderDies} 2 \<lparr>ra_owner = (\<lambda>_. None), ra_phase = ?ph(0 := Failed LeaderBusy)\<rparr>"
    by (simp add: fun_upd_idem)
qed simp_all

lemma failed_publish_can_split_the_context:
  "\<exists>w. race_reachable {PublishFails} 2 w \<and> ra_phase w 1 = Leading 1 \<and> ra_phase w 2 = Leading 0"
proof (rule steps_past_a_dead_port)
  let ?ph = "(\<lambda>_. Scan 0)(0 := Publish 0, 1 := ProbeInUse 0, 2 := Bind 0)"
  show "race_reachable {PublishFails} 2 \<lparr>ra_owner = (\<lambda>_. None), ra_phase = ?ph(0 := Failed (AcquireIo []))\<rparr>"
    by (rule act_phase [OF one_holds_one_waits [OF refl] act_unpublished [where i = 0 and c = 0 and e = "[]"]])
      (simp_all add: fun_eq_iff)
qed simp_all

lemma unrecognised_leader_can_split_the_context:
  "\<exists>w. race_reachable {LeaderUnrecognised} 2 w \<and> ra_phase w 0 = Leading 0 \<and> ra_phase w 1 = Leading 1"
proof -
  let ?R = "race_reachable {LeaderUnrecognised} 2" and ?o = "(\<lambda>_. None)(0 := Some (ContextOwner 0))"
    and ?ph = "(\<lambda>_. Scan 0)(0 := Publish 0, 1 := ProbeInUse 0, 2 := Bind 0)"
  have "?R \<lparr>ra_owner = ?o, ra_phase = ?ph(0 := Leading 0)\<rparr>"
    by (rule act_phase [OF one_holds_one_waits [OF refl] act_published [where i = 0 and c = 0]]) simp_all
  then have "?R \<lparr>ra_owner = ?o, ra_phase = ?ph(0 := Leading 0, 1 := Bind 1)\<rparr>"
    by (rule act_phase [OF _ act_in_use [where i = 0 and p = Foreign and c = 1]]) simp_all
  then have "?R \<lparr>ra_owner = ?o(1 := Some (ContextOwner 1)), ra_phase = ?ph(0 := Leading 0, 1 := Bind 1, 1 := Leading 1)\<rparr>"
    by (rule binds_a_free_port) simp_all
  then show ?thesis by (intro exI) (erule conjI, simp)
qed

lemma released_port_can_split_the_context:
  "\<exists>w. race_reachable {ForeignReleases} 2 w \<and> ra_phase w 1 = Leading 1 \<and> ra_phase w 2 = Leading 0"
proof (rule split_from)
  let ?R = "race_reachable {ForeignReleases} 2" and ?o = "(\<lambda>_. None)(0 := Some ForeignOwner)"
    and ?ph = "(\<lambda>_. Scan 0)(0 := Bind 0, 1 := Bind 0, 2 := Bind 0)"
  have "?R \<lparr>ra_owner = ?o, ra_phase = ?ph\<rparr>" by (rule three_at_bind) simp
  then have "?R \<lparr>ra_owner = ?o, ra_phase = ?ph(1 := ProbeInUse 0)\<rparr>"
    by (rule act_phase [OF _ act_taken [where i = 0 and c = 1]]) simp_all
  then have "?R \<lparr>ra_owner = ?o, ra_phase = ?ph(1 := Bind 1)\<rparr>"
    by (rule act_phase [OF _ act_in_use [where i = 0 and p = Foreign and c = 1]]) simp_all
  from race_foreign_leaves [OF this, of 0]
  show "?R \<lparr>ra_owner = (\<lambda>_. None), ra_phase = ?ph(1 := Bind 1)\<rparr>" by (simp add: fun_upd_idem)
qed simp_all

text \<open>Witnesses: a busy leader on the second port, a leader answering a hello, and a race won on a port
  past a foreign service.\<close>

definition busy_second_port :: acquire_env where
  "busy_second_port = \<lparr>ae_probe = (\<lambda>k ep j. if ep = AtPort 1 then Busy else Dead), ae_bind = (\<lambda>k i. Bound),
    ae_refresh = (\<lambda>ep. []), ae_publish = (\<lambda>i. None)\<rparr>"

lemma wins_past_a_foreign_port: "\<exists>w. race_reachable {} 2 w \<and> ra_phase w 0 = Leading 1"
proof -
  let ?R = "race_reachable {} 2" and ?o = "(\<lambda>_. None)(0 := Some ForeignOwner)"
    and ?ph = "(\<lambda>_. Scan 0)(0 := Bind 0, 1 := Bind 0, 2 := Bind 0)"
  have "?R \<lparr>ra_owner = ?o, ra_phase = ?ph\<rparr>" by (rule three_at_bind) simp
  then have "?R \<lparr>ra_owner = ?o, ra_phase = ?ph(0 := ProbeInUse 0)\<rparr>"
    by (rule act_phase [OF _ act_taken [where i = 0 and c = 0]]) simp_all
  then have "?R \<lparr>ra_owner = ?o, ra_phase = ?ph(0 := Bind 1)\<rparr>"
    by (rule act_phase [OF _ act_in_use [where i = 0 and p = Foreign and c = 0]]) simp_all
  then have "?R \<lparr>ra_owner = ?o(1 := Some (ContextOwner 0)), ra_phase = ?ph(0 := Bind 1, 0 := Leading 1)\<rparr>"
    by (rule binds_a_free_port) simp_all
  then show ?thesis by (intro exI) (erule conjI, simp)
qed


end
