(* ===== verification/LeaderHost.thy ===== *)
theory LeaderHost
  imports Acquire "HOL-Library.Multiset"
begin

text \<open>The leader's endpoint, \<^verbatim>\<open>mandala-context/src/host.rs\<close>. A connection is the state of its tasks: the
  reader (\<^verbatim>\<open>serve_conn\<close>), a task per call, and the writer that owns the socket. \<open>conn_step\<close> is what one
  of them does next, with the change it makes to the host's count of unsettled calls; \<open>host_step\<close>
  adds the accept loop, token rotation and the two phases of \<^verbatim>\<open>shutdown\<close>. The messages between the
  tasks go through a queue of 64 frames; a task that finds it full waits. Subscriptions and
  heartbeats appear as the frames they send.\<close>

section \<open>A connection\<close>

definition CHANNEL_CAPACITY :: nat where
  "CHANNEL_CAPACITY = 64"

text \<open>A task that has a frame to send, or a call that executes. Call tasks carry the origin the
  leader labels the call with.\<close>

datatype conn_task = Executing "64 word" string string "(string \<times> json) list" | Sending frame

datatype reader = AwaitingHello | Reading | ReaderDone

record conn =
  cn_reader :: reader
  cn_client :: string
  cn_tasks :: "conn_task list"
  cn_in_flight :: nat
  cn_forwarders :: nat
  cn_queue :: "frame list"
  cn_open :: bool
  cn_broken :: bool
  cn_written :: "frame list"
  cn_accepted :: "64 word list"
  cn_lost :: "frame list"
  cn_panicked :: "64 word list"

text \<open>The last three are not in the code: the calls accepted so far, the results that found no socket,
  and the calls whose execution panicked.\<close>

definition new_conn :: conn where
  "new_conn = \<lparr>cn_reader = AwaitingHello, cn_client = [], cn_tasks = [], cn_in_flight = 0, cn_forwarders = 0, cn_queue = [],
    cn_open = True, cn_broken = False, cn_written = [], cn_accepted = [], cn_lost = [], cn_panicked = []\<rparr>"

fun is_result :: "frame \<Rightarrow> bool" where
  "is_result (CallResult _ _ _ _) = True"
| "is_result _ = False"

fun result_id :: "frame \<Rightarrow> 64 word" where
  "result_id (CallResult n _ _ _) = n"
| "result_id _ = 0"

record conn_env =
  ce_decode :: "string \<Rightarrow> (string, frame) result"
  ce_encode :: "frame \<Rightarrow> (string, string) result"
  ce_flake :: string
  ce_pid :: "32 word"

text \<open>What the tasks of a connection do. \<open>LineArrives\<close> carries the token that the host accepts then;
  \<open>Dispatched\<close> the position of a call task and what its execution gave; \<open>Sends\<close> the position of a
  task whose turn it is; \<open>Writes\<close> whether the socket took the line. The writer stops when the host
  shuts down or when it has no sender left.\<close>

datatype conn_event =
    LineArrives string string
  | PeerGone
  | Dispatched nat "(string, json) result"
  | Panics nat
  | Sends nat
  | Publishes json
  | HeartbeatTick
  | Writes bool
  | WriterStops

definition spawn_send :: "frame \<Rightarrow> conn \<Rightarrow> conn" where
  "spawn_send f c = c\<lparr>cn_tasks := cn_tasks c @ [Sending f]\<rparr>"

definition call_frame :: "64 word \<Rightarrow> (string, json) result \<Rightarrow> frame" where
  "call_frame n outcome =
    (case outcome of
       Inr v \<Rightarrow> CallResult n True (Some v) None
     | Inl e \<Rightarrow> CallResult n False None (Some e))"

definition on_hello :: "conn_env \<Rightarrow> string \<Rightarrow> string \<Rightarrow> conn \<Rightarrow> conn" where
  "on_hello env token line c =
    (case answer_hello (ce_decode env) token (ce_flake env) (ce_pid env) line of
       (f, Some client) \<Rightarrow> (spawn_send f c)\<lparr>cn_reader := Reading, cn_client := client\<rparr>
     | (f, None) \<Rightarrow> (spawn_send f c)\<lparr>cn_reader := ReaderDone\<rparr>)"

definition on_line :: "conn_env \<Rightarrow> string \<Rightarrow> conn \<Rightarrow> conn \<times> int" where
  "on_line env line c =
    (if trim line = [] then (c, 0)
     else
       (case ce_decode env line of
          Inr (Call n tool args) \<Rightarrow>
            (c\<lparr>cn_in_flight := cn_in_flight c + 1, cn_accepted := cn_accepted c @ [n],
              cn_tasks := cn_tasks c @ [Executing n (cn_client c) tool args]\<rparr>, 1)
        | Inr Subscribe \<Rightarrow> ((spawn_send Subscribed c)\<lparr>cn_forwarders := cn_forwarders c + 1\<rparr>, 0)
        | Inr Ping \<Rightarrow> (spawn_send Pong c, 0)
        | Inr _ \<Rightarrow> (spawn_send (ErrorFrame ''unexpected frame'' None) c, 0)
        | Inl e \<Rightarrow> (spawn_send (ErrorFrame (''bad frame: '' @ e) None) c, 0)))"

definition drop_nth :: "nat \<Rightarrow> 'a list \<Rightarrow> 'a list" where
  "drop_nth i xs = take i xs @ drop (i + 1) xs"

text \<open>How many of the frames settle a call.\<close>

definition results_in :: "frame list \<Rightarrow> frame list" where
  "results_in fs = filter is_result fs"

definition send_task :: "nat \<Rightarrow> frame \<Rightarrow> conn \<Rightarrow> conn \<times> int" where
  "send_task i f c =
    (if \<not> cn_open c then
       (c\<lparr>cn_tasks := drop_nth i (cn_tasks c), cn_lost := cn_lost c @ results_in [f]\<rparr>,
        if is_result f then -1 else 0)
     else if CHANNEL_CAPACITY \<le> length (cn_queue c) then (c, 0)
     else (c\<lparr>cn_tasks := drop_nth i (cn_tasks c), cn_queue := cn_queue c @ [f]\<rparr>, 0))"

definition write_frame :: "conn_env \<Rightarrow> bool \<Rightarrow> frame \<Rightarrow> conn \<Rightarrow> conn" where
  "write_frame env taken f c =
    (case ce_encode env f of
       Inr line \<Rightarrow>
         if cn_broken c then c\<lparr>cn_lost := cn_lost c @ results_in [f]\<rparr>
         else if taken then c\<lparr>cn_written := cn_written c @ [f]\<rparr>
         else c\<lparr>cn_broken := True, cn_lost := cn_lost c @ results_in [f]\<rparr>
     | Inl _ \<Rightarrow> c\<lparr>cn_lost := cn_lost c @ results_in [f]\<rparr>)"

definition write_next :: "conn_env \<Rightarrow> bool \<Rightarrow> conn \<Rightarrow> conn \<times> int" where
  "write_next env taken c =
    (case cn_queue c of
       [] \<Rightarrow> (c, 0)
     | f # fs \<Rightarrow> (write_frame env taken f (c\<lparr>cn_queue := fs\<rparr>), if is_result f then -1 else 0))"

definition writer_stops :: "bool \<Rightarrow> conn \<Rightarrow> conn \<times> int" where
  "writer_stops down c =
    (if down \<or> (cn_queue c = [] \<and> cn_tasks c = [] \<and> cn_reader c = ReaderDone) then
       (c\<lparr>cn_open := False, cn_queue := [], cn_lost := cn_lost c @ results_in (cn_queue c)\<rparr>,
        - int (length (results_in (cn_queue c))))
     else (c, 0))"

text \<open>One step of a connection, while the host is \<open>down\<close> or not.\<close>

definition conn_step :: "conn_env \<Rightarrow> bool \<Rightarrow> conn_event \<Rightarrow> conn \<Rightarrow> conn \<times> int" where
  "conn_step env down ev c =
    (case ev of
       LineArrives token line \<Rightarrow>
         (case cn_reader c of
            AwaitingHello \<Rightarrow> (on_hello env token line c, 0)
          | Reading \<Rightarrow> on_line env line c
          | ReaderDone \<Rightarrow> (c, 0))
     | PeerGone \<Rightarrow> (c\<lparr>cn_reader := ReaderDone\<rparr>, 0)
     | Dispatched i outcome \<Rightarrow>
         if i < length (cn_tasks c) then
           (case cn_tasks c ! i of
              Executing n _ _ _ \<Rightarrow>
                (c\<lparr>cn_in_flight := cn_in_flight c - 1, cn_tasks := (cn_tasks c)[i := Sending (call_frame n outcome)]\<rparr>, 0)
            | Sending _ \<Rightarrow> (c, 0))
         else (c, 0)
     | Panics i \<Rightarrow>
         if i < length (cn_tasks c) then
           (case cn_tasks c ! i of
              Executing n _ _ _ \<Rightarrow>
                (c\<lparr>cn_tasks := drop_nth i (cn_tasks c), cn_panicked := cn_panicked c @ [n]\<rparr>, 0)
            | Sending _ \<Rightarrow> (c, 0))
         else (c, 0)
     | Sends i \<Rightarrow>
         if i < length (cn_tasks c) then
           (case cn_tasks c ! i of Executing _ _ _ _ \<Rightarrow> (c, 0) | Sending f \<Rightarrow> send_task i f c)
         else (c, 0)
     | Publishes event \<Rightarrow>
         if cn_reader c = Reading \<and> \<not> down \<and> 0 < cn_forwarders c then (spawn_send (EventFrame event) c, 0) else (c, 0)
     | HeartbeatTick \<Rightarrow>
         if cn_reader c = Reading \<and> \<not> down \<and> 0 < cn_in_flight c then (spawn_send Heartbeat c, 0) else (c, 0)
     | Writes taken \<Rightarrow> if cn_open c then write_next env taken c else (c, 0)
     | WriterStops \<Rightarrow> writer_stops down c)"

section \<open>The host\<close>

text \<open>\<open>hs_unsettled\<close> is an integer here, so that a decrement below zero would show.\<close>

record host =
  hs_port :: "16 word"
  hs_token :: string
  hs_flake :: string
  hs_pid :: "32 word"
  hs_conns :: "conn list"
  hs_unsettled :: int
  hs_refusing :: bool
  hs_down :: bool
  hs_claim :: "string option"

definition start_host :: "16 word \<Rightarrow> string \<Rightarrow> string \<Rightarrow> 32 word \<Rightarrow> host" where
  "start_host port token flake pid =
    \<lparr>hs_port = port, hs_token = token, hs_flake = flake, hs_pid = pid, hs_conns = [], hs_unsettled = 0,
      hs_refusing = False, hs_down = False, hs_claim = None\<rparr>"

definition published_at :: "string \<Rightarrow> host \<Rightarrow> host" where
  "published_at key h = h\<lparr>hs_claim := Some key\<rparr>"

definition host_url :: "host \<Rightarrow> string" where
  "host_url h = ''tcp://127.0.0.1:'' @ show_nat (unat (hs_port h))"

definition host_discovery :: "host \<Rightarrow> discovery" where
  "host_discovery h = \<lparr>di_url = host_url h, di_token = hs_token h, di_pid = hs_pid h, di_flake = hs_flake h\<rparr>"

text \<open>\<^verbatim>\<open>rotate_token\<close>: the new token is in force even when the file cannot be rewritten.\<close>

definition rotate_token ::
  "(string \<Rightarrow> discovery \<Rightarrow> file_dir \<Rightarrow> (string, unit) result \<times> file_dir) \<Rightarrow> string \<Rightarrow> host \<Rightarrow> file_dir \<Rightarrow>
    (string, string) result \<times> host \<times> file_dir" where
  "rotate_token put fresh h dir =
    (let h = h\<lparr>hs_token := fresh\<rparr>
     in case hs_claim h of
          None \<Rightarrow> (Inr fresh, h, dir)
        | Some key \<Rightarrow>
            (case put key (host_discovery h) dir of
               (Inl e, dir) \<Rightarrow> (Inl e, h, dir)
             | (Inr _, dir) \<Rightarrow> (Inr fresh, h, dir)))"

text \<open>The last phase of \<^verbatim>\<open>shutdown\<close>: the claim goes when the file still records this leader.\<close>

definition records_us :: "host \<Rightarrow> discovery \<Rightarrow> bool" where
  "records_us h d \<longleftrightarrow> di_pid d = hs_pid h \<and> di_url d = host_url h"

definition release_claim :: "(string \<Rightarrow> discovery option) \<Rightarrow> host \<Rightarrow> file_dir \<Rightarrow> file_dir" where
  "release_claim decode h dir =
    (case hs_claim h of
       None \<Rightarrow> dir
     | Some key \<Rightarrow>
         (case discovery_read decode dir key of
            Some d \<Rightarrow> if records_us h d then bm_remove (discovery_file key) dir else dir
          | None \<Rightarrow> dir))"

text \<open>What the host does: it accepts a connection or lets one of its connections take a step, swaps its
  token, begins to refuse (\<open>BeginShutdown\<close>), polls the drain (\<open>DrainPoll late\<close>, where \<open>late\<close> tells that
  the grace is over), or is dropped.\<close>

datatype host_event =
    Accepts
  | ConnStep nat conn_event
  | RotatesTo string
  | BeginShutdown
  | DrainPoll bool
  | Dropped

definition host_env :: "(string \<Rightarrow> (string, frame) result) \<Rightarrow> (frame \<Rightarrow> (string, string) result) \<Rightarrow> host \<Rightarrow> conn_env" where
  "host_env dec enc h = \<lparr>ce_decode = dec, ce_encode = enc, ce_flake = hs_flake h, ce_pid = hs_pid h\<rparr>"

fun with_token :: "string \<Rightarrow> conn_event \<Rightarrow> conn_event" where
  "with_token token (LineArrives _ line) = LineArrives token line"
| "with_token token ev = ev"

definition on_conn :: "conn_env \<Rightarrow> nat \<Rightarrow> conn_event \<Rightarrow> host \<Rightarrow> host" where
  "on_conn env k ev h =
    (if k < length (hs_conns h) then
       (case conn_step env (hs_down h) (with_token (hs_token h) ev) (hs_conns h ! k) of
          (c, d) \<Rightarrow> h\<lparr>hs_conns := (hs_conns h)[k := c], hs_unsettled := hs_unsettled h + d\<rparr>)
     else h)"

definition host_step ::
  "(string \<Rightarrow> (string, frame) result) \<Rightarrow> (frame \<Rightarrow> (string, string) result) \<Rightarrow> host_event \<Rightarrow> host \<Rightarrow> host" where
  "host_step dec enc ev h =
    (case ev of
       Accepts \<Rightarrow> if hs_refusing h \<or> hs_down h then h else h\<lparr>hs_conns := hs_conns h @ [new_conn]\<rparr>
     | ConnStep k cev \<Rightarrow> on_conn (host_env dec enc h) k cev h
     | RotatesTo token \<Rightarrow> h\<lparr>hs_token := token\<rparr>
     | BeginShutdown \<Rightarrow> h\<lparr>hs_refusing := True\<rparr>
     | DrainPoll late \<Rightarrow>
         if hs_refusing h \<and> (hs_unsettled h \<le> 0 \<or> late) then h\<lparr>hs_down := True\<rparr> else h
     | Dropped \<Rightarrow> h\<lparr>hs_down := True\<rparr>)"

definition host_run ::
  "(string \<Rightarrow> (string, frame) result) \<Rightarrow> (frame \<Rightarrow> (string, string) result) \<Rightarrow> host_event list \<Rightarrow> host \<Rightarrow> host" where
  "host_run dec enc = fold (host_step dec enc)"

section \<open>The count of unsettled calls\<close>

fun task_results :: "conn_task \<Rightarrow> 64 word list" where
  "task_results (Executing n _ _ _) = [n]"
| "task_results (Sending f) = map result_id (results_in [f])"

text \<open>The calls that the count stands for: executing, on their way to the writer, or in its queue.\<close>

definition outstanding :: "conn \<Rightarrow> 64 word multiset" where
  "outstanding c = mset (concat (map task_results (cn_tasks c))) + mset (map result_id (results_in (cn_queue c)))"

definition settled_calls :: "conn \<Rightarrow> 64 word multiset" where
  "settled_calls c = mset (map result_id (results_in (cn_written c))) + mset (map result_id (cn_lost c))"

definition accounted :: "conn \<Rightarrow> bool" where
  "accounted c \<longleftrightarrow> mset (cn_accepted c) = outstanding c + settled_calls c + mset (cn_panicked c) \<and>
    (cn_open c \<and> \<not> cn_broken c \<longrightarrow> cn_lost c = [])"

definition in_count :: "conn \<Rightarrow> int" where
  "in_count c = int (size (outstanding c) + length (cn_panicked c))"

lemma task_results_drop:
  assumes "i < length ts"
  shows "mset (concat (map task_results ts)) =
    mset (task_results (ts ! i)) + mset (concat (map task_results (drop_nth i ts)))"
proof -
  have "ts = take i ts @ ts ! i # drop (i + 1) ts" using assms id_take_nth_drop [of i ts] by simp
  then have "mset (concat (map task_results ts)) =
      mset (concat (map task_results (take i ts @ ts ! i # drop (i + 1) ts)))" by simp
  then show ?thesis by (simp add: drop_nth_def)
qed

lemma task_results_length:
  "i < length ts \<Longrightarrow> length (concat (map task_results ts)) =
    length (task_results (ts ! i)) + length (concat (map task_results (drop_nth i ts)))"
  by (drule task_results_drop, drule arg_cong [where f = size]) (simp only: size_union size_mset)

lemma task_results_update:
  assumes "i < length ts" and "task_results t = task_results (ts ! i)"
  shows "mset (concat (map task_results (ts[i := t]))) = mset (concat (map task_results ts))"
proof -
  have "map task_results (ts[i := t]) = map task_results ts"
    using assms by (simp add: map_update) (metis list_update_id map_update nth_map)
  then show ?thesis by simp
qed

lemma results_in_simps [simp]:
  "results_in [] = []" "results_in (f # fs) = (if is_result f then f # results_in fs else results_in fs)"
  "results_in (fs @ gs) = results_in fs @ results_in gs"
  by (simp_all add: results_in_def)

lemma task_results_sending [simp]: "task_results (Sending f) = (if is_result f then [result_id f] else [])"
  by simp

declare task_results.simps(2) [simp del]

lemma call_frame_result [simp]: "is_result (call_frame n outcome)" "result_id (call_frame n outcome) = n"
  by (cases outcome; simp add: call_frame_def)+

text \<open>The two facts about a step: the count follows the calls, and no call is forgotten.\<close>

definition step_keeps :: "conn \<Rightarrow> conn \<times> int \<Rightarrow> bool" where
  "step_keeps c r \<longleftrightarrow> in_count (fst r) = in_count c + snd r \<and> (accounted c \<longrightarrow> accounted (fst r))"

lemmas keeps_defs = step_keeps_def in_count_def accounted_def outstanding_def settled_calls_def

lemma same_keeps [simp]: "step_keeps c (c, 0)"
  by (simp add: step_keeps_def)

lemma spawn_keeps [simp]: "\<not> is_result f \<Longrightarrow> step_keeps c (spawn_send f c, 0)"
  by (simp add: keeps_defs spawn_send_def)

lemma on_hello_keeps: "step_keeps c (on_hello env token line c, 0)"
  unfolding on_hello_def answer_hello_def
  by (auto simp: keeps_defs spawn_send_def split: sum.split frame.split)

lemma on_line_keeps: "step_keeps c (on_line env line c)"
  unfolding on_line_def
  by (auto simp: keeps_defs spawn_send_def split: sum.split frame.split)

lemma dispatched_keeps:
  assumes "i < length (cn_tasks c)" and "cn_tasks c ! i = Executing n origin tool args"
  shows "step_keeps c (c\<lparr>cn_in_flight := cn_in_flight c - 1, cn_tasks := (cn_tasks c)[i := Sending (call_frame n outcome)]\<rparr>, 0)"
  using task_results_update [OF assms(1), of "Sending (call_frame n outcome)"] assms(2)
  by (simp add: keeps_defs)

lemma panics_keeps:
  assumes "i < length (cn_tasks c)" and "cn_tasks c ! i = Executing n origin tool args"
  shows "step_keeps c (c\<lparr>cn_tasks := drop_nth i (cn_tasks c), cn_panicked := cn_panicked c @ [n]\<rparr>, 0)"
  using task_results_drop [OF assms(1)] assms(2) by (simp add: keeps_defs)

lemma send_task_keeps:
  assumes "i < length (cn_tasks c)" and "cn_tasks c ! i = Sending f"
  shows "step_keeps c (send_task i f c)"
proof (cases "cn_open c \<and> CHANNEL_CAPACITY \<le> length (cn_queue c)")
  case False
  then show ?thesis using task_results_drop [OF assms(1)] task_results_length [OF assms(1)] assms(2)
    by (auto simp: keeps_defs send_task_def)
qed (simp add: send_task_def)

lemma write_next_keeps:
  assumes "\<And>f. is_ok (ce_encode env f)"
  shows "step_keeps c (write_next env taken c)"
proof (cases "cn_queue c")
  case (Cons f fs)
  obtain line where "ce_encode env f = Inr line" using assms [of f] by (cases "ce_encode env f") auto
  then show ?thesis using Cons by (auto simp: keeps_defs write_next_def write_frame_def)
qed (simp add: write_next_def)

lemma writer_stops_keeps: "step_keeps c (writer_stops down c)"
  by (auto simp: keeps_defs writer_stops_def)

lemma conn_step_keeps:
  assumes "\<And>f. is_ok (ce_encode env f)"
  shows "step_keeps c (conn_step env down ev c)"
proof (cases ev)
  case (LineArrives token line)
  then show ?thesis by (simp add: conn_step_def on_hello_keeps on_line_keeps split: reader.split)
next
  case (Dispatched i outcome)
  then show ?thesis by (auto simp: conn_step_def dispatched_keeps [simplified] split: conn_task.split)
next
  case (Panics i)
  then show ?thesis by (auto simp: conn_step_def panics_keeps split: conn_task.split)
next
  case (Sends i)
  then show ?thesis by (auto simp: conn_step_def send_task_keeps split: conn_task.split)
qed (use assms in \<open>auto simp: conn_step_def write_next_keeps writer_stops_keeps, simp_all add: keeps_defs\<close>)

text \<open>The invariant of the host.\<close>

definition host_inv :: "host \<Rightarrow> bool" where
  "host_inv h \<longleftrightarrow> hs_unsettled h = sum_list (map in_count (hs_conns h)) \<and> list_all accounted (hs_conns h)"

lemma in_count_new [simp]: "in_count new_conn = 0" "accounted new_conn"
  by (simp_all add: keeps_defs new_conn_def)

lemma sum_list_update_int: "k < length xs \<Longrightarrow> sum_list (xs[k := x]) = sum_list xs + x - xs ! k" for xs :: "int list"
  by (induction xs arbitrary: k) (auto split: nat.split)

lemma on_conn_inv:
  assumes "\<And>f. is_ok (ce_encode env f)" and "host_inv h"
  shows "host_inv (on_conn env k ev h)"
proof (cases "k < length (hs_conns h)")
  case True
  obtain c d where cd: "conn_step env (hs_down h) (with_token (hs_token h) ev) (hs_conns h ! k) = (c, d)"
    by (rule prod.exhaust)
  have keeps: "in_count c = in_count (hs_conns h ! k) + d" "accounted c"
    using conn_step_keeps [OF assms(1), of "hs_conns h ! k" "hs_down h" "with_token (hs_token h) ev"] assms(2) True
    unfolding cd by (auto simp: step_keeps_def host_inv_def list_all_length)
  then show ?thesis using assms(2) True cd
    by (auto simp: on_conn_def host_inv_def map_update sum_list_update_int list_all_length nth_list_update)
qed (use assms(2) in \<open>simp add: on_conn_def\<close>)

lemma host_step_inv:
  assumes "\<And>f. is_ok (enc f)" and "host_inv h"
  shows "host_inv (host_step dec enc ev h)"
proof (cases ev)
  case (ConnStep k cev)
  then show ?thesis using on_conn_inv [of "host_env dec enc h"] assms by (simp add: host_step_def host_env_def)
qed (use assms(2) in \<open>auto simp: host_step_def host_inv_def\<close>)

lemma host_run_inv:
  "(\<And>f. is_ok (enc f)) \<Longrightarrow> host_inv h \<Longrightarrow> host_inv (host_run dec enc evs h)"
  unfolding host_run_def by (induction evs arbitrary: h) (simp_all add: host_step_inv)

lemma in_count_zero: "in_count c = 0 \<longleftrightarrow> outstanding c = {#} \<and> cn_panicked c = []"
  unfolding in_count_def of_nat_eq_0_iff by simp

lemma in_count_nonneg: "0 \<le> in_count c"
  by (simp add: in_count_def)

text \<open>C17: An orderly shutdown does not cut an answer off: when a poll of the drain, before the grace is
  over, lets the host go down, then on every connection whose socket took all lines and whose writer
  runs, the results written are those of exactly the calls accepted, each once.\<close>

theorem orderly_shutdown_drains:
  fixes dec enc evs port token flake pid
  defines "h \<equiv> host_run dec enc evs (start_host port token flake pid)"
  assumes "\<And>f. is_ok (enc f)" and "\<not> hs_down h" and "hs_down (host_step dec enc (DrainPoll False) h)"
    and "c \<in> set (hs_conns h)" and "cn_open c" and "\<not> cn_broken c"
  shows "mset (map result_id (filter is_result (cn_written c))) = mset (cn_accepted c)"
proof -
  have inv: "host_inv h" unfolding h_def by (rule host_run_inv) (simp_all add: assms(2) start_host_def host_inv_def)
  have "hs_unsettled h \<le> 0" using assms(3,4) by (simp add: host_step_def split: if_splits)
  moreover have "0 \<le> sum_list (map in_count (hs_conns h))"
    by (rule sum_list_nonneg) (auto simp: in_count_nonneg)
  ultimately have "sum_list (map in_count (hs_conns h)) = 0" using inv by (simp add: host_inv_def)
  then have "in_count c = 0"
    using assms(5) in_count_nonneg sum_list_nonneg_eq_0_iff [of "map in_count (hs_conns h)"] by auto
  then have "outstanding c = {#}" "cn_panicked c = []" by (simp_all add: in_count_zero)
  moreover have "accounted c" using inv assms(5) by (simp add: host_inv_def list_all_iff)
  ultimately show ?thesis using assms(6,7) by (simp add: accounted_def settled_calls_def results_in_def)
qed

section \<open>Nothing is served before the token\<close>

definition conn_run :: "conn_env \<Rightarrow> bool \<Rightarrow> conn_event list \<Rightarrow> conn \<Rightarrow> conn" where
  "conn_run env down = fold (\<lambda>ev c. fst (conn_step env down ev c))"

fun has_origin :: "string \<Rightarrow> conn_task \<Rightarrow> bool" where
  "has_origin client (Executing _ origin _ _) = (origin = client)"
| "has_origin client (Sending _) = True"

definition presented :: "conn_env \<Rightarrow> conn_event list \<Rightarrow> string \<Rightarrow> bool" where
  "presented env evs client \<longleftrightarrow>
    (\<exists>token line v f. LineArrives token line \<in> set evs \<and> ce_decode env line = Inr (Hello v token client f))"

definition vouched :: "conn_env \<Rightarrow> conn_event list \<Rightarrow> conn \<Rightarrow> bool" where
  "vouched env evs c \<longleftrightarrow> list_all (has_origin (cn_client c)) (cn_tasks c) \<and>
    (cn_reader c = AwaitingHello \<longrightarrow> (\<forall>client. list_all (has_origin client) (cn_tasks c))) \<and>
    (presented env evs (cn_client c) \<or>
      cn_reader c \<noteq> Reading \<and> cn_accepted c = [] \<and> (\<forall>client. list_all (has_origin client) (cn_tasks c)))"

lemma list_all_drop_nth: "list_all P xs \<Longrightarrow> list_all P (drop_nth i xs)"
  by (metis (mono_tags, lifting) Un_iff drop_nth_def in_set_dropD in_set_takeD list_all_iff set_append)

lemma list_all_set_nth: "list_all P xs \<Longrightarrow> P y \<Longrightarrow> list_all P (xs[i := y])"
  by (cases "i < length xs") (auto simp: list_all_length nth_list_update)

lemma presented_more: "presented env evs client \<Longrightarrow> presented env (evs @ [ev]) client"
  by (auto simp: presented_def)

lemma vouched_keep:
  assumes "vouched env evs c" and "cn_client c' = cn_client c" and "cn_accepted c' = cn_accepted c"
    and "cn_reader c' \<in> {cn_reader c, ReaderDone}"
    and "\<And>client. list_all (has_origin client) (cn_tasks c) \<Longrightarrow> list_all (has_origin client) (cn_tasks c')"
  shows "vouched env (evs @ [ev]) c'"
  using assms presented_more [of env evs "cn_client c" ev] by (auto simp: vouched_def)

lemma conn_step_vouched:
  assumes "vouched env evs c"
  shows "vouched env (evs @ [ev]) (fst (conn_step env down ev c))"
proof (cases ev)
  case (LineArrives token line)
  show ?thesis
  proof (cases "cn_reader c")
    case AwaitingHello
    have hello: "presented env (evs @ [ev]) client"
      if "ce_decode env line = Inr (Hello v token client f)" for v client f
      using that LineArrives by (auto simp: presented_def)
    have step: "fst (conn_step env down ev c) = on_hello env token line c"
      using LineArrives AwaitingHello by (simp add: conn_step_def)
    show ?thesis
    proof (cases "answer_hello (ce_decode env) token (ce_flake env) (ce_pid env) line")
      case (Pair f served)
      show ?thesis
      proof (cases served)
        case None
        then show ?thesis unfolding step using Pair
          by (intro vouched_keep [OF assms]) (simp_all add: on_hello_def spawn_send_def)
      next
        case (Some client)
        then have "\<exists>v f. ce_decode env line = Inr (Hello v token client f)"
          using Pair by (auto simp: answer_hello_def split: sum.splits frame.splits if_splits)
        moreover have "list_all (has_origin client) (cn_tasks c)" using assms AwaitingHello by (simp add: vouched_def)
        ultimately show ?thesis unfolding step using Pair Some hello
          by (auto simp: vouched_def on_hello_def spawn_send_def)
      qed
    qed
  next
    case Reading
    then have "presented env evs (cn_client c)" using assms by (simp add: vouched_def)
    then have "presented env (evs @ [ev]) (cn_client c)" by (rule presented_more)
    then show ?thesis using assms LineArrives Reading
      by (auto simp: vouched_def conn_step_def on_line_def spawn_send_def split: sum.split frame.split)
  next
    case ReaderDone
    show ?thesis using LineArrives ReaderDone by (simp add: conn_step_def vouched_keep [OF assms])
  qed
next
  case (Dispatched i outcome)
  then show ?thesis
    by (intro vouched_keep [OF assms]) (auto simp: conn_step_def list_all_set_nth split: conn_task.split)
next
  case (Panics i)
  then show ?thesis
    by (intro vouched_keep [OF assms]) (auto simp: conn_step_def list_all_drop_nth split: conn_task.split)
next
  case (Sends i)
  then show ?thesis
    by (intro vouched_keep [OF assms]) (auto simp: conn_step_def send_task_def list_all_drop_nth split: conn_task.split)
next
  case (Writes taken)
  then show ?thesis
    by (intro vouched_keep [OF assms])
      (auto simp: conn_step_def write_next_def write_frame_def split: list.split sum.split)
qed (intro vouched_keep [OF assms]; simp add: conn_step_def spawn_send_def writer_stops_def)+

lemma conn_run_vouched: "vouched env seen c \<Longrightarrow> vouched env (seen @ evs) (conn_run env down evs c)"
proof (induction evs arbitrary: seen c)
  case (Cons ev evs)
  from Cons.IH [OF conn_step_vouched [OF Cons.prems]] show ?case by (simp add: conn_run_def)
qed (simp add: conn_run_def)

text \<open>Nothing is served before the token: a connection that has accepted a call has presented the
  token in force at its hello, and every call it executes is labelled with the client of a hello.\<close>

lemma calls_need_the_token:
  assumes "cn_accepted (conn_run env down evs new_conn) \<noteq> []"
  shows "\<exists>token line v client f. LineArrives token line \<in> set evs \<and>
    ce_decode env line = Inr (Hello v token client f) \<and>
    list_all (has_origin client) (cn_tasks (conn_run env down evs new_conn))"
proof -
  have "vouched env ([] @ evs) (conn_run env down evs new_conn)"
    by (rule conn_run_vouched) (simp add: vouched_def new_conn_def)
  then have "presented env evs (cn_client (conn_run env down evs new_conn))"
    and "list_all (has_origin (cn_client (conn_run env down evs new_conn))) (cn_tasks (conn_run env down evs new_conn))"
    using assms by (simp_all add: vouched_def)
  then show ?thesis unfolding presented_def by blast
qed

section \<open>The claim\<close>

text \<open>A leader that goes removes its own discovery file and no other: after the release the file is gone
  when it recorded this leader's process and address, and otherwise nothing has changed.\<close>

lemma release_spares_other_leaders:
  assumes "hs_claim h = Some key" and "discovery_read decode dir key = Some d"
  shows "map_of (release_claim decode h dir) name =
    (if records_us h d \<and> name = discovery_file key then None else map_of dir name)"
  using assms by (simp add: release_claim_def map_of_bm_remove)

text \<open>After a token rotation that succeeded, a joiner that reads the discovery file finds the token that
  the leader now accepts, and is welcomed with it at the leader's address.\<close>

lemma rotation_reaches_the_joiners:
  fixes h
  assumes "hs_claim h = Some key"
    and "rotate_token (\<lambda>key d dir. discovery_write ser io pid n key d dir) fresh h dir = (Inr token, h', dir')"
    and "\<And>d body. ser (discovery_value d) = Inr body \<Longrightarrow> utf8_valid body \<and> parse body = Some d"
    and "\<And>f. enc f = Inr (wire f) \<and> dec (wire f) = Inr f"
  shows "\<exists>d :: discovery. discovery_read parse dir' key = Some d \<and> records_us h' d \<and>
    classify (hs_flake h) (connect enc dec dbg None
      (\<lambda>line. FirstLine (wire (fst (answer_hello dec (hs_token h') (hs_flake h') (hs_pid h') line))))
      (di_token d) name (hs_flake h)) = OurLeader (hs_pid h)"
proof -
  let ?h = "h\<lparr>hs_token := fresh\<rparr>"
  have w: "discovery_write ser io pid n key (host_discovery ?h) dir = (Inr (), dir')" and h': "h' = ?h"
    using assms(1,2) by (auto simp: rotate_token_def Let_def split: prod.splits sum.splits)
  obtain body where body: "ser (discovery_value (host_discovery ?h)) = Inr body" "map_of dir' (discovery_file key) = Some body"
    using discovery_write_contents [OF w] by blast
  have "discovery_read parse dir' key = Some (host_discovery ?h)"
    using assms(3) [OF body(1)] body(2) by (simp add: discovery_read_def opt_filter_def)
  moreover have "records_us h' (host_discovery ?h)" by (simp add: h' records_us_def host_discovery_def host_url_def)
  ultimately show ?thesis using assms(4)
    by (auto simp: connect_def answer_hello_def first_frame_def classify_def h' host_discovery_def)
qed

section \<open>Witnesses\<close>

text \<open>A client says hello, calls a tool and gets the result; then the host drains.\<close>

definition sample_frames :: "string \<Rightarrow> (string, frame) result" where
  "sample_frames line =
    (if line = ''h'' then Inr (Hello 1 ''t'' ''tui'' ''/f'')
     else if line = ''c'' then Inr (Call 1 ''fleet_status'' []) else Inl ''bad'')"

definition sample_conn_env :: conn_env where
  "sample_conn_env = \<lparr>ce_decode = sample_frames, ce_encode = (\<lambda>_. Inr []), ce_flake = ''/f'', ce_pid = 7\<rparr>"

lemma sample_trims: "trim ''c'' = ''c''"
  by code_simp

definition sample_host_events :: "host_event list" where
  "sample_host_events = [Accepts, ConnStep 0 (LineArrives [] ''h''), ConnStep 0 (Sends 0), ConnStep 0 (Writes True),
    ConnStep 0 (LineArrives [] ''c''), BeginShutdown, DrainPoll False, ConnStep 0 (Dispatched 0 (Inr JNull)),
    ConnStep 0 (Sends 0), ConnStep 0 (Writes True)]"

definition sample_served :: conn where
  "sample_served = \<lparr>cn_reader = Reading, cn_client = ''tui'', cn_tasks = [], cn_in_flight = 0, cn_forwarders = 0, cn_queue = [],
    cn_open = True, cn_broken = False, cn_written = [Welcome 1 ''/f'' 7, CallResult 1 True (Some JNull) None], cn_accepted = [1],
    cn_lost = [], cn_panicked = []\<rparr>"

lemma sample_host_run:
  "host_run sample_frames (\<lambda>_. Inr []) sample_host_events (start_host 27199 ''t'' ''/f'' 7) =
    \<lparr>hs_port = 27199, hs_token = ''t'', hs_flake = ''/f'', hs_pid = 7, hs_conns = [sample_served], hs_unsettled = 0,
      hs_refusing = True, hs_down = False, hs_claim = None\<rparr>"
  by (simp add: sample_host_events_def host_run_def host_step_def start_host_def on_conn_def conn_step_def
      new_conn_def on_hello_def answer_hello_def host_env_def sample_frames_def spawn_send_def on_line_def sample_trims
      send_task_def CHANNEL_CAPACITY_def write_next_def write_frame_def drop_nth_def call_frame_def sample_served_def
      PROTOCOL_VERSION_def)

lemma orderly_shutdown_drains_witness:
  "mset (map result_id (filter is_result (cn_written sample_served))) = mset (cn_accepted sample_served)"
  by (rule orderly_shutdown_drains [of "\<lambda>_. Inr []" sample_frames sample_host_events 27199 "''t''" "''/f''" 7])
    (simp_all only: sample_host_run, simp_all add: host_step_def sample_served_def)

end
