(* ===== verification/FleetSession.thy ===== *)
theory FleetSession
  imports LeaderHost
begin

text \<open>The joining side after the handshake. The first half is \<^verbatim>\<open>client.rs\<close>: the waiters of one connection,
  which the reader task settles. The second is \<^verbatim>\<open>fleet.rs\<close>: the session that all callers of a process
  share, its role, and the retry discipline of a call whose leader dies under it.\<close>

section \<open>The waiters of a connection\<close>

datatype call_failure = ToolFailure string | ConnectionLost

fun show_call_failure :: "call_failure \<Rightarrow> string" where
  "show_call_failure (ToolFailure e) = e"
| "show_call_failure ConnectionLost = ''context connection closed''"

type_synonym call_outcome = "(call_failure, json) result"

definition EVENTS_CAPACITY :: nat where
  "EVENTS_CAPACITY = 256"

text \<open>\<open>cl_returned\<close> is what the calls of this client have returned, by id. A pending ping or subscription is
  the number of its caller; the events wait in a queue of 256. \<open>cl_sent\<close> is what went to the writer.\<close>

record client =
  cl_calls :: "64 word list"
  cl_ping :: "nat option"
  cl_subscribed :: "nat option"
  cl_events :: "json list option"
  cl_closed :: bool
  cl_heartbeats :: "64 word"
  cl_next_id :: "64 word"
  cl_sent :: "frame list"
  cl_issued :: "64 word list"
  cl_returned :: "64 word \<Rightarrow> call_outcome option"
  cl_pinged :: "nat \<Rightarrow> bool option"

definition joined_client :: client where
  "joined_client = \<lparr>cl_calls = [], cl_ping = None, cl_subscribed = None, cl_events = None, cl_closed = False,
    cl_heartbeats = 0, cl_next_id = 1, cl_sent = [], cl_issued = [], cl_returned = (\<lambda>_. None), cl_pinged = (\<lambda>_. None)\<rparr>"

definition call_return :: "64 word \<Rightarrow> call_outcome \<Rightarrow> client \<Rightarrow> client" where
  "call_return n r c =
    (if cl_returned c n = None then c\<lparr>cl_returned := (cl_returned c)(n := Some r)\<rparr> else c)"

text \<open>\<^verbatim>\<open>call\<close>, until it waits; \<open>writer\<close> tells whether the writer task still takes frames. A waiter whose
  frame was not taken stays registered.\<close>

definition call_begins :: "bool \<Rightarrow> string \<Rightarrow> (string \<times> json) list \<Rightarrow> client \<Rightarrow> client" where
  "call_begins writer tool args c =
    (let n = cl_next_id c; c = c\<lparr>cl_next_id := n + 1, cl_issued := cl_issued c @ [n]\<rparr>
     in if cl_closed c then call_return n (Inl ConnectionLost) c
        else
          let c = c\<lparr>cl_calls := cl_calls c @ [n]\<rparr>
          in if writer then c\<lparr>cl_sent := cl_sent c @ [Call n tool args]\<rparr>
             else call_return n (Inl ConnectionLost) c)"

text \<open>\<^verbatim>\<open>ping\<close>: a second ping replaces the waiter of the first, whose receiver then ends, which is a \<^verbatim>\<open>true\<close>.\<close>

definition ping_return :: "nat \<Rightarrow> bool \<Rightarrow> client \<Rightarrow> client" where
  "ping_return caller alive c =
    (if cl_pinged c caller = None then c\<lparr>cl_pinged := (cl_pinged c)(caller := Some alive)\<rparr> else c)"

definition ping_begins :: "bool \<Rightarrow> nat \<Rightarrow> client \<Rightarrow> client" where
  "ping_begins writer caller c =
    (if cl_closed c then ping_return caller False c
     else
       let c = (case cl_ping c of None \<Rightarrow> c | Some dropped \<Rightarrow> ping_return dropped True c)\<lparr>cl_ping := Some caller\<rparr>
       in if writer then c\<lparr>cl_sent := cl_sent c @ [Ping]\<rparr> else ping_return caller False c)"

definition subscribe_begins :: "bool \<Rightarrow> nat \<Rightarrow> client \<Rightarrow> client" where
  "subscribe_begins writer caller c =
    (if cl_closed c then c
     else
       let c = c\<lparr>cl_events := Some [], cl_subscribed := Some caller\<rparr>
       in if writer then c\<lparr>cl_sent := cl_sent c @ [Subscribe]\<rparr> else c)"

definition result_outcome :: "bool \<Rightarrow> json option \<Rightarrow> string option \<Rightarrow> call_outcome" where
  "result_outcome succeeded result_value error =
    (if succeeded then Inr (opt_default JNull result_value)
     else Inl (ToolFailure (opt_default ''call failed'' error)))"

definition settle_call :: "64 word \<Rightarrow> call_outcome \<Rightarrow> client \<Rightarrow> client" where
  "settle_call n r c =
    (if n \<in> set (cl_calls c) then call_return n r (c\<lparr>cl_calls := removeAll n (cl_calls c)\<rparr>) else c)"

text \<open>The reader's \<^verbatim>\<open>match\<close>.\<close>

definition on_frame :: "frame \<Rightarrow> client \<Rightarrow> client" where
  "on_frame f c =
    (case f of
       CallResult n succeeded result_value error \<Rightarrow> settle_call n (result_outcome succeeded result_value error) c
     | EventFrame event \<Rightarrow>
         (case cl_events c of
            Some q \<Rightarrow> if length q < EVENTS_CAPACITY then c\<lparr>cl_events := Some (q @ [event])\<rparr> else c
          | None \<Rightarrow> c)
     | Pong \<Rightarrow>
         (case cl_ping c of
            Some p \<Rightarrow> ping_return p True (c\<lparr>cl_ping := None\<rparr>)
          | None \<Rightarrow> c)
     | Subscribed \<Rightarrow> c\<lparr>cl_subscribed := None\<rparr>
     | Heartbeat \<Rightarrow> c\<lparr>cl_heartbeats := cl_heartbeats c + 1\<rparr>
     | _ \<Rightarrow> c)"

definition on_inbound :: "(string \<Rightarrow> (string, frame) result) \<Rightarrow> string \<Rightarrow> client \<Rightarrow> client" where
  "on_inbound dec line c =
    (if cl_closed c \<or> trim line = [] then c else (case dec line of Inl _ \<Rightarrow> c | Inr f \<Rightarrow> on_frame f c))"

text \<open>The end of the stream.\<close>

definition on_eof :: "client \<Rightarrow> client" where
  "on_eof c =
    fold (\<lambda>n. call_return n (Inl ConnectionLost)) (cl_calls c) (c\<lparr>cl_closed := True, cl_calls := [], cl_events := None\<rparr>)"

datatype client_event =
    BeginCall bool string "(string \<times> json) list"
  | BeginPing bool nat
  | PingTimeout nat
  | BeginSubscribe bool nat
  | Inbound string
  | InboundEof

definition client_step :: "(string \<Rightarrow> (string, frame) result) \<Rightarrow> client_event \<Rightarrow> client \<Rightarrow> client" where
  "client_step dec ev c =
    (case ev of
       BeginCall writer tool args \<Rightarrow> call_begins writer tool args c
     | BeginPing writer caller \<Rightarrow> ping_begins writer caller c
     | PingTimeout caller \<Rightarrow> ping_return caller False c
     | BeginSubscribe writer caller \<Rightarrow> subscribe_begins writer caller c
     | Inbound line \<Rightarrow> on_inbound dec line c
     | InboundEof \<Rightarrow> on_eof c)"

definition client_run :: "(string \<Rightarrow> (string, frame) result) \<Rightarrow> client_event list \<Rightarrow> client \<Rightarrow> client" where
  "client_run dec = fold (client_step dec)"

text \<open>Every call issued waits or has returned; none waits on a closed connection.\<close>

definition client_inv :: "client \<Rightarrow> bool" where
  "client_inv c \<longleftrightarrow> (\<forall>n\<in>set (cl_issued c). n \<in> set (cl_calls c) \<or> cl_returned c n \<noteq> None) \<and>
    (cl_closed c \<longrightarrow> cl_calls c = [])"

lemma call_return_frame [simp]:
  "cl_issued (call_return n r c) = cl_issued c" "cl_calls (call_return n r c) = cl_calls c"
  "cl_closed (call_return n r c) = cl_closed c"
  "cl_returned (call_return n r c) = (if cl_returned c n = None then (cl_returned c)(n := Some r) else cl_returned c)"
  by (simp_all add: call_return_def)

lemma ping_return_frame [simp]:
  "cl_issued (ping_return p b c) = cl_issued c" "cl_calls (ping_return p b c) = cl_calls c"
  "cl_closed (ping_return p b c) = cl_closed c" "cl_returned (ping_return p b c) = cl_returned c"
  by (simp_all add: ping_return_def)

lemma call_returns_frame [simp]:
  "cl_issued (fold (\<lambda>n. call_return n r) ns c) = cl_issued c"
  "cl_calls (fold (\<lambda>n. call_return n r) ns c) = cl_calls c"
  "cl_closed (fold (\<lambda>n. call_return n r) ns c) = cl_closed c"
  by (induction ns arbitrary: c) simp_all

lemma call_returns_returned:
  "cl_returned (fold (\<lambda>n. call_return n r) ns c) m =
    (if cl_returned c m = None \<and> m \<in> set ns then Some r else cl_returned c m)"
  by (induction ns arbitrary: c) auto

lemma call_begins_inv: "client_inv c \<Longrightarrow> client_inv (call_begins writer tool args c)"
  by (auto simp: client_inv_def call_begins_def Let_def)

lemma on_frame_inv: "client_inv c \<Longrightarrow> client_inv (on_frame f c)"
  by (auto simp: client_inv_def on_frame_def settle_call_def split: frame.split option.split)

lemma on_eof_inv: "client_inv c \<Longrightarrow> client_inv (on_eof c)"
  by (auto simp: client_inv_def on_eof_def call_returns_returned)

lemma client_step_inv: "client_inv c \<Longrightarrow> client_inv (client_step dec ev c)"
proof (cases ev)
  case (BeginPing writer caller)
  then show "client_inv c \<Longrightarrow> ?thesis"
    by (auto simp: client_step_def client_inv_def ping_begins_def Let_def split: option.split)
next
  case (BeginSubscribe writer caller)
  then show "client_inv c \<Longrightarrow> ?thesis"
    by (auto simp: client_step_def client_inv_def subscribe_begins_def Let_def)
next
  case (PingTimeout caller)
  then show "client_inv c \<Longrightarrow> ?thesis" by (simp add: client_step_def client_inv_def)
qed (auto simp: client_step_def call_begins_inv on_inbound_def on_frame_inv on_eof_inv split: sum.split)

lemma client_run_inv: "client_inv c \<Longrightarrow> client_inv (client_run dec evs c)"
  unfolding client_run_def by (induction evs arbitrary: c) (simp_all add: client_step_inv)

text \<open>C39: No call outlives its connection: once the end of the stream was seen, every call made through the
  client, before or after, has returned.\<close>

theorem no_call_waits_on_a_dead_leader:
  assumes "cl_closed (client_run dec evs joined_client)"
  shows "\<forall>n \<in> set (cl_issued (client_run dec evs joined_client)). cl_returned (client_run dec evs joined_client) n \<noteq> None"
proof -
  have "client_inv (client_run dec evs joined_client)"
    by (rule client_run_inv) (simp add: client_inv_def joined_client_def)
  then show ?thesis using assms by (auto simp: client_inv_def)
qed

definition sample_client_run :: "client_event list" where
  "sample_client_run = [BeginCall True ''t'' [], InboundEof, BeginCall True ''t'' []]"

theorem no_call_waits_on_a_dead_leader_witness:
  "cl_returned (client_run (\<lambda>_. Inl []) sample_client_run joined_client) 1 \<noteq> None \<and>
    cl_returned (client_run (\<lambda>_. Inl []) sample_client_run joined_client) 2 \<noteq> None"
proof -
  let ?c = "client_run (\<lambda>_. Inl []) sample_client_run joined_client"
  have "cl_closed ?c" "{1, 2} \<subseteq> set (cl_issued ?c)"
    by (simp_all add: sample_client_run_def client_run_def client_step_def joined_client_def call_begins_def on_eof_def
        call_return_def Let_def)
  then show ?thesis using no_call_waits_on_a_dead_leader [of "\<lambda>_. Inl []" sample_client_run] by blast
qed

section \<open>The session\<close>

datatype call_error = ToolError string | Failover bool bool | AcquireFailed acquire_error | SessionClosed

fun show_call_error :: "call_error \<Rightarrow> string" where
  "show_call_error (ToolError e) = e"
| "show_call_error (Failover retried promoted) =
    ''leader connection lost mid-call (execution state unknown; retried='' @ show_bool retried @
    '', promoted='' @ show_bool promoted @ '')''"
| "show_call_error (AcquireFailed e) = ''context re-acquisition failed: '' @ show_acquire_error e"
| "show_call_error SessionClosed = ''context session closed''"

text \<open>Connections are told apart by number (\<^verbatim>\<open>Arc::ptr_eq\<close>): the session counts those it made.\<close>

datatype role = LeaderRole | FollowerRole nat | ClosedRole

datatype exec = LocalExec | RemoteExec nat

definition snapshot :: "role \<Rightarrow> (call_error, exec) result" where
  "snapshot r =
    (case r of
       LeaderRole \<Rightarrow> Inr LocalExec
     | FollowerRole k \<Rightarrow> Inr (RemoteExec k)
     | ClosedRole \<Rightarrow> Inl SessionClosed)"

text \<open>An answer to an attempt; on a connection that died, the connection.\<close>

definition local_attempt :: "(string, json) result \<Rightarrow> (call_error, json) result" where
  "local_attempt r = (case r of Inl e \<Rightarrow> Inl (ToolError e) | Inr v \<Rightarrow> Inr v)"

definition remote_attempt :: "nat \<Rightarrow> call_outcome \<Rightarrow> (nat, (call_error, json) result) result" where
  "remote_attempt k r =
    (case r of
       Inr v \<Rightarrow> Inr (Inr v)
     | Inl (ToolFailure e) \<Rightarrow> Inr (Inl (ToolError e))
     | Inl ConnectionLost \<Rightarrow> Inl k)"

datatype acquired = AcquiredLeader | AcquiredFollower

record session =
  se_role :: role
  se_made :: nat
  se_races :: "nat list"

text \<open>\<open>se_races\<close> is not in the code: the dead connections that were replaced. \<open>acquire_role\<close> wraps the outcome
  of an acquisition.\<close>

definition acquire_role :: "nat \<Rightarrow> acquired \<Rightarrow> role" where
  "acquire_role fresh a = (case a of AcquiredLeader \<Rightarrow> LeaderRole | AcquiredFollower \<Rightarrow> FollowerRole fresh)"

definition reacquire ::
  "(acquire_error, acquired) result \<Rightarrow> nat \<Rightarrow> session \<Rightarrow> (call_error, bool) result \<times> session" where
  "reacquire outcome stale s =
    (case se_role s of
       LeaderRole \<Rightarrow> (Inr True, s)
     | ClosedRole \<Rightarrow> (Inl SessionClosed, s)
     | FollowerRole k \<Rightarrow>
         if k \<noteq> stale then (Inr False, s)
         else
           (case outcome of
              Inl e \<Rightarrow> (Inl (AcquireFailed e), s)
            | Inr a \<Rightarrow>
                (Inr (a = AcquiredLeader),
                 s\<lparr>se_role := acquire_role (se_made s) a,
                   se_made := (if a = AcquiredFollower then se_made s + 1 else se_made s),
                   se_races := se_races s @ [stale]\<rparr>)))"

definition session_shutdown :: "session \<Rightarrow> session" where
  "session_shutdown s = s\<lparr>se_role := ClosedRole\<rparr>"

definition is_leader :: "session \<Rightarrow> bool" where
  "is_leader s \<longleftrightarrow> se_role s = LeaderRole"

text \<open>\<^verbatim>\<open>ContextSession::call\<close>, from one wait to the next. \<open>Attempting retried promoted exec\<close> is an attempt
  under way, \<open>Racing\<close> the wait for the role lock after a connection died.\<close>

datatype call_phase =
    CallStart
  | Attempting bool bool exec
  | Racing nat
  | Reattempt bool
  | CallDone "(call_error, json) result"

datatype call_answer =
    Turn
  | LocalAnswer "(string, json) result"
  | RemoteAnswer call_outcome
  | RaceOutcome "(acquire_error, acquired) result"

definition begin_attempt :: "bool \<Rightarrow> bool \<Rightarrow> session \<Rightarrow> call_phase" where
  "begin_attempt retried promoted s =
    (case snapshot (se_role s) of Inl e \<Rightarrow> CallDone (Inl e) | Inr x \<Rightarrow> Attempting retried promoted x)"

definition attempt_lost :: "bool \<Rightarrow> bool \<Rightarrow> nat \<Rightarrow> call_phase" where
  "attempt_lost retried promoted k = (if retried then CallDone (Inl (Failover True promoted)) else Racing k)"

fun session_call :: "bool \<Rightarrow> call_phase \<Rightarrow> call_answer \<Rightarrow> session \<Rightarrow> call_phase \<times> session" where
  "session_call idempotent CallStart Turn s = (begin_attempt False False s, s)"
| "session_call idempotent (Attempting retried promoted LocalExec) (LocalAnswer r) s = (CallDone (local_attempt r), s)"
| "session_call idempotent (Attempting retried promoted (RemoteExec k)) (RemoteAnswer r) s =
    ((case remote_attempt k r of Inr outcome \<Rightarrow> CallDone outcome | Inl k \<Rightarrow> attempt_lost retried promoted k), s)"
| "session_call idempotent (Racing stale) (RaceOutcome outcome) s =
    (case reacquire outcome stale s of
       (Inl e, s) \<Rightarrow> (CallDone (Inl e), s)
     | (Inr promoted, s) \<Rightarrow> (if idempotent then Reattempt promoted else CallDone (Inl (Failover False promoted)), s))"
| "session_call idempotent (Reattempt promoted) Turn s = (begin_attempt True promoted s, s)"
| "session_call idempotent ph answer s = (ph, s)"

section \<open>Many callers over one session\<close>

record fleet =
  fl_session :: session
  fl_phase :: "nat \<Rightarrow> call_phase"
  fl_attempts :: "nat \<Rightarrow> exec list"

definition new_attempts :: "call_phase \<Rightarrow> call_phase \<Rightarrow> exec list" where
  "new_attempts ph ph' = (case ph of Attempting _ _ _ \<Rightarrow> [] | _ \<Rightarrow> (case ph' of Attempting _ _ x \<Rightarrow> [x] | _ \<Rightarrow> []))"

definition caller_step :: "bool \<Rightarrow> nat \<Rightarrow> call_answer \<Rightarrow> fleet \<Rightarrow> fleet" where
  "caller_step idempotent c a w =
    (case session_call idempotent (fl_phase w c) a (fl_session w) of
       (ph, s) \<Rightarrow> \<lparr>fl_session = s, fl_phase = (fl_phase w)(c := ph),
         fl_attempts = (fl_attempts w)(c := fl_attempts w c @ new_attempts (fl_phase w c) ph)\<rparr>)"

text \<open>\<open>idem c\<close> is what the caller \<open>c\<close> declares of its call. The steps of the callers and a shutdown come in any
  order.\<close>

inductive fleet_reachable :: "(nat \<Rightarrow> bool) \<Rightarrow> fleet \<Rightarrow> bool" for idem where
  fleet_start: "r \<in> {LeaderRole, FollowerRole 0} \<Longrightarrow>
    fleet_reachable idem \<lparr>fl_session = \<lparr>se_role = r, se_made = 1, se_races = []\<rparr>, fl_phase = (\<lambda>_. CallStart),
      fl_attempts = (\<lambda>_. [])\<rparr>"
| fleet_call: "fleet_reachable idem w \<Longrightarrow> fleet_reachable idem (caller_step (idem c) c a w)"
| fleet_shutdown: "fleet_reachable idem w \<Longrightarrow>
    fleet_reachable idem (w\<lparr>fl_session := session_shutdown (fl_session w)\<rparr>)"

fun phase_ok :: "bool \<Rightarrow> call_phase \<Rightarrow> exec list \<Rightarrow> bool" where
  "phase_ok i CallStart xs = (xs = [])"
| "phase_ok i (Attempting retried _ x) xs =
    (xs \<noteq> [] \<and> last xs = x \<and> length xs = (if retried then 2 else 1) \<and> (retried \<longrightarrow> i))"
| "phase_ok i (Racing _) xs = (length xs = 1)"
| "phase_ok i (Reattempt _) xs = (length xs = 1 \<and> i)"
| "phase_ok i (CallDone (Inl (Failover retried _))) xs = (length xs = (if retried then 2 else 1) \<and> (retried \<longrightarrow> i))"
| "phase_ok i (CallDone _) xs = (length xs \<le> (if i then 2 else 1))"

lemma begin_attempt_ok:
  "length xs = (if retried then 1 else 0) \<Longrightarrow> (retried \<longrightarrow> i) \<Longrightarrow> (\<And>a b x. ph \<noteq> Attempting a b x) \<Longrightarrow>
    phase_ok i (begin_attempt retried promoted s) (xs @ new_attempts ph (begin_attempt retried promoted s))"
  by (cases "se_role s"; cases ph) (auto simp: begin_attempt_def snapshot_def new_attempts_def)

lemma done_attempt_ok:
  "length xs \<le> (if i then 2 else 1) \<Longrightarrow> phase_ok i (CallDone (local_attempt r)) xs"
  by (cases r) (simp_all add: local_attempt_def)

lemma remote_attempt_ok:
  assumes "phase_ok i (Attempting retried promoted (RemoteExec k)) xs"
  shows "phase_ok i (case remote_attempt k r of Inr outcome \<Rightarrow> CallDone outcome | Inl k \<Rightarrow> attempt_lost retried promoted k) xs"
  using assms by (cases r) (auto simp: remote_attempt_def attempt_lost_def split: call_failure.split if_splits)

lemma reacquire_cases:
  obtains e where "reacquire outcome stale s = (Inl e, s)" "e \<in> {SessionClosed} \<union> range AcquireFailed"
  | promoted where "reacquire outcome stale s = (Inr promoted, s)"
  | a where "se_role s = FollowerRole stale" "outcome = Inr a" "reacquire outcome stale s = (Inr (a = AcquiredLeader),
      s\<lparr>se_role := acquire_role (se_made s) a, se_made := (if a = AcquiredFollower then se_made s + 1 else se_made s),
        se_races := se_races s @ [stale]\<rparr>)"
proof (cases "se_role s")
  case (FollowerRole k)
  then show thesis using that by (cases outcome; cases "k = stale") (auto simp: reacquire_def)
qed (use that in \<open>auto simp: reacquire_def\<close>)

lemma session_call_ok:
  assumes "phase_ok i ph xs"
  shows "phase_ok i (fst (session_call i ph a s)) (xs @ new_attempts ph (fst (session_call i ph a s)))"
  using assms
proof (induction i ph a s rule: session_call.induct)
  case (1 i s)
  then show ?case using begin_attempt_ok [of xs False i CallStart False s] by simp
next
  case (2 i retried promoted r s)
  then show ?case using done_attempt_ok [of xs i r] by (simp add: new_attempts_def split: if_splits)
next
  case (3 i retried promoted k r s)
  then show ?case using remote_attempt_ok [of i retried promoted k xs r] by (simp add: new_attempts_def)
next
  case (4 i stale outcome s)
  then show ?case
    by (cases outcome stale s rule: reacquire_cases) (auto simp: new_attempts_def)
next
  case (5 i promoted s)
  then show ?case using begin_attempt_ok [of xs True i "Reattempt promoted" promoted s] by simp
qed (auto simp: new_attempts_def)

lemma fleet_phases_ok: "fleet_reachable idem w \<Longrightarrow> phase_ok (idem c) (fl_phase w c) (fl_attempts w c)"
proof (induction rule: fleet_reachable.induct)
  case (fleet_call w d a)
  then show ?case using session_call_ok [of "idem c" "fl_phase w c" "fl_attempts w c" a "fl_session w"]
    by (cases "session_call (idem d) (fl_phase w d) a (fl_session w)") (auto simp: caller_step_def)
qed simp_all

text \<open>C7: However calls, deaths of leaders, races and a shutdown fall together, a mutation is handed to a
  leader at most once and a read at most twice, and a failover error says truly whether the retry was
  made.\<close>

theorem mutations_are_never_retried:
  assumes "fleet_reachable idem w"
  shows "length (fl_attempts w c) \<le> (if idem c then 2 else 1) \<and>
    (\<forall>retried promoted. fl_phase w c = CallDone (Inl (Failover retried promoted)) \<longrightarrow>
      retried = (length (fl_attempts w c) = 2))"
  using fleet_phases_ok [OF assms, of c]
  by (cases "(idem c, fl_phase w c, fl_attempts w c)" rule: phase_ok.cases) (auto split: if_splits)

definition session_ok :: "session \<Rightarrow> bool" where
  "session_ok s \<longleftrightarrow> distinct (se_races s) \<and> (\<forall>k\<in>set (se_races s). k < se_made s) \<and>
    (\<forall>k. se_role s = FollowerRole k \<longrightarrow> k < se_made s \<and> k \<notin> set (se_races s))"

lemma reacquire_session_ok: "session_ok s \<Longrightarrow> session_ok (snd (reacquire outcome stale s))"
  by (cases outcome stale s rule: reacquire_cases)
    (auto simp: session_ok_def acquire_role_def less_Suc_eq split: acquired.splits)

lemma session_call_session:
  "snd (session_call i ph a s) = s \<or> (\<exists>outcome stale. snd (session_call i ph a s) = snd (reacquire outcome stale s))"
proof (induction i ph a s rule: session_call.induct)
  case (4 i stale outcome s)
  then show ?case
    by (intro disjI2 exI [of _ outcome] exI [of _ stale]) (simp split: prod.split sum.split)
qed simp_all

lemma fleet_session_ok: "fleet_reachable idem w \<Longrightarrow> session_ok (fl_session w)"
proof (induction rule: fleet_reachable.induct)
  case (fleet_start r)
  then show ?case by (auto simp: session_ok_def)
next
  case (fleet_call w d a)
  have "session_ok (snd (session_call (idem d) (fl_phase w d) a (fl_session w)))"
    using session_call_session [of "idem d" "fl_phase w d" a "fl_session w"] fleet_call.IH
    by (auto simp: reacquire_session_ok)
  then show ?case by (simp add: caller_step_def split_beta)
next
  case (fleet_shutdown w)
  then show ?case by (auto simp: session_ok_def session_shutdown_def)
qed

text \<open>Callers whose calls died with the same leader race once: a connection is replaced at most once,
  the session never goes back to a connection it has replaced, and each one it follows is one it made.\<close>

lemma one_race_per_dead_leader:
  assumes "fleet_reachable idem w"
  shows "distinct (se_races (fl_session w)) \<and>
    (\<forall>k. se_role (fl_session w) = FollowerRole k \<longrightarrow> k < se_made (fl_session w) \<and> k \<notin> set (se_races (fl_session w)))"
  using fleet_session_ok [OF assms] by (auto simp: session_ok_def)

text \<open>A leader dies under a mutation and a read; the read's race makes this process the leader.\<close>

definition sample_fleet :: "(nat \<times> call_answer) list \<Rightarrow> fleet" where
  "sample_fleet steps = fold (\<lambda>(c, a). caller_step (c = 1) c a) steps
    \<lparr>fl_session = \<lparr>se_role = FollowerRole 0, se_made = 1, se_races = []\<rparr>, fl_phase = (\<lambda>_. CallStart), fl_attempts = (\<lambda>_. [])\<rparr>"

lemma sample_fleet_reachable: "fleet_reachable (\<lambda>c. c = 1) (sample_fleet steps)"
proof (induction steps rule: rev_induct)
  case Nil
  show ?case unfolding sample_fleet_def by (simp only: fold_Nil id_apply) (rule fleet_start, simp)
next
  case (snoc step steps)
  obtain c a where "step = (c, a)" by (rule prod.exhaust)
  then show ?case using fleet_call [OF snoc, of c a] by (simp add: sample_fleet_def)
qed

definition sample_steps :: "(nat \<times> call_answer) list" where
  "sample_steps = [(0, Turn), (1, Turn), (0, RemoteAnswer (Inl ConnectionLost)), (1, RemoteAnswer (Inl ConnectionLost)),
    (1, RaceOutcome (Inr AcquiredLeader)), (0, RaceOutcome (Inl PortsExhausted)), (1, Turn), (1, LocalAnswer (Inr JNull))]"

lemma sample_fleet_end:
  "fl_attempts (sample_fleet sample_steps) 0 = [RemoteExec 0]"
  "fl_attempts (sample_fleet sample_steps) 1 = [RemoteExec 0, LocalExec]"
  "fl_phase (sample_fleet sample_steps) 0 = CallDone (Inl (Failover False True))"
  by (simp_all add: sample_fleet_def sample_steps_def caller_step_def begin_attempt_def snapshot_def new_attempts_def
      remote_attempt_def attempt_lost_def reacquire_def acquire_role_def local_attempt_def)

lemma mutations_are_never_retried_witness:
  "length (fl_attempts (sample_fleet sample_steps) 0) \<le> 1 \<and> fl_attempts (sample_fleet sample_steps) 1 = [RemoteExec 0, LocalExec]"
  using mutations_are_never_retried [OF sample_fleet_reachable, of sample_steps 0] sample_fleet_end by simp

end
