(* ===== verification/Widgets.thy ===== *)
theory Widgets
  imports Utf8
begin

text \<open>The self-contained parts of the terminal interface, \<^verbatim>\<open>mandala-tui/src\<close>: the scroll position of a pane
  (\<^verbatim>\<open>scroll.rs\<close>), the selection of a table (\<^verbatim>\<open>select.rs\<close>), the mouse map of a frame (\<^verbatim>\<open>hit.rs\<close>) and the
  filter for terminal sequences (\<^verbatim>\<open>ansi.rs\<close>). Drawing and the conversion of colours are left out.\<close>

text \<open>Two characters of the interface's texts.\<close>

definition MIDDLE_DOT :: string where
  "MIDDLE_DOT = [CHR 0xC2, CHR 0xB7]"

definition EM_DASH :: string where
  "EM_DASH = [CHR 0xE2, CHR 0x80, CHR 0x94]"

section \<open>Scrolling\<close>

record scroll_state =
  ss_offset :: nat
  ss_follow :: bool
  ss_len :: nat

definition scroll_default :: scroll_state where
  "scroll_default = \<lparr>ss_offset = 0, ss_follow = True, ss_len = 0\<rparr>"

definition to_bottom :: "scroll_state \<Rightarrow> scroll_state" where
  "to_bottom s = s\<lparr>ss_offset := 0, ss_follow := True\<rparr>"

definition update_content :: "nat \<Rightarrow> scroll_state \<Rightarrow> scroll_state" where
  "update_content new_len s =
    (let offset = (if ss_follow s then 0
           else if ss_len s < new_len then sat_add (ss_offset s) (new_len - ss_len s) else ss_offset s);
         s = s\<lparr>ss_len := new_len, ss_offset := min offset (new_len - 1)\<rparr>
     in if new_len = 0 then to_bottom s else s)"

definition at_offset :: "nat \<Rightarrow> scroll_state \<Rightarrow> scroll_state" where
  "at_offset offset s = s\<lparr>ss_offset := offset, ss_follow := (offset = 0)\<rparr>"

definition scroll_up :: "nat \<Rightarrow> nat \<Rightarrow> scroll_state \<Rightarrow> scroll_state" where
  "scroll_up by_lines viewport s = at_offset (min (sat_add (ss_offset s) by_lines) (ss_len s - max viewport 1)) s"

definition scroll_down :: "nat \<Rightarrow> scroll_state \<Rightarrow> scroll_state" where
  "scroll_down by_lines s = at_offset (ss_offset s - by_lines) s"

definition to_top :: "nat \<Rightarrow> scroll_state \<Rightarrow> scroll_state" where
  "to_top viewport s = at_offset (ss_len s - max viewport 1) s"

definition visible_range :: "nat \<Rightarrow> scroll_state \<Rightarrow> nat \<times> nat" where
  "visible_range viewport s = (let last_line = ss_len s - ss_offset s in (last_line - viewport, last_line))"

definition top_offset :: "nat \<Rightarrow> scroll_state \<Rightarrow> nat" where
  "top_offset viewport s = (let top_line = fst (visible_range viewport s) in if top_line \<le> 65535 then top_line else 65535)"

datatype scroll_op = UpdateContent nat | ScrollUp nat nat | ScrollDown nat | ToTop nat | ToBottom

fun scroll_apply :: "scroll_op \<Rightarrow> scroll_state \<Rightarrow> scroll_state" where
  "scroll_apply (UpdateContent n) = update_content n"
| "scroll_apply (ScrollUp n viewport) = scroll_up n viewport"
| "scroll_apply (ScrollDown n) = scroll_down n"
| "scroll_apply (ToTop viewport) = to_top viewport"
| "scroll_apply ToBottom = to_bottom"

definition scrolled :: "scroll_op list \<Rightarrow> scroll_state" where
  "scrolled ops = fold scroll_apply ops scroll_default"

definition scroll_ok :: "scroll_state \<Rightarrow> bool" where
  "scroll_ok s \<longleftrightarrow> (ss_follow s \<longrightarrow> ss_offset s = 0) \<and> ss_offset s \<le> ss_len s - 1 \<and>
    (ss_len s = 0 \<longrightarrow> ss_follow s)"

lemma scroll_op_ok: "scroll_ok s \<Longrightarrow> scroll_ok (scroll_apply op s)"
  by (cases op) (auto simp: scroll_ok_def update_content_def to_bottom_def at_offset_def scroll_up_def scroll_down_def
      to_top_def Let_def)

lemma scrolled_ok: "scroll_ok (scrolled ops)"
proof -
  have "scroll_ok s \<Longrightarrow> scroll_ok (fold scroll_apply ops s)" for s
    by (induction ops arbitrary: s) (simp_all add: scroll_op_ok)
  then show ?thesis by (simp add: scrolled_def scroll_ok_def scroll_default_def)
qed

text \<open>A pane that was scrolled away from its tail stays on the lines being read while its content grows, and
  a pane that follows shows the new tail, after any sequence of scrolling and updates.\<close>

lemma growth_keeps_the_view:
  assumes "ss_len (scrolled ops) \<le> n" and "n \<le> U64_MAX"
  shows "visible_range viewport (update_content n (scrolled ops)) =
    (if ss_follow (scrolled ops) then (n - viewport, n) else visible_range viewport (scrolled ops))"
proof -
  let ?s = "scrolled ops"
  have ok: "ss_offset ?s \<le> ss_len ?s - 1" "ss_len ?s = 0 \<longrightarrow> ss_follow ?s"
    using scrolled_ok [of ops] by (simp_all add: scroll_ok_def)
  show ?thesis
  proof (cases "ss_follow ?s")
    case True
    then show ?thesis by (simp add: visible_range_def update_content_def to_bottom_def Let_def)
  next
    case False
    then have pos: "ss_offset ?s < ss_len ?s" using ok by linarith
    have sum: "sat_add (ss_offset ?s) (n - ss_len ?s) = ss_offset ?s + (n - ss_len ?s)"
      using pos assms by (intro sat_add_exact) linarith
    have "ss_offset (update_content n ?s) = ss_offset ?s + (n - ss_len ?s)" "ss_len (update_content n ?s) = n"
      using False pos assms(1) sum by (auto simp: update_content_def to_bottom_def Let_def)
    moreover have "n - (ss_offset ?s + (n - ss_len ?s)) = ss_len ?s - ss_offset ?s" using pos assms(1) by linarith
    ultimately show ?thesis using False by (simp only: visible_range_def Let_def if_False)
  qed
qed

section \<open>Selecting rows\<close>

record select_table =
  st_names :: "string list"
  st_selected :: "string set"
  st_sticky :: "string set"
  st_anchor :: "nat option"
  st_cursor :: nat

definition reset_rows :: "string list \<Rightarrow> select_table \<Rightarrow> select_table" where
  "reset_rows names t = \<lparr>st_names = names, st_selected = {}, st_sticky = {}, st_anchor = None, st_cursor = 0\<rparr>"

definition cursor_name :: "select_table \<Rightarrow> string option" where
  "cursor_name t =
    (if st_names t = [] then None else Some (st_names t ! min (st_cursor t) (length (st_names t) - 1)))"

definition selected_names :: "select_table \<Rightarrow> string list" where
  "selected_names t = filter (\<lambda>n. n \<in> st_selected t) (st_names t)"

definition toggle_row :: "select_table \<Rightarrow> select_table" where
  "toggle_row t =
    (case cursor_name t of
       None \<Rightarrow> t
     | Some name \<Rightarrow>
         let sticky = (if name \<in> st_sticky t then st_sticky t - {name} else Set.insert name (st_sticky t))
         in t\<lparr>st_sticky := sticky, st_anchor := Some (st_cursor t), st_selected := sticky\<rparr>)"

definition clamped :: "select_table \<Rightarrow> int \<Rightarrow> nat" where
  "clamped t delta = min (nat (int (st_cursor t) + delta)) (length (st_names t) - 1)"

text \<open>The names from row \<open>i\<close> to row \<open>j\<close>, both included, whichever comes first.\<close>

definition rows_between :: "'a list \<Rightarrow> nat \<Rightarrow> nat \<Rightarrow> 'a list" where
  "rows_between xs i j = (let lo = min i j; hi = max i j in take (hi + 1 - lo) (drop lo xs))"

definition extend_rows :: "int \<Rightarrow> select_table \<Rightarrow> select_table" where
  "extend_rows delta t =
    (if st_names t = [] then t
     else
       let anchor = opt_default (st_cursor t) (st_anchor t);
           row = clamped t delta
       in t\<lparr>st_anchor := Some anchor, st_cursor := row,
            st_selected := st_sticky t \<union> set (rows_between (st_names t) anchor row)\<rparr>)"

definition skip_rows :: "int \<Rightarrow> select_table \<Rightarrow> select_table" where
  "skip_rows delta t = (if st_names t = [] then t else t\<lparr>st_cursor := clamped t delta\<rparr>)"

definition clear_selection :: "select_table \<Rightarrow> select_table" where
  "clear_selection t = t\<lparr>st_sticky := {}, st_anchor := None, st_selected := {}\<rparr>"

definition move_cursor :: "int \<Rightarrow> select_table \<Rightarrow> bool \<times> select_table" where
  "move_cursor delta t =
    (if st_names t = [] then (False, t) else (clamped t delta \<noteq> st_cursor t, t\<lparr>st_cursor := clamped t delta\<rparr>))"

definition view_offset :: "nat \<Rightarrow> nat \<Rightarrow> nat" where
  "view_offset cursor height = (if height = 0 then cursor else cursor + 1 - height)"

lemma view_offset_shows_cursor:
  "0 < height \<Longrightarrow> view_offset cursor height \<le> cursor \<and> cursor < view_offset cursor height + height"
  by (auto simp: view_offset_def)

datatype select_op = ToggleRow | ExtendRows int | SkipRows int | ClearRows | MoveRows int | ResetRows "string list"

fun select_apply :: "select_op \<Rightarrow> select_table \<Rightarrow> select_table" where
  "select_apply ToggleRow t = toggle_row t"
| "select_apply (ExtendRows d) t = extend_rows d t"
| "select_apply (SkipRows d) t = skip_rows d t"
| "select_apply ClearRows t = clear_selection t"
| "select_apply (MoveRows d) t = snd (move_cursor d t)"
| "select_apply (ResetRows names) t = reset_rows names t"

definition select_ok :: "select_table \<Rightarrow> bool" where
  "select_ok t \<longleftrightarrow> st_selected t \<subseteq> set (st_names t) \<and> st_sticky t \<subseteq> st_selected t \<and>
    (st_names t = [] \<longrightarrow> st_cursor t = 0 \<and> st_anchor t = None) \<and>
    (st_names t \<noteq> [] \<longrightarrow> st_cursor t < length (st_names t) \<and> (\<forall>a. st_anchor t = Some a \<longrightarrow> a < length (st_names t)))"

lemma clamped_lt [simp]: "st_names t \<noteq> [] \<Longrightarrow> clamped t d < length (st_names t)"
  by (simp add: clamped_def min_less_iff_disj)

lemma set_rows_between: "set (rows_between xs i j) \<subseteq> set xs"
  unfolding rows_between_def Let_def using set_take_subset set_drop_subset by fast

lemma cursor_name_in: "cursor_name t = Some n \<Longrightarrow> n \<in> set (st_names t)"
  by (auto simp: cursor_name_def min_less_iff_disj split: if_splits intro!: nth_mem)

lemma select_op_ok: "select_ok t \<Longrightarrow> select_ok (select_apply op t)"
proof (cases op)
  case ToggleRow
  then show "select_ok t \<Longrightarrow> ?thesis"
    using cursor_name_in [of t] by (auto simp: select_ok_def toggle_row_def Let_def split: option.split)
next
  case (ExtendRows d)
  then show "select_ok t \<Longrightarrow> ?thesis"
    using set_rows_between [of "st_names t"]
    by (cases "st_anchor t") (auto simp: select_ok_def extend_rows_def Let_def subset_iff)
qed (auto simp: select_ok_def skip_rows_def clear_selection_def move_cursor_def reset_rows_def)

definition no_rows :: select_table where
  "no_rows = \<lparr>st_names = [], st_selected = {}, st_sticky = {}, st_anchor = None, st_cursor = 0\<rparr>"

text \<open>The selection of a table never holds a row that is not in it, its cursor and its anchor stay on a row,
  and a row that was toggled in stays selected, after any sequence of keys and refills.\<close>

lemma selection_stays_in_the_table: "select_ok (fold select_apply ops no_rows)"
proof -
  have "select_ok t \<Longrightarrow> select_ok (fold select_apply ops t)" for t
    by (induction ops arbitrary: t) (simp_all add: select_op_ok)
  then show ?thesis by (simp add: select_ok_def no_rows_def)
qed

lemma extends_anchor:
  assumes "st_names t \<noteq> []"
  shows "st_anchor (fold extend_rows ds (extend_rows d t)) = Some (opt_default (st_cursor t) (st_anchor t)) \<and>
    st_names (fold extend_rows ds (extend_rows d t)) = st_names t \<and>
    st_sticky (fold extend_rows ds (extend_rows d t)) = st_sticky t"
  using assms by (induction ds rule: rev_induct) (simp_all add: extend_rows_def Let_def)

text \<open>A shift range is replaced, never accumulated: whatever path the cursor takes while the range is
  extended, the selection is the toggled rows and those between the anchor and the cursor.\<close>

lemma range_depends_on_its_ends:
  fixes ds d t
  defines "t' \<equiv> fold extend_rows ds (extend_rows d t)"
  assumes "st_names t \<noteq> []"
  shows "st_selected t' = st_sticky t \<union>
    set (rows_between (st_names t) (opt_default (st_cursor t) (st_anchor t)) (st_cursor t'))"
proof (cases ds rule: rev_cases)
  case Nil
  then show ?thesis using assms by (simp add: extend_rows_def Let_def)
next
  case (snoc ds' e)
  let ?u = "fold extend_rows ds' (extend_rows d t)"
  have u: "st_anchor ?u = Some (opt_default (st_cursor t) (st_anchor t))" "st_names ?u = st_names t"
    "st_sticky ?u = st_sticky t"
    using extends_anchor [OF assms(2), of ds' d] by simp_all
  have "t' = extend_rows e ?u" unfolding t'_def snoc by simp
  then show ?thesis using u assms(2) by (simp add: extend_rows_def Let_def)
qed

section \<open>The mouse map\<close>

record rect =
  rx :: nat
  ry :: nat
  rwidth :: nat
  rheight :: nat

definition U16_MAX :: nat where
  "U16_MAX = 65535"

definition sat_add16 :: "nat \<Rightarrow> nat \<Rightarrow> nat" where
  "sat_add16 a b = min (a + b) U16_MAX"

definition rect_empty :: "rect \<Rightarrow> bool" where
  "rect_empty r \<longleftrightarrow> rwidth r = 0 \<or> rheight r = 0"

type_synonym 't hit_map = "(rect \<times> 't) list"

definition hit_insert :: "rect \<Rightarrow> 't \<Rightarrow> 't hit_map \<Rightarrow> 't hit_map" where
  "hit_insert r t m = (if rect_empty r then m else m @ [(r, t)])"

definition hit_inside :: "rect \<Rightarrow> nat \<Rightarrow> nat \<Rightarrow> bool" where
  "hit_inside r column row \<longleftrightarrow> rx r \<le> column \<and> column < sat_add16 (rx r) (rwidth r) \<and>
    ry r \<le> row \<and> row < sat_add16 (ry r) (rheight r)"

definition hit :: "'t hit_map \<Rightarrow> nat \<Rightarrow> nat \<Rightarrow> 't option" where
  "hit m column row = map_option snd (List.find (\<lambda>(r, t). hit_inside r column row) (rev m))"

text \<open>The last rendered target wins.\<close>

lemma hit_insert_top: "hit (hit_insert r t m) column row =
    (if \<not> rect_empty r \<and> hit_inside r column row then Some t else hit m column row)"
  by (simp add: hit_insert_def hit_def)

section \<open>Terminal sequences\<close>

definition ESC :: char where
  "ESC = CHR 0x1B"

definition is_csi_param :: "char \<Rightarrow> bool" where
  "is_csi_param c \<longleftrightarrow> is_ascii_digit c \<or> c = CHR '';'' \<or> c = CHR ''?''"

definition is_csi_intermediate :: "char \<Rightarrow> bool" where
  "is_csi_intermediate c \<longleftrightarrow> 32 \<le> byte c \<and> byte c \<le> 47"

definition is_csi_final :: "char \<Rightarrow> bool" where
  "is_csi_final c \<longleftrightarrow> 64 \<le> byte c \<and> byte c \<le> 126"

definition is_stripped_control :: "char \<Rightarrow> bool" where
  "is_stripped_control c \<longleftrightarrow> byte c \<le> 8 \<or> (11 \<le> byte c \<and> byte c \<le> 26) \<or> (28 \<le> byte c \<and> byte c \<le> 31) \<or> byte c = 127"

text \<open>The sequence at the beginning of \<open>s\<close>, after the escape and the bracket, if it is complete: its bytes and
  what follows it.\<close>

definition csi_body :: "string \<Rightarrow> (string \<times> string) option" where
  "csi_body s =
    (let params = takeWhile is_csi_param s;
         after_params = dropWhile is_csi_param s;
         inter = takeWhile is_csi_intermediate after_params;
         rest = dropWhile is_csi_intermediate after_params
     in case rest of
          f # rest \<Rightarrow> if is_csi_final f then Some (params @ inter @ [f], rest) else None
        | [] \<Rightarrow> None)"

lemma csi_body_split: "csi_body s = Some (body, rest) \<Longrightarrow> s = body @ rest \<and> body \<noteq> []"
  unfolding csi_body_def Let_def
  using takeWhile_dropWhile_id [of is_csi_param s]
    takeWhile_dropWhile_id [of is_csi_intermediate "dropWhile is_csi_param s"]
  by (auto split: list.splits if_splits)
    (metis append.assoc append_Cons append_Nil takeWhile_dropWhile_id)

definition csi_at :: "string \<Rightarrow> (string \<times> string) option" where
  "csi_at s =
    (case s of
       e # b # s \<Rightarrow>
         if e = ESC \<and> b = CHR ''['' then map_option (\<lambda>(body, rest). (e # b # body, rest)) (csi_body s) else None
     | _ \<Rightarrow> None)"

lemma csi_at_split: "csi_at s = Some (body, rest) \<Longrightarrow> s = body @ rest \<and> body \<noteq> []"
  by (auto simp: csi_at_def split: list.splits if_splits dest: csi_body_split)

lemma csi_at_shorter: "csi_at s = Some (body, rest) \<Longrightarrow> length rest < length s"
  using csi_at_split [of s body rest] by auto

function filter_ansi :: "string \<Rightarrow> string" where
  "filter_ansi [] = []"
| "filter_ansi (c # s) =
    (case csi_at (c # s) of
       Some (body, rest) \<Rightarrow> (if last body = CHR ''m'' then body else []) @ filter_ansi rest
     | None \<Rightarrow> if is_stripped_control c then filter_ansi s else c # filter_ansi s)"
  by pat_completeness auto
termination
  by (relation "measure length") (auto dest: csi_at_shorter)

text \<open>Dropping ASCII bytes, which is all the filter does, leaves the other characters whole.\<close>

inductive drops_ascii :: "string \<Rightarrow> string \<Rightarrow> bool" where
  drops_Nil: "drops_ascii [] []"
| drops_keep: "drops_ascii s t \<Longrightarrow> drops_ascii (c # s) (c # t)"
| drops_drop: "drops_ascii s t \<Longrightarrow> byte c < 128 \<Longrightarrow> drops_ascii (c # s) t"

inductive_simps drops_ascii_Nil [simp]: "drops_ascii [] t"
inductive_cases drops_ascii_ConsE: "drops_ascii (c # s) t"

lemma drops_high: "drops_ascii (c # s) t \<Longrightarrow> 128 \<le> byte c \<Longrightarrow> \<exists>t'. t = c # t' \<and> drops_ascii s t'"
  by (auto elim: drops_ascii_ConsE)

lemma drops_cont: "drops_ascii (c # s) t \<Longrightarrow> is_cont c \<Longrightarrow> \<exists>t'. t = c # t' \<and> drops_ascii s t'"
  by (rule drops_high) (simp_all add: is_cont_def)

lemma utf8_valid_high:
  assumes "utf8_valid (a # s)" and "128 \<le> byte a"
  shows "(\<exists>b u. 194 \<le> byte a \<and> byte a < 224 \<and> s = b # u \<and> is_cont b \<and> utf8_valid u) \<or>
    (\<exists>b c u. 224 \<le> byte a \<and> byte a < 240 \<and> s = b # c # u \<and> is_cont b \<and> is_cont c \<and> utf8_valid u \<and>
      (byte a = 224 \<longrightarrow> 160 \<le> byte b) \<and> (byte a = 237 \<longrightarrow> byte b < 160)) \<or>
    (\<exists>b c d u. 240 \<le> byte a \<and> byte a < 245 \<and> s = b # c # d # u \<and> is_cont b \<and> is_cont c \<and> is_cont d \<and> utf8_valid u \<and>
      (byte a = 240 \<longrightarrow> 144 \<le> byte b) \<and> (byte a = 244 \<longrightarrow> byte b < 144))"
proof -
  consider "byte a < 224" | "224 \<le> byte a" "byte a < 240" | "240 \<le> byte a" by linarith
  then show ?thesis
  proof cases
    case 1
    then show ?thesis using assms by (cases s) (auto split: if_splits)
  next
    case 2
    then show ?thesis using assms by (cases s; cases "tl s") auto
  next
    case 3
    then show ?thesis using assms
      by (cases s; cases "tl s"; cases "tl (tl s)") (auto split: if_splits)
  qed
qed

lemma drops_ascii_valid: "utf8_valid s \<Longrightarrow> drops_ascii s t \<Longrightarrow> utf8_valid t"
proof (induction s arbitrary: t rule: utf8_valid.induct)
  case (2 a s)
  show ?case
  proof (cases "byte a < 128")
    case True
    then have "utf8_valid s" using 2(5) by simp
    consider t' where "t = a # t'" "drops_ascii s t'" | "drops_ascii s t"
      using 2(6) by (auto elim: drops_ascii_ConsE)
    then show ?thesis using 2(1) [OF True \<open>utf8_valid s\<close>] True by cases simp_all
  next
    case False
    then obtain t1 where t: "t = a # t1" "drops_ascii s t1" using drops_high [OF 2(6)] by auto
    have "128 \<le> byte a" using False by simp
    from utf8_valid_high [OF 2(5) this] show ?thesis
    proof (elim disjE exE conjE)
      fix b u
      assume two: "194 \<le> byte a" "byte a < 224" "s = b # u" "is_cont b" "utf8_valid u"
      obtain t2 where "t1 = b # t2" "drops_ascii u t2" using drops_cont t(2) two(3,4) by blast
      then show ?thesis using two t(1) 2(2) [of b u t2] False by simp
    next
      fix b c u
      assume three: "224 \<le> byte a" "byte a < 240" "s = b # c # u" "is_cont b" "is_cont c" "utf8_valid u"
        "byte a = 224 \<longrightarrow> 160 \<le> byte b" "byte a = 237 \<longrightarrow> byte b < 160"
      obtain t2 where t2: "t1 = b # t2" "drops_ascii (c # u) t2" using drops_cont t(2) three(3,4) by blast
      then obtain t3 where "t2 = c # t3" "drops_ascii u t3" using drops_cont three(5) by blast
      then show ?thesis using three t(1) t2 2(3) False by simp
    next
      fix b c d u
      assume four: "240 \<le> byte a" "byte a < 245" "s = b # c # d # u" "is_cont b" "is_cont c" "is_cont d" "utf8_valid u"
        "byte a = 240 \<longrightarrow> 144 \<le> byte b" "byte a = 244 \<longrightarrow> byte b < 144"
      obtain t2 where t2: "t1 = b # t2" "drops_ascii (c # d # u) t2" using drops_cont t(2) four(3,4) by blast
      then obtain t3 where t3: "t2 = c # t3" "drops_ascii (d # u) t3" using drops_cont four(5) by blast
      then obtain t4 where "t3 = d # t4" "drops_ascii u t4" using drops_cont four(6) by blast
      then show ?thesis using four t(1) t2 t3 2(4) False by simp
    qed
  qed
qed simp

lemma drops_append: "drops_ascii s t \<Longrightarrow> drops_ascii s' t' \<Longrightarrow> drops_ascii (s @ s') (t @ t')"
  by (induction rule: drops_ascii.induct) (auto intro: drops_ascii.intros)

lemma drops_refl: "drops_ascii s s"
  by (induction s) (auto intro: drops_ascii.intros)

lemma drops_all: "list_all (\<lambda>c. byte c < 128) s \<Longrightarrow> drops_ascii s []"
  by (induction s) (auto intro: drops_ascii.intros)

lemma csi_chars:
  assumes "csi_at s = Some (body, rest)"
  shows "list_all (\<lambda>c. byte c < 128 \<and> \<not> is_stripped_control c) body"
proof -
  have p: "is_csi_param c \<Longrightarrow> byte c < 128 \<and> \<not> is_stripped_control c" for c
    by (auto simp: is_csi_param_def is_stripped_control_def is_ascii_digit_def byte_def)
  have m: "is_csi_intermediate c \<Longrightarrow> byte c < 128 \<and> \<not> is_stripped_control c" for c
    by (auto simp: is_csi_intermediate_def is_stripped_control_def)
  have f: "is_csi_final c \<Longrightarrow> byte c < 128 \<and> \<not> is_stripped_control c" for c
    by (auto simp: is_csi_final_def is_stripped_control_def)
  have body: "list_all (\<lambda>c. byte c < 128 \<and> \<not> is_stripped_control c) b" if "csi_body u = Some (b, r)" for u b r
    using that p m f by (auto simp: csi_body_def Let_def list_all_iff split: list.splits if_splits dest!: set_takeWhileD)
  then show ?thesis using assms
    by (auto simp: csi_at_def is_stripped_control_def ESC_def byte_def split: list.splits if_splits)
qed

lemma csi_ascii: "csi_at s = Some (body, rest) \<Longrightarrow> list_all (\<lambda>c. byte c < 128) body"
  using csi_chars [of s body rest] by (simp add: list_all_iff)

lemma filter_drops: "drops_ascii s (filter_ansi s)"
proof (induction s rule: filter_ansi.induct)
  case (2 c s)
  show ?case
  proof (cases "csi_at (c # s)")
    case None
    show ?thesis
    proof (cases "is_stripped_control c")
      case True
      then have "drops_ascii s (filter_ansi s)" "byte c < 128" using 2(1) [OF None True] True by (auto simp: is_stripped_control_def)
      then show ?thesis using None True by (simp add: drops_drop)
    next
      case False
      have "drops_ascii s (filter_ansi s)" by (rule 2(2) [OF None False])
      then show ?thesis using None False by (simp add: drops_keep)
    qed
  next
    case (Some br)
    obtain body rest where br: "br = (body, rest)" by (rule prod.exhaust)
    have s: "c # s = body @ rest" using csi_at_split Some br by simp
    have "drops_ascii (body @ rest) ((if last body = CHR ''m'' then body else []) @ filter_ansi rest)"
      using 2(3) [OF Some br [symmetric]] csi_ascii [of "c # s"] Some br
      by (intro drops_append) (auto intro: drops_refl drops_all)
    then have "drops_ascii (c # s) ((if last body = CHR ''m'' then body else []) @ filter_ansi rest)" by (simp only: s)
    then show ?thesis using Some br by simp
  qed
qed (simp add: drops_Nil)

lemma filter_no_controls: "list_all (\<lambda>c. \<not> is_stripped_control c) (filter_ansi s)"
proof (induction s rule: filter_ansi.induct)
  case (2 c s)
  show ?case
  proof (cases "csi_at (c # s)")
    case None
    then show ?thesis using 2(1) [OF None] 2(2) [OF None] by (cases "is_stripped_control c") simp_all
  next
    case (Some br)
    obtain body rest where br: "br = (body, rest)" by (rule prod.exhaust)
    have "list_all (\<lambda>c. \<not> is_stripped_control c) body"
      using csi_chars [of "c # s" body rest] Some br by (simp add: list_all_iff)
    then show ?thesis using 2(3) [OF Some br [symmetric]] Some br by simp
  qed
qed simp

text \<open>The filter for terminal output keeps whole characters and no control: valid text stays valid, so the
  decoding of its result never falls back, and no control byte but tab, line feed and escape is left.\<close>

lemma filtered_text_is_clean:
  assumes "utf8_valid s"
  shows "utf8_valid (filter_ansi s) \<and> list_all (\<lambda>c. \<not> is_stripped_control c) (filter_ansi s)"
  using drops_ascii_valid [OF assms filter_drops] filter_no_controls by simp

text \<open>But the removals are not repeated: a sequence that is split by a control byte is put together by the
  filter that drops the byte.\<close>

lemma filter_ansi_joins_a_split_sequence: "filter_ansi (ESC # CHR 0x00 # ''[2J'') = ESC # ''[2J''"
  by code_simp

end
