(* ===== verification/Screens.thy ===== *)
theory Screens
  imports Widgets Registry
begin

text \<open>The screens over the explorer, \<^verbatim>\<open>mandala-tui/src/screen.rs\<close>, as the pure data that the file keeps apart
  from drawing: the confirm and reboot dialogs, a task's output, the log of an attached run, the deploy
  view and the list of runs. Text is the bytes of the source; styles and layout are left out.\<close>

definition SCROLLBACK_MAX :: nat where
  "SCROLLBACK_MAX = 8000"

definition REBOOT_UNAVAILABLE :: string where
  "REBOOT_UNAVAILABLE = ''no ans-reboot wrapper or playbooks/reboot.yaml '' @ EM_DASH @ '' reboot task unavailable''"

definition fmt_rc :: "int option \<Rightarrow> string" where
  "fmt_rc rc = (case rc of None \<Rightarrow> ''None'' | Some n \<Rightarrow> show_int n)"

section \<open>Dialogs\<close>

record confirm_state =
  cf_message :: string
  cf_target :: string
  cf_boot :: bool
  cf_halt :: bool

definition confirm_new :: "string \<Rightarrow> string \<Rightarrow> confirm_state" where
  "confirm_new message target = \<lparr>cf_message = message, cf_target = target, cf_boot = False, cf_halt = False\<rparr>"

definition check_box :: "bool \<Rightarrow> string" where
  "check_box b = ''['' @ (if b then ''x'' else '' '') @ '']''"

definition run_cancel_line :: string where
  "run_cancel_line = ''y to run   esc to cancel''"

definition confirm_lines :: "confirm_state \<Rightarrow> string list" where
  "confirm_lines c =
    split_on (CHR 0x0A) (cf_message c) @
    [[], check_box (cf_boot c) @ '' Use boot activation for every target (b to toggle)'',
     check_box (cf_halt c) @ '' Halt on build failure (h to toggle)'',
     ''Default: deploy targets that build successfully.'', [], run_cancel_line]"

definition ORDERS :: "(char \<times> string \<times> string) list" where
  "ORDERS =
    [(CHR ''1'', ''Serial '' @ EM_DASH @ '' one host at a time'', ''1''),
     (CHR ''2'', ''Rolling '' @ EM_DASH @ '' 2 hosts in flight'', ''2''),
     (CHR ''3'', ''All-at-once '' @ EM_DASH @ '' every targeted host together'', ''100%'')]"

record reboot_state =
  rb_target :: string
  rb_order :: char
  rb_drain :: bool

definition reboot_new :: "string \<Rightarrow> reboot_state" where
  "reboot_new target = \<lparr>rb_target = target, rb_order = CHR ''1'', rb_drain = True\<rparr>"

definition set_order :: "char \<Rightarrow> reboot_state \<Rightarrow> reboot_state" where
  "set_order key r = (if list_ex (\<lambda>(k, _, _). k = key) ORDERS then r\<lparr>rb_order := key\<rparr> else r)"

definition toggle_drain :: "reboot_state \<Rightarrow> reboot_state" where
  "toggle_drain r = r\<lparr>rb_drain := \<not> rb_drain r\<rparr>"

definition reboot_choice :: "reboot_state \<Rightarrow> string \<times> bool" where
  "reboot_choice r =
    ((case List.find (\<lambda>(k, _, _). k = rb_order r) ORDERS of Some (_, _, serial) \<Rightarrow> serial | None \<Rightarrow> ''1''), rb_drain r)"

definition radio :: "bool \<Rightarrow> string" where
  "radio on = [CHR 0xE2, CHR 0x97, if on then CHR 0x8F else CHR 0x8B]"

definition reboot_lines :: "reboot_state \<Rightarrow> string list" where
  "reboot_lines r =
    [''Reboot '' @ [CHR 0x27] @ rb_target r @ [CHR 0x27] @ ''?'', [], ''Order (1/2/3)''] @
    map (\<lambda>(key, label, _). ''  '' @ radio (key = rb_order r) @ '' '' @ label) ORDERS @
    [[], ''k8s (d)'',
     ''  '' @ radio (rb_drain r) @
       (if rb_drain r then '' Drain-safe: cordon & drain k8s nodes first''
        else '' Skip drain: reboot k8s nodes without draining''),
     [], run_cancel_line]"

section \<open>Task output\<close>

record task_state =
  ta_title :: string
  ta_id :: nat
  ta_lines :: "string list"
  ta_scroll :: scroll_state
  ta_rc :: "int option"
  ta_launched :: bool
  ta_after_mutation :: bool

definition task_new :: "string \<Rightarrow> nat \<Rightarrow> bool \<Rightarrow> task_state" where
  "task_new title task_id after = \<lparr>ta_title = title, ta_id = task_id, ta_lines = [], ta_scroll = scroll_default,
    ta_rc = None, ta_launched = False, ta_after_mutation = after\<rparr>"

definition task_push_line :: "string \<Rightarrow> task_state \<Rightarrow> task_state" where
  "task_push_line l t =
    (let q = push_capped SCROLLBACK_MAX l (ta_lines t)
     in t\<lparr>ta_lines := q, ta_scroll := update_content (length q) (ta_scroll t)\<rparr>)"

definition task_exited :: "int \<Rightarrow> task_state \<Rightarrow> task_state" where
  "task_exited rc t = task_push_line (EM_DASH @ '' exit '' @ show_int rc) (t\<lparr>ta_rc := Some rc\<rparr>)"

section \<open>The log of an attached run\<close>

datatype log_line = RawLine string | NoticeLine string bool

record attached_state =
  at_title :: string
  at_run_id :: string
  at_offset :: nat
  at_lines :: "log_line list"
  at_scroll :: scroll_state
  at_settled :: bool
  at_after_mutation :: bool
  at_standalone :: bool

definition attached_new :: "string \<Rightarrow> string \<Rightarrow> bool \<Rightarrow> attached_state" where
  "attached_new title run_id after = \<lparr>at_title = title, at_run_id = run_id, at_offset = 0, at_lines = [],
    at_scroll = scroll_default, at_settled = False, at_after_mutation = after, at_standalone = False\<rparr>"

text \<open>\<open>file\<close> is the log as it is now, \<^const>\<open>None\<close> when it cannot be opened. A seek past the end is no error.\<close>

definition read_from_offset :: "string option \<Rightarrow> nat \<Rightarrow> string \<times> nat" where
  "read_from_offset file offset =
    (case file of
       None \<Rightarrow> ([], offset)
     | Some bytes \<Rightarrow> let chunk = drop offset bytes in (utf8_lossy chunk, offset + length chunk))"

text \<open>A run as the registry shows it: its log, its liveness and the recorded exit code.\<close>

record observed_run =
  ob_log :: "string option"
  ob_liveness :: run_liveness
  ob_rc :: "int option"

definition attached_push :: "log_line \<Rightarrow> attached_state \<Rightarrow> attached_state" where
  "attached_push l s = s\<lparr>at_lines := push_capped SCROLLBACK_MAX l (at_lines s)\<rparr>"

definition attached_resize :: "attached_state \<Rightarrow> attached_state" where
  "attached_resize s = s\<lparr>at_scroll := update_content (length (at_lines s)) (at_scroll s)\<rparr>"

definition attached_pump :: "observed_run option \<Rightarrow> attached_state \<Rightarrow> attached_state" where
  "attached_pump obs s =
    (case obs of
       None \<Rightarrow>
         if at_settled s then s
         else attached_resize (attached_push (NoticeLine (''run '' @ at_run_id s @ '' is gone (pruned?)'') True)
           (s\<lparr>at_settled := True\<rparr>))
     | Some ob \<Rightarrow>
         (case read_from_offset (ob_log ob) (at_offset s) of
            (chunk, offset) \<Rightarrow>
              let s = fold (\<lambda>l. attached_push (RawLine l)) (str_lines chunk) (s\<lparr>at_offset := offset\<rparr>)
              in if at_settled s then s
                 else
                   attached_resize
                     (if ob_liveness ob \<noteq> Running then
                        attached_push
                          (NoticeLine (EM_DASH @ '' '' @ liveness_str (ob_liveness ob) @ '' (rc='' @ fmt_rc (ob_rc ob) @ '')'')
                            (ob_liveness ob \<noteq> run_liveness.Finished))
                          (s\<lparr>at_settled := True\<rparr>)
                      else s)))"

definition attached_close_rc :: "observed_run option \<Rightarrow> int option" where
  "attached_close_rc obs =
    (case obs of
       None \<Rightarrow> None
     | Some ob \<Rightarrow> if ob_liveness ob = Running then None else ob_rc ob)"

section \<open>The list of runs\<close>

record run_row =
  rr_run_id :: string
  rr_kind :: string
  rr_limit :: string
  rr_live :: bool
  rr_rc :: "int option"

definition run_status :: "run_row \<Rightarrow> string" where
  "run_status r =
    (if rr_live r then ''running''
     else (case rr_rc r of None \<Rightarrow> ''unknown'' | Some rc \<Rightarrow> if rc = 0 then ''ok'' else ''rc='' @ show_int rc))"

record runs_state =
  rs_rows :: "run_row list"
  rs_cursor :: nat

definition run_row_of :: "(int option \<Rightarrow> bool) \<Rightarrow> run_info \<Rightarrow> run_row" where
  "run_row_of alive info =
    (let m = ri_meta info
     in \<lparr>rr_run_id = ri_run_id info, rr_kind = run_kind m, rr_limit = opt_default [] (Option.bind (map_of m ''limit'') as_str),
          rr_live = alive (run_pid m), rr_rc = Option.bind (map_of m ''rc'') as_i64\<rparr>)"

definition runs_load :: "(int option \<Rightarrow> bool) \<Rightarrow> run_info list \<Rightarrow> runs_state" where
  "runs_load alive infos = \<lparr>rs_rows = map (run_row_of alive) infos, rs_cursor = 0\<rparr>"

definition runs_selected :: "runs_state \<Rightarrow> run_row option" where
  "runs_selected r = list_get (rs_cursor r) (rs_rows r)"

definition runs_move :: "int \<Rightarrow> runs_state \<Rightarrow> runs_state" where
  "runs_move delta r =
    (if rs_rows r = [] then r
     else r\<lparr>rs_cursor := nat (min (max (int (rs_cursor r) + delta) 0) (int (length (rs_rows r) - 1)))\<rparr>)"

section \<open>The deploy view\<close>

fun host_state_glyph :: "host_state \<Rightarrow> string" where
  "host_state_glyph HPending = [CHR 0xE2, CHR 0x97, CHR 0x8B]"
| "host_state_glyph HEvaluating = [CHR 0xE2, CHR 0x80, CHR 0xA6]"
| "host_state_glyph HBuilding = [CHR 0xE2, CHR 0x9A, CHR 0x99]"
| "host_state_glyph HCopying = [CHR 0xE2, CHR 0x87, CHR 0x84]"
| "host_state_glyph HActivating = [CHR 0xE2, CHR 0x9A, CHR 0xA1]"
| "host_state_glyph HWaiting = [CHR 0xE2, CHR 0x8F, CHR 0xB3]"
| "host_state_glyph HConfirmed = [CHR 0xE2, CHR 0x9C, CHR 0x93]"
| "host_state_glyph HRebootPending = [CHR 0xE2, CHR 0x86, CHR 0xBB]"
| "host_state_glyph HRolledBack = [CHR 0xE2, CHR 0x86, CHR 0xA9]"
| "host_state_glyph HFailed = [CHR 0xE2, CHR 0x9C, CHR 0x97]"

fun host_state_style_spec :: "host_state \<Rightarrow> string" where
  "host_state_style_spec HPending = ''dim''"
| "host_state_style_spec HEvaluating = ''cyan''"
| "host_state_style_spec HBuilding = ''cyan''"
| "host_state_style_spec HCopying = ''blue''"
| "host_state_style_spec HActivating = ''yellow''"
| "host_state_style_spec HWaiting = ''yellow''"
| "host_state_style_spec HRebootPending = ''yellow''"
| "host_state_style_spec HConfirmed = ''green''"
| "host_state_style_spec HRolledBack = ''bold red''"
| "host_state_style_spec HFailed = ''bold red''"

datatype deploy_tab = BuildTab | PlaybookTab | HostTab string | SummaryTab

record host_tab =
  ht_name :: string
  ht_state :: host_state
  ht_rc :: "int option"
  ht_lines :: "string list"

record summary_state =
  sm_head :: string
  sm_ok :: bool
  sm_meta :: string
  sm_build_line :: string
  sm_build_bad :: bool
  sm_hosts :: "(string \<times> host_state \<times> int option) list"
  sm_recap :: "string list"

record deploy_view =
  dv_limit :: string
  dv_dry_activate :: bool
  dv_boot :: bool
  dv_standalone :: bool
  dv_attached :: bool
  dv_kill_armed :: bool
  dv_after_mutation :: bool
  dv_active :: deploy_tab
  dv_build_line :: string
  dv_playbook_lines :: "string list"
  dv_playbook_scroll :: scroll_state
  dv_hosts :: "host_tab list"
  dv_host_scrolls :: "(string, scroll_state) bmap"
  dv_finished :: bool
  dv_returncode :: "int option"
  dv_summary :: "summary_state option"

definition deploy_view_new :: "string \<Rightarrow> bool \<Rightarrow> bool \<Rightarrow> bool \<Rightarrow> bool \<Rightarrow> bool \<Rightarrow> deploy_view" where
  "deploy_view_new limit dry_activate boot standalone attached after =
    \<lparr>dv_limit = limit, dv_dry_activate = dry_activate, dv_boot = boot, dv_standalone = standalone, dv_attached = attached,
      dv_kill_armed = False, dv_after_mutation = after, dv_active = BuildTab, dv_build_line = [], dv_playbook_lines = [],
      dv_playbook_scroll = scroll_default, dv_hosts = [], dv_host_scrolls = [], dv_finished = False, dv_returncode = None,
      dv_summary = None\<rparr>"

definition deploy_sub_title :: "deploy_view \<Rightarrow> string" where
  "deploy_sub_title v =
    ''-l '' @ dv_limit v @ (if dv_dry_activate v then '' (dry-activate)'' else []) @ (if dv_boot v then '' (boot)'' else []) @
    (if dv_finished v then '' '' @ EM_DASH @ '' exit '' @ fmt_rc (dv_returncode v) else [])"

definition deploy_head :: "build_model \<Rightarrow> string" where
  "deploy_head b =
    ''batch build  built '' @ show_int (bb_finished b) @ ''/'' @ show_int (bb_built b) @
    ''  fetched '' @ show_int (bb_fetched_done b) @ ''/'' @ show_int (bb_fetched b) @ ''  errors '' @ show_int (bb_errors b) @
    (if bb_done b then ''  '' @ EM_DASH @ ''  done rc='' @ fmt_rc (bb_rc b)
     else if bb_current b \<noteq> [] then ''  '' @ EM_DASH @ ''  '' @ bb_current b
     else [])"

definition host_tab_of :: "string \<times> host_run \<Rightarrow> host_tab" where
  "host_tab_of e = (case e of (_, h) \<Rightarrow>
    \<lparr>ht_name = hr_name h, ht_state = hr_state h, ht_rc = hr_rc h, ht_lines = hr_lines h\<rparr>)"

definition minutes_seconds :: "nat \<Rightarrow> string" where
  "minutes_seconds secs =
    show_nat (secs div 60) @ ''m'' @ (if secs mod 60 < 10 then ''0'' else []) @ show_nat (secs mod 60) @ ''s''"

definition make_summary :: "event_tailer option \<Rightarrow> nat \<Rightarrow> deploy_view \<Rightarrow> summary_state" where
  "make_summary tailer elapsed v =
    (let rc = dv_returncode v;
         succeeded = (rc = Some 0);
         pending = length (filter (\<lambda>h. ht_state h = HRebootPending) (dv_hosts v))
     in \<lparr>sm_head =
           (if succeeded \<and> 0 < pending then
              ''deploy succeeded '' @ EM_DASH @ '' '' @ show_nat pending @ '' host(s) require reboot''
            else if succeeded then ''deploy succeeded''
            else ''deploy FAILED (exit '' @ fmt_rc rc @ '')''),
         sm_ok = succeeded,
         sm_meta = ''   -l '' @ dv_limit v @ ''   '' @ minutes_seconds elapsed @
           (if dv_dry_activate v then ''   dry-activate'' else []) @ (if dv_boot v then ''   boot'' else []),
         sm_build_line =
           (case tailer of
              None \<Rightarrow> []
            | Some t \<Rightarrow>
                let b = et_build t
                in ''batch build: built '' @ show_int (bb_finished b) @ ''/'' @ show_int (bb_built b) @
                   '', fetched '' @ show_int (bb_fetched_done b) @ ''/'' @ show_int (bb_fetched b) @
                   '', errors '' @ show_int (bb_errors b) @ '', rc '' @ fmt_rc (bb_rc b)),
         sm_build_bad = (case tailer of None \<Rightarrow> False | Some t \<Rightarrow> bb_rc (et_build t) \<notin> {Some 0, None}),
         sm_hosts = map (\<lambda>h. (ht_name h, ht_state h, ht_rc h)) (dv_hosts v),
         sm_recap = dropWhile (\<lambda>l. \<not> contains_str ''PLAY RECAP'' l) (dv_playbook_lines v)\<rparr>)"

definition sync_hosts :: "event_tailer \<Rightarrow> deploy_view \<Rightarrow> deploy_view" where
  "sync_hosts t v =
    (let hosts = map host_tab_of (et_hosts t)
     in v\<lparr>dv_build_line := deploy_head (et_build t), dv_hosts := hosts,
          dv_host_scrolls := fold (\<lambda>h. bm_entry scroll_default (ht_name h) (update_content (length (ht_lines h)))) hosts
            (dv_host_scrolls v)\<rparr>)"

definition deploy_sync ::
  "event_tailer option \<Rightarrow> string list \<Rightarrow> bool \<Rightarrow> int option \<Rightarrow> nat \<Rightarrow> deploy_view \<Rightarrow> deploy_view" where
  "deploy_sync tailer output finished returncode elapsed v =
    (let v = (case tailer of None \<Rightarrow> v | Some t \<Rightarrow> sync_hosts t v);
         v = v\<lparr>dv_playbook_lines := output, dv_playbook_scroll := update_content (length output) (dv_playbook_scroll v)\<rparr>
     in if finished \<and> \<not> dv_finished v then
          let v = v\<lparr>dv_finished := True, dv_returncode := returncode\<rparr>
          in v\<lparr>dv_summary := Some (make_summary tailer elapsed v), dv_active := SummaryTab\<rparr>
        else v)"

definition deploy_tabs :: "deploy_view \<Rightarrow> deploy_tab list" where
  "deploy_tabs v =
    [BuildTab, PlaybookTab] @ map (\<lambda>h. HostTab (ht_name h)) (dv_hosts v) @ (if dv_summary v \<noteq> None then [SummaryTab] else [])"

fun position :: "('a \<Rightarrow> bool) \<Rightarrow> 'a list \<Rightarrow> nat option" where
  "position P [] = None"
| "position P (x # xs) = (if P x then Some 0 else map_option Suc (position P xs))"

definition cycle_tab :: "int \<Rightarrow> deploy_view \<Rightarrow> deploy_tab" where
  "cycle_tab delta v =
    (let tabs = deploy_tabs v; here = int (opt_default 0 (position (\<lambda>t. t = dv_active v) tabs))
     in tabs ! nat ((here + delta) mod int (length tabs)))"

definition on_active_scroll :: "(scroll_state \<Rightarrow> scroll_state) \<Rightarrow> deploy_view \<Rightarrow> deploy_view" where
  "on_active_scroll f v =
    (case dv_active v of
       PlaybookTab \<Rightarrow> v\<lparr>dv_playbook_scroll := f (dv_playbook_scroll v)\<rparr>
     | HostTab n \<Rightarrow> v\<lparr>dv_host_scrolls := bm_get_mut n f (dv_host_scrolls v)\<rparr>
     | _ \<Rightarrow> v)"

definition deploy_progress :: "deploy_view \<Rightarrow> nat \<times> nat" where
  "deploy_progress v = (length (filter (\<lambda>h. is_terminal (ht_state h)) (dv_hosts v)), length (dv_hosts v))"

section \<open>Scrollback\<close>

interpretation scrollback: bounded_queue "push_capped SCROLLBACK_MAX" SCROLLBACK_MAX
  by unfold_locales (simp_all add: push_capped_def SCROLLBACK_MAX_def)

text \<open>A task screen keeps the most recent output: after any output and exit, its lines are the last 8000 of
  those produced, and the scroll position covers exactly them.\<close>

lemma task_keeps_recent_output:
  "ta_lines (fold task_push_line ls (task_new title n after)) = drop (length ls - SCROLLBACK_MAX) ls \<and>
    ss_len (ta_scroll (fold task_push_line ls (task_new title n after))) = min (length ls) SCROLLBACK_MAX"
proof -
  let ?t = "\<lambda>ls. fold task_push_line ls (task_new title n after)"
  have "ta_lines (?t ls) = fold (push_capped SCROLLBACK_MAX) ls [] \<and>
      (ls \<noteq> [] \<longrightarrow> ss_len (ta_scroll (?t ls)) = length (ta_lines (?t ls))) \<and> (ls = [] \<longrightarrow> ss_len (ta_scroll (?t ls)) = 0)"
    by (induction ls rule: rev_induct)
      (simp_all add: task_push_line_def Let_def update_content_def to_bottom_def task_new_def scroll_default_def)
  then show ?thesis using scrollback.pushes_recent [of "[]" ls] by (cases "ls = []") simp_all
qed

text \<open>A pane that is scrolled up and whose buffer is full moves all the same: lines leave at the front and the
  position, which counts from the tail, is not adjusted.\<close>

lemma full_scrollback_slides:
  assumes "ss_len s = SCROLLBACK_MAX" and "\<not> ss_follow s" and "ss_offset s < SCROLLBACK_MAX"
  shows "visible_range v (update_content SCROLLBACK_MAX s) = visible_range v s"
  using assms by (simp add: visible_range_def update_content_def Let_def SCROLLBACK_MAX_def)

section \<open>The attached log\<close>

text \<open>The pumps of an attached log read the file from where the last one stopped, so that while the log only
  grows, what they read together is the log.\<close>

fun read_all :: "string list \<Rightarrow> nat \<Rightarrow> string list \<times> nat" where
  "read_all [] offset = ([], offset)"
| "read_all (file # files) offset =
    (case read_all files (snd (read_from_offset (Some file) offset)) of
       (chunks, last_offset) \<Rightarrow> (drop offset file # chunks, last_offset))"

lemma offset_grows [simp]: "offset \<le> length file \<Longrightarrow> snd (read_from_offset (Some file) offset) = length file"
  by (simp add: read_from_offset_def)

text \<open>The tail of an attached log neither skips nor repeats a byte: while the log of a run only grows, the
  pieces read by successive polls are, put together, the log from the first position to the last.\<close>

lemma attached_log_reads_every_byte_once:
  assumes "sorted_wrt prefix files" and "files \<noteq> []" and "offset \<le> length (hd files)"
  shows "concat (fst (read_all files offset)) = drop offset (last files) \<and>
    snd (read_all files offset) = length (last files)"
  using assms
proof (induction files arbitrary: offset)
  case (Cons f0 files)
  show ?case
  proof (cases files)
    case Nil
    then show ?thesis using Cons.prems by simp
  next
    case (Cons g gs)
    have pre: "prefix f0 (hd files)" using Cons.prems(1) Cons by simp
    obtain rest where rest: "last files = f0 @ rest"
      using Cons.prems(1) Cons by (metis last_in_set list.simps(3) prefixE sorted_wrt.simps(2))
    have IH: "concat (fst (read_all files (length f0))) = drop (length f0) (last files) \<and>
        snd (read_all files (length f0)) = length (last files)"
      using Cons.IH [of "length f0"] Cons.prems(1) pre Cons by (simp add: prefix_length_le)
    obtain chunks n where cn: "read_all files (length f0) = (chunks, n)" by (rule prod.exhaust)
    have "concat chunks = rest" "n = length (last files)" using IH cn rest by simp_all
    then show ?thesis using Cons.prems(3) cn rest Cons by simp
  qed
qed simp

section \<open>Tabs and the summary\<close>

lemma position_lt: "position P xs = Some i \<Longrightarrow> i < length xs \<and> P (xs ! i)"
  by (induction xs arbitrary: i) (auto split: if_splits)

lemma position_nth: "distinct xs \<Longrightarrow> i < length xs \<Longrightarrow> position (\<lambda>t. t = xs ! i) xs = Some i"
proof (induction xs arbitrary: i)
  case (Cons x xs)
  then show ?case by (cases i) auto
qed simp

text \<open>Cycling through the tabs of a deploy never leaves them and can be undone: the next tab is one of the
  bar, and when the names of the hosts are distinct, going forward and back ends where it began.\<close>

lemma cycling_tabs_is_undone:
  assumes "distinct (map ht_name (dv_hosts v))" and "dv_active v \<in> set (deploy_tabs v)"
  shows "cycle_tab d v \<in> set (deploy_tabs v) \<and> cycle_tab (- d) (v\<lparr>dv_active := cycle_tab d v\<rparr>) = dv_active v"
proof -
  let ?tabs = "deploy_tabs v" and ?n = "int (length (deploy_tabs v))"
  have dist: "distinct ?tabs" using assms(1) by (auto simp: deploy_tabs_def distinct_map comp_def inj_on_def)
  have pos: "0 < ?n" by (simp add: deploy_tabs_def)
  obtain i where i: "i < length ?tabs" "?tabs ! i = dv_active v" using assms(2) by (auto simp: in_set_conv_nth)
  define j where "j = nat ((int i + d) mod ?n)"
  have j: "j < length ?tabs" "int j = (int i + d) mod ?n"
    using pos pos_mod_bound [of ?n "int i + d"] pos_mod_sign [of ?n "int i + d"] by (simp_all add: j_def nat_less_iff)
  have step: "cycle_tab d v = ?tabs ! j"
    using position_nth [OF dist i(1)] i(2) by (simp add: cycle_tab_def j_def Let_def)
  have tabs: "deploy_tabs (v\<lparr>dv_active := t\<rparr>) = ?tabs" for t by (simp add: deploy_tabs_def)
  have "(int j + - d) mod ?n = int i mod ?n" unfolding j(2) by (simp add: mod_simps)
  then have "nat ((int j + - d) mod ?n) = i" using i(1) by simp
  then have "cycle_tab (- d) (v\<lparr>dv_active := ?tabs ! j\<rparr>) = ?tabs ! i"
    using position_nth [OF dist j(1)] by (simp add: cycle_tab_def tabs Let_def)
  then show ?thesis using step i(2) j(1) by simp
qed

text \<open>A poll of the deploy view, with the tailer, the output, whether the run is over, its exit code and the
  elapsed seconds.\<close>

type_synonym deploy_poll = "event_tailer option \<times> string list \<times> bool \<times> int option \<times> nat"

definition deploy_synced :: "deploy_poll list \<Rightarrow> deploy_view \<Rightarrow> deploy_view" where
  "deploy_synced = fold (\<lambda>(tailer, output, finished, rc, elapsed). deploy_sync tailer output finished rc elapsed)"

lemma sync_hosts_frame [simp]:
  "dv_finished (sync_hosts t v) = dv_finished v" "dv_summary (sync_hosts t v) = dv_summary v"
  "dv_returncode (sync_hosts t v) = dv_returncode v"
  by (simp_all add: sync_hosts_def Let_def)

lemma sync_after_finish:
  "dv_finished v \<Longrightarrow> dv_summary (deploy_sync tlr out fin rc el v) = dv_summary v \<and>
    dv_returncode (deploy_sync tlr out fin rc el v) = dv_returncode v \<and> dv_finished (deploy_sync tlr out fin rc el v)"
  by (simp add: deploy_sync_def Let_def split: option.split)

lemma synced_after_finish:
  "dv_finished v \<Longrightarrow> dv_summary (deploy_synced ps v) = dv_summary v \<and> dv_returncode (deploy_synced ps v) = dv_returncode v"
proof (induction ps arbitrary: v)
  case (Cons p ps)
  obtain tlr out fin rc el where p: "p = (tlr, out, fin, rc, el)" by (cases p) auto
  then show ?case using Cons.IH [of "deploy_sync tlr out fin rc el v"] sync_after_finish [OF Cons.prems]
    by (simp add: deploy_synced_def)
qed (simp add: deploy_synced_def)

text \<open>The verdict on the deploy screen is given once: from the first poll that finds the run over, whatever
  later polls report, the summary stays, and it says success exactly when the exit code of that poll
  was zero.\<close>

lemma summary_is_final:
  assumes "\<not> dv_finished v" and "fin"
  shows "\<exists>s. dv_summary (deploy_synced ((tlr, out, fin, rc, el) # ps) v) = Some s \<and> (sm_ok s \<longleftrightarrow> rc = Some 0) \<and>
    dv_returncode (deploy_synced ((tlr, out, fin, rc, el) # ps) v) = rc"
proof -
  let ?v = "deploy_sync tlr out fin rc el v"
  have first: "dv_finished ?v" "dv_returncode ?v = rc" "\<exists>s. dv_summary ?v = Some s \<and> (sm_ok s \<longleftrightarrow> rc = Some 0)"
    using assms by (auto simp: deploy_sync_def make_summary_def Let_def split: option.split)
  then show ?thesis using synced_after_finish [OF first(1), of ps] by (simp add: deploy_synced_def)
qed

end
