(* ===== verification/Explorer.thy ===== *)
theory Explorer
  imports Widgets Drift BoundedQueue
begin

text \<open>The explorer of the terminal interface, \<^verbatim>\<open>mandala-tui/src/state.rs\<close>, with the dispatch of background
  results in \<^verbatim>\<open>app.rs\<close> (\<^verbatim>\<open>on_app_event\<close>, \<^verbatim>\<open>apply_mcp_follow_up\<close>). The state is pure data, and a transition
  returns the background work to start. The open screen is left out. Instants count nanoseconds.\<close>

section \<open>State\<close>

definition MCP_LOG_MAX :: nat where
  "MCP_LOG_MAX = 2000"

datatype context_role = RoleLeader | RoleObserver

record mcp_pending =
  mp_tool :: string
  mp_origin :: "string option"
  mp_args :: string

record mcp_entry =
  ml_tool :: string
  ml_origin :: "string option"
  ml_args :: string
  ml_label :: string
  ml_ok :: bool
  ml_detail :: "string option"

datatype mcp_follow_up = FollowAttach string "string option" | FollowDriftLanded | FollowReloadLanded

text \<open>The ten frames of the spinner.\<close>

definition SPINNER_FRAMES :: "string list" where
  "SPINNER_FRAMES = map (\<lambda>b. [CHR 0xE2, CHR 0xA0, b])
    [CHR 0x8B, CHR 0x99, CHR 0xB9, CHR 0xB8, CHR 0xBC, CHR 0xB4, CHR 0xA6, CHR 0xA7, CHR 0x87, CHR 0x8F]"

datatype tab = MembersTab | GroupsTab | DriftTab

definition ALL_TABS :: "tab list" where
  "ALL_TABS = [MembersTab, GroupsTab, DriftTab]"

fun tab_title :: "tab \<Rightarrow> string" where
  "tab_title MembersTab = ''members''"
| "tab_title GroupsTab = ''groups''"
| "tab_title DriftTab = ''drift''"

fun tab_next :: "tab \<Rightarrow> tab" where
  "tab_next MembersTab = GroupsTab"
| "tab_next GroupsTab = DriftTab"
| "tab_next DriftTab = MembersTab"

fun tab_prev :: "tab \<Rightarrow> tab" where
  "tab_prev MembersTab = DriftTab"
| "tab_prev GroupsTab = MembersTab"
| "tab_prev DriftTab = GroupsTab"

record member_row =
  mr_name :: string
  mr_platform :: string
  mr_arch :: string
  mr_category :: string
  mr_role :: string
  mr_tags :: string
  mr_surfaces :: string

record group_row =
  gr_name :: string
  gr_n :: string
  gr_members :: string

record drift_row =
  dr_name :: string
  dr_status :: drift_status
  dr_current :: string
  dr_expected :: string
  dr_booted :: string
  dr_captured :: string

record loaded_inventory =
  li_inventory :: inventory
  li_rev :: "string option"
  li_cached_rev :: "string option"
  li_cached :: "(string, string) bmap"

record load_request =
  lr_generation :: nat
  lr_fresh :: bool

record app_state =
  as_tab :: tab
  as_members_table :: select_table
  as_member_rows :: "member_row list"
  as_groups_table :: select_table
  as_group_rows :: "group_row list"
  as_drift_table :: select_table
  as_drift_rows :: "drift_row list"
  as_drift_hint :: string
  as_inventory :: "inventory option"
  as_expected :: "toplevels option"
  as_rev :: "string option"
  as_cached_rev :: "string option"
  as_generation :: nat
  as_busy :: bool
  as_eval_running :: bool
  as_eval_pending :: bool
  as_reload_pending :: bool
  as_surveying :: bool
  as_survey_n :: nat
  as_status :: string
  as_status_sticky :: bool
  as_spin :: nat
  as_debug_mcp :: bool
  as_mcp_panel :: bool
  as_mcp_pending :: "(nat, mcp_pending) bmap"
  as_mcp_log :: "mcp_entry list"
  as_mcp_scroll :: scroll_state
  as_context_role :: "context_role option"
  as_mcp_client :: "string option"
  as_fresh_wanted :: bool

definition app_state_new :: app_state where
  "app_state_new = \<lparr>as_tab = MembersTab, as_members_table = no_rows, as_member_rows = [], as_groups_table = no_rows,
    as_group_rows = [], as_drift_table = no_rows, as_drift_rows = [], as_drift_hint = [], as_inventory = None,
    as_expected = None, as_rev = None, as_cached_rev = None, as_generation = 0, as_busy = False,
    as_eval_running = False, as_eval_pending = False, as_reload_pending = False, as_surveying = False,
    as_survey_n = 0, as_status = [], as_status_sticky = False, as_spin = 0, as_debug_mcp = False, as_mcp_panel = True,
    as_mcp_pending = [], as_mcp_log = [], as_mcp_scroll = scroll_default, as_context_role = None,
    as_mcp_client = None, as_fresh_wanted = False\<rparr>"

definition active_table :: "app_state \<Rightarrow> select_table" where
  "active_table s =
    (case as_tab s of
       MembersTab \<Rightarrow> as_members_table s
     | GroupsTab \<Rightarrow> as_groups_table s
     | DriftTab \<Rightarrow> as_drift_table s)"

definition on_active_table :: "(select_table \<Rightarrow> select_table) \<Rightarrow> app_state \<Rightarrow> app_state" where
  "on_active_table f s =
    (case as_tab s of
       MembersTab \<Rightarrow> s\<lparr>as_members_table := f (as_members_table s)\<rparr>
     | GroupsTab \<Rightarrow> s\<lparr>as_groups_table := f (as_groups_table s)\<rparr>
     | DriftTab \<Rightarrow> s\<lparr>as_drift_table := f (as_drift_table s)\<rparr>)"

definition action_target :: "app_state \<Rightarrow> string option" where
  "action_target s =
    (let table = active_table s; picked = selected_names table
     in if picked \<noteq> [] then Some (join '','' picked) else cursor_name table)"

definition deploy_target :: "app_state \<Rightarrow> string option" where
  "deploy_target s =
    (case action_target s of
       None \<Rightarrow> None
     | Some target \<Rightarrow>
         if as_tab s \<noteq> GroupsTab then Some target
         else Some (join '','' (map (\<lambda>g. ''@'' @ g) (split_on (CHR '','') target))))"

section \<open>The status line\<close>

definition set_status :: "string \<Rightarrow> bool \<Rightarrow> app_state \<Rightarrow> app_state" where
  "set_status msg error s =
    (if error \<or> \<not> as_status_sticky s then s\<lparr>as_status := msg, as_status_sticky := error\<rparr> else s)"

definition jobs :: "app_state \<Rightarrow> string list" where
  "jobs s =
    (if as_busy s then [''eval''] else []) @
    (if as_surveying s then
       [if 0 < as_survey_n s then ''survey ('' @ show_nat (as_survey_n s) @ '' read)'' else ''survey'']
     else []) @
    (if as_debug_mcp s then map (\<lambda>p. ''mcp '' @ mp_tool p) (bm_values (as_mcp_pending s)) else [])"

definition any_job_running :: "app_state \<Rightarrow> bool" where
  "any_job_running s \<longleftrightarrow> as_busy s \<or> as_surveying s \<or> (as_debug_mcp s \<and> as_mcp_pending s \<noteq> [])"

definition status_line :: "app_state \<Rightarrow> string" where
  "status_line s =
    (if jobs s = [] then as_status s
     else SPINNER_FRAMES ! (as_spin s mod length SPINNER_FRAMES) @ '' running   '' @
       join (''   '' @ MIDDLE_DOT @ ''   '') (jobs s))"

text \<open>The counter is a \<^verbatim>\<open>usize\<close> and wraps.\<close>

definition tick_spinner :: "app_state \<Rightarrow> bool \<times> app_state" where
  "tick_spinner s = (if any_job_running s then (True, s\<lparr>as_spin := wrap_add (as_spin s) 1\<rparr>) else (False, s))"

section \<open>Loads and reloads\<close>

definition request_load :: "app_state \<Rightarrow> load_request option \<times> app_state" where
  "request_load s =
    (if as_busy s then (None, s\<lparr>as_reload_pending := True\<rparr>)
     else
       (Some \<lparr>lr_generation = as_generation s, lr_fresh = as_fresh_wanted s\<rparr>,
        s\<lparr>as_busy := True, as_fresh_wanted := False\<rparr>))"

definition request_rebind :: "bool \<Rightarrow> app_state \<Rightarrow> load_request option \<times> app_state" where
  "request_rebind fresh s =
    request_load (s\<lparr>as_generation := as_generation s + 1, as_inventory := None, as_expected := None,
      as_fresh_wanted := as_fresh_wanted s \<or> fresh\<rparr>)"

definition request_reload :: "app_state \<Rightarrow> load_request option \<times> app_state" where
  "request_reload = request_rebind True"

definition request_inventory_swap :: "app_state \<Rightarrow> load_request option \<times> app_state" where
  "request_inventory_swap = request_rebind False"

definition consume_pending_reload :: "app_state \<Rightarrow> load_request option \<times> app_state" where
  "consume_pending_reload s =
    (if as_reload_pending s \<and> \<not> as_busy s then request_load (s\<lparr>as_reload_pending := False\<rparr>) else (None, s))"

definition field_or :: "json option \<Rightarrow> string \<Rightarrow> string" where
  "field_or v d = opt_default d (Option.bind v as_str)"

definition role_or_dash :: "json option \<Rightarrow> string" where
  "role_or_dash v = (case Option.bind v as_str of Some r \<Rightarrow> if r \<noteq> [] then r else ''-'' | None \<Rightarrow> ''-'')"

definition join_tags :: "json option \<Rightarrow> string" where
  "join_tags v = (case Option.bind v as_array of None \<Rightarrow> [] | Some arr \<Rightarrow> join '' '' (List.map_filter as_str arr))"

definition explorer_short_store :: "string option \<Rightarrow> string" where
  "explorer_short_store p =
    (let p = opt_default [] p in take_chars 18 (opt_default p (strip_prefix ''/nix/store/'' p)))"

definition drift_hint :: "bool \<Rightarrow> string option \<Rightarrow> string option \<Rightarrow> string" where
  "drift_hint expected_known revision cached_rev =
    ''S refresh drift (survey + eval) '' @ MIDDLE_DOT @ '' R reboot a reboot-pending row'' @
    (if expected_known then ''   expected @ '' @ short_rev revision
     else if cached_rev \<noteq> None then
       ''   contract MOVED since last eval (cache @ '' @ short_rev cached_rev @ '', repo @ '' @ short_rev revision @ '') '' @
       EM_DASH @ '' press S''
     else ''   (expected NOT evaluated yet '' @ EM_DASH @ '' press S)'')"

definition state_deploy_nodes :: "app_state \<Rightarrow> string list" where
  "state_deploy_nodes s = (case as_inventory s of None \<Rightarrow> [] | Some iv \<Rightarrow> deploy_nodes iv)"

text \<open>The surroundings: \<^verbatim>\<open>parse_iso\<close>, the snapshots on disk and the clock.\<close>

record drift_inputs =
  di_parse :: "string \<Rightarrow> int option"
  di_snapshots :: "(string, snapshot) bmap"
  di_now :: int

definition drift_row_of :: "drift_entry \<Rightarrow> drift_row" where
  "drift_row_of e = \<lparr>dr_name = de_host e, dr_status = de_status e, dr_current = explorer_short_store (de_current e),
    dr_expected = explorer_short_store (de_expected e), dr_booted = explorer_short_store (de_booted e),
    dr_captured = take_chars 19 (opt_default [] (de_captured_at e))\<rparr>"

definition fill_drift :: "drift_inputs \<Rightarrow> app_state \<Rightarrow> app_state" where
  "fill_drift io s =
    (let entries = drift_compare (di_parse io) (state_deploy_nodes s) (di_snapshots io) (as_expected s)
           (Some default_max_age) (di_now io);
         rows = map drift_row_of entries
     in s\<lparr>as_drift_rows := rows, as_drift_table := reset_rows (map dr_name rows) (as_drift_table s),
          as_drift_hint := drift_hint (as_expected s \<noteq> None) (as_rev s) (as_cached_rev s)\<rparr>)"

definition member_row_of :: "string \<times> member \<Rightarrow> member_row" where
  "member_row_of nm =
    (case nm of (name, m) \<Rightarrow>
      \<lparr>mr_name = name, mr_platform = field_or (map_of m ''platform'') ''?'', mr_arch = field_or (map_of m ''architecture'') ''?'',
        mr_category = field_or (map_of m ''category'') ''?'', mr_role = role_or_dash (map_of m ''role''),
        mr_tags = join_tags (map_of m ''tags''), mr_surfaces = surfaces m\<rparr>)"

definition group_row_of :: "string \<times> string list \<Rightarrow> group_row" where
  "group_row_of gn = (case gn of (grp, names) \<Rightarrow>
    \<lparr>gr_name = grp, gr_n = show_nat (length names), gr_members = join '' '' (sort names)\<rparr>)"

definition loaded_status :: "inventory \<Rightarrow> string" where
  "loaded_status iv =
    show_nat (length (members iv)) @ '' members, '' @ show_nat (length (groups iv)) @ '' groups '' @ EM_DASH @
    '' space/shift+'' @ [CHR 0xE2, CHR 0x86, CHR 0x91, CHR 0xE2, CHR 0x86, CHR 0x93] @ '' select '' @ MIDDLE_DOT @
    '' p ping '' @ MIDDLE_DOT @ '' R reboot '' @ MIDDLE_DOT @ '' D deploy''"

definition state_fill :: "drift_inputs \<Rightarrow> loaded_inventory \<Rightarrow> app_state \<Rightarrow> load_request option \<times> app_state" where
  "state_fill io li s =
    (let iv = li_inventory li;
         s = s\<lparr>as_rev := li_rev li, as_cached_rev := li_cached_rev li\<rparr>;
         s = (if cache_fresh (li_cached_rev li) (li_rev li) then s\<lparr>as_expected := Some (toplevels_from (li_cached li))\<rparr> else s);
         rows = map member_row_of (members iv);
         grows = map group_row_of (groups iv);
         s = s\<lparr>as_member_rows := rows, as_members_table := reset_rows (map mr_name rows) (as_members_table s),
               as_group_rows := grows, as_groups_table := reset_rows (map gr_name grows) (as_groups_table s),
               as_inventory := Some iv\<rparr>;
         s = (fill_drift io s)\<lparr>as_busy := False\<rparr>
     in consume_pending_reload (set_status (loaded_status iv) False s))"

definition on_load_finished ::
  "drift_inputs \<Rightarrow> nat \<Rightarrow> (string, loaded_inventory) result \<Rightarrow> app_state \<Rightarrow> load_request option \<times> app_state" where
  "on_load_finished io generation outcome s =
    (if generation \<noteq> as_generation s then consume_pending_reload (s\<lparr>as_busy := False\<rparr>)
     else
       (case outcome of
          Inl error \<Rightarrow>
            let last_line = opt_default ''unknown'' (list_last (str_lines error));
                last_line = (if last_line = [] then ''unknown'' else last_line)
            in consume_pending_reload (set_status (''aggregate eval failed: '' @ last_line) True (s\<lparr>as_busy := False\<rparr>))
        | Inr li \<Rightarrow> state_fill io li s))"

section \<open>Drift refreshes\<close>

definition request_eval_expected :: "app_state \<Rightarrow> bool \<times> app_state" where
  "request_eval_expected s =
    (if as_busy s then (False, if as_eval_running s then s else s\<lparr>as_eval_pending := True\<rparr>)
     else (True, s\<lparr>as_busy := True, as_eval_running := True\<rparr>))"

definition start_pending_eval_expected :: "app_state \<Rightarrow> bool \<times> app_state" where
  "start_pending_eval_expected s =
    (if as_busy s \<or> \<not> as_eval_pending s then (False, s)
     else (True, s\<lparr>as_eval_pending := False, as_busy := True, as_eval_running := True\<rparr>))"

definition request_survey :: "app_state \<Rightarrow> bool \<times> app_state" where
  "request_survey s =
    (if as_surveying s then (False, s) else (True, s\<lparr>as_surveying := True, as_survey_n := 0\<rparr>))"

definition refresh_drift :: "app_state \<Rightarrow> (bool \<times> bool) \<times> app_state" where
  "refresh_drift s =
    (case request_eval_expected (s\<lparr>as_status_sticky := False\<rparr>) of
       (e, s) \<Rightarrow> (case request_survey s of (v, s) \<Rightarrow> ((e, v), s)))"

definition partial_failure :: "toplevels \<Rightarrow> string option" where
  "partial_failure t =
    (if is_complete t then None
     else Some (''eval failed for '' @ show_nat (length (tl_errors t)) @ '' host(s): '' @ join '', '' (bm_keys (tl_errors t))))"

definition on_drift_eval_finished ::
  "drift_inputs \<Rightarrow> (string, string option \<times> toplevels) result \<Rightarrow> app_state \<Rightarrow> load_request option \<times> app_state" where
  "on_drift_eval_finished io outcome s =
    (let s = s\<lparr>as_busy := False, as_eval_running := False\<rparr>;
         (error, s) = (case outcome of
              Inr (revision, expected) \<Rightarrow>
                (partial_failure expected, s\<lparr>as_rev := revision, as_cached_rev := revision, as_expected := Some expected\<rparr>)
            | Inl e \<Rightarrow> (Some e, s\<lparr>as_expected := None\<rparr>));
         s = fill_drift io s
     in consume_pending_reload
          (case error of Some e \<Rightarrow> set_status e True s | None \<Rightarrow> set_status ''drift refreshed'' False s))"

definition on_survey_progress :: "nat \<Rightarrow> app_state \<Rightarrow> app_state" where
  "on_survey_progress n s = s\<lparr>as_survey_n := n\<rparr>"

definition on_survey_done :: "drift_inputs \<Rightarrow> nat \<Rightarrow> int \<Rightarrow> string option \<Rightarrow> app_state \<Rightarrow> app_state" where
  "on_survey_done io n rc error s =
    (let s = fill_drift io (s\<lparr>as_surveying := False, as_survey_n := n\<rparr>)
     in if rc = 0 then
          set_status (''drift refreshed '' @ MIDDLE_DOT @ '' surveyed '' @ show_nat n @ '' host'' @ (if n = 1 then [] else ''s'')) False s
        else
          set_status (trim_end (''survey failed (exit '' @ show_int rc @ ''): '' @ opt_default [] error)) True s)"

definition after_mutation :: "int option \<Rightarrow> app_state \<Rightarrow> (bool \<times> bool) \<times> app_state" where
  "after_mutation rc s = (if rc \<noteq> None then refresh_drift s else ((False, False), s))"

section \<open>Activity of the context\<close>

definition is_own_call :: "app_state \<Rightarrow> string option \<Rightarrow> bool" where
  "is_own_call s origin =
    (case as_context_role s of
       Some RoleLeader \<Rightarrow> origin = None
     | Some RoleObserver \<Rightarrow> origin \<noteq> None \<and> origin = as_mcp_client s
     | None \<Rightarrow> False)"

text \<open>\<open>render\<close> is the text of a value; \<open>tenths\<close> the elapsed seconds of a number with one decimal.\<close>

definition py_repr :: "(json \<Rightarrow> string) \<Rightarrow> json \<Rightarrow> string" where
  "py_repr render v =
    (case v of
       JStr x \<Rightarrow> [CHR 0x27] @ x @ [CHR 0x27]
     | JBool b \<Rightarrow> if b then ''True'' else ''False''
     | JNull \<Rightarrow> ''None''
     | _ \<Rightarrow> render v)"

definition format_mcp_args :: "(json \<Rightarrow> string) \<Rightarrow> json \<Rightarrow> string" where
  "format_mcp_args render args =
    (case as_object args of
       None \<Rightarrow> []
     | Some obj \<Rightarrow> join '' '' (map (\<lambda>(k, v). k @ ''='' @ py_repr render v) obj))"

definition opt_truthy :: "json option \<Rightarrow> bool" where
  "opt_truthy v = (case v of None \<Rightarrow> False | Some v \<Rightarrow> json_truthy v)"

definition push_mcp_log :: "mcp_entry \<Rightarrow> mcp_entry list \<Rightarrow> mcp_entry list" where
  "push_mcp_log e q = (let q = q @ [e] in drop (length q - MCP_LOG_MAX) q)"

interpretation mcp_log: bounded_queue push_mcp_log MCP_LOG_MAX
  by unfold_locales (simp_all add: push_mcp_log_def MCP_LOG_MAX_def drop_Suc tl_append split: list.split)

definition settle_follow_up :: "string \<Rightarrow> json \<Rightarrow> json \<Rightarrow> mcp_follow_up option" where
  "settle_follow_up tool args event =
    (if tool = ''deploy'' \<or> tool = ''reboot'' then
       (case json_get ''result'' event of
          None \<Rightarrow> Some (FollowAttach tool None)
        | Some JNull \<Rightarrow> Some (FollowAttach tool None)
        | Some res \<Rightarrow>
            if Option.bind (json_get ''ok'' res) as_bool = Some True then
              (case opt_filter (\<lambda>r. r \<noteq> []) (Option.bind (json_get ''run_id'' res) as_str) of
                 Some run_id \<Rightarrow> Some (FollowAttach tool (Some run_id))
               | None \<Rightarrow> None)
            else None)
     else if tool = ''drift'' \<and> (opt_truthy (json_get ''refresh'' args) \<or> opt_truthy (json_get ''do_eval'' args)) then
       Some FollowDriftLanded
     else if tool = ''reload'' then Some FollowReloadLanded
     else None)"

definition on_mcp_activity ::
  "(json \<Rightarrow> string) \<Rightarrow> (json \<Rightarrow> string option) \<Rightarrow> json \<Rightarrow> app_state \<Rightarrow> mcp_follow_up option \<times> app_state" where
  "on_mcp_activity render tenths event s =
    (let origin = Option.bind (json_get ''origin'' event) as_str in
     if is_own_call s origin then (None, s)
     else
       let tool = opt_default ''?'' (Option.bind (json_get ''tool'' event) as_str);
           state = opt_default ''?'' (Option.bind (json_get ''status'' event) as_str);
           seq = Option.bind (json_get ''seq'' event) as_u64;
           args = opt_default JNull (json_get ''args'' event);
           arg_str = format_mcp_args render args
       in if state = ''start'' then
            (None, case seq of
               None \<Rightarrow> s
             | Some n \<Rightarrow> s\<lparr>as_mcp_pending := bm_insert n \<lparr>mp_tool = tool, mp_origin = origin, mp_args = arg_str\<rparr> (as_mcp_pending s)\<rparr>)
          else
            let s = (case seq of None \<Rightarrow> s | Some n \<Rightarrow> s\<lparr>as_mcp_pending := bm_remove n (as_mcp_pending s)\<rparr>);
                label = state @ (case Option.bind (json_get ''elapsed'' event) tenths of
                    None \<Rightarrow> [] | Some t \<Rightarrow> '' '' @ MIDDLE_DOT @ '' '' @ t @ ''s'');
                detail = opt_filter (\<lambda>d. d \<noteq> []) (Option.bind (json_get ''detail'' event) as_str);
                q = push_mcp_log \<lparr>ml_tool = tool, ml_origin = origin, ml_args = arg_str, ml_label = label,
                  ml_ok = (state = ''ok''), ml_detail = detail\<rparr> (as_mcp_log s);
                s = s\<lparr>as_mcp_log := q, as_mcp_scroll := update_content (length q) (as_mcp_scroll s)\<rparr>
            in (if state = ''ok'' then settle_follow_up tool args event else None, s))"

definition on_mcp_drift_landed ::
  "drift_inputs \<Rightarrow> string option \<Rightarrow> string option \<Rightarrow> (string, string) bmap \<Rightarrow> app_state \<Rightarrow> app_state" where
  "on_mcp_drift_landed io revision cached_rev cached s =
    (let s = s\<lparr>as_rev := revision, as_cached_rev := cached_rev\<rparr>;
         s = (if cache_fresh cached_rev revision then s\<lparr>as_expected := Some (toplevels_from cached)\<rparr> else s)
     in set_status ''drift refreshed (mcp)'' False (fill_drift io s))"

section \<open>The jobs in the background\<close>

text \<open>The runtime around the state: the eval-class jobs in flight, and, not in the code, the request of the last
  load started and the generation of the load that was painted last.\<close>

datatype eval_job = LoadJob load_request | EvalJob

record explorer =
  ex_state :: app_state
  ex_jobs :: "eval_job list"
  ex_last_load :: "load_request option"
  ex_painted :: "nat option"

definition start_load :: "load_request option \<times> app_state \<Rightarrow> explorer \<Rightarrow> explorer" where
  "start_load r x =
    (case r of
       (None, s) \<Rightarrow> x\<lparr>ex_state := s\<rparr>
     | (Some req, s) \<Rightarrow> x\<lparr>ex_state := s, ex_jobs := ex_jobs x @ [LoadJob req], ex_last_load := Some req\<rparr>)"

definition start_eval :: "bool \<times> app_state \<Rightarrow> explorer \<Rightarrow> explorer" where
  "start_eval r x =
    (case r of (go, s) \<Rightarrow> x\<lparr>ex_state := s, ex_jobs := ex_jobs x @ (if go then [EvalJob] else [])\<rparr>)"

definition explorer_start :: explorer where
  "explorer_start = start_load (request_load app_state_new)
    \<lparr>ex_state = app_state_new, ex_jobs = [], ex_last_load = None, ex_painted = None\<rparr>"

datatype explorer_event =
    LoadSettles drift_inputs "(string, loaded_inventory) result"
  | EvalSettles drift_inputs "(string, string option \<times> toplevels) result"
  | ReloadKey
  | RefreshKey
  | HeadMoved string
  | SurveyProgressed nat
  | SurveySettles drift_inputs nat int "string option"
  | ScreenClosed "int option"
  | RoleChanged bool
  | McpEvent json drift_inputs "string option" "string option" "(string, string) bmap"
  | SelectKey select_op
  | TabKey tab
  | Tick

definition apply_follow_up ::
  "drift_inputs \<Rightarrow> string option \<Rightarrow> string option \<Rightarrow> (string, string) bmap \<Rightarrow> mcp_follow_up option \<Rightarrow> explorer \<Rightarrow> explorer" where
  "apply_follow_up io revision cached_rev cached f x =
    (case f of
       Some FollowDriftLanded \<Rightarrow> x\<lparr>ex_state := on_mcp_drift_landed io revision cached_rev cached (ex_state x)\<rparr>
     | Some FollowReloadLanded \<Rightarrow>
         let x = start_load (request_inventory_swap (ex_state x)) x
         in x\<lparr>ex_state := set_status ''inventory reloaded (mcp)'' False (ex_state x)\<rparr>
     | _ \<Rightarrow> x)"

text \<open>An event that settles a job which is not the one in flight does not occur, and does nothing here. A load that
  settles starts the queued load, or else the queued evaluation.\<close>

definition settle_load :: "drift_inputs \<Rightarrow> load_request \<Rightarrow> (string, loaded_inventory) result \<Rightarrow> explorer \<Rightarrow> explorer" where
  "settle_load io req outcome x =
    (let s = ex_state x;
         x = (if lr_generation req = as_generation s \<and> is_ok outcome then x\<lparr>ex_painted := Some (lr_generation req)\<rparr> else x);
         r = on_load_finished io (lr_generation req) outcome s
     in if fst r \<noteq> None then start_load r x else start_eval (start_pending_eval_expected (snd r)) x)"

definition explorer_step ::
  "(json \<Rightarrow> string) \<Rightarrow> (json \<Rightarrow> string option) \<Rightarrow> explorer_event \<Rightarrow> explorer \<Rightarrow> explorer" where
  "explorer_step render tenths ev x =
    (case ev of
       LoadSettles io outcome \<Rightarrow>
         (case ex_jobs x of
            LoadJob req # rest \<Rightarrow> settle_load io req outcome (x\<lparr>ex_jobs := rest\<rparr>)
          | _ \<Rightarrow> x)
     | EvalSettles io outcome \<Rightarrow>
         (case ex_jobs x of
            EvalJob # rest \<Rightarrow> start_load (on_drift_eval_finished io outcome (ex_state x)) (x\<lparr>ex_jobs := rest\<rparr>)
          | _ \<Rightarrow> x)
     | ReloadKey \<Rightarrow> start_load (request_reload (ex_state x)) x
     | HeadMoved head \<Rightarrow>
         start_load (request_reload (set_status (''checkout moved to '' @ short_rev (Some head) @ '' '' @ MIDDLE_DOT @
           '' reloading inventory'') False (ex_state x))) x
     | RefreshKey \<Rightarrow> (case refresh_drift (ex_state x) of ((e, v), s) \<Rightarrow> start_eval (e, s) x)
     | ScreenClosed rc \<Rightarrow> (case after_mutation rc (ex_state x) of ((e, v), s) \<Rightarrow> start_eval (e, s) x)
     | SurveyProgressed n \<Rightarrow> x\<lparr>ex_state := on_survey_progress n (ex_state x)\<rparr>
     | SurveySettles io n rc error \<Rightarrow> x\<lparr>ex_state := on_survey_done io n rc error (ex_state x)\<rparr>
     | RoleChanged leader \<Rightarrow>
         x\<lparr>ex_state := (ex_state x)\<lparr>as_context_role := Some (if leader then RoleLeader else RoleObserver)\<rparr>\<rparr>
     | McpEvent event io revision cached_rev cached \<Rightarrow>
         (case on_mcp_activity render tenths event (ex_state x) of
            (f, s) \<Rightarrow> apply_follow_up io revision cached_rev cached f (x\<lparr>ex_state := s\<rparr>))
     | SelectKey op \<Rightarrow> x\<lparr>ex_state := on_active_table (select_apply op) (ex_state x)\<rparr>
     | TabKey t \<Rightarrow> x\<lparr>ex_state := (ex_state x)\<lparr>as_tab := t\<rparr>\<rparr>
     | Tick \<Rightarrow> x\<lparr>ex_state := snd (tick_spinner (ex_state x))\<rparr>)"

definition explorer_run ::
  "(json \<Rightarrow> string) \<Rightarrow> (json \<Rightarrow> string option) \<Rightarrow> explorer_event list \<Rightarrow> explorer" where
  "explorer_run render tenths evs = fold (explorer_step render tenths) evs explorer_start"

section \<open>One evaluation at a time, and no reload lost\<close>

text \<open>What the jobs in flight are related to. Most transitions leave it alone.\<close>

definition control :: "app_state \<Rightarrow> bool \<times> bool \<times> bool \<times> bool \<times> bool \<times> nat \<times> bool" where
  "control s = (as_busy s, as_eval_running s, as_eval_pending s, as_reload_pending s, as_fresh_wanted s, as_generation s,
    as_inventory s \<noteq> None)"

definition jobs_ok :: "bool \<times> bool \<times> bool \<times> bool \<times> bool \<times> nat \<times> bool \<Rightarrow> eval_job list \<Rightarrow> load_request option \<Rightarrow> nat option \<Rightarrow> bool" where
  "jobs_ok c js req painted =
    (case c of (busy, running, epending, rpending, fresh, generation, shown) \<Rightarrow>
      (case js of
         [] \<Rightarrow> \<not> busy \<and> \<not> running \<and> \<not> epending \<and> \<not> rpending
       | [LoadJob r] \<Rightarrow> busy \<and> \<not> running \<and> req = Some r
       | [EvalJob] \<Rightarrow> busy \<and> running \<and> \<not> epending
       | _ \<Rightarrow> False) \<and>
      (\<not> rpending \<longrightarrow> \<not> fresh \<and> (\<exists>r. req = Some r \<and> lr_generation r = generation)) \<and>
      (shown \<longrightarrow> painted = Some generation))"

definition explorer_inv :: "explorer \<Rightarrow> bool" where
  "explorer_inv x \<longleftrightarrow> jobs_ok (control (ex_state x)) (ex_jobs x) (ex_last_load x) (ex_painted x)"

lemma control_frames [simp]:
  "control (set_status m e s) = control s" "control (s\<lparr>as_status_sticky := b\<rparr>) = control s"
  "control (fill_drift io s) = control s" "control (on_survey_progress n s) = control s"
  "control (on_survey_done io n rc error s) = control s" "control (on_active_table f s) = control s"
  "control (snd (tick_spinner s)) = control s" "control (s\<lparr>as_tab := t\<rparr>) = control s"
  "control (s\<lparr>as_context_role := r\<rparr>) = control s" "control (on_mcp_drift_landed io rv cr c s) = control s"
  by (simp_all add: control_def set_status_def fill_drift_def on_survey_progress_def on_survey_done_def
      on_active_table_def tick_spinner_def on_mcp_drift_landed_def Let_def split: tab.split)

lemma control_expected [simp]:
  "control (s\<lparr>as_expected := e\<rparr>) = control s"
  "control (s\<lparr>as_rev := rv, as_cached_rev := cr\<rparr>) = control s"
  by (simp_all add: control_def)

lemma control_survey [simp]: "control (snd (request_survey s)) = control s"
  by (simp add: request_survey_def control_def)

lemma control_mcp_activity [simp]: "control (snd (on_mcp_activity render tenths event s)) = control s"
  by (simp add: on_mcp_activity_def control_def Let_def split: option.split)

text \<open>Requests on a state whose jobs are in order.\<close>

lemma busy_iff_jobs: "jobs_ok (control s) js req painted \<Longrightarrow> as_busy s \<longleftrightarrow> js \<noteq> []"
  by (auto simp: jobs_ok_def control_def split: list.splits eval_job.splits)

lemmas inv_defs = explorer_inv_def jobs_ok_def control_def start_load_def start_eval_def

lemma rebind_inv:
  assumes "explorer_inv x" and "control s = control (ex_state x)"
  shows "explorer_inv (start_load (request_rebind fresh s) x)"
  using assms by (auto simp: inv_defs request_rebind_def request_load_def split: list.splits eval_job.splits)

lemma eval_request_inv:
  assumes "explorer_inv x" and "control s = control (ex_state x)"
  shows "explorer_inv (start_eval (request_eval_expected s) x)"
  using assms by (auto simp: inv_defs request_eval_expected_def split: list.splits eval_job.splits)

lemma same_control_inv:
  "explorer_inv x \<Longrightarrow> control s = control (ex_state x) \<Longrightarrow> explorer_inv (x\<lparr>ex_state := s\<rparr>)"
  by (simp add: explorer_inv_def)

lemma refresh_inv:
  assumes "explorer_inv x" and "refresh_drift (ex_state x) = ((e, v), s)"
  shows "explorer_inv (start_eval (e, s) x)"
proof -
  let ?r = "request_eval_expected ((ex_state x)\<lparr>as_status_sticky := False\<rparr>)"
  have e: "fst ?r = e" and s: "s = snd (request_survey (snd ?r))"
    using assms(2) by (auto simp: refresh_drift_def split: prod.splits)
  have "explorer_inv (start_eval ?r x)" using assms(1) by (rule eval_request_inv) simp
  then have "explorer_inv ((start_eval ?r x)\<lparr>ex_state := s\<rparr>)"
    by (rule same_control_inv) (simp add: s start_eval_def split_beta)
  moreover have "(start_eval r x)\<lparr>ex_state := s\<rparr> = start_eval (fst r, s) x" for r
    by (cases x) (simp add: start_eval_def split_beta)
  then have "(start_eval ?r x)\<lparr>ex_state := s\<rparr> = start_eval (e, s) x" by (simp only: e)
  ultimately show ?thesis by simp
qed

text \<open>Where a job has settled, before what was queued is started.\<close>

definition settled_ok :: "app_state \<Rightarrow> load_request option \<Rightarrow> nat option \<Rightarrow> bool" where
  "settled_ok s req painted \<longleftrightarrow> \<not> as_busy s \<and> \<not> as_eval_running s \<and>
    (\<not> as_reload_pending s \<longrightarrow> \<not> as_fresh_wanted s \<and> (\<exists>r. req = Some r \<and> lr_generation r = as_generation s)) \<and>
    (as_inventory s \<noteq> None \<longrightarrow> painted = Some (as_generation s))"

lemma settled_control:
  "control s = control s' \<Longrightarrow> settled_ok s req painted \<longleftrightarrow> settled_ok s' req painted"
  by (auto simp: settled_ok_def control_def)

lemma consume_inv:
  assumes "settled_ok s req painted" and "consume_pending_reload s = r"
    and "x = \<lparr>ex_state = s0, ex_jobs = [], ex_last_load = req, ex_painted = painted\<rparr>"
  shows "fst r \<noteq> None \<Longrightarrow> explorer_inv (start_load r x)"
    and "fst r = None \<Longrightarrow> explorer_inv (start_eval (start_pending_eval_expected (snd r)) x)"
    and "fst r = None \<Longrightarrow> \<not> as_eval_pending s \<Longrightarrow> explorer_inv (start_load r x)"
  using assms by (auto simp: settled_ok_def inv_defs consume_pending_reload_def request_load_def
      start_pending_eval_expected_def split: if_splits)

lemma eval_finished_settled:
  assumes "settled_ok (s\<lparr>as_busy := False, as_eval_running := False\<rparr>) req painted"
  shows "\<exists>s'. on_drift_eval_finished io outcome s = consume_pending_reload s' \<and> settled_ok s' req painted \<and>
    as_eval_pending s' = as_eval_pending s"
proof -
  let ?s = "s\<lparr>as_busy := False, as_eval_running := False\<rparr>"
  let ?shown = "\<lambda>s. case outcome of
      Inl e \<Rightarrow> set_status e True (fill_drift io (s\<lparr>as_expected := None\<rparr>))
    | Inr (revision, expected) \<Rightarrow>
        (let s = fill_drift io (s\<lparr>as_rev := revision, as_cached_rev := revision, as_expected := Some expected\<rparr>)
         in case partial_failure expected of Some e \<Rightarrow> set_status e True s | None \<Rightarrow> set_status ''drift refreshed'' False s)"
  have same: "control (?shown ?s) = control ?s"
    by (cases outcome) (auto simp: Let_def split: option.split prod.split)
  have "on_drift_eval_finished io outcome s = consume_pending_reload (?shown ?s)"
    by (cases outcome) (simp_all add: on_drift_eval_finished_def Let_def split: prod.split)
  moreover have "settled_ok (?shown ?s) req painted" using assms settled_control [OF same] by simp
  moreover have "as_eval_pending (?shown ?s) = as_eval_pending s" using same by (simp add: control_def)
  ultimately show ?thesis by blast
qed

lemma load_finished_settled:
  assumes "settled_ok (s\<lparr>as_busy := False, as_inventory := None\<rparr>) req painted"
    and "as_inventory s \<noteq> None \<longrightarrow> painted = Some (as_generation s)"
    and "is_ok outcome \<and> generation = as_generation s \<longrightarrow> painted = Some (as_generation s)"
  shows "\<exists>s'. on_load_finished io generation outcome s = consume_pending_reload s' \<and> settled_ok s' req painted"
proof (cases "generation = as_generation s")
  case False
  then show ?thesis using assms(1,2) by (intro exI [of _ "s\<lparr>as_busy := False\<rparr>"]) (auto simp: on_load_finished_def settled_ok_def)
next
  case True
  show ?thesis
  proof (cases outcome)
    case (Inl error)
    let ?s = "s\<lparr>as_busy := False\<rparr>"
    have "settled_ok ?s req painted" using assms(1,2) by (simp add: settled_ok_def)
    then have "settled_ok (set_status m True ?s) req painted" for m
      using settled_control [of "set_status m True ?s" ?s] by simp
    then show ?thesis using True Inl by (auto simp: on_load_finished_def Let_def)
  next
    case (Inr li)
    obtain s' where s': "on_load_finished io generation outcome s = consume_pending_reload s'"
      "control s' = control (s\<lparr>as_busy := False, as_inventory := Some (li_inventory li)\<rparr>)"
      using True Inr unfolding on_load_finished_def state_fill_def Let_def
      by (auto simp: control_def fill_drift_def set_status_def Let_def)
    moreover have "settled_ok (s\<lparr>as_busy := False, as_inventory := Some (li_inventory li)\<rparr>) req painted"
      using assms(1,3) True Inr by (simp add: settled_ok_def)
    ultimately show ?thesis using settled_control by blast
  qed
qed

lemma settle_load_inv:
  assumes "explorer_inv x" and "ex_jobs x = LoadJob req # rest"
  shows "explorer_inv (settle_load io req outcome (x\<lparr>ex_jobs := rest\<rparr>))"
proof -
  define s where "s = ex_state x"
  define painted where "painted = (if lr_generation req = as_generation s \<and> is_ok outcome then Some (lr_generation req) else ex_painted x)"
  define y where "y = \<lparr>ex_state = s, ex_jobs = [], ex_last_load = ex_last_load x, ex_painted = painted\<rparr>"
  have rest: "rest = []" using assms by (auto simp: explorer_inv_def jobs_ok_def split: list.splits prod.splits)
  have y: "(if lr_generation req = as_generation s \<and> is_ok outcome then (x\<lparr>ex_jobs := rest\<rparr>)\<lparr>ex_painted := Some (lr_generation req)\<rparr>
      else x\<lparr>ex_jobs := rest\<rparr>) = y"
    by (cases x) (simp add: y_def painted_def s_def rest)
  have "settled_ok (s\<lparr>as_busy := False, as_inventory := None\<rparr>) (ex_last_load x) painted"
    "as_inventory s \<noteq> None \<longrightarrow> painted = Some (as_generation s)"
    "is_ok outcome \<and> lr_generation req = as_generation s \<longrightarrow> painted = Some (as_generation s)"
    using assms rest by (auto simp: inv_defs settled_ok_def s_def painted_def)
  then obtain s' where s': "on_load_finished io (lr_generation req) outcome s = consume_pending_reload s'"
    "settled_ok s' (ex_last_load x) painted"
    using load_finished_settled by blast
  have e: "ex_state (x\<lparr>ex_jobs := rest\<rparr>) = s" by (simp add: s_def)
  show ?thesis
    unfolding settle_load_def Let_def e y s'(1)
    using consume_inv(1,2) [OF s'(2) refl y_def] by (simp split: if_split)
qed

lemma settle_eval_inv:
  assumes "explorer_inv x" and "ex_jobs x = EvalJob # rest"
  shows "explorer_inv (start_load (on_drift_eval_finished io outcome (ex_state x)) (x\<lparr>ex_jobs := rest\<rparr>))"
proof -
  define s where "s = ex_state x"
  have rest: "rest = []" and pending: "\<not> as_eval_pending s" and ok: "settled_ok (s\<lparr>as_busy := False, as_eval_running := False\<rparr>) (ex_last_load x) (ex_painted x)"
    using assms by (auto simp: inv_defs settled_ok_def s_def split: list.splits)
  obtain s' where s': "on_drift_eval_finished io outcome s = consume_pending_reload s'"
    "settled_ok s' (ex_last_load x) (ex_painted x)" "as_eval_pending s' = as_eval_pending s"
    using eval_finished_settled [OF ok] by blast
  have x: "x\<lparr>ex_jobs := rest\<rparr> = \<lparr>ex_state = s, ex_jobs = [], ex_last_load = ex_last_load x, ex_painted = ex_painted x\<rparr>"
    by (cases x) (simp add: s_def rest)
  show ?thesis
    using consume_inv(1,3) [OF s'(2) refl x] s'(3) pending unfolding s_def [symmetric] s'(1) by blast
qed

lemma explorer_step_inv:
  assumes "explorer_inv x"
  shows "explorer_inv (explorer_step render tenths ev x)"
proof (cases ev)
  case (LoadSettles io outcome)
  then show ?thesis using assms settle_load_inv [OF assms]
    by (auto simp: explorer_step_def split: list.split eval_job.split)
next
  case (EvalSettles io outcome)
  then show ?thesis using assms settle_eval_inv [OF assms]
    by (auto simp: explorer_step_def split: list.split eval_job.split)
next
  case RefreshKey
  then show ?thesis using refresh_inv [OF assms] by (auto simp: explorer_step_def split: prod.split)
next
  case (ScreenClosed rc)
  then show ?thesis using assms refresh_inv [OF assms] same_control_inv [OF assms]
    by (auto simp: explorer_step_def after_mutation_def start_eval_def split: prod.split)
next
  case (McpEvent event io revision cached_rev cached)
  let ?r = "on_mcp_activity render tenths event (ex_state x)"
  have x: "explorer_inv (x\<lparr>ex_state := snd ?r\<rparr>)" using assms by (rule same_control_inv) simp
  have swap: "explorer_inv (start_load (request_inventory_swap (snd ?r)) (x\<lparr>ex_state := snd ?r\<rparr>))"
    unfolding request_inventory_swap_def using x by (rule rebind_inv) simp
  have "explorer_inv (apply_follow_up io revision cached_rev cached (fst ?r) (x\<lparr>ex_state := snd ?r\<rparr>))"
    using x same_control_inv [OF x] same_control_inv [OF swap]
    by (auto simp: apply_follow_up_def Let_def split: option.split mcp_follow_up.split)
  then show ?thesis using McpEvent by (simp add: explorer_step_def split_beta)
qed (use assms in \<open>auto simp: explorer_step_def request_reload_def same_control_inv rebind_inv\<close>)

lemma explorer_run_inv: "explorer_inv (explorer_run render tenths evs)"
proof -
  have "explorer_inv x \<Longrightarrow> explorer_inv (fold (explorer_step render tenths) evs x)" for x
    by (induction evs arbitrary: x) (simp_all add: explorer_step_inv)
  moreover have "explorer_inv explorer_start"
    by (simp add: explorer_start_def inv_defs request_load_def app_state_new_def)
  ultimately show ?thesis by (simp add: explorer_run_def)
qed

text \<open>C19: The explorer evaluates one thing at a time and loses no request: in every order of keys, results and
  events of the context, at most one load or evaluation is in flight, the busy flag tells whether one is,
  and once none is, no reload and no refresh is waiting and the last load started was for the current
  contract.\<close>

theorem no_reload_is_lost:
  fixes render tenths evs
  defines "x \<equiv> explorer_run render tenths evs"
  shows "length (ex_jobs x) \<le> 1 \<and> (as_busy (ex_state x) \<longleftrightarrow> ex_jobs x \<noteq> []) \<and>
    (ex_jobs x = [] \<longrightarrow> \<not> as_reload_pending (ex_state x) \<and> \<not> as_eval_pending (ex_state x) \<and> \<not> as_fresh_wanted (ex_state x) \<and>
      map_option lr_generation (ex_last_load x) = Some (as_generation (ex_state x)))"
proof -
  have "explorer_inv x" unfolding x_def by (rule explorer_run_inv)
  then show ?thesis
    by (auto simp: explorer_inv_def jobs_ok_def control_def split: list.splits eval_job.splits)
qed

text \<open>A superseded load never paints: the inventory that the explorer shows, whenever it shows one, is the
  result of a load that was started for the current contract.\<close>

lemma shown_inventory_is_current:
  "as_inventory (ex_state (explorer_run render tenths evs)) \<noteq> None \<longrightarrow>
    ex_painted (explorer_run render tenths evs) = Some (as_generation (ex_state (explorer_run render tenths evs)))"
  using explorer_run_inv [of render tenths evs]
  by (simp add: explorer_inv_def jobs_ok_def control_def)

text \<open>An example: a reload pressed while the first load runs, which then settles; the queued load settles too.\<close>

definition no_drift :: drift_inputs where
  "no_drift = \<lparr>di_parse = (\<lambda>_. None), di_snapshots = [], di_now = 0\<rparr>"

definition small_load :: loaded_inventory where
  "small_load = \<lparr>li_inventory = \<lparr>iv_aggregate = \<lparr>ag_schema_version = JNull, ag_members = [(''web'', [])], ag_groups = [],
    ag_extra = []\<rparr>, iv_controller_platform = None\<rparr>, li_rev = Some ''new'', li_cached_rev = None, li_cached = []\<rparr>"

definition sample_session :: "explorer_event list" where
  "sample_session = [ReloadKey, LoadSettles no_drift (Inl ''old''), LoadSettles no_drift (Inr small_load)]"

lemmas explorer_defs = explorer_run_def explorer_start_def explorer_step_def start_load_def request_load_def
  request_reload_def request_rebind_def settle_load_def on_load_finished_def consume_pending_reload_def
  start_eval_def start_pending_eval_expected_def state_fill_def fill_drift_def set_status_def app_state_new_def
  request_eval_expected_def refresh_drift_def request_survey_def on_drift_eval_finished_def Let_def

lemma sample_session_end:
  "ex_jobs (explorer_run (\<lambda>_. []) (\<lambda>_. None) sample_session) = []"
  "as_inventory (ex_state (explorer_run (\<lambda>_. []) (\<lambda>_. None) sample_session)) = Some (li_inventory small_load)"
  by (simp_all add: sample_session_def explorer_defs small_load_def cache_fresh_def)

lemma no_reload_is_lost_witness:
  "map_option lr_generation (ex_last_load (explorer_run (\<lambda>_. []) (\<lambda>_. None) sample_session)) =
    Some (as_generation (ex_state (explorer_run (\<lambda>_. []) (\<lambda>_. None) sample_session)))"
  using no_reload_is_lost [of "\<lambda>_. []" "\<lambda>_. None" sample_session] sample_session_end by simp

text \<open>Evaluations of the expected toplevels carry no generation. One that was started before a reload is adopted
  after it, and the caption then names the revision of the contract that was loaded since.\<close>

definition stale_session :: "explorer_event list" where
  "stale_session = [LoadSettles no_drift (Inr small_load), RefreshKey, ReloadKey,
    EvalSettles no_drift (Inr (Some ''old'', \<lparr>tl_paths = [(''web'', ''/nix/store/old'')], tl_errors = []\<rparr>)),
    LoadSettles no_drift (Inr small_load)]"

lemma stale_evaluation_is_adopted:
  "as_expected (ex_state (explorer_run (\<lambda>_. []) (\<lambda>_. None) stale_session)) =
    Some \<lparr>tl_paths = [(''web'', ''/nix/store/old'')], tl_errors = []\<rparr> \<and>
   as_rev (ex_state (explorer_run (\<lambda>_. []) (\<lambda>_. None) stale_session)) = Some ''new'' \<and>
   as_drift_hint (ex_state (explorer_run (\<lambda>_. []) (\<lambda>_. None) stale_session)) = drift_hint True (Some ''new'') None"
  by (simp add: stale_session_def explorer_defs small_load_def cache_fresh_def partial_failure_def is_complete_def)

text \<open>Events that neither report a failure nor start a refresh of the operator's.\<close>

fun succeeds :: "explorer_event \<Rightarrow> bool" where
  "succeeds (LoadSettles io outcome) = is_ok outcome"
| "succeeds (EvalSettles io outcome) = (case outcome of Inl _ \<Rightarrow> False | Inr (revision, t) \<Rightarrow> is_complete t)"
| "succeeds (SurveySettles io n rc error) = (rc = 0)"
| "succeeds RefreshKey = False"
| "succeeds (ScreenClosed rc) = (rc = None)"
| "succeeds _ = True"

definition status_of :: "app_state \<Rightarrow> string \<times> bool" where
  "status_of s = (as_status s, as_status_sticky s)"

lemma status_frames [simp]:
  "as_status_sticky s \<Longrightarrow> status_of (set_status m False s) = status_of s"
  "status_of (fill_drift io s) = status_of s"
  "as_status_sticky (fill_drift io s) = as_status_sticky s"
  "status_of (snd (request_rebind fresh s)) = status_of s"
  "status_of (snd (consume_pending_reload s)) = status_of s"
  "status_of (snd (start_pending_eval_expected s)) = status_of s"
  "status_of (on_active_table f s) = status_of s" "status_of (snd (tick_spinner s)) = status_of s"
  "status_of (snd (on_mcp_activity render tenths event s)) = status_of s"
  by (simp_all add: status_of_def set_status_def fill_drift_def request_rebind_def request_load_def
      consume_pending_reload_def start_pending_eval_expected_def on_active_table_def tick_spinner_def
      on_mcp_activity_def Let_def split: tab.split option.split)

lemma start_status [simp]:
  "ex_state (start_load r x) = snd r" "ex_state (start_eval q x) = snd q"
  by (simp_all add: start_load_def start_eval_def split_beta split: option.split prod.split)

lemma sticky_of: "status_of s = status_of s' \<Longrightarrow> as_status_sticky s = as_status_sticky s'"
  by (simp add: status_of_def)

lemma fill_status: "as_status_sticky s \<Longrightarrow> status_of (snd (state_fill io li s)) = status_of s"
  by (simp add: state_fill_def Let_def) (simp add: set_status_def fill_drift_def status_of_def Let_def)

lemma load_status: "as_status_sticky s \<Longrightarrow> is_ok outcome \<Longrightarrow> status_of (snd (on_load_finished io g outcome s)) = status_of s"
  by (cases outcome) (auto simp: on_load_finished_def fill_status, simp add: status_of_def)

lemma eval_status:
  assumes "as_status_sticky s" and "is_complete t"
  shows "status_of (snd (on_drift_eval_finished io (Inr (rv, t)) s)) = status_of s"
  using assms by (simp add: on_drift_eval_finished_def partial_failure_def Let_def)
    (simp add: status_of_def)

lemma drift_landed_status: "as_status_sticky s \<Longrightarrow> status_of (on_mcp_drift_landed io rv cr c s) = status_of s"
  by (simp add: on_mcp_drift_landed_def Let_def) (simp add: status_of_def)

text \<open>Errors are sticky: after a failure is shown, no load, evaluation, survey, reload or event of the
  context that succeeds replaces its message, until the operator refreshes or a screen of a finished
  run closes.\<close>

lemma errors_are_sticky:
  assumes "as_status_sticky (ex_state x)" and "succeeds ev"
  shows "status_of (ex_state (explorer_step render tenths ev x)) = status_of (ex_state x)"
proof (cases ev)
  case (LoadSettles io outcome)
  then have ok: "is_ok outcome" using assms(2) by simp
  show ?thesis
  proof (cases "\<exists>req rest. ex_jobs x = LoadJob req # rest")
    case True
    then obtain req rest where "ex_jobs x = LoadJob req # rest" by blast
    then show ?thesis using LoadSettles load_status [OF assms(1) ok]
      by (simp add: explorer_step_def settle_load_def Let_def)
  qed (use LoadSettles in \<open>auto simp: explorer_step_def split: list.split eval_job.split\<close>)
next
  case (EvalSettles io outcome)
  then obtain rv t where "outcome = Inr (rv, t)" "is_complete t" using assms(2) by (auto split: sum.splits)
  then show ?thesis using EvalSettles eval_status [OF assms(1)]
    by (auto simp: explorer_step_def split: list.split eval_job.split)
next
  case (SurveySettles io n rc error)
  then have "rc = 0" using assms(2) by simp
  then show ?thesis using SurveySettles assms(1)
    by (simp add: explorer_step_def on_survey_done_def Let_def) (simp add: status_of_def)
next
  case (ScreenClosed rc)
  then show ?thesis using assms(2) by (simp add: explorer_step_def after_mutation_def)
next
  case (McpEvent event io revision cached_rev cached)
  let ?s = "snd (on_mcp_activity render tenths event (ex_state x))"
  have same: "status_of ?s = status_of (ex_state x)" by simp
  then have sticky: "as_status_sticky ?s" using sticky_of assms(1) by metis
  moreover have "as_status_sticky (snd (request_inventory_swap ?s))"
    using sticky sticky_of [of "snd (request_rebind False ?s)" ?s] by (simp add: request_inventory_swap_def)
  moreover have "status_of (on_mcp_drift_landed io revision cached_rev cached ?s) = status_of ?s"
    using sticky by (rule drift_landed_status)
  ultimately have "status_of (ex_state (apply_follow_up io revision cached_rev cached f (x\<lparr>ex_state := ?s\<rparr>))) = status_of ?s" for f
    by (simp add: apply_follow_up_def Let_def request_inventory_swap_def split: option.split mcp_follow_up.split)
  then show ?thesis using McpEvent same by (simp add: explorer_step_def split_beta)
qed (use assms in \<open>simp_all add: explorer_step_def request_reload_def on_survey_progress_def\<close>, simp_all add: status_of_def)

end
