(* ===== verification/Keys.thy ===== *)
theory Keys
  imports Screens Explorer
begin

text \<open>What keys and the mouse do in the terminal interface: the bindings of \<^verbatim>\<open>mandala-tui/src/keymap.rs\<close> and the
  handlers of \<^verbatim>\<open>app.rs\<close> (\<^verbatim>\<open>on_key\<close>, \<^verbatim>\<open>on_screen_action\<close>, \<^verbatim>\<open>on_mouse\<close>, \<^verbatim>\<open>dispatch\<close>, and the screens' polls).
  What the handlers do outside the state is the list of their effects.\<close>

unbundle bit_operations_syntax

section \<open>Bindings\<close>

datatype key_context =
    CxGlobal
  | CxExplorer
  | CxConfirm
  | CxReboot
  | CxTask
  | CxAttachedLog
  | CxDeploy
  | CxDeployKillArmed
  | CxRuns

definition CONTEXTS :: "key_context list" where
  "CONTEXTS = [CxGlobal, CxExplorer, CxConfirm, CxReboot, CxTask, CxAttachedLog, CxDeploy, CxDeployKillArmed, CxRuns]"

datatype key_action =
    DoQuit
  | DoSuspend
  | DoNextTab
  | DoPreviousTab
  | DoTabOne
  | DoTabTwo
  | DoTabThree
  | DoMoveUp
  | DoMoveDown
  | DoExtendUp
  | DoExtendDown
  | DoSkipUp
  | DoSkipDown
  | DoPageUp
  | DoPageDown
  | DoHalfPageUp
  | DoHalfPageDown
  | DoTop
  | DoBottom
  | DoToggleSelection
  | DoClearSelection
  | DoReload
  | DoRefreshDrift
  | DoPing
  | DoReboot
  | DoDeploy
  | DoOpenRuns
  | DoToggleMcp
  | DoToggleHalt
  | DoToggleBoot
  | DoConfirm
  | DoCancel
  | DoOrderOne
  | DoOrderTwo
  | DoOrderThree
  | DoToggleDrain
  | DoClose
  | DoArmTerminate
  | DoConfirmTerminate
  | DoBuildTab
  | DoPlaybookTab
  | DoSummaryTab
  | DoRefreshRuns
  | DoActivate
  | DoTerminalSelectionHelp

text \<open>The keys of \<^verbatim>\<open>crossterm\<close>: a code, where a character is its UTF-8 bytes, and the bits of the modifiers.\<close>

datatype key_code =
    KUp
  | KDown
  | KLeft
  | KRight
  | KTab
  | KBackTab
  | KEnter
  | KEsc
  | KHome
  | KEnd
  | KPageUp
  | KPageDown
  | KChar string
  | KOther nat

definition SHIFT :: "8 word" where
  "SHIFT = 1"

definition CONTROL :: "8 word" where
  "CONTROL = 2"

record key_event =
  ky_code :: key_code
  ky_modifiers :: "8 word"

type_synonym key_pattern = "key_code \<times> 8 word"

definition plain_key :: "key_code \<Rightarrow> key_pattern" where
  "plain_key code = (code, 0)"

definition modified_key :: "key_code \<Rightarrow> 8 word \<Rightarrow> key_pattern" where
  "modified_key code modifiers = (code, modifiers)"

definition is_char_key :: "key_code \<Rightarrow> bool" where
  "is_char_key code = (case code of KChar _ \<Rightarrow> True | KBackTab \<Rightarrow> True | _ \<Rightarrow> False)"

definition normalized_modifiers :: "key_event \<Rightarrow> 8 word" where
  "normalized_modifiers ev =
    (if is_char_key (ky_code ev) then ky_modifiers ev AND NOT SHIFT else ky_modifiers ev)"

definition key_matches :: "key_pattern \<Rightarrow> key_event \<Rightarrow> bool" where
  "key_matches p ev \<longleftrightarrow> fst p = ky_code ev \<and> snd p = normalized_modifiers ev"

datatype hint_spec =
    StaticHint string string
  | HintDebugMcp
  | HintDeploySummary
  | HintDeployClose
  | HintDeployTerminate

type_synonym binding = "key_context \<times> key_pattern list \<times> key_action \<times> hint_spec option"

definition UP_KEYS :: "key_pattern list" where
  "UP_KEYS = [plain_key KUp,
    plain_key (KChar ''k'')]"

definition DOWN_KEYS :: "key_pattern list" where
  "DOWN_KEYS = [plain_key KDown,
    plain_key (KChar ''j'')]"

definition UP_WITH_MODIFIERS_KEYS :: "key_pattern list" where
  "UP_WITH_MODIFIERS_KEYS = [plain_key KUp,
    modified_key KUp SHIFT,
    modified_key KUp CONTROL,
    plain_key (KChar ''k'')]"

definition DOWN_WITH_MODIFIERS_KEYS :: "key_pattern list" where
  "DOWN_WITH_MODIFIERS_KEYS = [plain_key KDown,
    modified_key KDown SHIFT,
    modified_key KDown CONTROL,
    plain_key (KChar ''j'')]"

definition PREVIOUS_TAB_KEYS :: "key_pattern list" where
  "PREVIOUS_TAB_KEYS = [plain_key KLeft,
    plain_key (KChar ''h''),
    plain_key KBackTab]"

definition NEXT_TAB_KEYS :: "key_pattern list" where
  "NEXT_TAB_KEYS = [plain_key KRight,
    plain_key (KChar ''l''),
    plain_key KTab]"

definition PAGE_UP_KEYS :: "key_pattern list" where
  "PAGE_UP_KEYS = [plain_key KPageUp]"

definition PAGE_DOWN_KEYS :: "key_pattern list" where
  "PAGE_DOWN_KEYS = [plain_key KPageDown]"

definition HALF_UP_KEYS :: "key_pattern list" where
  "HALF_UP_KEYS = [modified_key (KChar ''u'') CONTROL]"

definition HALF_DOWN_KEYS :: "key_pattern list" where
  "HALF_DOWN_KEYS = [modified_key (KChar ''d'') CONTROL]"

definition TOP_KEYS :: "key_pattern list" where
  "TOP_KEYS = [plain_key KHome,
    plain_key (KChar ''g'')]"

definition BOTTOM_KEYS :: "key_pattern list" where
  "BOTTOM_KEYS = [plain_key KEnd,
    plain_key (KChar ''G'')]"

definition CLOSE_KEYS :: "key_pattern list" where
  "CLOSE_KEYS = [plain_key KEsc,
    plain_key (KChar ''q'')]"

definition CANCEL_KEYS :: "key_pattern list" where
  "CANCEL_KEYS = [plain_key KEsc,
    plain_key (KChar ''n'')]"

definition BINDINGS :: "binding list" where
  "BINDINGS = [
    (CxGlobal, [modified_key (KChar ''c'') CONTROL], DoQuit, None),
    (CxGlobal, [modified_key (KChar ''z'') CONTROL], DoSuspend, None),
    (CxExplorer, [plain_key (KChar ''q'')], DoQuit, Some (StaticHint ''q'' ''quit'')),
    (CxExplorer, PREVIOUS_TAB_KEYS, DoPreviousTab, None),
    (CxExplorer, NEXT_TAB_KEYS, DoNextTab, Some (StaticHint ''tab'' ''views'')),
    (CxExplorer, [plain_key (KChar ''1'')], DoTabOne, None),
    (CxExplorer, [plain_key (KChar ''2'')], DoTabTwo, None),
    (CxExplorer, [plain_key (KChar ''3'')], DoTabThree, None),
    (CxExplorer, UP_KEYS, DoMoveUp, None),
    (CxExplorer, DOWN_KEYS, DoMoveDown, None),
    (CxExplorer, [modified_key KUp SHIFT], DoExtendUp, None),
    (CxExplorer, [modified_key KDown SHIFT], DoExtendDown, None),
    (CxExplorer, [modified_key KUp CONTROL], DoSkipUp, None),
    (CxExplorer, [modified_key KDown CONTROL], DoSkipDown, None),
    (CxExplorer, PAGE_UP_KEYS, DoPageUp, None),
    (CxExplorer, PAGE_DOWN_KEYS, DoPageDown, None),
    (CxExplorer, HALF_UP_KEYS, DoHalfPageUp, None),
    (CxExplorer, HALF_DOWN_KEYS, DoHalfPageDown, None),
    (CxExplorer, TOP_KEYS, DoTop, None),
    (CxExplorer, BOTTOM_KEYS, DoBottom, None),
    (CxExplorer, [plain_key (KChar '' '')], DoToggleSelection, Some (StaticHint ''space'' ''select'')),
    (CxExplorer, [plain_key KEsc], DoClearSelection, None),
    (CxExplorer, [plain_key (KChar ''r'')], DoReload, Some (StaticHint ''r'' ''reload'')),
    (CxExplorer, [plain_key (KChar ''S'')], DoRefreshDrift, Some (StaticHint ''S'' ''refresh drift'')),
    (CxExplorer, [plain_key (KChar ''p'')], DoPing, Some (StaticHint ''p'' ''ping'')),
    (CxExplorer, [plain_key (KChar ''R'')], DoReboot, Some (StaticHint ''R'' ''reboot'')),
    (CxExplorer, [plain_key (KChar ''D'')], DoDeploy, Some (StaticHint ''D'' ''deploy'')),
    (CxExplorer, [plain_key (KChar ''a'')], DoOpenRuns, None),
    (CxExplorer, [plain_key (KChar ''m'')], DoToggleMcp, Some HintDebugMcp),
    (CxExplorer, [], DoTerminalSelectionHelp, Some (StaticHint ''shift+drag'' ''terminal select'')),
    (CxConfirm, [plain_key (KChar ''h'')], DoToggleHalt, None),
    (CxConfirm, [plain_key (KChar ''b'')], DoToggleBoot, None),
    (CxConfirm, [plain_key (KChar ''y'')], DoConfirm, None),
    (CxConfirm, CANCEL_KEYS, DoCancel, None),
    (CxReboot, [plain_key (KChar ''1'')], DoOrderOne, None),
    (CxReboot, [plain_key (KChar ''2'')], DoOrderTwo, None),
    (CxReboot, [plain_key (KChar ''3'')], DoOrderThree, None),
    (CxReboot, [plain_key (KChar ''d'')], DoToggleDrain, None),
    (CxReboot, [plain_key (KChar ''y'')], DoConfirm, None),
    (CxReboot, CANCEL_KEYS, DoCancel, None),
    (CxTask, UP_WITH_MODIFIERS_KEYS, DoMoveUp, None),
    (CxTask, DOWN_WITH_MODIFIERS_KEYS, DoMoveDown, None),
    (CxTask, PAGE_UP_KEYS, DoPageUp, None),
    (CxTask, PAGE_DOWN_KEYS, DoPageDown, None),
    (CxTask, HALF_UP_KEYS, DoHalfPageUp, None),
    (CxTask, HALF_DOWN_KEYS, DoHalfPageDown, None),
    (CxTask, TOP_KEYS, DoTop, None),
    (CxTask, BOTTOM_KEYS, DoBottom, None),
    (CxTask, CLOSE_KEYS, DoClose, Some (StaticHint ''esc'' ''back (terminates if running)'')),
    (CxAttachedLog, UP_WITH_MODIFIERS_KEYS, DoMoveUp, None),
    (CxAttachedLog, DOWN_WITH_MODIFIERS_KEYS, DoMoveDown, None),
    (CxAttachedLog, PAGE_UP_KEYS, DoPageUp, None),
    (CxAttachedLog, PAGE_DOWN_KEYS, DoPageDown, None),
    (CxAttachedLog, HALF_UP_KEYS, DoHalfPageUp, None),
    (CxAttachedLog, HALF_DOWN_KEYS, DoHalfPageDown, None),
    (CxAttachedLog, TOP_KEYS, DoTop, None),
    (CxAttachedLog, BOTTOM_KEYS, DoBottom, None),
    (CxAttachedLog, CLOSE_KEYS, DoClose, Some (StaticHint ''esc'' ''detach (run keeps going)'')),
    (CxDeploy, [modified_key (KChar ''k'') CONTROL], DoArmTerminate, Some HintDeployTerminate),
    (CxDeploy, UP_WITH_MODIFIERS_KEYS, DoMoveUp, None),
    (CxDeploy, DOWN_WITH_MODIFIERS_KEYS, DoMoveDown, None),
    (CxDeploy, PAGE_UP_KEYS, DoPageUp, None),
    (CxDeploy, PAGE_DOWN_KEYS, DoPageDown, None),
    (CxDeploy, HALF_UP_KEYS, DoHalfPageUp, None),
    (CxDeploy, HALF_DOWN_KEYS, DoHalfPageDown, None),
    (CxDeploy, TOP_KEYS, DoTop, None),
    (CxDeploy, BOTTOM_KEYS, DoBottom, None),
    (CxDeploy, PREVIOUS_TAB_KEYS, DoPreviousTab, None),
    (CxDeploy, NEXT_TAB_KEYS, DoNextTab, Some (StaticHint ''tab'' ''cycle tabs'')),
    (CxDeploy, [plain_key (KChar ''b'')], DoBuildTab, Some (StaticHint ''b'' ''nom build tab'')),
    (CxDeploy, [plain_key (KChar ''p'')], DoPlaybookTab, Some (StaticHint ''p'' ''playbook output tab'')),
    (CxDeploy, [plain_key (KChar ''s'')], DoSummaryTab, Some HintDeploySummary),
    (CxDeploy, CLOSE_KEYS, DoClose, Some HintDeployClose),
    (CxDeployKillArmed, [plain_key (KChar ''y'')], DoConfirmTerminate, Some (StaticHint ''y'' ''TERMINATE the run'')),
    (CxDeployKillArmed, [], DoCancel, Some (StaticHint ''any other key'' ''cancel'')),
    (CxRuns, UP_WITH_MODIFIERS_KEYS, DoMoveUp, Some (StaticHint ''j/k'' ''move'')),
    (CxRuns, DOWN_WITH_MODIFIERS_KEYS, DoMoveDown, None),
    (CxRuns, PAGE_UP_KEYS, DoPageUp, None),
    (CxRuns, PAGE_DOWN_KEYS, DoPageDown, None),
    (CxRuns, HALF_UP_KEYS, DoHalfPageUp, None),
    (CxRuns, HALF_DOWN_KEYS, DoHalfPageDown, None),
    (CxRuns, TOP_KEYS, DoTop, None),
    (CxRuns, BOTTOM_KEYS, DoBottom, None),
    (CxRuns, [plain_key (KChar ''r'')], DoRefreshRuns, Some (StaticHint ''r'' ''refresh'')),
    (CxRuns, [plain_key KEnter], DoActivate, Some (StaticHint ''enter'' ''attach'')),
    (CxRuns, CLOSE_KEYS, DoClose, Some (StaticHint ''esc'' ''back''))]"

definition key_resolve :: "key_context \<Rightarrow> key_event \<Rightarrow> key_action option" where
  "key_resolve cx ev =
    map_option (\<lambda>(_, _, a, _). a)
      (List.find (\<lambda>(c, ks, _, _). c = cx \<and> list_ex (\<lambda>k. key_matches k ev) ks) BINDINGS)"

section \<open>The application\<close>

datatype screen =
    ConfirmScreen confirm_state
  | RebootScreen reboot_state
  | TaskScreen task_state
  | AttachedScreen attached_state
  | DeployScreen deploy_view
  | RunsScreen runs_state

definition hint_visible :: "bool \<Rightarrow> screen option \<Rightarrow> hint_spec \<Rightarrow> (string \<times> string) option" where
  "hint_visible debug_mcp screen h =
    (case h of
       StaticHint key label \<Rightarrow> Some (key, label)
     | HintDebugMcp \<Rightarrow> if debug_mcp then Some (''m'', ''mcp panel'') else None
     | HintDeploySummary \<Rightarrow>
         (case screen of
            Some (DeployScreen v) \<Rightarrow> if dv_summary v \<noteq> None then Some (''s'', ''summary tab'') else None
          | _ \<Rightarrow> None)
     | HintDeployClose \<Rightarrow>
         Some (''esc'', (case screen of
            Some (DeployScreen v) \<Rightarrow> if dv_finished v then ''close'' else ''detach (run keeps going)''
          | _ \<Rightarrow> ''detach (run keeps going)''))
     | HintDeployTerminate \<Rightarrow>
         (case screen of
            Some (DeployScreen v) \<Rightarrow>
              if \<not> dv_finished v then Some (''ctrl-k'', ''terminate'' @ [CHR 0xE2, CHR 0x80, CHR 0xA6]) else None
          | _ \<Rightarrow> None))"

definition hint_actions :: "key_context \<Rightarrow> key_action list" where
  "hint_actions cx =
    (case cx of
       CxExplorer \<Rightarrow> [DoNextTab, DoToggleSelection, DoTerminalSelectionHelp, DoReload, DoRefreshDrift, DoPing, DoReboot,
         DoDeploy, DoQuit, DoToggleMcp]
     | CxDeploy \<Rightarrow> [DoBuildTab, DoPlaybookTab, DoSummaryTab, DoNextTab, DoClose, DoArmTerminate]
     | CxDeployKillArmed \<Rightarrow> [DoConfirmTerminate, DoCancel]
     | CxRuns \<Rightarrow> [DoActivate, DoMoveUp, DoRefreshRuns, DoClose]
     | _ \<Rightarrow> [DoClose])"

definition hint_order :: "key_context \<Rightarrow> key_action \<Rightarrow> nat" where
  "hint_order cx a = opt_default U64_MAX (position (\<lambda>c. c = a) (hint_actions cx))"

definition hints :: "key_context \<Rightarrow> bool \<Rightarrow> screen option \<Rightarrow> (string \<times> string) list" where
  "hints cx debug_mcp screen =
    map snd (sort_key fst (List.map_filter
      (\<lambda>(c, _, a, h). if c = cx then map_option (\<lambda>v. (hint_order cx a, v)) (Option.bind h (hint_visible debug_mcp screen)) else None)
      BINDINGS))"

text \<open>What happens outside the state, in order. A task's signal is SIGTERM.\<close>

record deploy_launch =
  dl_target :: string
  dl_flake :: string
  dl_boot :: bool
  dl_halt :: bool
  dl_program :: "string list option"

datatype app_effect =
    StartsDeploy deploy_launch
  | SpawnsTask "string list" string
  | SignalsTask "32 word"
  | TerminatesDeploy

record task_job =
  tj_id :: nat
  tj_pid :: "32 word option"
  tj_exited :: bool

record app =
  ap_explorer :: explorer
  ap_screen :: "screen option"
  ap_task :: "task_job option"
  ap_deploy :: bool
  ap_next_task :: nat
  ap_watched :: "(string \<times> bool) list"
  ap_auto_attached :: "string set"
  ap_quit :: bool
  ap_exit_code :: "int option"
  ap_notice :: "string option"
  ap_effects :: "app_effect list"

text \<open>The surroundings of one event: the height of the terminal, the configuration, what the registry shows, how
  a start or a spawn ends, and the deploy run of the open screen as it is polled.\<close>

record key_env =
  ke_height :: nat
  ke_flake :: string
  ke_dir :: string
  ke_program :: "string list option"
  ke_ping_argv :: "string \<Rightarrow> string list"
  ke_reboot_argv :: "string \<Rightarrow> string \<Rightarrow> string \<Rightarrow> bool \<Rightarrow> string list option"
  ke_runs :: runs_state
  ke_observe :: "string \<Rightarrow> observed_run option"
  ke_attach :: "string \<Rightarrow> (string \<times> bool \<times> bool) option"
  ke_start :: "deploy_launch \<Rightarrow> string option"
  ke_spawn :: "string list \<Rightarrow> (string, 32 word option) result"
  ke_poll :: deploy_poll
  ke_returncode :: "int option"
  ke_run_id :: "string option"

definition app_state_of :: "app \<Rightarrow> app_state" where
  "app_state_of a = ex_state (ap_explorer a)"

definition on_state :: "(app_state \<Rightarrow> app_state) \<Rightarrow> app \<Rightarrow> app" where
  "on_state f a = a\<lparr>ap_explorer := (ap_explorer a)\<lparr>ex_state := f (ex_state (ap_explorer a))\<rparr>\<rparr>"

definition on_explorer :: "(explorer \<Rightarrow> explorer) \<Rightarrow> app \<Rightarrow> app" where
  "on_explorer f a = a\<lparr>ap_explorer := f (ap_explorer a)\<rparr>"

definition add_effect :: "app_effect \<Rightarrow> app \<Rightarrow> app" where
  "add_effect e a = a\<lparr>ap_effects := ap_effects a @ [e]\<rparr>"

definition refresh_after :: "int option \<Rightarrow> explorer \<Rightarrow> explorer" where
  "refresh_after rc x = (case after_mutation rc (ex_state x) of ((e, v), s) \<Rightarrow> start_eval (e, s) x)"

section \<open>Screens that open\<close>

definition push_task :: "key_env \<Rightarrow> string \<Rightarrow> string list \<Rightarrow> bool \<Rightarrow> app \<Rightarrow> app" where
  "push_task env title argv after a =
    (let n = ap_next_task a + 1;
         task = task_push_line (''$ '' @ join '' '' argv @ ''  (cwd='' @ ke_dir env @ '')'') (task_new title n after);
         a = a\<lparr>ap_next_task := n\<rparr>;
         failed = (\<lambda>e. a\<lparr>ap_task := Some \<lparr>tj_id = n, tj_pid = None, tj_exited = True\<rparr>,
           ap_screen := Some (TaskScreen (task_push_line (''failed to launch: '' @ e) task))\<rparr>)
     in if argv = [] then failed ''empty argv''
        else
          (case ke_spawn env argv of
             Inl e \<Rightarrow> failed e
           | Inr pid \<Rightarrow>
               add_effect (SpawnsTask argv (ke_dir env))
                 (a\<lparr>ap_task := Some \<lparr>tj_id = n, tj_pid = pid, tj_exited = False\<rparr>,
                    ap_screen := Some (TaskScreen (task\<lparr>ta_launched := True\<rparr>))\<rparr>)))"

definition push_attached_log :: "key_env \<Rightarrow> string \<Rightarrow> string \<Rightarrow> bool \<Rightarrow> app \<Rightarrow> app" where
  "push_attached_log env title run_id after a =
    a\<lparr>ap_screen := Some (AttachedScreen (attached_pump (ke_observe env run_id) (attached_new title run_id after)))\<rparr>"

definition tick_deploy :: "deploy_poll \<Rightarrow> deploy_view \<Rightarrow> deploy_view" where
  "tick_deploy p v = (case p of (tailer, output, finished, rc, elapsed) \<Rightarrow> deploy_sync tailer output finished rc elapsed v)"

definition open_deploy :: "key_env \<Rightarrow> deploy_view \<Rightarrow> app \<Rightarrow> app" where
  "open_deploy env v a = a\<lparr>ap_screen := Some (DeployScreen (tick_deploy (ke_poll env) v)), ap_deploy := True\<rparr>"

definition start_deploy :: "key_env \<Rightarrow> deploy_launch \<Rightarrow> bool \<Rightarrow> bool \<Rightarrow> app \<Rightarrow> app" where
  "start_deploy env launch standalone after a =
    (case ke_start env launch of
       Some e \<Rightarrow> on_state (set_status (''deploy failed to launch: '' @ e) True) a
     | None \<Rightarrow>
         add_effect (StartsDeploy launch)
           (open_deploy env (deploy_view_new (dl_target launch) False (dl_boot launch) standalone False after) a))"

definition attach_deploy :: "key_env \<Rightarrow> string \<times> bool \<times> bool \<Rightarrow> bool \<Rightarrow> bool \<Rightarrow> app \<Rightarrow> app" where
  "attach_deploy env run standalone after a =
    (case run of (limit, dry_activate, boot) \<Rightarrow>
      open_deploy env (deploy_view_new limit dry_activate boot standalone True after) a)"

definition attach_title :: "string \<Rightarrow> string \<Rightarrow> string" where
  "attach_title kind limit = trim (kind @ '' '' @ limit)"

definition attach_run_manual :: "key_env \<Rightarrow> run_row \<Rightarrow> app \<Rightarrow> app" where
  "attach_run_manual env row a =
    (if rr_kind row = ''deploy'' then
       (case ke_attach env (rr_run_id row) of
          Some run \<Rightarrow> attach_deploy env run False (rr_live row) a
        | None \<Rightarrow> on_state (set_status (''run '' @ rr_run_id row @ '' is gone'') True) a)
     else push_attached_log env (attach_title (rr_kind row) (rr_limit row)) (rr_run_id row) (rr_live row) a)"

text \<open>\<^verbatim>\<open>attach_run\<close>: \<open>info\<close> is the run the settle names, or the newest of its kind.\<close>

definition attach_run :: "key_env \<Rightarrow> (int option \<Rightarrow> bool) \<Rightarrow> string \<Rightarrow> run_info option \<Rightarrow> app \<Rightarrow> app" where
  "attach_run env alive kind info a =
    (if ap_screen a \<noteq> None then a
     else
       (case info of
          None \<Rightarrow> a
        | Some info \<Rightarrow>
            if \<not> alive (run_pid (ri_meta info)) \<or> ri_run_id info \<in> ap_auto_attached a then a
            else
              let a = a\<lparr>ap_auto_attached := Set.insert (ri_run_id info) (ap_auto_attached a)\<rparr>
              in if kind = ''deploy'' then
                   (case ke_attach env (ri_run_id info) of Some run \<Rightarrow> attach_deploy env run False True a | None \<Rightarrow> a)
                 else
                   push_attached_log env
                     (attach_title kind (opt_default [] (Option.bind (map_of (ri_meta info) ''limit'') as_str)))
                     (ri_run_id info) True a))"

definition dispatch_ping :: "key_env \<Rightarrow> app \<Rightarrow> app" where
  "dispatch_ping env a =
    (case action_target (app_state_of a) of
       None \<Rightarrow> a
     | Some target \<Rightarrow> push_task env (''ping '' @ target) (ke_ping_argv env target) False a)"

definition dispatch_reboot :: "key_env \<Rightarrow> app \<Rightarrow> app" where
  "dispatch_reboot env a =
    (case action_target (app_state_of a) of
       None \<Rightarrow> a
     | Some target \<Rightarrow>
         if ke_reboot_argv env (ke_flake env) target ''1'' True = None then on_state (set_status REBOOT_UNAVAILABLE False) a
         else a\<lparr>ap_screen := Some (RebootScreen (reboot_new target))\<rparr>)"

definition deploy_question :: "string \<Rightarrow> string" where
  "deploy_question target =
    ''Deploy '' @ [CHR 0x27] @ target @ [CHR 0x27] @ ''?'' @ [CHR 0x0A] @
    ''(eval-once batch build, then deploy-rs per host with magic rollback)''"

definition dispatch_deploy :: "app \<Rightarrow> app" where
  "dispatch_deploy a =
    (case deploy_target (app_state_of a) of
       None \<Rightarrow> a
     | Some target \<Rightarrow> a\<lparr>ap_screen := Some (ConfirmScreen (confirm_new (deploy_question target) target))\<rparr>)"

section \<open>Keys of the explorer\<close>

definition ISIZE_MAX :: int where
  "ISIZE_MAX = 9223372036854775807"

definition cursor_delta :: "key_action \<Rightarrow> int option" where
  "cursor_delta act =
    (case act of
       DoMoveUp \<Rightarrow> Some (-1)
     | DoMoveDown \<Rightarrow> Some 1
     | DoPageUp \<Rightarrow> Some (-10)
     | DoPageDown \<Rightarrow> Some 10
     | DoHalfPageUp \<Rightarrow> Some (-5)
     | DoHalfPageDown \<Rightarrow> Some 5
     | _ \<Rightarrow> None)"

definition table_key :: "key_action \<Rightarrow> select_op option" where
  "table_key act =
    (case act of
       DoExtendUp \<Rightarrow> Some (ExtendRows (-1))
     | DoExtendDown \<Rightarrow> Some (ExtendRows 1)
     | DoSkipUp \<Rightarrow> Some (SkipRows (-1))
     | DoSkipDown \<Rightarrow> Some (SkipRows 1)
     | DoTop \<Rightarrow> Some (MoveRows (- ISIZE_MAX - 1))
     | DoBottom \<Rightarrow> Some (MoveRows ISIZE_MAX)
     | DoToggleSelection \<Rightarrow> Some ToggleRow
     | DoClearSelection \<Rightarrow> Some ClearRows
     | _ \<Rightarrow> map_option MoveRows (cursor_delta act))"

definition explorer_action :: "key_env \<Rightarrow> key_action \<Rightarrow> app \<Rightarrow> app" where
  "explorer_action env act a =
    (case act of
       DoQuit \<Rightarrow> a\<lparr>ap_quit := True\<rparr>
     | DoNextTab \<Rightarrow> on_state (\<lambda>s. s\<lparr>as_tab := tab_next (as_tab s)\<rparr>) a
     | DoPreviousTab \<Rightarrow> on_state (\<lambda>s. s\<lparr>as_tab := tab_prev (as_tab s)\<rparr>) a
     | DoTabOne \<Rightarrow> on_state (\<lambda>s. s\<lparr>as_tab := MembersTab\<rparr>) a
     | DoTabTwo \<Rightarrow> on_state (\<lambda>s. s\<lparr>as_tab := GroupsTab\<rparr>) a
     | DoTabThree \<Rightarrow> on_state (\<lambda>s. s\<lparr>as_tab := DriftTab\<rparr>) a
     | DoReload \<Rightarrow> on_explorer (\<lambda>x. start_load (request_reload (ex_state x)) x) a
     | DoRefreshDrift \<Rightarrow>
         on_explorer (\<lambda>x. case refresh_drift (ex_state x) of ((e, v), s) \<Rightarrow> start_eval (e, s) x) a
     | DoPing \<Rightarrow> dispatch_ping env a
     | DoReboot \<Rightarrow> dispatch_reboot env a
     | DoDeploy \<Rightarrow> dispatch_deploy a
     | DoOpenRuns \<Rightarrow> a\<lparr>ap_screen := Some (RunsScreen (ke_runs env))\<rparr>
     | DoToggleMcp \<Rightarrow>
         if as_debug_mcp (app_state_of a) then on_state (\<lambda>s. s\<lparr>as_mcp_panel := \<not> as_mcp_panel s\<rparr>) a else a
     | _ \<Rightarrow> (case table_key act of Some op \<Rightarrow> on_state (on_active_table (select_apply op)) a | None \<Rightarrow> a))"

section \<open>Keys of the screens\<close>

definition scroll_action :: "key_action \<Rightarrow> nat \<Rightarrow> (scroll_state \<Rightarrow> scroll_state) option" where
  "scroll_action act viewport =
    (case act of
       DoMoveUp \<Rightarrow> Some (scroll_up 1 viewport)
     | DoMoveDown \<Rightarrow> Some (scroll_down 1)
     | DoPageUp \<Rightarrow> Some (scroll_up viewport viewport)
     | DoPageDown \<Rightarrow> Some (scroll_down viewport)
     | DoHalfPageUp \<Rightarrow> Some (scroll_up (max (viewport div 2) 1) viewport)
     | DoHalfPageDown \<Rightarrow> Some (scroll_down (max (viewport div 2) 1))
     | DoTop \<Rightarrow> Some (to_top viewport)
     | DoBottom \<Rightarrow> Some to_bottom
     | _ \<Rightarrow> None)"

definition finish_screen :: "int option \<Rightarrow> bool \<Rightarrow> app \<Rightarrow> app" where
  "finish_screen rc after a =
    (let a = a\<lparr>ap_screen := None\<rparr> in if after then on_explorer (refresh_after rc) a else a)"

definition watch_run :: "string \<Rightarrow> bool \<Rightarrow> app \<Rightarrow> app" where
  "watch_run run_id after a =
    (if run_id \<in> fst ` set (ap_watched a) then a else a\<lparr>ap_watched := ap_watched a @ [(run_id, after)]\<rparr>)"

definition confirm_key :: "key_env \<Rightarrow> confirm_state \<Rightarrow> key_action option \<Rightarrow> app \<Rightarrow> app" where
  "confirm_key env c act a =
    (case act of
       Some DoToggleHalt \<Rightarrow> a\<lparr>ap_screen := Some (ConfirmScreen (c\<lparr>cf_halt := \<not> cf_halt c\<rparr>))\<rparr>
     | Some DoToggleBoot \<Rightarrow> a\<lparr>ap_screen := Some (ConfirmScreen (c\<lparr>cf_boot := \<not> cf_boot c\<rparr>))\<rparr>
     | Some DoConfirm \<Rightarrow>
         start_deploy env \<lparr>dl_target = cf_target c, dl_flake = ke_flake env, dl_boot = cf_boot c, dl_halt = cf_halt c,
           dl_program = ke_program env\<rparr> False True (a\<lparr>ap_screen := None\<rparr>)
     | Some DoCancel \<Rightarrow> a\<lparr>ap_screen := None\<rparr>
     | _ \<Rightarrow> a)"

definition order_key :: "key_action option \<Rightarrow> char option" where
  "order_key act =
    (case act of
       Some DoOrderOne \<Rightarrow> Some (CHR ''1'')
     | Some DoOrderTwo \<Rightarrow> Some (CHR ''2'')
     | Some DoOrderThree \<Rightarrow> Some (CHR ''3'')
     | _ \<Rightarrow> None)"

definition reboot_key :: "key_env \<Rightarrow> reboot_state \<Rightarrow> key_action option \<Rightarrow> app \<Rightarrow> app" where
  "reboot_key env r act a =
    (case order_key act of
       Some k \<Rightarrow> a\<lparr>ap_screen := Some (RebootScreen (set_order k r))\<rparr>
     | None \<Rightarrow>
         (case act of
            Some DoToggleDrain \<Rightarrow> a\<lparr>ap_screen := Some (RebootScreen (toggle_drain r))\<rparr>
          | Some DoConfirm \<Rightarrow>
              let a = a\<lparr>ap_screen := None\<rparr>
              in (case ke_reboot_argv env (ke_flake env) (rb_target r) (fst (reboot_choice r)) (snd (reboot_choice r)) of
                    None \<Rightarrow> on_state (set_status REBOOT_UNAVAILABLE False) a
                  | Some argv \<Rightarrow> push_task env (''reboot '' @ rb_target r) argv True a)
          | Some DoCancel \<Rightarrow> a\<lparr>ap_screen := None\<rparr>
          | _ \<Rightarrow> a))"

definition task_key :: "key_env \<Rightarrow> task_state \<Rightarrow> key_action option \<Rightarrow> app \<Rightarrow> app" where
  "task_key env t act a =
    (case Option.bind act (\<lambda>k. scroll_action k (ke_height env - 4)) of
       Some f \<Rightarrow> a\<lparr>ap_screen := Some (TaskScreen (t\<lparr>ta_scroll := f (ta_scroll t)\<rparr>))\<rparr>
     | None \<Rightarrow>
         if act = Some DoClose then
           let signal = (case ap_task a of
                 Some j \<Rightarrow> if tj_exited j then None else tj_pid j
               | None \<Rightarrow> None);
               a = a\<lparr>ap_task := None, ap_screen := None\<rparr>;
               a = (case signal of Some pid \<Rightarrow> add_effect (SignalsTask pid) a | None \<Rightarrow> a)
           in finish_screen (ta_rc t) (ta_after_mutation t) a
         else a)"

definition attached_notice :: "string \<Rightarrow> string" where
  "attached_notice run_id =
    ''run '' @ run_id @ '' continues'' @ [CHR 0x0A] @ ''re-attach with: mandala tui attach '' @ run_id"

definition attached_key :: "key_env \<Rightarrow> attached_state \<Rightarrow> key_action option \<Rightarrow> app \<Rightarrow> app" where
  "attached_key env t act a =
    (case Option.bind act (\<lambda>k. scroll_action k (ke_height env - 4)) of
       Some f \<Rightarrow> a\<lparr>ap_screen := Some (AttachedScreen (t\<lparr>at_scroll := f (at_scroll t)\<rparr>))\<rparr>
     | None \<Rightarrow>
         if act = Some DoClose then
           let rc = attached_close_rc (ke_observe env (at_run_id t));
               a = a\<lparr>ap_screen := None\<rparr>;
               a = (if rc = None \<and> at_after_mutation t then watch_run (at_run_id t) True a else a)
           in if at_standalone t then
                a\<lparr>ap_exit_code := Some (opt_default 0 rc),
                  ap_notice := (if rc = None then Some (attached_notice (at_run_id t)) else ap_notice a), ap_quit := True\<rparr>
              else finish_screen rc (at_after_mutation t) a
         else a)"

definition detached_status :: "string \<Rightarrow> string" where
  "detached_status run_id = ''detached '' @ EM_DASH @ '' run '' @ run_id @ '' continues (a: runs list)''"

definition deploy_notice :: "string \<Rightarrow> string" where
  "deploy_notice run_id =
    ''deploy continues detached: run '' @ run_id @ [CHR 0x0A] @ ''re-attach with: mandala tui attach '' @ run_id"

definition deploy_close :: "key_env \<Rightarrow> deploy_view \<Rightarrow> app \<Rightarrow> app" where
  "deploy_close env v a =
    (let rc = (if ap_deploy a then ke_returncode env else None);
         run_id = (if ap_deploy a then ke_run_id env else None);
         a = a\<lparr>ap_screen := None, ap_deploy := False\<rparr>;
         a = (case (rc, run_id) of
                (None, Some r) \<Rightarrow>
                  on_state (set_status (detached_status r) False) (if dv_after_mutation v then watch_run r True a else a)
              | _ \<Rightarrow> a)
     in if dv_standalone v then
          a\<lparr>ap_exit_code := Some (opt_default 0 rc),
            ap_notice := (case (rc, run_id) of (None, Some r) \<Rightarrow> Some (deploy_notice r) | _ \<Rightarrow> ap_notice a), ap_quit := True\<rparr>
        else finish_screen rc (dv_after_mutation v) a)"

definition show_tab :: "deploy_tab \<Rightarrow> deploy_view \<Rightarrow> app \<Rightarrow> app" where
  "show_tab t v a = a\<lparr>ap_screen := Some (DeployScreen (v\<lparr>dv_active := t\<rparr>))\<rparr>"

definition deploy_key :: "key_env \<Rightarrow> deploy_view \<Rightarrow> key_action option \<Rightarrow> app \<Rightarrow> app" where
  "deploy_key env v act a =
    (if dv_kill_armed v then
       let a = a\<lparr>ap_screen := Some (DeployScreen (v\<lparr>dv_kill_armed := False\<rparr>))\<rparr>
       in if act = Some DoConfirmTerminate then
            on_state (set_status ''terminate signalled'' True) (if ap_deploy a then add_effect TerminatesDeploy a else a)
          else on_state (set_status ''terminate cancelled'' False) a
     else
       (case act of
          None \<Rightarrow> a
        | Some DoArmTerminate \<Rightarrow>
            if \<not> dv_finished v then a\<lparr>ap_screen := Some (DeployScreen (v\<lparr>dv_kill_armed := True\<rparr>))\<rparr> else a
        | Some DoBuildTab \<Rightarrow> show_tab BuildTab v a
        | Some DoPlaybookTab \<Rightarrow> show_tab PlaybookTab v a
        | Some DoSummaryTab \<Rightarrow> if dv_summary v \<noteq> None then show_tab SummaryTab v a else a
        | Some DoNextTab \<Rightarrow> show_tab (cycle_tab 1 v) v a
        | Some DoPreviousTab \<Rightarrow> show_tab (cycle_tab (-1) v) v a
        | Some DoClose \<Rightarrow> deploy_close env v a
        | Some k \<Rightarrow>
            (case scroll_action k (ke_height env - 7) of
               Some f \<Rightarrow> a\<lparr>ap_screen := Some (DeployScreen (on_active_scroll f v))\<rparr>
             | None \<Rightarrow> a)))"

definition runs_delta :: "runs_state \<Rightarrow> key_action \<Rightarrow> int option" where
  "runs_delta r act =
    (case act of
       DoTop \<Rightarrow> Some (- int (rs_cursor r))
     | DoBottom \<Rightarrow> Some (int (length (rs_rows r) - 1 - rs_cursor r))
     | _ \<Rightarrow> cursor_delta act)"

definition runs_key :: "key_env \<Rightarrow> runs_state \<Rightarrow> key_action option \<Rightarrow> app \<Rightarrow> app" where
  "runs_key env r act a =
    (case Option.bind act (runs_delta r) of
       Some d \<Rightarrow> a\<lparr>ap_screen := Some (RunsScreen (runs_move d r))\<rparr>
     | None \<Rightarrow>
         (case act of
            Some DoRefreshRuns \<Rightarrow> a\<lparr>ap_screen := Some (RunsScreen (ke_runs env))\<rparr>
          | Some DoActivate \<Rightarrow>
              let a = a\<lparr>ap_screen := None\<rparr>
              in (case runs_selected r of Some row \<Rightarrow> attach_run_manual env row a | None \<Rightarrow> a)
          | Some DoClose \<Rightarrow> a\<lparr>ap_screen := None\<rparr>
          | _ \<Rightarrow> a))"

definition on_screen_action :: "key_env \<Rightarrow> screen \<Rightarrow> key_action option \<Rightarrow> app \<Rightarrow> app" where
  "on_screen_action env s act a =
    (case s of
       ConfirmScreen c \<Rightarrow> confirm_key env c act a
     | RebootScreen r \<Rightarrow> reboot_key env r act a
     | TaskScreen t \<Rightarrow> task_key env t act a
     | AttachedScreen t \<Rightarrow> attached_key env t act a
     | DeployScreen v \<Rightarrow> deploy_key env v act a
     | RunsScreen r \<Rightarrow> runs_key env r act a)"

definition key_context_of :: "screen option \<Rightarrow> key_context" where
  "key_context_of s =
    (case s of
       None \<Rightarrow> CxExplorer
     | Some (ConfirmScreen _) \<Rightarrow> CxConfirm
     | Some (RebootScreen _) \<Rightarrow> CxReboot
     | Some (TaskScreen _) \<Rightarrow> CxTask
     | Some (AttachedScreen _) \<Rightarrow> CxAttachedLog
     | Some (DeployScreen v) \<Rightarrow> if dv_kill_armed v then CxDeployKillArmed else CxDeploy
     | Some (RunsScreen _) \<Rightarrow> CxRuns)"

text \<open>\<^verbatim>\<open>on_key\<close>; suspending to the shell and back leaves the state alone.\<close>

definition on_key :: "key_env \<Rightarrow> key_event \<Rightarrow> app \<Rightarrow> app" where
  "on_key env ev a =
    (case key_resolve CxGlobal ev of
       Some DoQuit \<Rightarrow> a\<lparr>ap_quit := True\<rparr>
     | Some DoSuspend \<Rightarrow> a
     | _ \<Rightarrow>
         let act = key_resolve (key_context_of (ap_screen a)) ev
         in (case ap_screen a of
               Some s \<Rightarrow> on_screen_action env s act a
             | None \<Rightarrow> (case act of Some k \<Rightarrow> explorer_action env k a | None \<Rightarrow> a)))"

section \<open>The mouse\<close>

datatype scroll_pane = McpPane | TaskPane | AttachedPane | BuildPane | DeployPane

datatype mouse_target =
    ActionTarget key_action
  | TableTarget tab
  | RowTarget tab nat
  | RunsTableTarget
  | RunsRowTarget nat
  | TabTarget deploy_tab
  | PaneTarget scroll_pane nat

datatype mouse_kind = WheelUp | WheelDown | LeftDown | OtherMouse

definition wheel_pane :: "scroll_pane \<Rightarrow> (scroll_state \<Rightarrow> scroll_state) \<Rightarrow> app \<Rightarrow> app" where
  "wheel_pane pane f a =
    (case (pane, ap_screen a) of
       (McpPane, _) \<Rightarrow> on_state (\<lambda>s. s\<lparr>as_mcp_scroll := f (as_mcp_scroll s)\<rparr>) a
     | (TaskPane, Some (TaskScreen t)) \<Rightarrow> a\<lparr>ap_screen := Some (TaskScreen (t\<lparr>ta_scroll := f (ta_scroll t)\<rparr>))\<rparr>
     | (AttachedPane, Some (AttachedScreen t)) \<Rightarrow> a\<lparr>ap_screen := Some (AttachedScreen (t\<lparr>at_scroll := f (at_scroll t)\<rparr>))\<rparr>
     | (DeployPane, Some (DeployScreen v)) \<Rightarrow> a\<lparr>ap_screen := Some (DeployScreen (on_active_scroll f v))\<rparr>
     | _ \<Rightarrow> a)"

definition move_runs :: "(runs_state \<Rightarrow> int) \<Rightarrow> app \<Rightarrow> app" where
  "move_runs d a =
    (case ap_screen a of Some (RunsScreen r) \<Rightarrow> a\<lparr>ap_screen := Some (RunsScreen (runs_move (d r) r))\<rparr> | _ \<Rightarrow> a)"

definition on_wheel :: "bool \<Rightarrow> mouse_target \<Rightarrow> app \<Rightarrow> app" where
  "on_wheel up target a =
    (let d = (if up then -3 else 3);
         on_tab = (\<lambda>t. on_state (\<lambda>s. on_active_table (select_apply (MoveRows d)) (s\<lparr>as_tab := t\<rparr>)) a)
     in case target of
          PaneTarget pane viewport \<Rightarrow> wheel_pane pane (if up then scroll_up 3 viewport else scroll_down 3) a
        | TableTarget t \<Rightarrow> on_tab t
        | RowTarget t _ \<Rightarrow> on_tab t
        | RunsTableTarget \<Rightarrow> move_runs (\<lambda>_. d) a
        | RunsRowTarget _ \<Rightarrow> move_runs (\<lambda>_. d) a
        | _ \<Rightarrow> a)"

definition click_row :: "nat \<Rightarrow> select_table \<Rightarrow> select_table" where
  "click_row i t = toggle_row (snd (move_cursor (int i - int (st_cursor t)) t))"

definition on_click :: "key_env \<Rightarrow> mouse_target \<Rightarrow> app \<Rightarrow> app" where
  "on_click env target a =
    (case target of
       ActionTarget act \<Rightarrow>
         (case ap_screen a of
            Some s \<Rightarrow> on_screen_action env s (Some act) a
          | None \<Rightarrow>
              (case act of
                 DoTabOne \<Rightarrow> on_state (\<lambda>s. s\<lparr>as_tab := MembersTab\<rparr>) a
               | DoTabTwo \<Rightarrow> on_state (\<lambda>s. s\<lparr>as_tab := GroupsTab\<rparr>) a
               | DoTabThree \<Rightarrow> on_state (\<lambda>s. s\<lparr>as_tab := DriftTab\<rparr>) a
               | _ \<Rightarrow> a))
     | RowTarget t i \<Rightarrow> on_state (\<lambda>s. on_active_table (click_row i) (s\<lparr>as_tab := t\<rparr>)) a
     | RunsRowTarget i \<Rightarrow> move_runs (\<lambda>r. int i - int (rs_cursor r)) a
     | TabTarget t \<Rightarrow> (case ap_screen a of Some (DeployScreen v) \<Rightarrow> show_tab t v a | _ \<Rightarrow> a)
     | _ \<Rightarrow> a)"

definition on_mouse :: "key_env \<Rightarrow> mouse_target hit_map \<Rightarrow> mouse_kind \<Rightarrow> nat \<Rightarrow> nat \<Rightarrow> app \<Rightarrow> app" where
  "on_mouse env m kind column row a =
    (case hit m column row of
       None \<Rightarrow> a
     | Some target \<Rightarrow>
         (case kind of
            WheelUp \<Rightarrow> on_wheel True target a
          | WheelDown \<Rightarrow> on_wheel False target a
          | LeftDown \<Rightarrow> on_click env target a
          | OtherMouse \<Rightarrow> a))"

section \<open>Events\<close>

definition task_line :: "nat \<Rightarrow> string \<Rightarrow> app \<Rightarrow> app" where
  "task_line n l a =
    (case ap_screen a of
       Some (TaskScreen t) \<Rightarrow> if ta_id t = n then a\<lparr>ap_screen := Some (TaskScreen (task_push_line l t))\<rparr> else a
     | _ \<Rightarrow> a)"

definition task_exit :: "nat \<Rightarrow> int \<Rightarrow> app \<Rightarrow> app" where
  "task_exit n rc a =
    (let a = a\<lparr>ap_task := map_option (\<lambda>j. if tj_id j = n then j\<lparr>tj_exited := True\<rparr> else j) (ap_task a)\<rparr>
     in case ap_screen a of
          Some (TaskScreen t) \<Rightarrow> if ta_id t = n then a\<lparr>ap_screen := Some (TaskScreen (task_exited rc t))\<rparr> else a
        | _ \<Rightarrow> a)"

definition poll_deploy :: "key_env \<Rightarrow> app \<Rightarrow> app" where
  "poll_deploy env a =
    (case ap_screen a of
       Some (DeployScreen v) \<Rightarrow> if ap_deploy a then a\<lparr>ap_screen := Some (DeployScreen (tick_deploy (ke_poll env) v))\<rparr> else a
     | _ \<Rightarrow> a)"

definition poll_attached :: "key_env \<Rightarrow> app \<Rightarrow> app" where
  "poll_attached env a =
    (case ap_screen a of
       Some (AttachedScreen t) \<Rightarrow> a\<lparr>ap_screen := Some (AttachedScreen (attached_pump (ke_observe env (at_run_id t)) t))\<rparr>
     | _ \<Rightarrow> a)"

text \<open>What one pass of \<^verbatim>\<open>poll_watched_runs\<close> finds of a run: pruned, still running, or settled.\<close>

datatype watch_answer = WatchPruned | WatchRunning | WatchSettled "int option"

definition poll_watched :: "(string \<Rightarrow> watch_answer) \<Rightarrow> app \<Rightarrow> app" where
  "poll_watched look a =
    (let settled = List.map_filter
           (\<lambda>(r, after). case look r of WatchSettled rc \<Rightarrow> Some (rc, after) | _ \<Rightarrow> None) (ap_watched a);
         a = a\<lparr>ap_watched := List.filter (\<lambda>(r, _). look r = WatchRunning) (ap_watched a)\<rparr>
     in fold (\<lambda>(rc, after) a. if after then on_explorer (refresh_after rc) a else a) settled a)"

datatype app_input =
    KeyPress key_env key_event
  | MouseInput key_env "mouse_target hit_map" mouse_kind nat nat
  | TaskLineInput nat string
  | TaskExitInput nat int
  | DeployPoll key_env
  | AttachedPoll key_env
  | WatchPoll "string \<Rightarrow> watch_answer"
  | AttachInput key_env "int option \<Rightarrow> bool" string "run_info option"
  | ExplorerInput "json \<Rightarrow> string" "json \<Rightarrow> string option" explorer_event

definition app_step :: "app_input \<Rightarrow> app \<Rightarrow> app" where
  "app_step i a =
    (if ap_quit a then a
     else
       (case i of
          KeyPress env ev \<Rightarrow> on_key env ev a
        | MouseInput env m kind column row \<Rightarrow> on_mouse env m kind column row a
        | TaskLineInput n l \<Rightarrow> task_line n l a
        | TaskExitInput n rc \<Rightarrow> task_exit n rc a
        | DeployPoll env \<Rightarrow> poll_deploy env a
        | AttachedPoll env \<Rightarrow> poll_attached env a
        | WatchPoll look \<Rightarrow> poll_watched look a
        | AttachInput env alive kind info \<Rightarrow> attach_run env alive kind info a
        | ExplorerInput render tenths ev \<Rightarrow> on_explorer (explorer_step render tenths ev) a))"

definition app_run :: "app_input list \<Rightarrow> app \<Rightarrow> app" where
  "app_run = fold app_step"

section \<open>Stopping a deploy takes two keys\<close>

definition stop_armed :: "app \<Rightarrow> bool" where
  "stop_armed a = (case ap_screen a of Some (DeployScreen v) \<Rightarrow> dv_kill_armed v | _ \<Rightarrow> False)"

definition stopped :: "app \<Rightarrow> bool" where
  "stopped a \<longleftrightarrow> TerminatesDeploy \<in> set (ap_effects a)"

definition global_key :: "key_event \<Rightarrow> bool" where
  "global_key ev \<longleftrightarrow> key_resolve CxGlobal ev \<in> {Some DoQuit, Some DoSuspend}"

text \<open>The actions the code registers for the mouse are those of the dialogues and the tabs.\<close>

definition clickable :: "mouse_target hit_map \<Rightarrow> bool" where
  "clickable m \<longleftrightarrow> (\<forall>column row. hit m column row \<notin> {Some (ActionTarget DoArmTerminate), Some (ActionTarget DoConfirmTerminate)})"

fun inert_input :: "app_input \<Rightarrow> bool" where
  "inert_input (KeyPress _ ev) = global_key ev"
| "inert_input _ = True"

fun honest_input :: "app_input \<Rightarrow> bool" where
  "honest_input (MouseInput _ m _ _ _) = clickable m"
| "honest_input _ = True"

lemma app_frames [simp]:
  "ap_screen (on_state f a) = ap_screen a" "ap_effects (on_state f a) = ap_effects a" "ap_deploy (on_state f a) = ap_deploy a"
  "ap_screen (on_explorer g a) = ap_screen a" "ap_effects (on_explorer g a) = ap_effects a"
  "ap_screen (add_effect e a) = ap_screen a" "ap_effects (add_effect e a) = ap_effects a @ [e]"
  "ap_screen (watch_run r after a) = ap_screen a" "ap_effects (watch_run r after a) = ap_effects a"
  "ap_effects (finish_screen rc after a) = ap_effects a" "ap_screen (finish_screen rc after a) = None"
  by (simp_all add: on_state_def on_explorer_def add_effect_def watch_run_def finish_screen_def Let_def)

lemma armed_frames [simp]:
  "dv_kill_armed (sync_hosts t v) = dv_kill_armed v"
  "dv_kill_armed (deploy_sync tlr out fin rc el v) = dv_kill_armed v"
  "dv_kill_armed (on_active_scroll f v) = dv_kill_armed v"
  "dv_kill_armed (tick_deploy p v) = dv_kill_armed v"
  "\<not> dv_kill_armed (deploy_view_new limit dry boot alone att after)"
  by (simp_all add: sync_hosts_def deploy_sync_def on_active_scroll_def tick_deploy_def deploy_view_new_def Let_def
      split: option.split prod.split deploy_tab.split)

text \<open>A step is tame when it stops no deploy and arms none.\<close>

definition tame :: "app \<Rightarrow> app \<Rightarrow> bool" where
  "tame a b \<longleftrightarrow> stopped b = stopped a \<and> (stop_armed b \<longrightarrow> stop_armed a)"

lemmas tame_defs = tame_def stopped_def stop_armed_def

lemma tame_refl [simp]: "tame a a"
  by (simp add: tame_def)

lemma tame_on_state [simp]: "tame a (on_state f a)" "tame a (on_explorer g a)"
  by (simp_all add: tame_defs)

lemma tame_opens:
  "tame a (push_task env title argv after a)"
  "tame a (push_attached_log env title r after a)"
  "tame a (start_deploy env launch alone after a)"
  "tame a (attach_deploy env run alone after a)"
  by (simp_all add: tame_defs push_task_def push_attached_log_def start_deploy_def attach_deploy_def open_deploy_def Let_def
      split: option.split sum.split prod.split)

lemma tame_attach_manual: "tame a (attach_run_manual env row a)"
  by (simp add: attach_run_manual_def tame_opens split: option.split)

lemma tame_attached_set: "tame (a\<lparr>ap_auto_attached := X\<rparr>) b \<longleftrightarrow> tame a b"
  by (simp add: tame_defs)

lemmas tame_auto_opens = tame_opens [where a = "a\<lparr>ap_auto_attached := X\<rparr>" for a X, unfolded tame_attached_set]

lemma tame_attach_run: "tame a (attach_run env alive kind info a)"
proof -
  have "tame a (a\<lparr>ap_auto_attached := X\<rparr>)" for X
    by (simp add: tame_defs)
  then show ?thesis
    by (simp add: attach_run_def Let_def tame_auto_opens split: option.split)
qed

lemma tame_explorer: "tame a (explorer_action env act a)"
proof -
  have "tame a (dispatch_ping env a)" by (simp add: dispatch_ping_def tame_opens split: option.split)
  moreover have "tame a (dispatch_reboot env a)"
    by (simp add: dispatch_reboot_def split: option.split) (simp add: tame_defs)
  moreover have "tame a (dispatch_deploy a)"
    by (simp add: dispatch_deploy_def split: option.split) (simp add: tame_defs)
  moreover have "tame a (a\<lparr>ap_quit := True\<rparr>)" "tame a (a\<lparr>ap_screen := Some (RunsScreen r)\<rparr>)" for r
    by (simp_all add: tame_defs)
  ultimately show ?thesis
    by (cases act) (simp_all add: explorer_action_def split: option.split)
qed

text \<open>What holds of a step from the state whose screen was closed first.\<close>

lemma tame_closed: "tame (a\<lparr>ap_screen := None\<rparr>) b \<Longrightarrow> tame a b"
  by (auto simp: tame_defs)

lemma tame_screens [simp]:
  "tame a (a\<lparr>ap_screen := Some (ConfirmScreen c)\<rparr>)"
  "tame a (a\<lparr>ap_screen := Some (RebootScreen r)\<rparr>)"
  "tame a (a\<lparr>ap_screen := Some (TaskScreen t)\<rparr>)"
  "tame a (a\<lparr>ap_screen := Some (AttachedScreen u)\<rparr>)"
  "tame a (a\<lparr>ap_screen := Some (RunsScreen rs)\<rparr>)"
  "\<not> dv_kill_armed v \<Longrightarrow> tame a (a\<lparr>ap_screen := Some (DeployScreen v)\<rparr>)"
  "tame a (a\<lparr>ap_screen := None\<rparr>)"
  by (simp_all add: tame_defs)

lemma tame_confirm: "tame a (confirm_key env c act a)"
  by (cases act; cases "the act") (simp_all add: confirm_key_def tame_closed [OF tame_opens(3)])

lemma tame_reboot: "tame a (reboot_key env r act a)"
  by (cases act; cases "the act")
    (simp_all add: reboot_key_def order_key_def Let_def tame_closed [OF tame_opens(1)]
      tame_closed [OF tame_on_state(1)] split: option.split)

lemma tame_runs: "tame a (runs_key env r act a)"
  by (cases act; cases "the act")
    (simp_all add: runs_key_def runs_delta_def cursor_delta_def Let_def tame_closed [OF tame_attach_manual]
      split: option.split)

lemma tame_task: "tame a (task_key env t act a)"
  by (simp add: task_key_def Let_def split: option.split) (simp add: tame_defs)

lemma tame_attached: "tame a (attached_key env t act a)"
  by (simp add: attached_key_def Let_def split: option.split) (simp add: tame_defs)

lemma tame_deploy_close: "tame a (deploy_close env v a)"
  by (simp add: deploy_close_def Let_def tame_defs split: option.split)

lemma tame_deploy:
  assumes "ap_screen a = Some (DeployScreen v)" "act \<noteq> Some DoConfirmTerminate" "act \<noteq> Some DoArmTerminate"
  shows "tame a (deploy_key env v act a)"
proof (cases "dv_kill_armed v")
  case True
  then show ?thesis using assms by (simp add: deploy_key_def tame_defs)
next
  case False
  then show ?thesis using assms(2,3)
    by (cases act; cases "the act")
      (simp_all add: deploy_key_def show_tab_def tame_deploy_close scroll_action_def)
qed

lemma tame_screen_action:
  assumes "ap_screen a = Some s" "act \<noteq> Some DoConfirmTerminate" "act \<noteq> Some DoArmTerminate"
  shows "tame a (on_screen_action env s act a)"
  using assms
  by (cases s) (simp_all add: on_screen_action_def tame_confirm tame_reboot tame_task tame_attached tame_deploy tame_runs)

lemma tame_mouse:
  assumes "clickable m"
  shows "tame a (on_mouse env m kind column row a)"
proof (cases "hit m column row")
  case (Some target)
  have target: "target \<noteq> ActionTarget DoArmTerminate" "target \<noteq> ActionTarget DoConfirmTerminate"
    using assms Some by (auto simp: clickable_def)
  have runs: "tame a (move_runs d a)" for d
    by (simp add: move_runs_def split: option.split screen.split)
  have pane: "tame a (wheel_pane p f a)" for p f
    by (cases p; cases "ap_screen a"; cases "the (ap_screen a)") (simp_all add: wheel_pane_def, simp_all add: tame_defs)
  have wheel: "tame a (on_wheel up target a)" for up
    by (simp add: on_wheel_def Let_def runs pane split: mouse_target.split)
  have click: "tame a (on_click env target a)"
  proof (cases target)
    case (ActionTarget act)
    then show ?thesis using target
      by (cases "ap_screen a"; cases act) (simp_all add: on_click_def tame_screen_action)
  next
    case (TabTarget t)
    then show ?thesis by (simp add: on_click_def show_tab_def tame_defs split: option.split screen.split)
  qed (simp_all add: on_click_def runs)
  show ?thesis
    using Some wheel click by (simp add: on_mouse_def split: mouse_kind.split)
qed (simp add: on_mouse_def)

lemma tame_pump: "tame a (poll_attached env a)" "tame a (poll_deploy env a)" "tame a (task_line n l a)" "tame a (task_exit n rc a)"
  by (simp_all add: poll_attached_def poll_deploy_def task_line_def task_exit_def Let_def split: option.split screen.split)
    (simp_all add: tame_defs)

lemma tame_watched: "tame a (poll_watched look a)"
proof -
  have "tame a (fold (\<lambda>(rc, after) a. if after then on_explorer (refresh_after rc) a else a) ps b)" if "tame a b" for ps b
    using that
  proof (induction ps arbitrary: b)
    case (Cons p ps)
    have "tame a (on_explorer f b)" for f using Cons.prems by (simp add: tame_defs)
    then show ?case using Cons by (cases p) simp
  qed simp
  moreover have "tame a (a\<lparr>ap_watched := ws\<rparr>)" for ws by (simp add: tame_defs)
  ultimately show ?thesis by (simp add: poll_watched_def Let_def)
qed

lemma on_key_global: "global_key ev \<Longrightarrow> on_key env ev a \<in> {a, a\<lparr>ap_quit := True\<rparr>}"
  by (auto simp: global_key_def on_key_def)

lemma on_key_screen:
  "\<not> global_key ev \<Longrightarrow> on_key env ev a =
    (let act = key_resolve (key_context_of (ap_screen a)) ev
     in (case ap_screen a of
           Some s \<Rightarrow> on_screen_action env s act a
         | None \<Rightarrow> (case act of Some k \<Rightarrow> explorer_action env k a | None \<Rightarrow> a)))"
  by (cases "key_resolve CxGlobal ev"; cases "the (key_resolve CxGlobal ev)") (simp_all add: on_key_def global_key_def)

lemma tame_inert:
  assumes "inert_input i" "honest_input i"
  shows "tame a (app_step i a)"
proof (cases i)
  case (KeyPress env ev)
  then show ?thesis using assms
      on_key_global [of ev env a] by (auto simp: app_step_def tame_defs)
next
  case (MouseInput env m kind column row)
  then show ?thesis using assms tame_mouse by (simp add: app_step_def)
qed (simp_all add: app_step_def tame_pump tame_watched tame_attach_run)

text \<open>What each context makes of a key: the two keys of the termination belong to a deploy screen alone.\<close>

lemma find_exists: "x \<in> set xs \<Longrightarrow> P x \<Longrightarrow> \<exists>y. List.find P xs = Some y"
  by (induction xs) auto

lemma resolve_binding:
  assumes "key_resolve cx ev = Some act"
  obtains ks h where "(cx, ks, act, h) \<in> set BINDINGS" "list_ex (\<lambda>k. key_matches k ev) ks"
  using assms that by (auto simp: key_resolve_def dest!: find_SomeD)

lemma terminate_bindings:
  "list_all (\<lambda>(c, _, a, _). (a = DoArmTerminate \<longrightarrow> c = CxDeploy) \<and> (a = DoConfirmTerminate \<longrightarrow> c = CxDeployKillArmed)) BINDINGS"
  by (simp add: BINDINGS_def)

lemma resolve_terminate:
  "key_resolve cx ev = Some DoArmTerminate \<Longrightarrow> cx = CxDeploy"
  "key_resolve cx ev = Some DoConfirmTerminate \<Longrightarrow> cx = CxDeployKillArmed"
  using terminate_bindings by (auto simp: list_all_iff elim!: resolve_binding)

lemma key_step:
  assumes "\<not> ap_quit a" "\<not> global_key ev"
  shows "stop_armed (app_step (KeyPress env ev) a) \<Longrightarrow> key_resolve CxDeploy ev = Some DoArmTerminate"
    and "stopped (app_step (KeyPress env ev) a) \<Longrightarrow>
      stopped a \<or> stop_armed a \<and> key_resolve CxDeployKillArmed ev = Some DoConfirmTerminate"
proof -
  let ?act = "key_resolve (key_context_of (ap_screen a)) ev"
  let ?b = "app_step (KeyPress env ev) a"
  have b: "?b = (case ap_screen a of Some s \<Rightarrow> on_screen_action env s ?act a
      | None \<Rightarrow> (case ?act of Some k \<Rightarrow> explorer_action env k a | None \<Rightarrow> a))"
    using assms by (simp add: app_step_def on_key_screen Let_def)
  have main: "(stop_armed ?b \<longrightarrow> key_resolve CxDeploy ev = Some DoArmTerminate) \<and>
      (stopped ?b \<longrightarrow> stopped a \<or> stop_armed a \<and> key_resolve CxDeployKillArmed ev = Some DoConfirmTerminate)"
  proof (cases "\<exists>v. ap_screen a = Some (DeployScreen v)")
    case True
    then obtain v where v: "ap_screen a = Some (DeployScreen v)" by blast
    show ?thesis
    proof (cases "dv_kill_armed v")
      case True
      then show ?thesis using v
        by (simp add: b on_screen_action_def deploy_key_def key_context_of_def stop_armed_def stopped_def Let_def)
    next
      case False
      then have cx: "key_context_of (ap_screen a) = CxDeploy" using v by (simp add: key_context_of_def)
      show ?thesis
      proof (cases "?act = Some DoArmTerminate")
        case True
        then show ?thesis using v False cx
          by (simp add: b on_screen_action_def deploy_key_def stop_armed_def stopped_def)
      next
        case other: False
        have "?act \<noteq> Some DoConfirmTerminate" using cx resolve_terminate(2) by force
        then have "tame a ?b" using tame_screen_action [OF v] other by (simp add: b v)
        then show ?thesis using v False by (auto simp: tame_def stop_armed_def)
      qed
    qed
  next
    case False
    then have cx: "key_context_of (ap_screen a) \<noteq> CxDeploy" "key_context_of (ap_screen a) \<noteq> CxDeployKillArmed"
      by (auto simp: key_context_of_def split: option.split screen.split)
    have "tame a ?b"
    proof (cases "ap_screen a")
      case None
      then show ?thesis by (simp add: b tame_explorer split: option.split)
    next
      case (Some s)
      moreover have "?act \<noteq> Some DoArmTerminate" "?act \<noteq> Some DoConfirmTerminate"
        using cx resolve_terminate by blast+
      ultimately show ?thesis using tame_screen_action [OF Some] by (simp add: b)
    qed
    moreover have "\<not> stop_armed a" using False by (auto simp: stop_armed_def split: option.split screen.split)
    ultimately show ?thesis by (auto simp: tame_def)
  qed
  show "stop_armed ?b \<Longrightarrow> key_resolve CxDeploy ev = Some DoArmTerminate" using main by blast
  show "stopped ?b \<Longrightarrow> stopped a \<or> stop_armed a \<and> key_resolve CxDeployKillArmed ev = Some DoConfirmTerminate"
    using main by blast
qed

lemma terminate_keys:
  "key_resolve CxDeploy ev = Some DoArmTerminate \<Longrightarrow> key_matches (modified_key (KChar ''k'') CONTROL) ev"
  "key_resolve CxDeployKillArmed ev = Some DoConfirmTerminate \<Longrightarrow> key_matches (plain_key (KChar ''y'')) ev"
proof -
  have "list_all (\<lambda>(_, ks, a, _). (a = DoArmTerminate \<longrightarrow> ks = [modified_key (KChar ''k'') CONTROL]) \<and>
      (a = DoConfirmTerminate \<longrightarrow> ks = [plain_key (KChar ''y'')])) BINDINGS"
    by (simp add: BINDINGS_def)
  then show "key_resolve CxDeploy ev = Some DoArmTerminate \<Longrightarrow> key_matches (modified_key (KChar ''k'') CONTROL) ev"
      and "key_resolve CxDeployKillArmed ev = Some DoConfirmTerminate \<Longrightarrow> key_matches (plain_key (KChar ''y'')) ev"
    by (auto simp: list_all_iff elim!: resolve_binding)
qed

lemma step_stop_armed:
  assumes "honest_input i" "stop_armed (app_step i a)" "\<not> ap_quit a"
  shows "stop_armed a \<and> inert_input i \<or>
    (\<exists>env k. i = KeyPress env k \<and> key_matches (modified_key (KChar ''k'') CONTROL) k)"
proof (cases "inert_input i")
  case True
  then show ?thesis using tame_inert assms by (auto simp: tame_def)
next
  case False
  then obtain env k where i: "i = KeyPress env k" and k: "\<not> global_key k" by (cases i) auto
  then show ?thesis using key_step(1) [OF assms(3) k] assms(2) terminate_keys(1) by blast
qed

definition ctrl_k :: "app_input \<Rightarrow> bool" where
  "ctrl_k i \<longleftrightarrow> (\<exists>env k. i = KeyPress env k \<and> key_matches (modified_key (KChar ''k'') CONTROL) k)"

definition letter_y :: "app_input \<Rightarrow> bool" where
  "letter_y i \<longleftrightarrow> (\<exists>env k. i = KeyPress env k \<and> key_matches (plain_key (KChar ''y'')) k)"

lemma run_stop_armed:
  assumes "list_all honest_input ins" "\<not> stop_armed a" "stop_armed (app_run ins a)" "\<not> ap_quit (app_run ins a)"
  shows "\<exists>before k between. ins = before @ k # between \<and> ctrl_k k \<and> list_all inert_input between"
  using assms
proof (induction ins rule: rev_induct)
  case (snoc i ins)
  let ?b = "app_run ins a"
  have b: "app_run (ins @ [i]) a = app_step i ?b" by (simp add: app_run_def)
  have quit: "\<not> ap_quit ?b" using snoc.prems(4) by (cases "ap_quit ?b") (simp_all add: b app_step_def)
  have honest: "honest_input i" using snoc.prems(1) by simp
  from step_stop_armed [OF honest _ quit] snoc.prems(3) consider "stop_armed ?b" "inert_input i" | "ctrl_k i"
    unfolding b ctrl_k_def by blast
  then show ?case
  proof cases
    case 1
    then obtain before k between where "ins = before @ k # between" "ctrl_k k" "list_all inert_input between"
      using snoc.IH snoc.prems quit by auto
    then show ?thesis using 1 by (intro exI [of _ before] exI [of _ k] exI [of _ "between @ [i]"]) simp
  next
    case 2
    then show ?thesis by (intro exI [of _ ins] exI [of _ i] exI [of _ "[]"]) simp
  qed
qed (simp add: app_run_def)

text \<open>C6: A deploy is stopped only by two deliberate keys. Whatever the session's events - keys, mouse, polls, output
  and exits of tasks, attachments, fleet events - the signal that terminates a deploy is sent only when ctrl-k was
  pressed, then y, and between the two no key reached the screen. Closing the screen, quitting or clicking never
  terminates a deploy.\<close>

theorem terminating_takes_two_keys:
  assumes "list_all honest_input ins" "\<not> stop_armed a" "\<not> stopped a" "stopped (app_run ins a)"
  shows "\<exists>before k between y after. ins = before @ k # between @ y # after \<and> ctrl_k k \<and> letter_y y \<and>
    list_all inert_input between"
  using assms
proof (induction ins rule: rev_induct)
  case (snoc i ins)
  let ?b = "app_run ins a"
  have b: "app_run (ins @ [i]) a = app_step i ?b" by (simp add: app_run_def)
  show ?case
  proof (cases "stopped ?b")
    case True
    then show ?thesis using snoc by fastforce
  next
    case False
    have honest: "list_all honest_input ins" "honest_input i" using snoc.prems(1) by simp_all
    have quit: "\<not> ap_quit ?b" using snoc.prems(4) False by (cases "ap_quit ?b") (simp_all add: b app_step_def)
    have "\<not> inert_input i" using tame_inert [OF _ honest(2)] False snoc.prems(4) by (auto simp: b tame_def)
    then obtain env y where i: "i = KeyPress env y" and y: "\<not> global_key y" by (cases i) auto
    have "stopped (app_step (KeyPress env y) ?b)" using snoc.prems(4) unfolding b unfolding i .
    then have "stop_armed ?b" "letter_y i"
      using key_step(2) [OF quit y] False terminate_keys(2) by (auto simp: i letter_y_def)
    then show ?thesis using run_stop_armed [OF honest(1) snoc.prems(2) _ quit] by fastforce
  qed
qed (simp add: app_run_def)

definition sample_view :: deploy_view where
  "sample_view = deploy_view_new ''web'' False False False False True"

definition sample_app :: app where
  "sample_app = \<lparr>ap_explorer = explorer_start, ap_screen = Some (DeployScreen sample_view), ap_task = None,
    ap_deploy = True, ap_next_task = 0, ap_watched = [], ap_auto_attached = {}, ap_quit = False, ap_exit_code = None,
    ap_notice = None, ap_effects = []\<rparr>"

definition sample_keys :: key_env where
  "sample_keys = \<lparr>ke_height = 24, ke_flake = ''.'', ke_dir = ''/'', ke_program = None, ke_ping_argv = (\<lambda>_. []),
    ke_reboot_argv = (\<lambda>_ _ _ _. None), ke_runs = \<lparr>rs_rows = [], rs_cursor = 0\<rparr>, ke_observe = (\<lambda>_. None),
    ke_attach = (\<lambda>_. None), ke_start = (\<lambda>_. None), ke_spawn = (\<lambda>_. Inl []),
    ke_poll = (None, [], False, None, 0), ke_returncode = None, ke_run_id = None\<rparr>"

definition sample_stop :: "app_input list" where
  "sample_stop = [KeyPress sample_keys \<lparr>ky_code = KChar ''k'', ky_modifiers = CONTROL\<rparr>, TaskLineInput 1 ''out'',
    KeyPress sample_keys \<lparr>ky_code = KChar ''y'', ky_modifiers = 0\<rparr>]"

lemma sample_resolves:
  "key_resolve CxGlobal \<lparr>ky_code = KChar ''k'', ky_modifiers = CONTROL\<rparr> = None"
  "key_resolve CxDeploy \<lparr>ky_code = KChar ''k'', ky_modifiers = CONTROL\<rparr> = Some DoArmTerminate"
  "key_resolve CxGlobal \<lparr>ky_code = KChar ''y'', ky_modifiers = 0\<rparr> = None"
  "key_resolve CxDeployKillArmed \<lparr>ky_code = KChar ''y'', ky_modifiers = 0\<rparr> = Some DoConfirmTerminate"
  by code_simp+

lemma sample_stops: "stopped (app_run sample_stop sample_app)"
  by (simp add: sample_stop_def app_run_def app_step_def on_key_def sample_app_def sample_view_def deploy_view_new_def
      sample_resolves key_context_of_def on_screen_action_def deploy_key_def task_line_def stopped_def Let_def)

theorem terminating_takes_two_keys_witness:
  "\<exists>before k between y after. sample_stop = before @ k # between @ y # after \<and> ctrl_k k \<and> letter_y y \<and>
    list_all inert_input between"
  by (rule terminating_takes_two_keys [OF _ _ _ sample_stops])
    (simp_all add: sample_stop_def sample_app_def sample_view_def deploy_view_new_def stop_armed_def stopped_def)

section \<open>The table of bindings\<close>

definition context_patterns :: "key_context \<Rightarrow> key_pattern list" where
  "context_patterns cx = concat (map (\<lambda>(c, ks, _, _). if c = cx then ks else []) BINDINGS)"

lemma context_patterns_distinct: "distinct (context_patterns cx)"
proof -
  have "list_all (\<lambda>cx. distinct (context_patterns cx)) CONTEXTS" by code_simp
  then show ?thesis by (cases cx) (simp_all add: CONTEXTS_def)
qed

lemma distinct_concat_unique:
  "distinct (concat (map f bs)) \<Longrightarrow> b \<in> set bs \<Longrightarrow> c \<in> set bs \<Longrightarrow> x \<in> set (f b) \<Longrightarrow> x \<in> set (f c) \<Longrightarrow> b = c"
  by (induction bs) auto

text \<open>The table of bindings is a function of the key: in every context a key resolves to an action exactly if some
  entry of that context with that action has a pattern the key matches. No two entries of a context compete for a
  key, so the order of the table does not matter.\<close>

lemma bindings_do_not_compete:
  "key_resolve cx ev = Some act \<longleftrightarrow>
    (\<exists>ks h. (cx, ks, act, h) \<in> set BINDINGS \<and> list_ex (\<lambda>k. key_matches k ev) ks)"
proof
  assume "key_resolve cx ev = Some act"
  then show "\<exists>ks h. (cx, ks, act, h) \<in> set BINDINGS \<and> list_ex (\<lambda>k. key_matches k ev) ks"
    by (blast elim: resolve_binding)
next
  let ?p = "(ky_code ev, normalized_modifiers ev)"
  let ?f = "\<lambda>(c, ks, _ :: key_action, _ :: hint_spec option). if c = cx then ks else []"
  assume "\<exists>ks h. (cx, ks, act, h) \<in> set BINDINGS \<and> list_ex (\<lambda>k. key_matches k ev) ks"
  then obtain ks h where b: "(cx, ks, act, h) \<in> set BINDINGS" and p: "?p \<in> set ks"
    by (auto simp: list_ex_iff key_matches_def)
  have "list_ex (\<lambda>k. key_matches k ev) ks" using p by (force simp: list_ex_iff key_matches_def)
  then obtain act' where act': "key_resolve cx ev = Some act'"
    using find_exists [OF b, of "\<lambda>(c, ks, _, _). c = cx \<and> list_ex (\<lambda>k. key_matches k ev) ks"]
    by (auto simp: key_resolve_def)
  then obtain ks' h' where b': "(cx, ks', act', h') \<in> set BINDINGS" and "list_ex (\<lambda>k. key_matches k ev) ks'"
    by (rule resolve_binding)
  then have "?p \<in> set ks'" by (auto simp: list_ex_iff key_matches_def)
  then have "(cx, ks, act, h) = (cx, ks', act', h')"
    using distinct_concat_unique [OF context_patterns_distinct [of cx, unfolded context_patterns_def] b b'] p by simp
  then show "key_resolve cx ev = Some act" using act' by simp
qed

end
