(* ===== verification/McpSnapshot.thy ===== *)
theory McpSnapshot
  imports Registry ForestView
begin

text \<open>What the MCP server reports of a run (\<^verbatim>\<open>mandala-mcp/src/server.rs\<close>: \<^verbatim>\<open>run_snapshot\<close>, \<^verbatim>\<open>command_snapshot\<close> and the
  bounds they keep) and the waiting of \<^verbatim>\<open>deploy_status\<close>. The derived JSON forms of the forest's summary and nodes, and
  the length of a value's text, are arguments.\<close>

section \<open>Bounds\<close>

definition MAX_WAIT_SECONDS :: int where
  "MAX_WAIT_SECONDS = 100"

definition OUTPUT_TAIL :: nat where
  "OUTPUT_TAIL = 120"

definition COMMAND_TAIL_DEFAULT :: nat where
  "COMMAND_TAIL_DEFAULT = 40"

definition HOST_RAW_TAIL :: nat where
  "HOST_RAW_TAIL = 200"

definition FOREST_NODE_CAP :: nat where
  "FOREST_NODE_CAP = 2000"

definition FOREST_BYTES :: nat where
  "FOREST_BYTES = 32 * 1024"

definition last_n :: "nat \<Rightarrow> 'a list \<Rightarrow> 'a list" where
  "last_n n xs = rev (take n (rev xs))"

definition wait_of :: "int \<Rightarrow> int option \<Rightarrow> int" where
  "wait_of d w = max 0 (min MAX_WAIT_SECONDS (opt_default d w))"

section \<open>Snapshots\<close>

datatype snapshot_detail = Listing | Full (wants_forest: bool) (wants_nodes: bool) (wants_diagnostics: bool)

definition diagnostic :: "snapshot_detail \<Rightarrow> bool" where
  "diagnostic d = (case d of Listing \<Rightarrow> False | Full _ _ x \<Rightarrow> x)"

text \<open>What one snapshot finds: the events of its own poll and of the verdict's, the processes, the metadata and
  the log as they are then. \<open>sv_now\<close> is the forest's clock.\<close>

record snapshot_env =
  sv_poll :: "event_tailer \<Rightarrow> nat \<times> event_tailer"
  sv_settle :: "event_tailer \<Rightarrow> nat \<times> event_tailer"
  sv_alive :: "int option \<Rightarrow> bool"
  sv_meta :: meta
  sv_log :: "string option"
  sv_log_path :: string
  sv_forest :: "build_forest \<Rightarrow> forest_snapshot"
  sv_node :: "derivation_node \<Rightarrow> json"
  sv_summary :: "forest_summary \<Rightarrow> json"
  sv_size :: "json \<Rightarrow> nat option"

definition read_log_lines :: "string option \<Rightarrow> string list" where
  "read_log_lines content = (case content of None \<Rightarrow> [] | Some bytes \<Rightarrow> str_lines (utf8_lossy bytes))"

definition CURATED_KEYS :: "string list" where
  "CURATED_KEYS = [''summary'', ''rc'', ''process_rc'', ''build_rc'', ''limit'', ''dry_activate'', ''boot'', ''throttle'', ''pid'',
    ''started_at'', ''finished_at'', ''error'']"

definition curated_meta :: "meta \<Rightarrow> json" where
  "curated_meta m = json_obj (List.map_filter (\<lambda>k. map_option (\<lambda>v. (k, v)) (map_of m k)) CURATED_KEYS)"

definition host_snapshot :: "snapshot_detail \<Rightarrow> host_run \<Rightarrow> json" where
  "host_snapshot d h =
    (let entry = json_obj [(''state'', JStr (host_state_str (hr_state h))), (''rc'', json_opt json_of_int (hr_rc h))];
         entry = (if diagnostic d then set_field ''milestones'' (json_strs (hr_milestones h)) entry else entry)
     in if d \<noteq> Listing \<and> hr_state h \<in> {HFailed, HRolledBack}
        then set_field ''raw_lines_total'' (JNum (PosInt (length (hr_lines h))))
          (set_field ''raw_tail'' (json_strs (drop (length (hr_lines h) - HOST_RAW_TAIL) (hr_lines h))) entry)
        else entry)"

definition value_at :: "json \<Rightarrow> string \<Rightarrow> json" where
  "value_at j k = opt_default JNull (json_get k j)"

definition bounded_forest_summary :: "(json \<Rightarrow> nat option) \<Rightarrow> json \<Rightarrow> json" where
  "bounded_forest_summary bytes v =
    (case bytes v of
       Some n \<Rightarrow> if n \<le> FOREST_BYTES then v
         else json_obj ((''detail_truncated'', JBool True) #
           map (\<lambda>k. (k, value_at v k)) [''version'', ''elapsed_ms'', ''counts'', ''completed_downloads'', ''completed_substitutions''])
     | None \<Rightarrow> json_obj ((''detail_truncated'', JBool True) #
           map (\<lambda>k. (k, value_at v k)) [''version'', ''elapsed_ms'', ''counts'', ''completed_downloads'', ''completed_substitutions'']))"

definition build_counters :: "build_model \<Rightarrow> json" where
  "build_counters b = json_obj
    [(''built'', json_of_int (bb_built b)), (''finished'', json_of_int (bb_finished b)), (''fetched'', json_of_int (bb_fetched b)),
     (''errors'', json_of_int (bb_errors b)), (''done'', JBool (bb_done b)), (''rc'', json_opt json_of_int (bb_rc b))]"

definition with_forest :: "snapshot_env \<Rightarrow> snapshot_detail \<Rightarrow> build_forest \<Rightarrow> json \<Rightarrow> json" where
  "with_forest env d f build =
    (case d of
       Full True nodes _ \<Rightarrow>
         let s = sv_forest env f;
             build = (if nodes then
               (case capped_nodes FOREST_NODE_CAP s of
                  (ns, elided) \<Rightarrow> set_field ''nodes_truncated'' (JNum (PosInt elided))
                    (set_field ''nodes'' (JArr (map (sv_node env) ns)) build))
               else build)
         in set_field ''forest'' (bounded_forest_summary (sv_size env) (sv_summary env (into_summary s))) build
     | _ \<Rightarrow> build)"

definition run_phase :: "run_liveness \<Rightarrow> bool \<Rightarrow> string" where
  "run_phase lv no_hosts = (if lv \<noteq> Running then ''done'' else if no_hosts then ''batch-build'' else ''fan-out'')"

definition command_snapshot :: "snapshot_env \<Rightarrow> snapshot_detail \<Rightarrow> observed_run \<Rightarrow> json \<times> observed_run" where
  "command_snapshot env d ob =
    (case liveness (sv_alive env) (sv_settle env) (sv_meta env) ob of
       (lv, ob) \<Rightarrow>
         (json_obj
           [(''run_id'', JStr (ri_run_id (ob_info ob))), (''kind'', JStr (run_kind (ri_meta (ob_info ob)))),
            (''meta'', JObj (ri_meta (ob_info ob))), (''liveness'', JStr (liveness_str lv)),
            (''phase'', JStr (if lv = Running then ''running'' else ''done'')), (''log'', JStr (sv_log_path env)),
            (''output_tail'', json_strs (last_n (if diagnostic d then OUTPUT_TAIL else COMMAND_TAIL_DEFAULT)
              (read_log_lines (sv_log env))))], ob))"

text \<open>The hosts and the build counters are those of the first poll; the verdict may poll again.\<close>

definition run_snapshot :: "snapshot_env \<Rightarrow> snapshot_detail \<Rightarrow> observed_run \<Rightarrow> json \<times> observed_run" where
  "run_snapshot env d ob =
    (if run_kind (ri_meta (ob_info ob)) \<noteq> ''deploy'' then command_snapshot env d ob
     else
       let t = snd (sv_poll env (ob_tailer ob)); ob = ob\<lparr>ob_tailer := t\<rparr>;
           hosts = map (\<lambda>(name, h). (name, host_snapshot d h)) (et_hosts t)
       in case liveness (sv_alive env) (sv_settle env) (sv_meta env) ob of
            (lv, ob) \<Rightarrow>
              (json_obj
                [(''run_id'', JStr (ri_run_id (ob_info ob))), (''kind'', JStr (run_kind (ri_meta (ob_info ob)))),
                 (''meta'', if diagnostic d then JObj (ri_meta (ob_info ob)) else curated_meta (ri_meta (ob_info ob))),
                 (''liveness'', JStr (liveness_str lv)), (''phase'', JStr (run_phase lv (hosts = []))),
                 (''hosts'', JObj hosts),
                 (''build'', with_forest env d (et_forest (ob_tailer ob)) (build_counters (et_build t)))], ob))"

section \<open>Waiting for a run\<close>

definition still_running :: "json \<Rightarrow> bool" where
  "still_running snap \<longleftrightarrow> Option.bind (json_get ''liveness'' snap) as_str = Some ''running''"

text \<open>The polls after the first one, each with the time since the start of the wait in milliseconds.\<close>

fun wait_polls :: "snapshot_detail \<Rightarrow> nat \<Rightarrow> (nat \<times> snapshot_env) list \<Rightarrow> json \<times> observed_run \<Rightarrow> json" where
  "wait_polls d deadline [] (snap, ob) = snap"
| "wait_polls d deadline ((now, env) # polls) (snap, ob) =
    (if still_running snap \<and> now < deadline then wait_polls d deadline polls (run_snapshot env d ob) else snap)"

definition watch_status :: "snapshot_detail \<Rightarrow> int \<Rightarrow> snapshot_env \<Rightarrow> (nat \<times> snapshot_env) list \<Rightarrow> observed_run \<Rightarrow> json" where
  "watch_status d wait env polls ob =
    (let snap = wait_polls d (nat wait * 1000) polls (run_snapshot env d ob)
     in if 0 < wait \<and> still_running snap then set_field ''wait_timed_out'' (JBool True) snap else snap)"

section \<open>The bounds hold\<close>

definition array_within :: "nat \<Rightarrow> string \<Rightarrow> json \<Rightarrow> bool" where
  "array_within n k j \<longleftrightarrow> (\<forall>xs. json_get k j = Some (JArr xs) \<longrightarrow> length xs \<le> n)"

text \<open>The forest of a report is the summary of some forest, whole when its text fits, and otherwise nothing of it but the
  version, the clock and the counts.\<close>

definition counts_only :: "json \<Rightarrow> json" where
  "counts_only v = JObj
    [(''completed_downloads'', value_at v ''completed_downloads''), (''completed_substitutions'', value_at v ''completed_substitutions''),
     (''counts'', value_at v ''counts''), (''detail_truncated'', JBool True), (''elapsed_ms'', value_at v ''elapsed_ms''),
     (''version'', value_at v ''version'')]"

definition forest_within :: "(json \<Rightarrow> nat option) \<Rightarrow> (forest_summary \<Rightarrow> json) \<Rightarrow> json \<Rightarrow> bool" where
  "forest_within bytes to_json build \<longleftrightarrow>
    (\<forall>f. json_get ''forest'' build = Some f \<longrightarrow>
      (\<exists>s. f = (if \<exists>n \<le> FOREST_BYTES. bytes (to_json s) = Some n then to_json s else counts_only (to_json s))))"

definition snapshot_within :: "(json \<Rightarrow> nat option) \<Rightarrow> (forest_summary \<Rightarrow> json) \<Rightarrow> json \<Rightarrow> bool" where
  "snapshot_within bytes to_json snap \<longleftrightarrow>
    array_within OUTPUT_TAIL ''output_tail'' snap \<and>
    (\<forall>hosts name h. json_get ''hosts'' snap = Some (JObj hosts) \<and> (name, h) \<in> set hosts \<longrightarrow> array_within HOST_RAW_TAIL ''raw_tail'' h) \<and>
    (\<forall>build. json_get ''build'' snap = Some build \<longrightarrow> array_within FOREST_NODE_CAP ''nodes'' build \<and> forest_within bytes to_json build)"

lemma bm_of_list_snoc [simp]: "map_of (bm_of_list []) = Map.empty"
  by (simp add: bm_of_list_def)

lemma host_snapshot_within: "array_within HOST_RAW_TAIL ''raw_tail'' (host_snapshot d h)"
  by (auto simp: array_within_def host_snapshot_def Let_def json_get_set_field map_of_bm_of_list json_strs_def)

lemma bounded_forest:
  "bounded_forest_summary bytes v = (if \<exists>n \<le> FOREST_BYTES. bytes v = Some n then v else counts_only v)"
  by (cases "bytes v") (simp_all add: bounded_forest_summary_def counts_only_def json_obj_def bm_of_list_def)

lemma counters_plain:
  "json_get ''nodes'' (build_counters b) = None" "json_get ''forest'' (build_counters b) = None"
  by (simp_all add: build_counters_def map_of_bm_of_list)

lemma with_forest_within:
  "array_within FOREST_NODE_CAP ''nodes'' (with_forest env d f (build_counters b))"
  "forest_within (sv_size env) (sv_summary env) (with_forest env d f (build_counters b))"
proof -
  have "length (fst (capped_nodes FOREST_NODE_CAP s)) \<le> FOREST_NODE_CAP" for s
    by (simp add: capped_length)
  then show "array_within FOREST_NODE_CAP ''nodes'' (with_forest env d f (build_counters b))"
    by (auto simp: array_within_def with_forest_def Let_def json_get_set_field counters_plain split_beta
        split: snapshot_detail.splits bool.splits)
  show "forest_within (sv_size env) (sv_summary env) (with_forest env d f (build_counters b))"
    unfolding with_forest_def bounded_forest by (auto simp: forest_within_def Let_def json_get_set_field counters_plain split_beta
        split: snapshot_detail.splits bool.splits)
qed

lemma run_snapshot_within: "snapshot_within (sv_size env) (sv_summary env) (fst (run_snapshot env d ob))"
proof (cases "run_kind (ri_meta (ob_info ob)) = ''deploy''")
  case True
  then show ?thesis
    using host_snapshot_within with_forest_within
    by (auto simp: run_snapshot_def snapshot_within_def Let_def map_of_bm_of_list array_within_def [of _ "''output_tail''"] split_beta)
next
  case False
  then show ?thesis
    by (auto simp: run_snapshot_def command_snapshot_def snapshot_within_def map_of_bm_of_list array_within_def last_n_def
        json_strs_def OUTPUT_TAIL_def COMMAND_TAIL_DEFAULT_def split_beta)
qed

lemma snapshot_within_mark: "snapshot_within bytes to_json snap \<Longrightarrow> snapshot_within bytes to_json (set_field ''wait_timed_out'' v snap)"
  by (auto simp: snapshot_within_def array_within_def json_get_set_field)

lemma snapshot_unmarked: "json_get ''wait_timed_out'' (fst (run_snapshot env d ob)) = None"
  by (simp add: run_snapshot_def command_snapshot_def Let_def map_of_bm_of_list split_beta)

text \<open>The snapshots a wait could return, in order: that of the call and one for every poll.\<close>

fun poll_reports :: "snapshot_detail \<Rightarrow> (nat \<times> snapshot_env) list \<Rightarrow> json \<times> observed_run \<Rightarrow> json list" where
  "poll_reports d [] (snap, ob) = [snap]"
| "poll_reports d ((now, env) # polls) (snap, ob) = snap # poll_reports d polls (run_snapshot env d ob)"

lemma poll_reports_all:
  assumes "\<And>e ob. e \<in> snd ` set polls \<Longrightarrow> P (fst (run_snapshot e d ob))" and "P (fst x)"
  shows "\<forall>r\<in>set (poll_reports d polls x). P r"
  using assms
proof (induction d polls x rule: poll_reports.induct)
  case (2 d now env polls snap ob)
  then show ?case by (simp add: image_iff)
qed simp

lemma length_poll_reports [simp]: "length (poll_reports d polls x) = Suc (length polls)"
  by (induction d polls x rule: poll_reports.induct) simp_all

text \<open>A wait returns the first snapshot with which the run is over or the deadline has passed.\<close>

lemma wait_polls_first:
  assumes "\<exists>p\<in>set polls. deadline \<le> fst p"
  shows "\<exists>k<length polls. wait_polls d deadline polls x = poll_reports d polls x ! k \<and>
    (\<forall>i<k. still_running (poll_reports d polls x ! i) \<and> fst (polls ! i) < deadline) \<and>
    (still_running (poll_reports d polls x ! k) \<longrightarrow> deadline \<le> fst (polls ! k))"
  using assms
proof (induction d deadline polls x rule: wait_polls.induct)
  case (2 d deadline now env polls snap ob)
  show ?case
  proof (cases "still_running snap \<and> now < deadline")
    case True
    then have "\<exists>p\<in>set polls. deadline \<le> fst p" using "2.prems" by auto
    from "2.IH" [OF True this] obtain k where k: "k < length polls"
      "wait_polls d deadline polls (run_snapshot env d ob) = poll_reports d polls (run_snapshot env d ob) ! k"
      "\<forall>i<k. still_running (poll_reports d polls (run_snapshot env d ob) ! i) \<and> fst (polls ! i) < deadline"
      "still_running (poll_reports d polls (run_snapshot env d ob) ! k) \<longrightarrow> deadline \<le> fst (polls ! k)"
      by blast
    have "\<forall>i<Suc k. still_running ((snap # poll_reports d polls (run_snapshot env d ob)) ! i) \<and> fst (((now, env) # polls) ! i) < deadline"
      using k(3) True by (auto simp: less_Suc_eq_0_disj)
    then show ?thesis using k(1,2,4) True by (intro exI [of _ "Suc k"]) simp
  next
    case False
    then show ?thesis by (intro exI [of _ 0]) auto
  qed
qed simp

text \<open>C11: A status report never grows with the run it reports, however long a client waits for it: no more than 200 lines
  of a failed host's stream, 120 of a command's log and 2000 nodes, and a summary of the forest that fits into 32 KiB
  or is cut to its version, clock and counts. The report is the first snapshot with which the run no longer goes on or the
  time asked for has passed, and it says that the wait timed out exactly if one was asked for and the run still goes on
  after that time.\<close>

theorem status_report_is_bounded:
  assumes "list_all (\<lambda>p. sv_size (snd p) = bytes \<and> sv_summary (snd p) = to_json) polls"
    and "sv_size env = bytes" and "sv_summary env = to_json"
    and "\<exists>p\<in>set polls. nat wait * 1000 \<le> fst p"
    and "reports = poll_reports d polls (run_snapshot env d ob)"
  shows "snapshot_within bytes to_json (watch_status d wait env polls ob) \<and>
    (\<exists>k<length polls. (\<forall>i<k. still_running (reports ! i) \<and> fst (polls ! i) < nat wait * 1000) \<and>
      (still_running (reports ! k) \<longrightarrow> nat wait * 1000 \<le> fst (polls ! k)) \<and>
      (\<forall>key. json_get key (watch_status d wait env polls ob) =
        (if key = ''wait_timed_out'' then if 0 < wait \<and> still_running (reports ! k) then Some (JBool True) else None
         else json_get key (reports ! k))))"
proof -
  let ?P = "\<lambda>snap. snapshot_within bytes to_json snap \<and> json_get ''wait_timed_out'' snap = None"
  have all: "\<forall>r\<in>set reports. ?P r" unfolding assms(5)
  proof (rule poll_reports_all)
    show "?P (fst (run_snapshot env d ob))" using run_snapshot_within [of env] assms(2,3) snapshot_unmarked by simp
  next
    fix e ob assume "e \<in> snd ` set polls"
    then have "sv_size e = bytes \<and> sv_summary e = to_json" using assms(1) by (auto simp: list_all_iff)
    then show "?P (fst (run_snapshot e d ob))" using run_snapshot_within [of e] snapshot_unmarked by simp
  qed
  obtain k where k: "k < length polls" "wait_polls d (nat wait * 1000) polls (run_snapshot env d ob) = reports ! k"
    "\<forall>i<k. still_running (reports ! i) \<and> fst (polls ! i) < nat wait * 1000"
    "still_running (reports ! k) \<longrightarrow> nat wait * 1000 \<le> fst (polls ! k)"
    using wait_polls_first [OF assms(4)] unfolding assms(5) by blast
  have "reports ! k \<in> set reports" using k(1) by (intro nth_mem) (simp add: assms(5))
  then have P: "?P (reports ! k)" using all by blast
  then have "snapshot_within bytes to_json (watch_status d wait env polls ob)"
    by (simp add: watch_status_def k(2) snapshot_within_mark Let_def)
  moreover have "\<forall>key. json_get key (watch_status d wait env polls ob) =
      (if key = ''wait_timed_out'' then if 0 < wait \<and> still_running (reports ! k) then Some (JBool True) else None
       else json_get key (reports ! k))"
    using P by (simp add: watch_status_def k(2) json_get_set_field Let_def)
  ultimately show ?thesis using k(1,3,4) by blast
qed

definition sample_poll :: snapshot_env where
  "sample_poll = \<lparr>sv_poll = \<lambda>t. (0, t), sv_settle = \<lambda>t. (0, t), sv_alive = \<lambda>p. p = Some 7, sv_meta = [(''pid'', JNum (PosInt 7))],
    sv_log = None, sv_log_path = [], sv_forest = \<lambda>_. undefined, sv_node = \<lambda>_. JNull, sv_summary = \<lambda>_. JNull,
    sv_size = \<lambda>_. Some 4\<rparr>"

definition sample_observed :: observed_run where
  "sample_observed = \<lparr>ob_info = \<lparr>ri_run_id = ''r'', ri_meta = []\<rparr>, ob_tailer = tailer_new 0 ''/r'' None False\<rparr>"

text \<open>The run goes on at the call and at the poll after two seconds; one second was asked for.\<close>

theorem status_report_is_bounded_witness:
  "json_get ''wait_timed_out'' (watch_status (Full False False False) 1 sample_poll [(0, sample_poll), (2000, sample_poll)] sample_observed) =
    Some (JBool True)"
proof -
  let ?d = "Full False False False"
  let ?polls = "[(0, sample_poll), (2000, sample_poll)]"
  let ?reports = "poll_reports ?d ?polls (run_snapshot sample_poll ?d sample_observed)"
  have live: "still_running (fst (run_snapshot sample_poll ?d ob))" for ob
    by (simp add: run_snapshot_def command_snapshot_def liveness_def sample_poll_def supervisor_pid_def run_pid_def
        still_running_def map_of_bm_of_list Let_def split_beta I64_MAX_def)
  then have "\<forall>r\<in>set ?reports. still_running r" by (intro poll_reports_all) auto
  then have running: "still_running (?reports ! k)" if "k < 2" for k using that by (auto intro!: nth_mem)
  have "list_all (\<lambda>p. sv_size (snd p) = sv_size sample_poll \<and> sv_summary (snd p) = sv_summary sample_poll) ?polls"
    "\<exists>p\<in>set ?polls. nat 1 * 1000 \<le> fst p" by simp_all
  from status_report_is_bounded [OF this(1) refl refl this(2) refl, of ?d sample_observed] running
  show ?thesis by auto
qed

end
