(* ===== verification/McpServer.thy ===== *)
theory McpServer
  imports McpSnapshot Drift Frontend FleetSession
begin

text \<open>The tools of the MCP server and their dispatch (\<^verbatim>\<open>mandala-mcp/src/server.rs\<close>), the audit trail (\<^verbatim>\<open>activity.rs\<close>) and
  the routing through the shared context (\<^verbatim>\<open>context.rs\<close>). The answers of the injected \<^verbatim>\<open>Effects\<close> and of the registry are the
  environment of a call; what a tool makes them do is the list of its effects.\<close>

section \<open>Arguments\<close>

text \<open>The derived decoding of a tool's arguments: an optional field may be absent or null.\<close>

definition opt_arg :: "(json \<Rightarrow> 'a option) \<Rightarrow> string \<Rightarrow> json \<Rightarrow> 'a option option" where
  "opt_arg as k args =
    (case json_get k args of
       None \<Rightarrow> Some None
     | Some JNull \<Rightarrow> Some None
     | Some v \<Rightarrow> map_option Some (as v))"

definition req_arg :: "string \<Rightarrow> json \<Rightarrow> string option" where
  "req_arg k args = Option.bind (json_get k args) as_str"

definition as_strs :: "json \<Rightarrow> string list option" where
  "as_strs v = Option.bind (as_array v) strings_of"

section \<open>Effects\<close>

record adhoc_output =
  ao_stdout :: string
  ao_stderr :: string
  ao_code :: int

datatype adhoc_error = AdhocNotFound | AdhocOther string

record eval_failure =
  ef_command :: "string list option"
  ef_exit_code :: "int option"
  ef_output :: string

record deploy_started =
  ds_run_id :: string
  ds_events_dir :: string

record command_launch =
  cl_run_id :: string
  cl_log :: string
  cl_launched :: bool

datatype mcp_effect =
    EvaluatesInventory
  | EvaluatesToplevels "string list"
  | Surveys
  | SavesExpected "string option" "(string, string) bmap"
  | RunsAdhoc "string list"
  | LaunchesDeploy (launched_target: string) (launched_dry: bool) (launched_boot: bool) int
  | LaunchesCommand "string list" (launched_kind: string) "string option" meta

record mcp_env =
  me_bad_args :: "string \<Rightarrow> json \<Rightarrow> string"
  me_unknown :: "string \<Rightarrow> string"
  me_fresh :: "(inventory_error, inventory) result"
  me_eval :: "string list \<Rightarrow> (eval_failure, toplevels) result"
  me_survey :: "(string, adhoc_output) result"
  me_adhoc :: "string list \<Rightarrow> (adhoc_error, adhoc_output) result"
  me_deploy :: "(string, deploy_started) result"
  me_command :: "(string, command_launch) result"
  me_reboot_argv :: "string \<Rightarrow> string \<Rightarrow> bool \<Rightarrow> (string \<times> string list) option"
  me_canonical :: "string \<Rightarrow> (string, string) result"
  me_is_file :: "string \<Rightarrow> bool"
  me_attr :: "string \<Rightarrow> string"
  me_rev :: "string option"
  me_cached :: "string option \<times> (string, string) bmap"
  me_snapshots :: "(string, Drift.snapshot) bmap"
  me_iso :: "string \<Rightarrow> int option"
  me_now :: int
  me_timestamp_ok :: "string \<Rightarrow> bool"
  me_open :: "string \<Rightarrow> observed_run option"
  me_listed :: "string list"
  me_poll :: "string \<Rightarrow> snapshot_env"
  me_polls :: "(nat \<times> snapshot_env) list"
  me_built :: "run_liveness \<times> meta \<times> string option"
  me_elapsed :: rat
  me_time :: rat
  me_audit_writable :: bool

record mcp_server =
  ms_flake :: string
  ms_inventory :: "inventory option"
  ms_reloadable :: bool
  ms_sink :: bool
  ms_seq :: "64 word"
  ms_effects :: "mcp_effect list"
  ms_events :: "json list"
  ms_audit :: "json list"

definition mcp_server_new :: "string \<Rightarrow> mcp_server" where
  "mcp_server_new flake = \<lparr>ms_flake = flake, ms_inventory = None, ms_reloadable = True, ms_sink = False, ms_seq = 1,
    ms_effects = [], ms_events = [], ms_audit = []\<rparr>"

definition perform :: "mcp_effect \<Rightarrow> mcp_server \<Rightarrow> mcp_server" where
  "perform e s = s\<lparr>ms_effects := ms_effects s @ [e]\<rparr>"

definition serve_inventory :: "mcp_env \<Rightarrow> mcp_server \<Rightarrow> (string, inventory) result \<times> mcp_server" where
  "serve_inventory env s =
    (case ms_inventory s of
       Some iv \<Rightarrow> (Inr iv, s)
     | None \<Rightarrow>
         (case me_fresh env of
            Inl e \<Rightarrow> (Inl (show_inventory_error e), perform EvaluatesInventory s)
          | Inr iv \<Rightarrow> (Inr iv, (perform EvaluatesInventory s)\<lparr>ms_inventory := Some iv\<rparr>)))"

text \<open>A tool that begins with the inventory, and one that begins with a resolved limit.\<close>

definition with_inventory ::
  "mcp_env \<Rightarrow> (inventory \<Rightarrow> mcp_server \<Rightarrow> (string, json) result \<times> mcp_server) \<Rightarrow> mcp_server \<Rightarrow> (string, json) result \<times> mcp_server" where
  "with_inventory env tool s =
    (case serve_inventory env s of
       (Inl e, s) \<Rightarrow> (Inl e, s)
     | (Inr iv, s) \<Rightarrow> tool iv s)"

definition with_limit ::
  "mcp_env \<Rightarrow> string \<Rightarrow> (string \<Rightarrow> mcp_server \<Rightarrow> (string, json) result \<times> mcp_server) \<Rightarrow> mcp_server \<Rightarrow>
    (string, json) result \<times> mcp_server" where
  "with_limit env selector tool =
    with_inventory env (\<lambda>iv s. case to_limit iv selector of
      Inl e \<Rightarrow> (Inl (show_inventory_error e), s)
    | Inr target \<Rightarrow> tool target s)"

definition run_adhoc ::
  "mcp_env \<Rightarrow> string list \<Rightarrow> (adhoc_output \<Rightarrow> json) \<Rightarrow> mcp_server \<Rightarrow> (string, json) result \<times> mcp_server" where
  "run_adhoc env argv report s =
    (case me_adhoc env argv of
       Inr out \<Rightarrow> (Inr (report out), perform (RunsAdhoc argv) s)
     | Inl AdhocNotFound \<Rightarrow> (Inl ''ansible not found on PATH'', perform (RunsAdhoc argv) s)
     | Inl (AdhocOther e) \<Rightarrow> (Inl e, perform (RunsAdhoc argv) s))"

definition failure_value :: "string \<Rightarrow> eval_failure \<Rightarrow> json" where
  "failure_value summary f = json_obj
    [(''ok'', JBool False), (''error'', JStr summary), (''command'', json_opt json_strs (ef_command f)),
     (''exit_code'', json_opt json_of_int (ef_exit_code f)), (''output'', JStr (ef_output f))]"

definition merged :: "json \<Rightarrow> json \<Rightarrow> json" where
  "merged base extra =
    (let out = (case base of JObj m \<Rightarrow> m | _ \<Rightarrow> [])
     in JObj (case extra of JObj kvs \<Rightarrow> fold (\<lambda>(k, v). bm_insert k v) kvs out | _ \<Rightarrow> out))"

section \<open>Checks of what a client sends\<close>

definition is_unit_char :: "char \<Rightarrow> bool" where
  "is_unit_char c \<longleftrightarrow> is_ascii_alnum c \<or> c \<in> {CHR ''@'', CHR '':'', CHR ''.'', CHR ''_'', CHR ''-''}"

definition valid_unit :: "string \<Rightarrow> bool" where
  "valid_unit u = (case u of [] \<Rightarrow> False | c # cs \<Rightarrow> is_ascii_alnum c \<and> list_all is_unit_char cs)"

definition valid_serial :: "string \<Rightarrow> bool" where
  "valid_serial serial =
    (let digits = opt_default serial (strip_suffix ''%'' serial) in digits \<noteq> [] \<and> list_all is_ascii_digit digits)"

section \<open>The read tier\<close>

text \<open>A tool's arguments, as in \<^verbatim>\<open>tools.rs\<close>.\<close>

definition member_json :: "member \<Rightarrow> json" where
  "member_json m = JObj m"

definition tool_members :: "mcp_env \<Rightarrow> bool option \<Rightarrow> mcp_server \<Rightarrow> (string, json) result \<times> mcp_server" where
  "tool_members env full =
    with_inventory env (\<lambda>iv s.
      (Inr (JObj (map (\<lambda>(name, m). (name, member_json (if opt_default False full then m else compact m))) (members iv))), s))"

definition tool_groups :: "mcp_env \<Rightarrow> string option \<Rightarrow> mcp_server \<Rightarrow> (string, json) result \<times> mcp_server" where
  "tool_groups env pattern =
    with_inventory env (\<lambda>iv s.
      let shown = (case opt_filter (\<lambda>f. f \<noteq> []) (map_option trim pattern) of
            None \<Rightarrow> groups iv
          | Some f \<Rightarrow> filter (\<lambda>(name, _). contains_str (map to_ascii_lower name) (map to_ascii_lower f)) (groups iv))
      in (Inr (JObj (map (\<lambda>(name, ms). (name, json_strs ms)) shown)), s))"

definition tool_resolve :: "mcp_env \<Rightarrow> string \<Rightarrow> mcp_server \<Rightarrow> (string, json) result \<times> mcp_server" where
  "tool_resolve env selector =
    with_inventory env (\<lambda>iv s. case resolve iv selector of
      Inl e \<Rightarrow> (Inl (show_inventory_error e), s)
    | Inr ms \<Rightarrow> (Inr (json_obj [(''members'', json_strs ms), (''limit'', JStr (join '','' ms))]), s))"

definition at_least_one :: "int \<Rightarrow> int option \<Rightarrow> string" where
  "at_least_one d n = show_int (max 1 (opt_default d n))"

definition with_diagnostics :: "string \<Rightarrow> json \<Rightarrow> json" where
  "with_diagnostics stderr j = (if trim stderr = [] then j else set_field ''diagnostics'' (JStr (trim stderr)) j)"

definition ping_line :: "string \<Rightarrow> (string, json) bmap \<Rightarrow> (string, json) bmap" where
  "ping_line line m =
    (case split_once (CHR ''|'') line of
       None \<Rightarrow> m
     | Some (host, rest) \<Rightarrow>
         if trim host = [] then m
         else
           let token = takeWhile (\<lambda>c. c \<noteq> CHR '' '') (trim rest);
               token = rev (dropWhile (\<lambda>c. c \<in> {CHR ''!'', CHR '':''}) (rev token))
           in bm_insert (trim host) (JBool (token = ''SUCCESS'')) m)"

definition ping_argv :: "string \<Rightarrow> int option \<Rightarrow> int option \<Rightarrow> string list" where
  "ping_argv limit forks timeout = [''ansible'', limit, ''-m'', ''ping'', ''-o'', ''-f'', at_least_one 15 forks,
    ''-T'', at_least_one 10 timeout]"

definition tool_ping ::
  "mcp_env \<Rightarrow> string \<Rightarrow> int option \<Rightarrow> int option \<Rightarrow> mcp_server \<Rightarrow> (string, json) result \<times> mcp_server" where
  "tool_ping env selector forks timeout =
    with_limit env selector (\<lambda>limit.
      run_adhoc env (ping_argv limit forks timeout)
        (\<lambda>out. with_diagnostics (ao_stderr out) (json_obj
          [(''limit'', JStr limit), (''reachable'', JObj (fold ping_line (str_lines (ao_stdout out)) [])),
           (''exit_code'', json_of_int (ao_code out)), (''output'', JStr (trim (ao_stdout out)))])))"

definition host_eval_report :: "string \<Rightarrow> (eval_failure, toplevels) result \<Rightarrow> json \<Rightarrow> json" where
  "host_eval_report name evaluated j =
    (let summary = ''toplevel eval failed for '' @ name
     in case evaluated of
          Inr t \<Rightarrow>
            (case map_of (tl_errors t) name of
               Some err \<Rightarrow> set_field ''eval_error'' (failure_value summary \<lparr>ef_command = None, ef_exit_code = None, ef_output = err\<rparr>) j
             | None \<Rightarrow> set_field ''toplevel'' (json_opt JStr (map_of (tl_paths t) name)) j)
        | Inl f \<Rightarrow> set_field ''eval_error'' (failure_value summary f) j)"

definition tool_host_eval :: "mcp_env \<Rightarrow> string \<Rightarrow> bool option \<Rightarrow> mcp_server \<Rightarrow> (string, json) result \<times> mcp_server" where
  "tool_host_eval env name toplevel =
    with_inventory env (\<lambda>iv s. case map_of (members iv) name of
      None \<Rightarrow> (Inl (''no such member: '' @ name), s)
    | Some m \<Rightarrow>
        let j = json_obj [(''member'', JStr name), (''metadata'', member_json m), (''toplevel'', JNull)]
        in if opt_default False toplevel
           then (Inr (host_eval_report name (me_eval env [name]) j), perform (EvaluatesToplevels [name]) s)
           else (Inr j, s))"

section \<open>Drift\<close>

definition drift_entry_json :: "drift_entry \<Rightarrow> json" where
  "drift_entry_json e =
    (let j = json_obj [(''host'', JStr (de_host e)), (''status'', JStr (drift_status_str (de_status e))),
       (''expected'', json_opt JStr (de_expected e)), (''current'', json_opt JStr (de_current e)),
       (''booted'', json_opt JStr (de_booted e)), (''system_profile'', json_opt JStr (de_system_profile e)),
       (''captured_at'', json_opt JStr (de_captured_at e))]
     in case de_eval_error e of None \<Rightarrow> j | Some err \<Rightarrow> set_field ''eval_error'' (JStr err) j)"

definition status_counts :: "drift_entry list \<Rightarrow> (string, nat) bmap" where
  "status_counts entries =
    fold (\<lambda>e m. let k = drift_status_str (de_status e) in bm_insert k (opt_default 0 (map_of m k) + 1) m) entries []"

definition shown_entries :: "string list option \<Rightarrow> json list \<Rightarrow> json list" where
  "shown_entries statuses entries =
    (case statuses of
       Some wanted \<Rightarrow>
         if wanted = [] then entries
         else filter (\<lambda>d. case Option.bind (json_get ''status'' d) as_str of Some st \<Rightarrow> st \<in> set wanted | None \<Rightarrow> False) entries
     | None \<Rightarrow> entries)"

text \<open>The optional survey, and the expectation a verdict is judged by. A complete evaluation is cached.\<close>

definition drift_refresh :: "mcp_env \<Rightarrow> bool \<Rightarrow> json \<Rightarrow> mcp_server \<Rightarrow> (string, json) result \<times> mcp_server" where
  "drift_refresh env refresh j s =
    (if \<not> refresh then (Inr j, s)
     else
       case me_survey env of
         Inl e \<Rightarrow> (Inl e, perform Surveys s)
       | Inr out \<Rightarrow>
           let j = set_field ''survey_rc'' (json_of_int (ao_code out)) j
           in (Inr (if ao_code out = 0 then set_field ''refreshed'' (JBool True) j
                else set_field ''refresh_error'' (json_obj [(''exit_code'', json_of_int (ao_code out)),
                    (''stdout'', JStr (ao_stdout out)), (''stderr'', JStr (ao_stderr out))]) (set_field ''ok'' (JBool False) j)),
               perform Surveys s))"

definition drift_expected ::
  "mcp_env \<Rightarrow> bool \<Rightarrow> string list \<Rightarrow> json \<Rightarrow> mcp_server \<Rightarrow> (toplevels option \<times> json) \<times> mcp_server" where
  "drift_expected env do_eval nodes j s =
    (if do_eval then
       let s = perform (EvaluatesToplevels nodes) s
       in case me_eval env nodes of
            Inr t \<Rightarrow>
              ((Some t, set_field ''expected_source'' (JStr ''eval'')
                 (if is_complete t then j
                  else set_field ''eval_failed'' (json_strs (bm_keys (tl_errors t))) (set_field ''ok'' (JBool False) j))),
               if is_complete t then perform (SavesExpected (me_rev env) (tl_paths t)) s else s)
          | Inl f \<Rightarrow> ((None, set_field ''eval_error'' (failure_value ''expected-toplevel eval failed'' f) j), s)
     else if cache_fresh (fst (me_cached env)) (me_rev env) then
       ((Some (toplevels_from (snd (me_cached env))), set_field ''expected_source'' (JStr ''cache'') j), s)
     else ((None, j), s))"

definition drift_report :: "mcp_env \<Rightarrow> string list \<Rightarrow> string list option \<Rightarrow> toplevels option \<times> json \<Rightarrow> json" where
  "drift_report env nodes statuses x =
    (case x of (expected, j) \<Rightarrow>
       let entries = drift_compare (me_iso env) nodes (me_snapshots env) expected (Some default_max_age) (me_now env);
           dicts = map drift_entry_json entries;
           j = set_field ''rev'' (json_opt JStr (me_rev env)) j;
           j = set_field ''summary'' (JObj (map (\<lambda>(k, n). (k, JNum (PosInt n))) (status_counts entries))) j;
           j = set_field ''total'' (JNum (PosInt (length dicts))) j
       in set_field ''entries'' (JArr (shown_entries statuses dicts)) j)"

definition tool_drift ::
  "mcp_env \<Rightarrow> bool option \<Rightarrow> bool option \<Rightarrow> string list option \<Rightarrow> mcp_server \<Rightarrow> (string, json) result \<times> mcp_server" where
  "tool_drift env refresh do_eval statuses =
    with_inventory env (\<lambda>iv s.
      let nodes = deploy_nodes iv;
          j = json_obj [(''ok'', JBool True), (''refreshed'', JBool False), (''expected_source'', JStr ''none'')]
      in case drift_refresh env (opt_default False refresh) j s of
           (Inl e, s) \<Rightarrow> (Inl e, s)
         | (Inr j, s) \<Rightarrow>
             (case drift_expected env (opt_default False do_eval) nodes j s of
                (x, s) \<Rightarrow> (Inr (drift_report env nodes statuses x), s)))"

section \<open>Monitoring and actions\<close>

definition tool_reload :: "mcp_env \<Rightarrow> mcp_server \<Rightarrow> (string, json) result \<times> mcp_server" where
  "tool_reload env s =
    (if \<not> ms_reloadable s then (Inl ''reload unavailable: this host cannot swap the inventory'', s)
     else
       case me_fresh env of
         Inl e \<Rightarrow> (Inl (show_inventory_error e), perform EvaluatesInventory s)
       | Inr iv \<Rightarrow>
           (Inr (json_obj [(''ok'', JBool True), (''members'', JNum (PosInt (length (members iv)))),
              (''groups'', JNum (PosInt (length (groups iv))))]),
            (perform EvaluatesInventory s)\<lparr>ms_inventory := Some iv\<rparr>))"

definition tool_deploy_status ::
  "mcp_env \<Rightarrow> string option \<Rightarrow> int option \<Rightarrow> int option \<Rightarrow> bool option \<Rightarrow> bool option \<Rightarrow> bool option \<Rightarrow> (string, json) result" where
  "tool_deploy_status env run_id limit wait_seconds forest forest_nodes diagnostics =
    (case run_id of
       Some r \<Rightarrow>
         if \<not> is_valid_run_id (me_timestamp_ok env) r
         then Inl (''invalid run id '' @ str_debug r @ '': expected a Mandala-generated run id'')
         else
           (case me_open env r of
              None \<Rightarrow> Inl (''no such run: '' @ r)
            | Some ob \<Rightarrow>
                let nodes = opt_default False forest_nodes;
                    d = Full (opt_default False forest \<or> nodes) nodes (opt_default False diagnostics)
                in Inr (watch_status d (wait_of 0 wait_seconds) (me_poll env r) (me_polls env) ob))
     | None \<Rightarrow>
         Inr (json_obj [(''runs'', JArr (List.map_filter
           (\<lambda>r. map_option (\<lambda>ob. fst (run_snapshot (me_poll env r) Listing ob)) (me_open env r))
           (take (nat (max 1 (opt_default 10 limit))) (me_listed env))))]))"

definition mcp_build_argv :: "(string \<Rightarrow> string) \<Rightarrow> string \<Rightarrow> string list \<Rightarrow> string list" where
  "mcp_build_argv attr flake targets =
    [''nix'', ''build'', ''--no-link'', ''--print-out-paths'', ''--no-warn-dirty''] @
    map (\<lambda>m. flake @ ''#nixosConfigurations.'' @ attr m @ ''.config.system.build.toplevel'') targets"

text \<open>The answer once the wait is over, from the verdict, the metadata and the log of then.\<close>

definition build_report :: "int \<Rightarrow> run_liveness \<times> meta \<times> string option \<Rightarrow> json" where
  "build_report wait built =
    (case built of (lv, m, content) \<Rightarrow>
       if lv = Running then json_obj ((''building'', JBool True) # (if 0 < wait then [(''wait_timed_out'', JBool True)] else []))
       else
         let rc = Option.bind (map_of m ''rc'') as_i64; ls = read_log_lines content
         in if rc \<noteq> Some 0
            then json_obj [(''ok'', JBool False), (''exit_code'', json_opt json_of_int rc), (''error'', JStr ''nix build failed''),
              (''output'', JStr (join ''\<newline>'' (last_n 80 ls)))]
            else json_obj [(''ok'', JBool True), (''out_paths'', json_strs (filter (\<lambda>l. starts_with l ''/nix/store/'') ls))])"

definition tool_build :: "mcp_env \<Rightarrow> string \<Rightarrow> int option \<Rightarrow> mcp_server \<Rightarrow> (string, json) result \<times> mcp_server" where
  "tool_build env selector wait_seconds =
    with_inventory env (\<lambda>iv s. case resolve iv selector of
      Inl e \<Rightarrow> (Inl (show_inventory_error e), s)
    | Inr targets \<Rightarrow>
        let s = perform (LaunchesCommand (mcp_build_argv (me_attr env) (ms_flake s) targets) ''build'' None
              [(''members'', json_strs targets)]) s
        in case me_command env of
             Inl e \<Rightarrow> (Inl e, s)
           | Inr run \<Rightarrow>
               let base = json_obj [(''run_id'', JStr (cl_run_id run)), (''members'', json_strs targets), (''log'', JStr (cl_log run))]
               in if \<not> cl_launched run
                  then (Inr (merged base (json_obj [(''ok'', JBool False), (''error'', JStr (''failed to launch nix '' @ [CHR 0xE2, CHR 0x80, CHR 0x94] @ '' see log''))])), s)
                  else if me_open env (cl_run_id run) = None then (Inl (''no such run: '' @ cl_run_id run), s)
                  else (Inr (merged base (build_report (wait_of MAX_WAIT_SECONDS wait_seconds) (me_built env))), s))"

definition DEPLOY_THROTTLE :: int where
  "DEPLOY_THROTTLE = 4"

definition refusal :: "string \<Rightarrow> string \<Rightarrow> (string \<times> json) list \<Rightarrow> json" where
  "refusal reason target extra = json_obj ([(''ok'', JBool False), (''refused'', JBool True), (''reason'', JStr reason),
    (''required_confirm'', JStr target)] @ extra)"

definition tool_deploy ::
  "mcp_env \<Rightarrow> string \<Rightarrow> bool option \<Rightarrow> bool option \<Rightarrow> string option \<Rightarrow> mcp_server \<Rightarrow> (string, json) result \<times> mcp_server" where
  "tool_deploy env selector dry_activate boot confirm =
    with_limit env selector (\<lambda>target s.
      let dry = opt_default True dry_activate; boot = opt_default False boot
      in if \<not> dry \<and> confirm \<noteq> Some target
         then (Inr (refusal ''real activation requires `confirm` to equal the resolved target'' target
           [(''dry_activate'', JBool dry), (''boot'', JBool boot)]), s)
         else
           let s = perform (LaunchesDeploy target dry boot DEPLOY_THROTTLE) s
           in case me_deploy env of
                Inl e \<Rightarrow> (Inl e, s)
              | Inr run \<Rightarrow> (Inr (json_obj [(''ok'', JBool True), (''run_id'', JStr (ds_run_id run)), (''limit'', JStr target),
                  (''dry_activate'', JBool dry), (''boot'', JBool boot), (''events_dir'', JStr (ds_events_dir run))]), s))"

definition restart_argv :: "string \<Rightarrow> string \<Rightarrow> int option \<Rightarrow> string list" where
  "restart_argv target unit_name forks = [''ansible'', target, ''-m'', ''ansible.builtin.systemd_service'', ''-a'',
    ''name='' @ unit_name @ '' state=restarted'', ''-f'', at_least_one 4 forks]"

fun split_bar :: "string \<Rightarrow> (string \<times> string) option" where
  "split_bar [] = None"
| "split_bar (c # cs) =
    (case strip_prefix '' | '' (c # cs) of
       Some rest \<Rightarrow> Some ([], rest)
     | None \<Rightarrow> map_option (\<lambda>(a, b). (c # a, b)) (split_bar cs))"

definition restart_line :: "string \<Rightarrow> (string, json) bmap \<Rightarrow> (string, json) bmap" where
  "restart_line line m =
    (case split_bar line of
       None \<Rightarrow> m
     | Some (host, rest) \<Rightarrow>
         if host = [] \<or> list_ex is_whitespace (utf8_chars host) then m
         else
           let status = takeWhile is_ascii_upper rest
           in if status = [] then m
              else bm_insert host (JBool (status \<in> {''CHANGED'', ''SUCCESS''})) m)"

definition restart_report :: "string \<Rightarrow> string \<Rightarrow> adhoc_output \<Rightarrow> json" where
  "restart_report target unit_name out =
    (let j = json_obj [(''ok'', JBool (ao_code out = 0)), (''limit'', JStr target), (''unit'', JStr unit_name),
       (''restarted'', JObj (fold restart_line (str_lines (ao_stdout out)) [])), (''exit_code'', json_of_int (ao_code out))]
     in with_diagnostics (ao_stderr out)
          (if ao_code out \<noteq> 0 then set_field ''output'' (JStr (trim (ao_stdout out))) j else j))"

definition tool_restart_service ::
  "mcp_env \<Rightarrow> string \<Rightarrow> string \<Rightarrow> string option \<Rightarrow> int option \<Rightarrow> mcp_server \<Rightarrow> (string, json) result \<times> mcp_server" where
  "tool_restart_service env selector unit_name confirm forks =
    with_limit env selector (\<lambda>target s.
      if \<not> valid_unit unit_name then (Inl (''not a plain systemd unit name: '' @ CHR 0x27 # unit_name @ [CHR 0x27]), s)
      else if confirm \<noteq> Some target
      then (Inr (refusal ''restart_service requires `confirm` to equal the resolved target'' target [(''unit'', JStr unit_name)]), s)
      else run_adhoc env (restart_argv target unit_name forks) (restart_report target unit_name) s)"

definition tool_reboot ::
  "mcp_env \<Rightarrow> string \<Rightarrow> string option \<Rightarrow> bool option \<Rightarrow> string option \<Rightarrow> mcp_server \<Rightarrow> (string, json) result \<times> mcp_server" where
  "tool_reboot env selector serial drain confirm =
    with_limit env selector (\<lambda>target s.
      let serial = opt_default ''1'' serial
      in if \<not> valid_serial serial
         then (Inl (''not a serial batch count or percentage: '' @ CHR 0x27 # serial @ [CHR 0x27]), s)
         else if confirm \<noteq> Some target
         then (Inr (refusal ''reboot requires `confirm` to equal the resolved target'' target []), s)
         else
           let drain = opt_default True drain
           in case me_reboot_argv env target serial drain of
                None \<Rightarrow> (Inl (''no ans-reboot wrapper or playbooks/reboot.yaml '' @ [CHR 0xE2, CHR 0x80, CHR 0x94] @ '' reboot unavailable''), s)
              | Some (program, argv) \<Rightarrow>
                  let s = perform (LaunchesCommand (program # argv) ''reboot'' (Some (ansible_dir (me_canonical env) (me_is_file env) (ms_flake s)))
                        (bm_of_list [(''limit'', JStr target), (''serial'', JStr serial), (''drain'', JBool drain)])) s
                  in case me_command env of
                       Inl e \<Rightarrow> (Inl e, s)
                     | Inr run \<Rightarrow>
                         if \<not> cl_launched run
                         then (Inr (json_obj [(''ok'', JBool False),
                           (''error'', JStr (''failed to launch '' @ program @ '' '' @ [CHR 0xE2, CHR 0x80, CHR 0x94] @ '' see log'')),
                           (''run_id'', JStr (cl_run_id run)), (''log'', JStr (cl_log run))]), s)
                         else (Inr (json_obj [(''ok'', JBool True), (''run_id'', JStr (cl_run_id run)), (''limit'', JStr target),
                           (''serial'', JStr serial), (''drain'', JBool drain), (''log'', JStr (cl_log run))]), s))"

section \<open>Dispatch\<close>

text \<open>A tool's arguments are decoded first: the fields of the structs of \<^verbatim>\<open>tools.rs\<close>, each required or optional.\<close>

abbreviation opt_bool :: "string \<Rightarrow> json \<Rightarrow> bool option option" where
  "opt_bool \<equiv> opt_arg as_bool"

abbreviation opt_int :: "string \<Rightarrow> json \<Rightarrow> int option option" where
  "opt_int \<equiv> opt_arg as_i64"

abbreviation opt_str :: "string \<Rightarrow> json \<Rightarrow> string option option" where
  "opt_str \<equiv> opt_arg as_str"

type_synonym mcp_tool = "mcp_server \<Rightarrow> (string, json) result \<times> mcp_server"

definition parse_members :: "mcp_env \<Rightarrow> json \<Rightarrow> mcp_tool option" where
  "parse_members env a = map_option (tool_members env) (opt_bool ''full'' a)"

definition parse_groups :: "mcp_env \<Rightarrow> json \<Rightarrow> mcp_tool option" where
  "parse_groups env a = map_option (tool_groups env) (opt_str ''filter'' a)"

definition parse_resolve :: "mcp_env \<Rightarrow> json \<Rightarrow> mcp_tool option" where
  "parse_resolve env a = map_option (tool_resolve env) (req_arg ''selector'' a)"

definition parse_ping :: "mcp_env \<Rightarrow> json \<Rightarrow> mcp_tool option" where
  "parse_ping env a =
    Option.bind (req_arg ''selector'' a) (\<lambda>selector. Option.bind (opt_int ''forks'' a) (\<lambda>forks.
      map_option (tool_ping env selector forks) (opt_int ''connect_timeout'' a)))"

definition parse_host_eval :: "mcp_env \<Rightarrow> json \<Rightarrow> mcp_tool option" where
  "parse_host_eval env a =
    Option.bind (req_arg ''member'' a) (\<lambda>name. map_option (tool_host_eval env name) (opt_bool ''toplevel'' a))"

definition parse_drift :: "mcp_env \<Rightarrow> json \<Rightarrow> mcp_tool option" where
  "parse_drift env a =
    Option.bind (opt_bool ''refresh'' a) (\<lambda>refresh. Option.bind (opt_bool ''do_eval'' a) (\<lambda>do_eval.
      map_option (tool_drift env refresh do_eval) (opt_arg as_strs ''statuses'' a)))"

definition parse_deploy_status :: "mcp_env \<Rightarrow> json \<Rightarrow> mcp_tool option" where
  "parse_deploy_status env a =
    Option.bind (opt_str ''run_id'' a) (\<lambda>run_id. Option.bind (opt_int ''limit'' a) (\<lambda>limit. Option.bind (opt_int ''wait_seconds'' a) (\<lambda>wait_seconds.
      Option.bind (opt_bool ''forest'' a) (\<lambda>forest. Option.bind (opt_bool ''forest_nodes'' a) (\<lambda>forest_nodes.
        map_option (\<lambda>diagnostics s. (tool_deploy_status env run_id limit wait_seconds forest forest_nodes diagnostics, s))
          (opt_bool ''diagnostics'' a))))))"

definition parse_build :: "mcp_env \<Rightarrow> json \<Rightarrow> mcp_tool option" where
  "parse_build env a =
    Option.bind (req_arg ''selector'' a) (\<lambda>selector. map_option (tool_build env selector) (opt_int ''wait_seconds'' a))"

definition parse_deploy :: "mcp_env \<Rightarrow> json \<Rightarrow> mcp_tool option" where
  "parse_deploy env a =
    Option.bind (req_arg ''selector'' a) (\<lambda>selector. Option.bind (opt_bool ''dry_activate'' a) (\<lambda>dry. Option.bind (opt_bool ''boot'' a) (\<lambda>boot.
      map_option (tool_deploy env selector dry boot) (opt_str ''confirm'' a))))"

definition parse_restart_service :: "mcp_env \<Rightarrow> json \<Rightarrow> mcp_tool option" where
  "parse_restart_service env a =
    Option.bind (req_arg ''selector'' a) (\<lambda>selector. Option.bind (req_arg ''unit'' a) (\<lambda>unit_name. Option.bind (opt_str ''confirm'' a) (\<lambda>confirm.
      map_option (tool_restart_service env selector unit_name confirm) (opt_int ''forks'' a))))"

definition parse_reboot :: "mcp_env \<Rightarrow> json \<Rightarrow> mcp_tool option" where
  "parse_reboot env a =
    Option.bind (req_arg ''selector'' a) (\<lambda>selector. Option.bind (opt_str ''serial'' a) (\<lambda>serial. Option.bind (opt_bool ''drain'' a) (\<lambda>drain.
      map_option (tool_reboot env selector serial drain) (opt_str ''confirm'' a))))"

definition TOOLS :: "(string \<times> (mcp_env \<Rightarrow> json \<Rightarrow> mcp_tool option)) list" where
  "TOOLS = [(''members'', parse_members), (''groups'', parse_groups), (''resolve'', parse_resolve), (''ping'', parse_ping),
    (''host_eval'', parse_host_eval), (''drift'', parse_drift), (''reload'', \<lambda>env _. Some (tool_reload env)),
    (''deploy_status'', parse_deploy_status), (''build'', parse_build), (''deploy'', parse_deploy),
    (''restart_service'', parse_restart_service), (''reboot'', parse_reboot)]"

definition dispatch :: "mcp_env \<Rightarrow> string \<Rightarrow> (string, json) bmap \<Rightarrow> mcp_tool" where
  "dispatch env name args s =
    (case map_of TOOLS name of
       None \<Rightarrow> (Inl (me_unknown env name), s)
     | Some parse \<Rightarrow>
         (case parse env (JObj args) of
            None \<Rightarrow> (Inl (me_bad_args env name (JObj args)), s)
          | Some tool \<Rightarrow> tool s))"

section \<open>Activity and audit\<close>

definition AUDITED :: "string list" where
  "AUDITED = [''deploy'', ''reboot'', ''restart_service'', ''reload'']"

text \<open>The line that is appended for an event, if any.\<close>

definition audit_event :: "rat \<Rightarrow> json \<Rightarrow> json option" where
  "audit_event ts event =
    (if Option.bind (json_get ''status'' event) as_str = Some ''start'' \<or>
        opt_default [] (Option.bind (json_get ''tool'' event) as_str) \<notin> set AUDITED
     then None
     else map_option (\<lambda>kvs. JObj (fold (\<lambda>(k, v). bm_insert k v) kvs (bm_insert ''ts'' (JNum (JFloat ts)) []))) (as_object event))"

definition result_summary :: "json \<Rightarrow> json option" where
  "result_summary r =
    (case as_object r of
       None \<Rightarrow> None
     | Some m \<Rightarrow>
         let kept = List.map_filter (\<lambda>k. map_option (\<lambda>v. (k, v)) (map_of m k)) [''ok'', ''refused'', ''run_id'']
         in if kept = [] then None else Some (json_obj kept))"

definition round3 :: "rat \<Rightarrow> rat" where
  "round3 x = of_int (if 0 \<le> x then \<lfloor>x * 1000 + 1 / 2\<rfloor> else \<lceil>x * 1000 - 1 / 2\<rceil>) / 1000"

definition with_origin :: "string option \<Rightarrow> json \<Rightarrow> json" where
  "with_origin origin event =
    (case (origin, event) of
       (Some c, JObj m) \<Rightarrow> JObj (bm_insert ''origin'' (JStr c) m)
     | _ \<Rightarrow> event)"

definition emit_activity :: "mcp_env \<Rightarrow> json \<Rightarrow> mcp_server \<Rightarrow> mcp_server" where
  "emit_activity env event s =
    s\<lparr>ms_audit := (case audit_event (me_time env) event of
          Some line \<Rightarrow> if me_audit_writable env then ms_audit s @ [line] else ms_audit s
        | None \<Rightarrow> ms_audit s),
      ms_events := (if ms_sink s then ms_events s @ [event] else ms_events s)\<rparr>"

definition call_event :: "string \<Rightarrow> (string, json) bmap \<Rightarrow> string \<Rightarrow> json \<Rightarrow> 64 word \<Rightarrow> (string \<times> json) list \<Rightarrow> json" where
  "call_event name args status detail seq extra =
    json_obj ([(''tool'', JStr name), (''args'', JObj args), (''status'', JStr status), (''detail'', detail),
      (''seq'', JNum (PosInt (unat seq)))] @ extra)"

record call_tool_result =
  ct_text :: string
  ct_structured :: "(string \<times> json) list option"

definition to_call_result :: "(json \<Rightarrow> string) \<Rightarrow> json \<Rightarrow> call_tool_result" where
  "to_call_result render v = \<lparr>ct_text = render v, ct_structured = as_object v\<rparr>"

definition settle_event ::
  "mcp_env \<Rightarrow> string \<Rightarrow> (string, json) bmap \<Rightarrow> 64 word \<Rightarrow> (string, json) result \<Rightarrow> json" where
  "settle_event env name args seq r =
    (let elapsed = JNum (JFloat (round3 (me_elapsed env)))
     in case r of
          Inr v \<Rightarrow> call_event name args ''ok'' JNull seq
            [(''elapsed'', elapsed), (''result'', opt_default JNull (result_summary v))]
        | Inl e \<Rightarrow> call_event name args ''error'' (JStr e) seq [(''elapsed'', elapsed)])"

definition call_tool_from ::
  "mcp_env \<Rightarrow> string option \<Rightarrow> string \<Rightarrow> (string, json) bmap \<Rightarrow> mcp_tool" where
  "call_tool_from env origin name args s =
    (let seq = ms_seq s;
         s = emit_activity env (with_origin origin (call_event name args ''start'' JNull seq [])) (s\<lparr>ms_seq := seq + 1\<rparr>)
     in case dispatch env name args s of
          (r, s) \<Rightarrow> (r, emit_activity env (with_origin origin (settle_event env name args seq r)) s))"

section \<open>Calls through the shared context\<close>

definition tool_is_idempotent :: "string \<Rightarrow> bool" where
  "tool_is_idempotent name \<longleftrightarrow>
    name \<in> {''members'', ''groups'', ''resolve'', ''ping'', ''host_eval'', ''drift'', ''deploy_status''}"

text \<open>\<open>encode\<close> and \<open>decode\<close> are the wire form of the protocol library's result.\<close>

definition handler_dispatch ::
  "(json \<Rightarrow> string) \<Rightarrow> (call_tool_result \<Rightarrow> json) \<Rightarrow> mcp_env \<Rightarrow> string option \<Rightarrow> string \<Rightarrow> (string, json) bmap \<Rightarrow> mcp_tool" where
  "handler_dispatch render encode env origin name args s =
    (case call_tool_from env origin name args s of
       (Inr v, s) \<Rightarrow> (Inr (encode (to_call_result render v)), s)
     | (Inl e, s) \<Rightarrow> (Inl e, s))"

definition handle_call_tool_request ::
  "(json \<Rightarrow> (string, call_tool_result) result) \<Rightarrow> (call_error, json) result \<Rightarrow> (string, call_tool_result) result" where
  "handle_call_tool_request decode r =
    (case r of
       Inr v \<Rightarrow> decode v
     | Inl (ToolError m) \<Rightarrow> Inl m
     | Inl e \<Rightarrow> Inl (show_call_error e))"

section \<open>What a call may do\<close>

definition served :: "mcp_env \<Rightarrow> mcp_server \<Rightarrow> inventory option" where
  "served env s = (case ms_inventory s of Some iv \<Rightarrow> Some iv | None \<Rightarrow> ok (me_fresh env))"

definition changes_fleet :: "mcp_effect \<Rightarrow> bool" where
  "changes_fleet e =
    (case e of
       LaunchesDeploy _ dry _ _ \<Rightarrow> \<not> dry
     | LaunchesCommand _ kind _ _ \<Rightarrow> kind \<noteq> ''build''
     | RunsAdhoc argv \<Rightarrow> list_get 3 argv \<noteq> Some ''ping''
     | _ \<Rightarrow> False)"

definition launches :: "mcp_effect \<Rightarrow> bool" where
  "launches e = (case e of LaunchesDeploy _ _ _ _ \<Rightarrow> True | LaunchesCommand _ _ _ _ \<Rightarrow> True | _ \<Rightarrow> changes_fleet e)"

definition targets :: "mcp_env \<Rightarrow> mcp_effect \<Rightarrow> string \<Rightarrow> bool" where
  "targets env e target =
    (case e of
       LaunchesDeploy t _ _ _ \<Rightarrow> t = target
     | LaunchesCommand argv kind _ _ \<Rightarrow> kind = ''reboot'' \<and>
         (\<exists>serial drain. valid_serial serial \<and> map_option (\<lambda>(p, xs). p # xs) (me_reboot_argv env target serial drain) = Some argv)
     | RunsAdhoc argv \<Rightarrow> \<exists>unit_name forks. valid_unit unit_name \<and> argv = restart_argv target unit_name forks
     | _ \<Rightarrow> False)"

definition confirmed_target :: "mcp_env \<Rightarrow> mcp_server \<Rightarrow> (string, json) bmap \<Rightarrow> string \<Rightarrow> bool" where
  "confirmed_target env s args target \<longleftrightarrow>
    map_of args ''confirm'' = Some (JStr target) \<and>
    (\<exists>iv selector. served env s = Some iv \<and> map_of args ''selector'' = Some (JStr selector) \<and> to_limit iv selector = Inr target)"

definition does_only :: "mcp_env \<Rightarrow> (mcp_effect \<Rightarrow> bool) \<Rightarrow> bool \<Rightarrow> mcp_server \<Rightarrow> mcp_server \<Rightarrow> bool" where
  "does_only env P keep s s' \<longleftrightarrow>
    (\<exists>xs iv. s' = s\<lparr>ms_effects := ms_effects s @ xs, ms_inventory := iv\<rparr> \<and> list_all P xs \<and>
      (keep \<longrightarrow> iv = ms_inventory s \<or> ms_inventory s = None \<and> iv = ok (me_fresh env)))"

lemma does_only_refl [simp, intro]: "does_only env P keep s s"
  unfolding does_only_def by (intro exI [of _ "[]"] exI [of _ "ms_inventory s"]) simp

lemma does_only_trans:
  assumes "does_only env P keep s t" and "does_only env P keep t u"
  shows "does_only env P keep s u"
proof -
  obtain xs iv where 1: "t = s\<lparr>ms_effects := ms_effects s @ xs, ms_inventory := iv\<rparr>" "list_all P xs"
    "keep \<longrightarrow> iv = ms_inventory s \<or> ms_inventory s = None \<and> iv = ok (me_fresh env)" using assms(1) unfolding does_only_def by blast
  obtain ys iv' where 2: "u = t\<lparr>ms_effects := ms_effects t @ ys, ms_inventory := iv'\<rparr>" "list_all P ys"
    "keep \<longrightarrow> iv' = ms_inventory t \<or> ms_inventory t = None \<and> iv' = ok (me_fresh env)" using assms(2) unfolding does_only_def by blast
  have "u = s\<lparr>ms_effects := ms_effects s @ (xs @ ys), ms_inventory := iv'\<rparr>" using 1(1) 2(1) by simp
  moreover have "keep \<longrightarrow> iv' = ms_inventory s \<or> ms_inventory s = None \<and> iv' = ok (me_fresh env)" using 1 2 by auto
  ultimately show ?thesis using 1(2) 2(2) unfolding does_only_def
    by (intro exI [of _ "xs @ ys"] exI [of _ iv']) simp
qed

lemma does_only_perform [intro]: "P e \<Longrightarrow> does_only env P keep s (perform e s)"
  unfolding does_only_def perform_def by (intro exI [of _ "[e]"] exI [of _ "ms_inventory s"]) simp

lemma does_only_mono: "does_only env P keep s t \<Longrightarrow> (\<And>e. P e \<Longrightarrow> Q e) \<Longrightarrow> (keep' \<Longrightarrow> keep) \<Longrightarrow> does_only env Q keep' s t"
  unfolding does_only_def list_all_iff by blast

lemma does_only_run_adhoc: "P (RunsAdhoc argv) \<Longrightarrow> does_only env P keep s (snd (run_adhoc env argv report s))"
  by (auto simp: run_adhoc_def split: sum.split adhoc_error.split)

lemma does_only_swap: "P e \<Longrightarrow> (keep \<Longrightarrow> ms_inventory s = None \<and> iv = ok (me_fresh env)) \<Longrightarrow> does_only env P keep s ((perform e s)\<lparr>ms_inventory := iv\<rparr>)"
  unfolding does_only_def perform_def by (intro exI [of _ "[e]"] exI [of _ iv]) simp

lemma does_only_serve: "P EvaluatesInventory \<Longrightarrow> does_only env P keep s (snd (serve_inventory env s))"
  by (auto simp: serve_inventory_def intro: does_only_swap split: option.split sum.split)

lemma served_serve: "fst (serve_inventory env s) = Inr iv \<Longrightarrow> served env s = Some iv"
  by (simp add: serve_inventory_def served_def split: option.splits sum.splits)

lemma does_only_inventory:
  assumes "\<And>iv t. served env s = Some iv \<Longrightarrow> does_only env P keep t (snd (tool iv t))" and "P EvaluatesInventory"
  shows "does_only env P keep s (snd (with_inventory env tool s))"
proof (cases "serve_inventory env s")
  case (Pair r t)
  have "does_only env P keep s t" using does_only_serve [of P env keep s, OF assms(2)] Pair by simp
  then show ?thesis
    using assms(1) served_serve [of env s] Pair by (cases r) (auto simp: with_inventory_def intro: does_only_trans)
qed

lemma does_only_limit:
  assumes "\<And>iv target t. served env s = Some iv \<Longrightarrow> to_limit iv selector = Inr target \<Longrightarrow> does_only env P keep t (snd (tool target t))"
    and "P EvaluatesInventory"
  shows "does_only env P keep s (snd (with_limit env selector tool s))"
  unfolding with_limit_def
  by (rule does_only_inventory) (use assms in \<open>auto split: sum.split\<close>)

lemma req_arg_obj: "req_arg k (JObj m) = Some v \<longleftrightarrow> map_of m k = Some (JStr v)"
proof -
  have "as_str j = Some v \<longleftrightarrow> j = JStr v" for j by (cases j) auto
  then show ?thesis by (auto simp: req_arg_def bind_eq_Some_conv)
qed

lemma opt_str_obj: "opt_str k (JObj m) = Some (Some v) \<longleftrightarrow> map_of m k = Some (JStr v)"
proof -
  have "as_str j = Some v \<longleftrightarrow> j = JStr v" for j by (cases j) auto
  then show ?thesis by (auto simp: opt_arg_def split: option.split json.split)
qed

text \<open>What each tool may make the outside do.\<close>

definition permitted :: "mcp_env \<Rightarrow> mcp_server \<Rightarrow> (string, json) bmap \<Rightarrow> mcp_effect \<Rightarrow> bool" where
  "permitted env s args e \<longleftrightarrow> (changes_fleet e \<longrightarrow> (\<exists>target. confirmed_target env s args target \<and> targets env e target))"

lemma changes_plain [simp]:
  "\<not> changes_fleet EvaluatesInventory" "\<not> changes_fleet (EvaluatesToplevels ms)" "\<not> changes_fleet Surveys"
  "\<not> changes_fleet (SavesExpected r paths)" "\<not> changes_fleet (LaunchesDeploy t True b n)"
  "\<not> changes_fleet (LaunchesCommand argv ''build'' cwd m)" "\<not> changes_fleet (RunsAdhoc (ping_argv t f c))"
  by (simp_all add: changes_fleet_def ping_argv_def list_get_def)

lemma permitted_plain [simp]:
  "permitted env s args EvaluatesInventory" "permitted env s args (EvaluatesToplevels ms)" "permitted env s args Surveys"
  "permitted env s args (SavesExpected r paths)" "permitted env s args (LaunchesDeploy t True b n)"
  "permitted env s args (LaunchesCommand argv ''build'' cwd m)" "permitted env s args (RunsAdhoc (ping_argv t f c))"
  by (simp_all add: permitted_def)

lemma launches_plain [simp]:
  "\<not> launches EvaluatesInventory" "\<not> launches (EvaluatesToplevels ms)" "\<not> launches Surveys"
  "\<not> launches (SavesExpected r paths)" "\<not> launches (RunsAdhoc (ping_argv t f c))"
  using changes_plain by (simp_all add: launches_def)

lemma read_tools_only:
  assumes "P EvaluatesInventory"
  shows "does_only env P keep s (snd (tool_members env full s))" "does_only env P keep s (snd (tool_groups env pattern s))"
    "does_only env P keep s (snd (tool_resolve env selector s))"
  unfolding tool_members_def tool_groups_def tool_resolve_def
  by (rule does_only_inventory; use assms in \<open>auto simp: Let_def split: sum.split\<close>)+

lemma ping_only:
  "P EvaluatesInventory \<Longrightarrow> (\<And>limit. P (RunsAdhoc (ping_argv limit forks timeout))) \<Longrightarrow>
    does_only env P keep s (snd (tool_ping env selector forks timeout s))"
  unfolding tool_ping_def by (rule does_only_limit) (auto intro: does_only_run_adhoc)

lemma host_eval_only:
  "P EvaluatesInventory \<Longrightarrow> P (EvaluatesToplevels [name]) \<Longrightarrow> does_only env P keep s (snd (tool_host_eval env name toplevel s))"
  unfolding tool_host_eval_def by (rule does_only_inventory) (auto simp: Let_def split: option.split)

lemma drift_refresh_only: "P Surveys \<Longrightarrow> does_only env P keep s (snd (drift_refresh env refresh j s))"
  by (auto simp: drift_refresh_def Let_def split: sum.split)

lemma drift_expected_only:
  assumes "P (EvaluatesToplevels nodes)" and "\<And>r paths. P (SavesExpected r paths)"
  shows "does_only env P keep s (snd (drift_expected env do_eval nodes j s))"
proof -
  have "does_only env P keep s (perform (SavesExpected r paths) (perform (EvaluatesToplevels nodes) s))" for r paths
    using assms by (blast intro: does_only_trans)
  then show ?thesis using assms by (auto simp: drift_expected_def Let_def split: sum.split)
qed

lemma drift_only:
  assumes "P EvaluatesInventory" "P Surveys" "\<And>nodes. P (EvaluatesToplevels nodes)" "\<And>r paths. P (SavesExpected r paths)"
  shows "does_only env P keep s (snd (tool_drift env refresh do_eval statuses s))"
  unfolding tool_drift_def
proof (rule does_only_inventory)
  fix iv t
  let ?j = "json_obj [(''ok'', JBool True), (''refreshed'', JBool False), (''expected_source'', JStr ''none'')]"
  obtain r u where r: "drift_refresh env (opt_default False refresh) ?j t = (r, u)" by fastforce
  then have "does_only env P keep t u" using drift_refresh_only [of P env keep t "opt_default False refresh" ?j] assms(2) by simp
  moreover have "does_only env P keep u (snd (drift_expected env (opt_default False do_eval) (deploy_nodes iv) j u))" for j
    using assms by (simp add: drift_expected_only)
  ultimately show "does_only env P keep t (snd (let nodes = deploy_nodes iv; j = ?j
      in case drift_refresh env (opt_default False refresh) j t of
           (Inl e, s) \<Rightarrow> (Inl e, s)
         | (Inr j, s) \<Rightarrow> (case drift_expected env (opt_default False do_eval) nodes j s of
                (x, s) \<Rightarrow> (Inr (drift_report env nodes statuses x), s))))"
    using r by (cases r) (auto simp: Let_def split_beta intro: does_only_trans)
qed (use assms in simp)

lemma reload_only: "P EvaluatesInventory \<Longrightarrow> does_only env P False s (snd (tool_reload env s))"
  by (auto simp: tool_reload_def intro: does_only_swap split: sum.split)

lemma build_only:
  "P EvaluatesInventory \<Longrightarrow> (\<And>argv m. P (LaunchesCommand argv ''build'' None m)) \<Longrightarrow>
    does_only env P keep s (snd (tool_build env selector wait_seconds s))"
  unfolding tool_build_def by (rule does_only_inventory) (auto simp: Let_def split: sum.split)

lemma deploy_only:
  assumes "P EvaluatesInventory"
    and "\<And>iv target dry b. served env s = Some iv \<Longrightarrow> to_limit iv selector = Inr target \<Longrightarrow>
      dry \<or> confirm = Some target \<Longrightarrow> P (LaunchesDeploy target dry b DEPLOY_THROTTLE)"
  shows "does_only env P keep s (snd (tool_deploy env selector dry_activate boot confirm s))"
  unfolding tool_deploy_def by (rule does_only_limit) (use assms in \<open>auto simp: Let_def split: sum.split\<close>)

lemma restart_only:
  assumes "P EvaluatesInventory"
    and "\<And>iv target. served env s = Some iv \<Longrightarrow> to_limit iv selector = Inr target \<Longrightarrow> valid_unit unit_name \<Longrightarrow>
      confirm = Some target \<Longrightarrow> P (RunsAdhoc (restart_argv target unit_name forks))"
  shows "does_only env P keep s (snd (tool_restart_service env selector unit_name confirm forks s))"
  unfolding tool_restart_service_def by (rule does_only_limit) (use assms in \<open>auto intro: does_only_run_adhoc\<close>)

lemma reboot_only:
  assumes "P EvaluatesInventory"
    and "\<And>iv target ser d program xs cwd m. served env s = Some iv \<Longrightarrow> to_limit iv selector = Inr target \<Longrightarrow> valid_serial ser \<Longrightarrow>
      confirm = Some target \<Longrightarrow> me_reboot_argv env target ser d = Some (program, xs) \<Longrightarrow>
      P (LaunchesCommand (program # xs) ''reboot'' cwd m)"
  shows "does_only env P keep s (snd (tool_reboot env selector serial drain confirm s))"
  unfolding tool_reboot_def
  by (rule does_only_limit) (use assms in \<open>auto simp: Let_def split: sum.split option.split\<close>)

text \<open>A tool's remit: only confirmed changes, and nothing launched by one that may be retried.\<close>

definition remit :: "mcp_env \<Rightarrow> mcp_server \<Rightarrow> (string, json) bmap \<Rightarrow> bool \<Rightarrow> bool \<Rightarrow> mcp_effect \<Rightarrow> bool" where
  "remit env s args idempotent audited e \<longleftrightarrow>
    permitted env s args e \<and> (idempotent \<longrightarrow> \<not> launches e) \<and> (changes_fleet e \<longrightarrow> audited)"

lemma remit_plain [simp]:
  "remit env s args i b EvaluatesInventory" "remit env s args i b (EvaluatesToplevels ms)" "remit env s args i b Surveys"
  "remit env s args i b (SavesExpected r paths)" "remit env s args i b (RunsAdhoc (ping_argv t f c))"
  "remit env s args False b (LaunchesDeploy t True boot n)" "remit env s args False b (LaunchesCommand argv ''build'' cwd m)"
  by (simp_all add: remit_def)

lemma read_parsers_remit:
  "parse_members env a = Some tool \<Longrightarrow> does_only env (remit env s args True False) True s (snd (tool s))"
  "parse_groups env a = Some tool \<Longrightarrow> does_only env (remit env s args True False) True s (snd (tool s))"
  "parse_resolve env a = Some tool \<Longrightarrow> does_only env (remit env s args True False) True s (snd (tool s))"
  "parse_ping env a = Some tool \<Longrightarrow> does_only env (remit env s args True False) True s (snd (tool s))"
  "parse_host_eval env a = Some tool \<Longrightarrow> does_only env (remit env s args True False) True s (snd (tool s))"
  "parse_drift env a = Some tool \<Longrightarrow> does_only env (remit env s args True False) True s (snd (tool s))"
  "parse_deploy_status env a = Some tool \<Longrightarrow> does_only env (remit env s args True False) True s (snd (tool s))"
  "parse_build env a = Some tool \<Longrightarrow> does_only env (remit env s args False False) True s (snd (tool s))"
  by (auto simp: parse_members_def parse_groups_def parse_resolve_def parse_ping_def parse_host_eval_def parse_drift_def
      parse_deploy_status_def parse_build_def bind_eq_Some_conv
      intro!: read_tools_only ping_only host_eval_only drift_only build_only)

lemma confirmed_targetI:
  "served env s = Some iv \<Longrightarrow> req_arg ''selector'' (JObj args) = Some selector \<Longrightarrow> to_limit iv selector = Inr target \<Longrightarrow>
    opt_str ''confirm'' (JObj args) = Some (Some target) \<Longrightarrow> confirmed_target env s args target"
  by (auto simp: confirmed_target_def req_arg_obj opt_str_obj)

lemma remit_confirmed: "confirmed_target env s args target \<Longrightarrow> targets env e target \<Longrightarrow> remit env s args False True e"
  by (auto simp: remit_def permitted_def)

lemma parse_deploy_remit:
  assumes "parse_deploy env (JObj args) = Some tool"
  shows "does_only env (remit env s args False True) True s (snd (tool s))"
proof -
  obtain selector dry b confirm where *: "req_arg ''selector'' (JObj args) = Some selector"
    "opt_str ''confirm'' (JObj args) = Some confirm" "tool = tool_deploy env selector dry b confirm"
    using assms by (auto simp: parse_deploy_def bind_eq_Some_conv)
  have "remit env s args False True (LaunchesDeploy target d b' DEPLOY_THROTTLE)"
    if "served env s = Some iv" "to_limit iv selector = Inr target" "d \<or> confirm = Some target" for iv target d b'
    using that * by (cases d) (auto intro: remit_confirmed confirmed_targetI simp: targets_def)
  then show ?thesis unfolding *(3) by (intro deploy_only) simp_all
qed

lemma parse_restart_remit:
  assumes "parse_restart_service env (JObj args) = Some tool"
  shows "does_only env (remit env s args False True) True s (snd (tool s))"
proof -
  obtain selector unit_name confirm forks where *: "req_arg ''selector'' (JObj args) = Some selector"
    "opt_str ''confirm'' (JObj args) = Some confirm" "tool = tool_restart_service env selector unit_name confirm forks"
    using assms by (auto simp: parse_restart_service_def bind_eq_Some_conv)
  have "remit env s args False True (RunsAdhoc (restart_argv target unit_name forks))"
    if "served env s = Some iv" "to_limit iv selector = Inr target" "valid_unit unit_name" "confirm = Some target" for iv target
  proof -
    have "targets env (RunsAdhoc (restart_argv target unit_name forks)) target"
      using that(3) unfolding targets_def mcp_effect.case by blast
    then show ?thesis using that * by (auto intro!: remit_confirmed confirmed_targetI)
  qed
  then show ?thesis unfolding *(3) by (intro restart_only) simp_all
qed

lemma parse_reboot_remit:
  assumes "parse_reboot env (JObj args) = Some tool"
  shows "does_only env (remit env s args False True) True s (snd (tool s))"
proof -
  obtain selector serial drain confirm where *: "req_arg ''selector'' (JObj args) = Some selector"
    "opt_str ''confirm'' (JObj args) = Some confirm" "tool = tool_reboot env selector serial drain confirm"
    using assms by (auto simp: parse_reboot_def bind_eq_Some_conv)
  have "remit env s args False True (LaunchesCommand (program # xs) ''reboot'' cwd m)"
    if "served env s = Some iv" "to_limit iv selector = Inr target" "valid_serial ser" "confirm = Some target"
      "me_reboot_argv env target ser d = Some (program, xs)" for iv target ser d program xs cwd m
  proof -
    have "map_option (\<lambda>(p, xs). p # xs) (me_reboot_argv env target ser d) = Some (program # xs)" using that by simp
    then have "targets env (LaunchesCommand (program # xs) ''reboot'' cwd m) target"
      using that(3) unfolding targets_def by auto
    then show ?thesis using that * by (auto intro!: remit_confirmed confirmed_targetI)
  qed
  then show ?thesis unfolding *(3) by (intro reboot_only) simp_all
qed

lemma idempotent_simps:
  "tool_is_idempotent ''members''" "tool_is_idempotent ''groups''" "tool_is_idempotent ''resolve''" "tool_is_idempotent ''ping''"
  "tool_is_idempotent ''host_eval''" "tool_is_idempotent ''drift''" "tool_is_idempotent ''deploy_status''"
  "\<not> tool_is_idempotent ''reload''" "\<not> tool_is_idempotent ''build''" "\<not> tool_is_idempotent ''deploy''"
  "\<not> tool_is_idempotent ''restart_service''" "\<not> tool_is_idempotent ''reboot''"
  by (simp_all add: tool_is_idempotent_def)

lemma does_only_flag: "does_only env P True s t \<Longrightarrow> does_only env P keep s t"
  by (erule does_only_mono) auto

lemma audited_simps:
  "''members'' \<notin> set AUDITED" "''groups'' \<notin> set AUDITED" "''resolve'' \<notin> set AUDITED" "''ping'' \<notin> set AUDITED"
  "''host_eval'' \<notin> set AUDITED" "''drift'' \<notin> set AUDITED" "''deploy_status'' \<notin> set AUDITED" "''build'' \<notin> set AUDITED"
  "''deploy'' \<in> set AUDITED" "''restart_service'' \<in> set AUDITED" "''reboot'' \<in> set AUDITED"
  by (simp_all add: AUDITED_def)

lemma tool_remit:
  assumes "(name, parse) \<in> set TOOLS" and "parse env (JObj args) = Some tool"
  shows "does_only env (remit env s args (tool_is_idempotent name) (name \<in> set AUDITED)) (name \<noteq> ''reload'') s (snd (tool s))"
proof -
  let ?thesis' = "\<lambda>i b. does_only env (remit env s args i b) True s (snd (tool s))"
  have reload: "does_only env (remit env s args i b) False s (snd (tool_reload env s))" for i b by (simp add: reload_only)
  consider "name = ''reload''" "tool = tool_reload env"
    | "tool_is_idempotent name" "name \<notin> set AUDITED" "?thesis' True False"
    | "\<not> tool_is_idempotent name" "name \<notin> set AUDITED" "?thesis' False False"
    | "\<not> tool_is_idempotent name" "name \<in> set AUDITED" "?thesis' False True"
    using assms read_parsers_remit [of env "JObj args" tool s args] parse_deploy_remit [of env args tool s]
      parse_restart_remit [of env args tool s] parse_reboot_remit [of env args tool s]
    unfolding TOOLS_def list.set insert_iff prod.inject empty_iff
    by (elim disjE conjE) (simp_all only: idempotent_simps audited_simps refl simp_thms option.inject)
  then show ?thesis using reload by cases (auto intro: does_only_flag)
qed

lemma dispatch_remit:
  "does_only env (remit env s args (tool_is_idempotent name) (name \<in> set AUDITED)) (name \<noteq> ''reload'') s (snd (dispatch env name args s))"
  by (auto simp: dispatch_def intro: tool_remit dest: map_of_SomeD split: option.split)

section \<open>The audit trail\<close>

lemma map_of_rev_wf: "bm_wf m \<Longrightarrow> map_of (rev m) k = map_of m k"
proof -
  assume "bm_wf m"
  then have d: "distinct (map fst m)" using bm_wf_distinct [of m] by (simp add: bm_keys_def)
  then have "map_of (rev m) k = Some v \<longleftrightarrow> map_of m k = Some v" for v
    by (simp add: map_of_eq_Some_iff rev_map [symmetric])
  then show ?thesis by (metis not_None_eq)
qed

lemma map_of_fold_pairs:
  "map_of (fold (\<lambda>(k, v). bm_insert k v) kvs m) k = (case map_of (rev kvs) k of None \<Rightarrow> map_of m k | Some v \<Rightarrow> Some v)"
proof (induction kvs arbitrary: m)
  case (Cons e kvs)
  then show ?case by (cases e) (auto simp: map_add_def split: option.splits)
qed simp

text \<open>The fields that matter of an event, and of the line that is written for it.\<close>

definition audit_entry :: "json \<Rightarrow> json option \<times> json option \<times> json option" where
  "audit_entry j = (json_get ''tool'' j, json_get ''args'' j, json_get ''origin'' j)"

definition call_entry :: "string option \<Rightarrow> string \<Rightarrow> (string, json) bmap \<Rightarrow> json option \<times> json option \<times> json option" where
  "call_entry origin name args = (Some (JStr name), Some (JObj args), map_option JStr origin)"

lemma stamped_obj: "\<exists>m. with_origin origin (call_event name args status detail seq extra) = JObj m \<and> bm_wf m"
  by (cases origin) (auto simp: with_origin_def call_event_def json_obj_def intro: wf_intros)

lemma stamped_get:
  assumes "k \<in> {''tool'', ''args'', ''status''}" and "k \<notin> fst ` set extra"
  shows "json_get k (with_origin origin (call_event name args status detail seq extra)) =
    Some (if k = ''tool'' then JStr name else if k = ''args'' then JObj args else JStr status)"
proof -
  have "map_of (rev extra) k = None" using assms(2) by (simp add: map_of_eq_None_iff)
  then show ?thesis using assms(1)
    by (cases origin) (auto simp: with_origin_def call_event_def json_obj_def map_of_bm_of_list map_add_def)
qed

lemma stamped_origin:
  assumes "''origin'' \<notin> fst ` set extra"
  shows "json_get ''origin'' (with_origin origin (call_event name args status detail seq extra)) = map_option JStr origin"
proof -
  have "map_of (rev extra) ''origin'' = None" using assms by (simp add: map_of_eq_None_iff)
  then show ?thesis
    by (cases origin) (auto simp: with_origin_def call_event_def json_obj_def map_of_bm_of_list map_add_def)
qed

lemma settle_shape:
  "\<exists>status detail extra. settle_event env name args seq r = call_event name args status detail seq extra \<and> status \<noteq> ''start'' \<and>
    {''tool'', ''args'', ''status'', ''origin'', ''ts''} \<inter> fst ` set extra = {}"
  by (cases r) (simp only: settle_event_def Let_def sum.case, intro exI conjI, rule refl, simp_all)+

lemma start_not_audited: "audit_event ts (with_origin origin (call_event name args ''start'' detail seq [])) = None"
  using stamped_get [of "''status''" "[]" origin name args "''start''" detail seq] by (simp add: audit_event_def)

lemma settle_audited:
  "case audit_event ts (with_origin origin (settle_event env name args seq r)) of
     None \<Rightarrow> name \<notin> set AUDITED
   | Some line \<Rightarrow> name \<in> set AUDITED \<and> audit_entry line = call_entry origin name args"
proof -
  obtain status detail extra where e: "settle_event env name args seq r = call_event name args status detail seq extra"
    "status \<noteq> ''start''" "{''tool'', ''args'', ''status'', ''origin'', ''ts''} \<inter> fst ` set extra = {}"
    using settle_shape [of env name args seq r] by (elim exE conjE)
  let ?ev = "with_origin origin (call_event name args status detail seq extra)"
  obtain m where m: "?ev = JObj m" "bm_wf m" using stamped_obj [of origin name args status detail seq extra] by (elim exE conjE)
  have get: "json_get ''tool'' ?ev = Some (JStr name)" "json_get ''args'' ?ev = Some (JObj args)"
    "json_get ''status'' ?ev = Some (JStr status)" "json_get ''origin'' ?ev = map_option JStr origin"
    using stamped_get [of "''tool''" extra] stamped_get [of "''args''" extra] stamped_get [of "''status''" extra]
      stamped_origin [of extra] e(3) by auto
  let ?line = "JObj (fold (\<lambda>(k, v). bm_insert k v) m (bm_insert ''ts'' (JNum (JFloat ts)) []))"
  have line: "json_get k ?line = json_get k ?ev" if "k \<noteq> ''ts''" for k
    using that map_of_rev_wf [OF m(2), of k] by (simp add: m(1) map_of_fold_pairs split: option.split)
  have "audit_event ts ?ev = (if name \<in> set AUDITED then Some ?line else None)"
    using get(1,3) e(2) by (simp add: audit_event_def m(1))
  moreover have "audit_entry ?line = call_entry origin name args"
    unfolding audit_entry_def call_entry_def using get line [of "''tool''"] line [of "''args''"] line [of "''origin''"] by simp
  ultimately show ?thesis unfolding e(1) by simp
qed

section \<open>Calls\<close>

lemma emit_keeps [simp]:
  "ms_effects (emit_activity env e s) = ms_effects s" "ms_inventory (emit_activity env e s) = ms_inventory s"
  by (simp_all add: emit_activity_def)

lemma remit_inventory: "ms_inventory s = ms_inventory t \<Longrightarrow> remit env s = remit env t"
  by (intro ext) (simp add: remit_def permitted_def confirmed_target_def served_def)

lemma emit_start [simp]: "ms_audit (emit_activity env (with_origin origin (call_event name args ''start'' d seq [])) s) = ms_audit s"
  by (simp add: emit_activity_def start_not_audited)

lemma emit_settle:
  "\<exists>lines. ms_audit (emit_activity env (with_origin origin (settle_event env name args seq r)) s) = ms_audit s @ lines \<and>
    map audit_entry lines = (if name \<in> set AUDITED \<and> me_audit_writable env then [call_entry origin name args] else [])"
  using settle_audited [where ts = "me_time env" and origin = origin and env = env and name = name and args = args and seq = seq and r = r]
  by (auto simp: emit_activity_def split: option.splits)

lemma call_summary:
  fixes s :: mcp_server and env :: mcp_env and origin :: "string option" and name :: string and args :: "(string, json) bmap"
  defines "s' \<equiv> snd (call_tool_from env origin name args s)"
  shows "\<exists>xs lines. ms_effects s' = ms_effects s @ xs \<and>
    list_all (remit env s args (tool_is_idempotent name) (name \<in> set AUDITED)) xs \<and>
    (name \<noteq> ''reload'' \<longrightarrow> ms_inventory s' = ms_inventory s \<or> ms_inventory s = None \<and> ms_inventory s' = ok (me_fresh env)) \<and>
    ms_audit s' = ms_audit s @ lines \<and>
    map audit_entry lines = (if name \<in> set AUDITED \<and> me_audit_writable env then [call_entry origin name args] else [])"
proof -
  let ?R = "\<lambda>s. remit env s args (tool_is_idempotent name) (name \<in> set AUDITED)"
  define t where "t = emit_activity env (with_origin origin (call_event name args ''start'' JNull (ms_seq s) [])) (s\<lparr>ms_seq := ms_seq s + 1\<rparr>)"
  have t: "ms_effects t = ms_effects s" "ms_inventory t = ms_inventory s" "ms_audit t = ms_audit s" by (simp_all add: t_def)
  obtain r u where u: "dispatch env name args t = (r, u)" by fastforce
  have "does_only env (?R t) (name \<noteq> ''reload'') t u" using dispatch_remit [of env t args name] u by simp
  then obtain xs iv where xs: "u = t\<lparr>ms_effects := ms_effects t @ xs, ms_inventory := iv\<rparr>" "list_all (?R t) xs"
    "name \<noteq> ''reload'' \<longrightarrow> iv = ms_inventory t \<or> ms_inventory t = None \<and> iv = ok (me_fresh env)" unfolding does_only_def by (elim exE conjE)
  have s': "s' = emit_activity env (with_origin origin (settle_event env name args (ms_seq s) r)) u"
    by (simp add: s'_def call_tool_from_def t_def [symmetric] u)
  obtain lines where "ms_audit s' = ms_audit u @ lines"
    "map audit_entry lines = (if name \<in> set AUDITED \<and> me_audit_writable env then [call_entry origin name args] else [])"
    unfolding s' using emit_settle by metis
  moreover have "ms_audit u = ms_audit s" "ms_effects s' = ms_effects s @ xs" "list_all (?R s) xs"
    using xs(1,2) t remit_inventory [OF t(2)] by (simp_all add: s')
  moreover have "name \<noteq> ''reload'' \<longrightarrow> ms_inventory s' = ms_inventory s \<or> ms_inventory s = None \<and> ms_inventory s' = ok (me_fresh env)"
    unfolding s' emit_keeps using xs(1,3) t(2) by simp
  ultimately show ?thesis by (intro exI [of _ xs] exI [of _ lines]) simp
qed

definition new_effects :: "mcp_server \<Rightarrow> mcp_server \<Rightarrow> mcp_effect list" where
  "new_effects s s' = drop (length (ms_effects s)) (ms_effects s')"

text \<open>The calls of a session in the order in which they settle, each with what it finds outside, and their origin.\<close>

type_synonym mcp_call = "mcp_env \<times> string option \<times> string \<times> (string, json) bmap"

definition run_calls :: "mcp_call list \<Rightarrow> mcp_server \<Rightarrow> mcp_server" where
  "run_calls = fold (\<lambda>(env, origin, name, args) s. snd (call_tool_from env origin name args s))"

lemma run_calls_snoc:
  "run_calls (calls @ [(env, origin, name, args)]) s = snd (call_tool_from env origin name args (run_calls calls s))"
  by (simp add: run_calls_def)

definition audited_calls :: "mcp_call list \<Rightarrow> (json option \<times> json option \<times> json option) list" where
  "audited_calls calls = map (\<lambda>(env, origin, name, args). call_entry origin name args)
    (filter (\<lambda>(env, origin, name, args). name \<in> set AUDITED \<and> me_audit_writable env) calls)"

text \<open>\<open>e\<close> was caused by a call that confirmed its target.\<close>

definition answers_for :: "mcp_effect \<Rightarrow> mcp_call \<Rightarrow> bool" where
  "answers_for e c =
    (case c of (env, origin, name, args) \<Rightarrow>
       name \<in> set AUDITED \<and> (\<exists>target. map_of args ''confirm'' = Some (JStr target) \<and> targets env e target))"

lemma remit_answers:
  "remit env s args i (name \<in> set AUDITED) e \<Longrightarrow> changes_fleet e \<Longrightarrow> answers_for e (env, origin, name, args)"
  unfolding remit_def permitted_def answers_for_def confirmed_target_def by auto

lemma session_summary:
  "\<exists>xs. ms_effects (run_calls calls s) = ms_effects s @ xs \<and>
      (\<forall>e\<in>set xs. changes_fleet e \<longrightarrow> (\<exists>c\<in>set calls. answers_for e c)) \<and>
      map audit_entry (ms_audit (run_calls calls s)) = map audit_entry (ms_audit s) @ audited_calls calls"
proof (induction calls rule: rev_induct)
  case Nil
  then show ?case by (simp add: run_calls_def audited_calls_def)
next
  case (snoc c calls)
  obtain env origin name args where c: "c = (env, origin, name, args)" by (cases c) auto
  let ?s = "run_calls calls s"
  obtain xs where xs: "ms_effects ?s = ms_effects s @ xs" "\<forall>e\<in>set xs. changes_fleet e \<longrightarrow> (\<exists>c\<in>set calls. answers_for e c)"
    "map audit_entry (ms_audit ?s) = map audit_entry (ms_audit s) @ audited_calls calls" using snoc by auto
  obtain ys lines where ys: "ms_effects (snd (call_tool_from env origin name args ?s)) = ms_effects ?s @ ys"
    "list_all (remit env ?s args (tool_is_idempotent name) (name \<in> set AUDITED)) ys"
    "ms_audit (snd (call_tool_from env origin name args ?s)) = ms_audit ?s @ lines"
    "map audit_entry lines = (if name \<in> set AUDITED \<and> me_audit_writable env then [call_entry origin name args] else [])"
    using call_summary [of env origin name args ?s] by (elim exE conjE)
  have "\<forall>e\<in>set (xs @ ys). changes_fleet e \<longrightarrow> (\<exists>c\<in>set (calls @ [c]). answers_for e c)"
    using xs(2) ys(2) remit_answers [of env ?s args _ name _ origin] unfolding c by (auto simp: list_all_iff)
  then show ?case using xs(1,3) ys(1,3,4) unfolding c run_calls_snoc
    by (intro exI [of _ "xs @ ys"]) (simp add: audited_calls_def)
qed

section \<open>Properties\<close>

text \<open>C8: Whatever a client sends, the server activates a deployment, reboots or restarts a service only in a call whose
  \<^verbatim>\<open>confirm\<close> argument is, to the letter, the target that its selector resolves to in the served inventory; what is done
  then is aimed at this target, and the unit and the batch size in its command line have passed their checks.\<close>

theorem unconfirmed_calls_change_nothing:
  assumes "e \<in> set (new_effects s (snd (call_tool_from env origin name args s)))" and "changes_fleet e"
  shows "\<exists>target. confirmed_target env s args target \<and> targets env e target"
proof -
  obtain xs where "ms_effects (snd (call_tool_from env origin name args s)) = ms_effects s @ xs"
    "list_all (remit env s args (tool_is_idempotent name) (name \<in> set AUDITED)) xs"
    using call_summary [of env origin name args s] by (elim exE conjE)
  then show ?thesis using assms by (auto simp: new_effects_def list_all_iff remit_def permitted_def)
qed


lemma attempts_declared: "fleet_reachable idem w \<Longrightarrow> 1 < length (fl_attempts w c) \<Longrightarrow> idem c"
  using fleet_phases_ok [of idem w c]
  by (cases "(idem c, fl_phase w c, fl_attempts w c)" rule: phase_ok.cases) (auto split: if_splits)

text \<open>C10: A call that is attempted twice because its leader died is one whose repetition does no harm: on either leader it
  launches nothing, leaves the audit trail alone and leaves what is served as it was. The inventory itself stays, unless
  the leader had none, as one just promoted: then the call may load the fresh one.\<close>

theorem retried_calls_change_nothing:
  assumes "fleet_reachable (\<lambda>c. tool_is_idempotent (names c)) w" and "1 < length (fl_attempts w c)"
    and "after = snd (call_tool_from env origin (names c) args s)"
  shows "filter launches (new_effects s after) = [] \<and> ms_audit after = ms_audit s \<and> served env after = served env s \<and>
    (ms_inventory after = ms_inventory s \<or> ms_inventory s = None \<and> ms_inventory after = ok (me_fresh env))"
proof -
  have i: "tool_is_idempotent (names c)" using attempts_declared [OF assms(1,2)] .
  then have n: "names c \<noteq> ''reload''" "names c \<notin> set AUDITED" by (auto simp: idempotent_simps AUDITED_def)
  obtain xs lines where x: "ms_effects after = ms_effects s @ xs"
    "list_all (remit env s args (tool_is_idempotent (names c)) (names c \<in> set AUDITED)) xs"
    "names c \<noteq> ''reload'' \<longrightarrow> ms_inventory after = ms_inventory s \<or>
      ms_inventory s = None \<and> ms_inventory after = ok (me_fresh env)"
    "ms_audit after = ms_audit s @ lines"
    "map audit_entry lines = (if names c \<in> set AUDITED \<and> me_audit_writable env then [call_entry origin (names c) args] else [])"
    using call_summary [of env origin "names c" args s] unfolding assms(3) by (elim exE conjE)
  have "\<not> launches e" if "e \<in> set xs" for e using that x(2) i by (auto simp: list_all_iff remit_def)
  then have "filter launches xs = []" by (simp add: filter_empty_conv)
  moreover have "served env after = served env s"
    using x(3) n(1) by (auto simp: served_def split: option.split)
  ultimately show ?thesis using x(1,3,4,5) n by (simp add: new_effects_def)
qed

subsection \<open>A session\<close>

definition sample_server :: mcp_server where
  "sample_server = (mcp_server_new ''.'')\<lparr>ms_inventory := Some sample_inventory\<rparr>"

definition sample_calls_env :: mcp_env where
  "sample_calls_env = \<lparr>me_bad_args = \<lambda>_ _. ''bad'', me_unknown = \<lambda>_. ''unknown'', me_fresh = Inr sample_inventory,
    me_eval = \<lambda>_. Inr toplevels_default, me_survey = Inl ''none'', me_adhoc = \<lambda>_. Inl AdhocNotFound,
    me_deploy = Inr \<lparr>ds_run_id = ''r'', ds_events_dir = ''/r''\<rparr>, me_command = Inl ''none'', me_reboot_argv = \<lambda>_ _ _. None,
    me_canonical = Inr, me_is_file = \<lambda>_. False, me_attr = \<lambda>m. m, me_rev = None, me_cached = (None, []), me_snapshots = [],
    me_iso = \<lambda>_. None, me_now = 0, me_timestamp_ok = \<lambda>_. True, me_open = \<lambda>_. None, me_listed = [],
    me_poll = \<lambda>_. sample_poll, me_polls = [], me_built = (Running, [], None), me_elapsed = 0, me_time = 0, me_audit_writable = True\<rparr>"

definition sample_confirmed :: "(string, json) bmap" where
  "sample_confirmed = [(''confirm'', JStr ''web''), (''dry_activate'', JBool False), (''selector'', JStr ''@edge'')]"

definition sample_activation :: mcp_effect where
  "sample_activation = LaunchesDeploy ''web'' False False 4"

lemma sample_edge: "to_limit sample_inventory ''@edge'' = Inr ''web''"
  by code_simp

lemma sample_dispatch:
  "ms_inventory t = Some sample_inventory \<Longrightarrow>
    ms_effects (snd (dispatch sample_calls_env ''deploy'' sample_confirmed t)) = ms_effects t @ [sample_activation]"
  by (simp add: dispatch_def TOOLS_def parse_deploy_def sample_confirmed_def req_arg_def opt_arg_def tool_deploy_def with_limit_def
      with_inventory_def serve_inventory_def sample_edge perform_def sample_activation_def sample_calls_env_def DEPLOY_THROTTLE_def)

lemma sample_confirmed_call:
  "ms_inventory t = Some sample_inventory \<Longrightarrow>
    ms_effects (snd (call_tool_from sample_calls_env origin ''deploy'' sample_confirmed t)) = ms_effects t @ [sample_activation]"
  by (simp add: call_tool_from_def Let_def sample_dispatch split_beta)

theorem unconfirmed_calls_change_nothing_witness:
  "\<exists>target. confirmed_target sample_calls_env sample_server sample_confirmed target \<and> targets sample_calls_env sample_activation target"
  using unconfirmed_calls_change_nothing [of sample_activation sample_server sample_calls_env None "''deploy''" sample_confirmed]
  by (simp add: new_effects_def sample_confirmed_call sample_server_def changes_fleet_def sample_activation_def mcp_server_new_def)


text \<open>The retried call reaches a leader that was just promoted and has no inventory yet.\<close>

theorem retried_calls_change_nothing_witness:
  "ms_audit (snd (call_tool_from sample_calls_env None ''ping'' sample_confirmed (mcp_server_new ''.''))) = [] \<and>
    served sample_calls_env (snd (call_tool_from sample_calls_env None ''ping'' sample_confirmed (mcp_server_new ''.''))) =
      Some sample_inventory"
proof -
  let ?names = "\<lambda>c. if c = (1::nat) then ''ping'' else ''deploy''"
  have "(\<lambda>c. tool_is_idempotent (?names c)) = (\<lambda>c. c = 1)" by (intro ext) (simp add: idempotent_simps)
  then have r: "fleet_reachable (\<lambda>c. tool_is_idempotent (?names c)) (sample_fleet sample_steps)" using sample_fleet_reachable by simp
  have "1 < length (fl_attempts (sample_fleet sample_steps) 1)" unfolding sample_fleet_end by simp
  moreover have "ms_audit (mcp_server_new ''.'') = []" "served sample_calls_env (mcp_server_new ''.'') = Some sample_inventory"
    by (simp_all add: served_def mcp_server_new_def sample_calls_env_def)
  ultimately show ?thesis
    using retried_calls_change_nothing [OF r _ refl, of 1 "mcp_server_new ''.''" sample_calls_env None sample_confirmed] by simp
qed

end
