(* ===== verification/TuiContext.thy ===== *)
theory TuiContext
  imports McpServer Explorer
begin

text \<open>How the explorer reads through the shared context (\<^verbatim>\<open>mandala-tui/src/context.rs\<close>): the contract is put together again
  from the answers of three tools, and an evaluation is read back off the entries of the \<^verbatim>\<open>drift\<close> tool. A session is a
  state \<open>'s\<close> with the call as a function on it.\<close>

section \<open>Calls\<close>

type_synonym 's caller = "string \<Rightarrow> (string, json) bmap \<Rightarrow> 's \<Rightarrow> (call_error, json) result \<times> 's"

datatype read_failure = ReadTool string | ReadGone

definition read_result :: "(call_error, json) result \<Rightarrow> (read_failure, json) result" where
  "read_result r =
    (case r of
       Inr v \<Rightarrow> Inr (opt_default JNull (json_get ''structuredContent'' v))
     | Inl (ToolError m) \<Rightarrow> Inl (ReadTool m)
     | Inl _ \<Rightarrow> Inl ReadGone)"

definition call_structured :: "'s caller \<Rightarrow> string \<Rightarrow> json \<Rightarrow> 's \<Rightarrow> (read_failure, json) result \<times> 's" where
  "call_structured call tool args s = (case call tool (opt_default [] (as_object args)) s of (r, s) \<Rightarrow> (read_result r, s))"

text \<open>A failover during the reload counts as done: the leader that follows starts cold.\<close>

definition reload_over_context :: "'s caller \<Rightarrow> 's \<Rightarrow> (read_failure, unit) result \<times> 's" where
  "reload_over_context call s =
    (case call ''reload'' [] s of
       (Inr _, s) \<Rightarrow> (Inr (), s)
     | (Inl (Failover _ _), s) \<Rightarrow> (Inr (), s)
     | (Inl (ToolError m), s) \<Rightarrow> (Inl (ReadTool m), s)
     | (Inl _, s) \<Rightarrow> (Inl ReadGone, s))"

text \<open>Chained reads.\<close>

definition reading ::
  "('s \<Rightarrow> (read_failure, 'a) result \<times> 's) \<Rightarrow> ('a \<Rightarrow> 's \<Rightarrow> (read_failure, 'b) result \<times> 's) \<Rightarrow> 's \<Rightarrow> (read_failure, 'b) result \<times> 's" where
  "reading m f s = (case m s of (Inl e, s) \<Rightarrow> (Inl e, s) | (Inr x, s) \<Rightarrow> f x s)"

section \<open>Loading\<close>

definition context_nodes :: "json \<Rightarrow> json list" where
  "context_nodes view =
    (case Option.bind (json_get ''entries'' view) as_array of
       None \<Rightarrow> []
     | Some entries \<Rightarrow> List.map_filter (json_get ''host'') entries)"

definition context_aggregate :: "json \<Rightarrow> json \<Rightarrow> json \<Rightarrow> json" where
  "context_aggregate mems grps view = json_obj
    [(''schemaVersion'', JNum (PosInt SUPPORTED_SCHEMA_VERSION)), (''members'', mems), (''groups'', grps),
     (''projections'', json_obj [(''deploy'', json_obj [(''nodes'', JArr (context_nodes view))])])]"

text \<open>\<open>accept\<close> is the validation of an aggregate; \<open>cache\<close> is the revision with the cached expectation and its revision.\<close>

definition load_over_context ::
  "'s caller \<Rightarrow> (json \<Rightarrow> (inventory_error, inventory) result) \<Rightarrow> string option \<times> string option \<times> (string, string) bmap \<Rightarrow>
    bool \<Rightarrow> 's \<Rightarrow> (read_failure, loaded_inventory) result \<times> 's" where
  "load_over_context call accept cache fresh =
    reading (if fresh then reload_over_context call else (\<lambda>s. (Inr (), s))) (\<lambda>_.
    reading (call_structured call ''members'' (JObj [(''full'', JBool True)])) (\<lambda>mems.
    reading (call_structured call ''groups'' (JObj [])) (\<lambda>grps.
    reading (call_structured call ''drift'' (JObj [])) (\<lambda>view s.
      case accept (context_aggregate mems grps view) of
        Inl e \<Rightarrow> (Inl (ReadTool (show_inventory_error e)), s)
      | Inr iv \<Rightarrow>
          (case cache of (revision, cached_rev, paths) \<Rightarrow>
            (Inr \<lparr>li_inventory = iv, li_rev = revision, li_cached_rev = cached_rev, li_cached = paths\<rparr>, s))))))"

text \<open>What the explorer is told; \<^const>\<open>None\<close> starts the local evaluator instead.\<close>

definition context_load_answer :: "(read_failure, loaded_inventory) result \<Rightarrow> (string, loaded_inventory) result option" where
  "context_load_answer r =
    (case r of Inr li \<Rightarrow> Some (Inr li) | Inl (ReadTool m) \<Rightarrow> Some (Inl m) | Inl ReadGone \<Rightarrow> None)"

section \<open>Evaluating\<close>

definition read_entry :: "json \<Rightarrow> toplevels \<Rightarrow> toplevels" where
  "read_entry entry t =
    (case Option.bind (json_get ''host'' entry) as_str of
       None \<Rightarrow> t
     | Some host \<Rightarrow>
         let t = (case Option.bind (json_get ''expected'' entry) as_str of
               Some path \<Rightarrow> t\<lparr>tl_paths := bm_insert host path (tl_paths t)\<rparr>
             | None \<Rightarrow> t)
         in (case Option.bind (json_get ''eval_error'' entry) as_str of
               Some err \<Rightarrow> t\<lparr>tl_errors := bm_insert host err (tl_errors t)\<rparr>
             | None \<Rightarrow> t))"

definition read_back :: "json \<Rightarrow> toplevels" where
  "read_back view = fold read_entry (opt_default [] (Option.bind (json_get ''entries'' view) as_array)) toplevels_default"

definition evaluated_view :: "json \<Rightarrow> (string, string option \<times> toplevels) result" where
  "evaluated_view view =
    (case json_get ''eval_error'' view of
       Some err \<Rightarrow>
         Inl (''eval failed: '' @ opt_default ''expected-toplevel eval failed'' (Option.bind (json_get ''error'' err) as_str))
     | None \<Rightarrow> Inr (Option.bind (json_get ''rev'' view) as_str, read_back view))"

definition eval_expected_over_context ::
  "'s caller \<Rightarrow> 's \<Rightarrow> (read_failure, (string, string option \<times> toplevels) result) result \<times> 's" where
  "eval_expected_over_context call =
    reading (call_structured call ''drift'' (JObj [(''do_eval'', JBool True)])) (\<lambda>view s. (Inr (evaluated_view view), s))"

definition context_eval_answer ::
  "(read_failure, (string, string option \<times> toplevels) result) result \<Rightarrow> (string, string option \<times> toplevels) result option" where
  "context_eval_answer r =
    (case r of Inr x \<Rightarrow> Some x | Inl (ReadTool m) \<Rightarrow> Some (Inl (''eval failed: '' @ m)) | Inl ReadGone \<Rightarrow> None)"

section \<open>Calls that the process itself leads\<close>

definition led_call :: "(json \<Rightarrow> string) \<Rightarrow> (call_tool_result \<Rightarrow> json) \<Rightarrow> mcp_env \<Rightarrow> mcp_server caller" where
  "led_call render encode env tool args s =
    (case handler_dispatch render encode env None tool args s of (r, s) \<Rightarrow> (local_attempt r, s))"

text \<open>The wire form of a result carries its structured content.\<close>

definition carries_structure :: "(call_tool_result \<Rightarrow> json) \<Rightarrow> bool" where
  "carries_structure encode \<longleftrightarrow>
    (\<forall>r m. ct_structured r = Some m \<longrightarrow> json_get ''structuredContent'' (encode r) = Some (JObj m))"

section \<open>What the leader answers\<close>

lemma serve_then: "served env s = Some iv \<Longrightarrow> \<exists>t. serve_inventory env s = (Inr iv, t) \<and> ms_inventory t = Some iv"
  by (auto simp: served_def serve_inventory_def split: option.splits sum.splits)

definition answers :: "mcp_env \<Rightarrow> inventory \<Rightarrow> string \<Rightarrow> (string, json) bmap \<Rightarrow> (string \<times> json) list \<Rightarrow> bool" where
  "answers env iv tool args m \<longleftrightarrow>
    (\<forall>s. served env s = Some iv \<longrightarrow> (\<exists>t. dispatch env tool args s = (Inr (JObj m), t) \<and> ms_inventory t = Some iv))"

lemma served_inventory: "ms_inventory s = Some iv \<Longrightarrow> served env s = Some iv"
  by (simp add: served_def)

lemma led_structured:
  assumes "carries_structure encode" and "answers env iv tool args m" and "served env s = Some iv"
  shows "\<exists>t. call_structured (led_call render encode env) tool (JObj args) s = (Inr (JObj m), t) \<and> served env t = Some iv"
proof -
  define s0 where "s0 = emit_activity env (with_origin None (call_event tool args ''start'' JNull (ms_seq s) [])) (s\<lparr>ms_seq := ms_seq s + 1\<rparr>)"
  have "served env s0 = Some iv" using assms(3) by (simp add: s0_def served_def)
  then obtain t where t: "dispatch env tool args s0 = (Inr (JObj m), t)" "ms_inventory t = Some iv"
    using assms(2) unfolding answers_def by blast
  have "json_get ''structuredContent'' (encode (to_call_result render (JObj m))) = Some (JObj m)"
    using assms(1) by (simp add: carries_structure_def to_call_result_def)
  then show ?thesis using t
    by (simp add: call_structured_def led_call_def handler_dispatch_def call_tool_from_def s0_def [symmetric] local_attempt_def
        read_result_def Let_def served_def)
qed

lemma answers_members:
  "answers env iv ''members'' [(''full'', JBool True)] (map (\<lambda>(name, m). (name, member_json m)) (members iv))"
  unfolding answers_def
  by (auto simp: dispatch_def TOOLS_def parse_members_def opt_arg_def tool_members_def with_inventory_def dest!: serve_then)

lemma answers_groups: "answers env iv ''groups'' [] (map (\<lambda>(name, ms). (name, json_strs ms)) (groups iv))"
  unfolding answers_def
  by (auto simp: dispatch_def TOOLS_def parse_groups_def opt_arg_def tool_groups_def with_inventory_def opt_filter_def
      dest!: serve_then)

definition tool_entries :: "mcp_env \<Rightarrow> inventory \<Rightarrow> toplevels option \<Rightarrow> drift_entry list" where
  "tool_entries env iv expected =
    drift_compare (me_iso env) (deploy_nodes iv) (me_snapshots env) expected (Some default_max_age) (me_now env)"

lemma drift_report_obj:
  "\<exists>m. drift_report env (deploy_nodes iv) None (expected, j) = JObj m \<and>
    map_of m ''entries'' = Some (JArr (map drift_entry_json (tool_entries env iv expected))) \<and>
    map_of m ''rev'' = Some (json_opt JStr (me_rev env)) \<and> map_of m ''eval_error'' = json_get ''eval_error'' j"
proof -
  obtain m where m: "drift_report env (deploy_nodes iv) None (expected, j) = JObj m"
    using set_field_obj by (fastforce simp: drift_report_def Let_def)
  have "json_get ''entries'' (JObj m) = Some (JArr (map drift_entry_json (tool_entries env iv expected)))"
    "json_get ''rev'' (JObj m) = Some (json_opt JStr (me_rev env))" "json_get ''eval_error'' (JObj m) = json_get ''eval_error'' j"
    unfolding m [symmetric] by (simp_all add: drift_report_def Let_def shown_entries_def tool_entries_def json_get_set_field)
  then show ?thesis using m by simp
qed

text \<open>A plain \<open>drift\<close> call is judged by the cached expectation while it is fresh.\<close>

definition cached_expectation :: "mcp_env \<Rightarrow> toplevels option" where
  "cached_expectation env =
    (if cache_fresh (fst (me_cached env)) (me_rev env) then Some (toplevels_from (snd (me_cached env))) else None)"

lemma answers_drift:
  "\<exists>m. answers env iv ''drift'' [] m \<and>
    map_of m ''entries'' = Some (JArr (map drift_entry_json (tool_entries env iv (cached_expectation env))))"
proof -
  define j where "j = (if cache_fresh (fst (me_cached env)) (me_rev env)
    then set_field ''expected_source'' (JStr ''cache'') (json_obj [(''ok'', JBool True), (''refreshed'', JBool False), (''expected_source'', JStr ''none'')])
    else json_obj [(''ok'', JBool True), (''refreshed'', JBool False), (''expected_source'', JStr ''none'')])"
  obtain m where m: "drift_report env (deploy_nodes iv) None (cached_expectation env, j) = JObj m"
    "map_of m ''entries'' = Some (JArr (map drift_entry_json (tool_entries env iv (cached_expectation env))))"
    using drift_report_obj [of env iv "cached_expectation env" j] by blast
  have "answers env iv ''drift'' [] m"
    unfolding answers_def
    using m(1)
    by (auto simp: dispatch_def TOOLS_def parse_drift_def opt_arg_def tool_drift_def with_inventory_def Let_def drift_refresh_def
        drift_expected_def cached_expectation_def j_def dest!: serve_then split: if_splits)
  then show ?thesis using m(2) by blast
qed

lemma entry_fields [simp]:
  "json_get ''host'' (drift_entry_json e) = Some (JStr (de_host e))"
  "json_get ''expected'' (drift_entry_json e) = Some (json_opt JStr (de_expected e))"
  "json_get ''eval_error'' (drift_entry_json e) = map_option JStr (de_eval_error e)"
  by (simp_all add: drift_entry_json_def Let_def json_get_set_field bm_of_list_def split: option.split)

lemma context_nodes_entries:
  "map_of m ''entries'' = Some (JArr (map drift_entry_json es)) \<Longrightarrow> context_nodes (JObj m) = map (\<lambda>e. JStr (de_host e)) es"
  by (simp add: context_nodes_def List.map_filter_def comp_def)

section \<open>The aggregate that is put together again\<close>

lemma all_some_total: "all_some (map (\<lambda>x. (fst x, Some (snd x))) xs) = Some xs"
  by (induction xs) auto

definition rebuilt :: "inventory \<Rightarrow> string list \<Rightarrow> inventory" where
  "rebuilt iv nodes = \<lparr>iv_aggregate = \<lparr>ag_schema_version = JNum (PosInt SUPPORTED_SCHEMA_VERSION), ag_members = members iv,
      ag_groups = groups iv, ag_extra = [(''projections'', json_obj [(''deploy'', json_obj [(''nodes'', JArr (map JStr nodes))])])]\<rparr>,
    iv_controller_platform = None\<rparr>"

lemma try_all_intro: "\<forall>x\<in>set xs. f x = Inr () \<Longrightarrow> try_all f xs = Inr ()"
  by (induction xs) auto

lemma rebuilt_checks:
  assumes "inventory_ok iv"
  shows "try_all check_member (members iv) = Inr ()" and "try_all (check_group (members iv)) (groups iv) = Inr ()"
proof -
  note ok = assms [unfolded inventory_ok_def]
  have "check_member (k, m) = Inr ()" if "(k, m) \<in> set (members iv)" for k m
    using that ok by (auto simp: check_member_def map_of_Some_in_wf bm_keys_def split: option.splits)
  then show "try_all check_member (members iv) = Inr ()" by (intro try_all_intro) auto
  have grp: "check_group_members (members iv) g xs = Inr ()" if "set xs \<subseteq> set (bm_keys (members iv))" for g xs
    using that by (induction xs) (auto simp: bm_contains_def bm_keys_def map_of_eq_None_iff)
  have "check_group (members iv) (k, m) = Inr ()" if "(k, m) \<in> set (groups iv)" for k m
    using that ok grp by (auto simp: check_group_def map_of_Some_in_wf)
  then show "try_all (check_group (members iv)) (groups iv) = Inr ()" by (intro try_all_intro) auto
qed

lemma context_aggregate_accepted:
  assumes "inventory_ok iv" and "context_nodes view = map JStr nodes"
  shows "from_value_for_controller render serde_err
    (context_aggregate (JObj (map (\<lambda>(name, m). (name, member_json m)) (members iv)))
      (JObj (map (\<lambda>(name, ms). (name, json_strs ms)) (groups iv))) view) os = Inr (rebuilt iv nodes)"
proof -
  let ?v = "context_aggregate (JObj (map (\<lambda>(name, m). (name, member_json m)) (members iv)))
      (JObj (map (\<lambda>(name, ms). (name, json_strs ms)) (groups iv))) view"
  have m: "all_some (map ((\<lambda>(k, x). (k, as_object x)) \<circ> (\<lambda>(name, m). (name, member_json m))) (members iv)) = Some (members iv)"
    using all_some_total [of "members iv"] by (simp add: comp_def split_beta member_json_def)
  have g: "all_some (map ((\<lambda>(k, x). (k, Option.bind (as_array x) strings_of)) \<circ> (\<lambda>(name, ms). (name, json_strs ms))) (groups iv)) =
      Some (groups iv)"
    using all_some_total [of "groups iv"] by (simp add: comp_def split_beta json_strs_def strings_of_strs)
  have "aggregate_of_json ?v = Some (iv_aggregate (rebuilt iv nodes))"
    using assms(1) by (simp add: aggregate_of_json_def context_aggregate_def json_obj_def bm_of_list_def [of "_ # _"] m g rebuilt_def
        assms(2) bm_of_list_id inventory_ok_def)
  then show ?thesis
    using rebuilt_checks [OF assms(1)]
    by (simp add: from_value_for_controller_def context_aggregate_def bm_of_list_def [of "_ # _"] rebuilt_def select_controller_def
        projection_of_def SUPPORTED_SCHEMA_VERSION_def)
qed

text \<open>Selectors read only the members and the groups.\<close>

lemma same_limit:
  assumes "members a = members b" and "groups a = groups b"
  shows "to_limit a sel = to_limit b sel"
proof -
  have "resolve_part a = resolve_part b" by (intro ext) (simp add: resolve_part_def assms cong: option.case_cong)
  then have "resolve_parts a ps st = resolve_parts b ps st" for ps st
    by (induction a ps st rule: resolve_parts.induct) (auto split: option.split sum.split)
  then show ?thesis by (simp only: to_limit_def resolve_def assms(1))
qed

lemma rebuilt_reads:
  "members (rebuilt iv nodes) = members iv" "groups (rebuilt iv nodes) = groups iv" "deploy_nodes (rebuilt iv nodes) = nodes"
  by (simp_all add: rebuilt_def members_def groups_def deploy_nodes_def projections_def bm_of_list_def List.map_filter_def comp_def)

definition next_inventory :: "mcp_env \<Rightarrow> bool \<Rightarrow> mcp_server \<Rightarrow> inventory option" where
  "next_inventory env fresh s =
    (if fresh then (if ms_reloadable s then (case me_fresh env of Inr iv \<Rightarrow> Some iv | Inl _ \<Rightarrow> None) else None) else served env s)"

lemma led_reload:
  assumes "next_inventory env True s = Some iv"
  shows "\<exists>t. reload_over_context (led_call render encode env) s = (Inr (), t) \<and> served env t = Some iv"
proof -
  define s0 where "s0 = emit_activity env (with_origin None (call_event ''reload'' [] ''start'' JNull (ms_seq s) [])) (s\<lparr>ms_seq := ms_seq s + 1\<rparr>)"
  have "ms_reloadable s0 \<and> me_fresh env = Inr iv"
    using assms by (simp add: next_inventory_def s0_def emit_activity_def Let_def split: if_splits sum.splits option.split)
  then obtain v t where "dispatch env ''reload'' [] s0 = (Inr v, t) \<and> ms_inventory t = Some iv"
    by (simp add: dispatch_def TOOLS_def tool_reload_def)
  then show ?thesis
    by (simp add: reload_over_context_def led_call_def handler_dispatch_def call_tool_from_def s0_def [symmetric] local_attempt_def
        Let_def served_def)
qed

lemma start_of_load:
  assumes "next_inventory env fresh s = Some iv"
  shows "\<exists>t. (if fresh then reload_over_context (led_call render encode env) else (\<lambda>s. (Inr (), s))) s = (Inr (), t) \<and> served env t = Some iv"
  using assms led_reload [of env s iv] by (cases fresh) (simp_all add: next_inventory_def [of env False])

lemma led_load:
  assumes e: "carries_structure encode" and iv: "next_inventory env fresh s = Some iv" "inventory_ok iv"
  shows "fst (load_over_context (led_call render encode env) (\<lambda>v. from_value_for_controller render' serde_err v os) cache fresh s) =
    Inr \<lparr>li_inventory = rebuilt iv (sort (deploy_nodes iv)), li_rev = fst cache, li_cached_rev = fst (snd cache),
      li_cached = snd (snd cache)\<rparr>"
proof -
  let ?call = "led_call render encode env"
  obtain m where m: "answers env iv ''drift'' [] m"
    "map_of m ''entries'' = Some (JArr (map drift_entry_json (tool_entries env iv (cached_expectation env))))"
    using answers_drift by blast
  obtain a where a: "(if fresh then reload_over_context ?call else (\<lambda>s. (Inr (), s))) s = (Inr (), a)" "served env a = Some iv"
    using start_of_load [OF iv(1)] by blast
  obtain b where b: "call_structured ?call ''members'' (JObj [(''full'', JBool True)]) a =
      (Inr (JObj (map (\<lambda>(name, m). (name, member_json m)) (members iv))), b)" "served env b = Some iv"
    using led_structured [OF e answers_members a(2)] by blast
  obtain c where c: "call_structured ?call ''groups'' (JObj []) b =
      (Inr (JObj (map (\<lambda>(name, ms). (name, json_strs ms)) (groups iv))), c)" "served env c = Some iv"
    using led_structured [OF e answers_groups b(2)] by blast
  obtain d where d: "call_structured ?call ''drift'' (JObj []) c = (Inr (JObj m), d)"
    using led_structured [OF e m(1) c(2)] by blast
  have "context_nodes (JObj m) = map JStr (sort (deploy_nodes iv))"
    using context_nodes_entries [OF m(2)]
      arg_cong [OF compare_hosts [of "me_iso env" "deploy_nodes iv" "me_snapshots env" "cached_expectation env" "Some default_max_age"
          "me_now env"], of "map JStr"]
    by (simp add: tool_entries_def comp_def)
  then show ?thesis
    by (simp add: load_over_context_def reading_def a(1) b(1) c(1) d context_aggregate_accepted [OF iv(2)] split_beta)
qed

section \<open>The expectation that is read back\<close>

lemma read_back_maps:
  assumes "\<And>h. de_host (f h) = h"
  shows "map_of (tl_paths (fold read_entry (map (\<lambda>h. drift_entry_json (f h)) hs) t)) h =
      (if h \<in> set hs \<and> de_expected (f h) \<noteq> None then de_expected (f h) else map_of (tl_paths t) h) \<and>
    map_of (tl_errors (fold read_entry (map (\<lambda>h. drift_entry_json (f h)) hs) t)) h =
      (if h \<in> set hs \<and> de_eval_error (f h) \<noteq> None then de_eval_error (f h) else map_of (tl_errors t) h)"
proof (induction hs arbitrary: t)
  case (Cons x xs)
  define u where "u = read_entry (drift_entry_json (f x)) t"
  have u: "map_of (tl_paths u) h = (if h = x \<and> de_expected (f x) \<noteq> None then de_expected (f x) else map_of (tl_paths t) h)"
    "map_of (tl_errors u) h = (if h = x \<and> de_eval_error (f x) \<noteq> None then de_eval_error (f x) else map_of (tl_errors t) h)"
    by (auto simp: u_def read_entry_def Let_def assms json_opt_def split: option.split)
  show ?case using Cons.IH [of u] u by (auto simp: u_def [symmetric])
qed simp

definition surveyed_only :: "(string, Drift.snapshot) bmap \<Rightarrow> toplevels \<Rightarrow> string list \<Rightarrow> toplevels \<Rightarrow> bool" where
  "surveyed_only snaps t hosts t' \<longleftrightarrow>
    (\<forall>h\<in>set hosts. map_of (tl_errors t') h = map_of (tl_errors t) h \<and>
      map_of (tl_paths t') h = (if map_of snaps h = None then None else map_of (tl_paths t) h))"

lemma surveyed_same_drift:
  assumes "surveyed_only snaps t hosts t'"
  shows "drift_compare parse_iso hosts snaps (Some t') max_age now = drift_compare parse_iso hosts snaps (Some t) max_age now"
  using assms by (auto simp: drift_compare_def surveyed_only_def compare_host_def Let_def split: option.split)

lemma read_back_surveyed:
  assumes "map_of m ''entries'' = Some (JArr (map drift_entry_json (tool_entries env iv (Some t))))"
  shows "surveyed_only (me_snapshots env) t (deploy_nodes iv) (read_back (JObj m))"
proof -
  let ?f = "compare_host (me_iso env) (me_snapshots env) t (Some default_max_age) (me_now env)"
  have "read_back (JObj m) = fold read_entry (map (\<lambda>h. drift_entry_json (?f h)) (sort (deploy_nodes iv))) toplevels_default"
    using assms by (simp add: read_back_def tool_entries_def drift_compare_def comp_def)
  moreover have "de_host (?f h) = h" for h by (simp add: compare_host_def Let_def split: option.split)
  ultimately show ?thesis
    using read_back_maps [of ?f "sort (deploy_nodes iv)" toplevels_default]
    by (simp add: surveyed_only_def toplevels_default_def) (simp add: compare_host_def Let_def split: option.split)
qed

lemma led_eval:
  assumes e: "carries_structure encode" and s: "served env s = Some iv" and t: "me_eval env (deploy_nodes iv) = Inr t"
  shows "\<exists>t'. context_eval_answer (fst (eval_expected_over_context (led_call render encode env) s)) = Some (Inr (me_rev env, t')) \<and>
    surveyed_only (me_snapshots env) t (deploy_nodes iv) t'"
proof -
  let ?j = "json_obj [(''ok'', JBool True), (''refreshed'', JBool False), (''expected_source'', JStr ''none'')]"
  define j where "j = set_field ''expected_source'' (JStr ''eval'')
    (if is_complete t then ?j else set_field ''eval_failed'' (json_strs (bm_keys (tl_errors t))) (set_field ''ok'' (JBool False) ?j))"
  have no_error: "json_get ''eval_error'' j = None"
    by (simp add: j_def json_get_set_field bm_of_list_def)
  obtain m where m: "drift_report env (deploy_nodes iv) None (Some t, j) = JObj m"
    "map_of m ''entries'' = Some (JArr (map drift_entry_json (tool_entries env iv (Some t))))"
    "map_of m ''rev'' = Some (json_opt JStr (me_rev env))" "map_of m ''eval_error'' = None"
    using drift_report_obj [of env iv "Some t" j] no_error by auto
  have "answers env iv ''drift'' [(''do_eval'', JBool True)] m"
    unfolding answers_def
    using m(1)
    by (auto simp: dispatch_def TOOLS_def parse_drift_def opt_arg_def tool_drift_def with_inventory_def Let_def drift_refresh_def
        drift_expected_def j_def t perform_def dest!: serve_then split: if_splits)
  then obtain u where "call_structured (led_call render encode env) ''drift'' (JObj [(''do_eval'', JBool True)]) s = (Inr (JObj m), u)"
    using led_structured [OF e _ s] by blast
  moreover have "evaluated_view (JObj m) = Inr (me_rev env, read_back (JObj m))"
    using m(3,4) by (cases "me_rev env") (simp_all add: evaluated_view_def json_opt_def)
  ultimately show ?thesis
    using read_back_surveyed [OF m(2)]
    by (auto simp: eval_expected_over_context_def reading_def context_eval_answer_def)
qed

text \<open>What a host had to run is not read back while the host has no snapshot: with a snapshot that arrives later, the
  expectation is unknown.\<close>

lemma unsurveyed_expectation_is_lost:
  assumes "surveyed_only snaps t hosts t'" and "h \<in> set hosts" and "map_of snaps h = None" and "map_of later h = Some snap"
    and "map_of (tl_paths t) h = Some path"
  shows "de_expected (compare_host parse_iso later t' max_age now h) = None \<and>
    de_expected (compare_host parse_iso later t max_age now h) = Some path"
  using assms by (simp add: surveyed_only_def compare_host_def Let_def)

section \<open>Properties\<close>

text \<open>C12: What the explorer loads through a context that its own process leads is the leader's inventory, freshly reloaded
  when it asked for that: members and groups are the same, its deploy nodes are the leader's, and every selector expands to
  the same limit.\<close>

theorem context_load_is_faithful:
  assumes "carries_structure encode" and "next_inventory env fresh s = Some iv" and "inventory_ok iv"
  shows "\<exists>li. context_load_answer (fst (load_over_context (led_call render encode env)
      (\<lambda>v. from_value_for_controller render' serde_err v os) cache fresh s)) = Some (Inr li) \<and>
    members (li_inventory li) = members iv \<and> groups (li_inventory li) = groups iv \<and>
    deploy_nodes (li_inventory li) = sort (deploy_nodes iv) \<and> to_limit (li_inventory li) = to_limit iv"
proof -
  have "to_limit (rebuilt iv nodes) = to_limit iv" for nodes
    by (intro ext same_limit) (simp_all add: rebuilt_reads)
  then show ?thesis using led_load [OF assms] by (simp add: context_load_answer_def rebuilt_reads)
qed

text \<open>C30: An evaluation that is read back off the entries of the drift tool shows the drift of the evaluation itself:
  judged by the same snapshots, at any time, every row is the same.\<close>

theorem context_eval_shows_same_drift:
  assumes "carries_structure encode" and "served env s = Some iv" and "me_eval env (deploy_nodes iv) = Inr t"
  shows "\<exists>t'. context_eval_answer (fst (eval_expected_over_context (led_call render encode env) s)) = Some (Inr (me_rev env, t')) \<and>
    drift_compare parse_iso (deploy_nodes iv) (me_snapshots env) (Some t') max_age now =
    drift_compare parse_iso (deploy_nodes iv) (me_snapshots env) (Some t) max_age now"
  using led_eval [OF assms] surveyed_same_drift by blast

definition sample_encode :: "call_tool_result \<Rightarrow> json" where
  "sample_encode r = JObj [(''content'', JStr (ct_text r)),
    (''structuredContent'', case ct_structured r of None \<Rightarrow> JNull | Some m \<Rightarrow> JObj m)]"

lemma sample_encode_structure: "carries_structure sample_encode"
  by (auto simp: carries_structure_def sample_encode_def)

theorem context_load_is_faithful_witness:
  "\<exists>li. context_load_answer (fst (load_over_context (led_call (\<lambda>_. []) sample_encode sample_calls_env)
      (\<lambda>v. from_value_for_controller (\<lambda>_. []) (\<lambda>_. []) v ''linux'') (None, None, []) True sample_server)) = Some (Inr li) \<and>
    to_limit (li_inventory li) ''@edge'' = Inr ''web''"
proof -
  have "next_inventory sample_calls_env True sample_server = Some sample_inventory"
    by (simp add: next_inventory_def sample_server_def mcp_server_new_def sample_calls_env_def)
  then show ?thesis
    using context_load_is_faithful [OF sample_encode_structure, of sample_calls_env True sample_server sample_inventory
        "\<lambda>_. []" "\<lambda>_. []" "\<lambda>_. []" "''linux''" "(None, None, [])"]
      sample_inventory_ok sample_edge by auto
qed

definition sample_deploying :: inventory where
  "sample_deploying = rebuilt sample_inventory [''web'']"

definition sample_surveyed_env :: mcp_env where
  "sample_surveyed_env = sample_calls_env\<lparr>me_snapshots := [(''web'', sample_snapshot ''new'')],
    me_eval := \<lambda>_. Inr (toplevels_from [(''web'', ''newer'')])\<rparr>"

theorem context_eval_shows_same_drift_witness:
  "\<exists>t'. context_eval_answer (fst (eval_expected_over_context (led_call (\<lambda>_. []) sample_encode sample_surveyed_env)
      (sample_server\<lparr>ms_inventory := Some sample_deploying\<rparr>))) = Some (Inr (None, t')) \<and>
    map de_status (drift_compare (\<lambda>_. None) [''web''] [(''web'', sample_snapshot ''new'')] (Some t') None 0) = [DriftMoved]"
proof -
  have nodes: "deploy_nodes sample_deploying = [''web'']" by (simp add: sample_deploying_def rebuilt_reads)
  have "map de_status (drift_compare (\<lambda>_. None) [''web''] [(''web'', sample_snapshot ''new'')]
      (Some (toplevels_from [(''web'', ''newer'')])) None 0) = [DriftMoved]"
    by (simp add: drift_compare_def compare_host_def Let_def toplevels_from_def sample_snapshot_def too_old_def opt_filter_def
        json_truthy_def judge_def)
  then show ?thesis
    using context_eval_shows_same_drift [OF sample_encode_structure, of sample_surveyed_env
        "sample_server\<lparr>ms_inventory := Some sample_deploying\<rparr>" sample_deploying "toplevels_from [(''web'', ''newer'')]"
        "\<lambda>_. []" "\<lambda>_. None" None 0]
    by (simp add: served_def nodes sample_surveyed_env_def) (simp add: sample_calls_env_def, metis)
qed

end
