(* ===== verification/Cli.thy ===== *)
theory Cli
  imports McpServer Explorer DeployPlan
begin

text \<open>The command line after its arguments have been parsed (\<^verbatim>\<open>mandala-core/src/cli.rs\<close>, \<^verbatim>\<open>engines/ansible.rs\<close> and the
  listing commands of \<^verbatim>\<open>engines/deploy.rs\<close>): what each command prints, and its exit code. The table helpers
  \<^const>\<open>field_or\<close>, \<^const>\<open>role_or_dash\<close> and \<^const>\<open>join_tags\<close> have the same text in \<^verbatim>\<open>cli.rs\<close> as in \<^verbatim>\<open>state.rs\<close>.\<close>

section \<open>Reports\<close>

text \<open>The lines on the two output streams, the exit code, and what was written to the expectation cache.\<close>

record report =
  rp_exit :: nat
  rp_out :: "string list"
  rp_err :: "string list"
  rp_saved :: "(string option \<times> (string, string) bmap) option"

definition printed :: "string list \<Rightarrow> report" where
  "printed ls = \<lparr>rp_exit = 0, rp_out = ls, rp_err = [], rp_saved = None\<rparr>"

definition refused :: "string list \<Rightarrow> report" where
  "refused ls = \<lparr>rp_exit = 1, rp_out = [], rp_err = ls, rp_saved = None\<rparr>"

text \<open>The pretty printer of the JSON library, on standard output and for the cache, is \<open>pretty\<close>.\<close>

section \<open>Loading the inventory\<close>

definition inventory_from_evaluator ::
  "eval_env \<Rightarrow> (json \<Rightarrow> (inventory_error, inventory) result) \<Rightarrow> string \<Rightarrow> eval_state \<Rightarrow>
    ((inventory_error, inventory) result \<times> eval_state) option" where
  "inventory_from_evaluator env accept flake st =
    map_option (\<lambda>(r, st). (case r of Inl e \<Rightarrow> Inl (EvalFailed e) | Inr v \<Rightarrow> accept v, st)) (eval_aggregate env flake st)"

text \<open>What loading meets: the aggregate named by the environment, its file and its parse, and validation.\<close>

record load_env =
  ld_aggregate :: "string option"
  ld_read :: "string \<Rightarrow> (string, string) result"
  ld_parse :: "string \<Rightarrow> (string, json) result"
  ld_accept :: "json \<Rightarrow> (inventory_error, inventory) result"

definition load_file :: "load_env \<Rightarrow> string \<Rightarrow> (string, json) result" where
  "load_file ld path =
    (case ld_read ld path of
       Inl e \<Rightarrow> Inl (''reading MANDALA_AGGREGATE_FILE '' @ path @ '': '' @ e)
     | Inr text \<Rightarrow>
         (case ld_parse ld text of
            Inl e \<Rightarrow> Inl (''parsing '' @ path @ '': '' @ e)
          | Inr v \<Rightarrow> Inr v))"

definition shown_error :: "(inventory_error, inventory) result \<Rightarrow> (string, inventory) result" where
  "shown_error r = (case r of Inl e \<Rightarrow> Inl (show_inventory_error e) | Inr iv \<Rightarrow> Inr iv)"

text \<open>\<^const>\<open>None\<close> is an evaluation that never returns.\<close>

definition load_inventory_with ::
  "load_env \<Rightarrow> eval_env \<Rightarrow> string \<Rightarrow> eval_state \<Rightarrow> ((string, inventory) result \<times> eval_state) option" where
  "load_inventory_with ld env flake st =
    (case opt_filter (\<lambda>p. p \<noteq> []) (ld_aggregate ld) of
       Some path \<Rightarrow>
         Some (case load_file ld path of Inl e \<Rightarrow> Inl e | Inr v \<Rightarrow> shown_error (ld_accept ld v), st)
     | None \<Rightarrow> map_option (\<lambda>(r, st). (shown_error r, st)) (inventory_from_evaluator env (ld_accept ld) flake st))"

text \<open>The loading of the tool server (\<^verbatim>\<open>effects.rs\<close>) replaces the evaluation process first.\<close>

definition fresh_inventory ::
  "load_env \<Rightarrow> eval_env \<Rightarrow> string \<Rightarrow> eval_state \<Rightarrow> ((inventory_error, inventory) result \<times> eval_state) option" where
  "fresh_inventory ld env flake st =
    (case opt_filter (\<lambda>p. p \<noteq> []) (ld_aggregate ld) of
       Some path \<Rightarrow> Some (case load_file ld path of Inl e \<Rightarrow> Inl (EvalFailed e) | Inr v \<Rightarrow> ld_accept ld v, st)
     | None \<Rightarrow> inventory_from_evaluator env (ld_accept ld) flake (eval_reload st))"

section \<open>Tables\<close>

definition char_count :: "string \<Rightarrow> nat" where
  "char_count s = length (utf8_chars s)"

definition column_widths :: "string list \<Rightarrow> string list list \<Rightarrow> nat list" where
  "column_widths headers rows =
    fold (\<lambda>row ws. map (\<lambda>i. if i < length row then max (ws ! i) (char_count (row ! i)) else ws ! i) [0..<length ws])
      rows (map char_count headers)"

definition padded :: "nat list \<Rightarrow> nat \<Rightarrow> string \<Rightarrow> string" where
  "padded ws i c = c @ replicate (opt_default 0 (list_get i ws) - char_count c) (CHR '' '')"

definition render_row :: "nat list \<Rightarrow> string list \<Rightarrow> string" where
  "render_row ws cells = join ''  '' (map (\<lambda>i. padded ws i (cells ! i)) [0..<length cells])"

definition table_lines :: "string list \<Rightarrow> string list list \<Rightarrow> string \<Rightarrow> string list" where
  "table_lines headers rows caption =
    (let ws = column_widths headers rows
     in map (\<lambda>cells. trim_end (render_row ws cells)) (headers # rows) @ [caption])"

definition cli_short_store :: "string option \<Rightarrow> string" where
  "cli_short_store p = (let p = opt_default ''-'' p in take_chars 20 (opt_default p (strip_prefix ''/nix/store/'' p)))"

section \<open>Views of the inventory\<close>

definition members_json :: "inventory \<Rightarrow> json" where
  "members_json iv = JObj (map (\<lambda>(name, m). (name, member_json m)) (members iv))"

definition groups_json :: "inventory \<Rightarrow> json" where
  "groups_json iv = JObj (map (\<lambda>(name, ms). (name, json_strs ms)) (groups iv))"

definition run_members :: "(json \<Rightarrow> string) \<Rightarrow> inventory \<Rightarrow> bool \<Rightarrow> report" where
  "run_members pretty iv as_json =
    (if as_json then printed [pretty (members_json iv)]
     else
       let rows = map (\<lambda>(name, m). [name, field_or (map_of m ''platform'') ''?'', field_or (map_of m ''architecture'') ''?'',
             field_or (map_of m ''category'') ''?'', role_or_dash (map_of m ''role''), join_tags (map_of m ''tags''), surfaces m])
           (members iv)
       in printed (table_lines [''member'', ''platform'', ''arch'', ''category'', ''role'', ''tags'', ''ads''] rows
            (show_nat (length rows) @ '' members '' @ EM_DASH @ '' ads = ansible/deploy-rs/sops'')))"

definition run_groups :: "(json \<Rightarrow> string) \<Rightarrow> inventory \<Rightarrow> bool \<Rightarrow> report" where
  "run_groups pretty iv as_json =
    (if as_json then printed [pretty (groups_json iv)]
     else
       let rows = map (\<lambda>(grp, names). [grp, show_nat (length names), join '' '' (sort names)]) (groups iv)
       in printed (table_lines [''group'', ''n'', ''members''] rows
            (show_nat (length rows) @ '' groups '' @ EM_DASH @ '' one spelling: @group, ansible -l, deployBatch'')))"

definition run_resolve :: "inventory \<Rightarrow> string option \<Rightarrow> report" where
  "run_resolve iv selector =
    (case resolve iv (opt_default [] selector) of
       Inr names \<Rightarrow> printed names
     | Inl e \<Rightarrow> refused [''mandala: '' @ show_inventory_error e])"

definition run_ansible :: "(json \<Rightarrow> string) \<Rightarrow> inventory \<Rightarrow> bool \<Rightarrow> report" where
  "run_ansible pretty iv inventory_command =
    (if \<not> inventory_command then \<lparr>rp_exit = 2, rp_out = [], rp_err = [], rp_saved = None\<rparr>
     else
       case ansible_inventory iv of
         Some projected \<Rightarrow> printed [pretty projected]
       | None \<Rightarrow> refused [''no ansibleInventory projection in the aggregate (import the ansible flakeModule)''])"

text \<open>\<open>spawn\<close> runs a command and gives its exit code, if it has one.\<close>

definition spawn_status :: "(string list \<Rightarrow> (string, int option) result) \<Rightarrow> string list \<Rightarrow> report" where
  "spawn_status spawn argv =
    (case spawn argv of
       Inr code \<Rightarrow> \<lparr>rp_exit = exit_byte code, rp_out = [], rp_err = [], rp_saved = None\<rparr>
     | Inl e \<Rightarrow> refused [''mandala: failed to run '' @ str_debug (hd argv) @ '': '' @ e])"

definition deploy_batch :: "(string list \<Rightarrow> (string, int option) result) \<Rightarrow> inventory \<Rightarrow> string \<Rightarrow> string option \<Rightarrow> report" where
  "deploy_batch spawn iv flake grp =
    (case batch_argv iv flake (opt_default [] grp) of
       Inl e \<Rightarrow> refused [''mandala: '' @ show_inventory_error e]
     | Inr argv \<Rightarrow> spawn_status spawn argv)"

definition deploy_nodes_command :: "inventory \<Rightarrow> report" where
  "deploy_nodes_command iv = printed (sort (deploy_nodes iv))"

section \<open>The drift command\<close>

record drift_world =
  dw_survey :: "(string, int) result"
  dw_rev :: "string option"
  dw_cached :: "string option \<times> (string, string) bmap"
  dw_eval :: "string list \<Rightarrow> (string, toplevels) result"
  dw_snapshots :: "(string, Drift.snapshot) bmap"
  dw_iso :: "string \<Rightarrow> int option"
  dw_now :: int

definition survey_notice :: "(string, int) result \<Rightarrow> string list" where
  "survey_notice r =
    (case r of
       Inr rc \<Rightarrow> if rc \<noteq> 0 then [''state survey exited '' @ show_int rc @ '' (continuing with whatever was captured)''] else []
     | Inl e \<Rightarrow> [''state survey failed to start: '' @ e])"

text \<open>The expectation to judge by, and what is written to the cache; an evaluation that fails as a whole ends the command.\<close>

definition expected_of ::
  "drift_world \<Rightarrow> bool \<Rightarrow> string list \<Rightarrow>
    (string, toplevels option \<times> (string option \<times> (string, string) bmap) option) result" where
  "expected_of w do_eval nodes =
    (if do_eval then
       case dw_eval w nodes of
         Inl e \<Rightarrow> Inl e
       | Inr t \<Rightarrow> Inr (Some t, if is_complete t then Some (dw_rev w, tl_paths t) else None)
     else if cache_fresh (fst (dw_cached w)) (dw_rev w) then Inr (Some (toplevels_from (snd (dw_cached w))), None)
     else Inr (None, None))"

definition eval_failure_lines :: "toplevels \<Rightarrow> string list" where
  "eval_failure_lines t =
    (''expected-toplevel eval failed for '' @ show_nat (length (tl_errors t)) @ '' host(s):'') #
    map (\<lambda>(host, e). ''  '' @ host @ '': '' @ trim (opt_default [] (list_last (str_lines e)))) (tl_errors t)"

definition drift_caption :: "bool \<Rightarrow> bool \<Rightarrow> string option \<Rightarrow> string option \<Rightarrow> string" where
  "drift_caption expected_known do_eval revision cached_rev =
    (if expected_known then
       let base = ''expected @ '' @ short_rev revision in if do_eval then base else base @ '' (cached)''
     else if cached_rev \<noteq> None then
       ''expected cache stale: evaluated @ '' @ short_rev cached_rev @ '', repo now @ '' @ short_rev revision @ '' '' @ EM_DASH @
       '' the contract moved; pass --eval''
     else ''expected not evaluated '' @ EM_DASH @ '' pass --eval for real drift judgement'')"

definition drift_cells :: "drift_entry \<Rightarrow> string list" where
  "drift_cells e = [de_host e, drift_status_str (de_status e), cli_short_store (de_current e), cli_short_store (de_expected e),
    cli_short_store (de_booted e), (case de_captured_at e of None \<Rightarrow> ''-'' | Some c \<Rightarrow> take_chars 19 c)]"

definition run_drift :: "(json \<Rightarrow> string) \<Rightarrow> drift_world \<Rightarrow> inventory \<Rightarrow> bool \<Rightarrow> bool \<Rightarrow> bool \<Rightarrow> report" where
  "run_drift pretty w iv do_eval refresh as_json =
    (let nodes = deploy_nodes iv; notices = (if refresh then survey_notice (dw_survey w) else [])
     in case expected_of w do_eval nodes of
          Inl e \<Rightarrow>
            \<lparr>rp_exit = 1, rp_out = [],
              rp_err = notices @ [''expected-toplevel eval failed:''] @ map (\<lambda>l. ''  '' @ l) (last_n 8 (str_lines e)),
              rp_saved = None\<rparr>
        | Inr (expected, saved) \<Rightarrow>
            let entries = drift_compare (dw_iso w) nodes (dw_snapshots w) expected (Some default_max_age) (dw_now w);
                failures = (case expected of
                    Some t \<Rightarrow> if is_complete t then [] else eval_failure_lines t
                  | None \<Rightarrow> [])
            in \<lparr>rp_exit = (if failures = [] then 0 else 1),
                 rp_out = (if as_json then [pretty (JArr (map drift_entry_json entries))]
                   else table_lines [''member'', ''status'', ''current'', ''expected'', ''booted'', ''captured''] (map drift_cells entries)
                     (drift_caption (expected \<noteq> None) do_eval (dw_rev w) (fst (dw_cached w)))),
                 rp_err = notices @ failures, rp_saved = saved\<rparr>)"

section \<open>Dispatch\<close>

text \<open>What the argument parser matched; \<open>'m\<close> are the matches of an engine's own subcommand.\<close>

datatype tui_matches =
    TuiRoot bool
  | TuiDeployArgs "string option" bool bool bool "int option"
  | TuiAttachArgs "string option"

datatype 'm cli_command =
    MembersCmd bool
  | GroupsCmd bool
  | ResolveCmd "string option"
  | DriftCmd bool bool bool
  | VersionCmd
  | McpCmd
  | TuiCmd tui_matches
  | EngineCmd string 'm
  | NoCmd

datatype tui_request =
    ExplorerRequest bool
  | DeployRequest string bool bool bool int
  | AttachRequest string

definition tui_request_of :: "tui_matches \<Rightarrow> tui_request" where
  "tui_request_of m =
    (case m of
       TuiDeployArgs limit dry boot halt throttle \<Rightarrow> DeployRequest (opt_default [] limit) dry boot halt (opt_default 4 throttle)
     | TuiAttachArgs run_id \<Rightarrow> AttachRequest (opt_default [] run_id)
     | TuiRoot debug_mcp \<Rightarrow> ExplorerRequest debug_mcp)"

record 'm cli =
  cli_engines :: "(string \<times> (inventory \<Rightarrow> 'm \<Rightarrow> report)) list"
  cli_mcp :: "(string \<Rightarrow> report) option"
  cli_tui :: "(string \<Rightarrow> tui_request \<Rightarrow> report) option"

definition cli_new :: "'m cli" where
  "cli_new = \<lparr>cli_engines = [], cli_mcp = None, cli_tui = None\<rparr>"

definition cli_register :: "string \<Rightarrow> (inventory \<Rightarrow> 'm \<Rightarrow> report) \<Rightarrow> 'm cli \<Rightarrow> 'm cli" where
  "cli_register name engine c = c\<lparr>cli_engines := cli_engines c @ [(name, engine)]\<rparr>"

definition loaded_or_refused :: "(string, inventory) result \<Rightarrow> (inventory \<Rightarrow> report) \<Rightarrow> report" where
  "loaded_or_refused loaded f = (case loaded of Inr iv \<Rightarrow> f iv | Inl e \<Rightarrow> refused [''mandala: '' @ e])"

text \<open>\<open>parsed\<close> is the parser's answer: on an error, whether it goes to standard error and its text; else the flake and the
  command. \<open>load\<close> loads the inventory of a flake.\<close>

definition run_from ::
  "(json \<Rightarrow> string) \<Rightarrow> string \<Rightarrow> (string \<Rightarrow> (string, inventory) result) \<Rightarrow> (string \<Rightarrow> drift_world) \<Rightarrow>
    (bool \<times> string, string option \<times> 'm cli_command) result \<Rightarrow> 'm cli \<Rightarrow> report" where
  "run_from pretty version load world parsed c =
    (case parsed of
       Inl (stderr, text) \<Rightarrow>
         if stderr then \<lparr>rp_exit = 2, rp_out = [], rp_err = [text], rp_saved = None\<rparr> else printed [text]
     | Inr (flake, cmd) \<Rightarrow>
         let flake = opt_default ''.'' flake; with = loaded_or_refused (load flake)
         in (case cmd of
               MembersCmd as_json \<Rightarrow> with (\<lambda>iv. run_members pretty iv as_json)
             | GroupsCmd as_json \<Rightarrow> with (\<lambda>iv. run_groups pretty iv as_json)
             | ResolveCmd selector \<Rightarrow> with (\<lambda>iv. run_resolve iv selector)
             | DriftCmd do_eval refresh as_json \<Rightarrow> with (\<lambda>iv. run_drift pretty (world flake) iv do_eval refresh as_json)
             | VersionCmd \<Rightarrow> printed [version]
             | McpCmd \<Rightarrow>
                 (case cli_mcp c of
                    Some launch \<Rightarrow> launch flake
                  | None \<Rightarrow> refused [''mandala: the MCP server is not available in this build''])
             | TuiCmd m \<Rightarrow>
                 (case cli_tui c of
                    Some launch \<Rightarrow> launch flake (tui_request_of m)
                  | None \<Rightarrow> refused [''mandala: the TUI is not available in this build''])
             | EngineCmd name m \<Rightarrow>
                 (case map_of (cli_engines c) name of
                    Some engine \<Rightarrow> with (\<lambda>iv. engine iv m)
                  | None \<Rightarrow> refused [''mandala: unknown command '' @ name])
             | NoCmd \<Rightarrow> \<lparr>rp_exit = 2, rp_out = [], rp_err = [], rp_saved = None\<rparr>))"

section \<open>What the exit code says\<close>

lemma expected_of_complete:
  "expected_of w True nodes = Inr (expected, saved) \<longleftrightarrow>
    (\<exists>t. dw_eval w nodes = Inr t \<and> expected = Some t \<and> saved = (if is_complete t then Some (dw_rev w, tl_paths t) else None))"
  by (cases "dw_eval w nodes") (auto simp: expected_of_def)

text \<open>\<^verbatim>\<open>drift --eval\<close> ends with 0 only if every host's expectation was evaluated; then the cache holds all of them, and no row
  says that an evaluation failed.\<close>

lemma evaluated_drift_succeeds:
  assumes "rp_exit (run_drift pretty w iv True refresh as_json) = 0"
  shows "\<exists>t. dw_eval w (deploy_nodes iv) = Inr t \<and> tl_errors t = [] \<and>
    rp_saved (run_drift pretty w iv True refresh as_json) = Some (dw_rev w, tl_paths t) \<and>
    (\<forall>e\<in>set (drift_compare (dw_iso w) (deploy_nodes iv) (dw_snapshots w) (Some t) (Some default_max_age) (dw_now w)).
      de_status e \<noteq> DriftEvalFailed)"
proof (cases "dw_eval w (deploy_nodes iv)")
  case (Inl e)
  then show ?thesis using assms by (simp add: run_drift_def expected_of_def)
next
  case (Inr t)
  then have "is_complete t" using assms
    by (simp add: run_drift_def expected_of_def Let_def eval_failure_lines_def split: if_splits)
  moreover have "de_status (compare_host p sn t d n h) \<noteq> DriftEvalFailed" if "tl_errors t = []" for p sn d n h
    using that by (auto simp: compare_host_def judge_def Let_def split: option.splits)
  ultimately show ?thesis using Inr
    by (auto simp: run_drift_def expected_of_def Let_def is_complete_def set_drift_compare)
qed

text \<open>What \<^verbatim>\<open>resolve\<close> prints is what a gated tool wants confirmed.\<close>

lemma resolve_prints_the_limit:
  "rp_exit (run_resolve iv (Some selector)) = 0 \<Longrightarrow> to_limit iv selector = Inr (join '','' (rp_out (run_resolve iv (Some selector))))"
  by (auto simp: run_resolve_def to_limit_def refused_def printed_def split: sum.splits)

lemma unloaded_commands_fail:
  "load (opt_default ''.'' flake) = Inl e \<Longrightarrow> cmd \<in> {MembersCmd b, GroupsCmd b, ResolveCmd sel, DriftCmd b b' b''} \<Longrightarrow>
    run_from pretty version load world (Inr (flake, cmd)) c = refused [''mandala: '' @ e]"
  by (auto simp: run_from_def loaded_or_refused_def)

section \<open>The frontends agree\<close>

text \<open>The command line and the tool server find the same world, if evaluations that fail may differ in what they report.\<close>

definition same_world :: "drift_world \<Rightarrow> mcp_env \<Rightarrow> bool" where
  "same_world w env \<longleftrightarrow>
    dw_rev w = me_rev env \<and> dw_cached w = me_cached env \<and> dw_snapshots w = me_snapshots env \<and> dw_iso w = me_iso env \<and>
    dw_now w = me_now env \<and> (\<forall>nodes. ok (dw_eval w nodes) = ok (me_eval env nodes))"

definition same_inputs :: "drift_world \<Rightarrow> drift_inputs \<Rightarrow> bool" where
  "same_inputs w io \<longleftrightarrow> di_parse io = dw_iso w \<and> di_snapshots io = dw_snapshots w \<and> di_now io = dw_now w"

definition judged :: "drift_world \<Rightarrow> inventory \<Rightarrow> toplevels option \<Rightarrow> drift_entry list" where
  "judged w iv expected =
    drift_compare (dw_iso w) (deploy_nodes iv) (dw_snapshots w) expected (Some default_max_age) (dw_now w)"

lemma ok_Inr [simp]: "ok r = Some x \<longleftrightarrow> r = Inr x"
  by (cases r) auto

lemma serve_served:
  assumes "served env s = Some iv"
  obtains t xs where "serve_inventory env s = (Inr iv, t)" "ms_effects t = ms_effects s @ xs" "filter is_SavesExpected xs = []"
proof (cases "ms_inventory s")
  case None
  then have "me_fresh env = Inr iv" using assms by (simp add: served_def)
  with None show thesis by (intro that [of _ "[EvaluatesInventory]"]) (auto simp: serve_inventory_def perform_def)
next
  case (Some iv')
  then show thesis using assms by (intro that [of s "[]"]) (auto simp: serve_inventory_def served_def)
qed

lemma eval_same: "same_world w env \<Longrightarrow> ok (dw_eval w nodes) = ok (me_eval env nodes)"
  by (simp add: same_world_def)

lemma expectations_agree:
  assumes "same_world w env" and "expected_of w do_eval nodes = Inr (expected, saved)" and "json_get ''eval_error'' j = None"
  obtains j' t xs where "drift_expected env do_eval nodes j s = ((expected, j'), t)" "ms_effects t = ms_effects s @ xs"
    "filter is_SavesExpected xs = (case saved of None \<Rightarrow> [] | Some (r, paths) \<Rightarrow> [SavesExpected r paths])"
    "json_get ''eval_error'' j' = None"
proof (cases do_eval)
  case True
  obtain t where t: "dw_eval w nodes = Inr t" "expected = Some t"
    "saved = (if is_complete t then Some (dw_rev w, tl_paths t) else None)"
    using assms(2) True expected_of_complete [of w nodes expected saved] by auto
  have e: "me_eval env nodes = Inr t" using t(1) eval_same [OF assms(1), of nodes] by (metis ok.simps(1) ok_Inr)
  have r: "dw_rev w = me_rev env" using assms(1) by (simp add: same_world_def)
  show thesis
  proof (cases "is_complete t")
    case True
    show thesis
      by (rule that [where xs = "[EvaluatesToplevels nodes, SavesExpected (me_rev env) (tl_paths t)]" and
          j' = "set_field ''expected_source'' (JStr ''eval'') j"])
        (use True \<open>do_eval\<close> t e r assms(3) in \<open>auto simp: drift_expected_def perform_def json_get_set_field\<close>)
  next
    case False
    show thesis
      by (rule that [where xs = "[EvaluatesToplevels nodes]" and j' = "set_field ''expected_source'' (JStr ''eval'')
          (set_field ''eval_failed'' (json_strs (bm_keys (tl_errors t))) (set_field ''ok'' (JBool False) j))"])
        (use False \<open>do_eval\<close> t e assms(3) in \<open>auto simp: drift_expected_def perform_def json_get_set_field\<close>)
  qed
next
  case False
  have eqs: "dw_rev w = me_rev env" "dw_cached w = me_cached env" using assms(1) by (simp_all add: same_world_def)
  define j' where "j' = (if cache_fresh (fst (me_cached env)) (me_rev env) then set_field ''expected_source'' (JStr ''cache'') j else j)"
  show thesis
    by (rule that [where xs = "[]" and j' = j'])
      (use False assms(2,3) eqs in \<open>auto simp: drift_expected_def expected_of_def j'_def json_get_set_field split: if_splits\<close>)
qed

lemma failures_agree:
  assumes "same_world w env" and "expected_of w do_eval nodes = Inl e"
  obtains v t where "drift_expected env do_eval nodes j s = ((None, set_field ''eval_error'' v j), t)"
    "ms_effects t = ms_effects s @ [EvaluatesToplevels nodes]"
proof -
  have do_eval: "do_eval" and "dw_eval w nodes = Inl e" using assms(2) by (auto simp: expected_of_def split: if_splits sum.splits)
  then obtain f where "me_eval env nodes = Inl f" using eval_same [OF assms(1), of nodes] by (cases "me_eval env nodes") auto
  with do_eval show thesis by (intro that) (auto simp: drift_expected_def perform_def)
qed

text \<open>What the entries are judged by: nothing, when an evaluation was asked for and failed as a whole.\<close>

definition expectation :: "drift_world \<Rightarrow> bool \<Rightarrow> string list \<Rightarrow> toplevels option" where
  "expectation w do_eval nodes = (case expected_of w do_eval nodes of Inl _ \<Rightarrow> None | Inr (expected, _) \<Rightarrow> expected)"


text \<open>Two nodes without snapshots, evaluated.\<close>

definition sample_nodes :: inventory where
  "sample_nodes = sample_inventory\<lparr>iv_aggregate := (iv_aggregate sample_inventory)\<lparr>ag_extra :=
    [(''projections'', JObj [(''deploy'', JObj [(''nodes'', JArr [JStr ''web'', JStr ''db''])])])]\<rparr>\<rparr>"

definition sample_drift_world :: drift_world where
  "sample_drift_world = \<lparr>dw_survey = Inl ''none'', dw_rev = None, dw_cached = (None, []), dw_eval = \<lambda>_. Inr toplevels_default,
    dw_snapshots = [], dw_iso = \<lambda>_. None, dw_now = 0\<rparr>"

definition sample_inputs :: drift_inputs where
  "sample_inputs = \<lparr>di_parse = \<lambda>_. None, di_snapshots = [], di_now = 0\<rparr>"


end
