(* ===== verification/McpEffects.thy ===== *)
theory McpEffects
  imports Cli Frontend
begin

text \<open>The production side of the tool server's effects (\<^verbatim>\<open>RealEffects\<close> in \<^verbatim>\<open>mandala-mcp/src/effects.rs\<close>), over the models of the
  evaluator, of drift and of the runner. Loading the inventory is \<^const>\<open>fresh_inventory\<close>.\<close>

section \<open>Evaluation\<close>

definition as_failure :: "(drift_error, toplevels) result \<Rightarrow> (eval_failure, toplevels) result" where
  "as_failure r =
    (case r of
       Inr t \<Rightarrow> Inr t
     | Inl e \<Rightarrow> Inl \<lparr>ef_command = None, ef_exit_code = None, ef_output = show_drift_error e\<rparr>)"

definition real_eval_expected ::
  "eval_env \<Rightarrow> (json \<Rightarrow> string) \<Rightarrow> string \<Rightarrow> string list \<Rightarrow> eval_state \<Rightarrow> ((eval_failure, toplevels) result \<times> eval_state) option" where
  "real_eval_expected env render flake hosts st =
    map_option (\<lambda>(r, st). (as_failure r, st)) (eval_expected env render flake hosts st)"

section \<open>Commands\<close>

text \<open>A command with its directory and the variables that are set for it; its input is closed.\<close>

record captured_command =
  cc_argv :: "string list"
  cc_dir :: string
  cc_set :: "(string \<times> string) list"

text \<open>How a captured command ends: it cannot be found, it cannot be started, or its output and status.\<close>

datatype captured = ProgramNotFound | SpawnFailed string | Captured string string exit_status

definition survey_request :: "string \<Rightarrow> string \<Rightarrow> captured_command" where
  "survey_request dir state = \<lparr>cc_argv = [''ansible-playbook'', ''mandala.fleet.state''], cc_dir = dir,
    cc_set = [(''MANDALA_FLEET_STATE'', state)]\<rparr>"

definition captured_output :: "string \<Rightarrow> string \<Rightarrow> exit_status \<Rightarrow> adhoc_output" where
  "captured_output out err status = \<lparr>ao_stdout = utf8_lossy out, ao_stderr = utf8_lossy err, ao_code = wait_code status\<rparr>"

text \<open>\<open>not_found\<close> is how the error of a missing program is shown.\<close>

definition real_survey ::
  "(captured_command \<Rightarrow> captured) \<Rightarrow> string \<Rightarrow> (string \<Rightarrow> string option) \<Rightarrow> string \<Rightarrow> (string, adhoc_output) result" where
  "real_survey exec not_found env dir =
    (case exec (survey_request dir (state_dir env)) of
       ProgramNotFound \<Rightarrow> Inl not_found
     | SpawnFailed e \<Rightarrow> Inl e
     | Captured out err status \<Rightarrow> Inr (captured_output out err status))"

definition adhoc_request :: "string \<Rightarrow> string list \<Rightarrow> captured_command" where
  "adhoc_request dir argv = \<lparr>cc_argv = argv, cc_dir = dir, cc_set = [(''ANSIBLE_DEPRECATION_WARNINGS'', ''False'')]\<rparr>"

definition real_run_adhoc :: "(captured_command \<Rightarrow> captured) \<Rightarrow> string \<Rightarrow> string list \<Rightarrow> (adhoc_error, adhoc_output) result" where
  "real_run_adhoc exec dir argv =
    (case exec (adhoc_request dir argv) of
       ProgramNotFound \<Rightarrow> Inl AdhocNotFound
     | SpawnFailed e \<Rightarrow> Inl (AdhocOther e)
     | Captured out err status \<Rightarrow> Inr (captured_output out err status))"

section \<open>Launches\<close>

definition requested_deploy :: "string \<Rightarrow> string \<Rightarrow> bool \<Rightarrow> bool \<Rightarrow> int \<Rightarrow> deploy_frontend" where
  "requested_deploy flake limit dry boot throttle =
    (deploy_new limit)\<lparr>dr_flake := flake, dr_dry := dry, dr_boot := boot, dr_throttle := throttle\<rparr>"

text \<open>The polls of the discovery loop; \<^const>\<open>None\<close> while it still waits at the end of the list.\<close>

fun discovery_loop ::
  "(string \<Rightarrow> string) \<Rightarrow> frontend_view list \<Rightarrow> deploy_frontend \<Rightarrow> ((string, unit) result \<times> deploy_frontend) option" where
  "discovery_loop run_path [] r = None"
| "discovery_loop run_path (v # vs) r =
    (case discover_run v run_path r of
       (Inr True, r) \<Rightarrow> Some (Inr (), r)
     | (Inr False, r) \<Rightarrow> discovery_loop run_path vs r
     | (Inl e, r) \<Rightarrow> Some (Inl e, r))"

definition attached_run :: "deploy_frontend \<Rightarrow> (string, deploy_started) result" where
  "attached_run r =
    (case dr_run_id r of
       None \<Rightarrow> Inl ''native deploy attached without a run id''
     | Some run_id \<Rightarrow>
         (case dr_events_dir r of
            None \<Rightarrow> Inl ''native deploy attached without a registry path''
          | Some dir \<Rightarrow> Inr \<lparr>ds_run_id = run_id, ds_events_dir = dir\<rparr>))"

text \<open>\<open>start\<close> is \<^const>\<open>deploy_start\<close> on its surroundings.\<close>

definition real_launch_deploy ::
  "(deploy_frontend \<Rightarrow> (string, unit) result \<times> deploy_frontend \<times> file_dir) \<Rightarrow> (string \<Rightarrow> string) \<Rightarrow> frontend_view list \<Rightarrow>
    string \<Rightarrow> string \<Rightarrow> bool \<Rightarrow> bool \<Rightarrow> int \<Rightarrow> (string, deploy_started) result option" where
  "real_launch_deploy start run_path views flake limit dry boot throttle =
    (case start (requested_deploy flake limit dry boot throttle) of
       (Inl e, r, dir) \<Rightarrow> Some (Inl e)
     | (Inr _, r, dir) \<Rightarrow>
         map_option (\<lambda>(res, r). case res of Inl e \<Rightarrow> Inl e | Inr _ \<Rightarrow> attached_run r) (discovery_loop run_path views r))"

definition real_launch_command ::
  "command_env \<Rightarrow> (string \<Rightarrow> string) \<Rightarrow> string list \<Rightarrow> string \<Rightarrow> string option \<Rightarrow> meta \<Rightarrow> (string, command_launch) result \<times> run_dir" where
  "real_launch_command env log_path argv kind cwd extra =
    (case command_start env ((command_new argv kind)\<lparr>cr_cwd := cwd, cr_extra := extra\<rparr>) of
       (Inl e, r, dir) \<Rightarrow> (Inl e, dir)
     | (Inr _, r, dir) \<Rightarrow>
         (Inr \<lparr>cl_run_id = opt_default [] (cr_run_id r), cl_log = (case cr_run_id r of None \<Rightarrow> [] | Some i \<Rightarrow> log_path i),
            cl_launched = cr_launched r\<rparr>, dir))"

section \<open>A launch comes to an end\<close>

lemma started_frontend:
  assumes "deploy_start env self configured executable supervisor launch cwd r = (Inr u, r', dir)"
  shows "\<exists>path pid. r' = r\<lparr>dr_launch_dir := Some path, dr_child := Some pid\<rparr>"
  using assms by (auto simp: deploy_start_def Let_def split: option.splits sum.splits prod.splits)

definition undiscovered :: "deploy_frontend \<Rightarrow> bool" where
  "undiscovered r \<longleftrightarrow> dr_child r \<noteq> None \<and> dr_tailer r = None \<and> dr_discovery_error r = None \<and> dr_exited r = None"

lemma still_undiscovered:
  "discover_run v run_path r = (Inr False, r') \<Longrightarrow> undiscovered r \<Longrightarrow> undiscovered r' \<and> fv_wait v = None"
  by (auto simp: discover_run_def undiscovered_def Let_def poll_exit_def split: option.splits if_splits)

lemma discovered:
  assumes "discover_run v run_path r = (Inr True, r')" and "undiscovered r"
  shows "\<exists>i. attached_run r' = Inr \<lparr>ds_run_id = i, ds_events_dir = run_path i\<rparr> \<and>
    is_valid_run_id (fv_timestamp_ok v) i \<and> fv_open v i \<noteq> None"
proof -
  have "dr_tailer r = None" "dr_discovery_error r = None" using assms(2) by (simp_all add: undiscovered_def)
  from discovery_adopts_published_run [OF assms(1) this] show ?thesis by (auto simp: attached_run_def)
qed

definition found_by :: "frontend_view list \<Rightarrow> (string \<Rightarrow> string) \<Rightarrow> deploy_started \<Rightarrow> bool" where
  "found_by views run_path d \<longleftrightarrow> ds_events_dir d = run_path (ds_run_id d) \<and>
    list_ex (\<lambda>v. is_valid_run_id (fv_timestamp_ok v) (ds_run_id d) \<and> fv_open v (ds_run_id d) \<noteq> None) views"

lemma discovery_loop_ends:
  assumes "list_ex (\<lambda>v. fv_wait v \<noteq> None) views" and "undiscovered r"
  shows "\<exists>res r'. discovery_loop run_path views r = Some (res, r') \<and>
    (res = Inr () \<longrightarrow> (\<exists>d. attached_run r' = Inr d \<and> found_by views run_path d))"
  using assms
proof (induction run_path views r rule: discovery_loop.induct)
  case (2 run_path v vs r)
  obtain res r' where d: "discover_run v run_path r = (res, r')" by fastforce
  consider (yes) "res = Inr True" | (no) "res = Inr False" | (failed) e where "res = Inl e" by (cases res) auto
  then show ?case
  proof cases
    case yes
    then show ?thesis using d discovered [of v run_path r r'] 2(3) by (auto simp: found_by_def)
  next
    case no
    then have nx: "undiscovered r'" "fv_wait v = None" using d still_undiscovered [of v run_path r r'] 2(3) by simp_all
    then have "list_ex (\<lambda>v. fv_wait v \<noteq> None) vs" using 2(2) by simp
    then obtain res' r'' where "discovery_loop run_path vs r' = Some (res', r'')"
      "res' = Inr () \<longrightarrow> (\<exists>d. attached_run r'' = Inr d \<and> found_by vs run_path d)"
      using 2(1) [OF d [symmetric]] no nx(1) by blast
    then show ?thesis using d no by (auto simp: found_by_def)
  qed (use d in auto)
qed simp

lemma launch_command_line:
  "deploy_argv configured executable (requested_deploy flake limit dry boot throttle) =
    [utf8_lossy (opt_default ''mandala'' (opt_or configured executable)), ''--flake'', flake, ''deploy'', ''run'', ''--limit'', limit,
      ''--throttle'', show_int throttle] @ (if dry then [''--dry-activate''] else []) @ (if boot then [''--boot''] else [])"
  by (simp add: deploy_argv_def requested_deploy_def deploy_new_def)

text \<open>The command line of a launch that no confirmation stands behind says that nothing is to be activated.\<close>

lemma unconfirmed_launch_is_dry:
  assumes "LaunchesDeploy limit dry boot throttle \<in> set xs"
    and "list_all (remit env s args i b) xs" and "\<And>target. \<not> confirmed_target env s args target"
  shows "''--dry-activate'' \<in> set (deploy_argv configured executable (requested_deploy flake limit dry boot throttle))"
proof -
  have "\<not> changes_fleet (LaunchesDeploy limit dry boot throttle)"
    using assms by (auto simp: list_all_iff remit_def permitted_def)
  then show ?thesis by (simp add: launch_command_line changes_fleet_def)
qed

section \<open>Properties\<close>

text \<open>C32: The deploy tool's launch comes to an end: as soon as the engine has exited, if not before, it has answered; and
  the run it answers with is one whose id the registry accepts and in which it opened the run's directory.\<close>

theorem deploy_launch_ends:
  assumes "list_ex (\<lambda>v. fv_wait v \<noteq> None) views"
  shows "\<exists>res. real_launch_deploy (deploy_start env self configured executable supervisor launch cwd) run_path views
      flake limit dry boot throttle = Some res \<and>
    (case res of Inl e \<Rightarrow> True | Inr d \<Rightarrow> found_by views run_path d)"
proof -
  let ?r = "requested_deploy flake limit dry boot throttle"
  obtain res r dir where s: "deploy_start env self configured executable supervisor launch cwd ?r = (res, r, dir)"
    by (rule prod_cases3)
  show ?thesis
  proof (cases res)
    case (Inl e)
    then show ?thesis using s by (simp add: real_launch_deploy_def)
  next
    case (Inr u)
    then obtain path pid where "r = ?r\<lparr>dr_launch_dir := Some path, dr_child := Some pid\<rparr>"
      using started_frontend s by blast
    then have "undiscovered r" by (simp add: undiscovered_def requested_deploy_def deploy_new_def)
    then obtain res' r' where "discovery_loop run_path views r = Some (res', r')"
      "res' = Inr () \<longrightarrow> (\<exists>d. attached_run r' = Inr d \<and> found_by views run_path d)"
      using discovery_loop_ends [OF assms] by blast
    then show ?thesis using s Inr by (cases res') (auto simp: real_launch_deploy_def)
  qed
qed

definition sample_supervisor :: supervisor_env where
  "sample_supervisor = \<lparr>se_io = \<lambda>_. None, se_encode = \<lambda>_. Inr ''{}'', se_decode = \<lambda>_. Inl ''none'', se_canonical = Inr,
    se_removes = True, se_lock_error = None, se_spawn = \<lambda>_. Inr 9, se_signals = None, se_log_error = None, se_engine = \<lambda>_ _. None,
    se_wait = Inr (ExitCode 0)\<rparr>"

theorem deploy_launch_ends_witness:
  "\<exists>res. real_launch_deploy (deploy_start sample_supervisor 7 None None (Some ''/bin/mandala-run-supervisor'') (Inr ''/l/1-7-0'') (Inr ''/''))
      id [sample_view] ''.'' ''web'' True False 4 = Some res"
  using deploy_launch_ends [of "[sample_view]" sample_supervisor 7 None None "Some ''/bin/mandala-run-supervisor''"
      "Inr ''/l/1-7-0''" "Inr ''/''" id "''.''" "''web''" True False 4]
  by (auto simp: sample_view_def)

end
