(* ===== verification/Spec2Isabelle.thy ===== *)
theory Spec2Isabelle
  imports Forest ForestView Durations Inventory EventStream BuildLog FileStore Registry EvalWorker Drift FanOut ProcessGroups
    Frontend FleetSession Keys McpServer TuiContext Cli McpEffects
begin

text \<open>A verification development of mandala, the fleet engine for Nix flakes.

  The program evaluates a fleet description with Nix, checks it and answers selectors over it
  (\<^verbatim>\<open>mandala-core/src/eval.rs\<close>, \<^verbatim>\<open>inventory.rs\<close>); plans a deployment of the selected hosts, registers
  it as a run directory, builds all profiles with one Nix process whose log it parses and summarises,
  and then copies and activates the hosts, a bounded number at a time (\<^verbatim>\<open>engines/deploy.rs\<close>, the
  crate \<^verbatim>\<open>mandala-deploy\<close>). A run is known to the outside only by its directory: a metadata file and
  append-only event streams, which other processes read incrementally (\<^verbatim>\<open>runner.rs\<close>), list, prune
  (\<^verbatim>\<open>registry.rs\<close>) and compare with what is deployed (\<^verbatim>\<open>drift.rs\<close>).

  Theories and sources. \<^theory_text>\<open>Prelude\<close>, \<^theory_text>\<open>OrderedMap\<close>, \<^theory_text>\<open>Json\<close>, \<^theory_text>\<open>Utf8\<close> and \<^theory_text>\<open>BoundedQueue\<close> hold the
  shared vocabulary: text is the list of its UTF-8 bytes, a \<^verbatim>\<open>BTreeMap\<close> the list of its entries in
  increasing order of keys, fallible code a sum type. \<theory_text>\<open>JsonText\<close> is one printer and reader of JSON text, with a reader's limit
  of 127 levels; no model uses it, but it shows that what the properties ask of the JSON library can be had.

  The build view (crate \<^verbatim>\<open>nix-build-forest\<close>): \<^theory_text>\<open>NixMsg\<close> is \<^verbatim>\<open>msg.rs\<close>, the records of Nix's internal log;
  \<^theory_text>\<open>Aterm\<close> is \<^verbatim>\<open>drv.rs\<close>, the parser for derivations; \<^theory_text>\<open>Forest\<close> is the state machine of \<^verbatim>\<open>forest.rs\<close>,
  with \<open>build_forest\<close> as its state and one function per handler; \<^theory_text>\<open>ForestView\<close> is its snapshot and
  summary and the display order of \<^verbatim>\<open>sort.rs\<close>; \<^theory_text>\<open>Durations\<close> is \<^verbatim>\<open>duration.rs\<close>.

  The fleet (\<^verbatim>\<open>mandala-core\<close>): \<^theory_text>\<open>Inventory\<close> is \<^verbatim>\<open>inventory.rs\<close>, \<^theory_text>\<open>Eval\<close> is \<^verbatim>\<open>eval.rs\<close>, \<^theory_text>\<open>Drift\<close> is
  \<^verbatim>\<open>drift.rs\<close>; \<^theory_text>\<open>EvalWorker\<close> is the process at the other end of the client's pipe (crate \<^verbatim>\<open>mandala-eval-worker\<close>), with
  the Nix library as a record of functions, and what the client receives from it.

  Runs on disk: \<^theory_text>\<open>BuildLog\<close> is \<^verbatim>\<open>build_log.rs\<close> and the event writer of \<^verbatim>\<open>runner.rs\<close>; \<^theory_text>\<open>EventStream\<close> is
  the reading side of \<^verbatim>\<open>runner.rs\<close>; \<^theory_text>\<open>FileStore\<close> is a directory under crashes; \<^theory_text>\<open>Registry\<close> is
  \<^verbatim>\<open>registry.rs\<close>.

  The deployment: \<^theory_text>\<open>DeployData\<close> and \<^theory_text>\<open>Activation\<close> are the crate \<^verbatim>\<open>mandala-deploy\<close> (\<^verbatim>\<open>data.rs\<close>, \<^verbatim>\<open>lib.rs\<close>,
  \<^verbatim>\<open>push.rs\<close>, \<^verbatim>\<open>deploy.rs\<close>), with \<^theory_text>\<open>ProcessGroups\<close> for \<^verbatim>\<open>process.rs\<close>; \<^verbatim>\<open>engines/deploy.rs\<close> is divided
  into \<^theory_text>\<open>DeployPlan\<close> (settings, plan, registration), \<^theory_text>\<open>ProfileBuild\<close> (progress counters, resolution and
  recovery of profiles), \<^theory_text>\<open>DeployBuild\<close> (the batch build as a whole), \<^theory_text>\<open>DeployHost\<close> (one host) and
  \<^theory_text>\<open>FanOut\<close> (all hosts, settlement and the controller).

  The frontends' side of a run: \<^theory_text>\<open>Launches\<close> is the hand-over of a deployment to its supervisor through a launch
  directory, and the pruning of those directories; \<^theory_text>\<open>Frontend\<close> is the handle a frontend keeps on a run
  (\<open>deploy_frontend\<close> for \<^verbatim>\<open>DeployRun\<close>, \<open>command_run\<close> for \<^verbatim>\<open>CommandRun\<close>), both in \<^verbatim>\<open>runner.rs\<close>.

  The shared context of a checkout (\<^verbatim>\<open>mandala-context\<close>): \<^theory_text>\<open>Identity\<close> is \<^verbatim>\<open>identity.rs\<close>, \<^verbatim>\<open>discovery.rs\<close> and the
  frames of \<^verbatim>\<open>protocol.rs\<close>; \<^theory_text>\<open>Acquire\<close> is the election (\<^verbatim>\<open>lib.rs\<close>), first of one contender, then of any number in
  any interleaving (\<open>race_reachable\<close>), where a set of disturbances says what else may happen: a leader's death, a failed
  publication, a foreign service that releases its port, a leader that is not recognised; the election is safe without them,
  and a lemma for each of the four shows two leaders with it; \<^theory_text>\<open>LeaderHost\<close> is \<^verbatim>\<open>host.rs\<close>, with one \<open>conn\<close> per connection and its tasks as
  explicit entries that may run in any order; \<^theory_text>\<open>FleetSession\<close> is the client (\<^verbatim>\<open>client.rs\<close>) and the session that
  fails over between leaders (\<^verbatim>\<open>fleet.rs\<close>).

  The terminal interface (\<^verbatim>\<open>mandala-tui\<close>): \<^theory_text>\<open>Widgets\<close> is \<^verbatim>\<open>scroll.rs\<close>, \<^verbatim>\<open>select.rs\<close>, \<^verbatim>\<open>hit.rs\<close> and the filter of \<^verbatim>\<open>ansi.rs\<close>;
  \<^theory_text>\<open>Explorer\<close> is \<^verbatim>\<open>state.rs\<close> with the handlers of \<^verbatim>\<open>app.rs\<close> that settle its jobs; \<^theory_text>\<open>Screens\<close> is the state of \<^verbatim>\<open>screen.rs\<close>;
  \<^theory_text>\<open>Keys\<close> is \<^verbatim>\<open>keymap.rs\<close> and the rest of \<^verbatim>\<open>app.rs\<close>: one step (\<open>app_step\<close>) per key, mouse event, poll and message;
  \<^theory_text>\<open>TuiContext\<close> is \<^verbatim>\<open>context.rs\<close>, which loads and evaluates through the tools of the leader, down to the tool server's model.

  The tool server (\<^verbatim>\<open>mandala-mcp\<close>): \<^theory_text>\<open>McpSnapshot\<close> is what \<^verbatim>\<open>server.rs\<close> reports of a run, within its bounds, and the wait of
  \<^verbatim>\<open>deploy_status\<close>; \<^theory_text>\<open>McpServer\<close> is the rest of \<^verbatim>\<open>server.rs\<close> with the arguments of \<^verbatim>\<open>tools.rs\<close>, the audit trail of \<^verbatim>\<open>activity.rs\<close>
  and the retry declaration of \<^verbatim>\<open>context.rs\<close>. A tool is a function on \<open>mcp_server\<close>, whose effects are collected in order.
  \<^theory_text>\<open>McpEffects\<close> is the production side of these effects (\<^verbatim>\<open>effects.rs\<close>). The command line, from the matched arguments on, is
  \<^theory_text>\<open>Cli\<close> (\<^verbatim>\<open>mandala-core/src/cli.rs\<close>, \<^verbatim>\<open>engines/ansible.rs\<close>): a command is a \<open>report\<close> of lines and exit code.

  What the lemmas show. Each theory proves the well-formedness of its state and that the operations
  keep it, what the operations compute on every branch, and what the next component needs of it. The
  properties that cross components are stated where the last of the components is: that the stream a
  host writes (\<^theory_text>\<open>DeployHost\<close>, through the writer of \<^theory_text>\<open>BuildLog\<close>) is read back by the tailer (\<^theory_text>\<open>EventStream\<close>)
  as the outcome the controller reports; that a registration (\<^theory_text>\<open>DeployPlan\<close>) is protected from pruning
  (\<^theory_text>\<open>Registry\<close>) at every moment; that an exit code of zero (\<^theory_text>\<open>FanOut\<close>) means that every target was
  built (\<^theory_text>\<open>DeployBuild\<close>) and activated (\<^theory_text>\<open>DeployHost\<close>, \<^theory_text>\<open>Activation\<close>); that a frontend reports success
  (\<^theory_text>\<open>Frontend\<close>) only for streams without an unsuccessful host (\<^theory_text>\<open>EventStream\<close>); that one contender leads a
  checkout (\<^theory_text>\<open>Acquire\<close>) and that callers of a session (\<^theory_text>\<open>FleetSession\<close>) never repeat a mutation when it dies;
  that a tool call (\<^theory_text>\<open>McpServer\<close>) acts only on the confirmed resolution of its selector (\<^theory_text>\<open>Inventory\<close>), leaves a line in the
  audit trail, and is harmless if the session may repeat it; that the command line (\<^theory_text>\<open>Cli\<close>), the tool server and the explorer
  (\<^theory_text>\<open>Explorer\<close>) show the same drift (\<^theory_text>\<open>Drift\<close>); that a client (\<^theory_text>\<open>Eval\<close>) gets what the worker (\<^theory_text>\<open>EvalWorker\<close>)
  evaluates; and that the launch of a deployment (\<^theory_text>\<open>McpEffects\<close>) ends with a run the
  registry knows or with an error.
  Interfaces are locales (\<open>ordered_map\<close>, \<open>bounded_queue\<close>, \<open>atomic_file\<close>, \<open>sticky_outcome\<close>, \<open>selector_resolver\<close>,
  \<open>override\<close>), each interpreted on the program's own definitions: the queue by the logs of the build forest, of the
  deploy frontend, of the activity panel and of the screens, the file by the registry, the caches and the discovery file.

  Parameters. What is not in the repository is an argument of the definitions that use it: the JSON
  reader and printer, the clock, the answers of Nix, SSH and other programs, the results of file
  operations (a failed write of the event writer leaves any number of its bytes in the file), the liveness of processes.
  Of the JSON library the properties only ask that a sorted object within the reader's depth (\<open>json_fits\<close>) comes back, and
  the value as it is where it holds no float (\<open>json_exact\<close>): \<open>meta_text\<close> for the metadata, \<open>json_lines\<close> for event records,
  \<open>json_wire\<close> for the frames of the worker, where values beyond the depth are refused. Concurrency is explicit: the fan-out (\<open>fan_step\<close>) and the
  process registry (\<open>process_step\<close>) are step relations whose schedules are arbitrary; two processes
  that race (\<open>de_waiter_first\<close>, \<open>de_confirm_race\<close>) settle in an order that is a parameter; a crash leaves
  any prefix of the file operations (\<open>crash_state\<close>).

  Fuel. The derivation parser takes fuel, three steps per byte, and is proved to answer within it
  (\<open>parse_derivation_answers\<close>); the resolution of pending derivations takes a bound on its rounds,
  and one that suffices exists whenever finitely many derivations are reachable
  (\<open>resolve_pending_closes\<close>, \<open>build_returns\<close>). All other recursion is structural or has a termination
  proof (the walk over a Nix value, \<open>value_to_json_at\<close>, by the depth it may still descend); the fan-out takes at most three steps per target (\<open>fan_out_ends\<close>).

  Not modelled. Drawing (\<^verbatim>\<open>plain.rs\<close>, \<^verbatim>\<open>widget.rs\<close>, the rendering functions of the terminal interface) is output; the set-up
  of the Nix library in the evaluation worker is one failing step; the arguments of the command line
  are parsed by a library outside the repository. Of the tool server, the transport is left out, and its calls settle one
  after the other. Timers of the event loop are left out: a poll may come
  at any moment.\<close>

end
